(* ===== verification/Prelude.thy ===== *)
theory Prelude
  imports Main "HOL-Library.Word" "HOL-Library.State_Monad"
begin

text \<open>
  Shared vocabulary of the development: the machine integer types of the firmware, byte
  buffers addressed by offset, the little-endian and big-endian packing the code writes out by
  hand, and the fact collections the component theories fill.
\<close>

unbundle bit_operations_syntax

type_synonym u8 = "8 word"
type_synonym u16 = "16 word"
type_synonym u32 = "32 word"

named_theorems hw_simps \<open>evaluation rules of the hardware primitives\<close>
named_theorems frame_simps \<open>components an operation leaves alone\<close>

section \<open>Machine words\<close>

lemma unat_less_256 [simp]: "unat (x :: u8) < 256"
  using unsigned_less [of x] by simp

lemma unat_less_65536 [simp]: "unat (x :: u16) < 65536"
  using unsigned_less [of x] by simp

lemma unat_less_2p32 [simp]: "unat (x :: u32) < 4294967296"
  using unsigned_less [of x] by simp

lemma unat_le_255 [simp]: "unat (x :: u8) \<le> 255"
  using unat_less_256 [of x] by linarith

lemma unat_le_65535 [simp]: "unat (x :: u16) \<le> 65535"
  using unat_less_65536 [of x] by linarith

lemma unat_of_nat_u8 [simp]: "unat (of_nat n :: u8) = n mod 256"
  by (simp add: unat_of_nat)

lemma unat_of_nat_u16 [simp]: "unat (of_nat n :: u16) = n mod 65536"
  by (simp add: unat_of_nat)

lemma unat_of_nat_u32: "unat (of_nat n :: u32) = n mod 4294967296"
  by (simp add: unat_of_nat)

lemma unat_add_u8: "unat (a + b :: u8) = (unat a + unat b) mod 256"
  by (simp add: unat_word_ariths)

lemma unat_sub_u8: "unat (a - b :: u8) = (if unat b \<le> unat a then unat a - unat b else 256 + unat a - unat b)"
  by (auto simp: unat_sub_if_size word_size)

lemma unat_ucast_widen [simp]:
  "unat (ucast (a :: u8) :: u16) = unat a" "unat (ucast (a :: u8) :: u32) = unat a"
  "unat (ucast (b :: u16) :: u32) = unat b"
  by (simp_all add: unsigned_ucast_eq take_bit_eq_mod order.strict_trans [OF unat_less_256]
      order.strict_trans [OF unat_less_65536])

lemma unat_ucast_narrow:
  "unat (ucast (c :: u32) :: u16) = unat c mod 65536" "unat (ucast (c :: u32) :: u8) = unat c mod 256"
  "unat (ucast (b :: u16) :: u8) = unat b mod 256"
  by (simp_all add: unsigned_ucast_eq take_bit_eq_mod)

text \<open>\<open>clock_time_exceed(ref, us)\<close> at the tick count \<open>now\<close>: 16 ticks per microsecond, modulo \<open>2^32\<close>.\<close>

definition clock_exceeds :: "u32 \<Rightarrow> u32 \<Rightarrow> u32 \<Rightarrow> bool" where
  "clock_exceeds now ref us = (us * 16 < now - ref)"

section \<open>Byte buffers\<close>

text \<open>
  A C array is a list; \<open>rd_bytes\<close> reads \<open>n\<close> cells from an offset and \<open>wr_bytes\<close> overwrites cells
  from an offset. Both are only meaningful inside the array: every component that uses them
  proves that its accesses stay inside.
\<close>

definition rd_bytes :: "'a list \<Rightarrow> nat \<Rightarrow> nat \<Rightarrow> 'a list" where
  "rd_bytes b off n = take n (drop off b)"

definition wr_bytes :: "'a list \<Rightarrow> nat \<Rightarrow> 'a list \<Rightarrow> 'a list" where
  "wr_bytes b off xs = take off b @ xs @ drop (off + length xs) b"

lemma length_rd_bytes [simp]: "off + n \<le> length b \<Longrightarrow> length (rd_bytes b off n) = n"
  by (simp add: rd_bytes_def)

lemma length_wr_bytes [simp]: "off + length xs \<le> length b \<Longrightarrow> length (wr_bytes b off xs) = length b"
  by (simp add: wr_bytes_def)

lemma nth_wr_bytes:
  assumes "off + length xs \<le> length b" "i < length b"
  shows "wr_bytes b off xs ! i = (if off \<le> i \<and> i < off + length xs then xs ! (i - off) else b ! i)"
  using assms by (auto simp: wr_bytes_def nth_append min_def)

lemma nth_rd_bytes: "off + n \<le> length b \<Longrightarrow> i < n \<Longrightarrow> rd_bytes b off n ! i = b ! (off + i)"
  by (simp add: rd_bytes_def)

lemma rd_wr_bytes_same:
  "off + length xs \<le> length b \<Longrightarrow> n \<le> length xs \<Longrightarrow> rd_bytes (wr_bytes b off xs) off n = take n xs"
  by (simp add: rd_bytes_def wr_bytes_def)

lemma rd_wr_bytes_other:
  assumes "off + length xs \<le> length b" "o2 + n \<le> length b" "o2 + n \<le> off \<or> off + length xs \<le> o2"
  shows "rd_bytes (wr_bytes b off xs) o2 n = rd_bytes b o2 n"
  by (rule nth_equalityI) (use assms in \<open>auto simp: nth_rd_bytes nth_wr_bytes\<close>)

section \<open>Two-byte packing\<close>

text \<open>\<open>lo8\<close> and \<open>hi8\<close> are the casts \<open>(u8)(x)\<close> and \<open>(u8)(x>>8)\<close>; \<open>mk16\<close> is \<open>hi<<8|lo\<close>.\<close>

definition lo8 :: "u16 \<Rightarrow> u8" where
  "lo8 x = ucast x"

definition hi8 :: "u16 \<Rightarrow> u8" where
  "hi8 x = ucast (drop_bit 8 x)"

definition mk16 :: "u8 \<Rightarrow> u8 \<Rightarrow> u16" where
  "mk16 hi lo = push_bit 8 (ucast hi) OR ucast lo"

lemma mk16_hi8_lo8 [simp]: "mk16 (hi8 x) (lo8 x) = x"
  unfolding mk16_def hi8_def lo8_def
  by (rule bit_word_eqI) (auto simp: bit_simps)

lemma lo8_mk16 [simp]: "lo8 (mk16 h l) = l"
  unfolding mk16_def lo8_def by (rule bit_word_eqI) (auto simp: bit_simps)

lemma hi8_mk16 [simp]: "hi8 (mk16 h l) = h"
  unfolding mk16_def hi8_def by (rule bit_word_eqI) (auto simp: bit_simps dest: bit_imp_le_length)

lemma unat_mk16: "unat (mk16 h l) = 256 * unat h + unat l"
proof -
  have "mk16 h l = push_bit 8 (ucast h) + ucast l"
    unfolding mk16_def by (rule disjunctive_add [symmetric]) (auto simp: bit_simps dest: bit_imp_le_length)
  moreover have "unat (push_bit 8 (ucast h :: u16)) = 256 * unat h"
    using unat_less_256 [of h]
    by (simp add: push_bit_eq_mult unat_word_ariths unsigned_ucast_eq take_bit_eq_mod
        del: unat_less_256)
  moreover have "256 * unat h + unat l < 65536"
    using unat_less_256 [of h] unat_less_256 [of l] by linarith
  ultimately show ?thesis by (simp add: unat_word_ariths unsigned_ucast_eq take_bit_eq_mod)
qed

end
