(* ===== verification/Fifo.thy ===== *)
theory Fifo
  imports Prelude
begin

text \<open>
  The ring buffer of \<open>proj/common/tutility.c\<close> (\<open>my_fifo_*\<close>), which carries every packet between
  the radio, the mesh stack and the host: a byte array of \<open>num\<close> slots of \<open>size\<close> bytes and two
  free-running 8-bit pointers. A packet is stored as a two-byte little-endian length followed by
  its bytes. The last part refines it to a bounded first-in first-out queue of byte strings.
\<close>

section \<open>The component\<close>

record my_fifo =
  fsize :: u16
  fnum :: u8
  wptr :: u8
  rptr :: u8
  fbuf :: "u8 list"

text \<open>Address of the slot a pointer selects: \<open>(ptr & (num-1)) * size\<close>.\<close>

definition fifo_slot :: "my_fifo \<Rightarrow> u8 \<Rightarrow> nat" where
  "fifo_slot f p = unat (p AND (fnum f - 1)) * unat (fsize f)"

definition my_fifo_init :: "my_fifo \<Rightarrow> u8 \<Rightarrow> u8 \<Rightarrow> u8 list \<Rightarrow> my_fifo" where
  "my_fifo_init f s n p = f\<lparr>fsize := ucast s, fnum := n, wptr := 0, rptr := 0, fbuf := p\<rparr>"

text \<open>A returned pointer is an offset into the array; the null pointer is \<open>None\<close>.\<close>

definition my_fifo_wptr :: "my_fifo \<Rightarrow> nat option" where
  "my_fifo_wptr f = (if wptr f - rptr f < fnum f then Some (fifo_slot f (wptr f)) else None)"

definition my_fifo_next :: "my_fifo \<Rightarrow> my_fifo" where
  "my_fifo_next f = f\<lparr>wptr := wptr f + 1\<rparr>"

definition my_fifo_push :: "my_fifo \<Rightarrow> u8 list \<Rightarrow> u16 \<Rightarrow> u8 list \<Rightarrow> u8 \<Rightarrow> int \<times> my_fifo" where
  "my_fifo_push f p n head head_len =
     (if fnum f \<le> wptr f - rptr f then (-1, f)
      else if unat (fsize f) < unat n + (2 + unat head_len) then (-1, f)
      else let len = unat n + unat head_len;
               pd = fifo_slot f (wptr f);
               bytes = [of_nat (len mod 256), of_nat (len div 256)]
                         @ take (unat head_len) head @ take (unat n) p
           in (0, f\<lparr>fbuf := wr_bytes (fbuf f) pd bytes, wptr := wptr f + 1\<rparr>))"

definition my_fifo_pop :: "my_fifo \<Rightarrow> my_fifo" where
  "my_fifo_pop f = f\<lparr>rptr := rptr f + 1\<rparr>"

definition my_fifo_get :: "my_fifo \<Rightarrow> nat option" where
  "my_fifo_get f = (if rptr f \<noteq> wptr f then Some (fifo_slot f (rptr f)) else None)"

definition my_fifo_get_offset :: "my_fifo \<Rightarrow> u8 \<Rightarrow> nat" where
  "my_fifo_get_offset f off =
     nat ((uint (rptr f) + uint off) AND (uint (fnum f) - 1)) * unat (fsize f)"

definition my_fifo_data_cnt_get :: "my_fifo \<Rightarrow> u8" where
  "my_fifo_data_cnt_get f = wptr f - rptr f"

definition my_fifo_free_cnt_get :: "my_fifo \<Rightarrow> u8" where
  "my_fifo_free_cnt_get f = fnum f - my_fifo_data_cnt_get f"

definition my_fifo_reset :: "my_fifo \<Rightarrow> my_fifo" where
  "my_fifo_reset f = f\<lparr>rptr := wptr f\<rparr>"

section \<open>Well-formed rings and their contents\<close>

text \<open>
  \<open>MYFIFO_INIT\<close> asserts that the number of slots is a power of two. Together with the array's
  size and the fill level this is the invariant every operation keeps.
\<close>

definition fifo_count :: "my_fifo \<Rightarrow> nat" where
  "fifo_count f = unat (wptr f - rptr f)"

definition fifo_len_at :: "u8 list \<Rightarrow> nat \<Rightarrow> nat" where
  "fifo_len_at b off = unat (b ! off) + 256 * unat (b ! (off + 1))"

definition fifo_packet_at :: "u8 list \<Rightarrow> nat \<Rightarrow> u8 list" where
  "fifo_packet_at b off = rd_bytes b (off + 2) (fifo_len_at b off)"

definition fifo_live :: "my_fifo \<Rightarrow> nat list" where
  "fifo_live f = map (\<lambda>i. fifo_slot f (rptr f + of_nat i)) [0..<fifo_count f]"

definition fifo_items :: "my_fifo \<Rightarrow> u8 list list" where
  "fifo_items f = map (fifo_packet_at (fbuf f)) (fifo_live f)"

definition fifo_inv :: "my_fifo \<Rightarrow> bool" where
  "fifo_inv f \<longleftrightarrow> fnum f \<in> set [1, 2, 4, 8, 16, 32, 64, 128] \<and>
     length (fbuf f) = unat (fsize f) * unat (fnum f) \<and> fifo_count f \<le> unat (fnum f) \<and>
     list_all (\<lambda>off. fifo_len_at (fbuf f) off + 2 \<le> unat (fsize f)) (fifo_live f)"

lemma length_fifo_items [simp]: "length (fifo_items f) = fifo_count f"
  by (simp add: fifo_items_def fifo_live_def)

lemma fifo_invD:
  assumes "fifo_inv f"
  shows fifo_num_pos: "0 < unat (fnum f)" and fifo_num_dvd: "unat (fnum f) dvd 256"
    and fifo_num_lt: "unat (fnum f) < 256"
    and fifo_len: "length (fbuf f) = unat (fsize f) * unat (fnum f)"
    and fifo_count_le: "fifo_count f \<le> unat (fnum f)"
    and fifo_fits: "i < fifo_count f \<Longrightarrow> fifo_len_at (fbuf f) (fifo_slot f (rptr f + of_nat i)) + 2 \<le> unat (fsize f)"
  using assms by (auto simp: fifo_inv_def fifo_live_def list_all_iff)

lemma and_mask_mod:
  assumes "num \<in> set [1, 2, 4, 8, 16, 32, 64, 128 :: u8]"
  shows "unat (p AND (num - 1)) = unat p mod unat num"
proof -
  have "p AND mask k = take_bit k p" for k by (simp add: take_bit_eq_mask)
  from this [of 0] this [of 1] this [of 2] this [of 3] this [of 4] this [of 5] this [of 6] this [of 7]
  show ?thesis using assms
    by (auto simp: mask_eq_exp_minus_1 take_bit_eq_mod unat_mod_distrib)
qed

lemma fifo_slot_mod:
  "fifo_inv f \<Longrightarrow> fifo_slot f p = unat p mod unat (fnum f) * unat (fsize f)"
  by (simp add: fifo_slot_def fifo_inv_def and_mask_mod del: list.set)

lemma unat_ptr_mod:
  assumes "m dvd 256" shows "unat (p + of_nat i :: u8) mod m = (unat p + i) mod m"
  using assms by (simp add: unat_add_u8 mod_mod_cancel mod_add_right_eq)

lemma fifo_slot_add:
  assumes "fifo_inv f"
  shows "fifo_slot f (rptr f + of_nat i) = (unat (rptr f) + i) mod unat (fnum f) * unat (fsize f)"
  using assms by (simp add: fifo_slot_mod unat_ptr_mod fifo_num_dvd)

lemma fifo_slot_in_buffer:
  assumes "fifo_inv f" shows "fifo_slot f p + unat (fsize f) \<le> length (fbuf f)"
proof -
  have "Suc (unat p mod unat (fnum f)) \<le> unat (fnum f)"
    using fifo_num_pos [OF assms] by (simp add: Suc_leI)
  then have "Suc (unat p mod unat (fnum f)) * unat (fsize f) \<le> unat (fnum f) * unat (fsize f)"
    by (rule mult_le_mono1)
  then show ?thesis using assms by (simp add: fifo_slot_mod fifo_len mult.commute)
qed

lemma fifo_slot_wptr:
  assumes "fifo_inv f"
  shows "fifo_slot f (wptr f) = (unat (rptr f) + fifo_count f) mod unat (fnum f) * unat (fsize f)"
proof -
  have "wptr f = rptr f + of_nat (fifo_count f)" by (simp add: fifo_count_def)
  then show ?thesis using fifo_slot_add [OF assms, of "fifo_count f"] by simp
qed

text \<open>Slots of different live packets, and of the next packet to write, do not overlap.\<close>

lemma mod_range_distinct:
  assumes "i < j" "j - i < m" shows "(a + i) mod m \<noteq> (a + j) mod (m :: nat)"
proof
  assume "(a + i) mod m = (a + j) mod m"
  then have "m dvd (a + j) - (a + i)" by (metis mod_eq_dvd_iff_nat assms(1) add_le_mono less_imp_le order_refl)
  then show False using assms by (auto dest: dvd_imp_le)
qed

lemma fifo_slots_disjoint:
  assumes "fifo_inv f" "i < fifo_count f" "fifo_count f < unat (fnum f)"
  shows "fifo_slot f (rptr f + of_nat i) + unat (fsize f) \<le> fifo_slot f (wptr f) \<or>
         fifo_slot f (wptr f) + unat (fsize f) \<le> fifo_slot f (rptr f + of_nat i)"
proof -
  let ?a = "(unat (rptr f) + i) mod unat (fnum f)"
  let ?b = "(unat (rptr f) + fifo_count f) mod unat (fnum f)"
  have "?a \<noteq> ?b" using assms by (intro mod_range_distinct) auto
  then have "Suc ?a \<le> ?b \<or> Suc ?b \<le> ?a" by linarith
  then have "Suc ?a * unat (fsize f) \<le> ?b * unat (fsize f) \<or> Suc ?b * unat (fsize f) \<le> ?a * unat (fsize f)"
    using mult_le_mono1 by blast
  then show ?thesis using assms by (simp add: fifo_slot_add fifo_slot_wptr add.commute)
qed

section \<open>What the operations do to the contents\<close>

lemma fifo_count_lt_iff: "wptr f - rptr f < fnum f \<longleftrightarrow> fifo_count f < unat (fnum f)"
  by (simp add: fifo_count_def word_less_nat_alt)

lemma fifo_count_push:
  assumes "fifo_count f < unat (fnum f)" "fifo_inv f"
  shows "unat (wptr f + 1 - rptr f) = Suc (fifo_count f)"
proof -
  have "wptr f + 1 - rptr f = (wptr f - rptr f) + 1" by simp
  then have "unat (wptr f + 1 - rptr f) = (fifo_count f + 1) mod 256"
    by (simp only: unat_add_u8 fifo_count_def) simp
  then show ?thesis using assms fifo_num_lt [OF assms(2)] by simp
qed

definition fifo_encode :: "u8 list \<Rightarrow> u8 list" where
  "fifo_encode pkt = of_nat (length pkt mod 256) # of_nat (length pkt div 256) # pkt"

lemma fifo_len_at_encode:
  assumes "off + length pkt + 2 \<le> length b" "length pkt < 65536"
  shows "fifo_len_at (wr_bytes b off (fifo_encode pkt)) off = length pkt"
proof -
  have "length pkt div 256 < 256" using assms(2) by simp
  then show ?thesis using assms by (simp add: fifo_len_at_def fifo_encode_def nth_wr_bytes)
qed

lemma fifo_packet_at_encode:
  assumes "off + length pkt + 2 \<le> length b" "length pkt < 65536"
  shows "fifo_packet_at (wr_bytes b off (fifo_encode pkt)) off = pkt"
proof -
  have len: "fifo_len_at (wr_bytes b off (fifo_encode pkt)) off = length pkt"
    using assms by (rule fifo_len_at_encode)
  have "off + length (fifo_encode pkt) \<le> length b" using assms(1) by (simp add: fifo_encode_def)
  then have "rd_bytes (wr_bytes b off (fifo_encode pkt)) off (length pkt + 2) = fifo_encode pkt"
    by (simp add: rd_wr_bytes_same fifo_encode_def)
  then have "drop 2 (rd_bytes (wr_bytes b off (fifo_encode pkt)) off (length pkt + 2)) = pkt"
    by (simp add: fifo_encode_def)
  then show ?thesis
    by (simp only: fifo_packet_at_def len) (simp add: rd_bytes_def drop_take add.commute)
qed

lemma fifo_packet_at_other:
  assumes "off + length xs \<le> length b" "o2 + 2 + fifo_len_at b o2 \<le> length b"
    "o2 + 2 + fifo_len_at b o2 \<le> off \<or> off + length xs \<le> o2"
  shows "fifo_len_at (wr_bytes b off xs) o2 = fifo_len_at b o2"
    and "fifo_packet_at (wr_bytes b off xs) o2 = fifo_packet_at b o2"
proof -
  show "fifo_len_at (wr_bytes b off xs) o2 = fifo_len_at b o2"
    using assms by (auto simp: fifo_len_at_def nth_wr_bytes)
  then show "fifo_packet_at (wr_bytes b off xs) o2 = fifo_packet_at b o2"
    using assms by (simp add: fifo_packet_at_def) (rule rd_wr_bytes_other, auto)
qed

text \<open>The success branch of a push, in terms of the packet it stores.\<close>

definition fifo_put :: "my_fifo \<Rightarrow> u8 list \<Rightarrow> my_fifo" where
  "fifo_put f pkt = f\<lparr>fbuf := wr_bytes (fbuf f) (fifo_slot f (wptr f)) (fifo_encode pkt), wptr := wptr f + 1\<rparr>"

lemma my_fifo_push_eq:
  assumes "unat n \<le> length p" "unat hl \<le> length head"
  shows "my_fifo_push f p n head hl =
    (if fifo_count f < unat (fnum f) \<and> unat n + unat hl + 2 \<le> unat (fsize f)
     then (0, fifo_put f (take (unat hl) head @ take (unat n) p)) else (-1, f))"
proof -
  have "(fnum f \<le> wptr f - rptr f) = (\<not> fifo_count f < unat (fnum f))"
    using fifo_count_lt_iff [of f] by (simp add: linorder_not_less [symmetric])
  moreover have "min (length head) (unat hl) + min (length p) (unat n) = unat n + unat hl"
    using assms by simp
  ultimately show ?thesis
    by (auto simp: my_fifo_push_def fifo_put_def fifo_encode_def Let_def add.commute)
qed

lemma fifo_put_sel [simp]:
  "fsize (fifo_put f pkt) = fsize f" "fnum (fifo_put f pkt) = fnum f" "rptr (fifo_put f pkt) = rptr f"
  "fifo_slot (fifo_put f pkt) q = fifo_slot f q"
  by (simp_all add: fifo_put_def fifo_slot_def)

lemma fifo_put_count:
  assumes "fifo_inv f" "fifo_count f < unat (fnum f)"
  shows "fifo_count (fifo_put f pkt) = Suc (fifo_count f)"
  using fifo_count_push [OF assms(2,1)] by (simp add: fifo_count_def fifo_put_def)

lemma fifo_put_live:
  assumes "fifo_inv f" "fifo_count f < unat (fnum f)"
  shows "fifo_live (fifo_put f pkt) = fifo_live f @ [fifo_slot f (wptr f)]"
  by (simp add: fifo_live_def fifo_put_count [OF assms]) (simp add: fifo_count_def)

lemma fifo_put_slot_len:
  assumes "fifo_inv f" "length pkt + 2 \<le> unat (fsize f)"
  shows "fifo_slot f (wptr f) + length pkt + 2 \<le> length (fbuf f)" "length pkt < 65536"
  using fifo_slot_in_buffer [OF assms(1), of "wptr f"] assms(2) unat_less_65536 [of "fsize f"]
  by linarith+

lemma fifo_put_others:
  assumes "fifo_inv f" "fifo_count f < unat (fnum f)" "length pkt + 2 \<le> unat (fsize f)"
    "off \<in> set (fifo_live f)"
  shows "fifo_len_at (fbuf (fifo_put f pkt)) off = fifo_len_at (fbuf f) off"
    and "fifo_packet_at (fbuf (fifo_put f pkt)) off = fifo_packet_at (fbuf f) off"
proof -
  obtain i where i: "i < fifo_count f" "off = fifo_slot f (rptr f + of_nat i)"
    using assms(4) by (auto simp: fifo_live_def)
  let ?w = "fifo_slot f (wptr f)"
  have 1: "?w + length (fifo_encode pkt) \<le> length (fbuf f)"
    using fifo_put_slot_len [OF assms(1,3)] by (simp add: fifo_encode_def)
  have 2: "off + 2 + fifo_len_at (fbuf f) off \<le> length (fbuf f)"
    using fifo_slot_in_buffer [OF assms(1), of "rptr f + of_nat i"] fifo_fits [OF assms(1) i(1)] i(2) by simp
  have 3: "off + 2 + fifo_len_at (fbuf f) off \<le> ?w \<or> ?w + length (fifo_encode pkt) \<le> off"
    using fifo_slots_disjoint [OF assms(1) i(1) assms(2)] fifo_fits [OF assms(1) i(1)] i(2) assms(3)
    by (auto simp: fifo_encode_def)
  show "fifo_len_at (fbuf (fifo_put f pkt)) off = fifo_len_at (fbuf f) off"
    "fifo_packet_at (fbuf (fifo_put f pkt)) off = fifo_packet_at (fbuf f) off"
    using fifo_packet_at_other [OF 1 2 3] by (simp_all add: fifo_put_def)
qed

lemma fifo_put_items:
  assumes "fifo_inv f" "fifo_count f < unat (fnum f)" "length pkt + 2 \<le> unat (fsize f)"
  shows "fifo_items (fifo_put f pkt) = fifo_items f @ [pkt]"
  using assms fifo_put_slot_len [OF assms(1,3)]
  by (simp add: fifo_items_def fifo_put_live fifo_put_others)
    (simp add: fifo_put_def fifo_packet_at_encode)

lemma fifo_put_inv:
  assumes "fifo_inv f" "fifo_count f < unat (fnum f)" "length pkt + 2 \<le> unat (fsize f)"
  shows "fifo_inv (fifo_put f pkt)"
proof -
  have enc: "length (fifo_encode pkt) = length pkt + 2" by (simp add: fifo_encode_def)
  have "length (fbuf (fifo_put f pkt)) = length (fbuf f)"
    using fifo_put_slot_len [OF assms(1,3)] enc by (simp add: fifo_put_def)
  moreover have "fifo_len_at (fbuf (fifo_put f pkt)) (fifo_slot f (wptr f)) = length pkt"
    using fifo_put_slot_len [OF assms(1,3)] by (simp add: fifo_put_def fifo_len_at_encode)
  ultimately show ?thesis
    using assms(2,3) assms(1) [unfolded fifo_inv_def]
    by (simp add: fifo_inv_def fifo_put_live [OF assms(1,2)] fifo_put_count [OF assms(1,2)]
        fifo_put_others(1) [OF assms] list_all_iff)
qed

lemma fifo_pop_count:
  assumes "0 < fifo_count f" shows "fifo_count (my_fifo_pop f) = fifo_count f - 1"
proof -
  have "wptr f - (rptr f + 1) = (wptr f - rptr f) - 1" by simp
  then show ?thesis using assms
    using unat_sub_u8 [of "wptr f - rptr f" 1]
    by (simp add: fifo_count_def my_fifo_pop_def diff_diff_eq [symmetric] del: diff_diff_eq)
qed

lemma fifo_pop_live:
  assumes "0 < fifo_count f" shows "fifo_live f = fifo_slot f (rptr f) # fifo_live (my_fifo_pop f)"
proof -
  have "[0..<fifo_count f] = 0 # map Suc [0..<fifo_count f - 1]"
    using assms by (simp add: map_Suc_upt upt_conv_Cons)
  then show ?thesis
    by (simp add: fifo_live_def fifo_pop_count [OF assms])
      (simp add: my_fifo_pop_def fifo_slot_def comp_def add.assoc)
qed

lemma fifo_pop_items:
  "0 < fifo_count f \<Longrightarrow> fifo_items (my_fifo_pop f) = tl (fifo_items f)"
  by (simp add: fifo_items_def fifo_pop_live) (simp add: my_fifo_pop_def)

lemma fifo_pop_inv:
  assumes "fifo_inv f" "0 < fifo_count f" shows "fifo_inv (my_fifo_pop f)"
proof -
  have "list_all (\<lambda>off. fifo_len_at (fbuf f) off + 2 \<le> unat (fsize f)) (fifo_live (my_fifo_pop f))"
    using assms(1) by (simp add: fifo_inv_def fifo_pop_live [OF assms(2)])
  then show ?thesis
    using assms by (simp add: fifo_inv_def fifo_pop_count del: list.set) (auto simp: my_fifo_pop_def)
qed

lemma my_fifo_get_eq:
  "my_fifo_get f = (if fifo_count f = 0 then None else Some (fifo_slot f (rptr f)))"
  by (auto simp: my_fifo_get_def fifo_count_def unat_eq_zero)

section \<open>The queue interface\<close>

text \<open>
  What the users of the ring rely on: a push appends or is refused and then changes nothing, the
  front is the oldest packet, a pop drops it.
\<close>

text \<open>Pushing a list of packets, and the get/pop loop that drains at most \<open>n\<close> packets.\<close>

primrec queue_push_all :: "('q \<Rightarrow> 'p \<Rightarrow> int \<times> 'q) \<Rightarrow> 'q \<Rightarrow> 'p list \<Rightarrow> 'q" where
  "queue_push_all push q [] = q"
| "queue_push_all push q (p # ps) = queue_push_all push (snd (push q p)) ps"

primrec queue_drain :: "('q \<Rightarrow> 'p option) \<Rightarrow> ('q \<Rightarrow> 'q) \<Rightarrow> nat \<Rightarrow> 'q \<Rightarrow> 'p list \<times> 'q" where
  "queue_drain front pop 0 q = ([], q)"
| "queue_drain front pop (Suc n) q = (case front q of None \<Rightarrow> ([], q)
     | Some p \<Rightarrow> (case queue_drain front pop n (pop q) of (ps, q') \<Rightarrow> (p # ps, q')))"

locale bounded_queue =
  fixes items :: "'q \<Rightarrow> 'p list"
    and ok :: "'q \<Rightarrow> bool"
    and cap :: "'q \<Rightarrow> nat"
    and admits :: "'q \<Rightarrow> 'p \<Rightarrow> bool"
    and push :: "'q \<Rightarrow> 'p \<Rightarrow> int \<times> 'q"
    and front :: "'q \<Rightarrow> 'p option"
    and pop :: "'q \<Rightarrow> 'q"
  assumes push_done: "ok q \<Longrightarrow> admits q p \<Longrightarrow> length (items q) < cap q \<Longrightarrow>
      fst (push q p) = 0 \<and> items (snd (push q p)) = items q @ [p]"
    and push_refused: "\<not> (admits q p \<and> length (items q) < cap q) \<Longrightarrow> push q p = (-1, q)"
    and ok_push: "ok q \<Longrightarrow> ok (snd (push q p))"
    and cap_push: "cap (snd (push q p)) = cap q"
    and admits_push: "admits (snd (push q p)) = admits q"
    and front_items: "ok q \<Longrightarrow> front q = (case items q of [] \<Rightarrow> None | p # _ \<Rightarrow> Some p)"
    and pop_items: "ok q \<Longrightarrow> items q \<noteq> [] \<Longrightarrow> ok (pop q) \<and> items (pop q) = tl (items q)"
begin

lemma push_all_items:
  "ok q \<Longrightarrow> \<forall>p \<in> set ps. admits q p \<Longrightarrow>
     ok (queue_push_all push q ps) \<and> items (queue_push_all push q ps) = items q @ take (cap q - length (items q)) ps"
proof (induction ps arbitrary: q)
  case Nil
  then show ?case by simp
next
  case (Cons p ps)
  have IH: "ok (queue_push_all push (snd (push q p)) ps) \<and> items (queue_push_all push (snd (push q p)) ps) =
      items (snd (push q p)) @ take (cap q - length (items (snd (push q p)))) ps"
    using Cons.IH [of "snd (push q p)"] Cons.prems by (simp add: ok_push cap_push admits_push)
  show ?case
  proof (cases "length (items q) < cap q")
    case True
    then have "items (snd (push q p)) = items q @ [p]" using push_done Cons.prems by simp
    moreover have "cap q - length (items q) = Suc (cap q - Suc (length (items q)))"
      using True by simp
    ultimately show ?thesis using IH by simp
  next
    case False
    then show ?thesis using IH push_refused [of q p] by simp
  qed
qed

lemma drain_items:
  "ok q \<Longrightarrow> fst (queue_drain front pop n q) = take n (items q) \<and> ok (snd (queue_drain front pop n q)) \<and>
     items (snd (queue_drain front pop n q)) = drop n (items q)"
proof (induction n arbitrary: q)
  case 0
  then show ?case by simp
next
  case (Suc n)
  show ?case
  proof (cases "items q")
    case Nil
    then show ?thesis using Suc.prems by (simp add: front_items)
  next
    case (Cons p ps)
    then have "ok (pop q)" "items (pop q) = ps" using pop_items [OF Suc.prems] by auto
    then show ?thesis using Suc.IH [of "pop q"] Suc.prems Cons
      by (simp add: front_items split_beta)
  qed
qed

end

text \<open>The ring as a queue of byte strings: a packet is pushed as body with an empty head.\<close>

definition fifo_push_pkt :: "my_fifo \<Rightarrow> u8 list \<Rightarrow> int \<times> my_fifo" where
  "fifo_push_pkt f pkt =
     (if length pkt < 65536 then my_fifo_push f pkt (of_nat (length pkt)) [] 0 else (-1, f))"

definition fifo_admits :: "my_fifo \<Rightarrow> u8 list \<Rightarrow> bool" where
  "fifo_admits f pkt \<longleftrightarrow> length pkt + 2 \<le> unat (fsize f)"

definition fifo_front :: "my_fifo \<Rightarrow> u8 list option" where
  "fifo_front f = map_option (fifo_packet_at (fbuf f)) (my_fifo_get f)"

lemma fifo_push_pkt_eq:
  "fifo_push_pkt f pkt = (if fifo_count f < unat (fnum f) \<and> fifo_admits f pkt then (0, fifo_put f pkt) else (-1, f))"
proof (cases "length pkt < 65536")
  case True
  then show ?thesis by (simp add: fifo_push_pkt_def my_fifo_push_eq fifo_admits_def)
next
  case False
  then have "\<not> fifo_admits f pkt" using unat_less_65536 [of "fsize f"] by (simp add: fifo_admits_def del: unat_less_65536)
  then show ?thesis using False by (simp add: fifo_push_pkt_def)
qed

interpretation ring: bounded_queue fifo_items fifo_inv "\<lambda>f. unat (fnum f)" fifo_admits fifo_push_pkt
  fifo_front my_fifo_pop
proof
  fix f pkt
  show "fifo_front f = (case fifo_items f of [] \<Rightarrow> None | p # _ \<Rightarrow> Some p)" if "fifo_inv f"
  proof (cases "fifo_count f = 0")
    case True
    then show ?thesis by (simp add: fifo_front_def my_fifo_get_eq fifo_items_def fifo_live_def)
  next
    case False
    then show ?thesis by (simp add: fifo_front_def my_fifo_get_eq fifo_items_def fifo_pop_live)
  qed
  show "fifo_inv (my_fifo_pop f) \<and> fifo_items (my_fifo_pop f) = tl (fifo_items f)"
    if "fifo_inv f" "fifo_items f \<noteq> []"
  proof -
    have "0 < fifo_count f" using that(2) by (simp flip: length_fifo_items)
    then show ?thesis using that(1) by (simp add: fifo_pop_inv fifo_pop_items)
  qed
qed (auto simp: fifo_push_pkt_eq fifo_put_items fifo_put_inv fifo_admits_def)

section \<open>Properties\<close>

text \<open>
C27: A push on a well-formed ring behaves as the bounded queue it stands for, on every branch: it
succeeds exactly when a slot is free and header, head and body fit in one slot, then the stored
packet (head bytes, then body bytes) becomes the last element; otherwise it returns -1 and leaves
the ring as it was. The ring stays well-formed either way.
\<close>

theorem my_fifo_push_refines:
  assumes "fifo_inv f" "unat n \<le> length p" "unat hl \<le> length head"
  shows "case my_fifo_push f p n head hl of (r, f') \<Rightarrow>
    fifo_inv f' \<and>
    (if fifo_count f < unat (fnum f) \<and> unat n + unat hl + 2 \<le> unat (fsize f)
     then r = 0 \<and> fifo_items f' = fifo_items f @ [take (unat hl) head @ take (unat n) p]
     else r = -1 \<and> f' = f)"
  using assms by (auto simp: my_fifo_push_eq fifo_put_inv fifo_put_items)

definition demo_fifo :: my_fifo where
  "demo_fifo = \<lparr>fsize = 6, fnum = 2, wptr = 255, rptr = 255, fbuf = replicate 12 0\<rparr>"

lemma demo_fifo_inv: "fifo_inv demo_fifo"
  by (simp add: fifo_inv_def demo_fifo_def fifo_live_def fifo_count_def)

lemma my_fifo_push_refines_witness:
  "fifo_items (snd (my_fifo_push demo_fifo [7, 8] 2 [9] 1)) = [[9, 7, 8]]"
  using my_fifo_push_refines [OF demo_fifo_inv, of 2 "[7, 8]" 1 "[9]"]
  by (simp add: split_beta) (simp add: demo_fifo_def fifo_count_def fifo_items_def fifo_live_def)

text \<open>
Packets come out in the order they went in, and none is lost before the ring is full: pushing
a list of packets and then running the consumers' get/pop loop delivers the packets already
queued followed by the longest prefix of the new ones that fits the free slots.
\<close>

theorem fifo_delivers_in_order:
  assumes "fifo_inv f" "\<forall>p \<in> set ps. fifo_admits f p"
  shows "fst (queue_drain fifo_front my_fifo_pop n (queue_push_all fifo_push_pkt f ps)) =
    take n (fifo_items f @ take (unat (fnum f) - fifo_count f) ps)"
  using ring.drain_items ring.push_all_items [OF assms] by simp

lemma fifo_delivers_in_order_witness:
  "fst (queue_drain fifo_front my_fifo_pop 5 (queue_push_all fifo_push_pkt demo_fifo [[1], [2, 3], [4]])) =
    [[1], [2, 3]]"
  using fifo_delivers_in_order [OF demo_fifo_inv, of "[[1], [2, 3], [4]]" 5]
  by (simp add: fifo_admits_def) (simp add: demo_fifo_def fifo_count_def fifo_items_def fifo_live_def)

text \<open>
Every address the ring hands out or writes lies inside its array: the write position, the
read position and the position at any offset leave room for a whole slot, whatever the values of
the free-running 8-bit pointers.
\<close>

lemma nat_and_mask:
  assumes "num \<in> set [1, 2, 4, 8, 16, 32, 64, 128 :: u8]" "0 \<le> x"
  shows "nat (x AND (uint num - 1)) = nat x mod unat num"
proof -
  have "uint num \<in> {2 ^ 0, 2 ^ 1, 2 ^ 2, 2 ^ 3, 2 ^ 4, 2 ^ 5, 2 ^ 6, 2 ^ 7}"
    using assms(1) by auto
  then obtain k where k: "uint num = 2 ^ k" by blast
  then have "unat num = 2 ^ k" by (metis nat_numeral nat_power_eq unat_eq_nat_uint zero_le_numeral)
  moreover have "x AND (2 ^ k - 1) = x mod 2 ^ k"
    by (simp add: take_bit_eq_mod [symmetric] take_bit_eq_mask mask_eq_exp_minus_1)
  ultimately show ?thesis using k assms(2) by (simp add: nat_mod_distrib nat_power_eq)
qed

theorem fifo_accesses_in_bounds:
  assumes "fifo_inv f"
  shows "(\<forall>off. my_fifo_wptr f = Some off \<longrightarrow> off + unat (fsize f) \<le> length (fbuf f)) \<and>
    (\<forall>off. my_fifo_get f = Some off \<longrightarrow> off + unat (fsize f) \<le> length (fbuf f)) \<and>
    my_fifo_get_offset f i + unat (fsize f) \<le> length (fbuf f)"
proof -
  let ?k = "nat (uint (rptr f) + uint i)"
  have "my_fifo_get_offset f i = ?k mod unat (fnum f) * unat (fsize f)"
    using assms by (simp add: my_fifo_get_offset_def nat_and_mask fifo_inv_def del: list.set)
  moreover have "Suc (?k mod unat (fnum f)) * unat (fsize f) \<le> unat (fnum f) * unat (fsize f)"
    using fifo_num_pos [OF assms] by (intro mult_le_mono1) (simp add: Suc_leI)
  ultimately show ?thesis
    using fifo_slot_in_buffer [OF assms]
    by (auto simp: my_fifo_wptr_def my_fifo_get_def fifo_len [OF assms] mult.commute split: if_splits)
qed

lemma fifo_accesses_in_bounds_witness:
  "my_fifo_wptr demo_fifo = Some 6 \<and> 6 + unat (fsize demo_fifo) \<le> length (fbuf demo_fifo)"
proof -
  have "my_fifo_wptr demo_fifo = Some 6"
    by (simp add: my_fifo_wptr_def demo_fifo_def fifo_slot_def)
  then show ?thesis using fifo_accesses_in_bounds [OF demo_fifo_inv] by blast
qed

end
