(* ===== verification/Hw.thy ===== *)
theory Hw
  imports Prelude
begin

text \<open>
  The machine the application code runs on, as far as that code can see it: analog registers that
  survive deep sleep, the flash, the pins, the clocks, and a log of the commands given to the
  peripherals. Inputs the program does not control are streams: the \<open>n\<close>-th read of a pin, of the
  32 kHz counter or of the millisecond clock returns the \<open>n\<close>-th value of its stream, so every
  statement about the code holds for every behaviour of the outside world.

  The register-level drivers (\<open>drivers/8258\<close>) have theories of their own; the operations below
  state what the application relies on. \<open>flash_write_page\<close> can only clear bits and
  \<open>flash_erase_sector\<close> sets a 4096-byte sector to \<open>0xFF\<close>, as NOR flash does. Deep sleep and a
  reboot do not return when they are taken; they set \<open>halted\<close>.
\<close>

section \<open>Pins, peripheral commands, state\<close>

datatype pin = GPIO_PA0 | GPIO_PA3 | GPIO_PB1 | GPIO_PB4 | GPIO_PB5 | GPIO_PB6 | GPIO_PC1 | GPIO_PC4 | GPIO_PD4

datatype pull = PM_PIN_UP_DOWN_FLOAT | PM_PIN_PULLUP_1M | PM_PIN_PULLUP_10K

datatype wakeup_src = Wakeup_pad | Wakeup_timer_pad

datatype hw_cmd =
    Gpio_as_gpio pin
  | Gpio_output_en pin bool
  | Gpio_input_en pin bool
  | Gpio_write pin bool
  | Gpio_pull pin pull
  | Gpio_wakeup pin bool bool
  | Gpio_core_wakeup bool
  | Sleep_us u32
  | Deepsleep wakeup_src u32
  | Irq_disable
  | Irq_restore
  | Wd_clear
  | Flash_erase nat
  | Flash_write nat "u8 list"
  | I2c_init
  | I2c_write u8 "u8 list"
  | Adc_init pin
  | Mesh_tx u16 "u8 list" u16 u16 nat
  | Ble_terminate u8
  | Print string "u32 list"
  | Reboot

record hw =
  analog :: "u8 \<Rightarrow> u8"
  flash :: "nat \<Rightarrow> u8"
  pin_in :: "pin \<Rightarrow> nat \<Rightarrow> bool"
  n_pin :: nat
  clk32k :: "nat \<Rightarrow> u32"
  n_32k :: nat
  clk_ms :: "nat \<Rightarrow> u32"
  n_ms :: nat
  clk_s :: "nat \<Rightarrow> u32"
  n_s :: nat
  clk_sys :: "nat \<Rightarrow> u32"
  n_sys :: nat
  i2c_in :: "nat \<Rightarrow> u8 list"
  n_i2c :: nat
  adc_in :: "nat \<Rightarrow> u32"
  n_adc :: nat
  stays_awake :: "nat \<Rightarrow> bool"
  n_sleep :: nat
  provisioned :: bool
  connected :: bool
  halted :: bool
  cmds :: "hw_cmd list"

section \<open>State access\<close>

abbreviation ret :: "'a \<Rightarrow> ('s, 'a) state" where
  "ret \<equiv> State_Monad.return"

definition gets :: "('s \<Rightarrow> 'a) \<Rightarrow> ('s, 'a) state" where
  "gets f = State (\<lambda>s. (f s, s))"

definition modify :: "('s \<Rightarrow> 's) \<Rightarrow> ('s, unit) state" where
  "modify f = State (\<lambda>s. ((), f s))"

definition when_do :: "bool \<Rightarrow> ('s, unit) state \<Rightarrow> ('s, unit) state" where
  "when_do b m = (if b then m else ret ())"

lemma run_gets [simp, hw_simps]: "run_state (gets f) s = (f s, s)"
  by (simp add: gets_def)

lemma run_modify [simp, hw_simps]: "run_state (modify f) s = ((), f s)"
  by (simp add: modify_def)

lemma run_when_do [simp]: "run_state (when_do b m) s = (if b then run_state m s else ((), s))"
  by (simp add: when_do_def)

definition exec :: "('s, 'a) state \<Rightarrow> 's \<Rightarrow> 's" where
  "exec m s = snd (run_state m s)"

definition emit :: "hw_cmd \<Rightarrow> ('a hw_scheme, unit) state" where
  "emit c = modify (\<lambda>s. s\<lparr>cmds := cmds s @ [c]\<rparr>)"

section \<open>Inputs\<close>

definition gpio_read :: "pin \<Rightarrow> ('a hw_scheme, bool) state" where
  "gpio_read p = State (\<lambda>s. (pin_in s p (n_pin s), s\<lparr>n_pin := Suc (n_pin s)\<rparr>))"

definition get_32k_tick :: "('a hw_scheme, u32) state" where
  "get_32k_tick = State (\<lambda>s. (clk32k s (n_32k s), s\<lparr>n_32k := Suc (n_32k s)\<rparr>))"

definition clock_time_ms :: "('a hw_scheme, u32) state" where
  "clock_time_ms = State (\<lambda>s. (clk_ms s (n_ms s), s\<lparr>n_ms := Suc (n_ms s)\<rparr>))"

definition clock_time_s :: "('a hw_scheme, u32) state" where
  "clock_time_s = State (\<lambda>s. (clk_s s (n_s s), s\<lparr>n_s := Suc (n_s s)\<rparr>))"

definition clock_time :: "('a hw_scheme, u32) state" where
  "clock_time = State (\<lambda>s. (clk_sys s (n_sys s), s\<lparr>n_sys := Suc (n_sys s)\<rparr>))"

definition i2c_read_series :: "nat \<Rightarrow> ('a hw_scheme, u8 list) state" where
  "i2c_read_series len = State (\<lambda>s. (take len (i2c_in s (n_i2c s)), s\<lparr>n_i2c := Suc (n_i2c s)\<rparr>))"

definition adc_sample_and_get_result :: "('a hw_scheme, u32) state" where
  "adc_sample_and_get_result = State (\<lambda>s. (adc_in s (n_adc s), s\<lparr>n_adc := Suc (n_adc s)\<rparr>))"

definition analog_read :: "u8 \<Rightarrow> ('a hw_scheme, u8) state" where
  "analog_read r = gets (\<lambda>s. analog s r)"

section \<open>Outputs\<close>

definition analog_write :: "u8 \<Rightarrow> u8 \<Rightarrow> ('a hw_scheme, unit) state" where
  "analog_write r v = modify (\<lambda>s. s\<lparr>analog := (analog s)(r := v)\<rparr>)"

definition flash_read :: "nat \<Rightarrow> nat \<Rightarrow> ('a hw_scheme, u8 list) state" where
  "flash_read adr n = gets (\<lambda>s. map (\<lambda>i. flash s (adr + i)) [0..<n])"

definition flash_erase_sector :: "nat \<Rightarrow> ('a hw_scheme, unit) state" where
  "flash_erase_sector adr = modify (\<lambda>s. s\<lparr>flash := (\<lambda>a. if a div 4096 = adr div 4096 then 0xFF else flash s a),
     cmds := cmds s @ [Flash_erase adr]\<rparr>)"

definition flash_write_page :: "nat \<Rightarrow> u8 list \<Rightarrow> ('a hw_scheme, unit) state" where
  "flash_write_page adr bs = modify (\<lambda>s. s\<lparr>flash := (\<lambda>a. if adr \<le> a \<and> a < adr + length bs
       then flash s a AND bs ! (a - adr) else flash s a), cmds := cmds s @ [Flash_write adr bs]\<rparr>)"

text \<open>Deep sleep: the chip stops unless a wake-up source is already active.\<close>

definition cpu_deepsleep :: "wakeup_src \<Rightarrow> u32 \<Rightarrow> ('a hw_scheme, unit) state" where
  "cpu_deepsleep src tick = modify (\<lambda>s. s\<lparr>halted := \<not> stays_awake s (n_sleep s), n_sleep := Suc (n_sleep s),
     cmds := cmds s @ [Deepsleep src tick]\<rparr>)"

definition start_reboot :: "('a hw_scheme, unit) state" where
  "start_reboot = modify (\<lambda>s. s\<lparr>halted := True, cmds := cmds s @ [Reboot]\<rparr>)"

text \<open>Code after a call that did not return is not executed.\<close>

definition alive :: "('a hw_scheme, unit) state \<Rightarrow> ('a hw_scheme, unit) state" where
  "alive m = do { h \<leftarrow> gets halted; if h then ret () else m }"

text \<open>\<open>mesh_tx_cmd2normal(op, par, len, src, dst, cnt)\<close> hands a message to the mesh stack.\<close>

definition mesh_tx_cmd2normal :: "u16 \<Rightarrow> u8 list \<Rightarrow> u16 \<Rightarrow> u16 \<Rightarrow> nat \<Rightarrow> ('a hw_scheme, unit) state" where
  "mesh_tx_cmd2normal op par src dst cnt = emit (Mesh_tx op par src dst cnt)"

definition is_provision_success :: "('a hw_scheme, bool) state" where
  "is_provision_success = gets provisioned"

lemmas hw_input_defs [hw_simps] = gpio_read_def get_32k_tick_def clock_time_ms_def clock_time_s_def clock_time_def
  i2c_read_series_def adc_sample_and_get_result_def analog_read_def

lemmas hw_output_defs [hw_simps] = emit_def analog_write_def flash_read_def flash_erase_sector_def
  flash_write_page_def cpu_deepsleep_def start_reboot_def mesh_tx_cmd2normal_def
  is_provision_success_def alive_def when_do_def

lemma run_emit [simp]: "run_state (emit c) s = ((), s\<lparr>cmds := cmds s @ [c]\<rparr>)"
  by (simp add: emit_def)

section \<open>Loops over a list of actions\<close>

primrec do_all :: "('s, unit) state list \<Rightarrow> ('s, unit) state" where
  "do_all [] = ret ()"
| "do_all (m # ms) = do { m; do_all ms }"

lemma run_do_all_emit:
  "run_state (do_all (map emit cs)) s = ((), s\<lparr>cmds := cmds s @ cs\<rparr>)"
  by (induction cs arbitrary: s) auto

section \<open>What a program leaves alone\<close>

text \<open>
  A reflexive and transitive relation between the states before and after is kept by a program if
  it is kept by its parts; the rules below are applied by \<open>intro\<close>.
\<close>

lemma exec_bind: "exec (State_Monad.bind m f) s = exec (f (fst (run_state m s))) (exec m s)"
  by (simp add: exec_def split_beta)

lemma run_bind: "run_state (State_Monad.bind m f) s = run_state (f (fst (run_state m s))) (exec m s)"
  by (simp add: exec_def split_beta)

lemma exec_simps [simp]:
  "exec (ret a) s = s" "exec (gets f) s = s" "exec (modify g) s = g s"
  "exec (emit c) t = t\<lparr>cmds := cmds t @ [c]\<rparr>"
  "exec (when_do b m) s = (if b then exec m s else s)"
  by (simp_all add: exec_def)

definition keeps :: "('s \<Rightarrow> 's \<Rightarrow> bool) \<Rightarrow> ('s, 'a) state \<Rightarrow> bool" where
  "keeps R m \<longleftrightarrow> (\<forall>s. R s (exec m s))"

lemma keepsD: "keeps R m \<Longrightarrow> R s (exec m s)"
  by (simp add: keeps_def)

lemma keeps_bind:
  assumes "transp R" "keeps R m" "\<And>a. keeps R (f a)"
  shows "keeps R (State_Monad.bind m f)"
  using assms by (auto simp: keeps_def exec_bind dest: transpD)

lemma keeps_ret: "reflp R \<Longrightarrow> keeps R (ret a)"
  by (simp add: keeps_def reflpD)

lemma keeps_gets: "reflp R \<Longrightarrow> keeps R (gets f)"
  by (simp add: keeps_def reflpD)

lemma keeps_modify: "(\<And>s. R s (f s)) \<Longrightarrow> keeps R (modify f)"
  by (simp add: keeps_def)

lemma keeps_when: "reflp R \<Longrightarrow> (b \<Longrightarrow> keeps R m) \<Longrightarrow> keeps R (when_do b m)"
  by (simp add: keeps_def reflpD)

lemma keeps_if: "(b \<Longrightarrow> keeps R m) \<Longrightarrow> (\<not> b \<Longrightarrow> keeps R m') \<Longrightarrow> keeps R (if b then m else m')"
  by simp

text \<open>Equality of one observation of the state, the usual relation.\<close>

definition same :: "('s \<Rightarrow> 'b) \<Rightarrow> 's \<Rightarrow> 's \<Rightarrow> bool" where
  "same f s t \<longleftrightarrow> f t = f s"

lemma reflp_same [simp]: "reflp (same f)" by (simp add: same_def reflpI)
lemma transp_same [simp]: "transp (same f)" by (auto simp: same_def intro: transpI)

lemmas keeps_same_rules = keeps_bind [OF transp_same] keeps_ret [OF reflp_same]
  keeps_gets [OF reflp_same] keeps_when [OF reflp_same] keeps_if keeps_modify

lemma keeps_sameD: "keeps (same f) m \<Longrightarrow> f (exec m s) = f s"
  by (simp add: keeps_def same_def)

end
