(* ===== verification/Led.thy ===== *)
theory Led
  imports Hw
begin

text \<open>
  The blocking light signals of \<open>vendor/common/light.c\<close>: a pin (or both pins) toggled a number of
  times with a pause after each edge, feeding the watchdog before every edge.
\<close>

definition GPIO_LED :: pin where "GPIO_LED = GPIO_PA3"

definition led_output :: "pin \<Rightarrow> ('a hw_scheme, unit) state" where
  "led_output p = do {
     emit (Gpio_as_gpio p);
     emit (Gpio_output_en p True);
     emit (Gpio_input_en p False) }"

definition led_level :: "pin list \<Rightarrow> bool \<Rightarrow> ('a hw_scheme, unit) state" where
  "led_level ps b = do_all (map (\<lambda>p. emit (Gpio_write p b)) ps)"

text \<open>The \<open>for\<close> loop of the four functions below, \<open>count\<close> being the iterations left.\<close>

primrec led_blink :: "pin list \<Rightarrow> nat \<Rightarrow> u32 \<Rightarrow> ('a hw_scheme, unit) state" where
  "led_blink ps 0 half_cycle_us = ret ()"
| "led_blink ps (Suc count) half_cycle_us = do {
     emit Wd_clear;
     led_level ps False;
     emit (Sleep_us half_cycle_us);
     emit Wd_clear;
     led_level ps True;
     emit (Sleep_us half_cycle_us);
     led_blink ps count half_cycle_us }"

definition light_ev_with_sleep :: "u32 \<Rightarrow> u32 \<Rightarrow> ('a hw_scheme, unit) state" where
  "light_ev_with_sleep count half_cycle_us = do {
     led_output GPIO_LED;
     led_blink [GPIO_LED] (unat count) half_cycle_us;
     emit (Gpio_write GPIO_LED False) }"

definition RD_light_ev_with_sleep :: "u32 \<Rightarrow> u32 \<Rightarrow> ('a hw_scheme, unit) state" where
  "RD_light_ev_with_sleep count half_cycle_us = do {
     led_output GPIO_PB6;
     led_blink [GPIO_PB6] (unat count) half_cycle_us;
     emit (Gpio_write GPIO_PB6 False) }"

definition RD_light_prov_success_with_sleep :: "u32 \<Rightarrow> u32 \<Rightarrow> ('a hw_scheme, unit) state" where
  "RD_light_prov_success_with_sleep count half_cycle_us = do {
     led_output GPIO_PB6;
     led_output GPIO_PB5;
     led_blink [GPIO_PB6, GPIO_PB5] (unat count) half_cycle_us;
     emit (Gpio_write GPIO_PB6 False);
     emit (Gpio_write GPIO_PB5 False) }"

definition RD_light_ota_with_sleep :: "u32 \<Rightarrow> u32 \<Rightarrow> ('a hw_scheme, unit) state" where
  "RD_light_ota_with_sleep count half_cycle_us = do {
     led_output GPIO_PB5;
     led_blink [GPIO_PB5] (unat count) half_cycle_us;
     emit (Gpio_write GPIO_PB5 False) }"

definition show_ota_result :: "bool \<Rightarrow> ('a hw_scheme, unit) state" where
  "show_ota_result success =
     (if success then light_ev_with_sleep 6 500000 else light_ev_with_sleep 30 100000)"

definition show_factory_reset :: "('a hw_scheme, unit) state" where
  "show_factory_reset = RD_light_ev_with_sleep 10 100000"

section \<open>Effect\<close>

text \<open>All of these only append to the command log.\<close>

definition only_cmds :: "'a hw_scheme \<Rightarrow> 'a hw_scheme \<Rightarrow> bool" where
  "only_cmds s t \<longleftrightarrow> (\<exists>cs. t = s\<lparr>cmds := cmds s @ cs\<rparr>)"

lemma reflp_only_cmds: "reflp only_cmds"
proof (rule reflpI)
  fix s :: "'a hw_scheme"
  have "s = s\<lparr>cmds := cmds s @ []\<rparr>" by simp
  then show "only_cmds s s" unfolding only_cmds_def by blast
qed

lemma transp_only_cmds: "transp only_cmds"
  by (rule transpI) (auto simp: only_cmds_def)

lemma keeps_only_cmds_emit: "keeps only_cmds (emit c)"
  by (auto simp: keeps_def only_cmds_def)

lemmas only_cmds_rules = keeps_bind [OF transp_only_cmds] keeps_ret [OF reflp_only_cmds]
  keeps_when [OF reflp_only_cmds] keeps_only_cmds_emit

lemma keeps_only_cmds_do_all: "list_all (keeps only_cmds) ms \<Longrightarrow> keeps only_cmds (do_all ms)"
  by (induction ms) (auto intro: only_cmds_rules)

lemma only_cmds_led_level: "keeps only_cmds (led_level ps b)"
  unfolding led_level_def
  by (rule keeps_only_cmds_do_all) (simp add: list_all_iff keeps_only_cmds_emit)

lemma only_cmds_led_blink: "keeps only_cmds (led_blink ps n us)"
  by (induction n) (auto intro!: only_cmds_rules only_cmds_led_level)

lemma only_cmds_led_output: "keeps only_cmds (led_output p)"
  unfolding led_output_def by (intro only_cmds_rules)

lemma only_cmds_signals:
  "keeps only_cmds (light_ev_with_sleep c us)" "keeps only_cmds (RD_light_ev_with_sleep c us)"
  "keeps only_cmds (RD_light_prov_success_with_sleep c us)" "keeps only_cmds (RD_light_ota_with_sleep c us)"
  "keeps only_cmds (show_ota_result r)" "keeps only_cmds show_factory_reset"
  unfolding light_ev_with_sleep_def RD_light_ev_with_sleep_def RD_light_prov_success_with_sleep_def
    RD_light_ota_with_sleep_def show_ota_result_def show_factory_reset_def
  by (auto intro!: only_cmds_rules only_cmds_led_blink only_cmds_led_output)

lemma keeps_mono: "keeps R m \<Longrightarrow> (\<And>s t. R s t \<Longrightarrow> S s t) \<Longrightarrow> keeps S m"
  by (simp add: keeps_def)

lemma only_cmds_fields:
  assumes "only_cmds s t"
  shows "flash t = flash s" "analog t = analog s" "halted t = halted s" "clk_sys t = clk_sys s"
    "n_sys t = n_sys s" "more t = more s" "pin_in t = pin_in s" "n_pin t = n_pin s"
    "stays_awake t = stays_awake s" "n_sleep t = n_sleep s"
  using assms by (auto simp: only_cmds_def)

end
