(* ===== verification/FactoryReset.thy ===== *)
theory FactoryReset
  imports Led
begin

text \<open>
  The power-cycle gesture of \<open>vendor/common/factory_reset.c\<close>: a one-byte counter in a flash sector,
  written so that every step only clears bits of a fresh byte, and the check that runs in the main
  loop and recognises five power cycles of the right length. Then the factory reset itself and
  \<open>kick_out\<close>.

  The last part refines the check to an automaton on the plain count, without flash or indices.
\<close>

section \<open>State and constants\<close>

record frst_st = hw +
  adr_reset_cnt_idx :: nat
  clear_st :: u8
  reset_check_time :: u32

definition FLASH_ADR_RESET_CNT :: nat where "FLASH_ADR_RESET_CNT = 0x3e000"
definition FLASH_ADR_AREA_1_START :: nat where "FLASH_ADR_AREA_1_START = 0x30000"
definition FLASH_ADR_AREA_1_END :: nat where "FLASH_ADR_AREA_1_END = 0x40000"
definition FLASH_ADR_AREA_2_START :: nat where "FLASH_ADR_AREA_2_START = 0x70000"
definition FLASH_ADR_AREA_2_END :: nat where "FLASH_ADR_AREA_2_END = 0x76000"

definition factory_reset_serials :: "u8 list" where
  "factory_reset_serials = [0, 3, 0, 3, 0, 3, 3, 30, 3, 30]"

definition RESET_CNT_INVALID :: u8 where "RESET_CNT_INVALID = 0"

definition RESET_TRIGGER_VAL :: u8 where
  "RESET_TRIGGER_VAL = of_nat (length factory_reset_serials)"

definition VALID_POWER_ON_TIME_US :: u32 where "VALID_POWER_ON_TIME_US = 50 * 1000"

text \<open>\<open>clock_time_exceed(ref, us)\<close>: the system clock has 16 ticks per microsecond.\<close>

definition clock_time_exceed :: "u32 \<Rightarrow> u32 \<Rightarrow> ('a hw_scheme, bool) state" where
  "clock_time_exceed ref us = do { t \<leftarrow> clock_time; ret (us * 16 < t - ref) }"

section \<open>The counter in flash\<close>

definition reset_cnt_clean :: "('a frst_st_scheme, unit) state" where
  "reset_cnt_clean = do {
     i \<leftarrow> gets adr_reset_cnt_idx;
     if i < 3840 then ret ()
     else do {
       flash_erase_sector FLASH_ADR_RESET_CNT;
       modify (\<lambda>s. s\<lparr>adr_reset_cnt_idx := 0\<rparr>) } }"

definition write_reset_cnt :: "u8 \<Rightarrow> ('a frst_st_scheme, unit) state" where
  "write_reset_cnt cnt = do {
     reset_cnt_clean;
     i \<leftarrow> gets adr_reset_cnt_idx;
     flash_write_page (FLASH_ADR_RESET_CNT + i) [cnt] }"

definition clear_reset_cnt :: "('a frst_st_scheme, unit) state" where
  "clear_reset_cnt = write_reset_cnt RESET_CNT_INVALID"

text \<open>The scan for the first byte that is not zero; the fuel is the bound of the \<open>for\<close> loop.\<close>

fun get_idx_loop :: "nat \<Rightarrow> ('a frst_st_scheme, unit) state" where
  "get_idx_loop 0 = ret ()"
| "get_idx_loop (Suc n) = do {
     i \<leftarrow> gets adr_reset_cnt_idx;
     restcnt \<leftarrow> gets (\<lambda>s. flash s (FLASH_ADR_RESET_CNT + i));
     if restcnt \<noteq> RESET_CNT_INVALID then
       (if restcnt = 0xFF then ret ()
        else if RESET_TRIGGER_VAL < restcnt \<or> bit restcnt 0 then clear_reset_cnt
        else ret ())
     else do {
       modify (\<lambda>s. s\<lparr>adr_reset_cnt_idx := Suc i\<rparr>);
       get_idx_loop n } }"

definition reset_cnt_get_idx :: "('a frst_st_scheme, unit) state" where
  "reset_cnt_get_idx = do {
     modify (\<lambda>s. s\<lparr>adr_reset_cnt_idx := 0\<rparr>);
     get_idx_loop 4096 }"

definition get_reset_cnt :: "('a frst_st_scheme, u8) state" where
  "get_reset_cnt = do {
     i \<leftarrow> gets adr_reset_cnt_idx;
     gets (\<lambda>s. flash s (FLASH_ADR_RESET_CNT + i)) }"

definition increase_reset_cnt :: "('a frst_st_scheme, unit) state" where
  "increase_reset_cnt = do {
     reset_cnt \<leftarrow> get_reset_cnt;
     if reset_cnt = 0xFF then write_reset_cnt (0 + 1)
     else do {
       when_do (reset_cnt \<noteq> 0) (do {
         clear_reset_cnt;
         modify (\<lambda>s. s\<lparr>adr_reset_cnt_idx := Suc (adr_reset_cnt_idx s)\<rparr>) });
       write_reset_cnt (reset_cnt + 1) } }"

section \<open>The reset\<close>

definition area_sectors :: "nat \<Rightarrow> nat \<Rightarrow> nat list" where
  "area_sectors start stop = map (\<lambda>i. start + i * 0x1000) [0..<(stop - start) div 4096]"

definition erase_area :: "nat \<Rightarrow> nat \<Rightarrow> ('a hw_scheme, unit) state" where
  "erase_area start stop = do_all (map (\<lambda>adr.
     when_do (adr \<noteq> FLASH_ADR_RESET_CNT) (flash_erase_sector adr)) (area_sectors start stop))"

text \<open>
  \<open>FLASH_1M_ENABLE\<close> is 0 and the loop over the calibration sectors has an empty body in this build.
\<close>

definition factory_reset :: "('a hw_scheme, unit) state" where
  "factory_reset = do {
     emit Irq_disable;
     erase_area FLASH_ADR_AREA_1_START FLASH_ADR_AREA_1_END;
     erase_area FLASH_ADR_AREA_2_START FLASH_ADR_AREA_2_END;
     flash_erase_sector FLASH_ADR_RESET_CNT;
     emit Irq_restore }"

definition kick_out :: "('a hw_scheme, unit) state" where
  "kick_out = do {
     emit (Gpio_write GPIO_PB5 True);
     flash_erase_sector 0x78000;
     flash_erase_sector 0x79000;
     flash_erase_sector 0x7f000;
     show_factory_reset;
     c \<leftarrow> gets connected;
     when_do c (emit (Ble_terminate 0x13));
     emit (Sleep_us 500000);
     factory_reset;
     start_reboot }"

definition factory_reset_handle :: "('a frst_st_scheme, unit) state" where
  "factory_reset_handle = do {
     reset_cnt_get_idx;
     c \<leftarrow> get_reset_cnt;
     if c = RESET_TRIGGER_VAL then do {
       emit Irq_disable;
       factory_reset;
       show_ota_result True;
       start_reboot }
     else increase_reset_cnt }"

section \<open>The check in the main loop\<close>

text \<open>
  \<open>factory_reset_serials[get_reset_cnt() - 1]\<close>, an index of type \<open>int\<close>; outside the ten entries
  the read is undefined, which is the result \<open>False\<close>.
\<close>

definition serial_at :: "u8 \<Rightarrow> u8 option" where
  "serial_at c = (if 1 \<le> unat c \<and> unat c \<le> length factory_reset_serials
     then Some (factory_reset_serials ! (unat c - 1)) else None)"

definition load_check_time :: "('a frst_st_scheme, bool) state" where
  "load_check_time = do {
     c \<leftarrow> get_reset_cnt;
     (case serial_at c of
        None \<Rightarrow> ret False
      | Some v \<Rightarrow> do { modify (\<lambda>s. s\<lparr>reset_check_time := ucast v\<rparr>); ret True }) }"

definition dec_clear_st :: "('a frst_st_scheme, unit) state" where
  "dec_clear_st = modify (\<lambda>s. s\<lparr>clear_st := clear_st s - 1\<rparr>)"

definition check_closing :: "('a frst_st_scheme, bool) state" where
  "check_closing = do {
     st \<leftarrow> gets clear_st;
     if st \<noteq> 1 then ret True
     else do {
       rt \<leftarrow> gets reset_check_time;
       e \<leftarrow> clock_time_exceed 0 (rt * 1000 * 1000);
       when_do e (do {
         modify (\<lambda>s. s\<lparr>clear_st := 0\<rparr>);
         clear_reset_cnt });
       ret True } }"

definition check_counting :: "('a frst_st_scheme, bool) state" where
  "check_counting = do {
     st \<leftarrow> gets clear_st;
     if st \<noteq> 2 then check_closing
     else do {
       rt \<leftarrow> gets reset_check_time;
       e \<leftarrow> clock_time_exceed 0 (rt * 1000 * 1000);
       if e then do {
         dec_clear_st;
         increase_reset_cnt;
         ok \<leftarrow> load_check_time;
         if ok then check_closing else ret False }
       else check_closing } }"

definition check_loading :: "('a frst_st_scheme, bool) state" where
  "check_loading = do {
     st \<leftarrow> gets clear_st;
     if st \<noteq> 3 then check_counting
     else do {
       dec_clear_st;
       ok \<leftarrow> load_check_time;
       if ok then check_counting else ret False } }"

definition factory_reset_cnt_check :: "('a frst_st_scheme, bool) state" where
  "factory_reset_cnt_check = do {
     st \<leftarrow> gets clear_st;
     if st = 0 then ret True
     else if st \<noteq> 4 then check_loading
     else do {
       e \<leftarrow> clock_time_exceed 0 VALID_POWER_ON_TIME_US;
       if e then do {
         dec_clear_st;
         factory_reset_handle;
         h \<leftarrow> gets halted;
         if h then ret True else check_loading }
       else check_loading } }"

section \<open>The sector always reads as one count\<close>

definition rst_byte :: "'a hw_scheme \<Rightarrow> nat \<Rightarrow> u8" where
  "rst_byte s i = flash s (FLASH_ADR_RESET_CNT + i)"

definition rst_wf :: "nat \<Rightarrow> u8 \<Rightarrow> 'a hw_scheme \<Rightarrow> bool" where
  "rst_wf k v s \<longleftrightarrow> k \<le> 3840 \<and> v \<noteq> 0 \<and>
     (\<forall>i<4096. rst_byte s i = (if i < k then 0 else if i = k then v else 0xFF))"

text \<open>The sector stores \<open>v\<close>; at run time the index also points at it.\<close>

definition rst_stores :: "u8 \<Rightarrow> 'a hw_scheme \<Rightarrow> bool" where
  "rst_stores v s \<longleftrightarrow> (\<exists>k. rst_wf k v s)"

definition rst_at :: "u8 \<Rightarrow> 'a frst_st_scheme \<Rightarrow> bool" where
  "rst_at v s \<longleftrightarrow> rst_wf (adr_reset_cnt_idx s) v s"

lemma rst_at_stores: "rst_at v s \<Longrightarrow> rst_stores v s"
  by (auto simp: rst_at_def rst_stores_def)

lemmas rst_adr = FLASH_ADR_RESET_CNT_def RESET_CNT_INVALID_def
lemmas rst_consts = rst_adr RESET_TRIGGER_VAL_def factory_reset_serials_def

lemma run_flash_write_byte:
  "run_state (flash_write_page a [c]) s =
     ((), s\<lparr>flash := (flash s)(a := flash s a AND c), cmds := cmds s @ [Flash_write a [c]]\<rparr>)"
proof -
  have "(\<lambda>b. if a \<le> b \<and> b < Suc a then flash s b AND [c] ! (b - a) else flash s b) =
      (flash s)(a := flash s a AND c)" (is "?f = ?g")
  proof
    fix b show "?f b = ?g b" by (cases "b = a") auto
  qed
  then show ?thesis by (simp add: flash_write_page_def)
qed

lemma rst_sector: "(FLASH_ADR_RESET_CNT + i) div 4096 = FLASH_ADR_RESET_CNT div 4096 \<longleftrightarrow> i < 4096"
proof -
  have e: "FLASH_ADR_RESET_CNT = 62 * 4096" by (simp add: rst_adr)
  have "(62 * 4096 + i) div 4096 = 62 + i div 4096" by (rule div_mult_self3) simp
  then show ?thesis unfolding e by (auto simp: div_eq_0_iff)
qed

lemma and_FF_left [simp]: "0xFF AND c = (c :: u8)"
proof -
  have "(0xFF :: u8) = - 1" by simp
  then show ?thesis by (simp only: and.left_neutral)
qed

text \<open>The frame of all counter operations.\<close>

definition rst_frame :: "'a frst_st_scheme \<Rightarrow> 'a frst_st_scheme \<Rightarrow> bool" where
  "rst_frame s t \<longleftrightarrow> clear_st t = clear_st s \<and> reset_check_time t = reset_check_time s \<and>
     clk_sys t = clk_sys s \<and> n_sys t = n_sys s \<and> halted t = halted s \<and>
     (\<forall>a. a div 4096 \<noteq> FLASH_ADR_RESET_CNT div 4096 \<longrightarrow> flash t a = flash s a)"

lemma rst_frame_refl [simp]: "rst_frame s s" by (simp add: rst_frame_def)

lemma rst_frame_trans: "rst_frame s t \<Longrightarrow> rst_frame t u \<Longrightarrow> rst_frame s u"
  by (simp add: rst_frame_def)

lemma reset_cnt_clean_exec:
  "exec reset_cnt_clean s = (if adr_reset_cnt_idx s < 3840 then s else
     s\<lparr>flash := (\<lambda>a. if a div 4096 = FLASH_ADR_RESET_CNT div 4096 then 0xFF else flash s a),
       cmds := cmds s @ [Flash_erase FLASH_ADR_RESET_CNT], adr_reset_cnt_idx := 0\<rparr>)"
  by (simp add: reset_cnt_clean_def exec_def flash_erase_sector_def)

lemma write_reset_cnt_exec:
  "exec (write_reset_cnt c) s = (let t = exec reset_cnt_clean s; a = FLASH_ADR_RESET_CNT + adr_reset_cnt_idx t in
     t\<lparr>flash := (flash t)(a := flash t a AND c), cmds := cmds t @ [Flash_write a [c]]\<rparr>)"
proof -
  have "exec (flash_write_page a [c]) t = t\<lparr>flash := (flash t)(a := flash t a AND c), cmds := cmds t @ [Flash_write a [c]]\<rparr>"
    for a and t :: "'a frst_st_scheme"
    by (simp add: exec_def run_flash_write_byte)
  then show ?thesis by (simp add: write_reset_cnt_def exec_bind Let_def)
qed

lemma write_idx:
  "adr_reset_cnt_idx (exec (write_reset_cnt c) s) = (if adr_reset_cnt_idx s < 3840 then adr_reset_cnt_idx s else 0)"
  by (simp add: write_reset_cnt_exec reset_cnt_clean_exec Let_def)

lemma write_bytes:
  "i < 4096 \<Longrightarrow> rst_byte (exec (write_reset_cnt c) s) i =
     (if adr_reset_cnt_idx s < 3840 then (if i = adr_reset_cnt_idx s then rst_byte s i AND c else rst_byte s i)
      else (if i = 0 then c else 0xFF))"
  using rst_sector [of i]
  by (auto simp: rst_byte_def write_reset_cnt_exec reset_cnt_clean_exec Let_def)

lemma write_frame: "rst_frame s (exec (write_reset_cnt c) s)"
proof -
  have "adr_reset_cnt_idx s < 4096 \<or> 3840 \<le> adr_reset_cnt_idx s" by linarith
  then show ?thesis
    using rst_sector [of "adr_reset_cnt_idx s"] rst_sector [of 0]
    by (auto simp: rst_frame_def write_reset_cnt_exec reset_cnt_clean_exec Let_def)
qed

lemma rst_byte_idx [simp]: "rst_byte (s\<lparr>adr_reset_cnt_idx := i\<rparr>) = rst_byte s"
  by (simp add: rst_byte_def fun_eq_iff)

lemma rst_wf_idx [simp]: "rst_wf k v (s\<lparr>adr_reset_cnt_idx := i\<rparr>) = rst_wf k v s"
  by (simp add: rst_wf_def)

text \<open>A blank slot, a slot in use, and what writing to each gives.\<close>

lemma write_fresh: "rst_at 0xFF s \<Longrightarrow> c \<noteq> 0 \<Longrightarrow> rst_at c (exec (write_reset_cnt c) s)"
  by (auto simp: rst_at_def rst_wf_def write_idx write_bytes)

lemma clear_slot:
  assumes "rst_at v s"
  shows "rst_wf (Suc (adr_reset_cnt_idx (exec clear_reset_cnt s))) 0xFF (exec clear_reset_cnt s)"
  using assms
  by (auto simp: rst_at_def rst_wf_def clear_reset_cnt_def RESET_CNT_INVALID_def write_idx write_bytes)

lemma clear_zero: "adr_reset_cnt_idx s < 4096 \<Longrightarrow>
    rst_byte (exec clear_reset_cnt s) (adr_reset_cnt_idx (exec clear_reset_cnt s)) = 0"
  by (simp add: clear_reset_cnt_def RESET_CNT_INVALID_def write_idx write_bytes)

lemma clear_stores: "rst_at v s \<Longrightarrow> rst_stores 0xFF (exec clear_reset_cnt s)"
  using clear_slot by (auto simp: rst_stores_def)

lemma get_reset_cnt_run [simp]:
  "run_state get_reset_cnt s = (rst_byte s (adr_reset_cnt_idx s), s)" "exec get_reset_cnt s = s"
  by (simp_all add: get_reset_cnt_def rst_byte_def exec_def)

lemma rst_at_byte: "rst_at v s \<Longrightarrow> rst_byte s (adr_reset_cnt_idx s) = v"
  by (simp add: rst_at_def rst_wf_def)

lemma increase_blank:
  assumes "rst_at 0xFF s"
  shows "rst_at 1 (exec increase_reset_cnt s) \<and> rst_frame s (exec increase_reset_cnt s)"
  using assms write_fresh [OF assms, of 1] write_frame [of s 1]
  by (simp add: increase_reset_cnt_def exec_bind rst_at_byte)

lemma rst_frame_idx: "rst_frame s t \<Longrightarrow> rst_frame s (t\<lparr>adr_reset_cnt_idx := i\<rparr>)"
  by (simp add: rst_frame_def)

lemma increase_used:
  assumes "rst_at v s" "v \<noteq> 0xFF"
  shows "rst_at (v + 1) (exec increase_reset_cnt s) \<and> rst_frame s (exec increase_reset_cnt s)"
proof -
  obtain t where t: "t = exec clear_reset_cnt s" by blast
  let ?u = "t\<lparr>adr_reset_cnt_idx := Suc (adr_reset_cnt_idx t)\<rparr>"
  have "v \<noteq> 0" using assms(1) by (simp add: rst_at_def rst_wf_def)
  then have e: "exec increase_reset_cnt s = exec (write_reset_cnt (v + 1)) ?u"
    using assms by (simp add: increase_reset_cnt_def exec_bind rst_at_byte t)
  have "v + 1 \<noteq> 0"
  proof
    assume "v + 1 = 0"
    then have "v = - 1" by (simp add: add_eq_0_iff2)
    then show False using assms(2) by simp
  qed
  then have "rst_at (v + 1) (exec (write_reset_cnt (v + 1)) ?u)"
    by (rule write_fresh [rotated]) (use clear_slot [OF assms(1)] in \<open>simp add: t rst_at_def\<close>)
  moreover have "rst_frame s ?u"
    using write_frame [of s 0] by (simp add: t clear_reset_cnt_def RESET_CNT_INVALID_def rst_frame_idx)
  ultimately show ?thesis unfolding e using write_frame rst_frame_trans by blast
qed

text \<open>The scan finds the stored count and leaves the flash alone, unless the count is invalid.\<close>

definition rst_valid :: "u8 \<Rightarrow> bool" where
  "rst_valid v \<longleftrightarrow> v = 0xFF \<or> \<not> RESET_TRIGGER_VAL < v \<and> \<not> bit v 0"

lemma get_idx_loop_zeros:
  assumes "\<forall>i<k. rst_byte s i = 0" "adr_reset_cnt_idx s + j = k" "j \<le> n"
  shows "exec (get_idx_loop n) s = exec (get_idx_loop (n - j)) (s\<lparr>adr_reset_cnt_idx := k\<rparr>)"
  using assms
proof (induction j arbitrary: s n)
  case 0
  then have "s\<lparr>adr_reset_cnt_idx := k\<rparr> = s" by simp
  then show ?case by simp
next
  case (Suc j)
  then obtain m where m: "n = Suc m" by (cases n) auto
  have "rst_byte s (adr_reset_cnt_idx s) = 0" using Suc.prems by auto
  then have "exec (get_idx_loop n) s = exec (get_idx_loop m) (s\<lparr>adr_reset_cnt_idx := Suc (adr_reset_cnt_idx s)\<rparr>)"
    by (simp add: m exec_bind RESET_CNT_INVALID_def rst_byte_def)
  also have "\<dots> = exec (get_idx_loop (m - j)) (s\<lparr>adr_reset_cnt_idx := k\<rparr>)"
    using Suc.IH [of "s\<lparr>adr_reset_cnt_idx := Suc (adr_reset_cnt_idx s)\<rparr>" m] Suc.prems m
    by (simp add: rst_byte_def)
  finally show ?case by (simp add: m)
qed

lemma reset_cnt_get_idx_exec:
  assumes "rst_wf k v s"
  shows "exec reset_cnt_get_idx s = (if rst_valid v then s\<lparr>adr_reset_cnt_idx := k\<rparr>
    else exec clear_reset_cnt (s\<lparr>adr_reset_cnt_idx := k\<rparr>))"
proof -
  let ?s = "s\<lparr>adr_reset_cnt_idx := 0\<rparr>"
  have k: "k \<le> 3840" "v \<noteq> 0" "rst_byte s k = v" using assms by (simp_all add: rst_wf_def)
  have "exec (get_idx_loop 4096) ?s = exec (get_idx_loop (4096 - k)) (?s\<lparr>adr_reset_cnt_idx := k\<rparr>)"
    by (rule get_idx_loop_zeros) (use assms k in \<open>auto simp: rst_wf_def rst_byte_def\<close>)
  moreover have "4096 - k = Suc (4095 - k)" using k by simp
  ultimately show ?thesis using k
    by (auto simp: reset_cnt_get_idx_def exec_bind rst_valid_def rst_byte_def RESET_CNT_INVALID_def)
qed

section \<open>The gesture as an automaton on the count\<close>

text \<open>
  One power-on period: \<open>Waiting\<close> for 50 ms, then the count goes to the next odd value (\<open>Early\<close>:
  power lost now makes it invalid), after the minimum time to the next even value (\<open>Late\<close>: the period
  counts), and after the maximum time back to zero (\<open>Closed\<close>). \<open>n\<close> is the count at power-on, \<open>i\<close>
  the number of clock readings so far, \<open>clk\<close> the system clock.
\<close>

datatype rst_phase = Waiting | Early | Late | Closed

definition serial_ticks :: "nat \<Rightarrow> nat" where
  "serial_ticks n = unat (factory_reset_serials ! n) * 16000000"

definition auto_late :: "(nat \<Rightarrow> u32) \<Rightarrow> nat \<Rightarrow> nat \<Rightarrow> rst_phase \<times> nat \<times> nat" where
  "auto_late clk n i = (if serial_ticks (n + 1) < unat (clk i) then (Closed, n, i + 1) else (Late, n, i + 1))"

definition auto_early :: "(nat \<Rightarrow> u32) \<Rightarrow> nat \<Rightarrow> nat \<Rightarrow> rst_phase \<times> nat \<times> nat" where
  "auto_early clk n i = (if serial_ticks n < unat (clk i) then auto_late clk n (i + 1) else (Early, n, i + 1))"

fun auto_step :: "(nat \<Rightarrow> u32) \<Rightarrow> rst_phase \<times> nat \<times> nat \<Rightarrow> rst_phase \<times> nat \<times> nat" where
  "auto_step clk (Waiting, n, i) = (if 800000 < unat (clk i) then auto_early clk n (i + 1) else (Waiting, n, i + 1))"
| "auto_step clk (Early, n, i) = auto_early clk n i"
| "auto_step clk (Late, n, i) = auto_late clk n i"
| "auto_step clk (Closed, n, i) = (Closed, n, i)"

fun auto_count :: "rst_phase \<times> nat \<times> nat \<Rightarrow> nat" where
  "auto_count (Waiting, n, i) = n"
| "auto_count (Early, n, i) = n + 1"
| "auto_count (Late, n, i) = n + 2"
| "auto_count (Closed, n, i) = 0"

definition count_byte :: "nat \<Rightarrow> u8" where
  "count_byte c = (if c = 0 then 0xFF else of_nat c)"

definition rst_ns :: "nat set" where "rst_ns = {0, 2, 4, 6, 8}"

text \<open>
  The program state that an automaton state stands for. Only the counts that complete power cycles
  leave are represented: from an odd count the program leaves the automaton.
\<close>

fun rst_rel :: "'a frst_st_scheme \<Rightarrow> rst_phase \<times> nat \<times> nat \<Rightarrow> bool" where
  "rst_rel s (ph, n, i) \<longleftrightarrow> n \<in> rst_ns \<and> n_sys s = i \<and> \<not> halted s \<and>
     (case ph of
        Waiting \<Rightarrow> clear_st s = 4 \<and> rst_stores (count_byte n) s
      | Early \<Rightarrow> clear_st s = 2 \<and> rst_at (of_nat (n + 1)) s \<and> reset_check_time s = ucast (factory_reset_serials ! n)
      | Late \<Rightarrow> clear_st s = 1 \<and> rst_at (of_nat (n + 2)) s \<and> reset_check_time s = ucast (factory_reset_serials ! (n + 1))
      | Closed \<Rightarrow> clear_st s = 0 \<and> rst_stores 0xFF s)"

definition rst_sim :: "('a frst_st_scheme, bool) state \<Rightarrow> 'a frst_st_scheme \<Rightarrow> rst_phase \<times> nat \<times> nat \<Rightarrow> bool" where
  "rst_sim m s r \<longleftrightarrow> fst (run_state m s) \<and> rst_rel (exec m s) r \<and> clk_sys (exec m s) = clk_sys s \<and>
     (\<forall>a. a div 4096 \<noteq> FLASH_ADR_RESET_CNT div 4096 \<longrightarrow> flash (exec m s) a = flash s a)"

lemma run_clock_time_exceed [simp]:
  "run_state (clock_time_exceed ref us) s = (us * 16 < clk_sys s (n_sys s) - ref, s\<lparr>n_sys := Suc (n_sys s)\<rparr>)"
  by (simp add: clock_time_exceed_def clock_time_def)

lemma serial_thr:
  assumes "k < 10"
  shows "(ucast (factory_reset_serials ! k) * 1000 * 1000 * 16 < (t :: u32)) = (serial_ticks k < unat t)"
proof -
  have "k \<in> set [0..<10]" using assms by simp
  then show ?thesis
    by (auto simp: upt_rec factory_reset_serials_def serial_ticks_def word_less_nat_alt)
qed

lemma rst_byte_n_sys [simp]: "rst_byte (s\<lparr>n_sys := i\<rparr>) = rst_byte s"
  "rst_byte (u\<lparr>clear_st := c\<rparr>) = rst_byte u" "rst_byte (u\<lparr>reset_check_time := x\<rparr>) = rst_byte u"
  by (simp_all add: rst_byte_def fun_eq_iff)

lemma rst_at_upd [simp]: "rst_at v (u\<lparr>n_sys := i\<rparr>) = rst_at v u"
  "rst_at v (u\<lparr>clear_st := c\<rparr>) = rst_at v u" "rst_at v (u\<lparr>reset_check_time := x\<rparr>) = rst_at v u"
  by (simp_all add: rst_at_def rst_wf_def)

lemma rst_stores_upd [simp]: "rst_stores v (s\<lparr>n_sys := i\<rparr>) = rst_stores v s"
  "rst_stores v (u\<lparr>clear_st := c\<rparr>) = rst_stores v u"
  by (simp_all add: rst_stores_def rst_wf_def)

lemma clear_frame: "rst_frame s (exec clear_reset_cnt s)"
  by (simp add: clear_reset_cnt_def write_frame)

lemma closing_sim:
  assumes "rst_rel s (Late, n, i)"
  shows "rst_sim check_closing s (auto_late (clk_sys s) n i)"
proof -
  let ?s = "s\<lparr>n_sys := Suc i\<rparr>"
  have a: "n \<in> rst_ns" "clear_st s = 1" "n_sys s = i" "\<not> halted s" "rst_at (of_nat (n + 2)) s"
    "reset_check_time s = ucast (factory_reset_serials ! (n + 1))"
    using assms by simp_all
  have n: "n + 1 < 10" using a(1) by (auto simp: rst_ns_def)
  obtain u where u: "u = exec clear_reset_cnt (?s\<lparr>clear_st := 0\<rparr>)" by blast
  have f: "rst_frame (?s\<lparr>clear_st := 0\<rparr>) u" unfolding u by (rule clear_frame)
  have st: "rst_stores 0xFF u" unfolding u by (rule clear_stores [of "of_nat (n + 2)"]) (use a(5) in simp)
  have t: "(reset_check_time s * 1000 * 1000 * 16 < clk_sys s i - 0) = (serial_ticks (n + 1) < unat (clk_sys s i))"
    using serial_thr [OF n] by (simp add: a(6))
  have r: "run_state check_closing s = (True, if serial_ticks (n + 1) < unat (clk_sys s i) then u else ?s)"
    using a(2,3) t by (simp add: check_closing_def u exec_def split_beta)
  show ?thesis
    using a f st by (auto simp: rst_sim_def exec_def r auto_late_def rst_frame_def)
qed

lemma load_run:
  assumes "rst_at (of_nat m) s" "1 \<le> m" "m \<le> 10"
  shows "run_state load_check_time s = (True, s\<lparr>reset_check_time := ucast (factory_reset_serials ! (m - 1))\<rparr>)"
  using assms by (simp add: load_check_time_def rst_at_byte serial_at_def) (simp add: factory_reset_serials_def)

lemma of_nat_Suc_u8: "of_nat m + 1 = (of_nat (Suc m) :: u8)"
  by simp

lemma small_not_FF: "m \<le> 10 \<Longrightarrow> (of_nat m :: u8) \<noteq> 0xFF"
proof
  assume m: "m \<le> 10" and "(of_nat m :: u8) = 0xFF"
  then have "unat (of_nat m :: u8) = unat (0xFF :: u8)" by simp
  then show False using m by simp
qed

lemma rst_sim_after:
  assumes "rst_frame s t" "rst_sim m t r" "run_state m' s = run_state m t"
  shows "rst_sim m' s r"
proof -
  have "exec m' s = exec m t" by (simp add: exec_def assms(3))
  then show ?thesis using assms by (auto simp: rst_sim_def rst_frame_def)
qed

lemma counting_sim:
  assumes "rst_rel s (Early, n, i)"
  shows "rst_sim check_counting s (auto_early (clk_sys s) n i)"
proof -
  let ?s = "s\<lparr>n_sys := Suc i\<rparr>"
  have a: "n \<in> rst_ns" "clear_st s = 2" "n_sys s = i" "\<not> halted s" "rst_at (of_nat (n + 1)) s"
    "reset_check_time s = ucast (factory_reset_serials ! n)"
    using assms by simp_all
  have n: "n + 2 \<le> 10" using a(1) by (auto simp: rst_ns_def)
  have t: "(reset_check_time s * 1000 * 1000 * 16 < clk_sys s i - 0) = (serial_ticks n < unat (clk_sys s i))"
    using serial_thr n by (simp add: a(6))
  show ?thesis
  proof (cases "serial_ticks n < unat (clk_sys s i)")
    case False
    then have "run_state check_counting s = (True, ?s)"
      using a(2,3) t by (simp add: check_counting_def check_closing_def exec_def split_beta)
    then show ?thesis using a False by (simp add: rst_sim_def exec_def auto_early_def)
  next
    case True
    obtain u where u: "u = exec increase_reset_cnt (?s\<lparr>clear_st := 1\<rparr>)" by blast
    have inc: "rst_at (of_nat (n + 2)) u \<and> rst_frame (?s\<lparr>clear_st := 1\<rparr>) u"
      using increase_used [of "of_nat (n + 1)" "?s\<lparr>clear_st := 1\<rparr>"] a(5) n small_not_FF [of "n + 1"]
      by (simp add: u add.assoc)
    let ?u = "u\<lparr>reset_check_time := ucast (factory_reset_serials ! (n + 1))\<rparr>"
    have "run_state load_check_time u = (True, ?u)" using load_run [of "n + 2" u] inc n by simp
    then have r: "run_state check_counting s = run_state check_closing ?u"
      using a(2,3) t True by (simp add: check_counting_def dec_clear_st_def u exec_def split_beta)
    have "rst_rel ?u (Late, n, Suc i)" using a inc by (simp add: rst_frame_def)
    from closing_sim [OF this] have "rst_sim check_closing ?u (auto_late (clk_sys s) n (Suc i))"
      using inc by (simp add: rst_frame_def)
    then have "rst_sim check_counting s (auto_late (clk_sys s) n (Suc i))"
      using inc r by (auto simp: rst_sim_def rst_frame_def exec_def)
    then show ?thesis using True by (simp add: auto_early_def)
  qed
qed

lemma loading_sim:
  assumes "n \<in> rst_ns" "clear_st s = 3" "\<not> halted s" "rst_at (of_nat (n + 1)) s"
  shows "rst_sim check_loading s (auto_early (clk_sys s) n (n_sys s))"
proof -
  let ?t = "s\<lparr>clear_st := 2, reset_check_time := ucast (factory_reset_serials ! n)\<rparr>"
  have n: "n + 1 \<le> 10" using assms(1) by (auto simp: rst_ns_def)
  have "run_state load_check_time (s\<lparr>clear_st := 2\<rparr>) = (True, ?t)"
    using load_run [of "n + 1" "s\<lparr>clear_st := 2\<rparr>"] assms(4) n by simp
  then have r: "run_state check_loading s = run_state check_counting ?t"
    using assms by (simp add: check_loading_def dec_clear_st_def)
  have "rst_rel ?t (Early, n, n_sys s)" using assms by simp
  from counting_sim [OF this] show ?thesis using r by (auto simp: rst_sim_def exec_def)
qed

lemma rst_valid_count: "n \<in> rst_ns \<Longrightarrow> rst_valid (count_byte n)"
  by (auto simp: rst_ns_def rst_valid_def count_byte_def rst_consts)

lemma handle_below:
  assumes "n \<in> rst_ns" "rst_stores (count_byte n) s"
  shows "rst_at (of_nat (n + 1)) (exec factory_reset_handle s) \<and> rst_frame s (exec factory_reset_handle s)"
proof -
  obtain k where k: "rst_wf k (count_byte n) s" using assms(2) by (auto simp: rst_stores_def)
  let ?t = "s\<lparr>adr_reset_cnt_idx := k\<rparr>"
  have t: "exec reset_cnt_get_idx s = ?t"
    using reset_cnt_get_idx_exec [OF k] rst_valid_count [OF assms(1)] by simp
  have at: "rst_at (count_byte n) ?t" using k by (simp add: rst_at_def)
  have ne: "count_byte n \<noteq> RESET_TRIGGER_VAL"
    using assms(1) by (auto simp: rst_ns_def count_byte_def rst_consts)
  have e: "exec factory_reset_handle s = exec increase_reset_cnt ?t"
    using rst_at_byte [OF at] ne by (simp add: factory_reset_handle_def exec_bind t)
  have f: "rst_frame s ?t" by (simp add: rst_frame_def)
  show ?thesis
  proof (cases "n = 0")
    case True
    then have "rst_at 0xFF ?t" using at by (simp add: count_byte_def)
    from increase_blank [OF this] show ?thesis using rst_frame_trans [OF f] True e by simp
  next
    case False
    then have "rst_at (of_nat n) ?t" "(of_nat n :: u8) \<noteq> 0xFF"
      using at assms(1) small_not_FF [of n] by (auto simp: count_byte_def rst_ns_def)
    from increase_used [OF this] show ?thesis
      using rst_frame_trans [OF f] e by (simp add: add.commute)
  qed
qed

lemma check_sim:
  assumes "rst_rel s (ph, n, i)"
  shows "rst_sim factory_reset_cnt_check s (auto_step (clk_sys s) (ph, n, i))"
proof (cases ph)
  case Early
  then show ?thesis using assms(1) counting_sim [of s n i]
    by (simp add: factory_reset_cnt_check_def check_loading_def rst_sim_def exec_def)
next
  case Late
  then show ?thesis using assms(1) closing_sim [of s n i]
    by (simp add: factory_reset_cnt_check_def check_loading_def check_counting_def rst_sim_def exec_def)
next
  case Closed
  then show ?thesis using assms(1) by (simp add: factory_reset_cnt_check_def rst_sim_def exec_def)
next
  case Waiting
  let ?s = "s\<lparr>n_sys := Suc i\<rparr>"
  have a: "n \<in> rst_ns" "clear_st s = 4" "n_sys s = i" "\<not> halted s" "rst_stores (count_byte n) s"
    using assms(1) Waiting by simp_all
  have t: "(VALID_POWER_ON_TIME_US * 16 < clk_sys s i - 0) = (800000 < unat (clk_sys s i))"
    by (simp add: VALID_POWER_ON_TIME_US_def word_less_nat_alt)
  show ?thesis
  proof (cases "800000 < unat (clk_sys s i)")
    case False
    then have "run_state factory_reset_cnt_check s = (True, ?s)"
      using a t by (simp add: factory_reset_cnt_check_def check_loading_def check_counting_def check_closing_def)
    then show ?thesis using a False Waiting by (simp add: rst_sim_def exec_def)
  next
    case True
    let ?t = "?s\<lparr>clear_st := 3\<rparr>"
    obtain u where u: "u = exec factory_reset_handle ?t" by blast
    have h: "rst_at (of_nat (n + 1)) u" "rst_frame ?t u"
      unfolding u using handle_below [of n ?t] a by simp_all
    then have "\<not> halted u" "clear_st u = 3" "n_sys u = Suc i" "clk_sys u = clk_sys s"
      using a by (simp_all add: rst_frame_def)
    moreover have "run_state factory_reset_cnt_check s = run_state check_loading u"
      using a t True calculation(1) u
      by (simp add: factory_reset_cnt_check_def dec_clear_st_def run_bind exec_def split_beta)
    ultimately show ?thesis
      using loading_sim [OF a(1), of u] h True Waiting by (auto simp: rst_sim_def rst_frame_def exec_def)
  qed
qed

text \<open>
C2: As long as the power-on finds one of the counts 0, 2, 4, 6 and 8 that complete power cycles leave
in the flash sector, each call of \<open>factory_reset_cnt_check\<close> is one step of the automaton on the plain
count: it never reads outside the table, keeps the sector well formed, touches no other flash, and
ends in the state and with the stored count of the automaton run on the same clock readings. (What
happens after a power cycle that was cut short and left an odd count is
\<open>short_cycle_reads_outside_table\<close> below.)
\<close>

theorem factory_reset_cnt_check_refines:
  assumes "rst_rel s (ph, n, i)"
  defines "s' \<equiv> exec factory_reset_cnt_check s"
  shows "fst (run_state factory_reset_cnt_check s) \<and> rst_rel s' (auto_step (clk_sys s) (ph, n, i)) \<and>
    clk_sys s' = clk_sys s \<and> (\<forall>a. a div 4096 \<noteq> 62 \<longrightarrow> flash s' a = flash s a)"
  using check_sim [OF assms(1)] unfolding s'_def by (auto simp: rst_sim_def rst_adr)

section \<open>What the factory reset erases\<close>

lemma erase_list:
  "exec (do_all (map (\<lambda>adr. when_do (adr \<noteq> k) (flash_erase_sector adr)) as)) s =
     s\<lparr>flash := (\<lambda>a. if \<exists>adr\<in>set as. adr \<noteq> k \<and> a div 4096 = adr div 4096 then 0xFF else flash s a),
       cmds := cmds s @ map Flash_erase (filter (\<lambda>adr. adr \<noteq> k) as)\<rparr>"
proof (induction as arbitrary: s)
  case Nil
  then show ?case by simp
next
  case (Cons x as)
  have e: "exec (flash_erase_sector x) s = s\<lparr>flash := (\<lambda>a. if a div 4096 = x div 4096 then 0xFF else flash s a),
      cmds := cmds s @ [Flash_erase x]\<rparr>"
    by (simp add: flash_erase_sector_def)
  show ?case
  proof (cases "x = k")
    case False
    have "(\<lambda>a. if P a then 0xFF else if a div 4096 = x div 4096 then 0xFF else flash s a) =
        (\<lambda>a. if a div 4096 = x div 4096 \<or> P a then 0xFF else flash s a)" for P
      by auto
    then show ?thesis using False by (simp add: exec_bind Cons.IH e cong: if_cong)
  qed (simp add: exec_bind Cons.IH)
qed

lemma area_sectors_set:
  assumes "start mod 4096 = 0" "stop mod 4096 = 0"
  shows "(\<exists>adr\<in>set (area_sectors start stop). a div 4096 = adr div 4096) \<longleftrightarrow>
    start div 4096 \<le> a div 4096 \<and> a div 4096 < stop div 4096"
proof -
  have "start = 4096 * (start div 4096)" "stop = 4096 * (stop div 4096)" using assms by auto
  then obtain p q where pq: "start = 4096 * p" "stop = 4096 * q" by blast
  have e: "(start + i * 0x1000) div 4096 = p + i" for i by (simp add: pq)
  have d: "(stop - start) div 4096 = q - p" by (simp add: pq flip: diff_mult_distrib2)
  have "(\<exists>adr\<in>set (area_sectors start stop). a div 4096 = adr div 4096) \<longleftrightarrow> (\<exists>i<q - p. a div 4096 = p + i)"
    unfolding area_sectors_def d using e by auto
  also have "\<dots> \<longleftrightarrow> p \<le> a div 4096 \<and> a div 4096 < q"
    by (auto intro: exI [of _ "a div 4096 - p"])
  finally show ?thesis by (simp add: pq)
qed

definition reset_sectors :: "nat list" where
  "reset_sectors = filter (\<lambda>a. a \<noteq> FLASH_ADR_RESET_CNT)
     (area_sectors FLASH_ADR_AREA_1_START FLASH_ADR_AREA_1_END @
      area_sectors FLASH_ADR_AREA_2_START FLASH_ADR_AREA_2_END)"

lemma factory_reset_exec:
  "flash (exec factory_reset s) a =
     (if a div 4096 \<in> {48..63} \<union> {112..117} then 0xFF else flash s a)"
  "cmds (exec factory_reset s) = cmds s @ Irq_disable # map Flash_erase reset_sectors @
     [Flash_erase FLASH_ADR_RESET_CNT, Irq_restore]"
proof -
  have a1: "(\<exists>adr\<in>set (area_sectors 0x30000 0x40000). a div 4096 = adr div 4096) \<longleftrightarrow> a div 4096 \<in> {48..63}"
    by (subst area_sectors_set) auto
  have a2: "(\<exists>adr\<in>set (area_sectors 0x70000 0x76000). a div 4096 = adr div 4096) \<longleftrightarrow> a div 4096 \<in> {112..117}"
    by (subst area_sectors_set) auto
  have k: "(\<exists>adr\<in>A. adr \<noteq> 0x3e000 \<and> b = adr div 4096) \<longleftrightarrow> (\<exists>adr\<in>A. b = adr div 4096)"
    if "b \<noteq> 62" for A and b :: nat
    using that by force
  show "flash (exec factory_reset s) a =
     (if a div 4096 \<in> {48..63} \<union> {112..117} then 0xFF else flash s a)"
    apply (simp only: factory_reset_def erase_area_def exec_bind erase_list fst_conv run_emit)
    apply (simp add: flash_erase_sector_def exec_def rst_adr FLASH_ADR_AREA_1_START_def
      FLASH_ADR_AREA_1_END_def FLASH_ADR_AREA_2_START_def FLASH_ADR_AREA_2_END_def)
    using a1 a2 k [of "a div 4096"] by (cases "a div 4096 = 62") auto
  show "cmds (exec factory_reset s) = cmds s @ Irq_disable # map Flash_erase reset_sectors @
     [Flash_erase FLASH_ADR_RESET_CNT, Irq_restore]"
    apply (simp only: factory_reset_def erase_area_def exec_bind erase_list fst_conv run_emit)
    by (simp add: flash_erase_sector_def exec_def reset_sectors_def)
qed

section \<open>Power cycles\<close>

definition auto_run :: "(nat \<Rightarrow> u32) \<Rightarrow> nat \<Rightarrow> rst_phase \<times> nat \<times> nat \<Rightarrow> rst_phase \<times> nat \<times> nat" where
  "auto_run clk m r = (auto_step clk ^^ m) r"

definition run_checks :: "nat \<Rightarrow> 'a frst_st_scheme \<Rightarrow> 'a frst_st_scheme" where
  "run_checks m s = (exec factory_reset_cnt_check ^^ m) s"

text \<open>Power-on: the statics have their initial values, the flash is what it was.\<close>

definition power_on :: "(nat \<Rightarrow> u32) \<Rightarrow> 'a frst_st_scheme \<Rightarrow> 'a frst_st_scheme" where
  "power_on clk s = s\<lparr>clk_sys := clk, n_sys := 0, halted := False, adr_reset_cnt_idx := 0,
     clear_st := 4, reset_check_time := 0\<rparr>"

text \<open>A power cycle: the clock while the power is on, and how often the main loop runs the check.\<close>

definition power_cycle :: "(nat \<Rightarrow> u32) \<times> nat \<Rightarrow> 'a frst_st_scheme \<Rightarrow> 'a frst_st_scheme" where
  "power_cycle c s = run_checks (snd c) (power_on (fst c) s)"

lemma run_checks_rel:
  "rst_rel s r \<Longrightarrow> rst_rel (run_checks m s) (auto_run (clk_sys s) m r) \<and> clk_sys (run_checks m s) = clk_sys s"
proof (induction m)
  case 0
  then show ?case by (simp add: run_checks_def auto_run_def)
next
  case (Suc m)
  obtain ph n i where r: "auto_run (clk_sys s) m r = (ph, n, i)" by (cases "auto_run (clk_sys s) m r") auto
  have "rst_rel (run_checks m s) (ph, n, i)" "clk_sys (run_checks m s) = clk_sys s" using Suc r by simp_all
  moreover have "rst_sim factory_reset_cnt_check (run_checks m s) (auto_step (clk_sys s) (ph, n, i))"
    using check_sim calculation by metis
  ultimately show ?case by (simp add: rst_sim_def run_checks_def auto_run_def r [unfolded auto_run_def])
qed

definition monotone_clk :: "(nat \<Rightarrow> u32) \<Rightarrow> bool" where
  "monotone_clk clk \<longleftrightarrow> (\<forall>i j. i \<le> j \<longrightarrow> unat (clk i) \<le> unat (clk j))"

lemma power_on_rel: "n \<in> rst_ns \<Longrightarrow> rst_stores (count_byte n) s \<Longrightarrow> rst_rel (power_on clk s) (Waiting, n, 0)"
  by (simp add: power_on_def rst_stores_def rst_wf_def rst_byte_def)

lemma stores_after:
  assumes "n \<in> rst_ns" "rst_stores (count_byte n) s"
  shows "rst_stores (count_byte (auto_count (auto_run (fst c) (snd c) (Waiting, n, 0)))) (power_cycle c s)"
proof -
  obtain ph m i where r: "auto_run (fst c) (snd c) (Waiting, n, 0) = (ph, m, i)"
    by (cases "auto_run (fst c) (snd c) (Waiting, n, 0)") auto
  have "clk_sys (power_on (fst c) s) = fst c" by (simp add: power_on_def)
  then have "rst_rel (power_cycle c s) (ph, m, i)"
    using run_checks_rel [OF power_on_rel [OF assms, of "fst c"], of "snd c"] r
    by (simp add: power_cycle_def)
  then show ?thesis
    unfolding r by (cases ph) (auto simp: count_byte_def dest: rst_at_stores)
qed

text \<open>
  What a power cycle does to the count, in terms of the last clock reading it can make and the
  largest value the clock reaches.
\<close>

definition cycle_long_enough :: "nat \<Rightarrow> (nat \<Rightarrow> u32) \<times> nat \<Rightarrow> bool" where
  "cycle_long_enough n c \<longleftrightarrow> monotone_clk (fst c) \<and> 0 < snd c \<and>
     800000 < unat (fst c (snd c - 1)) \<and> serial_ticks n < unat (fst c (snd c - 1))"

definition cycle_good :: "nat \<Rightarrow> (nat \<Rightarrow> u32) \<times> nat \<Rightarrow> bool" where
  "cycle_good n c \<longleftrightarrow> cycle_long_enough n c \<and> (\<forall>i. unat (fst c i) \<le> serial_ticks (n + 1))"

lemma auto_progress:
  assumes "\<forall>i. unat (clk i) \<le> serial_ticks (n + 1)"
  shows "\<exists>ph i. auto_run clk m (Waiting, n, 0) = (ph, n, i) \<and> ph \<noteq> Closed \<and> m \<le> i"
proof (induction m)
  case 0
  then show ?case by (simp add: auto_run_def)
next
  case (Suc m)
  then obtain ph i where "auto_run clk m (Waiting, n, 0) = (ph, n, i)" "ph \<noteq> Closed" "m \<le> i" by blast
  moreover have "\<not> serial_ticks (Suc n) < unat (clk j)" for j using assms by (simp add: not_less)
  ultimately show ?case
    by (cases ph) (simp_all add: auto_run_def auto_early_def auto_late_def)
qed

lemma auto_good:
  assumes "cycle_good n c"
  shows "auto_count (auto_run (fst c) (snd c) (Waiting, n, 0)) = n + 2"
proof -
  obtain clk m where c: "c = (clk, Suc m)" using assms by (cases c; cases "snd c") (auto simp: cycle_good_def cycle_long_enough_def)
  have g: "monotone_clk clk" "800000 < unat (clk m)" "serial_ticks n < unat (clk m)"
    "\<forall>i. unat (clk i) \<le> serial_ticks (n + 1)"
    using assms by (simp_all add: c cycle_good_def cycle_long_enough_def)
  obtain ph i where r: "auto_run clk m (Waiting, n, 0) = (ph, n, i)" "ph \<noteq> Closed" "m \<le> i"
    using auto_progress [OF g(4)] by blast
  have ge: "800000 < unat (clk j)" "serial_ticks n < unat (clk j)" "\<not> serial_ticks (Suc n) < unat (clk j)"
    if "i \<le> j" for j
    using g that r(3) unfolding monotone_clk_def
    by (meson le_trans order.strict_trans2, meson le_trans order.strict_trans2, simp add: not_less)
  have "auto_run clk (Suc m) (Waiting, n, 0) = auto_step clk (ph, n, i)" using r(1) by (simp add: auto_run_def)
  then show ?thesis using ge [of i] ge [of "i + 1"] ge [of "i + 2"] r(2)
    by (cases ph) (simp_all add: c auto_early_def auto_late_def)
qed

lemma good_cycle_stores:
  assumes "n \<in> rst_ns" "rst_stores (count_byte n) s" "cycle_good n c"
  shows "rst_stores (of_nat (n + 2)) (power_cycle c s)"
  using stores_after [OF assms(1,2), of c] auto_good [OF assms(3)] by (simp add: count_byte_def)

lemma handle_trigger:
  assumes "rst_stores 10 s"
  shows "halted (exec factory_reset_handle s) \<and> last (cmds (exec factory_reset_handle s)) = Reboot \<and>
    flash (exec factory_reset_handle s) a = (if a div 4096 \<in> {48..63} \<union> {112..117} then 0xFF else flash s a)"
proof -
  obtain k where k: "rst_wf k 10 s" using assms by (auto simp: rst_stores_def)
  let ?t = "s\<lparr>adr_reset_cnt_idx := k\<rparr>"
  have t: "exec reset_cnt_get_idx s = ?t"
    using reset_cnt_get_idx_exec [OF k] by (simp add: rst_valid_def rst_consts)
  have b: "rst_byte s k = 10" using k by (simp add: rst_wf_def)
  let ?u = "exec factory_reset (?t\<lparr>cmds := cmds ?t @ [Irq_disable]\<rparr>)"
  have e: "exec factory_reset_handle s = exec start_reboot (exec (show_ota_result True) ?u)"
    using b by (simp add: factory_reset_handle_def exec_bind t) (simp add: rst_consts)
  have "only_cmds ?u (exec (show_ota_result True) ?u)"
    by (rule keepsD [OF only_cmds_signals(5)])
  then show ?thesis unfolding e
    by (simp add: start_reboot_def factory_reset_exec only_cmds_fields)
qed

text \<open>
C3: Five power cycles of the right length are a factory reset: starting from a blank counter, after
five cycles in which the power goes off within its window (0 to 3 s for the first three, 3 s to
30 s for the last two), the next power-on that lasts 50 ms erases the whole node state and reboots.
\<close>

theorem five_power_cycles_reset:
  assumes "rst_stores 0xFF s" "length cs = 5" "\<forall>j<5. cycle_good (2 * j) (cs ! j)"
    and "800000 < unat (clk 0)"
  defines "s5 \<equiv> fold power_cycle cs s"
  defines "s6 \<equiv> exec factory_reset_cnt_check (power_on clk s5)"
  shows "halted s6 \<and> last (cmds s6) = Reboot \<and>
    (\<forall>a. a div 4096 \<in> {48..63} \<union> {112..117} \<longrightarrow> flash s6 a = 0xFF)"
proof -
  obtain c0 c1 c2 c3 c4 where cs: "cs = [c0, c1, c2, c3, c4]"
    using assms(2) by (auto simp: length_Suc_conv numeral_eq_Suc)
  have g: "cycle_good 0 c0" "cycle_good 2 c1" "cycle_good 4 c2" "cycle_good 6 c3" "cycle_good 8 c4"
    using assms(3) [rule_format, of 0] assms(3) [rule_format, of 1] assms(3) [rule_format, of 2]
      assms(3) [rule_format, of 3] assms(3) [rule_format, of 4] by (simp_all add: cs)
  note st = good_cycle_stores [unfolded count_byte_def rst_ns_def]
  have "rst_stores 2 (power_cycle c0 s)" using st [of 0 s c0] assms(1) g by simp
  then have "rst_stores 4 (power_cycle c1 (power_cycle c0 s))" using st [of 2 _ c1] g by simp
  then have "rst_stores 6 (power_cycle c2 (power_cycle c1 (power_cycle c0 s)))" using st [of 4 _ c2] g by simp
  then have "rst_stores 8 (power_cycle c3 (power_cycle c2 (power_cycle c1 (power_cycle c0 s))))"
    using st [of 6 _ c3] g by simp
  then have "rst_stores 10 s5" using st [of 8 _ c4] g by (simp add: s5_def cs)
  then have ten: "rst_stores 10 ((power_on clk s5)\<lparr>n_sys := Suc 0, clear_st := 3\<rparr>)"
    by (simp add: power_on_def rst_stores_def rst_wf_def rst_byte_def)
  have "(VALID_POWER_ON_TIME_US * 16 < clk 0)"
    using assms(4) by (simp add: VALID_POWER_ON_TIME_US_def word_less_nat_alt)
  then have "s6 = exec factory_reset_handle ((power_on clk s5)\<lparr>n_sys := Suc 0, clear_st := 3\<rparr>)"
    using handle_trigger [OF ten]
    by (simp add: s6_def factory_reset_cnt_check_def dec_clear_st_def power_on_def exec_def split_beta)
  then show ?thesis using handle_trigger [OF ten] by simp
qed

text \<open>A blank device, and clocks that jump to a value and stay there.\<close>

definition demo_rst :: frst_st where
  "demo_rst = \<lparr>analog = \<lambda>_. 0, flash = \<lambda>_. 0xFF, pin_in = \<lambda>_ _. False, n_pin = 0,
     clk32k = \<lambda>_. 0, n_32k = 0, clk_ms = \<lambda>_. 0, n_ms = 0, clk_s = \<lambda>_. 0, n_s = 0, clk_sys = \<lambda>_. 0, n_sys = 0,
     i2c_in = \<lambda>_. [0, 0, 0], n_i2c = 0, adc_in = \<lambda>_. 1500, n_adc = 0, stays_awake = \<lambda>_. False,
     n_sleep = 0, provisioned = True, connected = False, halted = False, cmds = [],
     adr_reset_cnt_idx = 0, clear_st = 4, reset_check_time = 0\<rparr>"

lemma cycle_good_const:
  "cycle_good n (\<lambda>_. t, m) \<longleftrightarrow> 0 < m \<and>
     800000 < unat t \<and> serial_ticks n < unat t \<and> unat t \<le> serial_ticks (n + 1)"
  by (auto simp: cycle_good_def cycle_long_enough_def monotone_clk_def)

lemma demo_rst_blank: "rst_stores 0xFF demo_rst"
  unfolding rst_stores_def rst_wf_def by (rule exI [of _ 0]) (simp add: demo_rst_def rst_byte_def)

lemma five_power_cycles_reset_witness:
  "halted (exec factory_reset_cnt_check (power_on (\<lambda>_. 1600000)
     (fold power_cycle [(\<lambda>_. 16000000, 4), (\<lambda>_. 16000000, 4), (\<lambda>_. 16000000, 4),
        (\<lambda>_. 80000000, 4), (\<lambda>_. 80000000, 4)] demo_rst)))"
proof (rule five_power_cycles_reset [OF demo_rst_blank, THEN conjunct1])
  let ?cs = "[(\<lambda>_. 16000000, 4), (\<lambda>_. 16000000, 4), (\<lambda>_. 16000000, 4),
        (\<lambda>_. 80000000, 4), (\<lambda>_. 80000000, 4)] :: ((nat \<Rightarrow> u32) \<times> nat) list"
  have "cycle_good 0 (?cs ! 0)" "cycle_good 2 (?cs ! 1)" "cycle_good 4 (?cs ! 2)"
    "cycle_good 6 (?cs ! 3)" "cycle_good 8 (?cs ! 4)"
    by (simp_all add: cycle_good_const serial_ticks_def factory_reset_serials_def)
  moreover have "j = 0 \<or> j = 1 \<or> j = 2 \<or> j = 3 \<or> j = 4" if "j < 5" for j :: nat
    using that by linarith
  ultimately show "\<forall>j<5. cycle_good (2 * j) (?cs ! j)" by fastforce
qed simp_all

section \<open>Cycles of the wrong length\<close>

lemma auto_closed: "auto_run clk m (Closed, n, i) = (Closed, n, i)"
  by (induction m) (simp_all add: auto_run_def)

lemma auto_past:
  assumes "\<forall>i. unat (clk i) \<le> serial_ticks n"
  shows "\<exists>i. m \<le> i \<and> (auto_run clk m (Waiting, n, 0) = (Waiting, n, i) \<or>
    auto_run clk m (Waiting, n, 0) = (Early, n, i))"
proof (induction m)
  case 0
  then show ?case by (simp add: auto_run_def)
next
  case (Suc m)
  have "\<not> serial_ticks n < unat (clk j)" for j using assms by (simp add: not_less)
  then show ?case using Suc by (auto simp: auto_run_def auto_early_def)
qed

text \<open>Power lost after 50 ms but within the minimum time of the step.\<close>

definition cycle_short :: "nat \<Rightarrow> (nat \<Rightarrow> u32) \<times> nat \<Rightarrow> bool" where
  "cycle_short n c \<longleftrightarrow> monotone_clk (fst c) \<and> 0 < snd c \<and> 800000 < unat (fst c (snd c - 1)) \<and>
     (\<forall>i. unat (fst c i) \<le> serial_ticks n)"

lemma auto_short:
  assumes "cycle_short n c"
  shows "auto_count (auto_run (fst c) (snd c) (Waiting, n, 0)) = n + 1"
proof -
  obtain clk m where c: "c = (clk, Suc m)" using assms by (cases c; cases "snd c") (auto simp: cycle_short_def)
  have g: "monotone_clk clk" "800000 < unat (clk m)" "\<forall>i. unat (clk i) \<le> serial_ticks n"
    using assms by (simp_all add: c cycle_short_def)
  obtain i where i: "m \<le> i" "auto_run clk m (Waiting, n, 0) = (Waiting, n, i) \<or>
    auto_run clk m (Waiting, n, 0) = (Early, n, i)"
    using auto_past [OF g(3)] by blast
  have "unat (clk m) \<le> unat (clk i)" using g(1) i(1) by (simp add: monotone_clk_def)
  moreover have "\<not> serial_ticks n < unat (clk j)" for j using g(3) by (simp add: not_less)
  ultimately show ?thesis using i(2) g(2)
    by (auto simp: c auto_run_def auto_early_def)
qed

lemma handle_invalid:
  assumes "rst_stores v s" "\<not> rst_valid v"
  shows "rst_byte (exec factory_reset_handle s) (adr_reset_cnt_idx (exec factory_reset_handle s)) = 0 \<and>
    rst_frame s (exec factory_reset_handle s)"
proof -
  obtain k where k: "rst_wf k v s" using assms by (auto simp: rst_stores_def)
  let ?k = "s\<lparr>adr_reset_cnt_idx := k\<rparr>"
  obtain t where t: "t = exec clear_reset_cnt ?k" by blast
  have le: "k \<le> 3840" using k by (simp add: rst_wf_def)
  have i: "exec reset_cnt_get_idx s = t"
    using reset_cnt_get_idx_exec [OF k] assms(2) t by simp
  have b: "rst_byte t (adr_reset_cnt_idx t) = 0" unfolding t by (rule clear_zero) (use le in simp)
  have lt: "adr_reset_cnt_idx t < 3840"
    by (simp add: t clear_reset_cnt_def write_idx)
  have "exec factory_reset_handle s = exec (write_reset_cnt 1) t"
    using b by (simp add: factory_reset_handle_def exec_bind i increase_reset_cnt_def rst_consts)
  moreover have "rst_byte (exec (write_reset_cnt 1) t) (adr_reset_cnt_idx t) = 0"
    using lt b by (simp add: write_bytes)
  moreover have "rst_frame s t" using clear_frame [of ?k] by (simp add: t rst_frame_def)
  ultimately show ?thesis using lt write_frame [of t 1] rst_frame_trans by (auto simp: write_idx)
qed

text \<open>
A fourth or fifth power cycle that is too short makes the next power-on read
\<open>factory_reset_serials[-1]\<close>: the count is then 7 or 9, which the scan clears to 0; the 1 written
over it is lost because flash bits cannot be set, the count reads 0, and the table is indexed
with \<open>0 - 1\<close>.
\<close>

theorem short_cycle_reads_outside_table:
  assumes "n = 6 \<or> n = 8" "rst_stores (count_byte n) s" "cycle_short n c" "800000 < unat (clk 0)"
  shows "\<not> fst (run_state factory_reset_cnt_check (power_on clk (power_cycle c s)))"
proof -
  have "n \<in> rst_ns" using assms(1) by (auto simp: rst_ns_def)
  then have v: "rst_stores (of_nat (n + 1)) (power_cycle c s)"
    using stores_after [of n s c] assms(2) auto_short [OF assms(3)] by (simp add: count_byte_def)
  let ?s = "(power_on clk (power_cycle c s))\<lparr>n_sys := Suc 0, clear_st := 3\<rparr>"
  have v': "rst_stores (of_nat (n + 1)) ?s"
    using v by (simp add: power_on_def rst_stores_def rst_wf_def rst_byte_def)
  have inv: "\<not> rst_valid (of_nat (n + 1))"
    using assms(1) by (auto simp: rst_valid_def rst_consts)
  obtain t where t: "t = exec factory_reset_handle ?s" by blast
  have b: "rst_byte t (adr_reset_cnt_idx t) = 0" and f: "rst_frame ?s t"
    using handle_invalid [OF v' inv] unfolding t by simp_all
  have "\<not> halted t" "clear_st t = 3" using f by (simp_all add: rst_frame_def power_on_def)
  moreover have "(VALID_POWER_ON_TIME_US * 16 < clk 0)"
    using assms(4) by (simp add: VALID_POWER_ON_TIME_US_def word_less_nat_alt)
  ultimately show ?thesis using b t
    by (simp add: factory_reset_cnt_check_def dec_clear_st_def power_on_def exec_def split_beta
        check_loading_def load_check_time_def serial_at_def)
qed

lemma short_cycle_reads_outside_table_witness:
  "\<not> fst (run_state factory_reset_cnt_check (power_on (\<lambda>_. 1600000)
     (power_cycle (\<lambda>_. 16000000, 2) (demo_rst\<lparr>flash := (\<lambda>_. 0xFF)(0x3e000 := 6)\<rparr>))))"
proof (rule short_cycle_reads_outside_table [of 6])
  show "rst_stores (count_byte 6) (demo_rst\<lparr>flash := (\<lambda>_. 0xFF)(0x3e000 := 6)\<rparr>)"
    unfolding rst_stores_def rst_wf_def
    by (rule exI [of _ 0]) (simp add: count_byte_def rst_byte_def rst_adr)
  show "cycle_short 6 (\<lambda>_. 16000000, 2)"
    by (simp add: cycle_short_def monotone_clk_def serial_ticks_def factory_reset_serials_def)
qed simp_all

text \<open>
A factory reset erases the two parameter areas and nothing else, and erases the sector of the
power-cycle counter after every other one: a reset cut short by a power loss leaves the counter at
its trigger value, so the next power-on does it again.
\<close>

theorem factory_reset_erases_counter_last:
  "(\<forall>a. flash (exec factory_reset s) a =
      (if 0x30000 \<le> a \<and> a < 0x40000 \<or> 0x70000 \<le> a \<and> a < 0x76000 then 0xFF else flash s a)) \<and>
   cmds (exec factory_reset s) = cmds s @ Irq_disable # map Flash_erase reset_sectors @
     [Flash_erase FLASH_ADR_RESET_CNT, Irq_restore] \<and>
   FLASH_ADR_RESET_CNT \<notin> set reset_sectors"
proof -
  have "a div 4096 \<in> {48..63} \<union> {112..117} \<longleftrightarrow> 0x30000 \<le> a \<and> a < 0x40000 \<or> 0x70000 \<le> a \<and> a < 0x76000" for a :: nat
    using less_eq_div_iff_mult_less_eq [of 4096 48 a] less_eq_div_iff_mult_less_eq [of 4096 112 a]
      div_less_iff_less_mult [of 4096 a 64] div_less_iff_less_mult [of 4096 a 118] by auto
  then show ?thesis by (simp only: factory_reset_exec) (simp add: reset_sectors_def)
qed

lemma factory_reset_cnt_check_refines_witness:
  "rst_rel (exec factory_reset_cnt_check (demo_rst\<lparr>clk_sys := \<lambda>_. 1600000\<rparr>)) (Late, 0, 3)"
proof -
  let ?s = "demo_rst\<lparr>clk_sys := \<lambda>_. 1600000\<rparr>"
  have "rst_rel ?s (Waiting, 0, 0)"
    using demo_rst_blank by (simp add: demo_rst_def rst_ns_def count_byte_def rst_stores_def rst_wf_def rst_byte_def)
  moreover have "serial_ticks 0 = 0" "serial_ticks (Suc 0) = 48000000"
    by (simp_all add: serial_ticks_def factory_reset_serials_def)
  then have "auto_step (clk_sys ?s) (Waiting, 0, 0) = (Late, 0, 3)"
    by (simp add: auto_early_def auto_late_def numeral_3_eq_3)
  ultimately show ?thesis using factory_reset_cnt_check_refines by metis
qed

section \<open>Kicking the node out\<close>

lemma kick_out_exec:
  "halted (exec kick_out s)" "last (cmds (exec kick_out s)) = Reboot"
  "flash (exec kick_out s) a = (if a div 4096 \<in> {48..63} \<union> {112..117} \<union> {120, 121, 127} then 0xFF else flash s a)"
proof -
  obtain s1 where s1: "s1 = exec (flash_erase_sector 0x7f000) (exec (flash_erase_sector 0x79000)
     (exec (flash_erase_sector 0x78000) (s\<lparr>cmds := cmds s @ [Gpio_write GPIO_PB5 True]\<rparr>)))" by blast
  obtain s2 where s2: "s2 = exec show_factory_reset s1" by blast
  obtain s3 where s3: "only_cmds s2 s3" "exec kick_out s = exec start_reboot (exec factory_reset s3)"
  proof
    let ?s3 = "s2\<lparr>cmds := cmds s2 @ (if connected s2 then [Ble_terminate 0x13] else []) @ [Sleep_us 500000]\<rparr>"
    show "only_cmds s2 ?s3" by (auto simp: only_cmds_def)
    show "exec kick_out s = exec start_reboot (exec factory_reset ?s3)"
      by (simp add: kick_out_def exec_bind s2 s1)
  qed
  have o: "only_cmds s1 s2" unfolding s2 by (rule keepsD [OF only_cmds_signals(6)])
  have f: "flash s3 a = flash s1 a" for a
    using only_cmds_fields(1) [OF o] only_cmds_fields(1) [OF s3(1)] by simp
  show "halted (exec kick_out s)" "last (cmds (exec kick_out s)) = Reboot"
    by (simp_all add: s3 start_reboot_def)
  show "flash (exec kick_out s) a = (if a div 4096 \<in> {48..63} \<union> {112..117} \<union> {120, 121, 127} then 0xFF else flash s a)"
    by (simp add: s3 start_reboot_def factory_reset_exec f) (simp add: s1 flash_erase_sector_def)
qed

end
