(* ===== verification/Pir.thy ===== *)
theory Pir
  imports FactoryReset
begin

text \<open>
  The motion sensor of \<open>vendor/Rang_Dong/RD_pir_DC_Control.c\<close>: the flag byte and the second counter
  it keeps in analog registers across deep sleep, the debounced sampling of the two PIR
  comparator pins, and the timer that drops the motion flag again.
\<close>

section \<open>State\<close>

text \<open>
  \<open>rdPir\<close> of type \<open>pirPinTypeDef\<close> and the global \<open>MotionTimeLine\<close>. The flag byte is the union
  \<open>pirFlagTypeDef\<close>; its bit fields are allocated from the least significant bit. The records of the
  application extend each other, so that the main program sees the variables of all its parts; this
  one extends those of the reset counter.
\<close>

record pir_st = frst_st +
  MotionTimeLine :: u8
  pinHigh :: pin
  pinLow :: pin
  pirHighState :: bool
  pirLowState :: bool
  pir_flag :: u8
  timeOut :: u32

definition PIR_DC_HIGH :: pin where "PIR_DC_HIGH = GPIO_PB4"
definition PIR_DC_LOW :: pin where "PIR_DC_LOW = GPIO_PB1"
definition PIR_DC_FLAG_TIMEOUT :: u32 where "PIR_DC_FLAG_TIMEOUT = 5"
definition PIR_THESHOLD :: u8 where "PIR_THESHOLD = 90"

definition PIR_FLAG_SAVE_REG :: u8 where "PIR_FLAG_SAVE_REG = 0x35"
definition PIR_TIMEOUT_REG0 :: u8 where "PIR_TIMEOUT_REG0 = 0x36"
definition PIR_TIMEOUT_REG1 :: u8 where "PIR_TIMEOUT_REG1 = 0x37"
definition lUX_SAVE_REG0 :: u8 where "lUX_SAVE_REG0 = 0x38"
definition lUX_SAVE_REG1 :: u8 where "lUX_SAVE_REG1 = 0x39"
definition MOTION_TIME :: u8 where "MOTION_TIME = 0x3a"
definition POLL_TIME :: u8 where "POLL_TIME = 0x3b"

lemmas pir_regs = PIR_FLAG_SAVE_REG_def PIR_TIMEOUT_REG0_def PIR_TIMEOUT_REG1_def lUX_SAVE_REG0_def
  lUX_SAVE_REG1_def MOTION_TIME_def POLL_TIME_def

definition pirHighFlag :: "u8 \<Rightarrow> bool" where "pirHighFlag d = bit d 3"
definition pirLowFlag :: "u8 \<Rightarrow> bool" where "pirLowFlag d = bit d 4"
definition motionOneTime :: "u8 \<Rightarrow> bool" where "motionOneTime d = bit d 5"
definition motionFlagOld :: "u8 \<Rightarrow> bool" where "motionFlagOld d = bit d 6"
definition motionFlag :: "u8 \<Rightarrow> bool" where "motionFlag d = bit d 7"

definition put_flag :: "nat \<Rightarrow> bool \<Rightarrow> u8 \<Rightarrow> u8" where
  "put_flag n b d = (if b then set_bit n d else unset_bit n d)"

lemmas flag_defs = pirHighFlag_def pirLowFlag_def motionOneTime_def motionFlagOld_def motionFlag_def

lemma bit_put_flag [simp]: "n < 8 \<Longrightarrow> bit (put_flag n b d) m = (if m = n then b else bit d m)"
  by (auto simp: put_flag_def bit_simps)

section \<open>Saved registers\<close>

definition pirSaveTimeoutReg :: "u16 \<Rightarrow> ('a hw_scheme, unit) state" where
  "pirSaveTimeoutReg data = do {
     analog_write PIR_TIMEOUT_REG0 (hi8 data);
     analog_write PIR_TIMEOUT_REG1 (lo8 data) }"

definition pirGetTimeoutReg :: "('a hw_scheme, u16) state" where
  "pirGetTimeoutReg = do {
     h \<leftarrow> analog_read PIR_TIMEOUT_REG0;
     l \<leftarrow> analog_read PIR_TIMEOUT_REG1;
     ret (mk16 h l) }"

definition lightSetLuxReg :: "u32 \<Rightarrow> ('a hw_scheme, unit) state" where
  "lightSetLuxReg lux = do {
     analog_write lUX_SAVE_REG0 (ucast (drop_bit 8 lux));
     analog_write lUX_SAVE_REG1 (ucast lux) }"

definition lightgetLuxReg :: "('a hw_scheme, u32) state" where
  "lightgetLuxReg = do {
     h \<leftarrow> analog_read lUX_SAVE_REG0;
     l \<leftarrow> analog_read lUX_SAVE_REG1;
     ret (push_bit 8 (ucast h) OR ucast l) }"

definition pirSaveFlagReg :: "u8 \<Rightarrow> ('a hw_scheme, unit) state" where
  "pirSaveFlagReg data = analog_write PIR_FLAG_SAVE_REG data"

definition pirGetFlagReg :: "('a hw_scheme, u8) state" where
  "pirGetFlagReg = analog_read PIR_FLAG_SAVE_REG"

definition getMotionTime :: "('a hw_scheme, u8) state" where
  "getMotionTime = analog_read MOTION_TIME"

definition setMotionTime :: "u8 \<Rightarrow> ('a hw_scheme, unit) state" where
  "setMotionTime time = analog_write MOTION_TIME time"

definition getPollTime :: "('a hw_scheme, u8) state" where
  "getPollTime = analog_read POLL_TIME"

definition setPollTime :: "u8 \<Rightarrow> ('a hw_scheme, unit) state" where
  "setPollTime time = analog_write POLL_TIME time"

text \<open>The bodies of the power and reset-counter register functions are commented out in the source.\<close>

definition getPowerSaveReg :: "('a hw_scheme, u8) state" where
  "getPowerSaveReg = ret 0"

definition setPowerSaveReg :: "u8 \<Rightarrow> ('a hw_scheme, unit) state" where
  "setPowerSaveReg data = ret ()"

definition setResetCnt :: "u8 \<Rightarrow> ('a hw_scheme, unit) state" where
  "setResetCnt data = ret ()"

definition getResetCnt :: "('a hw_scheme, u8) state" where
  "getResetCnt = ret 0"

section \<open>Time macros\<close>

definition SYS_32K_TICK_15S :: "('a hw_scheme, u32) state" where
  "SYS_32K_TICK_15S = do { t \<leftarrow> get_32k_tick; ret (t div (32767 * 15)) }"

definition SYS_32K_TICK_S :: "('a hw_scheme, u32) state" where
  "SYS_32K_TICK_S = do { t \<leftarrow> get_32k_tick; ret (t div 32767) }"

definition rdPrintf :: "string \<Rightarrow> u32 list \<Rightarrow> ('a hw_scheme, unit) state" where
  "rdPrintf fmt args = emit (Print fmt args)"

section \<open>Operations\<close>

definition put_pir_flag :: "nat \<Rightarrow> bool \<Rightarrow> ('a pir_st_scheme, unit) state" where
  "put_pir_flag n b = modify (\<lambda>s. s\<lparr>pir_flag := put_flag n b (pir_flag s)\<rparr>)"

definition save_flags :: "('a pir_st_scheme, unit) state" where
  "save_flags = do { d \<leftarrow> gets pir_flag; pirSaveFlagReg d }"

text \<open>\<open>timeOut = SYS_32K_TICK_S\<close>\<close>

definition stamp :: "('a pir_st_scheme, unit) state" where
  "stamp = do { t \<leftarrow> SYS_32K_TICK_S; modify (\<lambda>s. s\<lparr>timeOut := t\<rparr>) }"

definition save_timeout :: "('a pir_st_scheme, unit) state" where
  "save_timeout = do { t \<leftarrow> gets timeOut; pirSaveTimeoutReg (ucast t) }"

definition pirDCInit :: "('a pir_st_scheme, unit) state" where
  "pirDCInit = do {
     modify (\<lambda>s. s\<lparr>pinHigh := PIR_DC_HIGH, pinLow := PIR_DC_LOW\<rparr>);
     t \<leftarrow> pirGetTimeoutReg;
     modify (\<lambda>s. s\<lparr>timeOut := ucast t\<rparr>);
     d \<leftarrow> pirGetFlagReg;
     modify (\<lambda>s. s\<lparr>pir_flag := d\<rparr>);
     rdPrintf ''init: %d - %d'' [of_bool (motionFlag d), of_bool (motionFlagOld d)] }"

text \<open>Dropping the two edge flags when the last edge is too old (both branches of the first \<open>if\<close>).\<close>

definition pir_expire :: "('a pir_st_scheme, unit) state" where
  "pir_expire = do { stamp; save_timeout; put_pir_flag 3 False; put_pir_flag 4 False; save_flags }"

definition pir_check_timeout :: "('a pir_st_scheme, unit) state" where
  "pir_check_timeout = do {
     tmo \<leftarrow> gets timeOut;
     now1 \<leftarrow> SYS_32K_TICK_S;
     if tmo \<le> now1 then do {
       now2 \<leftarrow> SYS_32K_TICK_S;
       if PIR_DC_FLAG_TIMEOUT \<le> now2 - tmo then pir_expire else ret () }
     else do {
       now2 \<leftarrow> SYS_32K_TICK_S;
       if PIR_DC_FLAG_TIMEOUT \<le> 0xffffffff - tmo + now2 then pir_expire else ret () } }"

text \<open>
  The sampling loop, once for each pin: \<open>bitno\<close> is the flag of the pin. \<open>n\<close> counts the iterations
  left of the \<open>for\<close> loop.
\<close>

fun pir_sample :: "nat \<Rightarrow> pin \<Rightarrow> nat \<Rightarrow> u8 \<Rightarrow> ('a pir_st_scheme, unit) state" where
  "pir_sample bitno p 0 checkPullupTime = ret ()"
| "pir_sample bitno p (Suc n) checkPullupTime = do {
     emit (Sleep_us 50);
     v \<leftarrow> gpio_read p;
     if v then
       (if PIR_THESHOLD \<le> checkPullupTime + 1 then do {
          put_pir_flag bitno True;
          stamp;
          save_flags;
          save_timeout }
        else pir_sample bitno p n (checkPullupTime + 1))
     else do { put_pir_flag bitno False; save_flags } }"

definition pirDetect :: "('a pir_st_scheme, bool) state" where
  "pirDetect = do {
     pir_check_timeout;
     hs \<leftarrow> gets pirHighState;
     ph \<leftarrow> gets pinHigh;
     when_do hs (pir_sample 3 ph 100 0);
     ls \<leftarrow> gets pirLowState;
     pl \<leftarrow> gets pinLow;
     when_do ls (pir_sample 4 pl 100 0);
     d \<leftarrow> gets pir_flag;
     when_do (pirHighFlag d \<and> pirLowFlag d) (do { put_pir_flag 7 True; put_pir_flag 5 True });
     d' \<leftarrow> gets pir_flag;
     ret (motionFlag d') }"

text \<open>Dropping the motion flag: the common tail of both branches of \<open>pirMotionCOntrol\<close>.\<close>

definition motion_restart :: "('a pir_st_scheme, unit) state" where
  "motion_restart = do {
     t \<leftarrow> SYS_32K_TICK_15S;
     modify (\<lambda>s. s\<lparr>MotionTimeLine := ucast t\<rparr>);
     m \<leftarrow> gets MotionTimeLine;
     setMotionTime m }"

definition pirMotionCOntrol :: "u8 \<Rightarrow> ('a pir_st_scheme, unit) state" where
  "pirMotionCOntrol pirTime = do {
     m0 \<leftarrow> getMotionTime;
     modify (\<lambda>s. s\<lparr>MotionTimeLine := m0\<rparr>);
     d \<leftarrow> gets pir_flag;
     when_do (motionFlag d) (do {
       t1 \<leftarrow> SYS_32K_TICK_15S;
       if ucast m0 \<le> t1 then do {
         t2 \<leftarrow> SYS_32K_TICK_15S;
         rdPrintf ''count1:%d time: '' [t2 - ucast m0, ucast (pirTime div 15)];
         t3 \<leftarrow> SYS_32K_TICK_15S;
         when_do (ucast (pirTime div 15) \<le> t3 - ucast m0) (do {
           put_pir_flag 7 False;
           t4 \<leftarrow> SYS_32K_TICK_15S;
           rdPrintf ''reset1 %d-%d'' [ucast m0, t4 - ucast m0];
           motion_restart }) }
       else do {
         t2 \<leftarrow> SYS_32K_TICK_15S;
         let rdTick = (ucast t2 :: u8);
         when_do (int (unat pirTime) \<le> 0xff - int (unat m0) + int (unat rdTick)) (do {
           put_pir_flag 7 False;
           t3 \<leftarrow> SYS_32K_TICK_S;
           rdPrintf ''reset2 %d-%d'' [ucast m0, t3];
           motion_restart }) } }) }"

text \<open>
  \<open>RD_power_read\<close> computes \<open>(2.0*power_read-2200)/(3200-2200)*100\<close> in floating point and truncates.
  From 1100 on the result is the integer \<open>(2*power_read - 2200) div 10\<close>; below, converting the
  negative \<open>float\<close> to \<open>unsigned int\<close> is undefined in C, hence \<open>None\<close>.
\<close>

definition power_percent :: "u32 \<Rightarrow> u32 option" where
  "power_percent power_read =
     (if unat power_read < 1100 then None
      else Some (of_nat ((2 * unat power_read - 2200) div 10)))"

definition RD_ADC_init :: "pin \<Rightarrow> ('a hw_scheme, unit) state" where
  "RD_ADC_init gpio = emit (Adc_init gpio)"

definition RD_power_read :: "('a hw_scheme, u32 option) state" where
  "RD_power_read = do {
     RD_ADC_init GPIO_PC4;
     v \<leftarrow> adc_sample_and_get_result;
     ret (power_percent v) }"

section \<open>Saved state\<close>

lemma run_analog_simps [simp]:
  "run_state (analog_read r) s = (analog s r, s)"
  "run_state (analog_write r v) s = ((), s\<lparr>analog := (analog s)(r := v)\<rparr>)"
  "run_state get_32k_tick s = (clk32k s (n_32k s), s\<lparr>n_32k := Suc (n_32k s)\<rparr>)"
  "run_state (gpio_read p) s = (pin_in s p (n_pin s), s\<lparr>n_pin := Suc (n_pin s)\<rparr>)"
  by (simp_all add: hw_simps)

lemmas save_defs = pirSaveTimeoutReg_def pirGetTimeoutReg_def pirSaveFlagReg_def pirGetFlagReg_def
  getMotionTime_def setMotionTime_def lightSetLuxReg_def lightgetLuxReg_def pir_regs
  put_pir_flag_def save_flags_def stamp_def save_timeout_def

lemmas tick_defs = SYS_32K_TICK_S_def SYS_32K_TICK_15S_def

abbreviation sec_of :: "u32 \<Rightarrow> u32" where "sec_of t \<equiv> t div 32767"
abbreviation sec15_of :: "u32 \<Rightarrow> u32" where "sec15_of t \<equiv> t div 491505"

text \<open>Sampling \<open>need\<close> more readings of a pin.\<close>

definition pin_steady :: "('a hw_scheme) \<Rightarrow> pin \<Rightarrow> nat \<Rightarrow> bool" where
  "pin_steady s p need \<longleftrightarrow> (\<forall>k < need. pin_in s p (n_pin s + k))"

lemma pin_steady_Suc:
  "pin_steady s p (Suc m) \<longleftrightarrow> pin_in s p (n_pin s) \<and> pin_steady (s\<lparr>n_pin := Suc (n_pin s)\<rparr>) p m"
  by (simp add: pin_steady_def All_less_Suc2)

lemma pin_steady_0 [simp]: "pin_steady s p 0"
  by (simp add: pin_steady_def)

lemma pin_steady_cmds [simp]: "pin_steady (s\<lparr>cmds := c, n_pin := m\<rparr>) = pin_steady (s\<lparr>n_pin := m\<rparr>)"
  by (simp add: pin_steady_def fun_eq_iff)

lemma pir_threshold:
  fixes c :: u8
  assumes "unat c < 90"
  shows "(PIR_THESHOLD \<le> c + 1) = (unat c = 89)"
    and "unat c \<noteq> 89 \<Longrightarrow> unat (c + 1) = Suc (unat c)"
    and "unat c \<noteq> 89 \<Longrightarrow> 90 - unat c = Suc (90 - unat (c + 1))"
  using assms by (auto simp: PIR_THESHOLD_def word_le_nat_alt unat_add_u8)

lemma pir_sample_flag:
  assumes "90 \<le> n + unat c" "unat c < 90"
  shows "pir_flag (exec (pir_sample b p n c) s) = put_flag b (pin_steady s p (90 - unat c)) (pir_flag s) \<and>
    analog (exec (pir_sample b p n c) s) PIR_FLAG_SAVE_REG = pir_flag (exec (pir_sample b p n c) s)"
  using assms
proof (induction n arbitrary: c s)
  case 0
  then show ?case by simp
next
  case (Suc n)
  let ?s = "s\<lparr>cmds := cmds s @ [Sleep_us 50], n_pin := Suc (n_pin s)\<rparr>"
  obtain m where m: "90 - unat c = Suc m" using Suc.prems(2) by (metis Suc_diff_Suc)
  show ?case
  proof (cases "pin_in s p (n_pin s) \<and> unat c \<noteq> 89")
    case True
    then have "pir_flag (exec (pir_sample b p n (c + 1)) ?s) =
        put_flag b (pin_steady ?s p (90 - unat (c + 1))) (pir_flag s) \<and>
      analog (exec (pir_sample b p n (c + 1)) ?s) PIR_FLAG_SAVE_REG = pir_flag (exec (pir_sample b p n (c + 1)) ?s)"
      using Suc.IH [of "c + 1" ?s] Suc.prems pir_threshold(2) [of c] by simp
    then show ?thesis using True Suc.prems
      by (simp add: exec_def split_beta pir_threshold pin_steady_Suc)
  next
    case False
    moreover have "m = 0" if "unat c = 89" using m that by simp
    ultimately show ?thesis using Suc.prems m pir_threshold(1) [of c]
      by (auto simp: exec_def split_beta save_defs tick_defs pin_steady_Suc)
  qed
qed

text \<open>How many readings the sampling loop takes.\<close>

primrec pin_reads :: "(nat \<Rightarrow> bool) \<Rightarrow> nat \<Rightarrow> nat" where
  "pin_reads f 0 = 0"
| "pin_reads f (Suc m) = (if f 0 then Suc (pin_reads (\<lambda>k. f (Suc k)) m) else 1)"

lemma pin_reads_le: "pin_reads f m \<le> m"
  by (induction m arbitrary: f) auto

lemma pir_sample_reads:
  assumes "90 \<le> n + unat c" "unat c < 90"
  shows "n_pin (exec (pir_sample b p n c) s) =
    n_pin s + pin_reads (\<lambda>k. pin_in s p (n_pin s + k)) (90 - unat c)"
  using assms
proof (induction n arbitrary: c s)
  case 0
  then show ?case by simp
next
  case (Suc n)
  let ?s = "s\<lparr>cmds := cmds s @ [Sleep_us 50], n_pin := Suc (n_pin s)\<rparr>"
  obtain m where m: "90 - unat c = Suc m" using Suc.prems(2) by (metis Suc_diff_Suc)
  show ?case
  proof (cases "pin_in s p (n_pin s) \<and> unat c \<noteq> 89")
    case True
    then have "n_pin (exec (pir_sample b p n (c + 1)) ?s) =
        Suc (n_pin s) + pin_reads (\<lambda>k. pin_in s p (Suc (n_pin s) + k)) (90 - unat (c + 1))"
      using Suc.IH [of "c + 1" ?s] Suc.prems pir_threshold(2) [of c] by simp
    moreover have "90 - unat (c + 1) = m" using True Suc.prems pir_threshold(3) [of c] m by simp
    ultimately show ?thesis using True Suc.prems m
      by (simp add: exec_def split_beta pir_threshold)
  next
    case False
    then show ?thesis using Suc.prems m pir_threshold(1) [of c]
      by (auto simp: exec_def split_beta save_defs tick_defs)
  qed
qed

section \<open>Frame facts\<close>

lemma keeps_prim [intro]:
  "(\<And>s. f (s\<lparr>n_32k := Suc (n_32k s)\<rparr>) = f s) \<Longrightarrow> keeps (same f) get_32k_tick"
  "(\<And>s. f (s\<lparr>n_pin := Suc (n_pin s)\<rparr>) = f s) \<Longrightarrow> keeps (same f) (gpio_read p)"
  "(\<And>s a. f (s\<lparr>analog := a\<rparr>) = f s) \<Longrightarrow> keeps (same f) (analog_write r v)"
  "(\<And>s c. f (s\<lparr>cmds := c\<rparr>) = f s) \<Longrightarrow> keeps (same f) (emit c)"
  by (simp_all add: keeps_def same_def hw_simps exec_def)

definition pir_const :: "'a pir_st_scheme \<Rightarrow> _" where
  "pir_const s = (pin_in s, clk32k s, pinHigh s, pinLow s, pirHighState s, pirLowState s)"

lemma pir_sample_const: "keeps (same pir_const) (pir_sample b p n c)"
  unfolding keeps_def same_def
proof (induction n arbitrary: c)
  case 0
  then show ?case by simp
next
  case (Suc n)
  then show ?case
    by (simp add: exec_def split_beta save_defs tick_defs) (simp add: pir_const_def)
qed

lemma pir_check_const: "pir_const (exec pir_check_timeout s) = pir_const s \<and> n_pin (exec pir_check_timeout s) = n_pin s"
  by (simp add: pir_check_timeout_def pir_expire_def exec_def split_beta save_defs tick_defs pir_const_def)

definition pir_expired :: "'a pir_st_scheme \<Rightarrow> bool" where
  "pir_expired s \<longleftrightarrow> (let t1 = sec_of (clk32k s (n_32k s)); t2 = sec_of (clk32k s (Suc (n_32k s)))
     in if timeOut s \<le> t1 then 5 \<le> t2 - timeOut s else 5 \<le> 0xffffffff - timeOut s + t2)"

lemma pir_check_flag:
  "pir_flag (exec pir_check_timeout s) =
     (if pir_expired s then put_flag 4 False (put_flag 3 False (pir_flag s)) else pir_flag s)"
  "analog (exec pir_check_timeout s) PIR_FLAG_SAVE_REG =
     (if pir_expired s then put_flag 4 False (put_flag 3 False (pir_flag s)) else analog s PIR_FLAG_SAVE_REG)"
  by (simp_all add: pir_check_timeout_def pir_expire_def exec_def split_beta save_defs tick_defs pir_expired_def
      PIR_DC_FLAG_TIMEOUT_def)

section \<open>Behaviour of the motion detector\<close>

text \<open>
  The flag byte \<open>pirDetect\<close> is expected to leave, as a function of the readings: \<open>pir_edges\<close> after the
  timeout and the sampling, \<open>pir_flag_spec\<close> at the end.
\<close>

definition pir_edges :: "bool \<Rightarrow> bool option \<Rightarrow> bool option \<Rightarrow> u8 \<Rightarrow> u8" where
  "pir_edges expired hi lo d0 =
     (let d1 = (if expired then put_flag 4 False (put_flag 3 False d0) else d0);
          d2 = (case hi of None \<Rightarrow> d1 | Some v \<Rightarrow> put_flag 3 v d1)
      in case lo of None \<Rightarrow> d2 | Some v \<Rightarrow> put_flag 4 v d2)"

definition pir_flag_spec :: "bool \<Rightarrow> bool option \<Rightarrow> bool option \<Rightarrow> u8 \<Rightarrow> u8" where
  "pir_flag_spec expired hi lo d0 =
     (let d3 = pir_edges expired hi lo d0
      in if pirHighFlag d3 \<and> pirLowFlag d3 then put_flag 5 True (put_flag 7 True d3) else d3)"

definition pir_hi_reading :: "'a pir_st_scheme \<Rightarrow> bool option" where
  "pir_hi_reading s = (if pirHighState s then Some (pin_steady s (pinHigh s) 90) else None)"

definition pir_lo_reading :: "'a pir_st_scheme \<Rightarrow> bool option" where
  "pir_lo_reading s = (if pirLowState s then
     Some (pin_steady (if pirHighState s then
       s\<lparr>n_pin := n_pin s + pin_reads (\<lambda>k. pin_in s (pinHigh s) (n_pin s + k)) 90\<rparr> else s) (pinLow s) 90)
     else None)"

lemma pin_steady_cong:
  "pin_in s = pin_in t \<Longrightarrow> n_pin s = n_pin t \<Longrightarrow> pin_steady s p m = pin_steady t p m"
  by (simp add: pin_steady_def)

lemma pirDetect_run:
  defines "edges s \<equiv> pir_edges (pir_expired s) (pir_hi_reading s) (pir_lo_reading s) (pir_flag s)"
    and "post s \<equiv> pir_flag_spec (pir_expired s) (pir_hi_reading s) (pir_lo_reading s) (pir_flag s)"
  shows "fst (run_state pirDetect s) = motionFlag (post s) \<and> pir_flag (exec pirDetect s) = post s \<and>
    analog (exec pirDetect s) PIR_FLAG_SAVE_REG =
      (if pir_expired s \<or> pirHighState s \<or> pirLowState s then edges s else analog s PIR_FLAG_SAVE_REG)"
proof -
  obtain s1 s2 s3 where s1: "s1 = exec pir_check_timeout s"
    and s2: "s2 = (if pirHighState s then exec (pir_sample 3 (pinHigh s) 100 0) s1 else s1)"
    and s3: "s3 = (if pirLowState s then exec (pir_sample 4 (pinLow s) 100 0) s2 else s2)" by blast
  have c1: "pir_const s1 = pir_const s" "n_pin s1 = n_pin s" using pir_check_const s1 by auto
  have c2: "pir_const s2 = pir_const s"
    using c1 keeps_sameD [OF pir_sample_const, of 3 "pinHigh s" 100 0 s1] by (simp add: s2)
  have f2: "pir_flag s2 = (case pir_hi_reading s of None \<Rightarrow> pir_flag s1 | Some v \<Rightarrow> put_flag 3 v (pir_flag s1))"
    using c1 pir_sample_flag [of 100 0 3 "pinHigh s" s1] pin_steady_cong [of s1 s]
    by (simp add: pir_hi_reading_def pir_const_def s2)
  have n2: "n_pin s2 = n_pin s + (if pirHighState s then pin_reads (\<lambda>k. pin_in s (pinHigh s) (n_pin s + k)) 90 else 0)"
    using c1 pir_sample_reads [of 100 0 3 "pinHigh s" s1] by (simp add: pir_const_def s2)
  have "pin_steady s2 (pinLow s) 90 = pin_steady (if pirHighState s then
       s\<lparr>n_pin := n_pin s + pin_reads (\<lambda>k. pin_in s (pinHigh s) (n_pin s + k)) 90\<rparr> else s) (pinLow s) 90"
    by (rule pin_steady_cong) (use c2 n2 in \<open>auto simp: pir_const_def\<close>)
  then have f3: "pir_flag s3 = (case pir_lo_reading s of None \<Rightarrow> pir_flag s2 | Some v \<Rightarrow> put_flag 4 v (pir_flag s2))"
    using pir_sample_flag [of 100 0 4 "pinLow s" s2] by (simp add: pir_lo_reading_def s3)
  have e3: "pir_flag s3 = edges s"
    unfolding edges_def pir_edges_def Let_def pir_check_flag(1) [symmetric] s1 [symmetric] f3 f2 ..
  have a2: "analog s2 PIR_FLAG_SAVE_REG = (if pirHighState s then pir_flag s2 else analog s1 PIR_FLAG_SAVE_REG)"
    using pir_sample_flag [of 100 0 3 "pinHigh s" s1] by (simp add: s2)
  have a3: "analog s3 PIR_FLAG_SAVE_REG = (if pirLowState s then pir_flag s3 else analog s2 PIR_FLAG_SAVE_REG)"
    using pir_sample_flag [of 100 0 4 "pinLow s" s2] by (simp add: s3)
  have "pir_flag s3 = pir_flag s2" if "\<not> pirLowState s" using that by (simp add: s3)
  moreover have "pir_flag s2 = pir_flag s1" if "\<not> pirHighState s" using that by (simp add: s2)
  moreover have "analog s1 PIR_FLAG_SAVE_REG = (if pir_expired s then pir_flag s1 else analog s PIR_FLAG_SAVE_REG)"
    by (simp add: s1 pir_check_flag)
  ultimately have reg: "analog s3 PIR_FLAG_SAVE_REG =
      (if pir_expired s \<or> pirHighState s \<or> pirLowState s then edges s else analog s PIR_FLAG_SAVE_REG)"
    using a2 a3 e3 by simp
  have r: "run_state pirDetect s = (let s4 = (if pirHighFlag (pir_flag s3) \<and> pirLowFlag (pir_flag s3)
      then s3\<lparr>pir_flag := put_flag 5 True (put_flag 7 True (pir_flag s3))\<rparr> else s3)
      in (motionFlag (pir_flag s4), s4))"
    using c1 c2 by (simp add: pirDetect_def run_bind put_pir_flag_def pir_const_def Let_def
        s1 [symmetric] s2 [symmetric] s3 [symmetric] exec_bind del: State_Monad.run_state_bind)
  have "pir_flag (if pirHighFlag (pir_flag s3) \<and> pirLowFlag (pir_flag s3)
      then s3\<lparr>pir_flag := put_flag 5 True (put_flag 7 True (pir_flag s3))\<rparr> else s3) = post s"
    using e3 by (simp add: post_def pir_flag_spec_def edges_def Let_def)
  then show ?thesis unfolding exec_def r Let_def using reg by simp
qed

text \<open>An edge flag after the sampling: the reading where the pin is sampled, else the saved flag unless too old.\<close>

definition edge_after :: "bool option \<Rightarrow> bool \<Rightarrow> bool \<Rightarrow> bool" where
  "edge_after reading expired old = (case reading of Some v \<Rightarrow> v | None \<Rightarrow> old \<and> \<not> expired)"

lemma pir_edges_flags:
  "pir_edges expired hi lo d =
     put_flag 4 (edge_after lo expired (pirLowFlag d)) (put_flag 3 (edge_after hi expired (pirHighFlag d)) d)"
  by (rule bit_word_eqI)
    (auto simp: pir_edges_def edge_after_def flag_defs Let_def dest: bit_imp_le_length split: option.splits)

text \<open>
C1: The outcome of examining the pins. An edge flag that is sampled now is set if and only if 90
consecutive readings of its pin are high (one low reading clears it); an edge flag that is not
sampled keeps the saved value unless the last edge is at least five seconds old. The call leaves a
flag byte with these two edge flags in it, with the motion flag and the one-time flag set besides
when both edges are there, and otherwise as it was; the byte with the new edge flags is what is kept
in the register that survives deep sleep, whenever a pin was sampled or the edges were too old; and
motion is reported exactly when it was already pending or both edges are there.
\<close>

theorem pirDetect_reports_motion:
  "let hi = edge_after (pir_hi_reading s) (pir_expired s) (pirHighFlag (pir_flag s));
       lo = edge_after (pir_lo_reading s) (pir_expired s) (pirLowFlag (pir_flag s));
       d = put_flag 4 lo (put_flag 3 hi (pir_flag s));
       s' = exec pirDetect s
   in (fst (run_state pirDetect s) \<longleftrightarrow> motionFlag (pir_flag s) \<or> hi \<and> lo) \<and>
      pir_flag s' = (if hi \<and> lo then put_flag 5 True (put_flag 7 True d) else d) \<and>
      analog s' PIR_FLAG_SAVE_REG =
        (if pir_expired s \<or> pirHighState s \<or> pirLowState s then d else analog s PIR_FLAG_SAVE_REG)"
  using pirDetect_run [of s]
  by (auto simp: Let_def pir_flag_spec_def pir_edges_flags flag_defs)

text \<open>One wake-up: the saved flags are restored and the pins examined.\<close>

definition pir_wake :: "('a pir_st_scheme, bool) state" where
  "pir_wake = do { pirDCInit; pirDetect }"

definition saved_timeout :: "'a hw_scheme \<Rightarrow> u16" where
  "saved_timeout s = mk16 (analog s PIR_TIMEOUT_REG0) (analog s PIR_TIMEOUT_REG1)"

lemma pirDCInit_exec:
  "exec pirDCInit s = s\<lparr>pinHigh := PIR_DC_HIGH, pinLow := PIR_DC_LOW, timeOut := ucast (saved_timeout s),
     pir_flag := analog s PIR_FLAG_SAVE_REG, cmds := cmds s @ [Print ''init: %d - %d''
       [of_bool (motionFlag (analog s PIR_FLAG_SAVE_REG)), of_bool (motionFlagOld (analog s PIR_FLAG_SAVE_REG))]]\<rparr>"
  by (simp add: pirDCInit_def exec_def save_defs rdPrintf_def saved_timeout_def)

lemma pir_wake_flag:
  "pir_flag (exec pir_wake s) = pir_flag (exec pirDetect (exec pirDCInit s))"
  by (simp add: pir_wake_def exec_bind)

text \<open>
C6: During the first 65536 seconds of uptime the edge seen at one wake-up is remembered at the
next: if the saved second counter is less than five seconds old, a wake-up leaves the saved flag
of each pin that it does not sample as it was.
\<close>

theorem pir_edge_remembered:
  assumes "unat (sec_of (clk32k s (n_32k s))) < 65536" "saved_timeout s \<le> ucast (sec_of (clk32k s (n_32k s)))"
    and "unat (sec_of (clk32k s (Suc (n_32k s)))) < unat (saved_timeout s) + 5"
    and "sec_of (clk32k s (n_32k s)) \<le> sec_of (clk32k s (Suc (n_32k s)))"
  shows "(\<not> pirHighState s \<longrightarrow>
      pirHighFlag (pir_flag (exec pir_wake s)) = pirHighFlag (analog s PIR_FLAG_SAVE_REG)) \<and>
    (\<not> pirLowState s \<longrightarrow>
      pirLowFlag (pir_flag (exec pir_wake s)) = pirLowFlag (analog s PIR_FLAG_SAVE_REG))"
proof -
  let ?t = "exec pirDCInit s"
  have "unat (ucast (saved_timeout s) :: u32) = unat (saved_timeout s)"
    by (simp add: unat_ucast_widen)
  moreover have "unat (ucast (sec_of (clk32k s (n_32k s))) :: u16) = unat (sec_of (clk32k s (n_32k s)))"
    using assms(1) by (simp add: unat_ucast_narrow)
  ultimately have le: "(ucast (saved_timeout s) :: u32) \<le> sec_of (clk32k s (n_32k s))"
    using assms(2) by (simp add: word_le_nat_alt)
  have "unat (sec_of (clk32k s (Suc (n_32k s))) - ucast (saved_timeout s)) =
      unat (sec_of (clk32k s (Suc (n_32k s)))) - unat (saved_timeout s)"
    using order.trans [OF le assms(4)] by (simp add: unat_sub unat_ucast_widen)
  then have "unat (sec_of (clk32k s (Suc (n_32k s))) - ucast (saved_timeout s)) < 5" using assms(3) by linarith
  then have "\<not> 5 \<le> sec_of (clk32k s (Suc (n_32k s))) - ucast (saved_timeout s)" by (simp add: word_le_nat_alt)
  then have "\<not> pir_expired ?t"
    using le by (simp add: pir_expired_def pirDCInit_exec)
  then show ?thesis
    by (simp add: pir_wake_flag pirDetect_run pir_flag_spec_def pir_edges_flags edge_after_def Let_def
        pir_hi_reading_def pir_lo_reading_def pirDCInit_exec flag_defs)
qed

text \<open>A device with given analog registers and 32 kHz counter, pins low.\<close>

definition demo_pir :: "(u8 \<Rightarrow> u8) \<Rightarrow> u32 \<Rightarrow> pir_st" where
  "demo_pir regs t = \<lparr>analog = regs, flash = \<lambda>_. 0xFF, pin_in = \<lambda>_ _. False, n_pin = 0,
     clk32k = \<lambda>_. t, n_32k = 0, clk_ms = \<lambda>_. 0, n_ms = 0, clk_s = \<lambda>_. 0, n_s = 0, clk_sys = \<lambda>_. 0, n_sys = 0,
     i2c_in = \<lambda>_. [0, 0, 0], n_i2c = 0, adc_in = \<lambda>_. 1500, n_adc = 0, stays_awake = \<lambda>_. False,
     n_sleep = 0, provisioned = True, connected = False, halted = False, cmds = [],
     adr_reset_cnt_idx = 0, clear_st = 0, reset_check_time = 0,
     MotionTimeLine = 0, pinHigh = GPIO_PB4, pinLow = GPIO_PB1, pirHighState = False,
     pirLowState = False, pir_flag = 0, timeOut = 0\<rparr>"

definition demo_regs :: "u8 \<Rightarrow> u8" where
  "demo_regs = (\<lambda>_. 0)(PIR_FLAG_SAVE_REG := 8, PIR_TIMEOUT_REG1 := 97)"

lemma pir_edge_remembered_witness:
  "pirHighFlag (pir_flag (exec pir_wake ((demo_pir demo_regs 3276700)\<lparr>pirLowState := True\<rparr>))) = pirHighFlag 8"
proof -
  let ?s = "(demo_pir demo_regs 3276700)\<lparr>pirLowState := True\<rparr>"
  have "\<not> pirHighState ?s \<longrightarrow>
      pirHighFlag (pir_flag (exec pir_wake ?s)) = pirHighFlag (analog ?s PIR_FLAG_SAVE_REG)"
    by (rule pir_edge_remembered [THEN conjunct1])
      (simp_all add: demo_pir_def demo_regs_def saved_timeout_def pir_regs mk16_def)
  then show ?thesis by (simp add: demo_pir_def demo_regs_def pir_regs)
qed

text \<open>
After 65541 seconds of uptime (about 18 hours) this memory is gone: the second counter is
saved in 16 bits but compared as 17, so every wake-up considers the last edge too old. An edge
flag saved by the previous wake-up never survives, however recent it is.
\<close>

theorem pir_edge_lost_after_18h:
  assumes "\<And>n. 65541 \<le> sec_of (clk32k s n)" "\<not> pirHighState s"
  shows "\<not> pirHighFlag (pir_flag (exec pir_wake s))"
proof -
  let ?t = "exec pirDCInit s"
  have le: "unat (saved_timeout s) + 6 \<le> unat (sec_of (clk32k s n))" for n
    using assms(1) [of n] unat_le_65535 [of "saved_timeout s"]
    by (simp add: word_le_nat_alt del: unat_le_65535)
  have "(ucast (saved_timeout s) :: u32) \<le> sec_of (clk32k s n)" for n
    using le [of n] by (simp add: word_le_nat_alt)
  moreover have "5 \<le> sec_of (clk32k s n) - (ucast (saved_timeout s) :: u32)" for n
    using le [of n] calculation [of n] by (simp add: word_le_nat_alt unat_sub)
  ultimately have "pir_expired ?t" by (simp add: pir_expired_def pirDCInit_exec)
  then show ?thesis
    using assms(2) by (simp add: pir_wake_flag pirDetect_run pir_flag_spec_def pir_edges_def Let_def
        pir_hi_reading_def pir_lo_reading_def pirDCInit_exec flag_defs)
qed

lemma pir_edge_lost_after_18h_witness:
  "pirHighFlag (demo_regs PIR_FLAG_SAVE_REG) \<and>
   \<not> pirHighFlag (pir_flag (exec pir_wake (demo_pir demo_regs 2147581947)))"
proof -
  have "\<not> pirHighFlag (pir_flag (exec pir_wake (demo_pir demo_regs 2147581947)))"
    by (rule pir_edge_lost_after_18h) (simp_all add: demo_pir_def)
  then show ?thesis by (simp add: demo_regs_def pir_regs pirHighFlag_def)
qed

section \<open>Holding the motion flag\<close>

lemma run_motion_restart [simp]:
  "run_state motion_restart s = ((), s\<lparr>n_32k := Suc (n_32k s),
     analog := (analog s)(MOTION_TIME := ucast (sec15_of (clk32k s (n_32k s)))),
     MotionTimeLine := ucast (sec15_of (clk32k s (n_32k s)))\<rparr>)"
  by (simp add: motion_restart_def tick_defs setMotionTime_def)

lemma pirMotionCOntrol_early:
  fixes s :: "'a pir_st_scheme" and tm :: u8
  assumes "ucast (analog s MOTION_TIME) \<le> sec15_of (clk32k s (n_32k s))" "motionFlag (pir_flag s)"
  defines "over \<equiv> ucast (tm div 15) \<le> sec15_of (clk32k s (n_32k s + 2)) - ucast (analog s MOTION_TIME)"
  shows "pir_flag (exec (pirMotionCOntrol tm) s) = (if over then put_flag 7 False (pir_flag s) else pir_flag s)"
    and "analog (exec (pirMotionCOntrol tm) s) MOTION_TIME =
      (if over then ucast (sec15_of (clk32k s (n_32k s + 4))) else analog s MOTION_TIME)"
  using assms(1,2) unfolding over_def
  by (simp_all add: pirMotionCOntrol_def exec_def getMotionTime_def tick_defs rdPrintf_def put_pir_flag_def
      eval_nat_numeral)

lemma pirMotionCOntrol_late:
  fixes s :: "'a pir_st_scheme" and tm :: u8
  assumes "\<not> ucast (analog s MOTION_TIME) \<le> sec15_of (clk32k s (n_32k s))" "motionFlag (pir_flag s)"
  defines "over \<equiv> int (unat tm) \<le> 0xff - int (unat (analog s MOTION_TIME)) +
      int (unat (ucast (sec15_of (clk32k s (n_32k s + 1))) :: u8))"
  shows "pir_flag (exec (pirMotionCOntrol tm) s) = (if over then put_flag 7 False (pir_flag s) else pir_flag s)"
    and "analog (exec (pirMotionCOntrol tm) s) MOTION_TIME =
      (if over then ucast (sec15_of (clk32k s (n_32k s + 3))) else analog s MOTION_TIME)"
  using assms(1,2) unfolding over_def
  by (simp_all add: pirMotionCOntrol_def exec_def getMotionTime_def tick_defs rdPrintf_def put_pir_flag_def
      Let_def eval_nat_numeral)

lemma ticks_elapsed:
  fixes m tm :: u8 and a :: u32
  assumes "unat m \<le> unat a"
  shows "(ucast (tm div 15) \<le> a - ucast m) = (unat m + unat tm div 15 \<le> unat a)"
proof -
  have "unat (a - ucast m) = unat a - unat m"
    using assms by (simp add: unat_sub word_le_nat_alt)
  moreover have "unat (tm div 15) = unat tm div 15" by (simp add: unat_div_distrib)
  ultimately show ?thesis using assms by (auto simp: word_le_nat_alt)
qed

lemma ticks_wrapped:
  fixes a :: u32
  assumes "m \<le> 255"
  shows "(int n \<le> 0xff - int m + int (unat (ucast a :: u8))) = (n \<le> 255 - m + unat a mod 256)"
proof -
  have "unat (ucast a :: u8) = unat a mod 256" by (simp add: unat_ucast_narrow)
  then show ?thesis using assms by linarith
qed

lemma put_flag_unset: "\<not> bit d n \<Longrightarrow> put_flag n False d = d"
  by (rule bit_word_eqI) (auto simp: put_flag_def bit_simps)

text \<open>
C8: How long the motion flag is held, the clock not running backwards between two readings. While
the saved start is not above the counter of 15-second ticks, the flag is dropped exactly when at
least \<open>pirTime / 15\<close> ticks have passed since; when the saved start is above the counter, which the
code takes for a wrap-around at 255, it is dropped exactly when the ticks up to 255 and those counted
since, taken modulo 256, are together at least \<open>pirTime\<close>. Dropping it saves the current tick as the
new start; no other flag changes, and the flag is never raised here.
\<close>

theorem motion_held_for_pirTime:
  fixes s :: "'a pir_st_scheme"
  defines "tick k \<equiv> unat (sec15_of (clk32k s (n_32k s + k)))"
    and "m \<equiv> unat (analog s MOTION_TIME)"
  assumes "tick 0 \<le> tick 2"
  shows "let s' = exec (pirMotionCOntrol tm) s;
      over = (if m \<le> tick 0 then m + unat tm div 15 \<le> tick 2 else unat tm \<le> 255 - m + tick 1 mod 256)
    in pir_flag s' = (if motionFlag (pir_flag s) \<and> over then put_flag 7 False (pir_flag s) else pir_flag s) \<and>
      analog s' MOTION_TIME = (if motionFlag (pir_flag s) \<and> over
        then of_nat (tick (if m \<le> tick 0 then 4 else 3)) else analog s MOTION_TIME)"
proof (cases "motionFlag (pir_flag s)")
  case False
  then show ?thesis
    by (simp add: pirMotionCOntrol_def exec_def getMotionTime_def)
next
  case True
  have uc: "of_nat (tick k) = (ucast (sec15_of (clk32k s (n_32k s + k))) :: u8)" for k
    by (simp add: tick_def)
  have i: "((ucast (analog s MOTION_TIME) :: u32) \<le> sec15_of (clk32k s (n_32k s))) = (m \<le> tick 0)"
    by (simp add: m_def tick_def word_le_nat_alt)
  show ?thesis
  proof (cases "m \<le> tick 0")
    case le: True
    have "(ucast (tm div 15) \<le> sec15_of (clk32k s (n_32k s + 2)) - ucast (analog s MOTION_TIME)) =
        (m + unat tm div 15 \<le> tick 2)"
      using ticks_elapsed [of "analog s MOTION_TIME" "sec15_of (clk32k s (n_32k s + 2))" tm] le assms(3)
      unfolding m_def tick_def by linarith
    then show ?thesis
      using pirMotionCOntrol_early [of s tm] True le i by (simp add: uc Let_def)
  next
    case gt: False
    have "m \<le> 255" by (simp add: m_def)
    note w = ticks_wrapped [OF this, of "unat tm" "sec15_of (clk32k s (n_32k s + 1))"]
    show ?thesis
      using pirMotionCOntrol_late [of s tm] True gt i
      unfolding w [unfolded m_def] by (simp add: uc Let_def m_def tick_def)
  qed
qed

lemma motion_held_for_pirTime_witness:
  "motionFlag (pir_flag (exec (pirMotionCOntrol 45) ((demo_pir (\<lambda>_. 7) 4423545)\<lparr>pir_flag := 0x80\<rparr>))) \<and>
   \<not> motionFlag (pir_flag (exec (pirMotionCOntrol 30) ((demo_pir (\<lambda>_. 7) 4423545)\<lparr>pir_flag := 0x80\<rparr>)))"
proof -
  let ?s = "(demo_pir (\<lambda>_. 7) 4423545)\<lparr>pir_flag := 0x80\<rparr>"
  have "unat (sec15_of (clk32k ?s (n_32k ?s + 0))) \<le> unat (sec15_of (clk32k ?s (n_32k ?s + 2)))"
    by (simp add: demo_pir_def)
  from motion_held_for_pirTime [OF this, of 45] motion_held_for_pirTime [OF this, of 30] show ?thesis
    by (simp add: demo_pir_def flag_defs Let_def)
qed

text \<open>
Later the flag is not held at all: the start of the hold is saved in 8 bits and compared with
the full counter, so once 258 ticks (about 65 minutes) have passed every wake-up drops the motion
flag, even one set a moment ago.
\<close>

theorem motion_dropped_after_65min:
  assumes "\<And>n. 258 \<le> sec15_of (clk32k s n)" "tm \<le> 45"
  shows "\<not> motionFlag (pir_flag (exec (pirMotionCOntrol tm) s))"
proof (cases "motionFlag (pir_flag s)")
  case False
  then show ?thesis by (simp add: pirMotionCOntrol_def exec_def getMotionTime_def)
next
  case True
  have ge: "unat (analog s MOTION_TIME) + 3 \<le> unat (sec15_of (clk32k s n))" for n
    using assms(1) [of n] unat_le_255 [of "analog s MOTION_TIME"]
    by (simp add: word_le_nat_alt del: unat_le_255)
  have le: "(ucast (analog s MOTION_TIME) :: u32) \<le> sec15_of (clk32k s n)" for n
    using ge [of n] by (simp add: word_le_nat_alt)
  have "unat tm div 15 \<le> 3" using assms(2) div_le_mono [of "unat tm" 45 15] by (simp add: word_le_nat_alt)
  then have "(ucast (tm div 15) :: u32) \<le> sec15_of (clk32k s (n_32k s + 2)) - ucast (analog s MOTION_TIME)"
    using le [of "n_32k s + 2"] ge [of "n_32k s + 2"]
    by (simp add: word_le_nat_alt unat_sub unat_div_distrib)
  then show ?thesis using True le by (simp add: pirMotionCOntrol_early flag_defs)
qed

lemma motion_dropped_after_65min_witness:
  "motionFlag 0x80 \<and>
   \<not> motionFlag (pir_flag (exec (pirMotionCOntrol 45) ((demo_pir (\<lambda>_. 4) 127791300)\<lparr>pir_flag := 0x80\<rparr>)))"
proof -
  have "\<not> motionFlag (pir_flag (exec (pirMotionCOntrol 45) ((demo_pir (\<lambda>_. 4) 127791300)\<lparr>pir_flag := 0x80\<rparr>)))"
    by (rule motion_dropped_after_65min) (simp_all add: demo_pir_def)
  then show ?thesis by (simp add: flag_defs)
qed

end
