(* ===== verification/Lux.thy ===== *)
theory Lux
  imports Pir
begin

text \<open>
  The light sensor of \<open>vendor/Rang_Dong/RD_Light_Sensor.c\<close>: converting the OPT3001 result register
  to calibrated lux, and reporting changes against the value saved in two analog registers.
\<close>

section \<open>State\<close>

record lux_st = pir_st +
  rd_node_addr :: u16
  rd_box_addr :: u16
  luxOld :: u32
  real_lux_new :: u32
  Lux_clock_time_read :: u32
  light_sensor_to_gw_tx_buff :: "u8 list"

section \<open>Conversion\<close>

primrec lux_pow :: "nat \<Rightarrow> u32 \<Rightarrow> u32" where
  "lux_pow 0 p = p"
| "lux_pow (Suc n) p = lux_pow n (p * 2)"

text \<open>
  The two floating-point expressions \<open>0.01 * pow * lux_LSB\<close> and \<open>1.7339 * lux_Value - 39.868\<close> are
  truncated to integers; for all values that occur the truncated double is the truncated exact
  quotient, which is what the model computes.
\<close>

definition lux_calib :: "nat \<Rightarrow> nat" where
  "lux_calib v = (if 60 < v then (17339 * v - 398680) div 10000 else v)"

definition CalculateLux :: "u32 \<Rightarrow> u32" where
  "CalculateLux rsp_lux =
     (let lux_LSB = rsp_lux AND 0x0FFF;
          lux_MSB = drop_bit 12 rsp_lux AND 0x0F;
          pow = lux_pow (unat lux_MSB) 1;
          lux_Value = unat pow * unat lux_LSB div 100
      in of_nat (lux_calib lux_Value))"

section \<open>Operations\<close>

definition luxLoop :: "nat \<Rightarrow> ('a hw_scheme, nat option) state" where
  "luxLoop loopTime = do {
     t \<leftarrow> pirGetTimeoutReg;
     ret (if loopTime = 0 then None else Some (if unat t mod loopTime = 0 then 1 else 0)) }"

definition RD_Light_Sensor_read_raw_val :: "('a hw_scheme, u32) state" where
  "RD_Light_Sensor_read_raw_val = do {
     emit I2c_init;
     emit (I2c_write 0x01 [0xC4, 0x10]);
     rx \<leftarrow> i2c_read_series 3;
     ret (ucast (mk16 (rx ! 0) (rx ! 1))) }"

definition lux_report :: "('a lux_st_scheme, bool) state" where
  "lux_report = do {
     modify (\<lambda>s. s\<lparr>luxOld := real_lux_new s\<rparr>);
     l \<leftarrow> gets luxOld;
     lightSetLuxReg l;
     ret True }"

definition LuxDetect :: "u32 \<Rightarrow> ('a lux_st_scheme, bool) state" where
  "LuxDetect threshold = do {
     old \<leftarrow> lightgetLuxReg;
     modify (\<lambda>s. s\<lparr>luxOld := old\<rparr>);
     raw \<leftarrow> RD_Light_Sensor_read_raw_val;
     modify (\<lambda>s. s\<lparr>real_lux_new := CalculateLux raw\<rparr>);
     new \<leftarrow> gets real_lux_new;
     if old \<noteq> new then
       (if new \<le> old then
          (if threshold \<le> old - new then lux_report else ret False)
        else (if threshold \<le> new - old then lux_report else ret False))
     else ret False }"

definition lightSendData :: "u8 \<Rightarrow> ('a lux_st_scheme, unit) state" where
  "lightSendData pwr = do {
     l \<leftarrow> gets luxOld;
     src \<leftarrow> gets rd_node_addr;
     dst \<leftarrow> gets rd_box_addr;
     mesh_tx_cmd2normal 0xe5 [0x0d, ucast l, ucast (drop_bit 8 l), pwr] src dst 2 }"

definition sendMotion :: "bool \<Rightarrow> ('a lux_st_scheme, unit) state" where
  "sendMotion motionEdge = when_do motionEdge (do {
     src \<leftarrow> gets rd_node_addr;
     dst \<leftarrow> gets rd_box_addr;
     mesh_tx_cmd2normal 0xe5 [0x0c, 0x01] src dst 2 })"

definition SENSOR_STATUS :: u16 where "SENSOR_STATUS = 0x52"

text \<open>The source address is that of the primary element, a variable of the stack.\<close>

definition mesh_tx_cmd2normal_primary :: "u16 \<Rightarrow> u16 \<Rightarrow> u8 list \<Rightarrow> u16 \<Rightarrow> nat \<Rightarrow> ('a hw_scheme, unit) state" where
  "mesh_tx_cmd2normal_primary ele_adr_primary op par adr_dst rsp_max =
     mesh_tx_cmd2normal op par ele_adr_primary adr_dst rsp_max"

definition RD_Send_raw_Lux :: "u16 \<Rightarrow> u16 \<Rightarrow> u32 \<Rightarrow> ('a lux_st_scheme, unit) state" where
  "RD_Send_raw_Lux ele_adr_primary Lux_raw_val lux_real = do {
     modify (\<lambda>s. s\<lparr>light_sensor_to_gw_tx_buff := [0x04, 0x00, ucast (drop_bit 8 Lux_raw_val), ucast Lux_raw_val,
       ucast (drop_bit 8 lux_real), ucast lux_real]\<rparr>);
     buff \<leftarrow> gets light_sensor_to_gw_tx_buff;
     mesh_tx_cmd2normal_primary ele_adr_primary SENSOR_STATUS buff 0x0001 2 }"

definition Lux_loop :: "u32 \<Rightarrow> ('a lux_st_scheme, unit) state" where
  "Lux_loop Lux_loop_time = do {
     now \<leftarrow> clock_time_ms;
     last \<leftarrow> gets Lux_clock_time_read;
     when_do (Lux_loop_time \<le> now - last) (do {
       now2 \<leftarrow> clock_time_ms;
       modify (\<lambda>s. s\<lparr>Lux_clock_time_read := now2\<rparr>) }) }"

section \<open>The conversion is exact, bounded and order preserving\<close>

lemma lux_pow_eq: "lux_pow n p = p * 2 ^ n"
  by (induction n arbitrary: p) (auto simp: mult.assoc)

lemma unat_lux_pow: "n \<le> 15 \<Longrightarrow> unat (lux_pow n 1) = 2 ^ n"
proof -
  assume "n \<le> 15"
  then have "(2::nat) ^ n \<le> 2 ^ 15" by (intro power_increasing) auto
  then have "unat (of_nat (2 ^ n) :: u32) = 2 ^ n"
    by (simp only: unat_of_nat_u32) simp
  then show ?thesis by (simp add: lux_pow_eq)
qed

lemma unat_low_nibble: "unat (x AND 0x0F :: u32) = unat x mod 16"
proof -
  have "x AND 15 = take_bit 4 x" by (simp add: take_bit_eq_mask mask_eq_exp_minus_1)
  then show ?thesis by (simp add: take_bit_eq_mod unat_mod_distrib)
qed

lemma unat_low_12: "unat (x AND 0x0FFF :: u32) = unat x mod 4096"
proof -
  have "x AND 4095 = take_bit 12 x" by (simp add: take_bit_eq_mask mask_eq_exp_minus_1)
  then show ?thesis by (simp add: take_bit_eq_mod unat_mod_distrib)
qed

definition lux_raw :: "nat \<Rightarrow> nat" where
  "lux_raw r = 2 ^ (r div 4096 mod 16) * (r mod 4096) div 100"

lemma lux_raw_le: "lux_raw r \<le> 1341849"
proof -
  have "(2::nat) ^ (r div 4096 mod 16) \<le> 2 ^ 15" by (intro power_increasing) auto
  then have "2 ^ (r div 4096 mod 16) * (r mod 4096) \<le> 32768 * 4095"
    by (intro mult_le_mono) auto
  then have "lux_raw r \<le> 32768 * 4095 div 100" unfolding lux_raw_def by (rule div_le_mono)
  then show ?thesis by simp
qed

lemma lux_calib_mono: "v \<le> w \<Longrightarrow> lux_calib v \<le> lux_calib w"
proof (cases "60 < v")
  case True
  assume "v \<le> w"
  then have "(17339 * v - 398680) div 10000 \<le> (17339 * w - 398680) div 10000"
    by (intro div_le_mono diff_le_mono) simp
  then show ?thesis using True \<open>v \<le> w\<close> by (simp add: lux_calib_def)
next
  case False
  assume "v \<le> w"
  have "60 \<le> (17339 * w - 398680) div 10000" if "60 < w" using that by simp
  then show ?thesis using False \<open>v \<le> w\<close> by (auto simp: lux_calib_def)
qed

lemma lux_calib_le: "lux_calib (lux_raw r) \<le> 2326592"
  using lux_calib_mono [OF lux_raw_le, of r] by (simp add: lux_calib_def)

lemma unat_CalculateLux: "unat (CalculateLux r) = lux_calib (lux_raw (unat r))"
proof -
  have m: "unat (drop_bit 12 r AND 0x0F) = unat r div 4096 mod 16"
    by (simp add: unat_low_nibble drop_bit_eq_div unat_div_distrib)
  have p: "unat (lux_pow (unat r div 4096 mod 16) 1) = 2 ^ (unat r div 4096 mod 16)"
    by (rule unat_lux_pow) auto
  have "CalculateLux r = of_nat (lux_calib (lux_raw (unat r)))"
    unfolding CalculateLux_def Let_def m p by (simp add: unat_low_12 lux_raw_def)
  then show ?thesis using lux_calib_le [of "unat r"] by (simp add: unat_of_nat_u32)
qed

text \<open>
C18: The lux conversion is exactly "two to the exponent nibble times the mantissa, divided by 100,
then the calibration line above 60 lux", it never exceeds 2326592 (so no 32-bit overflow), and a
larger uncalibrated reading never gives a smaller calibrated one.
\<close>

theorem CalculateLux_exact_bounded_mono:
  "unat (CalculateLux r) = lux_calib (2 ^ (unat r div 4096 mod 16) * (unat r mod 4096) div 100) \<and>
   unat (CalculateLux r) \<le> 2326592 \<and>
   (lux_raw (unat r) \<le> lux_raw (unat r') \<longrightarrow> CalculateLux r \<le> CalculateLux r')"
  using lux_calib_le [of "unat r"] lux_calib_mono
  by (auto simp: unat_CalculateLux lux_raw_def [symmetric] word_le_nat_alt)

lemma CalculateLux_exact_bounded_mono_witness:
  "CalculateLux 0x0FFF \<le> CalculateLux 0x1FFF \<and> unat (CalculateLux 0x1FFF) = 100"
proof -
  have "CalculateLux 0x0FFF \<le> CalculateLux 0x1FFF"
    using CalculateLux_exact_bounded_mono [of "0x0FFF" "0x1FFF"] by (simp add: lux_raw_def)
  moreover have "unat (CalculateLux 0x1FFF) = 100"
    using CalculateLux_exact_bounded_mono [of "0x1FFF" "0x1FFF"] by (simp add: lux_calib_def)
  ultimately show ?thesis by simp
qed

section \<open>Change detection\<close>

definition lux_saved :: "'a hw_scheme \<Rightarrow> u16" where
  "lux_saved s = mk16 (analog s lUX_SAVE_REG0) (analog s lUX_SAVE_REG1)"

definition lux_reading :: "'a hw_scheme \<Rightarrow> u32" where
  "lux_reading s = CalculateLux (ucast (mk16 (take 3 (i2c_in s (n_i2c s)) ! 0) (take 3 (i2c_in s (n_i2c s)) ! 1)))"

definition lux_changed :: "nat \<Rightarrow> nat \<Rightarrow> nat \<Rightarrow> bool" where
  "lux_changed threshold old new \<longleftrightarrow> old \<noteq> new \<and> old + threshold \<le> new \<or> old \<noteq> new \<and> new + threshold \<le> old"

lemma lux_pack: "(push_bit 8 (ucast h) OR ucast l :: u32) = ucast (mk16 h l)"
  unfolding mk16_def by (rule bit_word_eqI) (auto simp: bit_simps dest: bit_imp_le_length)

lemma lux_split: "ucast (drop_bit 8 x) = hi8 (ucast (x :: u32))" "ucast x = lo8 (ucast x)"
  by (rule bit_word_eqI, auto simp: hi8_def lo8_def bit_simps)+

lemma lux_dist:
  fixes old new thr :: u32
  shows "new \<le> old \<Longrightarrow> (thr \<le> old - new) = (unat new + unat thr \<le> unat old)"
  by (simp add: word_le_nat_alt unat_sub) linarith

lemma lux_dist':
  fixes old new thr :: u32
  shows "\<not> new \<le> old \<Longrightarrow> (thr \<le> new - old) = (unat old + unat thr \<le> unat new)"
  by (rule lux_dist) simp

lemma u32_neq: "(a \<noteq> b) = (unat a \<noteq> unat (b :: u32))"
  by (simp add: word_unat_eq_iff)

lemma run_lightgetLuxReg [simp]: "run_state lightgetLuxReg s = (ucast (lux_saved s), s)"
  by (simp add: lightgetLuxReg_def analog_read_def lux_saved_def lux_pack)

lemma run_read_raw [simp]:
  "run_state RD_Light_Sensor_read_raw_val s =
     (let rx = take 3 (i2c_in s (n_i2c s)) in ucast (mk16 (rx ! 0) (rx ! 1)),
      s\<lparr>cmds := cmds s @ [I2c_init, I2c_write 1 [0xC4, 0x10]], n_i2c := Suc (n_i2c s)\<rparr>)"
  by (simp add: RD_Light_Sensor_read_raw_val_def i2c_read_series_def Let_def)

lemma run_lux_report:
  "run_state lux_report s = (True, s\<lparr>luxOld := real_lux_new s,
     analog := (analog s)(lUX_SAVE_REG0 := hi8 (ucast (real_lux_new s)), lUX_SAVE_REG1 := lo8 (ucast (real_lux_new s)))\<rparr>)"
  unfolding lux_report_def lightSetLuxReg_def lux_split(1)
  by (simp add: analog_write_def lux_split(2))

lemma LuxDetect_cases:
  "run_state (LuxDetect thr) s =
     (let old = lux_saved s; new = lux_reading s;
          s' = s\<lparr>luxOld := ucast old, cmds := cmds s @ [I2c_init, I2c_write 1 [0xC4, 0x10]],
                 n_i2c := Suc (n_i2c s), real_lux_new := new\<rparr>
      in if lux_changed (unat thr) (unat old) (unat new) then run_state lux_report s' else (False, s'))"
  by (simp add: LuxDetect_def Let_def lux_reading_def lux_changed_def lux_dist lux_dist' u32_neq
      split: if_split) (auto simp: word_le_nat_alt)

lemma lux_saved_report:
  "lux_saved (s\<lparr>analog := (analog s)(lUX_SAVE_REG0 := hi8 x, lUX_SAVE_REG1 := lo8 x)\<rparr>) = x"
  by (simp add: lux_saved_def pir_regs)

lemma ucast_16_32_16 [simp]: "ucast (ucast (x :: u16) :: u32) = x"
  by (rule bit_word_eqI) (auto simp: bit_simps)

lemma LuxDetect_run:
  "fst (run_state (LuxDetect thr) s) = lux_changed (unat thr) (unat (lux_saved s)) (unat (lux_reading s))"
  "lux_changed (unat thr) (unat (lux_saved s)) (unat (lux_reading s)) \<Longrightarrow>
     luxOld (exec (LuxDetect thr) s) = lux_reading s \<and> lux_saved (exec (LuxDetect thr) s) = ucast (lux_reading s)"
  "\<not> lux_changed (unat thr) (unat (lux_saved s)) (unat (lux_reading s)) \<Longrightarrow>
     luxOld (exec (LuxDetect thr) s) = ucast (lux_saved s) \<and> lux_saved (exec (LuxDetect thr) s) = lux_saved s"
  "i2c_in (exec (LuxDetect thr) s) = i2c_in s" "n_i2c (exec (LuxDetect thr) s) = Suc (n_i2c s)"
  by (simp_all add: exec_def LuxDetect_cases Let_def run_lux_report)
     (simp_all add: lux_saved_def pir_regs)

text \<open>
C10: \<open>LuxDetect\<close> reports a reading exactly when it differs from the saved one by the threshold or
more; a reported reading is the one \<open>lightSendData\<close> puts on the air and the one saved (its low 16
bits), and an unreported one changes nothing.
\<close>

theorem LuxDetect_reports_changes:
  "(let (rep, s') = run_state (LuxDetect thr) s; old = unat (lux_saved s); new = unat (lux_reading s) in
     rep = (old \<noteq> new \<and> (old + unat thr \<le> new \<or> new + unat thr \<le> old)) \<and>
     lux_saved s' = (if rep then ucast (lux_reading s) else lux_saved s) \<and>
     cmds (exec (lightSendData p) s') = cmds s' @
       [Mesh_tx 0xe5 [0x0d, lo8 (lux_saved s'), hi8 (lux_saved s'), p] (rd_node_addr s') (rd_box_addr s') 2])"
proof -
  obtain rep s' where r: "run_state (LuxDetect thr) s = (rep, s')" by fastforce
  then have e: "exec (LuxDetect thr) s = s'" by (simp add: exec_def)
  have rep: "rep = lux_changed (unat thr) (unat (lux_saved s)) (unat (lux_reading s))"
    using LuxDetect_run(1) [of thr s] r by simp
  have w: "ucast (luxOld s') = lux_saved s'"
    using LuxDetect_run(2,3) [of thr s] unfolding e by (cases rep) (auto simp: rep)
  have "cmds (exec (lightSendData p) s') = cmds s' @
       [Mesh_tx 0xe5 [0x0d, lo8 (lux_saved s'), hi8 (lux_saved s'), p] (rd_node_addr s') (rd_box_addr s') 2]"
    unfolding lightSendData_def lux_split(1) by (simp add: exec_def mesh_tx_cmd2normal_def lux_split(2) w)
  moreover have "lux_saved s' = (if rep then ucast (lux_reading s) else lux_saved s)"
    using LuxDetect_run(2,3) [of thr s] unfolding e by (simp add: rep)
  ultimately show ?thesis by (simp add: r rep lux_changed_def conj_disj_distribL)
qed

text \<open>
A steady light level is not reported twice: once a reading below 65536 lux has been reported,
the next wake-up with the same reading stays silent, for every positive threshold.
\<close>

theorem steady_lux_reported_once:
  assumes "fst (run_state (LuxDetect thr) s)" "unat (lux_reading s) < 65536" "0 < thr"
    and "i2c_in s (Suc (n_i2c s)) = i2c_in s (n_i2c s)"
  shows "\<not> fst (run_state (LuxDetect thr) (exec (LuxDetect thr) s))"
proof -
  obtain s' where s': "s' = exec (LuxDetect thr) s" by blast
  have "lux_changed (unat thr) (unat (lux_saved s)) (unat (lux_reading s))"
    using assms(1) by (simp add: LuxDetect_run(1))
  then have "lux_saved s' = ucast (lux_reading s)" unfolding s' using LuxDetect_run(2) by blast
  moreover have "lux_reading s' = lux_reading s"
    using assms(4) by (simp add: lux_reading_def s' LuxDetect_run)
  ultimately have "unat (lux_saved s') = unat (lux_reading s')"
    using assms(2) by (simp add: unat_ucast_narrow)
  then show ?thesis by (simp add: LuxDetect_run(1) lux_changed_def flip: s')
qed

text \<open>A device whose sensor always returns the bytes \<open>rx\<close>.\<close>

definition demo_lux :: "u8 list \<Rightarrow> lux_st" where
  "demo_lux rx = \<lparr>analog = \<lambda>_. 0, flash = \<lambda>_. 0xFF, pin_in = \<lambda>_ _. False, n_pin = 0,
     clk32k = \<lambda>_. 0, n_32k = 0, clk_ms = \<lambda>_. 0, n_ms = 0, clk_s = \<lambda>_. 0, n_s = 0, clk_sys = \<lambda>_. 0, n_sys = 0,
     i2c_in = \<lambda>_. rx, n_i2c = 0, adc_in = \<lambda>_. 1500, n_adc = 0, stays_awake = \<lambda>_. False,
     n_sleep = 0, provisioned = True, connected = False, halted = False, cmds = [],
     adr_reset_cnt_idx = 0, clear_st = 0, reset_check_time = 0,
     MotionTimeLine = 0, pinHigh = GPIO_PB4, pinLow = GPIO_PB1, pirHighState = False,
     pirLowState = False, pir_flag = 0, timeOut = 0, rd_node_addr = 5, rd_box_addr = 1, luxOld = 0,
     real_lux_new = 0, Lux_clock_time_read = 0, light_sensor_to_gw_tx_buff = replicate 6 0\<rparr>"

lemma demo_lux_readings:
  "unat (lux_reading (demo_lux [0x1F, 0xFF, 0])) = 100"
  "unat (lux_reading (demo_lux [0xBF, 0xFF, 0])) = 145373"
  "lux_saved (demo_lux [a, b, c]) = 0"
  by (simp_all add: lux_reading_def lux_saved_def demo_lux_def unat_CalculateLux mk16_def lux_raw_def lux_calib_def)

lemma steady_lux_reported_once_witness:
  "fst (run_state (LuxDetect 30) (demo_lux [0x1F, 0xFF, 0])) \<and>
   \<not> fst (run_state (LuxDetect 30) (exec (LuxDetect 30) (demo_lux [0x1F, 0xFF, 0])))"
proof -
  have a: "fst (run_state (LuxDetect 30) (demo_lux [0x1F, 0xFF, 0]))"
    by (simp add: LuxDetect_run(1) demo_lux_readings lux_changed_def)
  moreover have "\<not> fst (run_state (LuxDetect 30) (exec (LuxDetect 30) (demo_lux [0x1F, 0xFF, 0])))"
    by (rule steady_lux_reported_once [OF a]) (simp_all add: demo_lux_readings, simp add: demo_lux_def)
  ultimately show ?thesis ..
qed

text \<open>
Above 65535 lux (direct sunlight) the device never falls silent: the saved value has only the
low 16 bits of the reading, so a reading of 65536 lux or more is reported on every wake-up however
steady the light is, for every threshold up to 65536.
\<close>

theorem sunlight_reported_every_wake:
  assumes "65536 \<le> unat (lux_reading s)" "unat thr \<le> 65536"
    and "i2c_in s (Suc (n_i2c s)) = i2c_in s (n_i2c s)"
    and "lux_saved s = ucast (lux_reading s)"
  shows "fst (run_state (LuxDetect thr) s) \<and>
    lux_saved (exec (LuxDetect thr) s) = lux_saved s \<and>
    lux_reading (exec (LuxDetect thr) s) = lux_reading s"
proof -
  let ?n = "unat (lux_reading s)"
  have old: "unat (lux_saved s) = ?n mod 65536"
    by (simp add: assms(4) unat_ucast_narrow)
  have "?n mod 65536 + 65536 \<le> ?n"
    using assms(1) mod_less_eq_dividend [of "?n - 65536" 65536] le_mod_geq [of 65536 ?n] by linarith
  then have "lux_changed (unat thr) (unat (lux_saved s)) ?n"
    using assms(2) by (simp add: lux_changed_def old del: unat_less_65536)
  then show ?thesis
    using LuxDetect_run(1,2,4,5) [of thr s] assms(3,4) by (simp add: lux_reading_def)
qed

lemma sunlight_reported_every_wake_witness:
  "fst (run_state (LuxDetect 30) (exec (LuxDetect 30) (demo_lux [0xBF, 0xFF, 0])))"
proof -
  let ?s = "demo_lux [0xBF, 0xFF, 0]"
  have "lux_changed (unat (30 :: u32)) (unat (lux_saved ?s)) (unat (lux_reading ?s))"
    by (simp add: demo_lux_readings lux_changed_def)
  moreover have "lux_reading (exec (LuxDetect 30) ?s) = lux_reading ?s"
    using LuxDetect_run(4,5) [of 30 ?s] by (simp add: lux_reading_def) (simp add: demo_lux_def)
  ultimately show ?thesis
    using sunlight_reported_every_wake [of "exec (LuxDetect 30) ?s" 30] LuxDetect_run(2,4) [of 30 ?s]
    by (simp add: demo_lux_readings) (simp add: demo_lux_def)
qed

end
