(* ===== verification/SoftUart.thy ===== *)
theory SoftUart
  imports Hw
begin

text \<open>
  The bit-banged serial port of \<open>vendor/Rang_Dong/SoftUart.c\<close>, and a receiver for it: the log of
  pin writes and pauses is turned into the level of the line for every microsecond, and an
  ordinary asynchronous receiver that samples in the middle of its own bit time reads the bytes
  back.
\<close>

section \<open>Operations\<close>

definition SUART_TX_PIN :: pin where "SUART_TX_PIN = GPIO_PA0"
definition SUART_RX_PIN :: pin where "SUART_RX_PIN = GPIO_PC1"
definition UART_TIME_BIT_START :: u32 where "UART_TIME_BIT_START = 90"
definition UART_BIT_TIME :: u32 where "UART_BIT_TIME = 104"

definition sUartTxMode :: u8 where "sUartTxMode = 0"
definition sUartRxMode :: u8 where "sUartRxMode = 1"

text \<open>
  \<open>else if(sUartRxMode)\<close> tests the constant and not \<open>mode\<close>; \<open>LOW_POWER_PULL_UP\<close> is 0 and
  \<open>NORMAL_PULL_UP\<close> is 1.
\<close>

definition sUartIoInit :: "pin \<Rightarrow> u8 \<Rightarrow> ('a hw_scheme, unit) state" where
  "sUartIoInit p mode =
     (if mode = sUartTxMode then do {
        emit (Gpio_as_gpio p);
        emit (Gpio_output_en p True);
        emit (Gpio_input_en p False) }
      else if sUartRxMode \<noteq> 0 then do {
        emit (Gpio_as_gpio p);
        emit (Gpio_output_en p False);
        emit (Gpio_input_en p True);
        emit (Gpio_pull p PM_PIN_PULLUP_10K) }
      else ret ())"

text \<open>\<open>SUART_RX_EN\<close> is 0. The result is the transmit pin stored in \<open>sUart1\<close>.\<close>

definition sUartInit :: "('a hw_scheme, pin) state" where
  "sUartInit = do {
     sUartIoInit SUART_TX_PIN sUartTxMode;
     emit (Gpio_write SUART_TX_PIN True);
     ret SUART_TX_PIN }"

definition send_bit :: "pin \<Rightarrow> u8 \<Rightarrow> nat \<Rightarrow> ('a hw_scheme, unit) state" where
  "send_bit p data j = do {
     emit (Gpio_write p (bit data j));
     emit (Sleep_us UART_BIT_TIME) }"

definition softUartSendByte :: "pin \<Rightarrow> u8 \<Rightarrow> ('a hw_scheme, unit) state" where
  "softUartSendByte p data = do {
     emit Irq_disable;
     emit (Gpio_write p False);
     emit (Sleep_us UART_TIME_BIT_START);
     do_all (map (send_bit p data) [0..<8]);
     emit (Gpio_write p True);
     emit (Sleep_us UART_BIT_TIME);
     emit Irq_restore }"

text \<open>The bytes from the pointer on; running past the end of the array is the result \<open>False\<close>.\<close>

fun softUartSend :: "pin \<Rightarrow> u8 list \<Rightarrow> ('a hw_scheme, bool) state" where
  "softUartSend p [] = ret False"
| "softUartSend p (c # cs) =
     (if c = 0 then ret True
      else do { softUartSendByte p c; softUartSend p cs })"

definition int_digits :: "u16 \<Rightarrow> u8 list" where
  "int_digits data = (let d = unat data in
     [of_nat (d div 10000 + 48), of_nat (d mod 10000 div 1000 + 48), of_nat (d mod 1000 div 100 + 48),
      of_nat (d mod 100 div 10 + 48), of_nat (d mod 10 + 48), 10])"

definition softUartSendInt :: "pin \<Rightarrow> u16 \<Rightarrow> ('a hw_scheme, unit) state" where
  "softUartSendInt p data = do_all (map (softUartSendByte p) (int_digits data))"

section \<open>The line and a receiver\<close>

text \<open>The level of pin \<open>p\<close>, one entry per microsecond, from the commands given to the hardware.\<close>

fun line_level :: "pin \<Rightarrow> bool \<Rightarrow> hw_cmd list \<Rightarrow> bool list" where
  "line_level p l [] = []"
| "line_level p l (Gpio_write q b # cs) = line_level p (if q = p then b else l) cs"
| "line_level p l (Sleep_us t # cs) = replicate (unat t) l @ line_level p l cs"
| "line_level p l (c # cs) = line_level p l cs"

text \<open>
  A receiver with bit time \<open>T\<close>: wait for a low level, skip the start bit, sample the eight data bits
  and the stop bit in the middle, give up on a frame without stop bit.
\<close>

definition sample_byte :: "nat \<Rightarrow> bool list \<Rightarrow> u8" where
  "sample_byte T ls = horner_sum of_bool 2 (map (\<lambda>k. ls ! (T * (2 * k + 3) div 2)) [0..<8])"

function uart_receive :: "nat \<Rightarrow> bool list \<Rightarrow> u8 list" where
  "uart_receive T ls = (let rest = dropWhile (\<lambda>l. l) ls in
     if length rest \<le> T * 19 div 2 \<or> \<not> rest ! (T * 19 div 2) then []
     else sample_byte T rest # uart_receive T (drop (Suc (T * 19 div 2)) rest))"
  by pat_completeness auto
termination
proof (relation "measure (\<lambda>(T, ls). length ls)")
  fix T :: nat and ls rest :: "bool list"
  assume "rest = dropWhile (\<lambda>l. l) ls" "\<not> (length rest \<le> T * 19 div 2 \<or> \<not> rest ! (T * 19 div 2))"
  then show "((T, drop (Suc (T * 19 div 2)) rest), T, ls) \<in> measure (\<lambda>(T, ls). length ls)"
    using length_dropWhile_le [of "\<lambda>l. l" ls] by auto
qed simp

declare uart_receive.simps [simp del]

section \<open>The frame of one byte\<close>

definition uart_frame :: "u8 \<Rightarrow> bool list" where
  "uart_frame b = replicate 90 False @ concat (map (\<lambda>j. replicate 104 (bit b j)) [0..<8]) @ replicate 104 True"

lemma length_bits: "length (concat (map (\<lambda>j. replicate m (f j)) [0..<n])) = n * m"
  by (induction n) auto

lemma nth_bits:
  "i < n * m \<Longrightarrow> concat (map (\<lambda>j. replicate m (f j)) [0..<n]) ! i = f (i div m)"
proof (induction n)
  case (Suc n)
  then show ?case
  proof (cases "i < n * m")
    case False
    then have "i div m = n" using Suc.prems by (intro div_nat_eqI) (auto simp: algebra_simps)
    then show ?thesis using False Suc.prems by (simp add: nth_append length_bits)
  qed (simp add: nth_append length_bits)
qed simp

lemma length_frame [simp]: "length (uart_frame b) = 1026"
  by (simp add: uart_frame_def length_bits)

lemma nth_frame:
  "i < 90 \<Longrightarrow> \<not> uart_frame b ! i"
  "90 + 104 * k \<le> i \<Longrightarrow> i < 194 + 104 * k \<Longrightarrow> k < 8 \<Longrightarrow> uart_frame b ! i = bit b k"
  "922 \<le> i \<Longrightarrow> i < 1026 \<Longrightarrow> uart_frame b ! i"
proof -
  show "i < 90 \<Longrightarrow> \<not> uart_frame b ! i"
    by (simp add: uart_frame_def nth_append)
  show "uart_frame b ! i" if "922 \<le> i" "i < 1026"
  proof -
    have "\<not> i < 90" "\<not> i - 90 < 8 * 104" "i - 90 - 8 * 104 < 104" using that by auto
    then show ?thesis by (simp add: uart_frame_def nth_append length_bits del: upt_rec_numeral)
  qed
  assume k: "90 + 104 * k \<le> i" "i < 194 + 104 * k" "k < 8"
  then have "(i - 90) div 104 = k" by (intro div_nat_eqI) auto
  moreover have "i - 90 < 8 * 104" using k by simp
  ultimately show "uart_frame b ! i = bit b k"
    using k nth_bits [of "i - 90" 8 104 "bit b"] by (simp add: uart_frame_def nth_append length_bits)
qed

lemma sample_frame:
  assumes "98 \<le> T" "T \<le> 107"
  shows "sample_byte T (uart_frame b @ ls) = b"
proof -
  have "(uart_frame b @ ls) ! (T * (2 * k + 3) div 2) = bit b k" if "k < 8" for k
  proof -
    have "k = 0 \<or> k = 1 \<or> k = 2 \<or> k = 3 \<or> k = 4 \<or> k = 5 \<or> k = 6 \<or> k = 7" using that by linarith
    then have i: "90 + 104 * k \<le> T * (2 * k + 3) div 2" "T * (2 * k + 3) div 2 < 194 + 104 * k"
      using assms by auto
    then have "T * (2 * k + 3) div 2 < 1026" using that by linarith
    then show ?thesis using nth_frame(2) [OF i that] by (simp add: nth_append)
  qed
  then have "sample_byte T (uart_frame b @ ls) = horner_sum of_bool 2 (map (bit b) [0..<8])"
    unfolding sample_byte_def by (intro arg_cong [where f = "horner_sum of_bool 2"] map_cong) auto
  also have "\<dots> = take_bit 8 b" by (rule horner_sum_bit_eq_take_bit)
  finally show ?thesis by (simp add: take_bit_word_eq_self)
qed

lemma receive_frames:
  assumes "98 \<le> T" "T \<le> 107"
  shows "uart_receive T (replicate r True @ concat (map uart_frame bs)) = bs"
proof (induction bs arbitrary: r)
  case Nil
  then show ?case by (subst uart_receive.simps) (simp add: Let_def)
next
  case (Cons b bs)
  let ?more = "concat (map uart_frame bs)"
  let ?rest = "uart_frame b @ ?more"
  have low: "uart_frame b = False # tl (uart_frame b)"
    by (simp add: uart_frame_def replicate_Suc [of 89, simplified])
  have d: "dropWhile (\<lambda>l. l) (replicate r True @ ?rest) = ?rest"
    using low by (metis append_Cons dropWhile.simps(2) dropWhile_append2 in_set_replicate)
  have s: "922 \<le> T * 19 div 2" "T * 19 div 2 < 1026" using assms by auto
  have "drop (Suc (T * 19 div 2)) (uart_frame b) = replicate (1026 - Suc (T * 19 div 2)) True"
    by (rule nth_equalityI) (use s in \<open>auto intro!: nth_frame(3)\<close>)
  then have e: "drop (Suc (T * 19 div 2)) ?rest = replicate (1026 - Suc (T * 19 div 2)) True @ ?more"
    using s by simp
  have "uart_receive T (replicate r True @ ?rest) = sample_byte T ?rest # uart_receive T (drop (Suc (T * 19 div 2)) ?rest)"
    using s nth_frame(3) [OF s] by (subst uart_receive.simps) (simp add: d Let_def nth_append)
  then show ?case using Cons sample_frame [OF assms] e by simp
qed

text \<open>A machine with everything at rest and the 32 kHz counter at \<open>t\<close>.\<close>

definition quiet :: "u32 \<Rightarrow> hw" where
  "quiet t = \<lparr>analog = \<lambda>_. 0, flash = \<lambda>_. 0xFF, pin_in = \<lambda>_ _. False, n_pin = 0,
     clk32k = \<lambda>_. t, n_32k = 0, clk_ms = \<lambda>_. 0, n_ms = 0, clk_s = \<lambda>_. 0, n_s = 0, clk_sys = \<lambda>_. 0, n_sys = 0,
     i2c_in = \<lambda>_. [0, 0, 0], n_i2c = 0, adc_in = \<lambda>_. 1500, n_adc = 0, stays_awake = \<lambda>_. False,
     n_sleep = 0, provisioned = True, connected = False, halted = False, cmds = []\<rparr>"

section \<open>The sender drives the line as the receiver expects\<close>

definition byte_cmds :: "pin \<Rightarrow> u8 \<Rightarrow> hw_cmd list" where
  "byte_cmds p b = [Irq_disable, Gpio_write p False, Sleep_us 90] @
     concat (map (\<lambda>j. [Gpio_write p (bit b j), Sleep_us 104]) [0..<8]) @
     [Gpio_write p True, Sleep_us 104, Irq_restore]"

lemma run_send_bits:
  "run_state (do_all (map (send_bit p b) js)) s =
     ((), s\<lparr>cmds := cmds s @ concat (map (\<lambda>j. [Gpio_write p (bit b j), Sleep_us 104]) js)\<rparr>)"
  by (induction js arbitrary: s) (simp_all add: send_bit_def UART_BIT_TIME_def)

lemma run_softUartSendByte [simp]:
  "run_state (softUartSendByte p b) s = ((), s\<lparr>cmds := cmds s @ byte_cmds p b\<rparr>)"
  by (simp add: softUartSendByte_def byte_cmds_def run_send_bits UART_BIT_TIME_def
      UART_TIME_BIT_START_def del: upt_rec_numeral)

lemma run_send_bytes:
  "run_state (do_all (map (softUartSendByte p) bs)) s = ((), s\<lparr>cmds := cmds s @ concat (map (byte_cmds p) bs)\<rparr>)"
  by (induction bs arbitrary: s) simp_all

lemma run_softUartSend:
  "0 \<notin> set data \<Longrightarrow> run_state (softUartSend p (data @ 0 # after)) s =
     (True, s\<lparr>cmds := cmds s @ concat (map (byte_cmds p) data)\<rparr>)"
  by (induction data arbitrary: s) auto

lemma line_bits:
  "line_level p l (concat (map (\<lambda>j. [Gpio_write p (f j), Sleep_us 104]) js) @ Gpio_write p x # cs) =
     concat (map (\<lambda>j. replicate 104 (f j)) js) @ line_level p x cs"
  by (induction js arbitrary: l) simp_all

lemma line_bytes:
  "line_level p l (concat (map (byte_cmds p) bs)) = concat (map uart_frame bs)"
proof (induction bs arbitrary: l)
  case (Cons b bs)
  have "line_level p l (byte_cmds p b @ cs) = uart_frame b @ line_level p True cs" for cs
    by (simp add: byte_cmds_def line_bits uart_frame_def del: upt_rec_numeral)
  then show ?case by (simp add: Cons.IH)
qed simp

text \<open>
A string sent over the serial pin arrives: whatever the line did before, a receiver whose bit
time is between 98 and 107 microseconds (9346 to 10204 baud) reads exactly the bytes before the
terminating zero, in order, from the levels the sender produces.
\<close>

theorem softUartSend_received:
  assumes "0 \<notin> set data" "98 \<le> T" "T \<le> 107" "cmds s = []"
  shows "fst (run_state (softUartSend p (data @ 0 # after)) s) \<and>
    uart_receive T (line_level p True (cmds (exec (softUartSend p (data @ 0 # after)) s))) = data"
  using receive_frames [OF assms(2,3), of 0 data]
  by (simp add: run_softUartSend [OF assms(1)] exec_def line_bytes assms(4))

lemma unat_digit: "d \<le> 9 \<Longrightarrow> unat (of_nat d + 48 :: u8) = d + 48"
  by (simp add: unat_add_u8)

lemma digits_sum:
  "10000 * (n div 10000) + 1000 * (n mod 10000 div 1000) + 100 * (n mod 1000 div 100) + 10 * (n mod 100 div 10) + n mod 10 = (n :: nat)"
proof -
  have "n mod 10000 mod 1000 = n mod 1000" "n mod 1000 mod 100 = n mod 100" "n mod 100 mod 10 = n mod 10"
    by (simp_all add: mod_mod_cancel)
  then show ?thesis
    using mult_div_mod_eq [of 10000 n] mult_div_mod_eq [of 1000 "n mod 10000"]
      mult_div_mod_eq [of 100 "n mod 1000"] mult_div_mod_eq [of 10 "n mod 100"] by linarith
qed

definition digits_value :: "u8 list \<Rightarrow> nat" where
  "digits_value ds = foldl (\<lambda>v d. 10 * v + (unat d - 48)) 0 ds"

text \<open>
\<open>softUartSendInt\<close> puts exactly five decimal digits and a line feed on the line, and the digits
read back as the number.
\<close>

theorem softUartSendInt_received:
  fixes p :: pin and n :: u16
  assumes "98 \<le> T" "T \<le> 107" "cmds s = []"
  defines "rx \<equiv> uart_receive T (line_level p True (cmds (exec (softUartSendInt p n) s)))"
  shows "length rx = 6 \<and> last rx = 10 \<and> (\<forall>d\<in>set (butlast rx). 48 \<le> d \<and> d \<le> 57) \<and>
    digits_value (butlast rx) = unat n"
proof -
  have "rx = int_digits n"
    using receive_frames [OF assms(1,2), of 0 "int_digits n"]
    by (simp add: rx_def softUartSendInt_def exec_def run_send_bytes line_bytes assms(3))
  moreover have "unat n < 65536" by simp
  then have "unat n div 10000 \<le> 9" by linarith
  moreover have "unat n mod 10000 div 1000 \<le> 9" "unat n mod 1000 div 100 \<le> 9" "unat n mod 100 div 10 \<le> 9"
    "unat n mod 10 \<le> 9" by linarith+
  ultimately show ?thesis using digits_sum [of "unat n"]
    by (simp add: int_digits_def Let_def word_le_nat_alt digits_value_def unat_digit add.assoc)
qed

lemma softUartSend_received_witness:
  "uart_receive 104 (line_level GPIO_PA0 True
     (cmds (exec (softUartSend GPIO_PA0 ([0x41, 0x42] @ 0 # [])) (quiet 0)))) = [0x41, 0x42]"
  by (rule softUartSend_received [THEN conjunct2]) (simp_all add: quiet_def)

lemma softUartSendInt_received_witness:
  "digits_value (butlast (uart_receive 100 (line_level GPIO_PA0 True
     (cmds (exec (softUartSendInt GPIO_PA0 40507) (quiet 0)))))) = 40507"
  using softUartSendInt_received [of 100 "quiet 0" GPIO_PA0 40507] by (simp add: quiet_def)

end
