(* ===== verification/Join.thy ===== *)
theory Join
  imports Lux
begin

text \<open>
  Joining the network, \<open>vendor/Rang_Dong/RD_type_device.c\<close> and \<open>RD_flash.c\<close>: the handlers of the
  bind, gateway-address and confirm messages, the arithmetic that confirms a node, the addresses
  and the join flag in flash, and the two timers that kick an unconfirmed node out.
\<close>

section \<open>State, errors\<close>

datatype err = Array_overrun | Div_by_zero

record join_st = lux_st +
  confirm_fail_time :: u32
  confirm_fail :: bool
  bind_all_flag :: bool
  bind_time :: u32
  time_to_end_config :: u16
  confirmDone :: bool
  endConfigTime :: u32

record cb_par_t =
  adr_src :: u16
  adr_dst :: u16

definition arr_set :: "'b list \<Rightarrow> nat \<Rightarrow> 'b \<Rightarrow> err + 'b list" where
  "arr_set xs i v = (if i < length xs then Inr (xs[i := v]) else Inl Array_overrun)"

text \<open>Sequencing of computations that may fail.\<close>

definition try_bind :: "('s, err + 'b) state \<Rightarrow> ('b \<Rightarrow> ('s, err + 'c) state) \<Rightarrow> ('s, err + 'c) state" where
  "try_bind m f = do { r \<leftarrow> m; (case r of Inl e \<Rightarrow> ret (Inl e) | Inr x \<Rightarrow> f x) }"

definition try_ok :: "('s, 'b) state \<Rightarrow> ('s, err + 'b) state" where
  "try_ok m = do { x \<leftarrow> m; ret (Inr x) }"

section \<open>Flash words\<close>

definition rd_flash_read_data :: "nat \<Rightarrow> ('a hw_scheme, u16) state" where
  "rd_flash_read_data adr = do {
     buff_read \<leftarrow> flash_read adr 2;
     ret (mk16 (buff_read ! 1) (buff_read ! 0)) }"

definition flashReadJoinFlag :: "('a hw_scheme, u8) state" where
  "flashReadJoinFlag = do { b \<leftarrow> flash_read 0x7f000 1; ret (b ! 0) }"

definition flashWriteJoinFlag :: "u8 \<Rightarrow> ('a hw_scheme, unit) state" where
  "flashWriteJoinFlag data = ret ()"

section \<open>The confirm arithmetic\<close>

text \<open>
  \<open>modulo_calculate\<close>: \<open>Inr None\<close> is the result 0 (equal operands), \<open>Inr (Some m)\<close> the result 1 with
  \<open>*out = m\<close>.
\<close>

definition modulo_calculate :: "u16 \<Rightarrow> u16 \<Rightarrow> err + u16 option" where
  "modulo_calculate par1 par2 =
     (if par2 < par1 then (if par2 = 0 then Inl Div_by_zero else Inr (Some (par1 mod par2)))
      else if par1 < par2 then (if par1 = 0 then Inl Div_by_zero else Inr (Some (par2 mod par1)))
      else Inr None)"

definition rogo_next :: "err + u16 option \<Rightarrow> u16 \<Rightarrow> err + u16 option" where
  "rogo_next r p = (case r of Inl e \<Rightarrow> Inl e | Inr None \<Rightarrow> Inr None | Inr (Some m) \<Rightarrow> modulo_calculate m p)"

text \<open>\<open>Param[i]\<close>, read big-endian.\<close>

definition rogo_par :: "u8 list \<Rightarrow> nat \<Rightarrow> u16" where
  "rogo_par data i = mk16 (data ! (2 * i)) (data ! (2 * i + 1))"

definition rd_rogo_rule_confirm :: "u8 list \<Rightarrow> err + u16" where
  "rd_rogo_rule_confirm data =
     (if length data < 8 then Inl Array_overrun
      else let Param = rogo_par data;
               r = rogo_next (rogo_next (modulo_calculate (Param 0) (Param 1)) (Param 2)) (Param 3)
           in (case r of Inl e \<Rightarrow> Inl e | Inr None \<Rightarrow> Inr 0 | Inr (Some m) \<Rightarrow> Inr m))"

section \<open>Message handlers\<close>

definition end_config :: "u8 list \<Rightarrow> cb_par_t \<Rightarrow> ('a join_st_scheme, err + int) state" where
  "end_config par cb_par = do {
     na \<leftarrow> rd_flash_read_data 0x78000;
     modify (\<lambda>s. s\<lparr>rd_node_addr := na\<rparr>);
     (case rd_rogo_rule_confirm par of
        Inl e \<Rightarrow> ret (Inl e)
      | Inr confirm_data \<Rightarrow>
          (if confirm_data \<noteq> 0 \<and> na = confirm_data then do {
             flash_erase_sector 0x7f000;
             flash_write_page 0x7f000 [0];
             modify (\<lambda>s. s\<lparr>bind_all_flag := False\<rparr>);
             t \<leftarrow> clock_time_ms;
             modify (\<lambda>s. s\<lparr>endConfigTime := t, confirmDone := True\<rparr>);
             mesh_tx_cmd2normal 0xe1 [1] (adr_dst cb_par) (adr_src cb_par) 2;
             ret (Inr 0) }
           else do {
             modify (\<lambda>s. s\<lparr>confirm_fail := True\<rparr>);
             t \<leftarrow> clock_time_ms;
             modify (\<lambda>s. s\<lparr>confirm_fail_time := t\<rparr>);
             mesh_tx_cmd2normal 0xe1 [0] (adr_dst cb_par) (adr_src cb_par) 2;
             ret (Inr 0) })) }"

text \<open>\<open>mesh_cmd_sig_cfg_bind\<close> is in the stack's library: the parameter \<open>lib_bind\<close>.\<close>

definition bind_store :: "u8 list \<Rightarrow> ('a join_st_scheme, err + unit) state" where
  "bind_store par = do {
     t \<leftarrow> clock_time_ms;
     modify (\<lambda>s. s\<lparr>bind_time := t, bind_all_flag := True\<rparr>);
     ts \<leftarrow> clock_time_s;
     modify (\<lambda>s. s\<lparr>time_to_end_config := ucast ts\<rparr>);
     flash_erase_sector 0x78000;
     if length par < 2 then ret (Inl Array_overrun)
     else do {
       flash_write_page 0x78000 (take 2 par);
       na \<leftarrow> rd_flash_read_data 0x78000;
       modify (\<lambda>s. s\<lparr>rd_node_addr := na\<rparr>);
       ret (Inr ()) } }"

definition RD_mesh_cmd_sig_cfg_bind ::
  "(u8 list \<Rightarrow> cb_par_t \<Rightarrow> ('a join_st_scheme, int) state) \<Rightarrow> u8 list \<Rightarrow> cb_par_t \<Rightarrow> ('a join_st_scheme, err + int) state" where
  "RD_mesh_cmd_sig_cfg_bind lib_bind par cb_par =
     try_bind (bind_store par) (\<lambda>_. try_ok (lib_bind par cb_par))"

text \<open>
  \<open>u8 respone_buff[] = {0}\<close> has one element; the stores to its elements 1 and 2 are outside it.
\<close>

definition saveAddBox :: "u8 list \<Rightarrow> cb_par_t \<Rightarrow> ('a join_st_scheme, err + unit) state" where
  "saveAddBox par cb_par = do {
     flash_erase_sector 0x79000;
     if length par < 2 then ret (Inl Array_overrun)
     else do {
       flash_write_page 0x79000 (take 2 par);
       ba \<leftarrow> rd_flash_read_data 0x79000;
       modify (\<lambda>s. s\<lparr>rd_box_addr := ba\<rparr>);
       try_bind (ret (arr_set [0] 0 1)) (\<lambda>b0.
       try_bind (ret (arr_set b0 1 (lo8 ba))) (\<lambda>b1.
       try_bind (ret (arr_set b1 2 (hi8 ba))) (\<lambda>b2.
       try_ok (mesh_tx_cmd2normal 0xe0 b2 (adr_dst cb_par) (adr_src cb_par) 2)))) } }"

definition RD_Messenger_Process_Type_Device :: "u8 list \<Rightarrow> cb_par_t \<Rightarrow> ('a join_st_scheme, err + int) state" where
  "RD_Messenger_Process_Type_Device par cb_par = try_bind (saveAddBox par cb_par) (\<lambda>_. ret (Inr 0))"

definition RD_Messenger_Process_Null_1 :: "u8 list \<Rightarrow> cb_par_t \<Rightarrow> ('a join_st_scheme, err + int) state" where
  "RD_Messenger_Process_Null_1 par cb_par = ret (Inr 0)"

section \<open>Timers and start-up\<close>

definition Join_confirm_check :: "('a join_st_scheme, unit) state" where
  "Join_confirm_check = do {
     cf \<leftarrow> gets confirm_fail;
     when_do cf (do {
       t \<leftarrow> clock_time_ms;
       t0 \<leftarrow> gets confirm_fail_time;
       when_do (1000 \<le> t - t0) kick_out }) }"

definition confirm_receive_check :: "('a join_st_scheme, unit) state" where
  "confirm_receive_check = do {
     b \<leftarrow> gets bind_all_flag;
     when_do b (do {
       t \<leftarrow> clock_time_ms;
       t0 \<leftarrow> gets bind_time;
       when_do (120000 \<le> t - t0) kick_out }) }"

definition flash_init :: "('a join_st_scheme, unit) state" where
  "flash_init = do {
     p \<leftarrow> is_provision_success;
     when_do p (do {
       na \<leftarrow> rd_flash_read_data 0x78000;
       modify (\<lambda>s. s\<lparr>rd_node_addr := na\<rparr>);
       ba \<leftarrow> rd_flash_read_data 0x79000;
       modify (\<lambda>s. s\<lparr>rd_box_addr := ba\<rparr>) }) }"

section \<open>The confirm arithmetic\<close>

text \<open>The chain of remainders divides by zero exactly in these cases.\<close>

fun rogo_crash :: "u16 \<Rightarrow> u16 list \<Rightarrow> bool" where
  "rogo_crash m [] = False"
| "rogo_crash m (p # ps) = (m \<noteq> p \<and> (m = 0 \<or> p = 0 \<or> rogo_crash (max m p mod min m p) ps))"

lemma modulo_calculate_cases:
  "modulo_calculate m p = (if m = p then Inr None else if m = 0 \<or> p = 0 then Inl Div_by_zero
     else Inr (Some (max m p mod min m p)))"
  by (auto simp: modulo_calculate_def max_def min_def not_less le_less word_gt_0)

lemma rogo_next_simps [simp]:
  "rogo_next (Inl e) p = Inl e" "rogo_next (Inr None) p = Inr None"
  "rogo_next (Inr (Some m)) p = modulo_calculate m p"
  by (simp_all add: rogo_next_def)

lemma foldl_rogo_done [simp]:
  "foldl rogo_next (Inl e) ps = Inl e" "foldl rogo_next (Inr None) ps = Inr None"
  by (induction ps) simp_all

lemma rogo_chain:
  "foldl rogo_next r ps = Inl Div_by_zero \<longleftrightarrow>
     (case r of Inl e \<Rightarrow> e = Div_by_zero | Inr None \<Rightarrow> False | Inr (Some m) \<Rightarrow> rogo_crash m ps)"
proof (induction ps arbitrary: r)
  case Nil
  then show ?case by (auto split: sum.splits option.splits)
next
  case (Cons p ps)
  show ?case
  proof (cases r)
    case (Inr o1)
    then show ?thesis using Cons.IH by (cases o1) (simp_all add: modulo_calculate_cases)
  qed simp
qed

lemma rogo_no_overrun: "r \<noteq> Inl Array_overrun \<Longrightarrow> foldl rogo_next r ps \<noteq> Inl Array_overrun"
proof (induction ps arbitrary: r)
  case (Cons p ps)
  have "rogo_next r p \<noteq> Inl Array_overrun"
    using Cons.prems by (auto simp: rogo_next_def modulo_calculate_def split: sum.splits option.splits)
  then show ?case using Cons.IH by simp
qed simp

text \<open>
The confirm arithmetic on eight received bytes is total except for division by zero, and that
happens exactly when two unequal values meet of which one is zero; among others for every message
whose first parameter is zero and whose second is not, and for every message whose second
parameter is a proper multiple of the first unless the third parameter is zero.
\<close>

theorem confirm_divides_by_zero_iff:
  assumes "8 \<le> length data"
  defines "p \<equiv> rogo_par data"
  shows "(rd_rogo_rule_confirm data = Inl Div_by_zero \<longleftrightarrow> rogo_crash (p 0) [p 1, p 2, p 3]) \<and>
    (\<exists>c. rd_rogo_rule_confirm data = Inr c \<or> rd_rogo_rule_confirm data = Inl Div_by_zero) \<and>
    (p 0 = 0 \<and> p 1 \<noteq> 0 \<longrightarrow> rd_rogo_rule_confirm data = Inl Div_by_zero) \<and>
    (p 0 < p 1 \<and> p 1 mod p 0 = 0 \<and> p 2 \<noteq> 0 \<longrightarrow> rd_rogo_rule_confirm data = Inl Div_by_zero)"
proof -
  obtain r where r: "r = foldl rogo_next (Inr (Some (p 0))) [p 1, p 2, p 3]" by blast
  have e: "rd_rogo_rule_confirm data = (case r of Inl e \<Rightarrow> Inl e | Inr None \<Rightarrow> Inr 0 | Inr (Some m) \<Rightarrow> Inr m)"
    using assms(1) by (simp add: rd_rogo_rule_confirm_def Let_def r p_def)
  then have iff: "rd_rogo_rule_confirm data = Inl Div_by_zero \<longleftrightarrow> rogo_crash (p 0) [p 1, p 2, p 3]"
    using rogo_chain [of "Inr (Some (p 0))" "[p 1, p 2, p 3]"]
    unfolding r [symmetric] by (cases r) (simp_all del: rogo_crash.simps split: option.splits)
  have "r \<noteq> Inl Array_overrun"
    unfolding r by (rule rogo_no_overrun) simp
  then have "\<exists>c. rd_rogo_rule_confirm data = Inr c \<or> rd_rogo_rule_confirm data = Inl Div_by_zero"
    unfolding e by (cases r) (auto split: option.splits intro: err.exhaust simp del: rogo_crash.simps)
  moreover have "rogo_crash (p 0) [p 1, p 2, p 3]" if "p 0 = 0" "p 1 \<noteq> 0" using that by simp
  moreover have "rogo_crash (p 0) [p 1, p 2, p 3]" if "p 0 < p 1" "p 1 mod p 0 = 0" "p 2 \<noteq> 0"
  proof -
    have "max (p 0) (p 1) = p 1" "min (p 0) (p 1) = p 0" "p 0 \<noteq> p 1" using that(1) by (auto simp: max_def min_def)
    then show ?thesis using that(2,3) by simp
  qed
  ultimately show ?thesis unfolding iff by (auto simp del: rogo_crash.simps)
qed

lemma confirm_divides_by_zero_iff_witness:
  "rd_rogo_rule_confirm [0, 3, 0, 9, 0, 5, 0, 1] = Inl Div_by_zero"
  using confirm_divides_by_zero_iff [of "[0, 3, 0, 9, 0, 5, 0, 1]"]
  by (simp add: rogo_par_def mk16_def)

section \<open>Confirming\<close>

lemma run_rd_flash [simp]:
  "run_state (rd_flash_read_data a) s = (mk16 (flash s (a + 1)) (flash s a), s)"
  by (simp add: rd_flash_read_data_def flash_read_def numeral_2_eq_2)

lemma run_flashReadJoinFlag [simp]: "run_state flashReadJoinFlag s = (flash s 0x7f000, s)"
  by (simp add: flashReadJoinFlag_def flash_read_def)

definition stored_node :: "'a hw_scheme \<Rightarrow> u16" where
  "stored_node s = mk16 (flash s 0x78001) (flash s 0x78000)"

definition stored_box :: "'a hw_scheme \<Rightarrow> u16" where
  "stored_box s = mk16 (flash s 0x79001) (flash s 0x79000)"

definition confirm_ok :: "u16 \<Rightarrow> 'a hw_scheme \<Rightarrow> bool" where
  "confirm_ok c s \<longleftrightarrow> c \<noteq> 0 \<and> c = stored_node s"

lemma end_config_run:
  assumes "rd_rogo_rule_confirm par = Inr c"
  shows "fst (run_state (end_config par cb) s) = Inr 0 \<and>
    (let s' = exec (end_config par cb) s; ok = confirm_ok c s in
      (\<forall>a. flash s' a = (if ok \<and> a div 4096 = 127 then if a = 0x7f000 then 0 else 0xFF else flash s a)) \<and>
      bind_all_flag s' = (bind_all_flag s \<and> \<not> ok) \<and> confirmDone s' = (confirmDone s \<or> ok) \<and>
      confirm_fail s' = (confirm_fail s \<or> \<not> ok) \<and> halted s' = halted s \<and>
      confirm_fail_time s' = (if ok then confirm_fail_time s else clk_ms s (n_ms s)) \<and>
      clk_ms s' = clk_ms s \<and> n_ms s' = n_ms s + 1 \<and> rd_node_addr s' = stored_node s \<and>
      last (cmds s') = Mesh_tx 0xe1 [if ok then 1 else 0] (adr_dst cb) (adr_src cb) 2)"
  using assms by (cases "confirm_ok c s")
    (auto simp: end_config_def exec_def stored_node_def confirm_ok_def hw_simps)

text \<open>
C30: A confirm message that evaluates to \<open>c\<close> joins the node exactly when \<open>c\<close> is not zero and is the
node's own stored address: the join flag then reads 0, the two-minute timer is off and the answer
is 1; otherwise the join flag is untouched, the one-second timer is on and the answer is 0.
\<close>

theorem end_config_outcome:
  assumes "rd_rogo_rule_confirm par = Inr c"
  shows "fst (run_state (end_config par cb) s) = Inr 0 \<and>
    (let s' = exec (end_config par cb) s; ok = confirm_ok c s in
      flash s' 0x7f000 = (if ok then 0 else flash s 0x7f000) \<and>
      bind_all_flag s' = (bind_all_flag s \<and> \<not> ok) \<and> confirmDone s' = (confirmDone s \<or> ok) \<and>
      confirm_fail s' = (confirm_fail s \<or> \<not> ok) \<and> halted s' = halted s \<and>
      (\<not> ok \<longrightarrow> confirm_fail_time s' = clk_ms s (n_ms s)) \<and>
      rd_node_addr s' = stored_node s \<and>
      last (cmds s') = Mesh_tx 0xe1 [if ok then 1 else 0] (adr_dst cb) (adr_src cb) 2)"
  using end_config_run [OF assms, of cb s] by (auto simp: Let_def)

section \<open>The two timers\<close>

lemma Join_confirm_check_exec:
  "exec Join_confirm_check s = (if confirm_fail s then
     (let s1 = s\<lparr>n_ms := Suc (n_ms s)\<rparr> in
      if 1000 \<le> clk_ms s (n_ms s) - confirm_fail_time s then exec kick_out s1 else s1) else s)"
  by (simp add: Join_confirm_check_def exec_def hw_simps Let_def)

lemma confirm_receive_check_exec:
  "exec confirm_receive_check s = (if bind_all_flag s then
     (let s1 = s\<lparr>n_ms := Suc (n_ms s)\<rparr> in
      if 120000 \<le> clk_ms s (n_ms s) - bind_time s then exec kick_out s1 else s1) else s)"
  by (simp add: confirm_receive_check_def exec_def hw_simps Let_def)

text \<open>What being kicked out means: reboot with addresses and join flag erased.\<close>

definition kicked_out :: "'a hw_scheme \<Rightarrow> bool" where
  "kicked_out s \<longleftrightarrow> halted s \<and> last (cmds s) = Reboot \<and> flash s 0x7f000 = 0xFF \<and>
     stored_node s = 0xFFFF \<and> stored_box s = 0xFFFF"

lemma kick_out_kicked: "kicked_out (exec kick_out s)"
  by (simp add: kicked_out_def kick_out_exec stored_node_def stored_box_def mk16_def)

text \<open>
C37: The two deadlines, each by its own check and modulo the wrap of the millisecond clock.
\<open>confirm_receive_check\<close> kicks a node out exactly when it has been bound at least two minutes ago, and
after an accepted confirm it does nothing; \<open>Join_confirm_check\<close> kicks it out exactly
when a confirm was rejected at least a second ago.
\<close>

theorem confirm_deadline:
  assumes "\<not> halted s"
  shows "(halted (exec confirm_receive_check s) \<longleftrightarrow> bind_all_flag s \<and> 120000 \<le> clk_ms s (n_ms s) - bind_time s) \<and>
    (halted (exec confirm_receive_check s) \<longrightarrow> kicked_out (exec confirm_receive_check s)) \<and>
    (halted (exec Join_confirm_check s) \<longleftrightarrow> confirm_fail s \<and> 1000 \<le> clk_ms s (n_ms s) - confirm_fail_time s) \<and>
    (halted (exec Join_confirm_check s) \<longrightarrow> kicked_out (exec Join_confirm_check s)) \<and>
    (rd_rogo_rule_confirm par = Inr c \<and> confirm_ok c s \<longrightarrow>
       exec confirm_receive_check (exec (end_config par cb) s) = exec (end_config par cb) s)"
proof -
  have "bind_all_flag (exec (end_config par cb) s) = False" if "rd_rogo_rule_confirm par = Inr c" "confirm_ok c s"
    using end_config_run [OF that(1), of cb s] that(2) by (simp add: Let_def)
  then show ?thesis
    using assms kick_out_kicked by (auto simp: confirm_receive_check_exec Join_confirm_check_exec Let_def kick_out_exec)
qed

text \<open>
The one-second timer is never cancelled: a confirm that is rejected and then repeated correctly
is answered with success and saves the join flag, and the node is kicked out all the same as soon
as a second has passed since the rejected one.
\<close>

theorem rejected_then_accepted_kicked_out:
  fixes cb :: cb_par_t
  assumes "rd_rogo_rule_confirm par = Inr c" "\<not> confirm_ok c s"
    and "rd_rogo_rule_confirm par' = Inr c'" "confirm_ok c' s"
    and "1000 \<le> clk_ms s (n_ms s + 2) - clk_ms s (n_ms s)"
  defines "s' \<equiv> exec (end_config par' cb) (exec (end_config par cb) s)"
  shows "flash s' 0x7f000 = 0 \<and> confirmDone s' \<and> last (cmds s') = Mesh_tx 0xe1 [1] (adr_dst cb) (adr_src cb) 2 \<and>
    kicked_out (exec Join_confirm_check s')"
proof -
  obtain t where t: "t = exec (end_config par cb) s" by blast
  note A = end_config_run [OF assms(1), of cb s, folded t]
  have ok: "confirm_ok c' t" using assms(4) A by (auto simp: Let_def confirm_ok_def stored_node_def)
  note B = end_config_run [OF assms(3), of cb t]
  have "confirm_fail s'" "confirm_fail_time s' = clk_ms s (n_ms s)" "clk_ms s' = clk_ms s" "n_ms s' = n_ms s + 2"
    using A B assms(2) ok by (simp_all add: Let_def s'_def t)
  then show ?thesis using B ok assms(5) kick_out_kicked
    by (simp add: Let_def s'_def t Join_confirm_check_exec)
qed

text \<open>A node with address 3 and box address 1 stored, not joined, and a clock that jumps by two seconds.\<close>

definition demo_join :: join_st where
  "demo_join = \<lparr>analog = \<lambda>_. 0,
     flash = (\<lambda>_. 0xFF)(0x78000 := 3, 0x78001 := 0, 0x79000 := 1, 0x79001 := 0), pin_in = \<lambda>_ _. False, n_pin = 0,
     clk32k = \<lambda>_. 0, n_32k = 0, clk_ms = \<lambda>n. 2000 * of_nat n, n_ms = 0, clk_s = \<lambda>_. 0, n_s = 0,
     clk_sys = \<lambda>_. 0, n_sys = 0,
     i2c_in = \<lambda>_. [0, 0, 0], n_i2c = 0, adc_in = \<lambda>_. 1500, n_adc = 0, stays_awake = \<lambda>_. False,
     n_sleep = 0, provisioned = True, connected = False, halted = False, cmds = [],
     adr_reset_cnt_idx = 0, clear_st = 0, reset_check_time = 0,
     MotionTimeLine = 0, pinHigh = GPIO_PB4, pinLow = GPIO_PB1, pirHighState = False,
     pirLowState = False, pir_flag = 0, timeOut = 0, rd_node_addr = 3, rd_box_addr = 1, luxOld = 0,
     real_lux_new = 0, Lux_clock_time_read = 0, light_sensor_to_gw_tx_buff = replicate 6 0, confirm_fail_time = 0, confirm_fail = False,
     bind_all_flag = True, bind_time = 0, time_to_end_config = 0, confirmDone = False, endConfigTime = 0\<rparr>"

definition demo_cb :: cb_par_t where "demo_cb = \<lparr>adr_src = 1, adr_dst = 3\<rparr>"

text \<open>\<open>7 mod 4 = 3\<close>, \<open>8 mod 3 = 2\<close>, \<open>5 mod 2 = 1\<close>; and \<open>20 mod 13 = 7\<close>, \<open>11 mod 7 = 4\<close>, \<open>7 mod 4 = 3\<close>.\<close>

lemma demo_confirm:
  "rd_rogo_rule_confirm [0, 7, 0, 4, 0, 8, 0, 5] = Inr 1"
  "rd_rogo_rule_confirm [0, 20, 0, 13, 0, 11, 0, 7] = Inr 3"
  "\<not> confirm_ok 1 demo_join" "confirm_ok 3 demo_join"
  by (simp_all add: rd_rogo_rule_confirm_def rogo_par_def Let_def modulo_calculate_def mk16_def
      confirm_ok_def stored_node_def demo_join_def)

lemma end_config_outcome_witness:
  "confirmDone (exec (end_config [0, 20, 0, 13, 0, 11, 0, 7] demo_cb) demo_join)"
  using end_config_outcome [OF demo_confirm(2), of demo_cb demo_join] demo_confirm(4) by (simp add: Let_def)

lemma confirm_deadline_witness:
  "exec confirm_receive_check (exec (end_config [0, 20, 0, 13, 0, 11, 0, 7] demo_cb) demo_join) =
   exec (end_config [0, 20, 0, 13, 0, 11, 0, 7] demo_cb) demo_join"
  using confirm_deadline [of demo_join "[0, 20, 0, 13, 0, 11, 0, 7]" 3 demo_cb] demo_confirm
  by (simp add: demo_join_def)

lemma rejected_then_accepted_kicked_out_witness:
  "kicked_out (exec Join_confirm_check (exec (end_config [0, 20, 0, 13, 0, 11, 0, 7] demo_cb)
     (exec (end_config [0, 7, 0, 4, 0, 8, 0, 5] demo_cb) demo_join)))"
proof -
  have "(1000 :: u32) \<le> clk_ms demo_join (n_ms demo_join + 2) - clk_ms demo_join (n_ms demo_join)"
    by (simp add: demo_join_def)
  from rejected_then_accepted_kicked_out [OF demo_confirm(1,3,2,4) this, of demo_cb]
  show ?thesis by blast
qed

section \<open>Addresses\<close>

lemma saveAddBox_box:
  assumes "2 \<le> length par"
  shows "stored_box (exec (saveAddBox par cb) s) = mk16 (par ! 1) (par ! 0)"
proof -
  obtain a b ps where "par = a # b # ps" using assms by (cases par; cases "tl par") auto
  then show ?thesis
    by (simp add: saveAddBox_def try_bind_def arr_set_def hw_simps exec_def stored_box_def)
qed

text \<open>
\<open>saveAddBox\<close> stores the gateway address sent to it (the next start-up reads it back) but never
returns normally: it writes two elements past the end of its one-byte answer buffer, for every
message.
\<close>

theorem saveAddBox_stores_and_overruns:
  assumes "2 \<le> length par"
  shows "fst (run_state (saveAddBox par cb) s) = Inl Array_overrun \<and>
    stored_box (exec (saveAddBox par cb) s) = mk16 (par ! 1) (par ! 0) \<and>
    rd_box_addr (exec (saveAddBox par cb) s) = mk16 (par ! 1) (par ! 0)"
proof -
  obtain a b ps where "par = a # b # ps" using assms by (cases par; cases "tl par") auto
  then show ?thesis
    by (simp add: saveAddBox_def try_bind_def arr_set_def hw_simps exec_def stored_box_def)
qed

lemma saveAddBox_stores_and_overruns_witness:
  "stored_box (exec (saveAddBox [5, 1] demo_cb) demo_join) = 0x0105"
  using saveAddBox_stores_and_overruns [of "[5, 1]" demo_cb demo_join] by (simp add: mk16_def)

text \<open>
The addresses survive a restart: after the bind message stored the node's own address and
the gateway's message its address, \<open>flash_init\<close> run by a provisioned device on the same flash
restores both, provided the stack's own bind handler leaves these two sectors alone.
\<close>

theorem addresses_survive_restart:
  assumes "2 \<le> length par" "2 \<le> length par'"
    and "\<And>t. stored_node (exec (lib_bind par cb) t) = stored_node t"
    and "flash r = flash (exec (saveAddBox par' cb') (exec (RD_mesh_cmd_sig_cfg_bind lib_bind par cb) s))"
    and "provisioned r"
  shows "rd_node_addr (exec flash_init r) = mk16 (par ! 1) (par ! 0) \<and>
    rd_box_addr (exec flash_init r) = mk16 (par' ! 1) (par' ! 0)"
proof -
  obtain a b ps where par: "par = a # b # ps" using assms(1) by (cases par; cases "tl par") auto
  obtain t where t: "t = exec (RD_mesh_cmd_sig_cfg_bind lib_bind par cb) s" by blast
  have "fst (run_state (bind_store par) s) = Inr ()" "stored_node (exec (bind_store par) s) = mk16 b a"
    by (simp_all add: bind_store_def par hw_simps exec_def stored_node_def)
  then have node: "stored_node t = mk16 b a"
    using assms(3) by (simp add: t RD_mesh_cmd_sig_cfg_bind_def try_bind_def try_ok_def exec_bind)
  have "stored_node (exec (saveAddBox par' cb') t) = stored_node t"
    using assms(2) by (simp add: saveAddBox_def try_bind_def arr_set_def hw_simps exec_def stored_node_def)
  then have "stored_node r = mk16 b a"
    using node assms(4) t by (simp add: stored_node_def)
  moreover have "stored_box r = mk16 (par' ! 1) (par' ! 0)"
    using saveAddBox_box [OF assms(2), of cb' t] assms(4) t by (simp add: stored_box_def)
  ultimately show ?thesis using assms(5)
    by (simp add: flash_init_def is_provision_success_def exec_def stored_node_def stored_box_def par)
qed

lemma addresses_survive_restart_witness:
  "rd_box_addr (exec flash_init (exec (saveAddBox [1, 0] demo_cb)
     (exec (RD_mesh_cmd_sig_cfg_bind (\<lambda>_ _. ret 0) [3, 0] demo_cb) demo_join))) = 1"
proof -
  let ?r = "exec (saveAddBox [1, 0] demo_cb) (exec (RD_mesh_cmd_sig_cfg_bind (\<lambda>_ _. ret 0) [3, 0] demo_cb) demo_join)"
  have "provisioned ?r"
    by (simp add: RD_mesh_cmd_sig_cfg_bind_def bind_store_def try_bind_def try_ok_def saveAddBox_def
        arr_set_def hw_simps exec_def demo_join_def)
  then have "rd_box_addr (exec flash_init ?r) = mk16 ([1, 0] ! 1) ([1, 0] ! 0)"
    by (intro addresses_survive_restart [of "[3, 0]" "[1, 0]" "\<lambda>_ _. ret 0" demo_cb, THEN conjunct2]) simp_all
  then show ?thesis by (simp add: mk16_def)
qed

end
