(* ===== verification/MainLoop.thy ===== *)
theory MainLoop
  imports Join
begin

text \<open>
  \<open>main_loop\<close> of \<open>vendor/mesh/app.c\<close>, one round of the node's work: the link layer and mesh stack of
  the SDK library, in which messages are received and the handlers of the application run, and
  between them the button scan, the indicator of \<open>vendor/common/light.c\<close> and the check of the
  power-cycle gesture. The library's entry points and the PWM output of the light model are the
  fields of a record of arguments, \<open>mesh_stack\<close>.
\<close>

section \<open>State and arguments\<close>

text \<open>The static variables of \<open>main_loop\<close>, \<open>proc_ui\<close> and \<open>proc_led\<close>.\<close>

record main_st = join_st +
  tick_loop :: u32
  ui_tick :: u32
  led_event_pending :: u32
  led_count :: int
  led_ton :: u32
  led_toff :: u32
  led_sel :: int
  led_tick :: u32
  led_no :: int
  led_is_on :: bool

record 's mesh_stack =
  mesh_loop_proc_prior :: "('s, unit) state"
  blt_sdk_main_loop :: "('s, unit) state"
  mesh_loop_process :: "('s, unit) state"
  light_dim_set_hw :: "nat \<Rightarrow> nat \<Rightarrow> u16 \<Rightarrow> ('s, unit) state"
  light_dim_refresh_all :: "('s, unit) state"

text \<open>
  Sequencing of parts that may stop the chip or run into undefined behaviour (the result \<open>False\<close>):
  then what follows is not executed.
\<close>

definition then_alive :: "('a hw_scheme, bool) state \<Rightarrow> ('a hw_scheme, bool) state \<Rightarrow> ('a hw_scheme, bool) state" where
  "then_alive a b = do { ok \<leftarrow> a; h \<leftarrow> gets halted; if ok \<and> \<not> h then b else ret ok }"

definition as_ok :: "('s, unit) state \<Rightarrow> ('s, bool) state" where
  "as_ok m = do { m; ret True }"

text \<open>A run of \<open>m\<close> ends without undefined behaviour and with the chip running.\<close>

definition goes_on :: "('a hw_scheme, bool) state \<Rightarrow> 'a hw_scheme \<Rightarrow> bool" where
  "goes_on m s \<longleftrightarrow> fst (run_state m s) \<and> \<not> halted (exec m s)"

lemma run_then_alive:
  "run_state (then_alive a b) s = (if goes_on a s then run_state b (exec a s) else run_state a s)"
  by (simp add: then_alive_def goes_on_def exec_def split_beta prod_eq_iff)

lemma exec_then_alive: "exec (then_alive a b) s = (if goes_on a s then exec b (exec a s) else exec a s)"
  by (simp add: exec_def run_then_alive)

lemma exec_as_ok [simp]: "exec (as_ok m) s = exec m s"
  by (simp add: as_ok_def exec_bind)

section \<open>Button scan and indicator\<close>

text \<open>The bodies of the button scan are disabled with \<open>#if 0\<close>; \<open>scan_io_interval_us\<close> is never changed.\<close>

definition proc_ui :: "('a main_st_scheme, unit) state" where
  "proc_ui = do {
     t0 \<leftarrow> gets ui_tick;
     e \<leftarrow> clock_time_exceed t0 40000;
     when_do e (do {
       t \<leftarrow> clock_time;
       modify (\<lambda>s. s\<lparr>ui_tick := t\<rparr>) }) }"

definition cfg_led_event :: "u32 \<Rightarrow> ('a main_st_scheme, unit) state" where
  "cfg_led_event e = modify (\<lambda>s. s\<lparr>led_event_pending := e\<rparr>)"

definition cfg_led_event_stop :: "('a main_st_scheme, unit) state" where
  "cfg_led_event_stop = modify (\<lambda>s. s\<lparr>led_event_pending := 0, led_count := 0\<rparr>)"

definition is_led_busy :: "('a main_st_scheme, bool) state" where
  "is_led_busy = gets (\<lambda>s. \<not> (led_count s = 0 \<and> led_event_pending s = 0))"

text \<open>\<open>GPIO_LED\<close> is \<open>PWM_R\<close>, and \<open>LED_INDICATE_VAL\<close> the last entry of \<open>rgb_lumen_map\<close>.\<close>

definition GPIO_LED_INDEX :: nat where "GPIO_LED_INDEX = 0"
definition LED_INDICATE_VAL :: u16 where "LED_INDICATE_VAL = 255 * 256"

text \<open>Taking over a pending event: on time, off time, count and selection are one byte each.\<close>

definition led_new_event :: "('a main_st_scheme, unit) state" where
  "led_new_event = do {
     e \<leftarrow> gets led_event_pending;
     modify (\<lambda>s. s\<lparr>led_ton := (e AND 0xff) * 64000 * 16,
       led_toff := (drop_bit 8 e AND 0xff) * 64000 * 16,
       led_count := uint (drop_bit 16 e AND 0xff),
       led_sel := uint (drop_bit 24 e),
       led_event_pending := 0\<rparr>);
     t \<leftarrow> clock_time;
     modify (\<lambda>s. s\<lparr>led_tick := t + 30000000 * 16, led_no := 0, led_is_on := False\<rparr>) }"

definition led_show :: "'a main_st_scheme mesh_stack \<Rightarrow> bool \<Rightarrow> bool \<Rightarrow> ('a main_st_scheme, unit) state" where
  "led_show stk led_off led_on = do {
     sel \<leftarrow> gets led_sel;
     when_do ((led_off \<or> led_on) \<and> odd sel)
       (light_dim_set_hw stk GPIO_LED_INDEX 0 (if led_on then LED_INDICATE_VAL else 0)) }"

definition led_toggle :: "'a main_st_scheme mesh_stack \<Rightarrow> ('a main_st_scheme, unit) state" where
  "led_toggle stk = do {
     t \<leftarrow> clock_time;
     modify (\<lambda>s. s\<lparr>led_tick := t\<rparr>);
     is_on \<leftarrow> gets led_is_on;
     ton \<leftarrow> gets led_ton;
     toff \<leftarrow> gets led_toff;
     let led_off = ((is_on \<or> ton = 0) \<and> toff \<noteq> 0);
     let led_on = (\<not> is_on \<and> ton \<noteq> 0);
     modify (\<lambda>s. s\<lparr>led_is_on := \<not> is_on\<rparr>);
     if is_on then led_show stk led_off led_on
     else do {
       modify (\<lambda>s. s\<lparr>led_no := led_no s + 1\<rparr>);
       n \<leftarrow> gets led_no;
       c \<leftarrow> gets led_count;
       if n - 1 = c then do {
         modify (\<lambda>s. s\<lparr>led_count := 0, led_no := 0\<rparr>);
         light_dim_refresh_all stk }
       else led_show stk led_off led_on } }"

text \<open>\<open>p_vendor_proc_led\<close> is a null pointer: nothing in the repository sets it.\<close>

definition proc_led :: "'a main_st_scheme mesh_stack \<Rightarrow> ('a main_st_scheme, unit) state" where
  "proc_led stk = do {
     busy \<leftarrow> is_led_busy;
     when_do busy (do {
       e \<leftarrow> gets led_event_pending;
       when_do (e \<noteq> 0) led_new_event;
       t \<leftarrow> clock_time;
       t0 \<leftarrow> gets led_tick;
       wait \<leftarrow> gets (\<lambda>s. if led_is_on s then led_ton s else led_toff s);
       when_do (wait \<le> t - t0) (led_toggle stk) }) }"

section \<open>The main loop\<close>

text \<open>
  In this build the software timer, the dual-mode, 10 ms, indication, Xiaomi and ADC parts of
  \<open>main_loop\<close> are compiled out.
\<close>

definition main_loop :: "'a main_st_scheme mesh_stack \<Rightarrow> ('a main_st_scheme, bool) state" where
  "main_loop stk =
     then_alive (as_ok (do {
       modify (\<lambda>s. s\<lparr>tick_loop := tick_loop s + 1\<rparr>);
       mesh_loop_proc_prior stk }))
    (then_alive (as_ok (blt_sdk_main_loop stk))
    (then_alive (as_ok (do { proc_ui; proc_led stk }))
    (then_alive factory_reset_cnt_check
     (as_ok (mesh_loop_process stk)))))"

primrec main_loops :: "'a main_st_scheme mesh_stack \<Rightarrow> nat \<Rightarrow> ('a main_st_scheme, bool) state" where
  "main_loops stk 0 = ret True"
| "main_loops stk (Suc n) = then_alive (main_loop stk) (main_loops stk n)"

section \<open>What a round of the main loop leaves alone\<close>

text \<open>The sensor's own reports are the messages with the opcode \<open>RD_OPODE_SEND_DATA\<close>.\<close>

definition RD_OPODE_SEND_DATA :: u16 where "RD_OPODE_SEND_DATA = 0xE5"

definition is_report :: "hw_cmd \<Rightarrow> bool" where
  "is_report c \<longleftrightarrow> (case c of Mesh_tx op par src dst n \<Rightarrow> op = RD_OPODE_SEND_DATA | _ \<Rightarrow> False)"

lemma is_report_simps [simp]:
  "is_report (Mesh_tx op par src dst n) \<longleftrightarrow> op = 0xE5"
  "\<not> is_report (Gpio_as_gpio p)" "\<not> is_report (Gpio_output_en p b)" "\<not> is_report (Gpio_input_en p b)"
  "\<not> is_report (Gpio_write p b)" "\<not> is_report (Gpio_pull p q)" "\<not> is_report (Print f xs)"
  "\<not> is_report (Adc_init p)" "\<not> is_report Irq_disable" "\<not> is_report Irq_restore" "\<not> is_report (Sleep_us t)"
  "\<not> is_report (Flash_erase a)" "\<not> is_report (Flash_write a bs)" "\<not> is_report Reboot" "\<not> is_report (Ble_terminate r)"
  "\<not> is_report Wd_clear"
  by (simp_all add: is_report_def RD_OPODE_SEND_DATA_def)

definition reports :: "'a hw_scheme \<Rightarrow> hw_cmd list" where
  "reports s = filter is_report (cmds s)"

definition report_obs :: "'a lux_st_scheme \<Rightarrow> u32 \<times> hw_cmd list" where
  "report_obs s = (luxOld s, reports s)"

text \<open>The entry points of the stack as one list of programs.\<close>

definition stack_calls :: "'s mesh_stack \<Rightarrow> ('s, unit) state set" where
  "stack_calls stk = {mesh_loop_proc_prior stk, blt_sdk_main_loop stk, mesh_loop_process stk,
     light_dim_refresh_all stk} \<union> {light_dim_set_hw stk i j v | i j v. True}"

definition no_reports :: "'a main_st_scheme mesh_stack \<Rightarrow> bool" where
  "no_reports stk \<longleftrightarrow> (\<forall>f \<in> stack_calls stk. keeps (same report_obs) f)"

lemma no_reportsD:
  assumes "no_reports stk"
  shows "keeps (same report_obs) (mesh_loop_proc_prior stk)" "keeps (same report_obs) (blt_sdk_main_loop stk)"
    "keeps (same report_obs) (mesh_loop_process stk)" "keeps (same report_obs) (light_dim_refresh_all stk)"
    "keeps (same report_obs) (light_dim_set_hw stk i j v)"
  using assms by (auto simp: no_reports_def stack_calls_def)

lemma keeps_then_alive:
  "reflp R \<Longrightarrow> transp R \<Longrightarrow> keeps R a \<Longrightarrow> keeps R b \<Longrightarrow> keeps R (then_alive a b)"
  unfolding then_alive_def by (intro keeps_bind keeps_gets keeps_if keeps_ret)

lemma keeps_as_ok: "keeps R m \<Longrightarrow> keeps R (as_ok m)"
  by (simp add: keeps_def)

lemma obs_prims:
  "keeps (same report_obs) clock_time"
  "\<not> is_report c \<Longrightarrow> keeps (same report_obs) (emit c)"
  "keeps (same report_obs) (flash_erase_sector a)" "keeps (same report_obs) (flash_write_page a bs)"
  "keeps (same report_obs) start_reboot" "keeps (same report_obs) (clock_time_exceed x y)"
  "keeps (same report_obs) clock_time_ms" "keeps (same report_obs) clock_time_s"
  "keeps (same report_obs) (rd_flash_read_data b)"
  by (simp_all add: keeps_def same_def report_obs_def reports_def hw_simps exec_def clock_time_exceed_def
      rd_flash_read_data_def)

lemma obs_modify: "(\<And>s. report_obs (f s) = report_obs s) \<Longrightarrow> keeps (same report_obs) (modify f)"
  by (simp add: keeps_def same_def)

lemmas obs_rules = keeps_same_rules(1-5) obs_prims keeps_then_alive [OF reflp_same transp_same] keeps_as_ok

lemma keeps_do_all: "reflp R \<Longrightarrow> transp R \<Longrightarrow> (\<And>m. m \<in> set ms \<Longrightarrow> keeps R m) \<Longrightarrow> keeps R (do_all ms)"
  by (induction ms) (auto intro: keeps_bind keeps_ret)

lemma report_obs_frst [simp]:
  "report_obs (s\<lparr>adr_reset_cnt_idx := i\<rparr>) = report_obs s" "report_obs (s\<lparr>clear_st := c\<rparr>) = report_obs s"
  "report_obs (s\<lparr>reset_check_time := t\<rparr>) = report_obs s"
  by (simp_all add: report_obs_def reports_def)

text \<open>The power-cycle gesture, the indicator and the button scan.\<close>

lemma obs_led:
  "keeps (same report_obs) (led_level ps b)" "keeps (same report_obs) (led_blink ps n us)"
  "keeps (same report_obs) (led_output p)"
proof -
  show l: "keeps (same report_obs) (led_level ps b)" for ps b
    unfolding led_level_def by (auto intro!: keeps_do_all obs_rules)
  show "keeps (same report_obs) (led_blink ps n us)"
    by (induction n) (auto intro!: obs_rules l)
  show "keeps (same report_obs) (led_output p)"
    unfolding led_output_def by (intro obs_rules) simp_all
qed

lemma obs_show:
  "keeps (same report_obs) (show_ota_result r)" "keeps (same report_obs) show_factory_reset"
  unfolding show_ota_result_def show_factory_reset_def light_ev_with_sleep_def RD_light_ev_with_sleep_def
  by (auto intro!: obs_rules obs_led)

lemma obs_factory_reset: "keeps (same report_obs) factory_reset"
  unfolding factory_reset_def erase_area_def by (auto intro!: keeps_do_all obs_rules)

lemma obs_kick_out: "keeps (same report_obs) kick_out"
  unfolding kick_out_def by (intro obs_rules obs_show obs_factory_reset) simp_all

lemma obs_count:
  "keeps (same report_obs) (write_reset_cnt c)" "keeps (same report_obs) clear_reset_cnt"
  "keeps (same report_obs) increase_reset_cnt" "keeps (same report_obs) (get_idx_loop n)"
proof -
  show w: "keeps (same report_obs) (write_reset_cnt c)" for c
    unfolding write_reset_cnt_def reset_cnt_clean_def by (intro obs_rules obs_modify) simp_all
  then show cl: "keeps (same report_obs) clear_reset_cnt" by (simp add: clear_reset_cnt_def)
  show "keeps (same report_obs) increase_reset_cnt"
    unfolding increase_reset_cnt_def get_reset_cnt_def by (intro obs_rules w cl obs_modify) simp_all
  show "keeps (same report_obs) (get_idx_loop n)"
    by (induction n) (auto intro!: obs_rules obs_modify cl)
qed

lemma obs_handle: "keeps (same report_obs) factory_reset_handle"
  unfolding factory_reset_handle_def reset_cnt_get_idx_def get_reset_cnt_def
  by (intro obs_rules obs_modify obs_count obs_factory_reset obs_show) simp_all

lemma obs_load: "keeps (same report_obs) load_check_time" "keeps (same report_obs) dec_clear_st"
  unfolding load_check_time_def get_reset_cnt_def dec_clear_st_def
  by (auto intro!: obs_rules obs_modify split: option.splits)

lemma obs_check: "keeps (same report_obs) factory_reset_cnt_check"
proof -
  have cl: "keeps (same report_obs) check_closing"
    unfolding check_closing_def by (intro obs_rules obs_modify obs_count) simp_all
  have co: "keeps (same report_obs) check_counting"
    unfolding check_counting_def by (intro obs_rules obs_load obs_count cl)
  have lo: "keeps (same report_obs) check_loading"
    unfolding check_loading_def by (intro obs_rules obs_load co)
  show ?thesis
    unfolding factory_reset_cnt_check_def by (intro obs_rules obs_load obs_handle lo)
qed

lemma obs_ui: "keeps (same report_obs) proc_ui"
  unfolding proc_ui_def by (intro obs_rules obs_modify) (simp add: report_obs_def reports_def)

lemma obs_proc_led:
  assumes "no_reports stk"
  shows "keeps (same report_obs) (proc_led stk)"
proof -
  have sh: "keeps (same report_obs) (led_show stk x y)" for x y
    unfolding led_show_def by (intro obs_rules no_reportsD [OF assms])
  have tg: "keeps (same report_obs) (led_toggle stk)"
    unfolding led_toggle_def Let_def
    by (intro obs_rules obs_modify sh no_reportsD [OF assms]) (simp_all add: report_obs_def reports_def)
  have "keeps (same report_obs) led_new_event"
    unfolding led_new_event_def by (intro obs_rules obs_modify) (simp_all add: report_obs_def reports_def)
  then show ?thesis
    unfolding proc_led_def is_led_busy_def by (intro obs_rules tg)
qed

text \<open>A round of the main loop sends no report and leaves the light level alone if the stack does.\<close>

lemma obs_main_loop:
  assumes "no_reports stk"
  shows "keeps (same report_obs) (main_loop stk)"
  unfolding main_loop_def
  by (intro obs_rules obs_modify no_reportsD [OF assms] obs_ui obs_proc_led [OF assms] obs_check)
    (simp add: report_obs_def reports_def)

lemma obs_main_loops:
  assumes "no_reports stk"
  shows "keeps (same report_obs) (main_loops stk n)"
  by (induction n) (auto intro!: obs_rules obs_main_loop [OF assms])

text \<open>The message handlers of the application, which the stack runs, answer but do not report.\<close>

lemma keeps_try_bind:
  assumes "keeps (same report_obs) m" "\<And>x. keeps (same report_obs) (f x)"
  shows "keeps (same report_obs) (try_bind m f)"
  unfolding try_bind_def using assms by (auto intro!: obs_rules split: sum.splits)

lemma obs_handlers:
  "keeps (same report_obs) (end_config par cb)"
  "keeps (same report_obs) (RD_Messenger_Process_Type_Device par cb)"
  "keeps (same report_obs) (RD_Messenger_Process_Null_1 par cb)"
  "keeps (same report_obs) (bind_store par)"
proof -
  have sv: "keeps (same report_obs) (saveAddBox par cb)"
    unfolding saveAddBox_def mesh_tx_cmd2normal_def try_ok_def
    by (intro obs_rules obs_modify keeps_try_bind) (simp_all add: report_obs_def reports_def)
  then show "keeps (same report_obs) (RD_Messenger_Process_Type_Device par cb)"
    unfolding RD_Messenger_Process_Type_Device_def by (intro keeps_try_bind obs_rules)
  show "keeps (same report_obs) (RD_Messenger_Process_Null_1 par cb)"
    unfolding RD_Messenger_Process_Null_1_def by (rule obs_rules)
  show "keeps (same report_obs) (bind_store par)"
    unfolding bind_store_def by (intro obs_rules obs_modify) (simp_all add: report_obs_def reports_def)
  show "keeps (same report_obs) (end_config par cb)"
    unfolding end_config_def mesh_tx_cmd2normal_def
    by (auto intro!: obs_rules obs_modify simp: report_obs_def reports_def split: sum.splits)
qed

end
