(* ===== verification/Control.thy ===== *)
theory Control
  imports MainLoop SoftUart
begin

text \<open>
  The life of the sensor between two deep sleeps, \<open>vendor/Rang_Dong/RD_control.c\<close> and the \<open>main\<close> of
  \<open>vendor/mesh/main.c\<close>: reading the button and the comparators at wake-up, the long press that
  resets the node, deciding whether there is anything to report, reporting, and going back to
  sleep. The main loop is the one of \<open>MainLoop\<close>, on the stack given as argument; \<open>user_init\<close>, the
  initialisation of the stack, is an argument too.
\<close>

section \<open>State\<close>

record ctrl_st = main_st +
  btn_cnt :: u32
  btn_status :: u8
  resetFlag :: bool
  btn_flag_old :: u8
  btn_flag_new :: u8
  check_prov_status_old :: bool
  pirTime :: u32
  otaFlag :: bool
  otaTime :: u32
  otaModeCnt :: u8
  loop_cnt :: u32
  effect_cycle :: u32
  sleepUnprov :: u32
  sendLuxFlag :: bool

definition BUTTON_PIN :: pin where "BUTTON_PIN = GPIO_PD4"
definition LED_RED_PIN :: pin where "LED_RED_PIN = GPIO_PB6"
definition LED_BLUE_PIN :: pin where "LED_BLUE_PIN = GPIO_PB5"

lemmas ctrl_pins = BUTTON_PIN_def LED_RED_PIN_def LED_BLUE_PIN_def PIR_DC_HIGH_def PIR_DC_LOW_def

section \<open>Pins\<close>

text \<open>\<open>gpio_read\<close> returns the bit of the pin in its port; for the button pin that is 0x10.\<close>

definition btn_read :: "('a hw_scheme, u8) state" where
  "btn_read = do { v \<leftarrow> gpio_read BUTTON_PIN; ret (if v then 0x10 else 0) }"

definition btn_detect :: "u8 \<Rightarrow> ('a ctrl_st_scheme, u8) state" where
  "btn_detect btn_threshold = do {
     v \<leftarrow> gpio_read BUTTON_PIN;
     (if \<not> v then do {
        modify (\<lambda>s. s\<lparr>btn_cnt := btn_cnt s + 1\<rparr>);
        c \<leftarrow> gets btn_cnt;
        when_do (ucast btn_threshold < c) (modify (\<lambda>s. s\<lparr>btn_status := 0\<rparr>)) }
      else modify (\<lambda>s. s\<lparr>btn_cnt := 0, btn_status := 1\<rparr>));
     gets btn_status }"

definition led_init :: "('a hw_scheme, unit) state" where
  "led_init = do {
     led_output LED_RED_PIN;
     emit (Gpio_write LED_RED_PIN True);
     led_output LED_BLUE_PIN;
     emit (Gpio_write LED_BLUE_PIN False) }"

definition ledTestInit :: "('a hw_scheme, unit) state" where
  "ledTestInit = do {
     led_output LED_RED_PIN;
     emit (Gpio_write LED_RED_PIN True);
     led_output LED_BLUE_PIN;
     emit (Gpio_write LED_BLUE_PIN False) }"

definition ledShowProvState :: "('a hw_scheme, unit) state" where
  "ledShowProvState = do {
     p \<leftarrow> is_provision_success;
     if p then do {
       emit (Gpio_write LED_RED_PIN True);
       emit (Gpio_write LED_BLUE_PIN False) }
     else do {
       emit (Gpio_write LED_RED_PIN False);
       emit (Gpio_write LED_BLUE_PIN True) } }"

definition btn_init :: "('a hw_scheme, unit) state" where
  "btn_init = do {
     emit (Gpio_as_gpio BUTTON_PIN);
     emit (Gpio_output_en BUTTON_PIN False);
     emit (Gpio_input_en BUTTON_PIN True);
     emit (Gpio_pull BUTTON_PIN PM_PIN_PULLUP_10K) }"

definition pirInit :: "('a hw_scheme, unit) state" where
  "pirInit = do {
     emit (Gpio_input_en PIR_DC_HIGH True);
     emit (Gpio_pull PIR_DC_HIGH PM_PIN_UP_DOWN_FLOAT);
     emit (Gpio_input_en PIR_DC_LOW True);
     emit (Gpio_pull PIR_DC_LOW PM_PIN_UP_DOWN_FLOAT);
     emit (Gpio_input_en BUTTON_PIN True);
     emit (Gpio_pull BUTTON_PIN PM_PIN_UP_DOWN_FLOAT) }"

definition flash_addr_power :: nat where "flash_addr_power = 0x7f000"

definition flash_test_data :: "nat \<Rightarrow> u32 \<Rightarrow> ('a hw_scheme, unit) state" where
  "flash_test_data adr data = do {
     flash_erase_sector adr;
     flash_write_page flash_addr_power [ucast (drop_bit 16 data), ucast (drop_bit 8 data), ucast data, 0] }"

text \<open>The result is the new value of \<open>*flag\<close>.\<close>

definition led_show_provision_success :: "u8 \<Rightarrow> u32 \<Rightarrow> bool \<Rightarrow> ('a ctrl_st_scheme, bool) state" where
  "led_show_provision_success cycle cnt flag =
     (if \<not> flag then ret flag
      else do {
        e \<leftarrow> gets effect_cycle;
        if e < ucast cycle then do {
          modify (\<lambda>s. s\<lparr>loop_cnt := loop_cnt s + 1\<rparr>);
          l \<leftarrow> gets loop_cnt;
          (if l < cnt then do {
             emit (Gpio_write LED_BLUE_PIN False);
             emit (Gpio_write LED_RED_PIN False) }
           else if l < cnt then do {
             emit (Gpio_write LED_BLUE_PIN False);
             emit (Gpio_write LED_RED_PIN False) }
           else modify (\<lambda>s. s\<lparr>effect_cycle := effect_cycle s + 1, loop_cnt := 0\<rparr>));
          ret flag }
        else ret False })"

definition rd_get_provision_state :: "('a ctrl_st_scheme, unit) state" where
  "rd_get_provision_state = do {
     p \<leftarrow> is_provision_success;
     old \<leftarrow> gets check_prov_status_old;
     when_do (old \<noteq> p) (do {
       modify (\<lambda>s. s\<lparr>check_prov_status_old := p\<rparr>);
       RD_light_prov_success_with_sleep 5 200000 }) }"

section \<open>Long press\<close>

definition otaDetect :: "('a ctrl_st_scheme, bool) state" where
  "otaDetect = do {
     emit (Sleep_us 100000);
     modify (\<lambda>s. s\<lparr>otaModeCnt := otaModeCnt s + 1\<rparr>);
     c \<leftarrow> gets otaModeCnt;
     ret (50 < c) }"

definition otaConcol :: "('a ctrl_st_scheme, unit) state" where
  "otaConcol = do {
     f \<leftarrow> gets otaFlag;
     when_do f (do {
       t \<leftarrow> clock_time_ms;
       t0 \<leftarrow> gets otaTime;
       when_do (120000 \<le> t - t0) (modify (\<lambda>s. s\<lparr>otaFlag := False\<rparr>)) }) }"

text \<open>
  \<open>while(!gpio_read(BUTTON_PIN))\<close>: \<open>kick_out\<close> reboots, which ends the loop. The first argument
  bounds the iterations; the result \<open>False\<close> means that it was reached.
\<close>

fun hold_loop :: "nat \<Rightarrow> ('a ctrl_st_scheme, bool) state" where
  "hold_loop 0 = ret False"
| "hold_loop (Suc n) = do {
     v \<leftarrow> gpio_read BUTTON_PIN;
     if v then ret True
     else do {
       emit Wd_clear;
       long \<leftarrow> otaDetect;
       when_do long kick_out;
       h \<leftarrow> gets halted;
       if h then ret True else hold_loop n } }"

definition press_start :: "u8 \<Rightarrow> ('a ctrl_st_scheme, unit) state" where
  "press_start joinState = do {
     led_output LED_RED_PIN;
     led_output LED_BLUE_PIN;
     (if joinState = 0 then do {
        emit (Gpio_write LED_BLUE_PIN False);
        emit (Gpio_write LED_RED_PIN True) }
      else do {
        emit (Gpio_write LED_BLUE_PIN True);
        emit (Gpio_write LED_RED_PIN False) });
     stamp;
     save_timeout;
     modify (\<lambda>s. s\<lparr>resetFlag := True\<rparr>);
     emit (Sleep_us 10000) }"

definition press_end :: "('a ctrl_st_scheme, unit) state" where
  "press_end = do {
     emit (Gpio_wakeup PIR_DC_HIGH True False);
     emit (Gpio_wakeup PIR_DC_LOW True False);
     emit (Gpio_wakeup BUTTON_PIN False True);
     emit (Gpio_pull BUTTON_PIN PM_PIN_PULLUP_1M);
     emit (Gpio_core_wakeup True) }"

definition rd_factory_reset :: "nat \<Rightarrow> u32 \<Rightarrow> u8 \<Rightarrow> u8 \<Rightarrow> ('a ctrl_st_scheme, bool) state" where
  "rd_factory_reset fuel cnt btnState joinState = do {
     modify (\<lambda>s. s\<lparr>btn_flag_new := btnState\<rparr>);
     old \<leftarrow> gets btn_flag_old;
     if old = btnState then ret True
     else do {
       modify (\<lambda>s. s\<lparr>btn_flag_old := btnState\<rparr>);
       if btnState = 0 then do {
         press_start joinState;
         ok \<leftarrow> hold_loop fuel;
         h \<leftarrow> gets halted;
         when_do (\<not> h) press_end;
         ret ok }
       else do {
         emit (Gpio_write LED_RED_PIN True);
         emit (Gpio_write LED_BLUE_PIN True);
         ret True } } }"

section \<open>Going to sleep\<close>

definition deepsleep_ms :: "u32 \<Rightarrow> ('a hw_scheme, unit) state" where
  "deepsleep_ms ms = do { t \<leftarrow> clock_time; cpu_deepsleep Wakeup_timer_pad (t + ms * 16000) }"

text \<open>The sleep time by the configured motion time: the four branches both sleep functions share.\<close>

definition sleep_by_pirTime :: "('a ctrl_st_scheme, unit) state" where
  "sleep_by_pirTime = do {
     p \<leftarrow> gets pirTime;
     if p div 60 < 1 then deepsleep_ms 10000
     else if p div 60 < 2 then deepsleep_ms 30000
     else if p div 60 < 3 then deepsleep_ms 60000
     else deepsleep_ms 120000 }"

text \<open>Both comparator pins wake the chip, except one that is high already.\<close>

definition pir_wakeup :: "('a hw_scheme, unit) state" where
  "pir_wakeup = do {
     emit (Gpio_wakeup PIR_DC_HIGH True True);
     emit (Gpio_wakeup PIR_DC_LOW True True);
     hi \<leftarrow> gpio_read PIR_DC_HIGH;
     when_do hi (emit (Gpio_wakeup PIR_DC_HIGH True False));
     lo \<leftarrow> gpio_read PIR_DC_LOW;
     when_do lo (emit (Gpio_wakeup PIR_DC_LOW True False)) }"

definition btn_wakeup :: "('a hw_scheme, unit) state" where
  "btn_wakeup = do {
     emit (Gpio_wakeup BUTTON_PIN False True);
     emit (Gpio_pull BUTTON_PIN PM_PIN_PULLUP_1M);
     emit (Gpio_core_wakeup True) }"

definition sleepBeforSend :: "bool \<Rightarrow> bool \<Rightarrow> bool \<Rightarrow> ('a ctrl_st_scheme, unit) state" where
  "sleepBeforSend mFlag mFlagOld luxFlag =
     when_do (mFlagOld = mFlag \<and> \<not> luxFlag) (do {
       rdPrintf ''sl_1'' [];
       pir_wakeup;
       btn_wakeup;
       if mFlag then sleep_by_pirTime else deepsleep_ms 120000 })"

definition sync_old_flag :: "('a pir_st_scheme, unit) state" where
  "sync_old_flag = do { d \<leftarrow> gets pir_flag; put_pir_flag 6 (motionFlag d) }"

text \<open>The flag half of \<open>sleepAfterSend\<close>.\<close>

definition settle_flags :: "('a ctrl_st_scheme, unit) state" where
  "settle_flags = do {
     d \<leftarrow> gets pir_flag;
     (if motionOneTime d then do {
        put_pir_flag 5 False;
        put_pir_flag 4 False;
        put_pir_flag 3 False;
        d1 \<leftarrow> gets pir_flag;
        when_do (motionFlagOld d1 \<noteq> motionFlag d1) sync_old_flag;
        save_flags;
        motion_restart }
      else pir_wakeup);
     d2 \<leftarrow> gets pir_flag;
     when_do (motionFlagOld d2 \<noteq> motionFlag d2) (do { sync_old_flag; save_flags }) }"

definition sleepAfterSend :: "('a ctrl_st_scheme, unit) state" where
  "sleepAfterSend = do {
     settle_flags;
     btn_wakeup;
     rdPrintf ''sl_2'' [];
     sleep_by_pirTime }"

definition sleepMode :: "('a hw_scheme, unit) state" where
  "sleepMode = do {
     btn_wakeup;
     t \<leftarrow> clock_time;
     cpu_deepsleep Wakeup_pad (t + 5000 * 16000) }"

section \<open>Reporting\<close>

text \<open>
  \<open>powerPercent\<close> is an \<open>unsigned char\<close>, so the percentage is cut to 8 bits before it is limited to
  100; \<open>None\<close> is the undefined conversion of \<open>RD_power_read\<close>.
\<close>

definition power_report :: "u8 \<Rightarrow> u8 \<Rightarrow> ('a hw_scheme, u8) state" where
  "power_report powerSave powerPercent =
     (if powerPercent < powerSave \<and> 5 \<le> unat powerSave - unat powerPercent then do {
        setPowerSaveReg powerPercent;
        ret powerPercent }
      else if powerSave < powerPercent \<and> 5 \<le> unat powerPercent - unat powerSave then do {
        let p = (if 100 < powerPercent then 100 else powerPercent);
        setPowerSaveReg p;
        ret p }
      else ret powerSave)"

definition powerUpdate :: "('a hw_scheme, u8 option) state" where
  "powerUpdate = do {
     p \<leftarrow> RD_power_read;
     powerSave \<leftarrow> getPowerSaveReg;
     (case p of None \<Rightarrow> ret None
      | Some v \<Rightarrow> do { r \<leftarrow> power_report powerSave (ucast v); ret (Some r) }) }"

definition pirSendData :: "u8 \<Rightarrow> u8 \<Rightarrow> ('a lux_st_scheme, unit) state" where
  "pirSendData motionSendState pwr = do {
     src \<leftarrow> gets rd_node_addr;
     dst \<leftarrow> gets rd_box_addr;
     mesh_tx_cmd2normal 0xe5 [0x0c, motionSendState, pwr] src dst 2 }"

text \<open>
  Reporting, with the main loop run before each message and eighty times after it, so that the stack
  can send it. The result \<open>False\<close> is undefined behaviour: the conversion of the battery reading, or
  the table read of the power-cycle check in the main loop.
\<close>

definition to_motion :: "'a ctrl_st_scheme mesh_stack \<Rightarrow> bool \<Rightarrow> bool \<Rightarrow> ('a ctrl_st_scheme, bool) state" where
  "to_motion stk pirMotionFlag pirMotionFlagOld = do {
     rdPrintf ''M: %d - %d'' [of_bool pirMotionFlag, of_bool pirMotionFlagOld];
     led_init;
     main_loop stk }"

definition report_motion ::
  "'a ctrl_st_scheme mesh_stack \<Rightarrow> bool \<Rightarrow> bool \<Rightarrow> u8 \<Rightarrow> ('a ctrl_st_scheme, bool) state" where
  "report_motion stk pirMotionFlag pirMotionFlagOld powerRead =
     then_alive (to_motion stk pirMotionFlag pirMotionFlagOld)
     (do {
       pirSendData (of_bool pirMotionFlag) powerRead;
       main_loops stk 80 })"

definition report_light :: "'a ctrl_st_scheme mesh_stack \<Rightarrow> u8 \<Rightarrow> ('a ctrl_st_scheme, bool) state" where
  "report_light stk powerRead =
     then_alive (main_loop stk)
     (do {
       lightSendData powerRead;
       main_loops stk 80 })"

text \<open>The two \<open>if\<close> statements of \<open>sensorSendData\<close>.\<close>

definition motion_half :: "'a ctrl_st_scheme mesh_stack \<Rightarrow> bool \<Rightarrow> bool \<Rightarrow> u8 \<Rightarrow> ('a ctrl_st_scheme, bool) state" where
  "motion_half stk pirMotionFlag pirMotionFlagOld powerRead =
     (if pirMotionFlagOld \<noteq> pirMotionFlag
      then report_motion stk pirMotionFlag pirMotionFlagOld powerRead else ret True)"

definition light_half :: "'a ctrl_st_scheme mesh_stack \<Rightarrow> bool \<Rightarrow> u8 \<Rightarrow> ('a ctrl_st_scheme, bool) state" where
  "light_half stk luxSendFlag powerRead = (if luxSendFlag then report_light stk powerRead else ret True)"

definition sensorSendData ::
  "'a ctrl_st_scheme mesh_stack \<Rightarrow> bool \<Rightarrow> bool \<Rightarrow> bool \<Rightarrow> ('a ctrl_st_scheme, bool) state" where
  "sensorSendData stk pirMotionFlag pirMotionFlagOld luxSendFlag = do {
     p \<leftarrow> powerUpdate;
     (case p of None \<Rightarrow> ret False
      | Some powerRead \<Rightarrow>
          then_alive (motion_half stk pirMotionFlag pirMotionFlagOld powerRead)
            (light_half stk luxSendFlag powerRead)) }"

section \<open>From wake-up to the main loop\<close>

text \<open>
  \<open>main\<close> up to the \<open>while (1)\<close>, without the calls that only set up the chip. The result \<open>False\<close>
  means that the code ran into undefined behaviour. Everything after a call that stopped the
  chip is skipped.
\<close>

definition unless_halted :: "('a hw_scheme, bool) state \<Rightarrow> ('a hw_scheme, bool) state" where
  "unless_halted m = do { h \<leftarrow> gets halted; if h then ret True else m }"

definition boot_sense :: "('a ctrl_st_scheme, unit) state" where
  "boot_sense = do {
     r \<leftarrow> gets resetFlag;
     when_do (\<not> r) (do {
       pirDCInit;
       pirMotionCOntrol 45;
       m \<leftarrow> pirDetect;
       l \<leftarrow> LuxDetect 30;
       modify (\<lambda>s. s\<lparr>sendLuxFlag := l\<rparr>) });
     ota \<leftarrow> gets otaFlag;
     d \<leftarrow> gets pir_flag;
     l \<leftarrow> gets sendLuxFlag;
     when_do (\<not> ota) (sleepBeforSend (motionFlag d) (motionFlagOld d) l) }"

definition boot_report :: "'a ctrl_st_scheme mesh_stack \<Rightarrow> u8 \<Rightarrow> ('a ctrl_st_scheme, bool) state" where
  "boot_report stk joinState = do {
     p \<leftarrow> is_provision_success;
     if \<not> p then ret True
     else if joinState = 0 then do {
       flash_init;
       r \<leftarrow> gets resetFlag;
       d \<leftarrow> gets pir_flag;
       l \<leftarrow> gets sendLuxFlag;
       then_alive
         (if \<not> r then sensorSendData stk (motionFlag d) (motionFlagOld d) l else ret True)
         (do {
           ota \<leftarrow> gets otaFlag;
           when_do (\<not> ota) sleepAfterSend;
           ret True }) }
     else do { kick_out; ret True } }"

text \<open>Reading the pins and the join flag, and the long press: \<open>ok\<close>, join flag.\<close>

definition boot_pins :: "('a ctrl_st_scheme, bool \<times> u8) state" where
  "boot_pins = do {
     pirInit;
     hi \<leftarrow> gpio_read PIR_DC_HIGH;
     lo \<leftarrow> gpio_read PIR_DC_LOW;
     modify (\<lambda>s. s\<lparr>pirHighState := hi, pirLowState := lo\<rparr>);
     btnStateRead \<leftarrow> btn_read;
     joinState \<leftarrow> flashReadJoinFlag;
     ok \<leftarrow> rd_factory_reset 52 8 btnStateRead joinState;
     ret (ok, joinState) }"

definition boot ::
  "('a ctrl_st_scheme, unit) state \<Rightarrow> 'a ctrl_st_scheme mesh_stack \<Rightarrow> ('a ctrl_st_scheme, bool) state" where
  "boot user_init stk = do {
     r \<leftarrow> boot_pins;
     let (ok, joinState) = r;
     if \<not> ok then ret False
     else unless_halted (do {
       sUartInit;
       when_do (joinState = 0) boot_sense;
       unless_halted (do {
         user_init;
         ok2 \<leftarrow> boot_report stk joinState;
         if \<not> ok2 then ret False
         else unless_halted (do {
           t \<leftarrow> clock_time_ms;
           modify (\<lambda>s. s\<lparr>sleepUnprov := t\<rparr>);
           r \<leftarrow> gets resetFlag;
           when_do (\<not> r) led_init;
           ret True }) }) }) }"

text \<open>One iteration of the \<open>while (1)\<close> of \<open>main\<close>.\<close>

definition loop_body :: "'a ctrl_st_scheme mesh_stack \<Rightarrow> u8 \<Rightarrow> ('a ctrl_st_scheme, bool) state" where
  "loop_body stk joinState = do {
     ota \<leftarrow> gets otaFlag;
     when_do (\<not> ota) ledShowProvState;
     emit Wd_clear;
     due \<leftarrow> (if ota then ret False
            else if joinState = 0 then ret True
            else do {
              c \<leftarrow> gets confirmDone;
              if \<not> c then ret False
              else do {
                t \<leftarrow> clock_time_ms;
                t0 \<leftarrow> gets endConfigTime;
                ret (1000 \<le> t - t0) } });
     when_do due sleepAfterSend;
     unless_halted (then_alive (main_loop stk) (as_ok (do {
       p \<leftarrow> is_provision_success;
       when_do (\<not> p) (do {
         t \<leftarrow> clock_time_ms;
         t0 \<leftarrow> gets sleepUnprov;
         when_do (60000 \<le> t - t0) sleepMode });
       alive (do {
         rd_get_provision_state;
         Join_confirm_check;
         alive (do {
           confirm_receive_check;
           alive otaConcol }) }) }))) }"

section \<open>Long press decided\<close>

definition press_obs :: "'a ctrl_st_scheme \<Rightarrow> _" where
  "press_obs s = (otaModeCnt s, halted s, flash s, pin_in s, n_pin s)"

lemma press_start_same: "keeps (same press_obs) (press_start joinState)"
  by (simp add: keeps_def same_def press_obs_def press_start_def led_output_def stamp_def save_timeout_def
      tick_defs save_defs exec_def)

lemma otaDetect_run [simp]:
  "run_state otaDetect s = (50 < otaModeCnt s + 1, s\<lparr>cmds := cmds s @ [Sleep_us 100000], otaModeCnt := otaModeCnt s + 1\<rparr>)"
  by (simp add: otaDetect_def)

definition btn_low :: "'a hw_scheme \<Rightarrow> nat \<Rightarrow> bool" where
  "btn_low s k \<longleftrightarrow> \<not> pin_in s BUTTON_PIN (n_pin s + k)"

definition hold_next :: "'a ctrl_st_scheme \<Rightarrow> 'a ctrl_st_scheme" where
  "hold_next s = s\<lparr>n_pin := Suc (n_pin s), cmds := cmds s @ [Wd_clear, Sleep_us 100000],
     otaModeCnt := otaModeCnt s + 1\<rparr>"

lemma hold_loop_Suc:
  "run_state (hold_loop (Suc n)) s =
     (if \<not> btn_low s 0 then (True, s\<lparr>n_pin := Suc (n_pin s)\<rparr>)
      else if 50 < otaModeCnt s + 1 then (True, exec kick_out (hold_next s))
      else if halted s then (True, hold_next s)
      else run_state (hold_loop n) (hold_next s))"
proof -
  have "halted (exec kick_out t)" for t :: "'a ctrl_st_scheme" by (rule kick_out_exec)
  then have "halted (snd (run_state kick_out t))" for t :: "'a ctrl_st_scheme" by (simp add: exec_def)
  then show ?thesis
    by (simp add: btn_low_def hold_next_def exec_def split_beta)
qed

declare hold_loop.simps [simp del]

lemma hold_next_fields [simp]:
  "btn_low (hold_next s) k = btn_low s (Suc k)" "halted (hold_next s) = halted s"
  "flash (hold_next s) = flash s" "otaModeCnt (hold_next s) = otaModeCnt s + 1"
  by (simp_all add: hold_next_def btn_low_def)

lemma hold_loop_result:
  assumes "unat (otaModeCnt s) + n = 52" "otaModeCnt s \<le> 50" "\<not> halted s"
  shows "fst (run_state (hold_loop n) s) \<and>
    (halted (exec (hold_loop n) s) \<longleftrightarrow> (\<forall>k < n - 1. btn_low s k)) \<and>
    (halted (exec (hold_loop n) s) \<longrightarrow> kicked_out (exec (hold_loop n) s)) \<and>
    (\<not> halted (exec (hold_loop n) s) \<longrightarrow> flash (exec (hold_loop n) s) = flash s)"
  using assms
proof (induction n arbitrary: s)
  case 0
  then show ?case by (simp add: word_le_nat_alt)
next
  case (Suc n)
  have n: "n \<noteq> 0" using Suc.prems by (auto simp: word_le_nat_alt)
  have c: "unat (otaModeCnt s + 1) = unat (otaModeCnt s) + 1"
    using Suc.prems by (simp add: unat_add_u8 word_le_nat_alt)
  show ?case
  proof (cases "btn_low s 0")
    case False
    then show ?thesis using n Suc.prems by (auto simp: hold_loop_Suc exec_def)
  next
    case True
    show ?thesis
    proof (cases "50 < otaModeCnt s + 1")
      case k: True
      then have "n = 1" using c Suc.prems by (simp add: word_less_nat_alt word_le_nat_alt)
      then show ?thesis using True k kick_out_kicked [of "hold_next s"] kick_out_exec(1) [of "hold_next s"]
        by (simp add: hold_loop_Suc exec_def)
    next
      case k: False
      have "(\<forall>j < n - 1. btn_low (hold_next s) j) \<longleftrightarrow> (\<forall>j < n. btn_low s j)"
        using True n by (cases n) (auto simp: less_Suc_eq_0_disj)
      moreover note Suc.IH [of "hold_next s"]
      ultimately show ?thesis using True k c Suc.prems
        by (simp add: hold_loop_Suc exec_def word_le_nat_alt not_less word_less_nat_alt)
    qed
  qed
qed

text \<open>
C13: With the button down at wake-up the press is decided within 52 readings: the node is kicked out
exactly when the button still reads low in all of the next 51 readings, one every 100 ms; released
earlier, nothing is erased.
\<close>

theorem long_press_resets:
  fixes cnt :: u32 and joinState :: u8
  assumes "otaModeCnt s = 0" "\<not> halted s" "btn_flag_old s \<noteq> 0"
  defines "s' \<equiv> exec (rd_factory_reset 52 cnt 0 joinState) s"
  shows "fst (run_state (rd_factory_reset 52 cnt 0 joinState) s) \<and>
    (halted s' \<longleftrightarrow> (\<forall>k < 51. \<not> pin_in s BUTTON_PIN (n_pin s + k))) \<and>
    (halted s' \<longrightarrow> kicked_out s') \<and> (\<not> halted s' \<longrightarrow> flash s' = flash s)"
proof -
  let ?s = "s\<lparr>btn_flag_new := 0, btn_flag_old := 0\<rparr>"
  obtain t where t: "t = exec (press_start joinState) ?s" by blast
  have o: "otaModeCnt t = 0" "\<not> halted t" "flash t = flash s"
    using press_start_same [THEN keeps_sameD, of joinState ?s] assms(1,2)
    by (simp_all add: t press_obs_def)
  have low: "btn_low t k = (\<not> pin_in s BUTTON_PIN (n_pin s + k))" for k
    using press_start_same [THEN keeps_sameD, of joinState ?s]
    by (simp add: t press_obs_def btn_low_def)
  obtain u where u: "u = exec (hold_loop 52) t" by blast
  have h: "fst (run_state (hold_loop 52) t)" "halted u \<longleftrightarrow> (\<forall>k < 51. \<not> pin_in s BUTTON_PIN (n_pin s + k))"
    "halted u \<longrightarrow> kicked_out u" "\<not> halted u \<longrightarrow> flash u = flash s"
    using hold_loop_result [of t 52] o low by (simp_all add: u)
  have r: "run_state (rd_factory_reset 52 cnt 0 joinState) s =
      (fst (run_state (hold_loop 52) t), if halted u then u else exec press_end u)"
    using assms(3) by (simp add: rd_factory_reset_def exec_def split_beta t u)
  have e: "flash (exec press_end u) = flash u" "halted (exec press_end u) = halted u"
    by (simp_all add: press_end_def exec_def)
  have s': "s' = (if halted u then u else exec press_end u)"
    using r by (simp add: s'_def exec_def)
  show ?thesis
  proof (cases "halted u")
    case True
    then show ?thesis using h r s' by simp
  next
    case False
    then have "s' = exec press_end u" "\<not> halted s'" "flash s' = flash s" using s' e h(4) by simp_all
    moreover have "fst (run_state (rd_factory_reset 52 cnt 0 joinState) s)" using r h(1) by simp
    ultimately show ?thesis using False h(2) by blast
  qed
qed

section \<open>A quiet wake-up\<close>

definition nothing_to_report :: "'a ctrl_st_scheme \<Rightarrow> bool" where
  "nothing_to_report s \<longleftrightarrow> motionFlagOld (pir_flag s) = motionFlag (pir_flag s) \<and> \<not> sendLuxFlag s"

lemma deepsleep_ms_exec:
  "exec (deepsleep_ms ms) s = s\<lparr>n_sys := Suc (n_sys s), halted := \<not> stays_awake s (n_sleep s),
     n_sleep := Suc (n_sleep s), cmds := cmds s @ [Deepsleep Wakeup_timer_pad (clk_sys s (n_sys s) + ms * 16000)]\<rparr>"
  by (simp add: deepsleep_ms_def exec_def hw_simps)

definition sleep_ms_of :: "u32 \<Rightarrow> u32" where
  "sleep_ms_of p = (if p div 60 < 1 then 10000 else if p div 60 < 2 then 30000 else if p div 60 < 3 then 60000 else 120000)"

lemma sleep_by_pirTime_exec: "exec sleep_by_pirTime s = exec (deepsleep_ms (sleep_ms_of (pirTime s))) s"
  by (simp add: sleep_by_pirTime_def exec_bind sleep_ms_of_def)

text \<open>What arming the wake-up pins leaves alone.\<close>

definition arm_obs :: "'a ctrl_st_scheme \<Rightarrow> _" where
  "arm_obs s = (pir_flag s, sendLuxFlag s, halted s, stays_awake s, n_sleep s, pirTime s, clk_sys s, n_sys s, analog s, flash s)"

lemma wakeup_same: "keeps (same arm_obs) pir_wakeup" "keeps (same arm_obs) btn_wakeup"
  "keeps (same arm_obs) (rdPrintf f xs)"
  by (simp_all add: keeps_def same_def arm_obs_def pir_wakeup_def btn_wakeup_def rdPrintf_def exec_def)

lemma sleepBeforSend_exec:
  "\<exists>t. arm_obs t = arm_obs s \<and> exec (sleepBeforSend m old l) s =
     (if old = m \<and> \<not> l then exec (deepsleep_ms (if m then sleep_ms_of (pirTime s) else 120000)) t else s)"
proof -
  let ?t = "exec btn_wakeup (exec pir_wakeup (exec (rdPrintf ''sl_1'' []) s))"
  have "arm_obs ?t = arm_obs s"
    using keeps_sameD [OF wakeup_same(1)] keeps_sameD [OF wakeup_same(2)] keeps_sameD [OF wakeup_same(3)] by metis
  moreover from this have "pirTime ?t = pirTime s" by (simp add: arm_obs_def)
  ultimately show ?thesis
    by (intro exI [of _ ?t]) (simp add: sleepBeforSend_def exec_bind sleep_by_pirTime_exec)
qed

text \<open>The state in which a joined sensor decides whether there is anything to report.\<close>

definition boot_decided :: "'a ctrl_st_scheme \<Rightarrow> 'a ctrl_st_scheme" where
  "boot_decided s = exec boot_sense (exec sUartInit (exec boot_pins s))"

definition sense_obs :: "'a ctrl_st_scheme \<Rightarrow> _" where
  "sense_obs s = (halted s, otaFlag s, resetFlag s, stays_awake s)"

lemma same_prims:
  "keeps (same sense_obs) get_32k_tick" "keeps (same sense_obs) (gpio_read p)"
  "keeps (same sense_obs) (analog_write r v)" "keeps (same sense_obs) (analog_read r)"
  "keeps (same sense_obs) (i2c_read_series n)" "keeps (same sense_obs) (emit c)"
  "keeps (same sense_obs) (put_pir_flag b x)"
  by (simp_all add: keeps_def same_def sense_obs_def hw_simps exec_def put_pir_flag_def)

lemmas sense_rules = keeps_same_rules same_prims

lemma sense_modify: "(\<And>s. sense_obs (f s) = sense_obs s) \<Longrightarrow> keeps (same sense_obs) (modify f)"
  by (simp add: keeps_def same_def)

lemma save_same:
  "keeps (same sense_obs) (pirSaveTimeoutReg w)" "keeps (same sense_obs) pirGetTimeoutReg"
  "keeps (same sense_obs) (pirSaveFlagReg d)" "keeps (same sense_obs) pirGetFlagReg"
  "keeps (same sense_obs) (lightSetLuxReg x)" "keeps (same sense_obs) lightgetLuxReg"
  "keeps (same sense_obs) (setMotionTime d)" "keeps (same sense_obs) getMotionTime"
  "keeps (same sense_obs) SYS_32K_TICK_S" "keeps (same sense_obs) SYS_32K_TICK_15S"
  "keeps (same sense_obs) save_flags" "keeps (same sense_obs) save_timeout"
  "keeps (same sense_obs) stamp" "keeps (same sense_obs) (rdPrintf f xs)"
  "keeps (same sense_obs) motion_restart" "keeps (same sense_obs) pir_expire"
  by (simp_all add: keeps_def same_def sense_obs_def save_defs tick_defs exec_def lightSetLuxReg_def
      lightgetLuxReg_def stamp_def save_timeout_def save_flags_def rdPrintf_def pir_expire_def put_pir_flag_def)

lemma sample_same: "keeps (same sense_obs) (pir_sample b p n c)"
  by (induction n arbitrary: c) (auto intro!: sense_rules save_same)

lemma part_same:
  "keeps (same sense_obs) pirDCInit" "keeps (same sense_obs) (pirMotionCOntrol tm)"
  "keeps (same sense_obs) pirDetect" "keeps (same sense_obs) (LuxDetect thr)"
  unfolding pirDCInit_def pirMotionCOntrol_def pirDetect_def pir_check_timeout_def LuxDetect_def
    RD_Light_Sensor_read_raw_val_def lux_report_def Let_def
  by (intro sense_rules(1-5) same_prims save_same sample_same sense_modify; simp add: sense_obs_def)+

lemma sense_same:
  "keeps (same sense_obs) (do {
       pirDCInit;
       pirMotionCOntrol 45;
       m \<leftarrow> pirDetect;
       l \<leftarrow> LuxDetect 30;
       modify (\<lambda>s. s\<lparr>sendLuxFlag := l\<rparr>) })"
  by (intro keeps_same_rules(1) part_same sense_modify) (simp add: sense_obs_def)

lemma boot_sense_exec:
  assumes "\<not> halted t" "\<not> otaFlag t" "\<not> resetFlag t" "\<forall>k. \<not> stays_awake t k"
  shows "halted (exec boot_sense t) \<longleftrightarrow> nothing_to_report (exec boot_sense t)"
proof -
  let ?m = "do {
       pirDCInit;
       pirMotionCOntrol 45;
       m \<leftarrow> pirDetect;
       l \<leftarrow> LuxDetect 30;
       modify (\<lambda>s. s\<lparr>sendLuxFlag := l\<rparr>) }"
  obtain u where u: "u = exec ?m t" by blast
  have o: "\<not> halted u" "\<not> otaFlag u" "\<forall>k. \<not> stays_awake u k"
    using assms sense_same [THEN keeps_sameD, of t] by (simp_all add: u sense_obs_def)
  obtain v where v: "arm_obs v = arm_obs u" "exec (sleepBeforSend (motionFlag (pir_flag u)) (motionFlagOld (pir_flag u)) (sendLuxFlag u)) u =
     (if motionFlagOld (pir_flag u) = motionFlag (pir_flag u) \<and> \<not> sendLuxFlag u then
       exec (deepsleep_ms (if motionFlag (pir_flag u) then sleep_ms_of (pirTime u) else 120000)) v else u)"
    using sleepBeforSend_exec by blast
  have "exec boot_sense t = (if nothing_to_report u then
       exec (deepsleep_ms (if motionFlag (pir_flag u) then sleep_ms_of (pirTime u) else 120000)) v else u)"
    using v(2) assms o by (simp add: boot_sense_def exec_bind u nothing_to_report_def)
  then show ?thesis using v(1) o
    by (auto simp: deepsleep_ms_exec nothing_to_report_def arm_obs_def)
qed

lemma boot_pins_up:
  assumes "pin_in s BUTTON_PIN (n_pin s + 2)"
  shows "fst (run_state boot_pins s) = (True, flash s 0x7f000)" "sense_obs (exec boot_pins s) = sense_obs s"
  using assms
  by (simp_all add: boot_pins_def pirInit_def btn_read_def rd_factory_reset_def exec_def sense_obs_def)

text \<open>
C14: A joined sensor that wakes up with nothing to report, no motion change and no light change, goes
back to deep sleep before the radio stack is started: for every stack, \<open>boot\<close> ends in the state
reached after sensing, with the chip stopped. The chip stops there only in that case.
\<close>

theorem quiet_wake_sleeps_before_radio:
  assumes "flash s 0x7f000 = 0" "pin_in s BUTTON_PIN (n_pin s + 2)" "\<not> resetFlag s" "\<not> otaFlag s"
    and "\<not> halted s" "\<forall>k. \<not> stays_awake s k"
  shows "(halted (boot_decided s) \<longleftrightarrow> nothing_to_report (boot_decided s)) \<and>
    (nothing_to_report (boot_decided s) \<longrightarrow> run_state (boot user_init stk) s = (True, boot_decided s))"
proof -
  obtain t where t: "t = exec boot_pins s" by blast
  obtain u where u: "u = exec sUartInit t" by blast
  have ft: "sense_obs t = sense_obs s" using boot_pins_up [OF assms(2)] t by simp
  moreover have "sense_obs u = sense_obs t"
    by (simp add: u sUartInit_def sUartIoInit_def sUartTxMode_def exec_def sense_obs_def)
  ultimately have o: "\<not> halted t" "\<not> halted u" "\<not> otaFlag u" "\<not> resetFlag u" "\<forall>k. \<not> stays_awake u k"
    using assms by (simp_all add: sense_obs_def)
  have h: "halted (boot_decided s) \<longleftrightarrow> nothing_to_report (boot_decided s)"
    using boot_sense_exec [OF o(2-5)] by (simp add: boot_decided_def u t)
  have "fst (run_state boot_pins s) = (True, 0)" using boot_pins_up [OF assms(2)] assms(1) by simp
  then have "run_state (boot user_init stk) s = (True, boot_decided s)" if "halted (boot_decided s)"
    using that o(1)
    by (simp add: boot_def run_bind unless_halted_def t u boot_decided_def del: run_state_bind)
  then show ?thesis using h by blast
qed

section \<open>After a report\<close>

lemma sync_old_flag_exec:
  "exec sync_old_flag s = s\<lparr>pir_flag := put_flag 6 (motionFlag (pir_flag s)) (pir_flag s)\<rparr>"
  by (simp add: sync_old_flag_def exec_def put_pir_flag_def)

lemma settle_flags_exec:
  "let t = exec settle_flags s; d = pir_flag s; d' = pir_flag t in
    motionFlag d' = motionFlag d \<and> motionFlagOld d' = motionFlag d \<and>
    (motionOneTime d \<longrightarrow> \<not> motionOneTime d' \<and> \<not> pirHighFlag d' \<and> \<not> pirLowFlag d') \<and>
    (motionOneTime d \<or> motionFlagOld d \<noteq> motionFlag d \<longrightarrow> analog t PIR_FLAG_SAVE_REG = d') \<and>
    stays_awake t = stays_awake s \<and> n_sleep t = n_sleep s \<and> pirTime t = pirTime s \<and>
    clk_sys t = clk_sys s \<and> n_sys t = n_sys s"
proof (cases "motionOneTime (pir_flag s)")
  case True
  then show ?thesis
    by (simp add: settle_flags_def exec_def put_pir_flag_def sync_old_flag_def save_flags_def
        pirSaveFlagReg_def motion_restart_def tick_defs setMotionTime_def flag_defs pir_regs Let_def)
next
  case False
  then show ?thesis
    by (simp add: settle_flags_def exec_def put_pir_flag_def sync_old_flag_def save_flags_def
        pirSaveFlagReg_def pir_wakeup_def flag_defs pir_regs Let_def)
qed

text \<open>
C15: After a report the reported motion state becomes the remembered one, so that the next wake-up
reports only a further change; the one-time flag and the two edge flags are cleared after a fresh
detection; what is in the register that survives deep sleep is the flag byte whenever it changed;
and the last thing done is to ask for deep sleep with the wake-up time of the configured motion
time.
\<close>

theorem sleepAfterSend_remembers:
  "let s' = exec sleepAfterSend s; d = pir_flag s; d' = pir_flag s' in
    motionFlag d' = motionFlag d \<and> motionFlagOld d' = motionFlag d \<and>
    (motionOneTime d \<longrightarrow> \<not> motionOneTime d' \<and> \<not> pirHighFlag d' \<and> \<not> pirLowFlag d') \<and>
    (motionOneTime d \<or> motionFlagOld d \<noteq> motionFlag d \<longrightarrow> analog s' PIR_FLAG_SAVE_REG = d') \<and>
    (halted s' \<longleftrightarrow> \<not> stays_awake s (n_sleep s)) \<and>
    last (cmds s') = Deepsleep Wakeup_timer_pad (clk_sys s (n_sys s) + sleep_ms_of (pirTime s) * 16000)"
proof -
  obtain t where t: "t = exec settle_flags s" by blast
  obtain u where u: "u = exec (rdPrintf ''sl_2'' []) (exec btn_wakeup t)" by blast
  have au: "arm_obs u = arm_obs t"
    unfolding u using keeps_sameD [OF wakeup_same(2)] keeps_sameD [OF wakeup_same(3)] by metis
  have e: "exec sleepAfterSend s = exec (deepsleep_ms (sleep_ms_of (pirTime u))) u"
    by (simp add: sleepAfterSend_def exec_bind sleep_by_pirTime_exec t u)
  note st = settle_flags_exec [of s, folded t]
  show ?thesis
    using st au
    by (simp add: Let_def e deepsleep_ms_exec arm_obs_def)
qed

text \<open>The battery level a given converter reading is reported as.\<close>

definition battery_level :: "u32 \<Rightarrow> u8" where
  "battery_level adc = (let q = (2 * unat adc - 2200) div 10 mod 256 in of_nat (if q < 5 then 0 else min 100 q))"

lemma powerUpdate_run:
  assumes "1100 \<le> unat (adc_in s (n_adc s))"
  shows "run_state powerUpdate s = (Some (battery_level (adc_in s (n_adc s))),
    s\<lparr>cmds := cmds s @ [Adc_init GPIO_PC4], n_adc := Suc (n_adc s)\<rparr>)"
proof -
  let ?q = "(2 * unat (adc_in s (n_adc s)) - 2200) div 10"
  have r: "run_state (power_report 0 (of_nat n)) t = (of_nat (if n mod 256 < 5 then 0 else min 100 (n mod 256)), t)"
    for n and t :: "'a hw_scheme"
  proof -
    have c: "(0 < (of_nat n :: u8)) = (0 < n mod 256)" "(100 < (of_nat n :: u8)) = (100 < n mod 256)"
      by (simp_all add: word_less_nat_alt)
    have "(of_nat n :: u8) = of_nat (n mod 256)" by (simp flip: unat_of_nat_u8)
    then show ?thesis unfolding power_report_def c
      by (simp add: setPowerSaveReg_def min_def)
  qed
  have "(ucast (of_nat ?q :: u32) :: u8) = of_nat ?q"
    by (simp add: word_unat_eq_iff unat_ucast_narrow unat_of_nat_u32 mod_mod_cancel)
  then show ?thesis using assms r [of ?q]
    by (simp add: powerUpdate_def RD_power_read_def RD_ADC_init_def getPowerSaveReg_def power_percent_def
        battery_level_def Let_def hw_simps)
qed

lemma obs_led_init: "keeps (same report_obs) led_init"
  unfolding led_init_def by (intro obs_rules obs_led) simp_all

lemma pirSendData_report:
  "report_obs (exec (pirSendData m p) s) = (luxOld s,
     reports s @ [Mesh_tx 0xe5 [0x0c, m, p] (rd_node_addr s) (rd_box_addr s) 2])"
  by (simp add: report_obs_def reports_def pirSendData_def exec_def mesh_tx_cmd2normal_def)

lemma lightSendData_report:
  "report_obs (exec (lightSendData p) s) = (luxOld s, reports s @
     [Mesh_tx 0xe5 [0x0d, ucast (luxOld s), ucast (drop_bit 8 (luxOld s)), p] (rd_node_addr s) (rd_box_addr s) 2])"
  by (simp add: report_obs_def reports_def lightSendData_def exec_def mesh_tx_cmd2normal_def)

lemma motion_half_obs:
  fixes s :: "'a ctrl_st_scheme" and m old :: bool
  assumes "no_reports stk"
  defines "t \<equiv> exec (to_motion stk m old) s"
  shows "report_obs (exec (motion_half stk m old p) s) = (luxOld s, reports s @
    (if old \<noteq> m \<and> goes_on (to_motion stk m old) s
     then [Mesh_tx 0xe5 [0x0c, of_bool m, p] (rd_node_addr t) (rd_box_addr t) 2] else []))"
proof -
  have "keeps (same report_obs) (to_motion stk m old)"
    unfolding to_motion_def rdPrintf_def by (intro obs_rules obs_led_init obs_main_loop [OF assms(1)]) simp
  then have t: "report_obs t = report_obs s" unfolding t_def by (rule keeps_sameD)
  have e: "report_obs (exec (do { pirSendData (of_bool m) p; main_loops stk 80 }) t) =
      (luxOld t, reports t @ [Mesh_tx 0xe5 [0x0c, of_bool m, p] (rd_node_addr t) (rd_box_addr t) 2])"
    unfolding exec_bind keeps_sameD [OF obs_main_loops [OF assms(1)]] by (rule pirSendData_report)
  show ?thesis
  proof (cases "old = m")
    case True
    then show ?thesis by (simp add: motion_half_def report_obs_def)
  next
    case False
    then have "exec (motion_half stk m old p) s = (if goes_on (to_motion stk m old) s
        then exec (do { pirSendData (of_bool m) p; main_loops stk 80 }) t else t)"
      by (simp only: motion_half_def report_motion_def exec_then_alive t_def if_False if_True not_False_eq_True)
    then show ?thesis
      using t e False by (simp only: if_True if_False split: if_split) (simp add: report_obs_def)
  qed
qed

lemma light_half_obs:
  fixes s :: "'a ctrl_st_scheme"
  assumes "no_reports stk"
  defines "t \<equiv> exec (main_loop stk) s"
  shows "reports (exec (light_half stk l p) s) = reports s @
    (if l \<and> goes_on (main_loop stk) s
     then [Mesh_tx 0xe5 [0x0d, ucast (luxOld s), ucast (drop_bit 8 (luxOld s)), p] (rd_node_addr t) (rd_box_addr t) 2]
     else [])"
proof -
  have t: "report_obs t = report_obs s" unfolding t_def by (rule keeps_sameD [OF obs_main_loop [OF assms(1)]])
  have "report_obs (exec (do { lightSendData p; main_loops stk 80 }) t) = (luxOld t, reports t @
      [Mesh_tx 0xe5 [0x0d, ucast (luxOld t), ucast (drop_bit 8 (luxOld t)), p] (rd_node_addr t) (rd_box_addr t) 2])"
    unfolding exec_bind keeps_sameD [OF obs_main_loops [OF assms(1)]] by (rule lightSendData_report)
  then show ?thesis
    using t unfolding light_half_def report_light_def
    by (simp add: exec_then_alive t_def [symmetric] report_obs_def)
qed

text \<open>
C16: The sensor reports exactly what changed, on top of a main loop in which messages may be received,
addresses changed and answers sent: one motion message if the motion state differs from the
remembered one, then one light message if the light level is to be reported, in this order, with the
same battery level of at most 100 percent, and no other report. Each message goes out with the node
and gateway addresses that the run of the main loop just before it leaves; it is missing only if that
run, or what was done before it, stopped the chip or ran into undefined behaviour, and apart from
these \<open>sensorSendData\<close> always goes on. About the stack this assumes only that its entry points send
no message with the sensor's own opcode and leave the light level alone; the message handlers of the
application satisfy it.
\<close>

theorem sensorSendData_messages:
  fixes m old l :: bool and stk :: "'a ctrl_st_scheme mesh_stack" and s :: "'a ctrl_st_scheme"
  assumes "no_reports stk" "1100 \<le> unat (adc_in s (n_adc s))"
  defines "p \<equiv> battery_level (adc_in s (n_adc s))"
    and "s1 \<equiv> exec powerUpdate s"
    and "s' \<equiv> exec (sensorSendData stk m old l) s"
  defines "s2 \<equiv> exec (to_motion stk m old) s1"
    and "s3 \<equiv> exec (motion_half stk m old p) s1"
  defines "s4 \<equiv> exec (main_loop stk) s3"
  shows "p \<le> 100 \<and>
    reports s' = reports s @
      (if old \<noteq> m \<and> goes_on (to_motion stk m old) s1
       then [Mesh_tx 0xe5 [0x0c, of_bool m, p] (rd_node_addr s2) (rd_box_addr s2) 2] else []) @
      (if l \<and> goes_on (motion_half stk m old p) s1 \<and> goes_on (main_loop stk) s3
       then [Mesh_tx 0xe5 [0x0d, ucast (luxOld s), ucast (drop_bit 8 (luxOld s)), p]
               (rd_node_addr s4) (rd_box_addr s4) 2] else []) \<and>
    goes_on (sensorSendData stk m old l) s =
      (goes_on (motion_half stk m old p) s1 \<and> goes_on (light_half stk l p) s3)"
proof -
  have s1: "s1 = s\<lparr>cmds := cmds s @ [Adc_init GPIO_PC4], n_adc := Suc (n_adc s)\<rparr>"
    "run_state powerUpdate s = (Some p, s1)"
    using powerUpdate_run [OF assms(2)] by (simp_all add: s1_def p_def exec_def)
  then have r: "run_state (sensorSendData stk m old l) s =
      (if goes_on (motion_half stk m old p) s1 then run_state (light_half stk l p) s3
       else run_state (motion_half stk m old p) s1)"
    by (simp add: sensorSendData_def run_then_alive s3_def)
  have b: "reports s1 = reports s" "luxOld s1 = luxOld s" by (simp_all add: s1(1) reports_def)
  note m = motion_half_obs [OF assms(1), where m = m and old = old and p = p and s = s1, folded s2_def s3_def, unfolded b]
  note l = light_half_obs [OF assms(1), where s = s3 and l = l and p = p, folded s4_def]
  have lux: "luxOld s3 = luxOld s" using m by (simp add: report_obs_def)
  have "p \<le> 100" by (simp add: p_def battery_level_def Let_def word_le_nat_alt min_def)
  moreover have "reports s' = (if goes_on (motion_half stk m old p) s1 then reports (exec (light_half stk l p) s3) else reports s3)"
    by (simp add: s'_def exec_def r s3_def)
  moreover have "goes_on (sensorSendData stk m old l) s =
      (goes_on (motion_half stk m old p) s1 \<and> goes_on (light_half stk l p) s3)"
    unfolding goes_on_def exec_def r by (auto simp: goes_on_def exec_def s3_def)
  ultimately show ?thesis using m l lux by (auto simp: report_obs_def)
qed

section \<open>Concrete runs\<close>

text \<open>A joined sensor at rest; \<open>up\<close> says whether the button is released.\<close>

definition demo_ctrl :: "bool \<Rightarrow> ctrl_st" where
  "demo_ctrl up = \<lparr>analog = \<lambda>_. 0,
     flash = (\<lambda>_. 0xFF)(0x78000 := 3, 0x78001 := 0, 0x79000 := 1, 0x79001 := 0, 0x7f000 := 0),
     pin_in = \<lambda>p _. up \<and> p = GPIO_PD4, n_pin = 0,
     clk32k = \<lambda>_. 0, n_32k = 0, clk_ms = \<lambda>n. 2000 * of_nat n, n_ms = 0, clk_s = \<lambda>_. 0, n_s = 0,
     clk_sys = \<lambda>_. 0, n_sys = 0,
     i2c_in = \<lambda>_. [0, 0, 0], n_i2c = 0, adc_in = \<lambda>_. 1500, n_adc = 0, stays_awake = \<lambda>_. False,
     n_sleep = 0, provisioned = True, connected = False, halted = False, cmds = [],
     adr_reset_cnt_idx = 0, clear_st = 4, reset_check_time = 0,
     MotionTimeLine = 0, pinHigh = GPIO_PB4, pinLow = GPIO_PB1, pirHighState = False,
     pirLowState = False, pir_flag = 0, timeOut = 0, rd_node_addr = 3, rd_box_addr = 1, luxOld = 300,
     real_lux_new = 0, Lux_clock_time_read = 0, light_sensor_to_gw_tx_buff = replicate 6 0, confirm_fail_time = 0, confirm_fail = False,
     bind_all_flag = True, bind_time = 0, time_to_end_config = 0, confirmDone = False, endConfigTime = 0,
     tick_loop = 0, ui_tick = 0, led_event_pending = 0, led_count = 0, led_ton = 0, led_toff = 0,
     led_sel = 0, led_tick = 0, led_no = 0, led_is_on = False,
     btn_cnt = 0, btn_status = 1, resetFlag = False, btn_flag_old = 1, btn_flag_new = 1,
     check_prov_status_old = False, pirTime = 30, otaFlag = False, otaTime = 0, otaModeCnt = 0,
     loop_cnt = 0, effect_cycle = 0, sleepUnprov = 0, sendLuxFlag = False\<rparr>"

lemma long_press_resets_witness: "kicked_out (exec (rd_factory_reset 52 8 0 0) (demo_ctrl False))"
proof -
  have a: "otaModeCnt (demo_ctrl False) = 0" "\<not> halted (demo_ctrl False)" "btn_flag_old (demo_ctrl False) \<noteq> 0"
    "\<forall>k < 51. \<not> pin_in (demo_ctrl False) BUTTON_PIN (n_pin (demo_ctrl False) + k)"
    by (simp_all add: demo_ctrl_def)
  show ?thesis using long_press_resets [OF a(1-3), of 8 0] a(4) by blast
qed

lemma sleepAfterSend_remembers_witness:
  "\<not> motionOneTime (pir_flag (exec sleepAfterSend ((demo_ctrl True)\<lparr>pir_flag := 0xA0\<rparr>)))"
  using sleepAfterSend_remembers [of "(demo_ctrl True)\<lparr>pir_flag := 0xA0\<rparr>"]
  by (simp add: Let_def demo_ctrl_def flag_defs)

text \<open>A stack that receives a bind message, which gives the node the new address 5, in every round.\<close>

definition demo_stack :: "ctrl_st mesh_stack" where
  "demo_stack = \<lparr>mesh_loop_proc_prior = ret (),
     blt_sdk_main_loop = do { bind_store [5, 0]; ret () }, mesh_loop_process = ret (),
     light_dim_set_hw = \<lambda>_ _ _. ret (), light_dim_refresh_all = ret ()\<rparr>"

lemma demo_stack_no_reports: "no_reports demo_stack"
  unfolding no_reports_def stack_calls_def demo_stack_def
  by (auto intro!: obs_rules obs_handlers)

lemma demo_round:
  assumes "clk_sys s = (\<lambda>_. 0)" "clear_st s = 4" "ui_tick s = 0" "led_count s = 0" "led_event_pending s = 0"
    and "\<not> halted s"
  shows "goes_on (main_loop demo_stack) s \<and> rd_node_addr (exec (main_loop demo_stack) s) = 5 \<and>
    rd_box_addr (exec (main_loop demo_stack) s) = rd_box_addr s"
proof -
  let ?a = "s\<lparr>tick_loop := tick_loop s + 1\<rparr>"
  obtain b where b: "b = exec (bind_store [5, 0]) ?a" by blast
  have fb: "clk_sys b = (\<lambda>_. 0)" "clear_st b = 4" "ui_tick b = 0" "led_count b = 0" "led_event_pending b = 0"
    "\<not> halted b" "rd_node_addr b = 5" "rd_box_addr b = rd_box_addr s"
    using assms by (simp_all add: b bind_store_def exec_def hw_simps mk16_def)
  let ?c = "b\<lparr>n_sys := Suc (n_sys b)\<rparr>"
  have c: "run_state proc_ui b = ((), ?c)" "run_state (proc_led demo_stack) ?c = ((), ?c)"
    using fb by (simp_all add: proc_ui_def clock_time_exceed_def proc_led_def is_led_busy_def hw_simps)
  have d: "run_state factory_reset_cnt_check ?c = (True, ?c\<lparr>n_sys := Suc (Suc (n_sys b))\<rparr>)"
    using fb by (simp add: factory_reset_cnt_check_def clock_time_exceed_def check_loading_def
        check_counting_def check_closing_def VALID_POWER_ON_TIME_US_def hw_simps)
  have sel: "mesh_loop_proc_prior demo_stack = ret ()" "mesh_loop_process demo_stack = ret ()"
    "blt_sdk_main_loop demo_stack = do { bind_store [5, 0]; ret () }"
    by (simp_all add: demo_stack_def)
  have "snd (run_state (bind_store [5, 0]) ?a) = b"
    by (simp add: b exec_def)
  then have "run_state (main_loop demo_stack) s = (True, ?c\<lparr>n_sys := Suc (Suc (n_sys b))\<rparr>)"
    using c d assms(6) fb by (simp add: main_loop_def run_then_alive goes_on_def as_ok_def exec_def split_beta sel)
  then show ?thesis using fb by (simp add: goes_on_def exec_def)
qed

lemma sensorSendData_messages_witness:
  "rd_node_addr (demo_ctrl True) = 3 \<and>
   reports (exec (sensorSendData demo_stack True False False) (demo_ctrl True)) = [Mesh_tx 0xe5 [0x0c, 1, 80] 5 1 2]"
proof -
  let ?s1 = "exec powerUpdate (demo_ctrl True)"
  have a: "1100 \<le> unat (adc_in (demo_ctrl True) (n_adc (demo_ctrl True)))" by (simp add: demo_ctrl_def)
  have s1: "?s1 = (demo_ctrl True)\<lparr>cmds := [Adc_init GPIO_PC4], n_adc := 1\<rparr>"
    using powerUpdate_run [OF a] by (simp add: exec_def) (simp add: demo_ctrl_def)
  have t: "goes_on (to_motion demo_stack True False) ?s1"
    "rd_node_addr (exec (to_motion demo_stack True False) ?s1) = 5"
    "rd_box_addr (exec (to_motion demo_stack True False) ?s1) = 1"
  proof -
    let ?r = "exec led_init (exec (rdPrintf ''M: %d - %d'' [of_bool True, of_bool False]) ?s1)"
    have "clk_sys ?r = (\<lambda>_. 0)" "clear_st ?r = 4" "ui_tick ?r = 0" "led_count ?r = 0" "led_event_pending ?r = 0"
      "\<not> halted ?r" "rd_box_addr ?r = 1"
      unfolding s1 by (simp_all add: led_init_def led_output_def rdPrintf_def exec_bind demo_ctrl_def)
    from demo_round [OF this(1-6)] this(7)
    show "goes_on (to_motion demo_stack True False) ?s1"
      "rd_node_addr (exec (to_motion demo_stack True False) ?s1) = 5"
      "rd_box_addr (exec (to_motion demo_stack True False) ?s1) = 1"
      unfolding to_motion_def goes_on_def exec_bind run_bind by simp_all
  qed
  have "battery_level (adc_in (demo_ctrl True) (n_adc (demo_ctrl True))) = 80" "reports (demo_ctrl True) = []"
    by (simp_all add: demo_ctrl_def battery_level_def reports_def)
  then show ?thesis
    using sensorSendData_messages [OF demo_stack_no_reports a, of True False False] t
    by (simp add: demo_ctrl_def)
qed

lemma demo_quiet: "nothing_to_report (boot_decided (demo_ctrl True))"
proof -
  obtain t where t: "t = exec sUartInit (exec boot_pins (demo_ctrl True))" by blast
  have f: "pirHighState t = False" "pirLowState t = False" "analog t = (\<lambda>_. 0)" "clk32k t = (\<lambda>_. 0)"
    "i2c_in t = (\<lambda>_. [0, 0, 0])" "resetFlag t = False" "otaFlag t = False" "pin_in t = (\<lambda>p _. p = GPIO_PD4)"
    by (simp_all add: t boot_pins_def pirInit_def btn_read_def rd_factory_reset_def exec_def
        sUartInit_def sUartIoInit_def demo_ctrl_def ctrl_pins)
  obtain u where u: "u = exec pirDCInit t" by blast
  have fu: "pirHighState u = False" "pirLowState u = False" "analog u = (\<lambda>_. 0)" "clk32k u = (\<lambda>_. 0)"
    "i2c_in u = (\<lambda>_. [0, 0, 0])" "pir_flag u = 0" "timeOut u = 0" "otaFlag u = False"
    by (simp_all add: u f pirDCInit_def exec_def save_defs rdPrintf_def mk16_def)
  obtain v where v: "v = exec (pirMotionCOntrol 45) u" by blast
  have fv: "pirHighState v = False" "pirLowState v = False" "analog v = (\<lambda>_. 0)" "clk32k v = (\<lambda>_. 0)"
    "i2c_in v = (\<lambda>_. [0, 0, 0])" "pir_flag v = 0" "timeOut v = 0" "otaFlag v = False"
    by (simp_all add: v fu pirMotionCOntrol_def exec_def getMotionTime_def motionFlag_def)
  obtain w where w: "w = exec pirDetect v" by blast
  have fw: "analog w = (\<lambda>_. 0)" "i2c_in w = (\<lambda>_. [0, 0, 0])" "pir_flag w = 0" "otaFlag w = False"
    by (simp_all add: w fv pirDetect_def pir_check_timeout_def exec_def tick_defs PIR_DC_FLAG_TIMEOUT_def
        pirHighFlag_def pirLowFlag_def)
  have c: "\<not> lux_changed 30 (unat (lux_saved w)) (unat (lux_reading w))"
    by (simp add: fw lux_saved_def lux_reading_def mk16_def unat_CalculateLux lux_raw_def lux_calib_def lux_changed_def)
  have l: "fst (run_state (LuxDetect 30) w) = False" "pir_flag (exec (LuxDetect 30) w) = 0" "otaFlag (exec (LuxDetect 30) w) = False"
    using c by (simp_all add: exec_def LuxDetect_cases Let_def fw)
  let ?x = "(exec (LuxDetect 30) w)\<lparr>sendLuxFlag := False\<rparr>"
  obtain y where y: "arm_obs y = arm_obs ?x" "exec (sleepBeforSend False False False) ?x = exec (deepsleep_ms 120000) y"
    using sleepBeforSend_exec [of ?x False False False] by auto
  have "boot_decided (demo_ctrl True) = exec (sleepBeforSend False False False) ?x"
    by (simp add: boot_decided_def boot_sense_def exec_bind f l flag_defs t [symmetric] u [symmetric] v [symmetric] w [symmetric])
  then show ?thesis using y l by (simp add: nothing_to_report_def deepsleep_ms_exec arm_obs_def flag_defs)
qed

lemma quiet_wake_sleeps_before_radio_witness:
  "run_state (boot (ret ()) demo_stack) (demo_ctrl True) = (True, boot_decided (demo_ctrl True)) \<and>
   halted (boot_decided (demo_ctrl True))"
proof -
  have "flash (demo_ctrl True) 0x7f000 = 0" "pin_in (demo_ctrl True) BUTTON_PIN (n_pin (demo_ctrl True) + 2)"
    "\<not> resetFlag (demo_ctrl True)" "\<not> otaFlag (demo_ctrl True)" "\<not> halted (demo_ctrl True)"
    "\<forall>k. \<not> stays_awake (demo_ctrl True) k"
    by (simp_all add: demo_ctrl_def ctrl_pins)
  from quiet_wake_sleeps_before_radio [OF this] demo_quiet show ?thesis by blast
qed

end
