(* ===== verification/ProxyFilter.thy ===== *)
theory ProxyFilter
  imports Prelude
begin

text \<open>
  The proxy filter of \<open>vendor/common/app_proxy.c\<close>: two fixed arrays of 16 addresses with an
  occupancy bit map, the operations on them and the dispatch of the proxy configuration messages
  that a connected client sends. The arrays are shown to implement bounded finite sets.
\<close>

section \<open>State\<close>

record list_mag_str =
  list_data :: "u16 list"
  list_idx :: "u8 list"

record proxy_config_mag_str =
  filter_type :: u8
  white_list :: list_mag_str
  black_list :: list_mag_str

text \<open>
  The globals the component uses; \<open>tx_cfg\<close> logs what is handed to the stack's
  \<open>mesh_tx_cmd_layer_cfg_primary\<close>: opcode, parameters, destination.
\<close>

record proxy_st =
  proxy_mag :: proxy_config_mag_str
  proxy_filter_initial_mode :: u8
  pair_login_ok :: bool
  filter_error_cnt :: u16
  tx_cfg :: "(u8 \<times> u8 list \<times> u16) list"

definition MAX_LIST_LEN :: nat where "MAX_LIST_LEN = 16"
definition FILTER_WHITE_LIST :: u8 where "FILTER_WHITE_LIST = 0"
definition FILTER_BLACK_LIST :: u8 where "FILTER_BLACK_LIST = 1"
definition PROXY_CONFIG_FILTER_DST_ADR :: u16 where "PROXY_CONFIG_FILTER_DST_ADR = 0"

lemmas filter_consts = FILTER_WHITE_LIST_def FILTER_BLACK_LIST_def PROXY_CONFIG_FILTER_DST_ADR_def MAX_LIST_LEN_def

definition empty_list :: list_mag_str where
  "empty_list = \<lparr>list_data = replicate MAX_LIST_LEN 0, list_idx = [0, 0]\<rparr>"

definition zero_mag :: proxy_config_mag_str where
  "zero_mag = \<lparr>filter_type = 0, white_list = empty_list, black_list = empty_list\<rparr>"

section \<open>Lists\<close>

definition proxy_cfg_list_init :: "proxy_st \<Rightarrow> proxy_st" where
  "proxy_cfg_list_init s = s\<lparr>proxy_mag := zero_mag\<rparr>"

definition proxy_cfg_list_init_upon_connection :: "proxy_st \<Rightarrow> proxy_st" where
  "proxy_cfg_list_init_upon_connection s =
     (if proxy_filter_initial_mode s = FILTER_WHITE_LIST
      then s\<lparr>proxy_mag := zero_mag\<lparr>filter_type := FILTER_WHITE_LIST, white_list := empty_list\<rparr>\<rparr>
      else s\<lparr>proxy_mag := zero_mag\<lparr>filter_type := FILTER_BLACK_LIST, black_list := empty_list\<rparr>\<rparr>)"

fun find_loop :: "u16 \<Rightarrow> u16 list \<Rightarrow> bool" where
  "find_loop dst [] = False"
| "find_loop dst (x # xs) = (if dst = x then True else find_loop dst xs)"

definition find_data_in_list :: "u16 \<Rightarrow> list_mag_str \<Rightarrow> bool" where
  "find_data_in_list dst l = find_loop dst (take MAX_LIST_LEN (list_data l))"

text \<open>\<open>None\<close> is the null pointer dereference for a filter type that is neither.\<close>

definition find_data_in_mag_list :: "u16 \<Rightarrow> proxy_config_mag_str \<Rightarrow> bool option" where
  "find_data_in_mag_list src m =
     (if filter_type m = FILTER_WHITE_LIST then Some (find_data_in_list src (white_list m))
      else if filter_type m = FILTER_BLACK_LIST then Some (find_data_in_list src (black_list m))
      else None)"

definition filter_data_in_mag_list :: "u16 \<Rightarrow> proxy_config_mag_str \<Rightarrow> bool" where
  "filter_data_in_mag_list src m =
     (if filter_type m = FILTER_WHITE_LIST then
        (if find_data_in_list src (white_list m) then True else False)
      else if filter_type m = FILTER_BLACK_LIST then
        (if find_data_in_list src (black_list m) then False else True)
      else False)"

definition is_valid_adv_with_proxy_filter :: "u16 \<Rightarrow> proxy_st \<Rightarrow> bool \<times> proxy_st" where
  "is_valid_adv_with_proxy_filter src s =
     (if src = PROXY_CONFIG_FILTER_DST_ADR then (True, s)
      else let valid = filter_data_in_mag_list src (proxy_mag s) in
        (valid, if \<not> valid then s\<lparr>filter_error_cnt := filter_error_cnt s + 1\<rparr> else s))"

definition idx_bit :: "u8 list \<Rightarrow> nat \<Rightarrow> bool" where
  "idx_bit m i = bit (m ! (i div 8)) (i mod 8)"

definition get_list_cnt :: "list_mag_str \<Rightarrow> u8" where
  "get_list_cnt l = foldl (\<lambda>cnt i. if idx_bit (list_idx l) i then cnt + 1 else cnt) 0 [0..<MAX_LIST_LEN]"

text \<open>The \<open>for\<close> loops that stop at the first matching entry.\<close>

fun first_idx :: "u16 \<Rightarrow> u16 list \<Rightarrow> nat" where
  "first_idx a [] = 0"
| "first_idx a (x # xs) = (if x = a then 0 else Suc (first_idx a xs))"

definition set_idx :: "nat \<Rightarrow> bool \<Rightarrow> u8 list \<Rightarrow> u8 list" where
  "set_idx i b m = m[i div 8 := (if b then m ! (i div 8) OR push_bit (i mod 8) 1
                                 else m ! (i div 8) AND NOT (push_bit (i mod 8) 1))]"

definition add_data_to_list :: "u16 \<Rightarrow> list_mag_str \<Rightarrow> u8 \<times> list_mag_str" where
  "add_data_to_list src l =
     (if find_data_in_list src l then (2, l)
      else if of_nat MAX_LIST_LEN \<le> get_list_cnt l then (0, l)
      else let idx = first_idx 0 (take MAX_LIST_LEN (list_data l)) in
        if idx \<noteq> MAX_LIST_LEN
        then (1, l\<lparr>list_data := (list_data l)[idx := src], list_idx := set_idx idx True (list_idx l)\<rparr>)
        else (0, l))"

definition delete_data_from_list :: "u16 \<Rightarrow> list_mag_str \<Rightarrow> u8 \<times> list_mag_str" where
  "delete_data_from_list src l =
     (if \<not> find_data_in_list src l then (2, l)
      else if get_list_cnt l \<le> 0 then (0, l)
      else let idx = first_idx src (take MAX_LIST_LEN (list_data l)) in
        if idx \<noteq> MAX_LIST_LEN
        then (1, l\<lparr>list_data := (list_data l)[idx := 0], list_idx := set_idx idx False (list_idx l)\<rparr>)
        else (0, l))"

text \<open>The bytes written to the buffer, little-endian; the returned length is theirs.\<close>

definition cpy_list2buf :: "list_mag_str \<Rightarrow> u8 list" where
  "cpy_list2buf l = concat (map (\<lambda>i. if idx_bit (list_idx l) i then [lo8 (list_data l ! i), hi8 (list_data l ! i)] else [])
     [0..<MAX_LIST_LEN])"

section \<open>Messages\<close>

definition send_filter_sts :: "list_mag_str \<Rightarrow> proxy_st \<Rightarrow> proxy_st" where
  "send_filter_sts l s =
     (let n = (ucast (get_list_cnt l) :: u16) in
      s\<lparr>tx_cfg := tx_cfg s @ [(3, [filter_type (proxy_mag s), hi8 n, lo8 n], PROXY_CONFIG_FILTER_DST_ADR)]\<rparr>)"

text \<open>\<open>get_filter_pointer\<close> returns a pointer: read and write through it.\<close>

definition get_filter :: "u8 \<Rightarrow> proxy_config_mag_str \<Rightarrow> list_mag_str" where
  "get_filter t m = (if t = FILTER_WHITE_LIST then white_list m else black_list m)"

definition put_filter :: "u8 \<Rightarrow> list_mag_str \<Rightarrow> proxy_config_mag_str \<Rightarrow> proxy_config_mag_str" where
  "put_filter t l m = (if t = FILTER_WHITE_LIST then m\<lparr>white_list := l\<rparr> else m\<lparr>black_list := l\<rparr>)"

definition proxy_proc_filter_mesh_cmd :: "u16 \<Rightarrow> proxy_st \<Rightarrow> u8 \<times> proxy_st" where
  "proxy_proc_filter_mesh_cmd src s =
     (let m = proxy_mag s; t = filter_type m in
      if t = FILTER_WHITE_LIST then
        (let (r, l) = add_data_to_list src (get_filter t m) in (r, s\<lparr>proxy_mag := put_filter t l m\<rparr>))
      else if t = FILTER_BLACK_LIST then
        (let (r, l) = delete_data_from_list src (get_filter t m) in (r, s\<lparr>proxy_mag := put_filter t l m\<rparr>))
      else (0, s))"

text \<open>
  The address loop: \<open>n\<close> pairs of big-endian bytes from offset \<open>j\<close> of the packet, which may be
  read beyond its end (\<open>None\<close>).
\<close>

fun addr_loop :: "(u16 \<Rightarrow> list_mag_str \<Rightarrow> u8 \<times> list_mag_str) \<Rightarrow> u8 list \<Rightarrow> nat \<Rightarrow> nat \<Rightarrow> list_mag_str \<Rightarrow> list_mag_str option" where
  "addr_loop oper p j 0 l = Some l"
| "addr_loop oper p j (Suc n) l =
     (if j + 1 < length p then addr_loop oper p (j + 2) n (snd (oper (mk16 (p ! j) (p ! (j + 1))) l)) else None)"

text \<open>
  \<open>p\<close> is the network PDU (opcode at offset 9, parameters from 10), \<open>len\<close> its length; \<open>None\<close> is a
  read beyond its end. \<open>MD_DF_EN\<close> is 0.
\<close>

definition proxy_config_dispatch :: "u8 list \<Rightarrow> u8 \<Rightarrow> proxy_st \<Rightarrow> proxy_st option" where
  "proxy_config_dispatch p len s =
     (if length p \<le> 9 then None
      else let opcode = (p ! 9) AND 0x3f; para_len = len - 18; m = proxy_mag s; t = filter_type m in
        if opcode = 0 then
          (if length p \<le> 10 then None else let t' = p ! 10;
               s1 = s\<lparr>proxy_mag := put_filter t' empty_list (m\<lparr>filter_type := t'\<rparr>)\<rparr>
           in Some ((send_filter_sts empty_list s1)\<lparr>pair_login_ok := True\<rparr>))
        else if opcode = 1 then
          (case addr_loop add_data_to_list p 10 (unat para_len div 2) (get_filter t m) of None \<Rightarrow> None
           | Some l \<Rightarrow> Some ((send_filter_sts l (s\<lparr>proxy_mag := put_filter t l m\<rparr>))\<lparr>pair_login_ok := True\<rparr>))
        else if opcode = 2 then
          (case addr_loop delete_data_from_list p 10 (unat para_len div 2) (get_filter t m) of None \<Rightarrow> None
           | Some l \<Rightarrow> Some (send_filter_sts l (s\<lparr>proxy_mag := put_filter t l m\<rparr>)))
        else Some s)"

section \<open>Bounded sets\<close>

text \<open>
  What the users of a filter list rely on: inserting and deleting act on a finite set of at most
  \<open>cap\<close> elements, the value \<open>null\<close> being no element.
\<close>

locale bounded_set =
  fixes ok :: "'l \<Rightarrow> bool" and elems :: "'l \<Rightarrow> 'e set" and ins :: "'e \<Rightarrow> 'l \<Rightarrow> u8 \<times> 'l"
    and del :: "'e \<Rightarrow> 'l \<Rightarrow> u8 \<times> 'l" and cap :: nat and null :: 'e
  assumes ins_ok: "ok l \<Longrightarrow> ok (snd (ins a l))"
    and ins_elems: "ok l \<Longrightarrow> elems (snd (ins a l)) =
      (if a \<noteq> null \<and> (a \<in> elems l \<or> card (elems l) < cap) then insert a (elems l) else elems l)"
    and del_ok: "ok l \<Longrightarrow> ok (snd (del a l))"
    and del_elems: "ok l \<Longrightarrow> elems (snd (del a l)) = elems l - {a}"
    and bounded: "ok l \<Longrightarrow> finite (elems l) \<and> card (elems l) \<le> cap"
begin

definition ins_all :: "'e list \<Rightarrow> 'l \<Rightarrow> 'l" where
  "ins_all as l = fold (\<lambda>a l. snd (ins a l)) as l"

definition del_all :: "'e list \<Rightarrow> 'l \<Rightarrow> 'l" where
  "del_all as l = fold (\<lambda>a l. snd (del a l)) as l"

lemma del_all_elems: "ok l \<Longrightarrow> ok (del_all as l) \<and> elems (del_all as l) = elems l - set as"
  unfolding del_all_def by (induction as arbitrary: l) (auto simp: del_ok del_elems)

lemma ins_all_ok: "ok l \<Longrightarrow> ok (ins_all as l)"
  unfolding ins_all_def by (induction as arbitrary: l) (auto simp: ins_ok)

lemma ins_all_bounds: "ok l \<Longrightarrow> elems l \<subseteq> elems (ins_all as l) \<and> elems (ins_all as l) \<subseteq> elems l \<union> (set as - {null})"
  unfolding ins_all_def
proof (induction as arbitrary: l)
  case (Cons a as)
  have "elems l \<subseteq> elems (snd (ins a l))" "elems (snd (ins a l)) \<subseteq> elems l \<union> ({a} - {null})"
    using ins_elems [OF Cons.prems, of a] by auto
  then show ?case using Cons.IH [OF ins_ok [OF Cons.prems, of a]] by auto
qed simp

lemma ins_all_fits:
  "ok l \<Longrightarrow> card (elems l \<union> (set as - {null})) \<le> cap \<Longrightarrow> elems (ins_all as l) = elems l \<union> (set as - {null})"
  unfolding ins_all_def
proof (induction as arbitrary: l)
  case (Cons a as)
  let ?u = "elems l \<union> (set (a # as) - {null})"
  have fin: "finite ?u" using bounded [OF Cons.prems(1)] by simp
  have e: "elems (snd (ins a l)) = elems l \<union> ({a} - {null})"
  proof (cases "a = null \<or> a \<in> elems l")
    case False
    then have "insert a (elems l) \<subseteq> ?u" by auto
    then have "card (insert a (elems l)) \<le> cap" using card_mono [OF fin] Cons.prems(2) by (meson le_trans)
    then have "card (elems l) < cap" using False bounded [OF Cons.prems(1)] by simp
    then show ?thesis using False ins_elems [OF Cons.prems(1), of a] by auto
  qed (use ins_elems [OF Cons.prems(1), of a] in auto)
  have "elems (snd (ins a l)) \<union> (set as - {null}) = ?u" unfolding e by auto
  then show ?case using Cons.IH [OF ins_ok [OF Cons.prems(1), of a]] Cons.prems(2) by simp
qed simp

end

section \<open>The arrays are bounded sets\<close>

definition list_ok :: "list_mag_str \<Rightarrow> bool" where
  "list_ok l \<longleftrightarrow> length (list_data l) = 16 \<and> length (list_idx l) = 2 \<and>
     (\<forall>i<16. idx_bit (list_idx l) i = (list_data l ! i \<noteq> 0)) \<and> distinct (filter (\<lambda>a. a \<noteq> 0) (list_data l))"

definition list_addrs :: "list_mag_str \<Rightarrow> u16 set" where
  "list_addrs l = set (list_data l) - {0}"

lemma find_loop_iff: "find_loop a xs = (a \<in> set xs)"
  by (induction xs) auto

lemma first_idx_spec:
  "a \<in> set xs \<Longrightarrow> first_idx a xs < length xs \<and> xs ! first_idx a xs = a"
  "a \<notin> set xs \<Longrightarrow> first_idx a xs = length xs"
  by (induction xs) auto

lemma idx_bit_set_idx:
  assumes "length m = 2" "i < 16" "j < 16"
  shows "idx_bit (set_idx i b m) j = (if i = j then b else idx_bit m j)"
proof -
  have k: "i mod 8 < 8" "j mod 8 < 8" by simp_all
  have eq: "i = j \<longleftrightarrow> i div 8 = j div 8 \<and> i mod 8 = j mod 8" by (metis mult_div_mod_eq)
  have lt: "i div 8 < 2" using assms(2) by (simp add: less_mult_imp_div_less)
  show ?thesis
  proof (cases "i div 8 = j div 8")
    case True
    then show ?thesis using lt assms(1) k
      by (auto simp: idx_bit_def set_idx_def eq bit_simps)
  next
    case False
    then show ?thesis by (auto simp: idx_bit_def set_idx_def)
  qed
qed

lemma count_fold:
  "foldl (\<lambda>cnt i. if P i then cnt + 1 else cnt) c xs = (c :: u8) + of_nat (length (filter P xs))"
  by (induction xs arbitrary: c) auto

lemma get_list_cnt_eq:
  assumes "list_ok l"
  shows "get_list_cnt l = of_nat (card (list_addrs l))" "card (list_addrs l) = length (filter (\<lambda>a. a \<noteq> 0) (list_data l))"
    "card (list_addrs l) \<le> 16"
proof -
  let ?d = "list_data l"
  have d: "length ?d = 16" using assms by (simp add: list_ok_def)
  have "set (filter (\<lambda>a. a \<noteq> 0) ?d) = list_addrs l" by (auto simp: list_addrs_def)
  then show c: "card (list_addrs l) = length (filter (\<lambda>a. a \<noteq> 0) ?d)"
    using distinct_card assms by (metis list_ok_def)
  then show "card (list_addrs l) \<le> 16" using d length_filter_le [of "\<lambda>a. a \<noteq> 0" ?d] by simp
  have "filter (\<lambda>i. idx_bit (list_idx l) i) [0..<16] = filter (\<lambda>i. ?d ! i \<noteq> 0) [0..<16]"
    by (rule filter_cong) (use assms in \<open>auto simp: list_ok_def\<close>)
  moreover have "length (filter (\<lambda>i. ?d ! i \<noteq> 0) [0..<length ?d]) = length (filter (\<lambda>a. a \<noteq> 0) ?d)"
    by (metis (no_types, lifting) comp_apply filter_cong filter_map length_map map_nth)
  ultimately show "get_list_cnt l = of_nat (card (list_addrs l))"
    unfolding get_list_cnt_def MAX_LIST_LEN_def count_fold c using d by simp
qed

lemma split_at: "i < length d \<Longrightarrow> d = take i d @ d ! i # drop (Suc i) d"
  by (rule id_take_nth_drop)

lemma list_ok_update:
  assumes "list_ok l" "i < 16" "a = 0 \<or> a \<notin> set (list_data l)"
  shows "list_ok (l\<lparr>list_data := (list_data l)[i := a], list_idx := set_idx i (a \<noteq> 0) (list_idx l)\<rparr>)"
proof -
  let ?d = "list_data l"
  have d: "length ?d = 16" "length (list_idx l) = 2" using assms(1) by (simp_all add: list_ok_def)
  have idx: "idx_bit (set_idx i (a \<noteq> 0) (list_idx l)) j = (?d[i := a] ! j \<noteq> 0)" if "j < 16" for j
    using idx_bit_set_idx [OF d(2) assms(2) that] assms(1,2) that d(1) by (auto simp: list_ok_def)
  have sp: "?d = take i ?d @ ?d ! i # drop (Suc i) ?d" by (rule split_at) (use assms(2) d in simp)
  have up: "?d[i := a] = take i ?d @ a # drop (Suc i) ?d" by (rule upd_conv_take_nth_drop) (use assms(2) d in simp)
  have "distinct (filter (\<lambda>a. a \<noteq> 0) (take i ?d @ ?d ! i # drop (Suc i) ?d))"
    using assms(1) sp by (metis list_ok_def)
  moreover have "a \<notin> set (take i ?d) \<and> a \<notin> set (drop (Suc i) ?d) \<or> a = 0"
    using assms(3) by (auto dest: in_set_takeD in_set_dropD)
  ultimately have "distinct (filter (\<lambda>a. a \<noteq> 0) (?d[i := a]))"
    unfolding up by (auto split: if_splits)
  then show ?thesis using idx d by (simp add: list_ok_def set_idx_def)
qed

lemma addrs_update:
  assumes "list_ok l" "i < 16"
  shows "list_addrs (l\<lparr>list_data := (list_data l)[i := a], list_idx := m\<rparr>) = (list_addrs l - {list_data l ! i}) \<union> ({a} - {0})"
proof -
  let ?d = "list_data l"
  have d: "length ?d = 16" using assms(1) by (simp add: list_ok_def)
  have sp: "?d = take i ?d @ ?d ! i # drop (Suc i) ?d" by (rule split_at) (use assms(2) d in simp)
  have up: "?d[i := a] = take i ?d @ a # drop (Suc i) ?d" by (rule upd_conv_take_nth_drop) (use assms(2) d in simp)
  have dist: "distinct (filter (\<lambda>a. a \<noteq> 0) (take i ?d @ ?d ! i # drop (Suc i) ?d))"
    using assms(1) sp by (metis list_ok_def)
  have "?d ! i = 0 \<or> ?d ! i \<notin> set (take i ?d) \<union> set (drop (Suc i) ?d)"
    using dist by (auto split: if_splits)
  moreover have "set ?d = insert (?d ! i) (set (take i ?d) \<union> set (drop (Suc i) ?d))"
    by (subst sp) auto
  moreover have "set (?d[i := a]) = insert a (set (take i ?d) \<union> set (drop (Suc i) ?d))"
    unfolding up by auto
  ultimately show ?thesis by (auto simp: list_addrs_def)
qed

lemma find_data_iff: "list_ok l \<Longrightarrow> find_data_in_list a l = (a \<in> set (list_data l))"
  by (simp add: find_data_in_list_def find_loop_iff MAX_LIST_LEN_def list_ok_def)

lemma find_data_nonzero: "list_ok l \<Longrightarrow> a \<noteq> 0 \<Longrightarrow> find_data_in_list a l = (a \<in> list_addrs l)"
  by (simp add: find_data_iff list_addrs_def)

lemma full_iff:
  assumes "list_ok l"
  shows "(of_nat MAX_LIST_LEN \<le> get_list_cnt l) = (card (list_addrs l) = 16)" "0 \<notin> set (list_data l) \<longleftrightarrow> card (list_addrs l) = 16"
proof -
  have c: "card (list_addrs l) \<le> 16" by (rule get_list_cnt_eq(3) [OF assms])
  have "(of_nat MAX_LIST_LEN \<le> get_list_cnt l) = (16 \<le> card (list_addrs l) mod 256)"
    by (simp add: get_list_cnt_eq(1) [OF assms] MAX_LIST_LEN_def word_le_nat_alt)
  then show "(of_nat MAX_LIST_LEN \<le> get_list_cnt l) = (card (list_addrs l) = 16)" using c by auto
  have "length (filter (\<lambda>a. a \<noteq> 0) (list_data l)) = 16 \<longleftrightarrow> 0 \<notin> set (list_data l)"
  proof
    assume "length (filter (\<lambda>a. a \<noteq> 0) (list_data l)) = 16"
    then have "filter (\<lambda>a. a \<noteq> 0) (list_data l) = list_data l"
      using assms by (metis filter_True list_ok_def length_filter_less less_irrefl)
    then show "0 \<notin> set (list_data l)" by (metis (mono_tags, lifting) filter_id_conv)
  next
    assume "0 \<notin> set (list_data l)"
    then have "filter (\<lambda>a. a \<noteq> 0) (list_data l) = list_data l" by (metis (mono_tags, lifting) filter_id_conv)
    then show "length (filter (\<lambda>a. a \<noteq> 0) (list_data l)) = 16" using assms by (simp add: list_ok_def)
  qed
  then show "0 \<notin> set (list_data l) \<longleftrightarrow> card (list_addrs l) = 16" by (simp add: get_list_cnt_eq(2) [OF assms])
qed

lemma add_cases:
  assumes "list_ok l"
  shows "add_data_to_list a l =
    (if a \<in> set (list_data l) then (2, l) else if card (list_addrs l) = 16 then (0, l)
     else let idx = first_idx 0 (list_data l) in
       (1, l\<lparr>list_data := (list_data l)[idx := a], list_idx := set_idx idx True (list_idx l)\<rparr>))"
    and "card (list_addrs l) \<noteq> 16 \<Longrightarrow> first_idx 0 (list_data l) < 16 \<and> list_data l ! first_idx 0 (list_data l) = 0"
proof -
  have d: "length (list_data l) = 16" using assms by (simp add: list_ok_def)
  show f: "first_idx 0 (list_data l) < 16 \<and> list_data l ! first_idx 0 (list_data l) = 0" if "card (list_addrs l) \<noteq> 16"
    using first_idx_spec(1) [of 0 "list_data l"] full_iff(2) [OF assms] that d by simp
  then show "add_data_to_list a l =
    (if a \<in> set (list_data l) then (2, l) else if card (list_addrs l) = 16 then (0, l)
     else let idx = first_idx 0 (list_data l) in
       (1, l\<lparr>list_data := (list_data l)[idx := a], list_idx := set_idx idx True (list_idx l)\<rparr>))"
    using d full_iff(1) [OF assms] f
    by (auto simp: add_data_to_list_def find_data_iff [OF assms] Let_def) (simp_all add: MAX_LIST_LEN_def)
qed

lemma add_spec:
  assumes "list_ok l"
  shows "list_ok (snd (add_data_to_list a l))"
    and "list_addrs (snd (add_data_to_list a l)) =
      (if a \<noteq> 0 \<and> (a \<in> list_addrs l \<or> card (list_addrs l) < 16) then insert a (list_addrs l) else list_addrs l)"
    and "a \<noteq> 0 \<Longrightarrow> fst (add_data_to_list a l) = (if a \<in> list_addrs l then 2 else if card (list_addrs l) < 16 then 1 else 0)"
proof -
  have mem: "a \<noteq> 0 \<Longrightarrow> (a \<in> set (list_data l)) = (a \<in> list_addrs l)" by (simp add: list_addrs_def)
  have zero: "0 \<in> set (list_data l) \<longleftrightarrow> card (list_addrs l) \<noteq> 16" using full_iff(2) [OF assms] by blast
  have le: "card (list_addrs l) \<le> 16" by (rule get_list_cnt_eq(3) [OF assms])
  show "a \<noteq> 0 \<Longrightarrow> fst (add_data_to_list a l) = (if a \<in> list_addrs l then 2 else if card (list_addrs l) < 16 then 1 else 0)"
    using le mem by (auto simp: add_cases(1) [OF assms] Let_def)
  consider "a \<in> set (list_data l) \<or> card (list_addrs l) = 16" | "a \<notin> set (list_data l)" "card (list_addrs l) \<noteq> 16" by blast
  then have "list_ok (snd (add_data_to_list a l)) \<and> list_addrs (snd (add_data_to_list a l)) =
      (if a \<noteq> 0 \<and> (a \<in> list_addrs l \<or> card (list_addrs l) < 16) then insert a (list_addrs l) else list_addrs l)"
  proof cases
    case 1
    then show ?thesis using assms mem by (auto simp: add_cases(1) [OF assms] insert_absorb)
  next
    case 2
    let ?i = "first_idx 0 (list_data l)"
    have i: "?i < 16" "list_data l ! ?i = 0" using add_cases(2) [OF assms 2(2)] by simp_all
    have a: "a \<noteq> 0" using 2 zero by metis
    have e: "snd (add_data_to_list a l) = l\<lparr>list_data := (list_data l)[?i := a], list_idx := set_idx ?i (a \<noteq> 0) (list_idx l)\<rparr>"
      using 2 a by (simp add: add_cases(1) [OF assms] Let_def)
    have "0 \<notin> list_addrs l" by (simp add: list_addrs_def)
    then show ?thesis unfolding e
      using list_ok_update [OF assms i(1), of a] addrs_update [OF assms i(1), where a = a] 2 a i(2) le by auto
  qed
  then show "list_ok (snd (add_data_to_list a l))"
    "list_addrs (snd (add_data_to_list a l)) =
      (if a \<noteq> 0 \<and> (a \<in> list_addrs l \<or> card (list_addrs l) < 16) then insert a (list_addrs l) else list_addrs l)"
    by simp_all
qed

lemma delete_spec:
  assumes "list_ok l"
  shows "list_ok (snd (delete_data_from_list a l))"
    and "list_addrs (snd (delete_data_from_list a l)) = list_addrs l - {a}"
    and "a \<noteq> 0 \<Longrightarrow> fst (delete_data_from_list a l) = (if a \<in> list_addrs l then 1 else 2)"
proof -
  have d: "length (list_data l) = 16" using assms by (simp add: list_ok_def)
  have cnt: "get_list_cnt l \<le> 0 \<longleftrightarrow> list_addrs l = {}"
  proof -
    have "finite (list_addrs l)" by (simp add: list_addrs_def)
    then show ?thesis using get_list_cnt_eq(3) [OF assms]
      by (simp add: get_list_cnt_eq(1) [OF assms] word_le_nat_alt)
  qed
  show res: "fst (delete_data_from_list a l) = (if a \<in> list_addrs l then 1 else 2)" if "a \<noteq> 0"
    using that cnt d first_idx_spec(1) [of a "list_data l"]
    by (auto simp: delete_data_from_list_def find_data_iff [OF assms] MAX_LIST_LEN_def Let_def list_addrs_def)
  have "list_ok (snd (delete_data_from_list a l)) \<and> list_addrs (snd (delete_data_from_list a l)) = list_addrs l - {a}"
  proof (cases "a \<in> set (list_data l) \<and> list_addrs l \<noteq> {}")
    case False
    then show ?thesis using assms cnt
      by (auto simp: delete_data_from_list_def find_data_iff [OF assms] list_addrs_def)
  next
    case True
    let ?i = "first_idx a (list_data l)"
    have i: "?i < 16" "list_data l ! ?i = a" using first_idx_spec(1) [of a "list_data l"] True d by simp_all
    have e: "snd (delete_data_from_list a l) = l\<lparr>list_data := (list_data l)[?i := 0], list_idx := set_idx ?i (0 \<noteq> (0 :: u16)) (list_idx l)\<rparr>"
      using True cnt i d by (simp add: delete_data_from_list_def find_data_iff [OF assms] MAX_LIST_LEN_def Let_def)
    show ?thesis unfolding e
      using list_ok_update [OF assms i(1), of 0] addrs_update [OF assms i(1), where a = 0] i(2) by simp
  qed
  then show "list_ok (snd (delete_data_from_list a l))" "list_addrs (snd (delete_data_from_list a l)) = list_addrs l - {a}"
    by simp_all
qed

interpretation flt: bounded_set list_ok list_addrs add_data_to_list delete_data_from_list 16 0
proof unfold_locales
  fix l :: list_mag_str assume "list_ok l"
  then show "finite (list_addrs l) \<and> card (list_addrs l) \<le> 16"
    using get_list_cnt_eq(3) by (simp add: list_addrs_def)
qed (simp_all add: add_spec delete_spec)

section \<open>Messages act on the sets\<close>

definition msg_addrs :: "u8 list \<Rightarrow> nat \<Rightarrow> nat \<Rightarrow> u16 list" where
  "msg_addrs p j n = map (\<lambda>i. mk16 (p ! (j + 2 * i)) (p ! (j + 2 * i + 1))) [0..<n]"

lemma msg_addrs_Suc: "msg_addrs p j (Suc n) = mk16 (p ! j) (p ! (j + 1)) # msg_addrs p (j + 2) n"
  by (simp add: msg_addrs_def upt_conv_Cons map_Suc_upt [symmetric] comp_def del: upt_Suc map_Suc_upt)

lemma addr_loop_fold:
  "addr_loop oper p j n l = (if n = 0 \<or> j + 2 * n \<le> length p
     then Some (fold (\<lambda>a l. snd (oper a l)) (msg_addrs p j n) l) else None)"
proof (induction n arbitrary: j l)
  case 0
  then show ?case by (simp add: msg_addrs_def)
next
  case (Suc n)
  show ?case
  proof (cases "j + 1 < length p")
    case True
    then show ?thesis unfolding addr_loop.simps if_P [OF True] Suc.IH msg_addrs_Suc by (cases n) auto
  qed simp
qed

definition mag_ok :: "proxy_config_mag_str \<Rightarrow> bool" where
  "mag_ok m \<longleftrightarrow> list_ok (white_list m) \<and> list_ok (black_list m)"

text \<open>The addresses of the list that the current filter type selects.\<close>

definition filter_set :: "proxy_st \<Rightarrow> u16 set" where
  "filter_set s = list_addrs (get_filter (filter_type (proxy_mag s)) (proxy_mag s))"

lemma empty_list_ok [simp]: "list_ok empty_list" "list_addrs empty_list = {}"
proof -
  have "idx_bit [0, 0] i = False" if "i < 16" for i
  proof -
    have "i div 8 < 2" using that by (simp add: less_mult_imp_div_less)
    then have "i div 8 = 0 \<or> i div 8 = 1" by linarith
    then show ?thesis by (auto simp: idx_bit_def)
  qed
  then show "list_ok empty_list" "list_addrs empty_list = {}"
    by (simp_all add: list_ok_def empty_list_def list_addrs_def MAX_LIST_LEN_def)
qed

lemma get_put_filter [simp]: "get_filter t (put_filter t l m) = l" "filter_type (put_filter t l m) = filter_type m"
  by (simp_all add: get_filter_def put_filter_def)

lemma put_filter_ok: "mag_ok m \<Longrightarrow> list_ok l \<Longrightarrow> mag_ok (put_filter t l m)"
  by (simp add: mag_ok_def put_filter_def)

lemma get_filter_ok: "mag_ok m \<Longrightarrow> list_ok (get_filter t m)"
  by (simp add: mag_ok_def get_filter_def)

lemma send_filter_sts_fields [simp]:
  "proxy_mag (send_filter_sts l s) = proxy_mag s" "pair_login_ok (send_filter_sts l s) = pair_login_ok s"
  "tx_cfg (send_filter_sts l s) = tx_cfg s @ [(3, [filter_type (proxy_mag s),
     hi8 (ucast (get_list_cnt l)), lo8 (ucast (get_list_cnt l))], 0)]"
  by (simp_all add: send_filter_sts_def Let_def filter_consts)

text \<open>
C38: The filter messages of a client act on the selected list as on a bounded set: a complete
"add" message inserts its addresses while there is room, all of them if at most 16 result, and
never an address that was not sent or not there; a "remove" message deletes exactly its
addresses; both leave the arrays well formed and answer with the new number of addresses.
\<close>

theorem filter_messages_act_on_sets:
  assumes "mag_ok (proxy_mag s)" "18 \<le> unat len" "unat len \<le> length p"
    and "(p ! 9) AND 0x3f = oper" "oper = 1 \<or> oper = 2"
  shows "\<exists>s'. proxy_config_dispatch p len s = Some s' \<and> mag_ok (proxy_mag s') \<and>
    (let as = set (msg_addrs p 10 ((unat len - 18) div 2)); A = filter_set s; A' = filter_set s' in
      (oper = 1 \<longrightarrow> A \<subseteq> A' \<and> A' \<subseteq> A \<union> (as - {0}) \<and> (card (A \<union> (as - {0})) \<le> 16 \<longrightarrow> A' = A \<union> (as - {0}))) \<and>
      (oper = 2 \<longrightarrow> A' = A - as) \<and>
      tx_cfg s' = tx_cfg s @ [(3, [filter_type (proxy_mag s), 0, of_nat (card A')], 0)])"
proof -
  let ?m = "proxy_mag s" and ?n = "(unat len - 18) div 2"
  let ?t = "filter_type ?m"
  let ?l = "get_filter ?t ?m"
  let ?as = "msg_addrs p 10 ?n"
  have ok: "list_ok ?l" by (rule get_filter_ok [OF assms(1)])
  have len: "unat (len - 18) = unat len - 18" using assms(2) by (simp add: unat_sub word_le_nat_alt)
  have b: "10 + 2 * ?n \<le> length p" "9 < length p" using assms(2,3) by simp_all
  obtain f where f: "f = (if oper = 1 then flt.ins_all ?as ?l else flt.del_all ?as ?l)" by blast
  have okf: "list_ok f" using flt.ins_all_ok [OF ok] flt.del_all_elems [OF ok] by (simp add: f)
  have cnt: "hi8 (ucast (get_list_cnt f)) = 0" "lo8 (ucast (get_list_cnt f)) = of_nat (card (list_addrs f))"
    using get_list_cnt_eq [OF okf]
    by (simp_all add: word_unat_eq_iff hi8_def lo8_def unat_ucast_narrow drop_bit_eq_div unat_div_distrib)
  obtain s' where s': "proxy_config_dispatch p len s = Some s'" "proxy_mag s' = put_filter ?t f ?m"
    "tx_cfg s' = tx_cfg s @ [(3, [?t, hi8 (ucast (get_list_cnt f)), lo8 (ucast (get_list_cnt f))], 0)]"
    using assms(4,5) b
    by (auto simp: proxy_config_dispatch_def Let_def addr_loop_fold len f flt.ins_all_def flt.del_all_def)
  have "filter_set s' = list_addrs f" by (simp add: filter_set_def s'(2))
  moreover have "filter_set s = list_addrs ?l" by (simp add: filter_set_def)
  moreover have "mag_ok (proxy_mag s')" using put_filter_ok [OF assms(1) okf] s'(2) by simp
  ultimately show ?thesis
    using s'(1,3) cnt f flt.ins_all_bounds [OF ok, of ?as] flt.ins_all_fits [OF ok, of ?as] flt.del_all_elems [OF ok, of ?as] assms(5)
    by (intro exI [of _ s']) (auto simp: Let_def)
qed

lemma upon_connection_ok: "mag_ok (proxy_mag (proxy_cfg_list_init_upon_connection s))"
  by (simp add: proxy_cfg_list_init_upon_connection_def zero_mag_def mag_ok_def)

lemma filter_passes_iff:
  assumes "mag_ok (proxy_mag s)"
  shows "fst (is_valid_adv_with_proxy_filter src s) \<longleftrightarrow> src = 0 \<or>
    filter_type (proxy_mag s) = 0 \<and> src \<in> filter_set s \<or> filter_type (proxy_mag s) = 1 \<and> src \<notin> filter_set s"
proof (cases "src = 0")
  case False
  have "find_data_in_list src (get_filter t (proxy_mag s)) = (src \<in> list_addrs (get_filter t (proxy_mag s)))" for t
    by (rule find_data_nonzero [OF get_filter_ok [OF assms] False])
  from this [of 0] this [of 1] show ?thesis using False
    by (auto simp: is_valid_adv_with_proxy_filter_def filter_data_in_mag_list_def Let_def filter_set_def
        get_filter_def filter_consts)
qed (simp add: is_valid_adv_with_proxy_filter_def filter_consts)

text \<open>
What passes to a client is decided by the sets alone: address 0 always, an address in the
accept list, or one not in the reject list. Setting the filter type empties the selected list; the
type byte is not checked, and with any value above 1 nothing but address 0 passes any more,
whatever addresses are added afterwards.
\<close>

theorem filter_type_message:
  assumes "mag_ok (proxy_mag s)" "10 < length p" "(p ! 9) AND 0x3f = 0"
  shows "\<exists>s'. proxy_config_dispatch p len s = Some s' \<and> mag_ok (proxy_mag s') \<and>
    filter_type (proxy_mag s') = p ! 10 \<and> filter_set s' = {} \<and>
    (\<forall>src. fst (is_valid_adv_with_proxy_filter src s') \<longleftrightarrow> src = 0 \<or> p ! 10 = 1) \<and>
    (1 < p ! 10 \<longrightarrow> (\<forall>q n t src. proxy_config_dispatch q n s' = Some t \<and> (q ! 9) AND 0x3f \<noteq> 0 \<and> src \<noteq> 0 \<longrightarrow>
       \<not> fst (is_valid_adv_with_proxy_filter src t)))"
proof -
  obtain s' where s': "proxy_config_dispatch p len s = Some s'"
    "proxy_mag s' = put_filter (p ! 10) empty_list ((proxy_mag s)\<lparr>filter_type := p ! 10\<rparr>)"
    using assms(2,3) by (simp add: proxy_config_dispatch_def Let_def)
  have ok: "mag_ok (proxy_mag s')" using assms(1) by (simp add: s' mag_ok_def put_filter_def)
  have t: "filter_type (proxy_mag s') = p ! 10" "filter_set s' = {}" by (simp_all add: s' filter_set_def)
  have blocked: "\<not> fst (is_valid_adv_with_proxy_filter src u)"
    if "1 < p ! 10" "proxy_config_dispatch q n s' = Some u" "(q ! 9) AND 0x3f \<noteq> 0" "src \<noteq> 0" for q n u src
  proof -
    have "filter_type (proxy_mag u) = p ! 10"
      using that(2,3) t(1) by (auto simp: proxy_config_dispatch_def Let_def split: if_splits option.splits)
    then show ?thesis using that(1,4)
      by (auto simp: is_valid_adv_with_proxy_filter_def filter_data_in_mag_list_def Let_def filter_consts)
  qed
  have "fst (is_valid_adv_with_proxy_filter src s') \<longleftrightarrow> src = 0 \<or> p ! 10 = 1" for src
    using filter_passes_iff [OF ok] t by simp
  then show ?thesis using s'(1) ok t blocked by blast
qed

text \<open>
  \<open>len - 18\<close> is computed in 8 bits: an "add" message shorter than 18 bytes is taken to hold more
  than a hundred addresses, far beyond any network PDU.
\<close>

lemma short_add_reads_beyond:
  assumes "(p ! 9) AND 0x3f = 1" "unat len < 18" "length p \<le> 29"
  shows "proxy_config_dispatch p len s = None"
proof -
  have "unat (len - 18) = 238 + unat len" using assms(2) by (simp add: unat_sub_u8)
  then have "\<not> (unat (len - 18) div 2 = 0 \<or> 10 + 2 * (unat (len - 18) div 2) \<le> length p)"
    using assms(3) by simp
  then show ?thesis using assms(1) by (simp add: proxy_config_dispatch_def Let_def addr_loop_fold)
qed

definition demo_proxy :: "u8 \<Rightarrow> proxy_st" where
  "demo_proxy t = \<lparr>proxy_mag = zero_mag\<lparr>filter_type := t\<rparr>, proxy_filter_initial_mode = 0, pair_login_ok = False,
     filter_error_cnt = 0, tx_cfg = []\<rparr>"

lemma demo_proxy_ok: "mag_ok (proxy_mag (demo_proxy t))"
  by (simp add: demo_proxy_def zero_mag_def mag_ok_def)

lemma filter_messages_act_on_sets_witness:
  "\<exists>s'. proxy_config_dispatch ([0, 0, 0, 0, 0, 0, 0, 0, 0, 1, 0, 5, 0xC0, 1] @ replicate 8 0) 22 (demo_proxy 0) = Some s' \<and>
     filter_set s' = {5, 0xC001}"
proof -
  let ?p = "[0, 0, 0, 0, 0, 0, 0, 0, 0, 1, 0, 5, 0xC0, 1] @ replicate 8 0 :: u8 list"
  have m: "set (msg_addrs ?p 10 2) = {5, 0xC001}" by (simp add: msg_addrs_def upt_rec mk16_def)
  have e: "filter_set (demo_proxy 0) = {}" by (simp add: filter_set_def demo_proxy_def zero_mag_def get_filter_def)
  have "card ({5, 0xC001} :: u16 set) = 2" by simp
  then show ?thesis
    using filter_messages_act_on_sets [OF demo_proxy_ok, of 22 ?p 1 0] m e by (auto simp: Let_def)
qed

lemma filter_type_message_witness:
  "\<exists>s'. proxy_config_dispatch [0, 0, 0, 0, 0, 0, 0, 0, 0, 0, 2] 19 (demo_proxy 0) = Some s' \<and>
     \<not> fst (is_valid_adv_with_proxy_filter 7 s')"
  using filter_type_message [OF demo_proxy_ok, of "[0, 0, 0, 0, 0, 0, 0, 0, 0, 0, 2]" 19 0] by auto

end
