(* ===== verification/ProxySar.thy ===== *)
theory ProxySar
  imports ProxyFilter
begin

text \<open>
  Segmentation and reassembly on the GATT bearers: \<open>vendor/common/app_provison.c\<close> (the reassembler
  and its error and timeout handling), the attribute write handlers of \<open>vendor/mesh/app_att.c\<close> and
  \<open>set_proxy_initial_mode\<close> of \<open>app_proxy.c\<close>.

  The reassembly buffer is an array of 80 cells. A copy that leaves it, or reads past the bytes
  received, is \<open>None\<close>.
\<close>

section \<open>State\<close>

record att_data =
  l2cap :: u16
  dat :: "u8 list"

text \<open>What is handed to code outside this model.\<close>

datatype gatt_out =
    Terminate u8
  | Prov_link_timeout
  | To_provisioning "u8 list"
  | To_network "u8 list"
  | To_secure_beacon "u8 list"

record gatt_st =
  sar_start :: bool
  sar_end :: bool
  err_flag :: bool
  sar_tick :: u32
  idx_num :: u8
  proxy_para_buf :: "u8 list"
  proxy_para_len :: u8
  provision_timeout_tick :: u32
  provision_In_ccc :: "u8 \<times> u8"
  provision_Out_ccc :: "u8 \<times> u8"
  proxy_In_ccc :: "u8 \<times> u8"
  proxy_Out_ccc :: "u8 \<times> u8"
  conn_beacon_flag :: bool
  beacon_tick :: u32
  filters :: proxy_st
  outs :: "gatt_out list"

definition PROVISION_GATT_MAX_LEN :: nat where "PROVISION_GATT_MAX_LEN = 80"
definition PROXY_PDU_TIMEOUT_TICK :: u32 where "PROXY_PDU_TIMEOUT_TICK = 20000000"
definition GATT_PROVISION_TIMEOUT :: u32 where "GATT_PROVISION_TIMEOUT = 20000000"

definition SAR_COMPLETE :: u8 where "SAR_COMPLETE = 0"
definition SAR_START :: u8 where "SAR_START = 1"
definition SAR_CONTINUS :: u8 where "SAR_CONTINUS = 2"
definition SAR_END :: u8 where "SAR_END = 3"

definition MSG_NETWORK_PDU :: u8 where "MSG_NETWORK_PDU = 0"
definition MSG_MESH_BEACON :: u8 where "MSG_MESH_BEACON = 1"
definition MSG_PROXY_CONFIG :: u8 where "MSG_PROXY_CONFIG = 2"
definition MSG_PROVISION_PDU :: u8 where "MSG_PROVISION_PDU = 3"

lemmas sar_consts = SAR_COMPLETE_def SAR_START_def SAR_CONTINUS_def SAR_END_def PROVISION_GATT_MAX_LEN_def
lemmas msg_consts = MSG_NETWORK_PDU_def MSG_MESH_BEACON_def MSG_PROXY_CONFIG_def MSG_PROVISION_PDU_def

section \<open>The segmentation state machine\<close>

definition mesh_proxy_sar_para_init :: "gatt_st \<Rightarrow> gatt_st" where
  "mesh_proxy_sar_para_init s = s\<lparr>sar_start := False, sar_end := True, err_flag := False, sar_tick := 0\<rparr>"

definition mesh_proxy_sar_start :: "u32 \<Rightarrow> gatt_st \<Rightarrow> gatt_st" where
  "mesh_proxy_sar_start now s =
     (if \<not> sar_start s \<and> sar_end s then s\<lparr>sar_start := True, sar_end := False, sar_tick := now OR 1\<rparr>
      else s\<lparr>err_flag := True\<rparr>)"

definition mesh_proxy_sar_continue :: "u32 \<Rightarrow> gatt_st \<Rightarrow> gatt_st" where
  "mesh_proxy_sar_continue now s =
     (if sar_start s \<and> \<not> sar_end s then s\<lparr>sar_tick := now OR 1\<rparr> else s\<lparr>err_flag := True\<rparr>)"

definition mesh_proxy_sar_end :: "gatt_st \<Rightarrow> gatt_st" where
  "mesh_proxy_sar_end s =
     (if sar_start s \<and> \<not> sar_end s then s\<lparr>sar_start := False, sar_end := True, sar_tick := 0\<rparr>
      else s\<lparr>err_flag := True\<rparr>)"

definition mesh_proxy_sar_complete :: "gatt_st \<Rightarrow> gatt_st" where
  "mesh_proxy_sar_complete s =
     (if \<not> sar_start s \<and> sar_end s then s\<lparr>sar_tick := 0\<rparr> else s\<lparr>err_flag := True\<rparr>)"

definition mesh_proxy_sar_err_terminate :: "gatt_st \<Rightarrow> gatt_st" where
  "mesh_proxy_sar_err_terminate s = (if err_flag s then mesh_proxy_sar_para_init s else s)"

definition mesh_proxy_sar_timeout_terminate :: "u32 \<Rightarrow> gatt_st \<Rightarrow> gatt_st" where
  "mesh_proxy_sar_timeout_terminate now s =
     (if sar_tick s \<noteq> 0 \<and> clock_exceeds now (sar_tick s) PROXY_PDU_TIMEOUT_TICK
      then (mesh_proxy_sar_para_init s)\<lparr>outs := outs s @ [Terminate 0x13]\<rparr> else s)"

definition set_proxy_initial_mode :: "bool \<Rightarrow> gatt_st \<Rightarrow> gatt_st" where
  "set_proxy_initial_mode special_mode s = mesh_proxy_sar_para_init
     (s\<lparr>filters := (filters s)\<lparr>proxy_filter_initial_mode := (if special_mode then FILTER_BLACK_LIST else FILTER_WHITE_LIST)\<rparr>\<rparr>)"

definition set_prov_timeout_tick :: "u32 \<Rightarrow> gatt_st \<Rightarrow> gatt_st" where
  "set_prov_timeout_tick tick s = s\<lparr>provision_timeout_tick := tick\<rparr>"

definition provision_timeout_cb :: "u32 \<Rightarrow> gatt_st \<Rightarrow> gatt_st" where
  "provision_timeout_cb now s =
     (if provision_timeout_tick s \<noteq> 0 \<and> clock_exceeds now (provision_timeout_tick s) GATT_PROVISION_TIMEOUT
      then s\<lparr>provision_timeout_tick := 0, outs := outs s @ [Prov_link_timeout]\<rparr> else s)"

lemmas sar_step_defs = mesh_proxy_sar_para_init_def mesh_proxy_sar_start_def mesh_proxy_sar_continue_def
  mesh_proxy_sar_end_def mesh_proxy_sar_complete_def mesh_proxy_sar_err_terminate_def

section \<open>Reassembly\<close>

text \<open>The first byte of a PDU: six bits of message type, two bits of segmentation.\<close>

definition msgType :: "att_data \<Rightarrow> u8" where
  "msgType p = (dat p ! 0) AND 0x3f"

definition sar :: "att_data \<Rightarrow> u8" where
  "sar p = drop_bit 6 (dat p ! 0)"

datatype l2cap_type = L2CAP_PROVISON_TYPE | L2CAP_PROXY_TYPE | L2CAP_BEACON_TYPE | L2CAP_NETWORK_TYPE

fun type_msg :: "l2cap_type \<Rightarrow> u8" where
  "type_msg L2CAP_PROVISON_TYPE = MSG_PROVISION_PDU"
| "type_msg L2CAP_PROXY_TYPE = MSG_PROXY_CONFIG"
| "type_msg L2CAP_BEACON_TYPE = MSG_MESH_BEACON"
| "type_msg L2CAP_NETWORK_TYPE = MSG_NETWORK_PDU"

text \<open>The \<open>memcpy\<close> to \<open>p_rcv + idx_num\<close>, \<open>base\<close> being the offset of \<open>p_rcv\<close> in the buffer.\<close>

definition copy_payload :: "nat \<Rightarrow> att_data \<Rightarrow> u8 \<Rightarrow> gatt_st \<Rightarrow> gatt_st option" where
  "copy_payload base p len s =
     (let off = base + unat (idx_num s); n = unat len in
      if 1 + n \<le> length (dat p) \<and> off + n \<le> PROVISION_GATT_MAX_LEN
      then Some (s\<lparr>proxy_para_buf := wr_bytes (proxy_para_buf s) off (rd_bytes (dat p) 1 n), idx_num := idx_num s + len\<rparr>)
      else None)"

definition pkt_pb_gatt_data :: "u32 \<Rightarrow> att_data \<Rightarrow> l2cap_type \<Rightarrow> nat \<Rightarrow> gatt_st \<Rightarrow> (bool \<times> gatt_st) option" where
  "pkt_pb_gatt_data now p typ base s =
     (if dat p = [] then None
      else if msgType p \<noteq> type_msg typ then Some (False, s)
      else let len_payload = (ucast (l2cap p - 4) :: u8);
               len_total = (if sar p = SAR_CONTINUS \<or> sar p = SAR_END then idx_num s else 0) + len_payload;
               finish = (\<lambda>s. let s = mesh_proxy_sar_err_terminate s in Some (True, s\<lparr>proxy_para_len := idx_num s\<rparr>)) in
        if unat len_total > PROVISION_GATT_MAX_LEN then Some (False, mesh_proxy_sar_para_init s)
        else if sar p = SAR_START then
          (case copy_payload base p len_payload (s\<lparr>idx_num := 0\<rparr>) of None \<Rightarrow> None
           | Some s \<Rightarrow> Some (False, mesh_proxy_sar_start now s))
        else if sar p = SAR_CONTINUS then
          (case copy_payload base p len_payload s of None \<Rightarrow> None
           | Some s \<Rightarrow> Some (False, mesh_proxy_sar_continue now s))
        else if sar p = SAR_END then
          (case copy_payload base p len_payload s of None \<Rightarrow> None
           | Some s \<Rightarrow> finish (mesh_proxy_sar_end s))
        else
          (case copy_payload base p len_payload (s\<lparr>idx_num := 0\<rparr>) of None \<Rightarrow> None
           | Some s \<Rightarrow> finish (mesh_proxy_sar_complete s)))"

section \<open>Attribute handlers\<close>

definition pb_gatt_provision_out_ccc_cb :: "att_data \<Rightarrow> gatt_st \<Rightarrow> gatt_st option" where
  "pb_gatt_provision_out_ccc_cb p s =
     (if length (dat p) < 2 then None
      else Some (s\<lparr>provision_Out_ccc := (dat p ! 0, dat p ! 1), conn_beacon_flag := True\<rparr>))"

definition proxy_out_ccc_cb :: "u32 \<Rightarrow> att_data \<Rightarrow> gatt_st \<Rightarrow> gatt_st option" where
  "proxy_out_ccc_cb now p s =
     (if length (dat p) < 2 then None
      else Some (s\<lparr>proxy_Out_ccc := (dat p ! 0, dat p ! 1), conn_beacon_flag := True, beacon_tick := now\<rparr>))"

definition pb_gatt_Write :: "u32 \<Rightarrow> att_data \<Rightarrow> gatt_st \<Rightarrow> (bool \<times> gatt_st) option" where
  "pb_gatt_Write now p s =
     (if provision_In_ccc s = (0, 0) then Some (False, s)
      else case pkt_pb_gatt_data now p L2CAP_PROVISON_TYPE 0 s of None \<Rightarrow> None
        | Some (False, s) \<Rightarrow> Some (False, s)
        | Some (True, s) \<Rightarrow>
            Some (True, s\<lparr>outs := outs s @ [To_provisioning (take (unat (proxy_para_len s)) (proxy_para_buf s))]\<rparr>))"

text \<open>
  The bearer header in front of a proxy PDU: \<open>trans_par_val\<close>, \<open>len\<close> and \<open>type\<close> are the cells 0 to 2
  of the buffer, the PDU starts in cell 3 (\<open>NW_OFF\<close>).
\<close>

definition NW_OFF :: nat where "NW_OFF = 3"

definition bear_head :: "u8 \<Rightarrow> gatt_st \<Rightarrow> gatt_st" where
  "bear_head tdp s = s\<lparr>proxy_para_buf := wr_bytes (proxy_para_buf s) 0 [tdp, proxy_para_len s + 1, 0x2A]\<rparr>"

text \<open>
  \<open>tdp\<close> is the configured network transmit value. \<open>cfg_gatt\<close> stands for the stack's
  \<open>mesh_rc_data_cfg_gatt\<close>: it decrypts the bearer in place and says whether that succeeded.
\<close>

definition config_received :: "u8 \<Rightarrow> (u8 list \<Rightarrow> bool \<times> u8 list) \<Rightarrow> gatt_st \<Rightarrow> gatt_st option" where
  "config_received tdp cfg_gatt s =
     (let s = bear_head tdp s; (ok, buf) = cfg_gatt (proxy_para_buf s); s = s\<lparr>proxy_para_buf := buf\<rparr> in
      if ok then
        (case proxy_config_dispatch (drop NW_OFF buf) (proxy_para_len s) (filters s) of None \<Rightarrow> None
         | Some f \<Rightarrow> Some (s\<lparr>filters := f\<rparr>))
      else Some s)"

definition proxy_gatt_Write :: "u8 \<Rightarrow> (u8 list \<Rightarrow> bool \<times> u8 list) \<Rightarrow> u32 \<Rightarrow> att_data \<Rightarrow> gatt_st \<Rightarrow> gatt_st option" where
  "proxy_gatt_Write tdp cfg_gatt now p s =
     (if proxy_In_ccc s = (0, 0) then Some s
      else if dat p = [] then None
      else if msgType p = MSG_PROXY_CONFIG then
        (case pkt_pb_gatt_data now p L2CAP_PROXY_TYPE NW_OFF s of None \<Rightarrow> None
         | Some (False, s) \<Rightarrow> Some s
         | Some (True, s) \<Rightarrow> config_received tdp cfg_gatt s)
      else if msgType p = MSG_MESH_BEACON then
        (case pkt_pb_gatt_data now p L2CAP_BEACON_TYPE NW_OFF s of None \<Rightarrow> None
         | Some (False, s) \<Rightarrow> Some s
         | Some (True, s) \<Rightarrow>
            (if proxy_para_buf s ! NW_OFF = 1 then
               let s = s\<lparr>proxy_para_buf := (proxy_para_buf s)[1 := 23]\<rparr>
               in Some (s\<lparr>outs := outs s @ [To_secure_beacon (drop 1 (proxy_para_buf s))]\<rparr>)
             else Some s))
      else if msgType p = MSG_NETWORK_PDU then
        (case pkt_pb_gatt_data now p L2CAP_NETWORK_TYPE NW_OFF s of None \<Rightarrow> None
         | Some (False, s) \<Rightarrow> Some s
         | Some (True, s) \<Rightarrow>
            (let s = bear_head tdp s in Some (s\<lparr>outs := outs s @ [To_network (proxy_para_buf s)]\<rparr>)))
      else Some s)"

section \<open>Splitting a message\<close>

text \<open>How a client splits a message of type \<open>m\<close>: the pieces in order, each in one write.\<close>

definition att_of :: "u8 \<Rightarrow> u8 \<Rightarrow> u8 list \<Rightarrow> att_data" where
  "att_of m k xs = \<lparr>l2cap = of_nat (length xs + 4), dat = (push_bit 6 k OR m) # xs\<rparr>"

fun tail_segments :: "u8 \<Rightarrow> u8 list list \<Rightarrow> att_data list" where
  "tail_segments m [] = []"
| "tail_segments m [x] = [att_of m SAR_END x]"
| "tail_segments m (x # y # xs) = att_of m SAR_CONTINUS x # tail_segments m (y # xs)"

fun segments :: "u8 \<Rightarrow> u8 list list \<Rightarrow> att_data list" where
  "segments m [] = []"
| "segments m [x] = [att_of m SAR_COMPLETE x]"
| "segments m (x # y # xs) = att_of m SAR_START x # tail_segments m (y # xs)"

definition sar_idle :: "gatt_st \<Rightarrow> bool" where
  "sar_idle s \<longleftrightarrow> \<not> sar_start s \<and> sar_end s \<and> \<not> err_flag s \<and> sar_tick s = 0"

lemma type_msg_cases: "type_msg t = 0 \<or> type_msg t = 1 \<or> type_msg t = 2 \<or> type_msg t = 3"
  by (cases t) (simp_all add: msg_consts)

lemma att_of_fields:
  assumes "m < 4" "k < 4"
  shows "msgType (att_of m k xs) = m" "sar (att_of m k xs) = k" "dat (att_of m k xs) = (push_bit 6 k OR m) # xs"
    "(ucast (l2cap (att_of m k xs) - 4) :: u8) = of_nat (length xs)"
proof -
  have lt: "\<And>x :: u8. x < 4 \<Longrightarrow> x = 0 \<or> x = 1 \<or> x = 2 \<or> x = 3"
  proof -
    fix x :: u8 assume "x < 4"
    then have "unat x < 4" by (simp add: word_less_nat_alt)
    then have "unat x = 0 \<or> unat x = 1 \<or> unat x = 2 \<or> unat x = 3" by linarith
    then show "x = 0 \<or> x = 1 \<or> x = 2 \<or> x = 3" by (simp add: word_unat_eq_iff)
  qed
  show "msgType (att_of m k xs) = m" "sar (att_of m k xs) = k"
    using lt [OF assms(1)] lt [OF assms(2)] by (auto simp: msgType_def sar_def att_of_def)
  show "dat (att_of m k xs) = (push_bit 6 k OR m) # xs" by (simp add: att_of_def)
  have "unat (ucast (l2cap (att_of m k xs) - 4) :: u8) = unat (of_nat (length xs) :: u8)"
    by (simp add: att_of_def unat_ucast_narrow mod_mod_cancel)
  then show "(ucast (l2cap (att_of m k xs) - 4) :: u8) = of_nat (length xs)"
    by (simp only: word_unat_eq_iff)
qed

text \<open>What has been collected so far, and what reassembly does not touch.\<close>

definition holds_msg :: "nat \<Rightarrow> u8 list \<Rightarrow> gatt_st \<Rightarrow> bool" where
  "holds_msg base xs s \<longleftrightarrow> length (proxy_para_buf s) = 80 \<and> unat (idx_num s) = length xs \<and>
     rd_bytes (proxy_para_buf s) base (length xs) = xs"

definition untouched :: "gatt_st \<Rightarrow> _" where
  "untouched s = (filters s, outs s, provision_In_ccc s, provision_Out_ccc s, proxy_In_ccc s, proxy_Out_ccc s,
     conn_beacon_flag s, beacon_tick s, provision_timeout_tick s)"

lemma sar_steps_frame [simp]:
  "untouched (mesh_proxy_sar_para_init s) = untouched s" "untouched (mesh_proxy_sar_start now s) = untouched s"
  "untouched (mesh_proxy_sar_continue now s) = untouched s" "untouched (mesh_proxy_sar_end s) = untouched s"
  "untouched (mesh_proxy_sar_complete s) = untouched s" "untouched (mesh_proxy_sar_err_terminate s) = untouched s"
  "untouched (s\<lparr>idx_num := i\<rparr>) = untouched s" "untouched (s\<lparr>proxy_para_len := i\<rparr>) = untouched s"
  "untouched (s\<lparr>proxy_para_buf := b\<rparr>) = untouched s"
  by (simp_all add: untouched_def sar_step_defs)

lemma sar_steps_holds [simp]:
  "holds_msg b xs (mesh_proxy_sar_para_init s) = holds_msg b xs s" "holds_msg b xs (mesh_proxy_sar_start now s) = holds_msg b xs s"
  "holds_msg b xs (mesh_proxy_sar_continue now s) = holds_msg b xs s" "holds_msg b xs (mesh_proxy_sar_end s) = holds_msg b xs s"
  "holds_msg b xs (mesh_proxy_sar_complete s) = holds_msg b xs s"
  "holds_msg b xs (mesh_proxy_sar_err_terminate s) = holds_msg b xs s"
  "holds_msg b xs (s\<lparr>proxy_para_len := i\<rparr>) = holds_msg b xs s"
  by (simp_all add: holds_msg_def sar_step_defs)

lemma sar_finish_idle [simp]:
  "sar_idle (mesh_proxy_sar_err_terminate (mesh_proxy_sar_end s))"
  "sar_idle (mesh_proxy_sar_err_terminate (mesh_proxy_sar_complete s))"
  "sar_idle (s\<lparr>proxy_para_len := i\<rparr>) = sar_idle s"
  by (auto simp: sar_idle_def sar_step_defs)

lemma holds_nil: "length (proxy_para_buf s) = 80 \<Longrightarrow> holds_msg base [] (s\<lparr>idx_num := 0\<rparr>)"
  by (simp add: holds_msg_def rd_bytes_def)

lemma rd_bytes_append: "rd_bytes b off (n + m) = rd_bytes b off n @ rd_bytes b (off + n) m"
  unfolding rd_bytes_def take_add by (simp add: add.commute)

lemma copy_holds:
  assumes "holds_msg base xs s" "base + length xs + length ys \<le> 80" "dat p = h # ys" "unat len = length ys"
  shows "\<exists>s'. copy_payload base p len s = Some s' \<and> holds_msg base (xs @ ys) s' \<and> untouched s' = untouched s"
proof -
  have h: "length (proxy_para_buf s) = 80" "unat (idx_num s) = length xs"
    "rd_bytes (proxy_para_buf s) base (length xs) = xs"
    using assms(1) by (simp_all add: holds_msg_def)
  let ?b = "wr_bytes (proxy_para_buf s) (base + length xs) ys"
  let ?s = "s\<lparr>proxy_para_buf := ?b, idx_num := idx_num s + len\<rparr>"
  have "rd_bytes (dat p) 1 (unat len) = ys" using assms(3,4) by (simp add: rd_bytes_def)
  then have c: "copy_payload base p len s = Some ?s"
    using assms(2-4) h by (simp add: copy_payload_def Let_def PROVISION_GATT_MAX_LEN_def)
  have "rd_bytes ?b base (length xs) = xs"
    by (subst rd_wr_bytes_other) (use assms(2) h in simp_all)
  moreover have "rd_bytes ?b (base + length xs) (length ys) = ys"
    by (subst rd_wr_bytes_same) (use assms(2) h in simp_all)
  ultimately have "rd_bytes ?b base (length (xs @ ys)) = xs @ ys" by (simp add: rd_bytes_append)
  moreover have "unat (idx_num s + len) = length (xs @ ys)"
    using assms(2,4) h(2) by (simp add: unat_add_u8)
  ultimately have "holds_msg base (xs @ ys) ?s" using h assms(2) by (simp add: holds_msg_def)
  then show ?thesis using c by simp
qed

text \<open>A run of writes with the times at which they arrive.\<close>

fun pkt_seq :: "l2cap_type \<Rightarrow> nat \<Rightarrow> (u32 \<times> att_data) list \<Rightarrow> gatt_st \<Rightarrow> (bool list \<times> gatt_st) option" where
  "pkt_seq t base [] s = Some ([], s)"
| "pkt_seq t base ((now, p) # ps) s =
     (case pkt_pb_gatt_data now p t base s of None \<Rightarrow> None
      | Some (r, s') \<Rightarrow> (case pkt_seq t base ps s' of None \<Rightarrow> None | Some (rs, s'') \<Rightarrow> Some (r # rs, s'')))"

lemma pkt_step:
  assumes "holds_msg base xs (if k = SAR_CONTINUS \<or> k = SAR_END then s else s\<lparr>idx_num := 0\<rparr>)"
    and "base + length xs + length ys \<le> 80" "k < 4"
  shows "\<exists>s'. pkt_pb_gatt_data now (att_of (type_msg t) k ys) t base s = Some (k = SAR_END \<or> k = SAR_COMPLETE, s') \<and>
    holds_msg base (xs @ ys) s' \<and> untouched s' = untouched s \<and>
    (k = SAR_END \<or> k = SAR_COMPLETE \<longrightarrow> sar_idle s' \<and> proxy_para_len s' = idx_num s')"
proof -
  have tm: "type_msg t < 4" using type_msg_cases [of t] by auto
  note f = att_of_fields [OF tm assms(3), of ys]
  let ?s = "if k = SAR_CONTINUS \<or> k = SAR_END then s else s\<lparr>idx_num := 0\<rparr>"
  let ?len = "of_nat (length ys) :: u8"
  have len: "unat ?len = length ys" using assms(2) by simp
  obtain s1 where s1: "copy_payload base (att_of (type_msg t) k ys) ?len ?s = Some s1" "holds_msg base (xs @ ys) s1"
    "untouched s1 = untouched s"
    using copy_holds [OF assms(1,2) f(3) len] by auto
  have "unat (idx_num ?s + ?len) \<le> 80"
    using assms(1,2) len by (simp add: unat_add_u8 holds_msg_def)
  then have tot: "\<not> 80 < unat ((if k = SAR_CONTINUS \<or> k = SAR_END then idx_num s else 0) + ?len)"
    by (auto split: if_splits)
  have "k = SAR_COMPLETE \<or> k = SAR_START \<or> k = SAR_CONTINUS \<or> k = SAR_END"
  proof -
    have "unat k < 4" using assms(3) by (simp add: word_less_nat_alt)
    then have "unat k = 0 \<or> unat k = 1 \<or> unat k = 2 \<or> unat k = 3" by linarith
    then show ?thesis by (simp add: word_unat_eq_iff sar_consts)
  qed
  then show ?thesis
    using s1 tot f len
    by (elim disjE; simp add: pkt_pb_gatt_data_def Let_def sar_consts)
qed

lemma tail_delivered:
  assumes "xss \<noteq> []" "holds_msg base xs s" "base + length xs + length (concat xss) \<le> 80"
    and "map snd ps = tail_segments (type_msg t) xss"
  shows "\<exists>s'. pkt_seq t base ps s = Some (replicate (length xss - 1) False @ [True], s') \<and>
    holds_msg base (xs @ concat xss) s' \<and> untouched s' = untouched s \<and> sar_idle s' \<and> proxy_para_len s' = idx_num s'"
  using assms
proof (induction "type_msg t" xss arbitrary: xs s ps rule: tail_segments.induct)
  case (2 y)
  then obtain now where ps: "ps = [(now, att_of (type_msg t) SAR_END y)]" by (auto simp: map_eq_Cons_conv)
  show ?case using pkt_step [of base xs SAR_END s y now t] "2.prems" by (auto simp: ps sar_consts)
next
  case (3 y z zs)
  then obtain now qs where ps: "ps = (now, att_of (type_msg t) SAR_CONTINUS y) # qs"
    "map snd qs = tail_segments (type_msg t) (z # zs)" by (auto simp: map_eq_Cons_conv)
  obtain s1 where s1: "pkt_pb_gatt_data now (att_of (type_msg t) SAR_CONTINUS y) t base s = Some (False, s1)"
    "holds_msg base (xs @ y) s1" "untouched s1 = untouched s"
    using pkt_step [of base xs SAR_CONTINUS s y now t] "3.prems" by (auto simp: sar_consts)
  show ?case using "3.hyps" [OF _ s1(2) _ ps(2)] "3.prems"(3) s1 by (auto simp: ps)
qed simp

lemma segments_delivered:
  assumes "xss \<noteq> []" "base + length (concat xss) \<le> 80" "length (proxy_para_buf s) = 80"
    and "map snd ps = segments (type_msg t) xss"
  shows "\<exists>s'. pkt_seq t base ps s = Some (replicate (length xss - 1) False @ [True], s') \<and>
    holds_msg base (concat xss) s' \<and> untouched s' = untouched s \<and> sar_idle s' \<and> proxy_para_len s' = idx_num s'"
proof (cases "tl xss")
  case Nil
  then obtain y where x: "xss = [y]" using assms(1) by (cases xss) auto
  then obtain now where ps: "ps = [(now, att_of (type_msg t) SAR_COMPLETE y)]"
    using assms(4) by (auto simp: map_eq_Cons_conv)
  show ?thesis using pkt_step [of base "[]" SAR_COMPLETE s y now t] holds_nil [OF assms(3)] assms(2)
    by (auto simp: ps x sar_consts)
next
  case (Cons z zs)
  then obtain y where x: "xss = y # z # zs" using assms(1) by (cases xss) auto
  then obtain now qs where ps: "ps = (now, att_of (type_msg t) SAR_START y) # qs"
    "map snd qs = tail_segments (type_msg t) (z # zs)" using assms(4) by (auto simp: map_eq_Cons_conv)
  obtain s1 where s1: "pkt_pb_gatt_data now (att_of (type_msg t) SAR_START y) t base s = Some (False, s1)"
    "holds_msg base y s1" "untouched s1 = untouched s"
    using pkt_step [of base "[]" SAR_START s y now t] holds_nil [OF assms(3)] assms(2) by (auto simp: x sar_consts)
  obtain s' where "pkt_seq t base qs s1 = Some (replicate (length zs) False @ [True], s')"
    "holds_msg base (concat xss) s'" "untouched s' = untouched s1" "sar_idle s'" "proxy_para_len s' = idx_num s'"
    using tail_delivered [OF _ s1(2) _ ps(2)] assms(2) by (auto simp: x)
  then show ?thesis using s1 by (auto simp: ps x)
qed

text \<open>
C19: Reassembly inverts segmentation from every state: however a message of at most 80 bytes
(counted with the offset of its buffer) is cut, and whatever was received or lost before, its
last write and no earlier one delivers exactly the message, and leaves the reassembler idle with
its error flag clear.
\<close>

theorem reassembly_inverts_segmentation:
  assumes "xss \<noteq> []" "base + length (concat xss) \<le> 80" "length (proxy_para_buf s) = 80"
    and "map snd ps = segments (type_msg t) xss"
  shows "\<exists>s'. pkt_seq t base ps s = Some (replicate (length xss - 1) False @ [True], s') \<and>
    rd_bytes (proxy_para_buf s') base (unat (proxy_para_len s')) = concat xss \<and>
    sar_idle s' \<and> untouched s' = untouched s \<and> length (proxy_para_buf s') = 80"
  using segments_delivered [OF assms] by (auto simp: holds_msg_def)

definition demo_gatt :: gatt_st where
  "demo_gatt = \<lparr>sar_start = True, sar_end = False, err_flag = False, sar_tick = 7, idx_num = 75,
     proxy_para_buf = replicate 80 0xEE, proxy_para_len = 9, provision_timeout_tick = 0, provision_In_ccc = (1, 0),
     provision_Out_ccc = (0, 0), proxy_In_ccc = (1, 0), proxy_Out_ccc = (0, 0), conn_beacon_flag = False,
     beacon_tick = 0, filters = demo_proxy 0, outs = []\<rparr>"

lemma demo_gatt_fields [simp]: "length (proxy_para_buf demo_gatt) = 80" "idx_num demo_gatt = 75"
  "proxy_In_ccc demo_gatt = (1, 0)" "filters demo_gatt = demo_proxy 0"
  "sar_start demo_gatt" "\<not> sar_end demo_gatt" "\<not> err_flag demo_gatt" "sar_tick demo_gatt = 7"
  by (simp_all add: demo_gatt_def)

lemma reassembly_inverts_segmentation_witness:
  "\<exists>s'. pkt_seq L2CAP_PROXY_TYPE 3 (zip [10, 20, 30] (segments 2 [[1, 2], [3], [4, 5]])) demo_gatt = Some ([False, False, True], s') \<and>
     rd_bytes (proxy_para_buf s') 3 (unat (proxy_para_len s')) = [1, 2, 3, 4, 5]"
  using reassembly_inverts_segmentation [of "[[1, 2], [3], [4, 5]]" 3 demo_gatt
      "zip [10, 20, 30] (segments 2 [[1, 2], [3], [4, 5]])" L2CAP_PROXY_TYPE]
  by (auto simp: msg_consts numeral_eq_Suc)

section \<open>Memory safety and the state machine\<close>

text \<open>
  A write as the attribute layer makes it: at least the header byte, the bytes counted by the
  \<open>l2cap\<close> length, and no more than the largest the buffers of the link layer hold.
\<close>

definition att_ok :: "att_data \<Rightarrow> bool" where
  "att_ok p \<longleftrightarrow> 4 \<le> unat (l2cap p) \<and> unat (l2cap p) \<le> 179 \<and> length (dat p) = unat (l2cap p) - 3"

definition sar_inv :: "gatt_st \<Rightarrow> bool" where
  "sar_inv s \<longleftrightarrow> length (proxy_para_buf s) = 80 \<and> unat (idx_num s) \<le> 80 \<and>
     (sar_start s \<and> \<not> sar_end s \<and> sar_tick s \<noteq> 0 \<or> \<not> sar_start s \<and> sar_end s \<and> sar_tick s = 0)"

definition collected :: "att_data \<Rightarrow> gatt_st \<Rightarrow> nat" where
  "collected p s = (if sar p = SAR_CONTINUS \<or> sar p = SAR_END then unat (idx_num s) else 0) + (unat (l2cap p) - 4)"

lemma or_1_nonzero: "(now :: u32) OR 1 \<noteq> 0"
  by (simp add: or_eq_0_iff)

lemma sar_steps_inv:
  assumes "sar_inv s" "unat i \<le> 80" "length b = 80"
  shows "sar_inv (mesh_proxy_sar_start now (s\<lparr>proxy_para_buf := b, idx_num := i\<rparr>))"
    "sar_inv (mesh_proxy_sar_continue now (s\<lparr>proxy_para_buf := b, idx_num := i\<rparr>))"
    "sar_inv (mesh_proxy_sar_err_terminate (mesh_proxy_sar_end (s\<lparr>proxy_para_buf := b, idx_num := i\<rparr>)))"
    "sar_inv (mesh_proxy_sar_err_terminate (mesh_proxy_sar_complete (s\<lparr>proxy_para_buf := b, idx_num := i\<rparr>)))"
  using assms or_1_nonzero by (auto simp: sar_inv_def sar_step_defs)

lemma para_init_inv: "sar_inv s \<Longrightarrow> sar_inv (mesh_proxy_sar_para_init s)"
  by (simp add: sar_inv_def sar_step_defs)

lemma copy_payload_cases:
  assumes "length (proxy_para_buf s) = 80" "1 + unat len \<le> length (dat p)"
  shows "copy_payload base p len s =
    (if base + unat (idx_num s) + unat len \<le> 80
     then Some (s\<lparr>proxy_para_buf := wr_bytes (proxy_para_buf s) (base + unat (idx_num s)) (rd_bytes (dat p) 1 (unat len)),
       idx_num := idx_num s + len\<rparr>) else None)"
  using assms by (simp add: copy_payload_def Let_def PROVISION_GATT_MAX_LEN_def)

lemma att_ok_len:
  assumes "att_ok p"
  shows "unat (ucast (l2cap p - 4) :: u8) = unat (l2cap p) - 4" "1 + unat (ucast (l2cap p - 4) :: u8) \<le> length (dat p)"
    "dat p \<noteq> []" "unat (ucast (l2cap p - 4) :: u8) \<le> 175"
proof -
  have "unat (l2cap p - 4) = unat (l2cap p) - 4" using assms by (simp add: att_ok_def unat_sub word_le_nat_alt)
  then show u: "unat (ucast (l2cap p - 4) :: u8) = unat (l2cap p) - 4"
    using assms by (auto simp: att_ok_def unat_ucast_narrow intro: mod_less)
  show "1 + unat (ucast (l2cap p - 4) :: u8) \<le> length (dat p)" "dat p \<noteq> []"
    "unat (ucast (l2cap p - 4) :: u8) \<le> 175"
    using assms unfolding u by (auto simp: att_ok_def)
qed

text \<open>
C28: A write of up to 175 payload bytes never leaves the reassembly buffer of the provisioning
bearer, and keeps the reassembler well formed; for the proxy bearer, which collects at offset 3
of the same buffer but is checked against the buffer's full size, it runs over the end exactly
when 78 to 80 bytes are collected.
\<close>

theorem reassembly_memory:
  assumes "sar_inv s" "att_ok p" "base \<le> 80"
  shows "(pkt_pb_gatt_data now p t base s = None \<longleftrightarrow>
      msgType p = type_msg t \<and> 80 - base < collected p s \<and> collected p s \<le> 80) \<and>
    (\<forall>r s'. pkt_pb_gatt_data now p t base s = Some (r, s') \<longrightarrow> sar_inv s')"
proof (cases "msgType p = type_msg t \<and> collected p s \<le> 80")
  case False
  let ?len = "ucast (l2cap p - 4) :: u8"
  let ?i = "if sar p = SAR_CONTINUS \<or> sar p = SAR_END then idx_num s else 0"
  have "unat (?i + ?len) = collected p s"
    using att_ok_len [OF assms(2)] assms(1) by (auto simp: collected_def unat_add_u8 sar_inv_def)
  then show ?thesis
    using False assms(1) att_ok_len(3) [OF assms(2)] para_init_inv [OF assms(1)]
    by (auto simp: pkt_pb_gatt_data_def Let_def PROVISION_GATT_MAX_LEN_def sar_inv_def)
next
  case True
  let ?len = "ucast (l2cap p - 4) :: u8"
  let ?i = "if sar p = SAR_CONTINUS \<or> sar p = SAR_END then idx_num s else 0"
  obtain s0 where s0: "s0 = s\<lparr>idx_num := ?i\<rparr>" by blast
  have l: "length (proxy_para_buf s0) = 80" using assms(1) by (simp add: s0 sar_inv_def)
  have i: "unat ?i + unat ?len = collected p s" "unat (?i + ?len) = collected p s"
    using att_ok_len [OF assms(2)] True by (auto simp: collected_def unat_add_u8)
  have c: "copy_payload base p ?len s0 = (if base + collected p s \<le> 80
     then Some (s\<lparr>proxy_para_buf := wr_bytes (proxy_para_buf s) (base + unat ?i) (rd_bytes (dat p) 1 (unat ?len)),
       idx_num := ?i + ?len\<rparr>) else None)"
    using copy_payload_cases [OF l att_ok_len(2) [OF assms(2)], of base] i by (simp add: s0)
  let ?s = "s\<lparr>proxy_para_buf := wr_bytes (proxy_para_buf s) (base + unat ?i) (rd_bytes (dat p) 1 (unat ?len)),
       idx_num := ?i + ?len\<rparr>"
  have inv: "sar_inv (mesh_proxy_sar_start now ?s)" "sar_inv (mesh_proxy_sar_continue now ?s)"
    "sar_inv (mesh_proxy_sar_err_terminate (mesh_proxy_sar_end ?s))"
    "sar_inv (mesh_proxy_sar_err_terminate (mesh_proxy_sar_complete ?s))" if "base + collected p s \<le> 80"
    using sar_steps_inv [OF assms(1), of "?i + ?len" "wr_bytes (proxy_para_buf s) (base + unat ?i) (rd_bytes (dat p) 1 (unat ?len))"]
      True that i l att_ok_len(2) [OF assms(2)] by (simp_all add: s0)
  have pl: "sar_inv (u\<lparr>proxy_para_len := n\<rparr>) = sar_inv u" for u n by (simp add: sar_inv_def)
  have eq: "pkt_pb_gatt_data now p t base s = (case copy_payload base p ?len s0 of None \<Rightarrow> None
     | Some u \<Rightarrow> if sar p = SAR_START then Some (False, mesh_proxy_sar_start now u)
        else if sar p = SAR_CONTINUS then Some (False, mesh_proxy_sar_continue now u)
        else let v = mesh_proxy_sar_err_terminate (if sar p = SAR_END then mesh_proxy_sar_end u else mesh_proxy_sar_complete u)
          in Some (True, v\<lparr>proxy_para_len := idx_num v\<rparr>))"
    using True i(2) att_ok_len(3) [OF assms(2)]
    by (cases "copy_payload base p ?len s0")
      (auto simp: pkt_pb_gatt_data_def Let_def PROVISION_GATT_MAX_LEN_def s0 sar_consts split: if_splits)
  show ?thesis
    using True c inv assms(3) by (auto simp: eq Let_def pl split: if_splits)
qed

lemma reassembly_memory_witness:
  "pkt_pb_gatt_data 0 (att_of 2 SAR_END [1, 2, 3, 4]) L2CAP_PROXY_TYPE 3 demo_gatt = None \<and>
   pkt_pb_gatt_data 0 (att_of 3 SAR_END [1, 2, 3, 4]) L2CAP_PROVISON_TYPE 0 demo_gatt \<noteq> None"
proof -
  have i: "sar_inv demo_gatt" by (simp add: sar_inv_def)
  have a: "att_ok (att_of m SAR_END [1, 2, 3, 4])" for m by (simp add: att_ok_def att_of_def)
  have c: "msgType (att_of 2 SAR_END [1, 2, 3, 4]) = 2" "collected (att_of 2 SAR_END [1, 2, 3, 4]) demo_gatt = 79"
    "collected (att_of 3 SAR_END [1, 2, 3, 4]) demo_gatt = 79"
    by (simp_all add: att_of_def msgType_def sar_consts collected_def sar_def)
  show ?thesis
    using reassembly_memory [OF i a [of 2], of 3 0 L2CAP_PROXY_TYPE]
      reassembly_memory [OF i a [of 3], of 0 0 L2CAP_PROVISON_TYPE] c by (simp add: msg_consts)
qed

lemma timeout_terminates_iff:
  assumes "sar_inv s"
  shows "mesh_proxy_sar_timeout_terminate now s =
    (if sar_start s \<and> 320000000 < now - sar_tick s
     then (mesh_proxy_sar_para_init s)\<lparr>outs := outs s @ [Terminate 0x13]\<rparr> else s)"
    "sar_inv (mesh_proxy_sar_timeout_terminate now s)"
  using assms
  by (auto simp: mesh_proxy_sar_timeout_terminate_def clock_exceeds_def PROXY_PDU_TIMEOUT_TICK_def sar_inv_def
      mesh_proxy_sar_para_init_def)

lemma set_proxy_initial_mode_inv:
  "sar_inv s \<Longrightarrow> sar_inv (set_proxy_initial_mode b s) \<and>
    proxy_filter_initial_mode (filters (set_proxy_initial_mode b s)) = (if b then 1 else 0)"
  by (simp add: set_proxy_initial_mode_def sar_inv_def mesh_proxy_sar_para_init_def filter_consts)

text \<open>
  The order errors the state machine notices stop nothing: an end segment is delivered after
  whatever the counter of an earlier message points to.
\<close>

lemma end_without_start_delivers:
  assumes "sar_idle s" "holds_msg base xs s" "base + length xs + length ys \<le> 80"
  shows "\<exists>s'. pkt_pb_gatt_data now (att_of (type_msg t) SAR_END ys) t base s = Some (True, s') \<and>
    rd_bytes (proxy_para_buf s') base (unat (proxy_para_len s')) = xs @ ys"
  using pkt_step [of base xs SAR_END s ys now t] assms(2,3) by (auto simp: sar_consts holds_msg_def)

section \<open>Configuration messages over GATT\<close>

fun gatt_seq :: "u8 \<Rightarrow> (u8 list \<Rightarrow> bool \<times> u8 list) \<Rightarrow> (u32 \<times> att_data) list \<Rightarrow> gatt_st \<Rightarrow> gatt_st option" where
  "gatt_seq tdp cfg [] s = Some s"
| "gatt_seq tdp cfg ((now, p) # ps) s =
     (case proxy_gatt_Write tdp cfg now p s of None \<Rightarrow> None | Some s' \<Rightarrow> gatt_seq tdp cfg ps s')"

lemma copy_payload_frame: "copy_payload base p len s = Some s' \<Longrightarrow> proxy_In_ccc s' = proxy_In_ccc s"
  by (auto simp: copy_payload_def Let_def split: if_splits)

lemma pkt_ccc: "pkt_pb_gatt_data now p t base s = Some (r, s') \<Longrightarrow> proxy_In_ccc s' = proxy_In_ccc s"
  by (auto simp: pkt_pb_gatt_data_def Let_def sar_step_defs dest!: copy_payload_frame split: if_splits option.splits)

lemma gatt_config_seq:
  assumes "pkt_seq L2CAP_PROXY_TYPE NW_OFF ps s = Some (replicate n False @ [True], s')"
    and "\<forall>p\<in>set ps. dat (snd p) \<noteq> [] \<and> msgType (snd p) = MSG_PROXY_CONFIG" "proxy_In_ccc s \<noteq> (0, 0)"
  shows "gatt_seq tdp cfg ps s = config_received tdp cfg s'"
  using assms
proof (induction ps arbitrary: s n)
  case (Cons q qs)
  obtain now p where q: "q = (now, p)" by (cases q)
  obtain r s1 rs where s1: "pkt_pb_gatt_data now p L2CAP_PROXY_TYPE NW_OFF s = Some (r, s1)"
    "pkt_seq L2CAP_PROXY_TYPE NW_OFF qs s1 = Some (rs, s')" "r # rs = replicate n False @ [True]"
    using Cons.prems(1) by (auto simp: q split: option.splits prod.splits)
  show ?case
  proof (cases n)
    case 0
    then have "qs = []" "s1 = s'" using s1 by (auto split: option.splits prod.splits elim: pkt_seq.elims)
    then show ?thesis using s1 Cons.prems(2,3) 0
      by (simp add: q proxy_gatt_Write_def msg_consts split: option.splits)
  next
    case (Suc k)
    then have "pkt_seq L2CAP_PROXY_TYPE NW_OFF qs s1 = Some (replicate k False @ [True], s')" using s1 by simp
    then show ?thesis
      using Cons.IH [of s1 k] Cons.prems(2,3) s1 pkt_ccc [OF s1(1)] Suc
      by (simp add: q proxy_gatt_Write_def msg_consts)
  qed
qed simp

lemma segments_are_config:
  "map snd ps = segments MSG_PROXY_CONFIG xss \<Longrightarrow> \<forall>p\<in>set ps. dat (snd p) \<noteq> [] \<and> msgType (snd p) = MSG_PROXY_CONFIG"
proof -
  assume ps: "map snd ps = segments MSG_PROXY_CONFIG xss"
  have a: "dat (att_of MSG_PROXY_CONFIG k ys) \<noteq> [] \<and> msgType (att_of MSG_PROXY_CONFIG k ys) = MSG_PROXY_CONFIG"
    if "k < 4" for k ys
    using att_of_fields [of MSG_PROXY_CONFIG k ys] that by (simp add: MSG_PROXY_CONFIG_def)
  have t: "\<forall>p\<in>set (tail_segments MSG_PROXY_CONFIG ys). dat p \<noteq> [] \<and> msgType p = MSG_PROXY_CONFIG" for ys
    by (induction MSG_PROXY_CONFIG ys rule: tail_segments.induct) (use a in \<open>auto simp: sar_consts\<close>)
  have "\<forall>p\<in>set (segments MSG_PROXY_CONFIG xss). dat p \<noteq> [] \<and> msgType p = MSG_PROXY_CONFIG"
    by (cases "(MSG_PROXY_CONFIG, xss)" rule: segments.cases) (use a t in \<open>auto simp: sar_consts\<close>)
  then have "\<forall>p\<in>set (map snd ps). dat p \<noteq> [] \<and> msgType p = MSG_PROXY_CONFIG" unfolding ps .
  then show ?thesis by simp
qed

text \<open>
C39: A proxy configuration message of at most 77 bytes, cut into writes in any way, changes the
filters exactly as the dispatcher does on the decrypted whole message; a message the stack
rejects changes nothing.
\<close>

theorem config_message_reaches_dispatch:
  fixes cfg :: "u8 list \<Rightarrow> bool \<times> u8 list"
  assumes "proxy_In_ccc s \<noteq> (0, 0)" "length (proxy_para_buf s) = 80"
    and "xss \<noteq> []" "length (concat xss) \<le> 77" "map snd ps = segments MSG_PROXY_CONFIG xss"
  shows "\<exists>stale. length stale = 77 - length (concat xss) \<and>
    (let n = of_nat (length (concat xss)); (ok, buf) = cfg ([tdp, n + 1, 0x2A] @ concat xss @ stale) in
     map_option filters (gatt_seq tdp cfg ps s) =
       (if ok then proxy_config_dispatch (drop 3 buf) n (filters s) else Some (filters s)))"
proof -
  let ?m = "concat xss"
  have t: "map snd ps = segments (type_msg L2CAP_PROXY_TYPE) xss" "NW_OFF + length ?m \<le> 80"
    using assms(4,5) by (simp_all add: NW_OFF_def)
  obtain s' where s': "pkt_seq L2CAP_PROXY_TYPE NW_OFF ps s = Some (replicate (length xss - 1) False @ [True], s')"
    "holds_msg NW_OFF ?m s'" "untouched s' = untouched s" "proxy_para_len s' = idx_num s'"
    using segments_delivered [OF assms(3) t(2) assms(2) t(1)] by blast
  let ?b = "proxy_para_buf s'" and ?n = "of_nat (length ?m) :: u8"
  have h: "length ?b = 80" "take (length ?m) (drop 3 ?b) = ?m" "proxy_para_len s' = ?n" "filters s' = filters s"
    using s'(2-4) assms(4) by (simp_all add: holds_msg_def rd_bytes_def NW_OFF_def untouched_def word_unat_eq_iff)
  obtain stale where st: "stale = drop (3 + length ?m) ?b" by blast
  have "drop 3 ?b = take (length ?m) (drop 3 ?b) @ drop (length ?m) (drop 3 ?b)"
    by (rule append_take_drop_id [symmetric])
  then have "drop 3 ?b = ?m @ stale" using h(2) by (simp add: st add.commute)
  then have "wr_bytes ?b 0 [tdp, ?n + 1, 0x2A] = [tdp, ?n + 1, 0x2A] @ ?m @ stale" by (simp add: wr_bytes_def numeral_3_eq_3)
  moreover have "gatt_seq tdp cfg ps s = config_received tdp cfg s'"
    using gatt_config_seq [OF s'(1) segments_are_config [OF assms(5)] assms(1)] .
  moreover have "length stale = 77 - length ?m" using h(1) by (simp add: st)
  ultimately show ?thesis
    using h(3,4)
    by (intro exI [of _ stale]) (auto simp: config_received_def bear_head_def Let_def NW_OFF_def split: option.splits prod.splits)
qed

lemma config_message_reaches_dispatch_witness:
  "\<exists>stale. length stale = 66 \<and>
    map_option filters (gatt_seq 0 (Pair True) (zip [1, 2] (segments 2 [[0, 0, 0, 0, 0, 0, 0], [0, 0, 0, 1]])) demo_gatt) =
      proxy_config_dispatch ([0, 0, 0, 0, 0, 0, 0, 0, 0, 0, 1] @ stale) 11 (demo_proxy 0)"
  using config_message_reaches_dispatch [of demo_gatt "[[0, 0, 0, 0, 0, 0, 0], [0, 0, 0, 1]]"
      "zip [1, 2] (segments 2 [[0, 0, 0, 0, 0, 0, 0], [0, 0, 0, 1]])" "Pair True" 0]
  by (simp add: msg_consts Let_def)

end
