(* ===== verification/MeshFlash.thy ===== *)
theory MeshFlash
  imports Prelude
begin

text \<open>
  Storage of the mesh parameters (\<open>vendor/common/mesh_node.c\<close>): each parameter block owns a 4096-byte
  sector in which records are appended, each with a flag word in front; a full sector is erased.

  The flash is NOR memory: programming a byte can only clear bits, erasing sets a sector to
  \<open>0xFF\<close>. Every elementary operation is logged in \<open>flog\<close>, so that a power loss is the memory after a
  prefix of the log.
\<close>

section \<open>Flash\<close>

datatype fl_op = Prog nat u8 | Erase nat

fun apply_op :: "fl_op \<Rightarrow> (nat \<Rightarrow> u8) \<Rightarrow> (nat \<Rightarrow> u8)" where
  "apply_op (Prog a v) m = m(a := m a AND v)"
| "apply_op (Erase a) m = (\<lambda>x. if x div 4096 = a div 4096 then 0xFF else m x)"

record fl_st =
  mem :: "nat \<Rightarrow> u8"
  flog :: "fl_op list"
  flash_write_err_cnt :: u16

definition do_op :: "fl_op \<Rightarrow> 'a fl_st_scheme \<Rightarrow> 'a fl_st_scheme" where
  "do_op p s = s\<lparr>mem := apply_op p (mem s), flog := flog s @ [p]\<rparr>"

definition page_ops :: "nat \<Rightarrow> u8 list \<Rightarrow> fl_op list" where
  "page_ops adr xs = map (\<lambda>i. Prog (adr + i) (xs ! i)) [0..<length xs]"

definition flash_write_page :: "nat \<Rightarrow> u8 list \<Rightarrow> 'a fl_st_scheme \<Rightarrow> 'a fl_st_scheme" where
  "flash_write_page adr xs s = fold do_op (page_ops adr xs) s"

definition flash_erase_sector :: "nat \<Rightarrow> 'a fl_st_scheme \<Rightarrow> 'a fl_st_scheme" where
  "flash_erase_sector adr s = do_op (Erase adr) s"

definition flash_read_page :: "(nat \<Rightarrow> u8) \<Rightarrow> nat \<Rightarrow> nat \<Rightarrow> u8 list" where
  "flash_read_page m adr n = map (\<lambda>i. m (adr + i)) [0..<n]"

definition FLASH_SECTOR_SIZE :: nat where "FLASH_SECTOR_SIZE = 4096"
definition FLASH_CHECK_SIZE_MAX :: nat where "FLASH_CHECK_SIZE_MAX = 64"
definition SIZE_SAVE_FLAG :: nat where "SIZE_SAVE_FLAG = 4"
definition SAVE_FLAG :: u8 where "SAVE_FLAG = 0xA5"
definition SAVE_FLAG_PRE :: u8 where "SAVE_FLAG_PRE = 0xAF"

lemmas flash_consts = FLASH_SECTOR_SIZE_def FLASH_CHECK_SIZE_MAX_def SIZE_SAVE_FLAG_def SAVE_FLAG_def SAVE_FLAG_PRE_def

section \<open>Reading\<close>

text \<open>The state of the loop: the caller's buffer, its write address, and the result.\<close>

function retrieve_loop :: "(nat \<Rightarrow> u8) \<Rightarrow> nat \<Rightarrow> nat \<Rightarrow> nat \<Rightarrow> u8 list \<times> nat \<times> int \<Rightarrow> u8 list \<times> nat \<times> int" where
  "retrieve_loop m adr_base size' i (out, p_adr, err) =
     (if i < FLASH_SECTOR_SIZE then
        (let p_adr = adr_base + i; save_flag = m p_adr; j = i + (size' + SIZE_SAVE_FLAG) in
         if save_flag = SAVE_FLAG
         then retrieve_loop m adr_base size' j (flash_read_page m (p_adr + SIZE_SAVE_FLAG) size', p_adr, 0)
         else if save_flag = SAVE_FLAG_PRE then retrieve_loop m adr_base size' j (out, p_adr, err)
         else if save_flag \<noteq> 0xFF then retrieve_loop m adr_base size' j (out, p_adr, err)
         else (out, p_adr, err))
      else (out, p_adr, err))"
  by pat_completeness auto

termination
  by (relation "measure (\<lambda>(m, b, n, i, st). FLASH_SECTOR_SIZE - i)") (auto simp: flash_consts)

declare retrieve_loop.simps [simp del]

definition mesh_par_retrieve :: "u8 list \<Rightarrow> nat \<Rightarrow> nat \<Rightarrow> nat \<Rightarrow> (nat \<Rightarrow> u8) \<Rightarrow> u8 list \<times> nat \<times> int" where
  "mesh_par_retrieve out p_adr adr_base size' m = retrieve_loop m adr_base size' 0 (out, p_adr, -1)"

section \<open>Checking and comparing in chunks\<close>

function check_loop :: "(nat \<Rightarrow> u8) \<Rightarrow> nat \<Rightarrow> u8 list \<Rightarrow> nat \<Rightarrow> nat \<Rightarrow> bool" where
  "check_loop m adr xs pos len =
     (if len = 0 then True
      else let len_read = (if len > FLASH_CHECK_SIZE_MAX then FLASH_CHECK_SIZE_MAX else len) in
        if flash_read_page m (adr + pos) len_read \<noteq> rd_bytes xs pos len_read then False
        else check_loop m adr xs (pos + len_read) (len - len_read))"
  by pat_completeness auto

termination
  by (relation "measure (\<lambda>(m, a, xs, pos, len). len)") (auto simp: flash_consts)

declare check_loop.simps [simp del]

definition mesh_flash_write_check :: "nat \<Rightarrow> u8 list \<Rightarrow> 'a fl_st_scheme \<Rightarrow> int \<times> 'a fl_st_scheme" where
  "mesh_flash_write_check adr xs s =
     (if check_loop (mem s) adr xs 0 (length xs) then (0, s)
      else (-1, s\<lparr>flash_write_err_cnt := flash_write_err_cnt s + 1\<rparr>))"

definition flash_write_with_check :: "nat \<Rightarrow> u8 list \<Rightarrow> 'a fl_st_scheme \<Rightarrow> 'a fl_st_scheme" where
  "flash_write_with_check adr xs s = snd (mesh_flash_write_check adr xs (flash_write_page adr xs s))"

datatype flash_cmp = FLASH_CMP_DIFF_AFTER_AND | FLASH_CMP_ALL_SAME | FLASH_CMP_SAME_AFTER_AND

function cmp_loop :: "(nat \<Rightarrow> u8) \<Rightarrow> nat \<Rightarrow> u8 list \<Rightarrow> nat \<Rightarrow> nat \<Rightarrow> bool \<Rightarrow> flash_cmp" where
  "cmp_loop m adr xs pos len same =
     (if len = 0 then FLASH_CMP_SAME_AFTER_AND
      else let len_read = (if len > FLASH_CHECK_SIZE_MAX then FLASH_CHECK_SIZE_MAX else len);
               data_read = flash_read_page m (adr + pos) len_read; p_in = rd_bytes xs pos len_read in
        if data_read \<noteq> p_in then
          (if \<exists>i<len_read. (data_read ! i) AND (p_in ! i) \<noteq> p_in ! i then FLASH_CMP_DIFF_AFTER_AND
           else cmp_loop m adr xs (pos + len_read) (len - len_read) False)
        else if len \<le> FLASH_CHECK_SIZE_MAX \<and> same then FLASH_CMP_ALL_SAME
        else cmp_loop m adr xs (pos + len_read) (len - len_read) same)"
  by pat_completeness auto

termination
  by (relation "measure (\<lambda>(m, a, xs, pos, len, same). len)") (auto simp: flash_consts)

declare cmp_loop.simps [simp del]

definition mesh_flash_data_cmp :: "nat \<Rightarrow> u8 list \<Rightarrow> (nat \<Rightarrow> u8) \<Rightarrow> flash_cmp" where
  "mesh_flash_data_cmp adr xs m = cmp_loop m adr xs 0 (length xs) True"

section \<open>Writing\<close>

text \<open>\<open>mapped\<close>: the sector is one of \<open>mesh_save_map\<close>. The result is the new write address.\<close>

definition mesh_par_store :: "bool \<Rightarrow> u8 list \<Rightarrow> nat \<Rightarrow> nat \<Rightarrow> 'a fl_st_scheme \<Rightarrow> nat \<times> 'a fl_st_scheme" where
  "mesh_par_store mapped xs p_adr adr_base s =
     (let size_save = length xs + SIZE_SAVE_FLAG;
          (p_adr, s) = (if p_adr > adr_base + FLASH_SECTOR_SIZE - size_save - SIZE_SAVE_FLAG
                        then (adr_base, flash_erase_sector adr_base s) else (p_adr, s));
          adr_last = (if p_adr \<ge> adr_base + size_save then p_adr - size_save else adr_base) in
      if p_adr \<ge> adr_base + size_save \<and> mapped
         \<and> mesh_flash_data_cmp (adr_last + SIZE_SAVE_FLAG) xs (mem s) = FLASH_CMP_ALL_SAME
      then (p_adr, s)
      else
        (let s = flash_write_with_check p_adr [SAVE_FLAG_PRE, 0, 0, 0] s;
             s = flash_write_with_check (p_adr + SIZE_SAVE_FLAG) xs s;
             s = flash_write_with_check p_adr [SAVE_FLAG, 0, 0, 0] s;
             s = (if p_adr \<ge> adr_base + size_save then flash_write_page adr_last [0, 0, 0, 0] s else s)
         in (p_adr + size_save, s)))"

section \<open>The table of parameter blocks\<close>

text \<open>
  \<open>mesh_save_map\<close> as a list of sector address and block size; the blocks themselves and their write
  addresses are kept by sector address. The table's sizes are those of the stack's structures.
\<close>

record store_st = fl_st +
  ram :: "nat \<Rightarrow> u8 list"
  p_adr_of :: "nat \<Rightarrow> nat"
  ele_adr_primary :: u16

definition FLASH_ADR_MD_CFG_S :: nat where "FLASH_ADR_MD_CFG_S = 0x31000"

definition mesh_common_retrieve_cb :: "(u8 list \<Rightarrow> u16) \<Rightarrow> int \<Rightarrow> nat \<Rightarrow> store_st \<Rightarrow> store_st" where
  "mesh_common_retrieve_cb ele_adr err adr_base s =
     (if FLASH_ADR_MD_CFG_S = adr_base \<and> err = 0 then s\<lparr>ele_adr_primary := ele_adr (ram s adr_base)\<rparr> else s)"

definition mesh_common_retrieve_by_index :: "(nat \<times> nat) list \<Rightarrow> (u8 list \<Rightarrow> u16) \<Rightarrow> nat \<Rightarrow> store_st \<Rightarrow> int \<times> store_st" where
  "mesh_common_retrieve_by_index sm ele_adr index s =
     (let (base, size') = sm ! index; (out, p, err) = mesh_par_retrieve (ram s base) (p_adr_of s base) base size' (mem s) in
      (err, mesh_common_retrieve_cb ele_adr err base
        (s\<lparr>ram := (ram s)(base := out), p_adr_of := (p_adr_of s)(base := p)\<rparr>)))"

definition mesh_common_store_by_index :: "(nat \<times> nat) list \<Rightarrow> nat \<Rightarrow> store_st \<Rightarrow> int \<times> store_st" where
  "mesh_common_store_by_index sm index s =
     (let (base, size') = sm ! index; (p, s) = mesh_par_store (base \<in> fst ` set sm) (ram s base) (p_adr_of s base) base s in
      (0, s\<lparr>p_adr_of := (p_adr_of s)(base := p)\<rparr>))"

fun index_of :: "nat \<Rightarrow> (nat \<times> nat) list \<Rightarrow> nat option" where
  "index_of base [] = None"
| "index_of base (e # es) = (if base = fst e then Some 0 else map_option Suc (index_of base es))"

definition mesh_common_retrieve_and_store :: "(nat \<times> nat) list \<Rightarrow> (u8 list \<Rightarrow> u16) \<Rightarrow> nat \<Rightarrow> bool \<Rightarrow> store_st \<Rightarrow> int \<times> store_st" where
  "mesh_common_retrieve_and_store sm ele_adr adr_base save s =
     (case index_of adr_base sm of None \<Rightarrow> (-1, s)
      | Some i \<Rightarrow> if save then (0, snd (mesh_common_store_by_index sm i s))
                  else mesh_common_retrieve_by_index sm ele_adr i s)"

definition mesh_common_retrieve :: "(nat \<times> nat) list \<Rightarrow> (u8 list \<Rightarrow> u16) \<Rightarrow> nat \<Rightarrow> store_st \<Rightarrow> int \<times> store_st" where
  "mesh_common_retrieve sm ele_adr adr_base = mesh_common_retrieve_and_store sm ele_adr adr_base False"

definition mesh_common_store :: "(nat \<times> nat) list \<Rightarrow> (u8 list \<Rightarrow> u16) \<Rightarrow> nat \<Rightarrow> store_st \<Rightarrow> int \<times> store_st" where
  "mesh_common_store sm ele_adr adr_base = mesh_common_retrieve_and_store sm ele_adr adr_base True"

section \<open>Chunks and bytes\<close>

lemma flash_read_append: "flash_read_page m a (i + j) = flash_read_page m a i @ flash_read_page m (a + i) j"
proof -
  have "map (\<lambda>x. m (a + x)) [i..<i + j] = map (\<lambda>x. m (a + (i + x))) [0..<j]"
    by (rule nth_equalityI) simp_all
  then show ?thesis by (simp add: flash_read_page_def upt_add_eq_append [of 0 i j, simplified] add.assoc)
qed

lemma length_flash_read [simp]: "length (flash_read_page m a n) = n"
  by (simp add: flash_read_page_def)

lemma nth_flash_read [simp]: "i < n \<Longrightarrow> flash_read_page m a n ! i = m (a + i)"
  by (simp add: flash_read_page_def)

lemma rd_bytes_split: "rd_bytes xs pos (i + j) = rd_bytes xs pos i @ rd_bytes xs (pos + i) j"
  unfolding rd_bytes_def take_add by (simp add: add.commute)

lemma chunk_eq_iff:
  assumes "pos + (i + j) \<le> length xs"
  shows "flash_read_page m (a + pos) (i + j) = rd_bytes xs pos (i + j) \<longleftrightarrow>
    flash_read_page m (a + pos) i = rd_bytes xs pos i \<and> flash_read_page m (a + (pos + i)) j = rd_bytes xs (pos + i) j"
  using assms by (simp add: flash_read_append rd_bytes_split add.assoc)

lemma check_loop_eq:
  "pos + len \<le> length xs \<Longrightarrow> check_loop m adr xs pos len = (flash_read_page m (adr + pos) len = rd_bytes xs pos len)"
proof (induction m adr xs pos len rule: check_loop.induct)
  case (1 m adr xs pos len)
  show ?case
  proof (cases "64 < len")
    case True
    then have c: "pos + (64 + (len - 64)) \<le> length xs" using 1(2) by simp
    show ?thesis using 1(1) [OF _ refl] chunk_eq_iff [OF c, of m adr] True c
      by (subst check_loop.simps) (auto simp: Let_def FLASH_CHECK_SIZE_MAX_def)
  next
    case False
    then show ?thesis
      by (subst check_loop.simps) (auto simp: Let_def FLASH_CHECK_SIZE_MAX_def check_loop.simps [of _ _ _ _ 0] rd_bytes_def flash_read_page_def)
  qed
qed

text \<open>The comparison reports "all the same" exactly for equal, non-empty data.\<close>

lemma cmp_loop_not_same: "cmp_loop m adr xs pos len False \<noteq> FLASH_CMP_ALL_SAME"
  by (induction m adr xs pos len False rule: cmp_loop.induct) (subst cmp_loop.simps, simp add: Let_def)

lemma cmp_loop_same:
  "pos + len \<le> length xs \<Longrightarrow> cmp_loop m adr xs pos len True = FLASH_CMP_ALL_SAME \<longleftrightarrow>
    0 < len \<and> flash_read_page m (adr + pos) len = rd_bytes xs pos len"
proof (induction m adr xs pos len True rule: cmp_loop.induct)
  case (1 m adr xs pos len)
  show ?case
  proof (cases "64 < len")
    case True
    then have c: "pos + (64 + (len - 64)) \<le> length xs" using 1(3) by simp
    show ?thesis using 1(2) [OF _ refl refl refl] chunk_eq_iff [OF c, of m adr] True c cmp_loop_not_same
      by (subst cmp_loop.simps) (auto simp: Let_def FLASH_CHECK_SIZE_MAX_def)
  next
    case False
    then show ?thesis using cmp_loop_not_same
      by (subst cmp_loop.simps) (auto simp: Let_def FLASH_CHECK_SIZE_MAX_def)
  qed
qed

lemma data_cmp_same:
  "mesh_flash_data_cmp adr xs m = FLASH_CMP_ALL_SAME \<longleftrightarrow> xs \<noteq> [] \<and> flash_read_page m adr (length xs) = xs"
  using cmp_loop_same [of 0 "length xs" xs m adr] by (auto simp: mesh_flash_data_cmp_def rd_bytes_def)

section \<open>Sequences of flash operations\<close>

text \<open>A program operation ANDs; the value of a cell is the AND of what was programmed there.\<close>

definition run_ops :: "fl_op list \<Rightarrow> (nat \<Rightarrow> u8) \<Rightarrow> (nat \<Rightarrow> u8)" where
  "run_ops ps m = fold apply_op ps m"

fun progs_at :: "nat \<Rightarrow> fl_op list \<Rightarrow> u8 list" where
  "progs_at a [] = []"
| "progs_at a (Prog b v # ps) = (if a = b then v # progs_at a ps else progs_at a ps)"
| "progs_at a (Erase b # ps) = progs_at a ps"

fun no_erase :: "fl_op list \<Rightarrow> bool" where
  "no_erase [] = True"
| "no_erase (Prog b v # ps) = no_erase ps"
| "no_erase (Erase b # ps) = False"

lemma run_ops_simps [simp]: "run_ops [] m = m" "run_ops (p # ps) m = run_ops ps (apply_op p m)"
  "run_ops (ps @ qs) m = run_ops qs (run_ops ps m)"
  by (simp_all add: run_ops_def)

lemma run_ops_at: "no_erase ps \<Longrightarrow> run_ops ps m a = fold (\<lambda>v x. x AND v) (progs_at a ps) (m a)"
  by (induction ps arbitrary: m rule: no_erase.induct) auto

lemma progs_at_append [simp]: "progs_at a (ps @ qs) = progs_at a ps @ progs_at a qs"
  by (induction a ps rule: progs_at.induct) auto

lemma no_erase_append [simp]: "no_erase (ps @ qs) \<longleftrightarrow> no_erase ps \<and> no_erase qs"
  by (induction ps rule: no_erase.induct) auto

lemma page_ops_snoc: "page_ops adr (xs @ [x]) = page_ops adr xs @ [Prog (adr + length xs) x]"
  by (auto simp: page_ops_def nth_append)

lemma page_ops_nil [simp]: "page_ops adr [] = []"
  by (simp add: page_ops_def)

lemma no_erase_take: "no_erase ps \<Longrightarrow> no_erase (take n ps)"
  by (metis append_take_drop_id no_erase_append)

lemma no_erase_page [simp]: "no_erase (page_ops adr xs)"
  by (induction xs rule: rev_induct) (auto simp: page_ops_snoc)

lemma progs_at_page:
  "progs_at a (page_ops adr xs) = (if adr \<le> a \<and> a < adr + length xs then [xs ! (a - adr)] else [])"
  by (induction xs rule: rev_induct) (auto simp: page_ops_snoc nth_append)

lemma length_page_ops [simp]: "length (page_ops adr xs) = length xs"
  by (simp add: page_ops_def)

lemma progs_at_take: "\<exists>n'. progs_at a (take n ps) = take n' (progs_at a ps)"
  by (metis append_take_drop_id progs_at_append append_eq_conv_conj)

lemma fold_do_op: "mem (fold do_op ps s) = run_ops ps (mem s)" "flog (fold do_op ps s) = flog s @ ps"
  by (induction ps arbitrary: s) (auto simp: do_op_def)

lemma flash_write_fields [simp]:
  "mem (flash_write_page adr xs s) = run_ops (page_ops adr xs) (mem s)"
  "flog (flash_write_page adr xs s) = flog s @ page_ops adr xs"
  "mem (flash_write_with_check adr xs s) = run_ops (page_ops adr xs) (mem s)"
  "flog (flash_write_with_check adr xs s) = flog s @ page_ops adr xs"
  by (simp_all add: flash_write_page_def flash_write_with_check_def mesh_flash_write_check_def fold_do_op)

lemma flash_erase_fields [simp]:
  "mem (flash_erase_sector adr s) = apply_op (Erase adr) (mem s)" "flog (flash_erase_sector adr s) = flog s @ [Erase adr]"
  by (simp_all add: flash_erase_sector_def do_op_def)

section \<open>Sectors\<close>

text \<open>
  \<open>sec_ok m b n k\<close>: in the sector at \<open>b\<close> with records of \<open>n\<close> bytes, \<open>k\<close> slots are in use and the rest
  is erased. \<open>current\<close> is the record retrieved: the last one whose flag says complete.
\<close>

definition sec_ok :: "(nat \<Rightarrow> u8) \<Rightarrow> nat \<Rightarrow> nat \<Rightarrow> nat \<Rightarrow> bool" where
  "sec_ok m b n k \<longleftrightarrow> k * (n + 4) \<le> 4092 \<and> (\<forall>i<k. m (b + i * (n + 4)) \<noteq> 0xFF) \<and>
     (\<forall>a. b + k * (n + 4) \<le> a \<and> a < b + 4096 \<longrightarrow> m a = 0xFF)"

fun current :: "(nat \<Rightarrow> u8) \<Rightarrow> nat \<Rightarrow> nat \<Rightarrow> nat \<Rightarrow> u8 list option" where
  "current m b n 0 = None"
| "current m b n (Suc k) = (if m (b + k * (n + 4)) = 0xA5 then Some (flash_read_page m (b + k * (n + 4) + 4) n)
     else current m b n k)"

lemma slot_inside: "i < k \<Longrightarrow> i * (n + 4) + (n + 4) \<le> k * (n + 4 :: nat)"
  by (metis Suc_leI add.commute mult_Suc mult_le_mono1)

lemma current_cong: "\<forall>a. b \<le> a \<and> a < b + k * (n + 4) \<longrightarrow> m' a = m a \<Longrightarrow> current m' b n k = current m b n k"
proof (induction k)
  case (Suc k)
  have "flash_read_page m' (b + k * (n + 4) + 4) n = flash_read_page m (b + k * (n + 4) + 4) n"
    using Suc.prems by (auto simp: flash_read_page_def)
  moreover have "m' (b + k * (n + 4)) = m (b + k * (n + 4))" using Suc.prems by auto
  ultimately show ?case using Suc by auto
qed simp

lemma retrieve_from_slot:
  assumes "sec_ok m b n k" "j \<le> k" "(out, e) = (case current m b n j of None \<Rightarrow> (out0, -1) | Some d \<Rightarrow> (d, 0))"
  shows "retrieve_loop m b n (j * (n + 4)) (out, p, e) =
    (case current m b n k of None \<Rightarrow> (out0, b + k * (n + 4), -1) | Some d \<Rightarrow> (d, b + k * (n + 4), 0))"
  using assms(2,3)
proof (induction "k - j" arbitrary: j out e p)
  case 0
  then have j: "j = k" by simp
  have "k * (n + 4) < 4096" "m (b + k * (n + 4)) = 0xFF" using assms(1) by (auto simp: sec_ok_def)
  then show ?case using 0(3)
    by (subst retrieve_loop.simps) (auto simp: j Let_def flash_consts split: option.splits)
next
  case (Suc d)
  then have j: "j < k" by simp
  have lt: "j * (n + 4) < 4096" using slot_inside [OF j, of n] assms(1) by (simp add: sec_ok_def)
  have f: "m (b + j * (n + 4)) \<noteq> 0xFF" using assms(1) j by (simp add: sec_ok_def)
  let ?j = "Suc j" and ?p = "b + j * (n + 4)"
  have sj: "j * (n + 4) + (n + 4) = n + 4 + j * (n + 4)" by simp
  show ?case
  proof (cases "m ?p = 0xA5")
    case True
    have "(flash_read_page m (?p + 4) n, 0) = (case current m b n ?j of None \<Rightarrow> (out0, -1 :: int) | Some d \<Rightarrow> (d, 0))"
      using True by simp
    then have "retrieve_loop m b n (?j * (n + 4)) (flash_read_page m (?p + 4) n, ?p, 0) =
      (case current m b n k of None \<Rightarrow> (out0, b + k * (n + 4), -1) | Some d \<Rightarrow> (d, b + k * (n + 4), 0))"
      using Suc(1) [of ?j] Suc(2) j by simp
    then show ?thesis using lt True
      by (subst retrieve_loop.simps) (simp add: Let_def flash_consts sj)
  next
    case False
    then have "(out, e) = (case current m b n ?j of None \<Rightarrow> (out0, -1) | Some d \<Rightarrow> (d, 0))"
      using Suc.prems(2) by simp
    then have "retrieve_loop m b n (?j * (n + 4)) (out, ?p, e) =
      (case current m b n k of None \<Rightarrow> (out0, b + k * (n + 4), -1) | Some d \<Rightarrow> (d, b + k * (n + 4), 0))"
      using Suc(1) [of ?j] Suc(2) j by simp
    then show ?thesis using lt False f
      by (subst retrieve_loop.simps) (simp add: Let_def flash_consts sj)
  qed
qed

lemma retrieve_sector:
  assumes "sec_ok m b n k"
  shows "mesh_par_retrieve out p b n m =
    (case current m b n k of None \<Rightarrow> (out, b + k * (n + 4), -1) | Some d \<Rightarrow> (d, b + k * (n + 4), 0))"
  using retrieve_from_slot [OF assms, of 0 out "-1" out p] by (simp add: mesh_par_retrieve_def)

section \<open>What a store writes\<close>

definition record_ops :: "u8 list \<Rightarrow> nat \<Rightarrow> fl_op list" where
  "record_ops xs p = page_ops p [0xAF, 0, 0, 0] @ page_ops (p + 4) xs @ page_ops p [0xA5, 0, 0, 0]"

definition store_ops :: "u8 list \<Rightarrow> nat \<Rightarrow> nat \<Rightarrow> fl_op list" where
  "store_ops xs b k = record_ops xs (b + k * (length xs + 4)) @
     (if 0 < k then page_ops (b + (k - 1) * (length xs + 4)) [0, 0, 0, 0] else [])"

lemma page_ops_4: "page_ops p [x, y, z, w] = [Prog p x, Prog (p + 1) y, Prog (p + 2) z, Prog (p + 3) w]"
  by (simp add: page_ops_def upt_rec)

lemma store_ops_frame:
  assumes "a < b \<or> b + (k + 1) * (length xs + 4) \<le> a \<or>
    a < b + k * (length xs + 4) \<and> \<not> (0 < k \<and> b + (k - 1) * (length xs + 4) \<le> a \<and> a < b + (k - 1) * (length xs + 4) + 4)"
  shows "progs_at a (store_ops xs b k) = []"
proof -
  have "0 < k \<Longrightarrow> (k - 1) * (length xs + 4) + (length xs + 4) = k * (length xs + 4)"
    by (cases k) simp_all
  then show ?thesis using assms by (auto simp: store_ops_def record_ops_def progs_at_page)
qed

lemma run_take_frame:
  assumes "no_erase ps" "progs_at a ps = []"
  shows "run_ops (take i ps) m a = m a"
  using run_ops_at [OF no_erase_take [OF assms(1)], of i m a] progs_at_take [of a i ps] assms(2) by auto

lemma no_erase_store [simp]: "no_erase (store_ops xs b k)"
  by (simp add: store_ops_def record_ops_def)

text \<open>The first phase ends with the data written; the second starts with the byte that makes the record valid.\<close>

lemma store_ops_phases:
  "store_ops xs b k = Prog (b + k * (length xs + 4)) 0xAF #
     ([Prog (b + k * (length xs + 4) + 1) 0, Prog (b + k * (length xs + 4) + 2) 0, Prog (b + k * (length xs + 4) + 3) 0]
      @ page_ops (b + k * (length xs + 4) + 4) xs) @
     Prog (b + k * (length xs + 4)) 0xA5 #
     ([Prog (b + k * (length xs + 4) + 1) 0, Prog (b + k * (length xs + 4) + 2) 0, Prog (b + k * (length xs + 4) + 3) 0]
      @ (if 0 < k then page_ops (b + (k - 1) * (length xs + 4)) [0, 0, 0, 0] else []))"
  by (simp add: store_ops_def record_ops_def page_ops_4)

lemma take_phases:
  "0 < i \<Longrightarrow> i \<le> Suc (length X) \<Longrightarrow> take i (x # X @ y # Y) = x # take (i - 1) X"
  "Suc (length X) < i \<Longrightarrow> take i (x # X @ y # Y) = x # X @ y # take (i - length X - 2) Y"
proof -
  assume i: "0 < i" "i \<le> Suc (length X)"
  then show "take i (x # X @ y # Y) = x # take (i - 1) X" by (cases i) simp_all
next
  assume i: "Suc (length X) < i"
  then obtain j where j: "i = Suc (length X + Suc j)" by (metis add_Suc_right less_imp_Suc_add add_Suc)
  show "take i (x # X @ y # Y) = x # X @ y # take (i - length X - 2) Y" by (simp add: j)
qed

lemma store_take:
  fixes xs :: "u8 list"
  obtains X Y where "length X = 3 + length xs" "no_erase X" "no_erase Y"
    "\<And>i. 0 < i \<Longrightarrow> i \<le> 4 + length xs \<Longrightarrow> take i (store_ops xs b k) = Prog (b + k * (length xs + 4)) 0xAF # take (i - 1) X"
    "\<And>i. 4 + length xs < i \<Longrightarrow> \<exists>j. take i (store_ops xs b k) =
       Prog (b + k * (length xs + 4)) 0xAF # X @ Prog (b + k * (length xs + 4)) 0xA5 # take j Y"
    "progs_at (b + k * (length xs + 4)) X = []" "progs_at (b + k * (length xs + 4)) Y = []"
    "\<And>i. i < length xs \<Longrightarrow> progs_at (b + k * (length xs + 4) + 4 + i) X = [xs ! i] \<and>
       progs_at (b + k * (length xs + 4) + 4 + i) Y = []"
    "\<And>a. a < b + k * (length xs + 4) \<Longrightarrow> progs_at a X = []"
proof -
  let ?p = "b + k * (length xs + 4)"
  let ?X = "[Prog (?p + 1) 0, Prog (?p + 2) 0, Prog (?p + 3) 0] @ page_ops (?p + 4) xs"
  let ?Y = "[Prog (?p + 1) 0, Prog (?p + 2) 0, Prog (?p + 3) 0]
      @ (if 0 < k then page_ops (b + (k - 1) * (length xs + 4)) [0, 0, 0, 0] else [])"
  have l: "length ?X = 3 + length xs" by simp
  have lt: "k = 0 \<or> (k - 1) * (length xs + 4) + (length xs + 4) = k * (length xs + 4)" by (cases k) simp_all
  have s: "store_ops xs b k = Prog ?p 0xAF # ?X @ Prog ?p 0xA5 # ?Y" by (rule store_ops_phases)
  have s1: "take i (store_ops xs b k) = Prog ?p 0xAF # take (i - 1) ?X" if "0 < i" "i \<le> 4 + length xs" for i
    unfolding s by (rule take_phases(1)) (use that l in simp_all)
  have s2: "\<exists>j. take i (store_ops xs b k) = Prog ?p 0xAF # ?X @ Prog ?p 0xA5 # take j ?Y" if "4 + length xs < i" for i
    unfolding s by (rule exI, rule take_phases(2)) (use that l in simp)
  show ?thesis
    by (rule that [of ?X ?Y, OF l _ _ s1 s2]) (use lt in \<open>auto simp: progs_at_page\<close>)
qed

lemma FF_and [simp]: "(0xFF :: u8) AND v = v"
proof -
  have ff: "(0xFF :: u8) = -1" by simp
  show ?thesis unfolding ff by simp
qed

lemma fold_and_FF: "fold (\<lambda>v x. x AND v) vs (x :: u8) = 0xFF \<Longrightarrow> x = 0xFF"
proof -
  have ff: "(0xFF :: u8) = -1" by simp
  assume "fold (\<lambda>v x. x AND v) vs x = 0xFF"
  then show "x = 0xFF" unfolding ff
    by (induction vs arbitrary: x) (simp, metis and_eq_minus_1_iff fold_simps(2))
qed

lemma run_ops_clears: "no_erase ps \<Longrightarrow> run_ops ps m a = 0xFF \<Longrightarrow> m a = 0xFF"
  using run_ops_at [of ps m a] fold_and_FF by metis

text \<open>
  The memory after a power loss: nothing happened, or the new slot is in use but not valid and
  the current record is the old one, or the current record is the new one.
\<close>

lemma crash_record:
  assumes "sec_ok m b (length xs) k" "(k + 1) * (length xs + 4) \<le> 4092"
  obtains m' where "m' = run_ops (take i (store_ops xs b k)) m"
    "i = 0 \<Longrightarrow> m' = m"
    "0 < i \<Longrightarrow> sec_ok m' b (length xs) (k + 1)"
    "0 < i \<Longrightarrow> i \<le> 4 + length xs \<Longrightarrow> current m' b (length xs) (k + 1) = current m b (length xs) k"
    "4 + length xs < i \<Longrightarrow> current m' b (length xs) (k + 1) = Some xs"
    "4 + length xs < i \<Longrightarrow> m' (b + k * (length xs + 4)) = 0xA5"
    "i = 4 + length xs \<Longrightarrow> flash_read_page m' (b + k * (length xs + 4) + 4) (length xs) = xs"
    "\<forall>a. a < b \<or> b + 4096 \<le> a \<longrightarrow> m' a = m a"
proof -
  let ?n = "length xs" and ?p = "b + k * (length xs + 4)"
  obtain m' where m': "m' = run_ops (take i (store_ops xs b k)) m" by blast
  obtain X Y where XY: "length X = 3 + length xs" "no_erase X" "no_erase Y"
    "\<And>i. 0 < i \<Longrightarrow> i \<le> 4 + length xs \<Longrightarrow> take i (store_ops xs b k) = Prog ?p 0xAF # take (i - 1) X"
    "\<And>i. 4 + length xs < i \<Longrightarrow> \<exists>j. take i (store_ops xs b k) = Prog ?p 0xAF # X @ Prog ?p 0xA5 # take j Y"
    "progs_at ?p X = []" "progs_at ?p Y = []"
    "\<And>i. i < length xs \<Longrightarrow> progs_at (?p + 4 + i) X = [xs ! i] \<and> progs_at (?p + 4 + i) Y = []"
    "\<And>a. a < ?p \<Longrightarrow> progs_at a X = []"
    by (rule store_take [of xs b k]) blast
  have FF: "\<And>a. ?p \<le> a \<Longrightarrow> a < b + 4096 \<Longrightarrow> m a = 0xFF" using assms(1) by (auto simp: sec_ok_def)
  have inside: "?p + 4 + ?n \<le> b + 4092" using assms(2) by simp
  have tk: "progs_at a (take j ps) = []" if "progs_at a ps = []" for a j ps
    using progs_at_take [of a j ps] that by auto
  have early: "m' ?p = 0xAF" "\<forall>a<?p. m' a = m a"
    "i = 4 + ?n \<longrightarrow> (\<forall>j<?n. m' (?p + 4 + j) = xs ! j)" if i: "0 < i" "i \<le> 4 + ?n"
  proof -
    have t: "take i (store_ops xs b k) = Prog ?p 0xAF # take (i - 1) X" by (rule XY(4) [OF i])
    have ne: "no_erase (Prog ?p 0xAF # take (i - 1) X)" using no_erase_take [OF XY(2)] by simp
    show "m' ?p = 0xAF" using run_ops_at [OF ne, of m ?p] FF [of ?p] inside tk [OF XY(6)]
      unfolding m' t by (simp del: run_ops_simps)
    show "\<forall>a<?p. m' a = m a" using run_ops_at [OF ne, of m] tk [OF XY(9)]
      unfolding m' t by (simp del: run_ops_simps)
    show "i = 4 + ?n \<longrightarrow> (\<forall>j<?n. m' (?p + 4 + j) = xs ! j)"
    proof (intro impI allI)
      fix j assume "i = 4 + ?n" "j < ?n"
      then have "take (i - 1) X = X" using XY(1) by simp
      then show "m' (?p + 4 + j) = xs ! j"
        using run_ops_at [OF ne, of m "?p + 4 + j"] XY(8) [OF \<open>j < ?n\<close>] FF [of "?p + 4 + j"] inside \<open>j < ?n\<close>
        unfolding m' t by (simp del: run_ops_simps)
    qed
  qed
  have late: "m' ?p = 0xA5" "\<forall>j<?n. m' (?p + 4 + j) = xs ! j" if i: "4 + ?n < i"
  proof -
    obtain j where t: "take i (store_ops xs b k) = Prog ?p 0xAF # X @ Prog ?p 0xA5 # take j Y" using XY(5) [OF i] by blast
    have ne: "no_erase (Prog ?p 0xAF # X @ Prog ?p 0xA5 # take j Y)" using no_erase_take [OF XY(3)] XY(2) by simp
    show "m' ?p = 0xA5" using run_ops_at [OF ne, of m ?p] FF [of ?p] inside tk [OF XY(7)] XY(6)
      unfolding m' t by (simp del: run_ops_simps)
    show "\<forall>j<?n. m' (?p + 4 + j) = xs ! j"
      using run_ops_at [OF ne, of m] XY(8) FF inside tk unfolding m' t by (simp del: run_ops_simps)
  qed
  have frame: "m' a = m a" if "a < b \<or> ?p + (?n + 4) \<le> a" for a
    unfolding m' by (rule run_take_frame [OF no_erase_store store_ops_frame]) (use that in auto)
  have used: "m' (b + j * (?n + 4)) \<noteq> 0xFF" if "j < k" for j
    using run_ops_clears [OF no_erase_take [OF no_erase_store], of i xs b k m] assms(1) that
    unfolding m' by (auto simp: sec_ok_def)
  have ok: "sec_ok m' b ?n (k + 1)" if "0 < i"
  proof -
    have "m' ?p \<noteq> 0xFF" using early(1) late(1) that by (cases "i \<le> 4 + ?n") auto
    then have "\<forall>j<k + 1. m' (b + j * (?n + 4)) \<noteq> 0xFF" using used by (auto simp: less_Suc_eq)
    moreover have "m' a = 0xFF" if a: "b + (k + 1) * (?n + 4) \<le> a" "a < b + 4096" for a
    proof -
      have "?p + (?n + 4) \<le> a" using a by simp
      then show ?thesis using frame [of a] FF [of a] a by simp
    qed
    ultimately show ?thesis using assms(2) by (simp add: sec_ok_def)
  qed
  have cur1: "current m' b ?n (k + 1) = current m b ?n k" if "0 < i" "i \<le> 4 + ?n"
    using early(1,2) [OF that] current_cong [of b k ?n m' m] by simp
  have cur2: "current m' b ?n (k + 1) = Some xs" if "4 + ?n < i"
    using late [OF that] by (auto simp: flash_read_page_def intro!: nth_equalityI)
  have dat: "flash_read_page m' (?p + 4) ?n = xs" if "i = 4 + ?n"
    by (rule nth_equalityI) (use early(3) that in auto)
  have out: "\<forall>a. a < b \<or> b + 4096 \<le> a \<longrightarrow> m' a = m a" using frame inside by auto
  show ?thesis
    by (rule that [OF m' _ ok cur1 cur2 late(1) dat out]) (simp_all add: m')
qed

section \<open>Storing\<close>

lemma erase_sector:
  assumes "b mod 4096 = 0"
  shows "sec_ok (apply_op (Erase b) m) b n 0" "a < b \<or> b + 4096 \<le> a \<Longrightarrow> apply_op (Erase b) m a = m a"
proof -
  obtain q where q: "b = 4096 * q" using assms by (metis mod_0_imp_dvd dvdE)
  have "a div 4096 = q" if "b \<le> a" "a < b + 4096" for a
    using that unfolding q by (intro div_nat_eqI) simp_all
  then show "sec_ok (apply_op (Erase b) m) b n 0" by (simp add: sec_ok_def q)
  assume "a < b \<or> b + 4096 \<le> a"
  then have "a div 4096 \<noteq> q"
    using div_mult_mod_eq [of a 4096] mod_less_divisor [of 4096 a] unfolding q by linarith
  then show "apply_op (Erase b) m a = m a" by (simp add: q)
qed

definition skips :: "bool \<Rightarrow> u8 list \<Rightarrow> nat \<Rightarrow> nat \<Rightarrow> (nat \<Rightarrow> u8) \<Rightarrow> bool" where
  "skips mapped xs b k m \<longleftrightarrow> 0 < k \<and> mapped \<and> xs \<noteq> [] \<and>
     flash_read_page m (b + (k - 1) * (length xs + 4) + 4) (length xs) = xs"

lemma store_cases:
  assumes "length xs \<le> 4088"
  shows "4092 < (k + 1) * (length xs + 4) \<Longrightarrow> \<exists>s'. mesh_par_store mapped xs (b + k * (length xs + 4)) b s = (b + (length xs + 4), s') \<and>
      flog s' = flog s @ Erase b # store_ops xs b 0 \<and> mem s' = run_ops (Erase b # store_ops xs b 0) (mem s)"
    "(k + 1) * (length xs + 4) \<le> 4092 \<Longrightarrow> skips mapped xs b k (mem s) \<Longrightarrow>
      mesh_par_store mapped xs (b + k * (length xs + 4)) b s = (b + k * (length xs + 4), s)"
    "(k + 1) * (length xs + 4) \<le> 4092 \<Longrightarrow> \<not> skips mapped xs b k (mem s) \<Longrightarrow>
      \<exists>s'. mesh_par_store mapped xs (b + k * (length xs + 4)) b s = (b + (k + 1) * (length xs + 4), s') \<and>
      flog s' = flog s @ store_ops xs b k \<and> mem s' = run_ops (store_ops xs b k) (mem s)"
proof -
  let ?ss = "length xs + 4"
  have full: "(b + k * ?ss > b + 4096 - ?ss - 4) = (4092 < (k + 1) * ?ss)"
  proof -
    have "(k + 1) * ?ss = k * ?ss + ?ss" by (simp only: add_mult_distrib mult_1)
    then show ?thesis using assms by linarith
  qed
  have pos: "(b + k * ?ss \<ge> b + ?ss) = (0 < k)" by (cases k) simp_all
  have last: "0 < k \<Longrightarrow> b + k * ?ss - ?ss = b + (k - 1) * ?ss" by (cases k) simp_all
  show "\<exists>s'. mesh_par_store mapped xs (b + k * ?ss) b s = (b + ?ss, s') \<and>
      flog s' = flog s @ Erase b # store_ops xs b 0 \<and> mem s' = run_ops (Erase b # store_ops xs b 0) (mem s)"
    if "4092 < (k + 1) * ?ss"
    using that full by (simp add: mesh_par_store_def Let_def flash_consts store_ops_def record_ops_def)
  show "mesh_par_store mapped xs (b + k * ?ss) b s = (b + k * ?ss, s)"
    if "(k + 1) * ?ss \<le> 4092" "skips mapped xs b k (mem s)"
    using that full pos last
    by (simp add: mesh_par_store_def Let_def flash_consts skips_def data_cmp_same del: add_diff_assoc2)
  show "\<exists>s'. mesh_par_store mapped xs (b + k * ?ss) b s = (b + (k + 1) * ?ss, s') \<and>
      flog s' = flog s @ store_ops xs b k \<and> mem s' = run_ops (store_ops xs b k) (mem s)"
    if "(k + 1) * ?ss \<le> 4092" "\<not> skips mapped xs b k (mem s)"
    using that full pos last
    by (auto simp: mesh_par_store_def Let_def flash_consts skips_def data_cmp_same store_ops_def record_ops_def)
qed

text \<open>Splitting a prefix of a store's log: nothing yet, or the operations of the record.\<close>

lemma take_all_ops: "take (length (store_ops xs b k)) (store_ops xs b k) = store_ops xs b k"
  by simp

lemma length_store_ops: "4 + length xs < length (store_ops xs b k)"
  by (simp add: store_ops_def record_ops_def)

lemma store_complete:
  assumes "sec_ok m b (length xs) k" "(k + 1) * (length xs + 4) \<le> 4092"
  shows "sec_ok (run_ops (store_ops xs b k) m) b (length xs) (k + 1)"
    "current (run_ops (store_ops xs b k) m) b (length xs) (k + 1) = Some xs"
    "run_ops (store_ops xs b k) m (b + k * (length xs + 4)) = 0xA5"
    "\<forall>a. a < b \<or> b + 4096 \<le> a \<longrightarrow> run_ops (store_ops xs b k) m a = m a"
proof -
  let ?i = "length (store_ops xs b k)"
  have i: "0 < ?i" "4 + length xs < ?i" using length_store_ops [of xs b k] by linarith+
  obtain m' where m': "m' = run_ops (take ?i (store_ops xs b k)) m" "sec_ok m' b (length xs) (k + 1)"
    "current m' b (length xs) (k + 1) = Some xs" "m' (b + k * (length xs + 4)) = 0xA5"
    "\<forall>a. a < b \<or> b + 4096 \<le> a \<longrightarrow> m' a = m a"
    using crash_record [OF assms, of ?i] i by metis
  have e: "m' = run_ops (store_ops xs b k) m" using m'(1) by simp
  show "sec_ok (run_ops (store_ops xs b k) m) b (length xs) (k + 1)"
    "current (run_ops (store_ops xs b k) m) b (length xs) (k + 1) = Some xs"
    "run_ops (store_ops xs b k) m (b + k * (length xs + 4)) = 0xA5"
    "\<forall>a. a < b \<or> b + 4096 \<le> a \<longrightarrow> run_ops (store_ops xs b k) m a = m a"
    using m'(2-5) unfolding e by blast+
qed

text \<open>
  \<open>stored m b n k xs\<close>: the sector is well formed, its last slot is valid and a restart finds \<open>xs\<close>
  and the write address \<open>b + k * (n + 4)\<close>.
\<close>

definition stored :: "(nat \<Rightarrow> u8) \<Rightarrow> nat \<Rightarrow> nat \<Rightarrow> nat \<Rightarrow> u8 list \<Rightarrow> bool" where
  "stored m b n k xs \<longleftrightarrow> sec_ok m b n k \<and> 0 < k \<and> m (b + (k - 1) * (n + 4)) = 0xA5 \<and>
     (\<forall>out p. mesh_par_retrieve out p b n m = (xs, b + k * (n + 4), 0))"

lemma storedI:
  assumes "sec_ok m b n (k + 1)" "current m b n (k + 1) = Some xs" "m (b + k * (n + 4)) = 0xA5"
  shows "stored m b n (k + 1) xs"
  using retrieve_sector [OF assms(1)] assms by (simp add: stored_def)

lemma store_stores:
  assumes "b mod 4096 = 0" "xs \<noteq> []" "length xs \<le> 4088" "sec_ok (mem s) b (length xs) k"
    and "k = 0 \<or> mem s (b + (k - 1) * (length xs + 4)) = 0xA5"
  shows "\<exists>k' s'. mesh_par_store mapped xs (b + k * (length xs + 4)) b s = (b + k' * (length xs + 4), s') \<and>
    stored (mem s') b (length xs) k' xs \<and> (\<forall>a. a < b \<or> b + 4096 \<le> a \<longrightarrow> mem s' a = mem s a)"
proof (cases "4092 < (k + 1) * (length xs + 4)")
  case True
  obtain s' where s': "mesh_par_store mapped xs (b + k * (length xs + 4)) b s = (b + (length xs + 4), s')"
    "mem s' = run_ops (store_ops xs b 0) (apply_op (Erase b) (mem s))"
    using store_cases(1) [OF assms(3) True, of mapped b s] by (auto simp del: apply_op.simps)
  note e = erase_sector [OF assms(1)]
  have fit: "(0 + 1) * (length xs + 4) \<le> 4092" using assms(3) by simp
  note c = store_complete [OF e(1) [of "mem s" "length xs"] fit]
  have "stored (mem s') b (length xs) (0 + 1) xs"
    unfolding s'(2) by (rule storedI) (use c in \<open>simp_all del: apply_op.simps\<close>)
  moreover have "\<forall>a. a < b \<or> b + 4096 \<le> a \<longrightarrow> mem s' a = mem s a"
    using c(4) e(2) unfolding s'(2) by metis
  ultimately show ?thesis using s'(1) by (intro exI [of _ 1]) auto
next
  case False
  then have fit: "(k + 1) * (length xs + 4) \<le> 4092" by simp
  show ?thesis
  proof (cases "skips mapped xs b k (mem s)")
    case True
    then have k: "0 < k" "flash_read_page (mem s) (b + (k - 1) * (length xs + 4) + 4) (length xs) = xs"
      by (auto simp: skips_def)
    then obtain j where j: "k = j + 1" by (metis Suc_eq_plus1 gr0_implies_Suc)
    have "stored (mem s) b (length xs) (j + 1) xs"
      by (rule storedI) (use assms(4,5) k j in simp_all)
    then show ?thesis using store_cases(2) [OF assms(3) fit True] j by (intro exI [of _ "j + 1"] exI [of _ s]) simp
  next
    case False
    obtain s' where s': "mesh_par_store mapped xs (b + k * (length xs + 4)) b s = (b + (k + 1) * (length xs + 4), s')"
      "mem s' = run_ops (store_ops xs b k) (mem s)"
      using store_cases(3) [OF assms(3) fit False] by blast
    note c = store_complete [OF assms(4) fit]
    have "stored (mem s') b (length xs) (k + 1) xs" unfolding s'(2) by (rule storedI) (use c in simp_all)
    then show ?thesis using s' c(4) by (intro exI [of _ "k + 1"] exI [of _ s']) simp
  qed
qed

text \<open>
C9: What is stored is what the next start retrieves: from a well-formed sector whose last record
is valid, storing any record that fits leaves the sector well formed with that record as its last,
and a restart reads back exactly it and continues at the right address, also when the sector was
full and had to be erased; no other sector changes.
\<close>

theorem stored_is_retrieved:
  assumes "b mod 4096 = 0" "xs \<noteq> []" "length xs \<le> 4088" "sec_ok (mem s) b (length xs) k"
    and "k = 0 \<or> mem s (b + (k - 1) * (length xs + 4)) = 0xA5"
  shows "\<exists>k' s'. mesh_par_store mapped xs (b + k * (length xs + 4)) b s = (b + k' * (length xs + 4), s') \<and>
    sec_ok (mem s') b (length xs) k' \<and> mem s' (b + (k' - 1) * (length xs + 4)) = 0xA5 \<and>
    mesh_par_retrieve out p b (length xs) (mem s') = (xs, b + k' * (length xs + 4), 0) \<and>
    (\<forall>a. a < b \<or> b + 4096 \<le> a \<longrightarrow> mem s' a = mem s a)"
  using store_stores [OF assms, of mapped] unfolding stored_def by blast

text \<open>
C11: Power loss at any point of a store, even between two bytes, leaves a well-formed sector from
which the next start retrieves the record of before or the new one, and never a mixture; only when
the sector was full, so that the store erased it first, can the record be lost altogether.
\<close>

theorem power_loss_is_atomic:
  assumes "b mod 4096 = 0" "length xs \<le> 4088" "sec_ok (mem s) b (length xs) k"
    and "mesh_par_store mapped xs (b + k * (length xs + 4)) b s = (q, s')"
  shows "\<exists>k'. (let m' = run_ops (take i (drop (length (flog s)) (flog s'))) (mem s);
      old = mesh_par_retrieve out p b (length xs) (mem s); new = mesh_par_retrieve out p b (length xs) m' in
    sec_ok m' b (length xs) k' \<and> fst (snd new) = b + k' * (length xs + 4) \<and>
    ((fst new, snd (snd new)) = (xs, 0) \<or> (fst new, snd (snd new)) = (fst old, snd (snd old)) \<or>
     4092 < (k + 1) * (length xs + 4) \<and> snd (snd new) = -1) \<and>
    (\<forall>a. a < b \<or> b + 4096 \<le> a \<longrightarrow> m' a = mem s a))"
proof -
  let ?n = "length xs"
  have result: ?thesis
    if "m' = run_ops (take i (drop (length (flog s)) (flog s'))) (mem s)" "sec_ok m' b ?n k'"
      "current m' b ?n k' = Some xs \<or> current m' b ?n k' = current (mem s) b ?n k \<or>
       4092 < (k + 1) * (?n + 4) \<and> current m' b ?n k' = None"
      "\<forall>a. a < b \<or> b + 4096 \<le> a \<longrightarrow> m' a = mem s a" for m' k'
    using that(2-4)
    by (intro exI [of _ k']) (auto simp: that(1) [symmetric] Let_def retrieve_sector [OF that(2)]
        retrieve_sector [OF assms(3)] split: option.splits)
  consider "4092 < (k + 1) * (?n + 4)" | "(k + 1) * (?n + 4) \<le> 4092" "skips mapped xs b k (mem s)"
    | "(k + 1) * (?n + 4) \<le> 4092" "\<not> skips mapped xs b k (mem s)" by linarith
  then show ?thesis
  proof cases
    case 1
    have f: "drop (length (flog s)) (flog s') = Erase b # store_ops xs b 0"
      using store_cases(1) [OF assms(2) 1, of mapped b s] assms(4) by auto
    show ?thesis
    proof (cases i)
      case 0
      then show ?thesis by (intro result [of "mem s" k]) (use assms(3) in simp_all)
    next
      case (Suc j)
      let ?m = "apply_op (Erase b) (mem s)"
      note e = erase_sector [OF assms(1)]
      have fit: "(0 + 1) * (?n + 4) \<le> 4092" using assms(2) by simp
      obtain m' where m': "m' = run_ops (take j (store_ops xs b 0)) ?m" "j = 0 \<Longrightarrow> m' = ?m"
        "0 < j \<Longrightarrow> sec_ok m' b ?n (0 + 1)"
        "0 < j \<Longrightarrow> j \<le> 4 + ?n \<Longrightarrow> current m' b ?n (0 + 1) = current ?m b ?n 0"
        "4 + ?n < j \<Longrightarrow> current m' b ?n (0 + 1) = Some xs" "\<forall>a. a < b \<or> b + 4096 \<le> a \<longrightarrow> m' a = ?m a"
        using crash_record [OF e(1) fit, of j] by metis
      have eq: "m' = run_ops (take i (drop (length (flog s)) (flog s'))) (mem s)" using m'(1) by (simp add: f Suc)
      have out: "\<forall>a. a < b \<or> b + 4096 \<le> a \<longrightarrow> m' a = mem s a" using m'(6) e(2) by metis
      show ?thesis
      proof (cases "j = 0")
        case True
        then show ?thesis by (intro result [OF eq, of 0]) (use m'(2) e(1) out 1 in simp_all)
      next
        case False
        then show ?thesis
          by (intro result [OF eq, of "0 + 1"]) (use m'(3-5) out 1 in \<open>cases "j \<le> 4 + ?n"; simp\<close>)+
      qed
    qed
  next
    case 2
    then have "s' = s" using store_cases(2) [OF assms(2) 2] assms(4) by simp
    then show ?thesis by (intro result [of "mem s" k]) (use assms(3) in simp_all)
  next
    case 3
    have f: "drop (length (flog s)) (flog s') = store_ops xs b k"
      using store_cases(3) [OF assms(2) 3] assms(4) by auto
    obtain m' where m': "m' = run_ops (take i (store_ops xs b k)) (mem s)" "i = 0 \<Longrightarrow> m' = mem s"
      "0 < i \<Longrightarrow> sec_ok m' b ?n (k + 1)"
      "0 < i \<Longrightarrow> i \<le> 4 + ?n \<Longrightarrow> current m' b ?n (k + 1) = current (mem s) b ?n k"
      "4 + ?n < i \<Longrightarrow> current m' b ?n (k + 1) = Some xs" "\<forall>a. a < b \<or> b + 4096 \<le> a \<longrightarrow> m' a = mem s a"
      using crash_record [OF assms(3) 3(1), of i] by metis
    have eq: "m' = run_ops (take i (drop (length (flog s)) (flog s'))) (mem s)" using m'(1) by (simp add: f)
    show ?thesis
    proof (cases "i = 0")
      case True
      then show ?thesis by (intro result [OF eq, of k]) (use m'(2,6) assms(3) in simp_all)
    next
      case False
      then have "current m' b ?n (k + 1) = Some xs \<or> current m' b ?n (k + 1) = current (mem s) b ?n k"
        using m'(4,5) by (cases "i \<le> 4 + ?n") simp_all
      then show ?thesis using result [OF eq, of "k + 1"] m'(3,6) False by blast
    qed
  qed
qed

text \<open>
C24: After a power loss between the last data byte and the byte that makes a record valid, the
record cannot be stored any more: the next start retrieves the old one, and storing the same data
again is taken for a repetition of the incomplete record and writes nothing.
\<close>

theorem retry_after_power_loss_is_lost:
  assumes "length xs \<le> 4088" "xs \<noteq> []" "sec_ok (mem s) b (length xs) k" "(k + 2) * (length xs + 4) \<le> 4092"
    and "mesh_par_store True xs (b + k * (length xs + 4)) b s = (q, s')" "mem s' \<noteq> mem s"
    and "m' = run_ops (take (4 + length xs) (drop (length (flog s)) (flog s'))) (mem s)" "mem t = m'"
    and "mesh_par_retrieve out p b (length xs) m' = (d, p', err)"
  shows "(d, err) = (fst (mesh_par_retrieve out p b (length xs) (mem s)), snd (snd (mesh_par_retrieve out p b (length xs) (mem s)))) \<and>
    mesh_par_store True xs p' b t = (p', t)"
proof -
  let ?n = "length xs"
  have fit: "(k + 1) * (?n + 4) \<le> 4092" "(k + 1 + 1) * (?n + 4) \<le> 4092" using assms(4) by simp_all
  have ns: "\<not> skips True xs b k (mem s)" using store_cases(2) [OF assms(1) fit(1), of True b s] assms(5,6) by auto
  have f: "drop (length (flog s)) (flog s') = store_ops xs b k"
    using store_cases(3) [OF assms(1) fit(1) ns] assms(5) by auto
  obtain m where m: "m = run_ops (take (4 + ?n) (store_ops xs b k)) (mem s)" "sec_ok m b ?n (k + 1)"
    "current m b ?n (k + 1) = current (mem s) b ?n k" "flash_read_page m (b + k * (?n + 4) + 4) ?n = xs"
    using crash_record [OF assms(3) fit(1), of "4 + ?n"] by (metis add_gr_0 zero_less_numeral order_refl)
  have e: "m = m'" using m(1) assms(7) f by simp
  have old: "(d, err) = (fst (mesh_par_retrieve out p b ?n (mem s)), snd (snd (mesh_par_retrieve out p b ?n (mem s))))"
    using retrieve_sector [OF m(2), of out p] retrieve_sector [OF assms(3), of out p] m(3) assms(9)
    by (auto simp: e split: option.splits)
  have "p' = b + (k + 1) * (?n + 4)"
    using retrieve_sector [OF m(2), of out p] assms(9) by (auto simp: e split: option.splits)
  moreover have "skips True xs b (k + 1) (mem t)" using m(4) assms(2,8) by (simp add: skips_def e)
  ultimately have "mesh_par_store True xs p' b t = (p', t)" using store_cases(2) [OF assms(1) fit(2)] by simp
  with old show ?thesis by blast
qed

section \<open>Concrete runs\<close>

definition blank :: "unit fl_st_scheme" where
  "blank = \<lparr>mem = (\<lambda>_. 0xFF), flog = [], flash_write_err_cnt = 0\<rparr>"

lemma blank_fields [simp]: "mem blank = (\<lambda>_. 0xFF)" "flog blank = []"
  by (simp_all add: blank_def)

lemma blank_ok: "sec_ok (mem blank) b n 0"
  by (simp add: sec_ok_def)

lemma stored_is_retrieved_witness:
  "\<exists>k' s'. mesh_par_store True [1, 2] (4096 + 0 * (length [1, 2 :: u8] + 4)) 4096 blank = (4096 + k' * (length [1, 2 :: u8] + 4), s') \<and>
     mesh_par_retrieve [] 0 4096 (length [1, 2 :: u8]) (mem s') = ([1, 2], 4096 + k' * (length [1, 2 :: u8] + 4), 0)"
proof -
  have "(4096 :: nat) mod 4096 = 0" "[1, 2 :: u8] \<noteq> []" "length [1, 2 :: u8] \<le> 4088" by simp_all
  from stored_is_retrieved [OF this blank_ok, of True "[]" 0] show ?thesis by blast
qed

lemma blank_stores: "\<exists>s'. mesh_par_store mapped [7] b b blank = (b + 5, s') \<and> flog s' = store_ops [7] b 0 \<and>
    mem s' = run_ops (store_ops [7] b 0) (\<lambda>_. 0xFF)"
  using store_cases(3) [where xs = "[7]" and k = 0 and mapped = mapped and b = b and s = blank] by (simp add: skips_def)

lemma power_loss_is_atomic_witness:
  "\<exists>k' s'. mesh_par_store True [7] 0 0 blank = (5, s') \<and>
     sec_ok (run_ops (take 3 (flog s')) (\<lambda>_. 0xFF)) 0 1 k'"
proof -
  obtain s' where s': "mesh_par_store True [7] 0 0 blank = (5, s')" using blank_stores [of True 0] by auto
  then show ?thesis
    using power_loss_is_atomic [where b = 0 and xs = "[7]" and s = blank and k = 0 and mapped = True and q = 5 and s' = s' and i = 3 and out = "[]" and p = 0] blank_ok by (auto simp: Let_def)
qed

lemma retry_after_power_loss_is_lost_witness:
  "\<exists>m'. mesh_par_retrieve [] 0 0 1 m' = ([], 5, -1) \<and> mesh_par_store True [7] 5 0 (blank\<lparr>mem := m'\<rparr>) = (5, blank\<lparr>mem := m'\<rparr>)"
proof -
  obtain s' where s': "mesh_par_store True [7] 0 0 blank = (5, s')" "flog s' = store_ops [7] 0 0"
    "mem s' = run_ops (store_ops [7] 0 0) (\<lambda>_. 0xFF)" using blank_stores [of True 0] by auto
  let ?m = "run_ops (take 5 (store_ops [7] 0 0)) (\<lambda>_. 0xFF)"
  have m: "?m = (\<lambda>a. if a = 0 then 0xAF else if a = 4 then 7 else if a < 4 then 0 else 0xFF)"
    by (rule ext) (auto simp: store_ops_def record_ops_def page_ops_def upt_rec numeral_eq_Suc)
  have ok: "sec_ok ?m 0 1 1" unfolding m by (simp add: sec_ok_def)
  have "mesh_par_retrieve [] 0 0 1 ?m = ([], 5, -1)"
    using retrieve_sector [OF ok, where out = "[]" and p = 0] by (simp add: m)
  moreover have "mem s' \<noteq> mem blank"
    using store_complete(3) [where m = "\<lambda>_. 0xFF" and b = 0 and xs = "[7]" and k = 0] blank_ok [of 0 1] s'(3) by (auto dest: fun_cong [of _ _ 0])
  ultimately show ?thesis
    using retry_after_power_loss_is_lost [where xs = "[7]" and s = blank and b = 0 and k = 0 and q = 5 and s' = s' and m' = ?m
        and t = "blank\<lparr>mem := ?m\<rparr>" and out = "[]" and p = 0 and d = "[]" and p' = 5 and err = "-1"] s' blank_ok [of 0 1]
    by (intro exI [of _ ?m]) (auto simp: blank_def)
qed

end
