(* ===== verification/CString.thy ===== *)
theory CString
  imports Prelude
begin

text \<open>
  The byte and string routines of \<open>proj/common/tstring.c\<close> and the byte-order helpers of
  \<open>proj/common/tutility.c\<close>, on an explicit memory: a list of bytes with pointers as indices. Reading
  or writing outside it is \<open>None\<close>; the null pointer is the separate value \<open>None\<close> of type
  \<open>nat option\<close>. Lengths and values of type \<open>int\<close> are naturals where the code only compares and
  counts them down.
\<close>

section \<open>Memory\<close>

type_synonym memory = "u8 list"

definition rd :: "memory \<Rightarrow> nat \<Rightarrow> u8 option" where
  "rd m p = (if p < length m then Some (m ! p) else None)"

definition wr :: "memory \<Rightarrow> nat \<Rightarrow> u8 \<Rightarrow> memory option" where
  "wr m p v = (if p < length m then Some (m[p := v]) else None)"

lemma rd_Some [simp]: "rd m p = Some v \<longleftrightarrow> p < length m \<and> v = m ! p"
  by (auto simp: rd_def)

lemma wr_Some [simp]: "wr m p v = Some m' \<longleftrightarrow> p < length m \<and> m' = m[p := v]"
  by (auto simp: wr_def)

section \<open>Copying and filling\<close>

function strcpy_loop :: "memory \<Rightarrow> nat \<Rightarrow> nat \<Rightarrow> memory option" where
  "strcpy_loop m d s =
     (if s < length m \<and> d < length m then
        (let c = m ! s; m' = m[d := c] in if c \<noteq> 0 then strcpy_loop m' (d + 1) (s + 1) else Some m')
      else None)"
  by pat_completeness auto

termination
  by (relation "measure (\<lambda>(m, d, s). length m - s)") auto

declare strcpy_loop.simps [simp del]

definition strcpy :: "memory \<Rightarrow> nat \<Rightarrow> nat \<Rightarrow> (nat \<times> memory) option" where
  "strcpy m dst0 src0 = map_option (Pair dst0) (strcpy_loop m dst0 src0)"

fun copy_up :: "memory \<Rightarrow> nat \<Rightarrow> nat \<Rightarrow> nat \<Rightarrow> memory option" where
  "copy_up m s d 0 = Some m"
| "copy_up m s d (Suc n) = (if s < length m \<and> d < length m then copy_up (m[d := m ! s]) (s + 1) (d + 1) n else None)"

text \<open>The downward loop: \<open>n\<close> bytes remain, the last of them at \<open>s + n - 1\<close>.\<close>

fun copy_down :: "memory \<Rightarrow> nat \<Rightarrow> nat \<Rightarrow> nat \<Rightarrow> memory option" where
  "copy_down m s d 0 = Some m"
| "copy_down m s d (Suc n) =
     (if s + n < length m \<and> d + n < length m then copy_down (m[d + n := m ! (s + n)]) s d n else None)"

definition memmove :: "memory \<Rightarrow> nat \<Rightarrow> nat \<Rightarrow> nat \<Rightarrow> memory option" where
  "memmove m dest src n = copy_up m src dest n"

definition bbcopy :: "memory \<Rightarrow> nat \<Rightarrow> nat \<Rightarrow> nat \<Rightarrow> memory option" where
  "bbcopy m src dest len = (if dest < src then copy_up m src dest len else copy_down m src dest len)"

definition bcopy :: "memory \<Rightarrow> nat \<Rightarrow> nat \<Rightarrow> nat \<Rightarrow> memory option" where
  "bcopy m src dest len = bbcopy m src dest len"

definition memcpy :: "memory \<Rightarrow> nat \<Rightarrow> nat \<Rightarrow> nat \<Rightarrow> memory option" where
  "memcpy m out' in' len = bcopy m in' out' len"

fun memset :: "memory \<Rightarrow> nat \<Rightarrow> u32 \<Rightarrow> nat \<Rightarrow> memory option" where
  "memset m p v 0 = Some m"
| "memset m p v (Suc n) = (if p < length m then memset (m[p := ucast v]) (p + 1) v n else None)"

text \<open>Words of four bytes, little-endian.\<close>

definition word_bytes :: "u32 \<Rightarrow> u8 list" where
  "word_bytes w = [ucast w, ucast (drop_bit 8 w), ucast (drop_bit 16 w), ucast (drop_bit 24 w)]"

fun set4_loop :: "memory \<Rightarrow> nat \<Rightarrow> u32 \<Rightarrow> nat \<Rightarrow> memory option" where
  "set4_loop m p v 0 = Some m"
| "set4_loop m p v (Suc n) =
     (if p + 4 \<le> length m then set4_loop (wr_bytes m p (word_bytes v)) (p + 4) v n else None)"

definition memset4 :: "memory \<Rightarrow> nat \<Rightarrow> u32 \<Rightarrow> nat \<Rightarrow> memory option" where
  "memset4 m dest v len = set4_loop m dest v (len div 4)"

definition zeromem4 :: "memory \<Rightarrow> nat \<Rightarrow> nat \<Rightarrow> memory option" where
  "zeromem4 m p len = memset4 m p 0 len"

fun copy4_loop :: "memory \<Rightarrow> nat \<Rightarrow> nat \<Rightarrow> nat \<Rightarrow> memory option" where
  "copy4_loop m d s 0 = Some m"
| "copy4_loop m d s (Suc n) =
     (if d + 4 \<le> length m \<and> s + 4 \<le> length m
      then copy4_loop (wr_bytes m d (rd_bytes m s 4)) (d + 4) (s + 4) n else None)"

text \<open>The assertions are compiled out; the remainder is copied bytewise.\<close>

definition memcpy4 :: "memory \<Rightarrow> nat \<Rightarrow> nat \<Rightarrow> nat \<Rightarrow> memory option" where
  "memcpy4 m d s len =
     (case copy4_loop m d s (len div 4) of None \<Rightarrow> None
      | Some m' \<Rightarrow> if len mod 4 \<noteq> 0 then memcpy m' (d + 4 * (len div 4)) (s + 4 * (len div 4)) (len mod 4) else Some m')"

section \<open>Searching and comparing\<close>

function strchr :: "memory \<Rightarrow> nat \<Rightarrow> u8 \<Rightarrow> nat option option" where
  "strchr m s c =
     (if s < length m then
        (if m ! s = c then Some (Some s) else if m ! s \<noteq> 0 then strchr m (s + 1) c else Some None)
      else None)"
  by pat_completeness auto

termination by (relation "measure (\<lambda>(m, s, c). length m - s)") auto

declare strchr.simps [simp del]

fun memcmp :: "memory \<Rightarrow> nat \<Rightarrow> nat \<Rightarrow> nat \<Rightarrow> int option" where
  "memcmp m p q 0 = Some 0"
| "memcmp m p q (Suc n) =
     (if p < length m \<and> q < length m then
        (if m ! p \<noteq> m ! q then Some (uint (m ! p) - uint (m ! q)) else memcmp m (p + 1) (q + 1) n)
      else None)"

fun memchr :: "memory \<Rightarrow> nat \<Rightarrow> u8 \<Rightarrow> nat \<Rightarrow> nat option option" where
  "memchr m p c 0 = Some None"
| "memchr m p c (Suc n) =
     (if p < length m then (if m ! p = c then Some (Some p) else memchr m (p + 1) c n) else None)"

function strlen_loop :: "memory \<Rightarrow> nat \<Rightarrow> nat \<Rightarrow> nat option" where
  "strlen_loop m p len =
     (if p < length m then (if m ! p \<noteq> 0 then strlen_loop m (p + 1) (len + 1) else Some len) else None)"
  by pat_completeness auto

termination by (relation "measure (\<lambda>(m, p, len). length m - p)") auto

declare strlen_loop.simps [simp del]

definition strlen :: "memory \<Rightarrow> nat option \<Rightarrow> nat option" where
  "strlen m str = (case str of None \<Rightarrow> Some 0 | Some p \<Rightarrow> strlen_loop m p 0)"

function strcmp :: "memory \<Rightarrow> nat \<Rightarrow> nat \<Rightarrow> int option" where
  "strcmp m p q =
     (if p < length m \<and> q < length m then
        (if m ! p = m ! q then (if m ! p = 0 then Some 0 else strcmp m (p + 1) (q + 1))
         else if uint (m ! p) - uint (m ! q) < 0 then Some (-1) else Some 1)
      else None)"
  by pat_completeness auto

termination by (relation "measure (\<lambda>(m, p, q). length m - p)") auto

declare strcmp.simps [simp del]

text \<open>\<open>strncpy\<close>: the source pointer never becomes null, so exactly \<open>n\<close> bytes are copied.\<close>

definition strncpy :: "memory \<Rightarrow> nat option \<Rightarrow> nat option \<Rightarrow> nat \<Rightarrow> (nat option \<times> memory) option" where
  "strncpy m s t n =
     (case s of None \<Rightarrow> Some (None, m)
      | Some d \<Rightarrow> (case t of Some p \<Rightarrow> map_option (Pair s) (copy_up m p d n)
                   | None \<Rightarrow> map_option (Pair s) (memset m d 0 (n + 1))))"

text \<open>The inner loop compares until a difference (\<open>False\<close>) or the end of the second string.\<close>

function match_at :: "memory \<Rightarrow> nat \<Rightarrow> nat \<Rightarrow> nat \<Rightarrow> bool option" where
  "match_at m p q n =
     (if p + n < length m \<and> q + n < length m then
        (if m ! (p + n) = m ! (q + n) then
           (if q + n + 1 < length m then (if m ! (q + n + 1) = 0 then Some True else match_at m p q (n + 1)) else None)
         else Some False)
      else None)"
  by pat_completeness auto

termination by (relation "measure (\<lambda>(m, p, q, n). length m - (p + n))") auto

declare match_at.simps [simp del]

function strstr_loop :: "memory \<Rightarrow> nat \<Rightarrow> nat \<Rightarrow> nat option option" where
  "strstr_loop m p q =
     (if p < length m then
        (if m ! p \<noteq> 0 then
           (case match_at m p q 0 of None \<Rightarrow> None | Some b \<Rightarrow> if b then Some (Some p) else strstr_loop m (p + 1) q)
         else Some None)
      else None)"
  by pat_completeness auto

termination by (relation "measure (\<lambda>(m, p, q). length m - p)") auto

declare strstr_loop.simps [simp del]

definition strstr :: "memory \<Rightarrow> nat \<Rightarrow> nat \<Rightarrow> nat option option" where
  "strstr m s1 s2 = (if s2 < length m then (if m ! s2 \<noteq> 0 then strstr_loop m s1 s2 else Some (Some s1)) else None)"

section \<open>Tests on buffers\<close>

fun all_bytes :: "u8 \<Rightarrow> memory \<Rightarrow> nat \<Rightarrow> nat \<Rightarrow> bool option" where
  "all_bytes v m p 0 = Some True"
| "all_bytes v m p (Suc n) = (if p < length m then (if m ! p \<noteq> v then Some False else all_bytes v m (p + 1) n) else None)"

definition is_buf_zero :: "memory \<Rightarrow> nat \<Rightarrow> nat \<Rightarrow> bool option" where
  "is_buf_zero m p len = all_bytes 0 m p len"

definition is_buf_all_one :: "memory \<Rightarrow> nat \<Rightarrow> nat \<Rightarrow> bool option" where
  "is_buf_all_one m p len = all_bytes 0xff m p len"

fun all_words :: "u8 \<Rightarrow> memory \<Rightarrow> nat \<Rightarrow> nat \<Rightarrow> bool option" where
  "all_words v m p 0 = Some True"
| "all_words v m p (Suc n) =
     (if p + 4 \<le> length m then (if rd_bytes m p 4 \<noteq> [v, v, v, v] then Some False else all_words v m (p + 4) n) else None)"

definition ismemzero4 :: "memory \<Rightarrow> nat \<Rightarrow> nat \<Rightarrow> bool option" where
  "ismemzero4 m p len = all_words 0 m p (len div 4)"

definition ismemf4 :: "memory \<Rightarrow> nat \<Rightarrow> nat \<Rightarrow> bool option" where
  "ismemf4 m p len = all_words 0xff m p (len div 4)"

section \<open>Byte order\<close>

fun swap_loop :: "memory \<Rightarrow> nat \<Rightarrow> nat \<Rightarrow> nat \<Rightarrow> nat \<Rightarrow> memory option" where
  "swap_loop m src dst len 0 = Some m"
| "swap_loop m src dst len (Suc k) =
     (let i = len - Suc k in
      if src + i < length m \<and> dst + (len - 1 - i) < length m
      then swap_loop (m[dst + (len - 1 - i) := m ! (src + i)]) src dst len k else None)"

definition swapX :: "memory \<Rightarrow> nat \<Rightarrow> nat \<Rightarrow> nat \<Rightarrow> memory option" where
  "swapX m src dst len = swap_loop m src dst len len"

definition swap24 :: "memory \<Rightarrow> nat \<Rightarrow> nat \<Rightarrow> memory option" where "swap24 m dst src = swapX m src dst 3"
definition swap32 :: "memory \<Rightarrow> nat \<Rightarrow> nat \<Rightarrow> memory option" where "swap32 m dst src = swapX m src dst 4"
definition swap48 :: "memory \<Rightarrow> nat \<Rightarrow> nat \<Rightarrow> memory option" where "swap48 m dst src = swapX m src dst 6"
definition swap56 :: "memory \<Rightarrow> nat \<Rightarrow> nat \<Rightarrow> memory option" where "swap56 m dst src = swapX m src dst 7"
definition swap64 :: "memory \<Rightarrow> nat \<Rightarrow> nat \<Rightarrow> memory option" where "swap64 m dst src = swapX m src dst 8"
definition swap128 :: "memory \<Rightarrow> nat \<Rightarrow> nat \<Rightarrow> memory option" where "swap128 m dst src = swapX m src dst 16"

definition net_store_16 :: "u8 list \<Rightarrow> nat \<Rightarrow> u16 \<Rightarrow> u8 list option" where
  "net_store_16 buffer pos v = (if pos + 1 < length buffer then Some (buffer[pos := hi8 v, pos + 1 := lo8 v]) else None)"

definition store_16 :: "u8 list \<Rightarrow> nat \<Rightarrow> u16 \<Rightarrow> u8 list option" where
  "store_16 buffer pos v = (if pos + 1 < length buffer then Some (buffer[pos := lo8 v, pos + 1 := hi8 v]) else None)"

definition flip_addr :: "u8 list \<Rightarrow> u8 list option" where
  "flip_addr src = (if length src < 6 then None else Some [src ! 5, src ! 4, src ! 3, src ! 2, src ! 1, src ! 0])"

fun addr_cmp_loop :: "memory \<Rightarrow> nat \<Rightarrow> nat \<Rightarrow> nat \<Rightarrow> bool option" where
  "addr_cmp_loop m p q 0 = Some True"
| "addr_cmp_loop m p q (Suc i) =
     (if p < length m \<and> q < length m then (if m ! p \<noteq> m ! q then Some False else addr_cmp_loop m (p + 1) (q + 1) i) else None)"

definition addrExtCmp :: "memory \<Rightarrow> nat \<Rightarrow> nat \<Rightarrow> bool option" where
  "addrExtCmp m p q = addr_cmp_loop m p q 8"

text \<open>
  \<open>generateRandomNum\<close> with \<open>rand\<close> as a stream of words: a new one every fourth byte, the lowest
  byte of what is left each time. The result is the bytes and the number of words used.
\<close>

fun random_loop :: "(nat \<Rightarrow> u32) \<Rightarrow> nat \<Rightarrow> u32 \<Rightarrow> nat \<Rightarrow> nat \<Rightarrow> u8 list \<times> nat" where
  "random_loop rand k r i 0 = ([], k)"
| "random_loop rand k r i (Suc n) =
     (let (r, k) = (if (i :: nat) mod 4 = 0 then (rand k, k + 1) else (r, k));
          (bs, k') = random_loop rand k (drop_bit 8 r) (i + 1) n in (ucast r # bs, k'))"

definition generateRandomNum :: "(nat \<Rightarrow> u32) \<Rightarrow> nat \<Rightarrow> u8 list \<times> nat" where
  "generateRandomNum rand len = random_loop rand 0 0 0 len"

section \<open>Copying is correct\<close>

lemma wr_bytes_nil [simp]: "wr_bytes m d [] = m"
  by (simp add: wr_bytes_def)

lemma rd_bytes_0 [simp]: "rd_bytes m s 0 = []"
  by (simp add: rd_bytes_def)

lemma copy_up_correct:
  assumes "s + n \<le> length m" "d + n \<le> length m" "d \<le> s \<or> s + n \<le> d"
  shows "copy_up m s d n = Some (wr_bytes m d (rd_bytes m s n))"
  using assms
proof (induction n arbitrary: m s d)
  case (Suc n)
  let ?m = "m[d := m ! s]"
  have "copy_up ?m (s + 1) (d + 1) n = Some (wr_bytes ?m (d + 1) (rd_bytes ?m (s + 1) n))"
    using Suc.prems by (intro Suc.IH) auto
  moreover have "wr_bytes ?m (d + 1) (rd_bytes ?m (s + 1) n) = wr_bytes m d (rd_bytes m s (Suc n))"
    by (rule nth_equalityI) (use Suc.prems in \<open>auto simp: nth_wr_bytes nth_rd_bytes nth_list_update Suc_diff_Suc\<close>)
  ultimately show ?case using Suc.prems by simp
qed simp

lemma copy_down_correct:
  assumes "s + n \<le> length m" "d + n \<le> length m" "s \<le> d"
  shows "copy_down m s d n = Some (wr_bytes m d (rd_bytes m s n))"
  using assms
proof (induction n arbitrary: m)
  case (Suc n)
  let ?m = "m[d + n := m ! (s + n)]"
  have "copy_down ?m s d n = Some (wr_bytes ?m d (rd_bytes ?m s n))"
    using Suc.prems by (intro Suc.IH) auto
  moreover have "wr_bytes ?m d (rd_bytes ?m s n) = wr_bytes m d (rd_bytes m s (Suc n))"
  proof (rule nth_equalityI)
    fix i assume "i < length (wr_bytes ?m d (rd_bytes ?m s n))"
    then have "i < length m" using Suc.prems by simp
    moreover have "d \<le> i \<Longrightarrow> i < d + Suc n \<Longrightarrow> i - d < Suc n" by linarith
    ultimately show "wr_bytes ?m d (rd_bytes ?m s n) ! i = wr_bytes m d (rd_bytes m s (Suc n)) ! i"
      using Suc.prems by (auto simp: nth_wr_bytes nth_rd_bytes nth_list_update less_Suc_eq)
  qed (use Suc.prems in simp)
  ultimately show ?case using Suc.prems by simp
qed simp

lemma memcpy_correct:
  "s + n \<le> length m \<Longrightarrow> d + n \<le> length m \<Longrightarrow> memcpy m d s n = Some (wr_bytes m d (rd_bytes m s n))"
  by (simp add: memcpy_def bcopy_def bbcopy_def copy_up_correct copy_down_correct)

lemma copy_up_snoc:
  "s + n < length m \<Longrightarrow> d + n < length m \<Longrightarrow>
   copy_up m s d (Suc n) = map_option (\<lambda>m'. m'[d + n := m' ! (s + n)]) (copy_up m s d n)"
proof (induction n arbitrary: m s d)
  case (Suc n)
  have "copy_up m s d (Suc (Suc n)) = copy_up (m[d := m ! s]) (s + 1) (d + 1) (Suc n)" using Suc.prems by simp
  also have "\<dots> = map_option (\<lambda>m'. m'[d + Suc n := m' ! (s + Suc n)]) (copy_up (m[d := m ! s]) (s + 1) (d + 1) n)"
    using Suc.IH [of "s + 1" "m[d := m ! s]" "d + 1"] Suc.prems by simp
  also have "copy_up (m[d := m ! s]) (s + 1) (d + 1) n = copy_up m s d (Suc n)" using Suc.prems by simp
  finally show ?case .
qed simp

text \<open>The upward copy into a later, overlapping place repeats the first \<open>d - s\<close> bytes.\<close>

lemma copy_up_periodic:
  assumes "s < d" "d + n \<le> length m"
  shows "\<exists>m'. copy_up m s d n = Some m' \<and> length m' = length m \<and>
    (\<forall>i<length m. m' ! i = (if d \<le> i \<and> i < d + n then m ! (s + (i - d) mod (d - s)) else m ! i))"
  using assms(2)
proof (induction n)
  case (Suc n)
  then obtain m' where m': "copy_up m s d n = Some m'" "length m' = length m"
    "\<forall>i<length m. m' ! i = (if d \<le> i \<and> i < d + n then m ! (s + (i - d) mod (d - s)) else m ! i)" by auto
  have b: "s + n < length m" "d + n < length m" using Suc.prems assms(1) by auto
  have last: "m' ! (s + n) = m ! (s + n mod (d - s))"
  proof (cases "s + n < d")
    case True
    then show ?thesis using m'(3) b(1) by simp
  next
    case False
    then have "n = (s + n - d) + (d - s)" using assms(1) by simp
    then have "n mod (d - s) = (s + n - d) mod (d - s)" by (metis mod_add_self2)
    then show ?thesis using m'(3) b(1) False assms(1) by simp
  qed
  have "copy_up m s d (Suc n) = Some (m'[d + n := m' ! (s + n)])" using copy_up_snoc [OF b] m'(1) by simp
  then show ?case using m'(2,3) last by (auto simp: nth_list_update less_Suc_eq)
qed auto

text \<open>
\<open>memcpy\<close> copies correctly for every pair of ranges, overlapping or not. \<open>memmove\<close>, which the
C library promises for overlapping ranges, agrees with it unless the destination starts inside the
source; there it repeats the bytes before the destination instead.
\<close>

theorem memmove_against_memcpy:
  assumes "src + n \<le> length m" "dest + n \<le> length m"
  shows "memcpy m dest src n = Some (wr_bytes m dest (rd_bytes m src n)) \<and>
    (dest \<le> src \<or> src + n \<le> dest \<longrightarrow> memmove m dest src n = memcpy m dest src n) \<and>
    (src < dest \<longrightarrow> (\<exists>m'. memmove m dest src n = Some m' \<and>
       (\<forall>i<n. m' ! (dest + i) = m ! (src + i mod (dest - src)))))"
proof -
  have "\<exists>m'. memmove m dest src n = Some m' \<and> (\<forall>i<n. m' ! (dest + i) = m ! (src + i mod (dest - src)))" if "src < dest"
    using copy_up_periodic [OF that assms(2)] assms(2) by (auto simp: memmove_def)
  then show ?thesis
    using memcpy_correct [OF assms] copy_up_correct [OF assms] by (auto simp: memmove_def)
qed

lemma memmove_against_memcpy_witness:
  "memcpy [1, 2, 3, 4] 1 0 3 = Some [1, 1, 2, 3] \<and> (\<exists>m'. memmove [1, 2, 3, 4] 1 0 3 = Some m' \<and> m' ! 3 = 1)"
proof -
  have "wr_bytes [1, 2, 3, 4 :: u8] 1 (rd_bytes [1, 2, 3, 4] 0 3) = [1, 1, 2, 3]"
    by (simp add: wr_bytes_def rd_bytes_def)
  then show ?thesis
    using memmove_against_memcpy [of 0 3 "[1, 2, 3, 4]" 1] by (auto dest: spec [of _ 2])
qed

lemma memset_correct: "p + n \<le> length m \<Longrightarrow> memset m p v n = Some (wr_bytes m p (replicate n (ucast v)))"
proof (induction n arbitrary: m p)
  case (Suc n)
  let ?m = "m[p := ucast v]"
  have "wr_bytes ?m (p + 1) (replicate n (ucast v)) = wr_bytes m p (replicate (Suc n) (ucast v))"
    by (rule nth_equalityI) (use Suc.prems in \<open>auto simp: nth_wr_bytes nth_list_update nth_Cons'\<close>)
  then show ?case using Suc by simp
qed simp

section \<open>Strings\<close>

text \<open>\<open>cstr m p xs\<close>: at \<open>p\<close> lie the non-zero bytes \<open>xs\<close> and a terminating zero.\<close>

fun cstr :: "memory \<Rightarrow> nat \<Rightarrow> u8 list \<Rightarrow> bool" where
  "cstr m p [] \<longleftrightarrow> p < length m \<and> m ! p = 0"
| "cstr m p (x # xs) \<longleftrightarrow> p < length m \<and> m ! p = x \<and> x \<noteq> 0 \<and> cstr m (p + 1) xs"

lemma cstr_bound: "cstr m p xs \<Longrightarrow> p + length xs < length m"
  by (induction xs arbitrary: p) force+

lemma cstr_nth: "cstr m p xs \<Longrightarrow> i < length xs \<Longrightarrow> m ! (p + i) = xs ! i \<and> xs ! i \<noteq> 0"
proof (induction xs arbitrary: p i)
  case (Cons x xs)
  then show ?case by (cases i) (auto, fastforce+)
qed simp

lemma cstr_end: "cstr m p xs \<Longrightarrow> m ! (p + length xs) = 0"
  by (induction xs arbitrary: p) force+

lemma cstr_nonzero: "cstr m p xs \<Longrightarrow> 0 \<notin> set xs"
  by (induction xs arbitrary: p) auto

lemma strlen_loop_cstr: "cstr m p xs \<Longrightarrow> strlen_loop m p n = Some (n + length xs)"
  by (induction xs arbitrary: p n) (auto simp: strlen_loop.simps [of m "_ :: nat"])

lemma strlen_cstr: "cstr m p xs \<Longrightarrow> strlen m (Some p) = Some (length xs)"
  by (simp add: strlen_def strlen_loop_cstr)

lemma cstr_update: "cstr m p xs \<Longrightarrow> j < p \<or> p + length xs < j \<Longrightarrow> cstr (m[j := v]) p xs"
  by (induction xs arbitrary: p) (auto simp: nth_list_update)

lemma strcpy_loop_cstr:
  assumes "cstr m s xs" "d + length xs < length m" "d < s \<or> s + length xs < d"
  shows "strcpy_loop m d s = Some (wr_bytes m d (xs @ [0]))"
  using assms
proof (induction xs arbitrary: m s d)
  case Nil
  have "wr_bytes m d [0] = m[d := 0]" using Nil.prems(2) by (simp add: wr_bytes_def upd_conv_take_nth_drop)
  then show ?case using Nil.prems by (subst strcpy_loop.simps) simp
next
  case (Cons x xs)
  let ?m = "m[d := x]"
  have c: "cstr ?m (s + 1) xs" using Cons.prems by (intro cstr_update) auto
  have "wr_bytes ?m (d + 1) (xs @ [0]) = wr_bytes m d ((x # xs) @ [0])"
    by (rule nth_equalityI) (use Cons.prems in \<open>auto simp: nth_wr_bytes nth_list_update nth_Cons'\<close>)
  then show ?case using Cons.IH [OF c, of "d + 1"] Cons.prems
    by (subst strcpy_loop.simps) (auto simp: Let_def)
qed

lemma uint_pos: "(x :: u8) \<noteq> 0 \<Longrightarrow> 0 < uint x"
  by (metis uint_0_iff uint_ge_0 order_le_less)

lemma strcmp_cstr:
  "cstr m p xs \<Longrightarrow> cstr m q ys \<Longrightarrow> strcmp m p q = Some (if xs = ys then 0 else if ord_class.lexordp xs ys then -1 else 1)"
proof (induction xs arbitrary: p q ys)
  case Nil
  then show ?case by (cases ys) (auto simp: strcmp.simps [of m p q] uint_pos)
next
  case (Cons x xs)
  show ?case
  proof (cases ys)
    case Nil
    then show ?thesis using Cons.prems by (auto simp: strcmp.simps [of m p q])
  next
    case (Cons y zs)
    have "uint x < uint y \<longleftrightarrow> x < y" by (simp add: word_less_def)
    then show ?thesis using Cons Cons.prems Cons.IH [of "p + 1" "q + 1" zs]
      by (auto simp: strcmp.simps [of m p q])
  qed
qed

lemma match_at_cstr:
  assumes "cstr m p xs" "cstr m q (y # ys)" "n \<le> length ys" "n \<le> length xs" "take n xs = take n (y # ys)"
  shows "match_at m p q n = Some (take (length (y # ys)) xs = y # ys)"
  using assms(3-5)
proof (induction "length ys - n" arbitrary: n rule: less_induct)
  case less
  let ?w = "y # ys"
  have qn: "m ! (q + n) = ?w ! n" "?w ! n \<noteq> 0" "q + n < length m"
    using cstr_nth [OF assms(2), of n] cstr_bound [OF assms(2)] less.prems(1) by auto
  have q1: "q + n + 1 < length m" "m ! (q + n + 1) = 0 \<longleftrightarrow> n = length ys"
    using cstr_nth [OF assms(2), of "n + 1"] cstr_end [OF assms(2)] cstr_bound [OF assms(2)] less.prems(1)
    by (cases "n = length ys"; auto)+
  have pn: "p + n < length m" using cstr_bound [OF assms(1)] less.prems(2) by simp
  show ?case
  proof (cases "n < length xs \<and> xs ! n = ?w ! n")
    case True
    then have eq: "m ! (p + n) = m ! (q + n)" using cstr_nth [OF assms(1), of n] qn(1) by simp
    have t: "take (n + 1) xs = take (n + 1) ?w"
      using True less.prems take_Suc_conv_app_nth [of n xs] take_Suc_conv_app_nth [of n ?w] by simp
    show ?thesis
    proof (cases "n = length ys")
      case True
      then have "match_at m p q n = Some True" using pn qn q1 eq by (subst match_at.simps) simp
      then show ?thesis using t True by simp
    next
      case False
      then have "match_at m p q n = match_at m p q (n + 1)" using pn qn q1 eq by (subst match_at.simps) simp
      then show ?thesis using less.hyps [of "n + 1"] t True less.prems False by simp
    qed
  next
    case False
    then have "m ! (p + n) \<noteq> m ! (q + n)"
      using cstr_nth [OF assms(1), of n] cstr_end [OF assms(1)] qn less.prems(2) by (cases "n < length xs") auto
    then have "match_at m p q n = Some False" using pn qn by (subst match_at.simps) simp
    moreover have "take (length ?w) xs \<noteq> ?w"
    proof
      assume a: "take (length ?w) xs = ?w"
      then have "length ?w \<le> length xs" by (metis length_take min.cobounded1 min_def nat_le_linear)
      then have "n < length xs" "xs ! n = ?w ! n" using less.prems(1) a by (auto, metis a le_imp_less_Suc length_Cons nth_take)
      then show False using False by simp
    qed
    ultimately show ?thesis by simp
  qed
qed

text \<open>The first place where \<open>ys\<close> occurs in \<open>xs\<close>.\<close>

fun first_occurrence :: "u8 list \<Rightarrow> u8 list \<Rightarrow> nat option" where
  "first_occurrence ys xs = (if take (length ys) xs = ys then Some 0
     else case xs of [] \<Rightarrow> None | x # xs' \<Rightarrow> map_option Suc (first_occurrence ys xs'))"

declare first_occurrence.simps [simp del]

lemma first_occurrence_spec:
  "first_occurrence ys xs = Some i \<longleftrightarrow> i \<le> length xs \<and> take (length ys) (drop i xs) = ys \<and>
     (\<forall>j<i. take (length ys) (drop j xs) \<noteq> ys)"
proof (induction xs arbitrary: i)
  case Nil
  then show ?case by (subst first_occurrence.simps) auto
next
  case (Cons x xs)
  show ?case
    by (subst first_occurrence.simps, cases i) (auto simp: Cons.IH less_Suc_eq_0_disj)
qed

lemma strstr_loop_cstr:
  assumes "cstr m q (y # ys)"
  shows "cstr m p xs \<Longrightarrow> strstr_loop m p q = Some (map_option ((+) p) (first_occurrence (y # ys) xs))"
proof (induction xs arbitrary: p)
  case Nil
  then show ?case by (subst strstr_loop.simps, subst first_occurrence.simps) simp
next
  case (Cons x xs)
  have m: "match_at m p q 0 = Some (take (length (y # ys)) (x # xs) = y # ys)"
    by (rule match_at_cstr [OF Cons.prems assms]) simp_all
  have IH: "strstr_loop m (p + 1) q = Some (map_option ((+) (p + 1)) (first_occurrence (y # ys) xs))"
    by (rule Cons.IH) (use Cons.prems in simp)
  have c: "map_option ((+) p) (map_option Suc z) = map_option ((+) (p + 1)) z" for z :: "nat option"
    by (cases z) simp_all
  show ?case using Cons.prems m IH
    by (subst strstr_loop.simps, subst first_occurrence.simps) (auto simp: c simp del: add_Suc_right)
qed

text \<open>
On terminated strings the search and comparison routines compute what their names promise,
without reading past the terminators: \<open>strstr\<close> finds the first occurrence of the second string or
returns null, \<open>strcmp\<close> gives the lexicographic order of unsigned bytes, \<open>strlen\<close> the length.
\<close>

theorem string_search:
  assumes "cstr m p xs" "cstr m q ys"
  shows "strstr m p q = Some (map_option ((+) p) (first_occurrence ys xs)) \<and>
    strcmp m p q = Some (if xs = ys then 0 else if ord_class.lexordp xs ys then -1 else 1) \<and>
    strlen m (Some p) = Some (length xs)"
proof -
  have "strstr m p q = Some (map_option ((+) p) (first_occurrence ys xs))"
  proof (cases ys)
    case Nil
    then show ?thesis using assms(2) by (simp add: strstr_def first_occurrence.simps)
  next
    case (Cons y zs)
    then show ?thesis using assms strstr_loop_cstr [of m q y zs p xs] by (simp add: strstr_def)
  qed
  then show ?thesis using strcmp_cstr [OF assms] strlen_cstr [OF assms(1)] by blast
qed

lemma string_search_witness:
  "strstr [97, 98, 98, 99, 0, 98, 99, 0] 0 5 = Some (Some 2)"
proof -
  have c: "cstr [97, 98, 98, 99, 0, 98, 99, 0] 0 [97, 98, 98, 99]" "cstr [97, 98, 98, 99, 0, 98, 99, 0] 5 [98, 99]" by simp_all
  have "first_occurrence [98, 99] [97, 98, 98, 99] = Some 2" by (simp add: first_occurrence.simps)
  then show ?thesis using string_search [OF c] by simp
qed

text \<open>\<open>strncpy\<close> copies \<open>n\<close> bytes whatever they are: it reads past the end of a shorter string.\<close>

lemma strncpy_ignores_terminator:
  "d + n \<le> length m \<Longrightarrow> d + n \<le> p \<Longrightarrow> p + n \<le> length m \<Longrightarrow>
   strncpy m (Some d) (Some p) n = Some (Some d, wr_bytes m d (rd_bytes m p n))"
  by (simp add: strncpy_def copy_up_correct)

section \<open>Buffer tests\<close>

lemma memcmp_eq: "p + n \<le> length m \<Longrightarrow> q + n \<le> length m \<Longrightarrow>
  \<exists>r. memcmp m p q n = Some r \<and> (r = 0 \<longleftrightarrow> rd_bytes m p n = rd_bytes m q n)"
proof (induction n arbitrary: p q)
  case (Suc n)
  have "rd_bytes m a (Suc n) = m ! a # rd_bytes m (a + 1) n" if "a < length m" for a
    using that by (simp add: rd_bytes_def Cons_nth_drop_Suc [symmetric])
  then show ?case using Suc.IH [of "p + 1" "q + 1"] Suc.prems by (auto dest: word_uint_eq_iff [THEN iffD2])
qed simp

lemma all_less_4: "(\<forall>i<4. P i) \<longleftrightarrow> P 0 \<and> P 1 \<and> P 2 \<and> P (3 :: nat)"
  by (auto simp: numeral_eq_Suc less_Suc_eq)

lemma all_bytes_eq: "p + n \<le> length m \<Longrightarrow> all_bytes v m p n = Some (\<forall>i<n. m ! (p + i) = v)"
  by (induction n arbitrary: p) (auto simp: All_less_Suc2)

lemma all_words_eq: "p + 4 * n \<le> length m \<Longrightarrow> all_words v m p n = Some (\<forall>i<4 * n. m ! (p + i) = v)"
proof (induction n arbitrary: p)
  case (Suc n)
  have r: "rd_bytes m p 4 = [v, v, v, v] \<longleftrightarrow> (\<forall>i<4. m ! (p + i) = v)"
  proof -
    have "rd_bytes m p 4 = map (\<lambda>i. m ! (p + i)) [0..<4]"
      by (rule nth_equalityI) (use Suc.prems in \<open>auto simp: nth_rd_bytes\<close>)
    also have "\<dots> = [m ! p, m ! (p + 1), m ! (p + 2), m ! (p + 3)]" by (simp add: upt_rec numeral_2_eq_2 numeral_3_eq_3)
    finally show ?thesis by (simp add: all_less_4)
  qed
  have split: "(\<forall>i<4 * Suc n. m ! (p + i) = v) \<longleftrightarrow> (\<forall>i<4. m ! (p + i) = v) \<and> (\<forall>i<4 * n. m ! (p + 4 + i) = v)"
  proof -
    have "m ! (p + i) = v" if "\<forall>i<4. m ! (p + i) = v" "\<forall>i<4 * n. m ! (p + 4 + i) = v" "i < 4 * Suc n" for i
    proof (cases "i < 4")
      case False
      then have e: "p + 4 + (i - 4) = p + i" by simp
      have "i - 4 < 4 * n" using that(3) False by simp
      then have "m ! (p + 4 + (i - 4)) = v" using that(2) by blast
      then show ?thesis unfolding e .
    qed (use that(1) in simp)
    then show ?thesis by (auto simp: add.assoc)
  qed
  show ?case using Suc.IH [of "p + 4"] Suc.prems r split by auto
qed simp

text \<open>The word-wise tests ignore the last \<open>len mod 4\<close> bytes.\<close>

lemma ismemzero4_ignores_tail:
  "p + len \<le> length m \<Longrightarrow> ismemzero4 m p len = Some (\<forall>i<4 * (len div 4). m ! (p + i) = 0)"
  by (simp add: ismemzero4_def all_words_eq)

section \<open>Byte order is an involution\<close>

lemma swap_loop_correct:
  assumes "k \<le> len" "src + len \<le> length m" "dst + len \<le> length m" "dst + len \<le> src \<or> src + len \<le> dst"
  shows "swap_loop m src dst len k = Some (wr_bytes m dst (rev (rd_bytes m (src + (len - k)) k)))"
  using assms
proof (induction k arbitrary: m)
  case (Suc k)
  let ?i = "len - Suc k"
  let ?m = "m[dst + (len - 1 - ?i) := m ! (src + ?i)]"
  have i: "len - 1 - ?i = k" "len - k = Suc ?i" "?i < len" using Suc.prems(1) by auto
  have "swap_loop ?m src dst len k = Some (wr_bytes ?m dst (rev (rd_bytes ?m (src + (len - k)) k)))"
    using Suc.prems by (intro Suc.IH) auto
  moreover have "rd_bytes ?m (src + (len - k)) k = rd_bytes m (src + (len - k)) k"
    by (rule nth_equalityI) (use Suc.prems i in \<open>auto simp: nth_rd_bytes nth_list_update\<close>)
  moreover have "rd_bytes m (src + ?i) (Suc k) = m ! (src + ?i) # rd_bytes m (src + (len - k)) k"
    using i Suc.prems by (simp add: rd_bytes_def Cons_nth_drop_Suc [symmetric])
  moreover have "wr_bytes ?m dst ys = wr_bytes m dst (ys @ [m ! (src + ?i)])" if "length ys = k" for ys
    using that Suc.prems i by (auto simp: wr_bytes_def drop_update_cancel take_update_cancel upd_conv_take_nth_drop min_def)
  ultimately show ?case using Suc.prems i by (simp add: Let_def)
qed simp

text \<open>
Byte-order reversal is correct and undoes itself: \<open>swapX\<close> writes the reversed source, so that
reversing the result once more restores the bytes; a value stored by \<open>net_store_16\<close> or
\<open>store_16\<close> is read back by taking the two bytes in the corresponding order.
\<close>

theorem byte_order_roundtrip:
  assumes "src + n \<le> length m" "dst + n \<le> length m" "dst + n \<le> src \<or> src + n \<le> dst"
    and "net_store_16 buf pos v = Some b1" "store_16 buf pos v = Some b2"
  shows "\<exists>m'. swapX m src dst n = Some m' \<and> rd_bytes m' dst n = rev (rd_bytes m src n) \<and>
      swapX m' dst src n = Some (wr_bytes m dst (rev (rd_bytes m src n))) \<and>
      mk16 (b1 ! pos) (b1 ! (pos + 1)) = v \<and> mk16 (b2 ! (pos + 1)) (b2 ! pos) = v"
proof -
  let ?m = "wr_bytes m dst (rev (rd_bytes m src n))"
  have s: "swapX m src dst n = Some ?m" using swap_loop_correct [of n n src m dst] assms(1-3) by (simp add: swapX_def)
  have l: "length ?m = length m" using assms(1,2) by simp
  have r: "rd_bytes ?m dst n = rev (rd_bytes m src n)" using assms(1,2) by (simp add: rd_wr_bytes_same)
  have r2: "rd_bytes ?m src n = rd_bytes m src n"
    by (rule rd_wr_bytes_other) (use assms(1-3) in auto)
  have "wr_bytes ?m src (rd_bytes m src n) = ?m"
    by (rule nth_equalityI) (use assms(1-3) in \<open>auto simp: nth_wr_bytes nth_rd_bytes\<close>)
  then have "swapX ?m dst src n = Some ?m"
    using swap_loop_correct [of n n dst ?m src] assms(1-3) l r by (auto simp: swapX_def)
  moreover have "mk16 (b1 ! pos) (b1 ! (pos + 1)) = v" "mk16 (b2 ! (pos + 1)) (b2 ! pos) = v"
    using assms(4,5) by (auto simp: net_store_16_def store_16_def split: if_splits)
  ultimately show ?thesis using s r by blast
qed

lemma byte_order_roundtrip_witness:
  "\<exists>m'. swapX [1, 2, 3, 0, 0, 0] 0 3 3 = Some m' \<and> rd_bytes m' 3 3 = [3, 2, 1]"
proof -
  have "rev (rd_bytes [1, 2, 3, 0, 0, 0 :: u8] 0 3) = [3, 2, 1]" by (simp add: rd_bytes_def)
  then show ?thesis
    using byte_order_roundtrip [of 0 3 "[1, 2, 3, 0, 0, 0]" 3 "[0, 0]" 0 "0x1234" "[0x12, 0x34]" "[0x34, 0x12]"]
    by (auto simp: net_store_16_def store_16_def hi8_def lo8_def)
qed

lemma flip_addr_rev: "length src = 6 \<Longrightarrow> flip_addr src = Some (rev src)"
  by (auto simp: flip_addr_def numeral_eq_Suc length_Suc_conv)

end
