(* ===== verification/PtrList.thy ===== *)
theory PtrList
  imports CString
begin

text \<open>
  The linked lists of \<open>proj/common/list.c\<close>, the compacting allocator \<open>mmem.c\<close> built on them and the
  block pool \<open>mempool.c\<close>. Pointers are numbers, the null pointer is \<open>None\<close>; the \<open>next\<close> fields of all
  objects are one function. Loops that follow \<open>next\<close> need not end on a cyclic structure: they are
  partial functions, and \<open>None\<close> is a loop that does not return.
\<close>

section \<open>Linked lists\<close>

type_synonym ptr = "nat option"
type_synonym nexts = "nat \<Rightarrow> nat option"

definition list_init :: ptr where
  "list_init = None"

definition list_head :: "ptr \<Rightarrow> ptr" where
  "list_head l = l"

definition list_copy :: "ptr \<Rightarrow> ptr \<Rightarrow> ptr" where
  "list_copy dest src = src"

partial_function (option) tail_loop :: "nexts \<Rightarrow> nat \<Rightarrow> nat option" where
  "tail_loop nx l = (case nx l of None \<Rightarrow> Some l | Some q \<Rightarrow> tail_loop nx q)"

definition list_tail :: "nexts \<Rightarrow> ptr \<Rightarrow> ptr option" where
  "list_tail nx l = (case l of None \<Rightarrow> Some None | Some p \<Rightarrow> map_option Some (tail_loop nx p))"

definition list_add :: "ptr \<Rightarrow> nexts \<Rightarrow> nat \<Rightarrow> (ptr \<times> nexts) option" where
  "list_add l nx item =
     (let nx = nx(item := None) in
      case list_tail nx l of None \<Rightarrow> None
      | Some None \<Rightarrow> Some (Some item, nx)
      | Some (Some t) \<Rightarrow> Some (l, nx(t := Some item)))"

definition list_push :: "ptr \<Rightarrow> nexts \<Rightarrow> nat \<Rightarrow> ptr \<times> nexts" where
  "list_push l nx item = (Some item, nx(item := l))"

text \<open>The loop stops at the element whose successor is the last one.\<close>

partial_function (option) chop_loop :: "nexts \<Rightarrow> nat \<Rightarrow> nat option" where
  "chop_loop nx l = (case nx l of None \<Rightarrow> None
     | Some q \<Rightarrow> (case nx q of None \<Rightarrow> Some l | Some _ \<Rightarrow> chop_loop nx q))"

definition list_chop :: "ptr \<Rightarrow> nexts \<Rightarrow> (ptr \<times> ptr \<times> nexts) option" where
  "list_chop l nx =
     (case l of None \<Rightarrow> Some (None, l, nx)
      | Some p \<Rightarrow> (case nx p of None \<Rightarrow> Some (Some p, None, nx)
         | Some _ \<Rightarrow> (case chop_loop nx p of None \<Rightarrow> None
             | Some q \<Rightarrow> Some (nx q, l, nx(q := None)))))"

definition list_pop :: "ptr \<Rightarrow> nexts \<Rightarrow> ptr" where
  "list_pop l nx = (case l of None \<Rightarrow> None | Some p \<Rightarrow> nx p)"

partial_function (option) remove_loop :: "ptr \<Rightarrow> nexts \<Rightarrow> nat \<Rightarrow> ptr \<Rightarrow> ptr \<Rightarrow> (ptr \<times> nexts) option" where
  "remove_loop head nx item r l =
     (case l of None \<Rightarrow> Some (head, nx)
      | Some p \<Rightarrow>
          if p = item then
            (case r of None \<Rightarrow> Some (nx p, nx(p := None))
             | Some r' \<Rightarrow> Some (head, nx(r' := nx p, p := None)))
          else remove_loop head nx item l (nx p))"

definition list_remove :: "ptr \<Rightarrow> nexts \<Rightarrow> nat \<Rightarrow> (ptr \<times> nexts) option" where
  "list_remove l nx item = (case l of None \<Rightarrow> Some (l, nx) | Some _ \<Rightarrow> remove_loop l nx item None l)"

partial_function (option) length_loop :: "nexts \<Rightarrow> ptr \<Rightarrow> nat \<Rightarrow> nat option" where
  "length_loop nx l n = (case l of None \<Rightarrow> Some n | Some p \<Rightarrow> length_loop nx (nx p) (n + 1))"

definition list_length :: "ptr \<Rightarrow> nexts \<Rightarrow> nat option" where
  "list_length l nx = length_loop nx l 0"

definition list_insert :: "ptr \<Rightarrow> nexts \<Rightarrow> ptr \<Rightarrow> nat \<Rightarrow> ptr \<times> nexts" where
  "list_insert l nx previtem newitem =
     (case previtem of None \<Rightarrow> list_push l nx newitem
      | Some p \<Rightarrow> (l, nx(newitem := nx p, p := Some newitem)))"

section \<open>Lists represented\<close>

fun path :: "nexts \<Rightarrow> ptr \<Rightarrow> nat list \<Rightarrow> bool" where
  "path nx l [] \<longleftrightarrow> l = None"
| "path nx l (x # xs) \<longleftrightarrow> l = Some x \<and> path nx (nx x) xs"

lemma path_unique: "path nx l xs \<Longrightarrow> path nx l ys \<Longrightarrow> xs = ys"
proof (induction xs arbitrary: l ys)
  case Nil
  then show ?case by (cases ys) auto
next
  case (Cons x xs)
  then show ?case by (cases ys) auto
qed

lemma path_distinct: "path nx l xs \<Longrightarrow> distinct xs"
proof (induction xs arbitrary: l)
  case (Cons x xs)
  have "x \<notin> set xs"
  proof
    assume "x \<in> set xs"
    then obtain as bs where xs: "xs = as @ x # bs" by (auto dest: split_list)
    have app: "path nx l (us @ vs) \<Longrightarrow> \<exists>l'. path nx l' vs" for l us vs by (induction us arbitrary: l) auto
    have "path nx (nx x) xs" using Cons.prems by simp
    moreover from this have "path nx (nx x) bs" using app [of "nx x" as "x # bs"] by (auto simp: xs)
    ultimately have "xs = bs" using path_unique by blast
    then show False using xs by simp
  qed
  then show ?case using Cons by auto
qed simp

lemma path_cong: "\<forall>x\<in>set xs. nx' x = nx x \<Longrightarrow> path nx' l xs = path nx l xs"
  by (induction xs arbitrary: l) auto

lemma path_upd [simp]: "a \<notin> set xs \<Longrightarrow> path (nx(a := v)) l xs = path nx l xs"
  by (rule path_cong) auto

lemma path_snoc:
  "path nx l (xs @ [y]) \<Longrightarrow> nx y = None"
  by (induction xs arbitrary: l) auto

text \<open>Splitting a path at an element, and changing the link of an element.\<close>

lemma path_relink:
  "path nx l (xs @ y # ys) \<Longrightarrow> distinct (xs @ y # ys) \<Longrightarrow> path (nx(y := v)) v zs \<Longrightarrow> path (nx(y := v)) l (xs @ y # zs)"
  by (induction xs arbitrary: l) auto

lemma path_suffix: "path nx l (xs @ y # ys) \<Longrightarrow> path nx (nx y) ys"
  by (induction xs arbitrary: l) auto

lemma path_head: "path nx l (xs @ y # ys) \<Longrightarrow> l = Some (if xs = [] then y else hd xs)"
  by (cases xs) auto

lemma tail_loop_path: "path nx (Some p) (p # xs) \<Longrightarrow> tail_loop nx p = Some (last (p # xs))"
proof (induction xs arbitrary: p)
  case Nil
  then show ?case by (subst tail_loop.simps) simp
next
  case (Cons x xs)
  then show ?case by (subst tail_loop.simps) simp
qed

lemma list_tail_path: "path nx l xs \<Longrightarrow> list_tail nx l = Some (if xs = [] then None else Some (last xs))"
  using tail_loop_path [of nx "hd xs" "tl xs"] by (cases xs) (auto simp: list_tail_def)

lemma list_add_path:
  assumes "path nx l xs" "item \<notin> set xs"
  shows "\<exists>l' nx'. list_add l nx item = Some (l', nx') \<and> path nx' l' (xs @ [item]) \<and>
    (\<forall>a. a \<noteq> item \<and> a \<notin> set xs \<longrightarrow> nx' a = nx a)"
proof (cases xs rule: rev_cases)
  case Nil
  then show ?thesis using assms by (auto simp: list_add_def list_tail_def)
next
  case (snoc ys y)
  let ?nx = "nx(item := None)"
  have p: "path ?nx l (ys @ [y])" using assms snoc by simp
  have t: "list_tail ?nx l = Some (Some y)" using list_tail_path [OF p] by simp
  have "path (?nx(y := Some item)) l (ys @ y # [item])"
    by (rule path_relink [OF p]) (use path_distinct [OF p] assms(2) snoc in auto)
  then show ?thesis using t snoc by (auto simp: list_add_def Let_def)
qed

lemma list_push_path:
  "path nx l xs \<Longrightarrow> item \<notin> set xs \<Longrightarrow> path (snd (list_push l nx item)) (fst (list_push l nx item)) (item # xs)"
  by (simp add: list_push_def)

lemma list_pop_path: "path nx l xs \<Longrightarrow> path nx (list_pop l nx) (tl xs)"
  by (cases xs) (auto simp: list_pop_def)

lemma length_loop_path: "path nx l xs \<Longrightarrow> length_loop nx l n = Some (n + length xs)"
  by (induction xs arbitrary: l n) (auto simp: length_loop.simps [of nx "_ :: ptr"])

lemma list_length_path: "path nx l xs \<Longrightarrow> list_length l nx = Some (length xs)"
  by (simp add: list_length_def length_loop_path)

lemma chop_loop_path: "path nx (Some p) (p # xs @ [y, z]) \<Longrightarrow> chop_loop nx p = Some y"
proof (induction xs arbitrary: p)
  case Nil
  then show ?case by (subst chop_loop.simps) (simp, subst chop_loop.simps, simp)
next
  case (Cons x xs)
  then obtain w where "nx x = Some w" by (cases xs) auto
  then show ?case using Cons by (subst chop_loop.simps) simp
qed

lemma list_chop_path:
  assumes "path nx l (xs @ [z])"
  shows "\<exists>l' nx'. list_chop l nx = Some (Some z, l', nx') \<and> path nx' l' xs"
proof (cases xs rule: rev_cases)
  case Nil
  then show ?thesis using assms by (auto simp: list_chop_def)
next
  case (snoc ys y)
  obtain p where p: "l = Some p" "path nx (Some p) (p # tl (xs @ [z]))" "p = hd (xs @ [z])"
    using assms snoc by (cases "xs @ [z]") auto
  have chop: "(case nx p of None \<Rightarrow> False | Some _ \<Rightarrow> chop_loop nx p = Some y)"
  proof (cases ys)
    case Nil
    then show ?thesis using assms snoc p by (auto simp: chop_loop.simps [of nx y])
  next
    case (Cons w ws)
    then show ?thesis using assms snoc p chop_loop_path [of nx p ws y z] by (cases ws) auto
  qed
  have "nx y = Some z" "path nx l (ys @ y # [z])" using assms snoc path_suffix [of nx l ys y "[z]"] by auto
  moreover from this have "path (nx(y := None)) l (ys @ y # [])"
    by (intro path_relink) (use path_distinct [OF assms] snoc in auto)
  ultimately show ?thesis using chop p(1) snoc by (auto simp: list_chop_def split: option.splits)
qed

lemma remove_loop_path:
  assumes "path nx head (xs @ ys)" "distinct (xs @ ys)" "r = (if xs = [] then None else Some (last xs))" "path nx l ys"
  shows "\<exists>l' nx'. remove_loop head nx item r l = Some (l', nx') \<and>
    (item \<notin> set xs \<longrightarrow> path nx' l' (xs @ remove1 item ys)) \<and> (\<forall>a. a \<notin> set (xs @ ys) \<longrightarrow> nx' a = nx a) \<and>
    (item \<in> set ys \<longrightarrow> nx' item = None)"
  using assms
proof (induction ys arbitrary: xs r l)
  case Nil
  then show ?case by (subst remove_loop.simps) simp
next
  case (Cons y ys)
  have l: "l = Some y" "path nx (nx y) ys" using Cons.prems(4) by simp_all
  show ?case
  proof (cases "y = item")
    case False
    have "\<exists>l' nx'. remove_loop head nx item (Some y) (nx y) = Some (l', nx') \<and>
      (item \<notin> set (xs @ [y]) \<longrightarrow> path nx' l' ((xs @ [y]) @ remove1 item ys)) \<and>
      (\<forall>a. a \<notin> set ((xs @ [y]) @ ys) \<longrightarrow> nx' a = nx a) \<and> (item \<in> set ys \<longrightarrow> nx' item = None)"
      by (rule Cons.IH) (use Cons.prems l in auto)
    then show ?thesis using False l by (subst remove_loop.simps) auto
  next
    case True
    show ?thesis
    proof (cases xs rule: rev_cases)
      case Nil
      then show ?thesis using True l Cons.prems by (subst remove_loop.simps) auto
    next
      case (snoc us u)
      let ?nx = "nx(u := nx y)"
      have d: "u \<notin> set ys" "y \<notin> set us" "u \<noteq> y" "y \<notin> set ys" using Cons.prems(2) snoc by auto
      have "path ?nx head (us @ u # ys)"
        by (rule path_relink [where ys = "y # ys"]) (use Cons.prems(1,2) snoc l d in auto)
      then have "path (?nx(y := None)) head (us @ u # ys)" using d by (subst path_upd) auto
      then show ?thesis using True l snoc Cons.prems(3) d by (subst remove_loop.simps) auto
    qed
  qed
qed

lemma list_remove_path:
  assumes "path nx l xs"
  shows "\<exists>l' nx'. list_remove l nx item = Some (l', nx') \<and> path nx' l' (remove1 item xs) \<and>
    (\<forall>a. a \<notin> set xs \<longrightarrow> nx' a = nx a) \<and> (item \<in> set xs \<longrightarrow> nx' item = None)"
proof (cases xs)
  case Nil
  then show ?thesis using assms by (simp add: list_remove_def)
next
  case (Cons x ys)
  then show ?thesis
    using remove_loop_path [of nx l "[]" xs None l item] path_distinct [OF assms] assms
    by (auto simp: list_remove_def)
qed

lemma list_insert_path:
  assumes "path nx l (xs @ p # ys)" "new \<notin> set (xs @ p # ys)"
  shows "\<exists>nx'. list_insert l nx (Some p) new = (l, nx') \<and> path nx' l (xs @ p # new # ys)"
proof -
  have d: "distinct (xs @ p # ys)" by (rule path_distinct [OF assms(1)])
  let ?nx = "nx(new := nx p)"
  have "path ?nx l (xs @ p # ys)" using assms by simp
  moreover have "path (?nx(p := Some new)) (Some new) (new # ys)"
    using path_suffix [OF assms(1)] assms(2) d by auto
  ultimately have "path (?nx(p := Some new)) l (xs @ p # new # ys)" using d by (intro path_relink)
  then show ?thesis by (simp add: list_insert_def)
qed

text \<open>
Every list operation returns on a well-formed list and does to the sequence of its elements
what it is named for: append, push, remove the last, remove the first, remove an element (whose
link is cleared), and the length; elements outside the list keep their links on removal.
\<close>

theorem list_operations_refine_sequences:
  assumes "path nx l xs" "item \<notin> set xs"
  shows "(\<exists>l' nx'. list_add l nx item = Some (l', nx') \<and> path nx' l' (xs @ [item])) \<and>
    path (snd (list_push l nx item)) (fst (list_push l nx item)) (item # xs) \<and>
    (xs \<noteq> [] \<longrightarrow> (\<exists>l' nx'. list_chop l nx = Some (Some (last xs), l', nx') \<and> path nx' l' (butlast xs))) \<and>
    path nx (list_pop l nx) (tl xs) \<and>
    (\<exists>l' nx'. list_remove l nx x = Some (l', nx') \<and> path nx' l' (remove1 x xs) \<and>
       (\<forall>a. a \<notin> set xs \<longrightarrow> nx' a = nx a) \<and> (x \<in> set xs \<longrightarrow> nx' x = None)) \<and>
    list_length l nx = Some (length xs)"
proof -
  have "\<exists>l' nx'. list_chop l nx = Some (Some (last xs), l', nx') \<and> path nx' l' (butlast xs)" if "xs \<noteq> []"
    using list_chop_path [of nx l "butlast xs" "last xs"] assms(1) that by simp
  then show ?thesis
    using list_add_path [OF assms] list_push_path [OF assms] list_pop_path [OF assms(1)]
      list_remove_path [OF assms(1), of x] list_length_path [OF assms(1)] by blast
qed

definition demo_nexts :: nexts where
  "demo_nexts = (\<lambda>_. None)(1 := Some 2, 2 := Some 5)"

lemma demo_path: "path demo_nexts (Some 1) [1, 2, 5]"
  by (simp add: demo_nexts_def)

lemma list_operations_refine_sequences_witness:
  "\<exists>l' nx'. list_remove (Some 1) demo_nexts 2 = Some (l', nx') \<and> path nx' l' (remove1 2 [1, 2, 5])"
proof -
  have "(9 :: nat) \<notin> set [1, 2, 5]" by simp
  from list_operations_refine_sequences [OF demo_path this, of 2] show ?thesis by blast
qed

end
