(* ===== verification/Mem.thy ===== *)
theory Mem
  imports PtrList
begin

text \<open>
  The two allocators of \<open>proj/common\<close>: \<open>mmem.c\<close>, which compacts its arena of 2048 bytes when a block
  is freed, and \<open>mempool.c\<close>, a pool of equal blocks chained through their first word.
\<close>

section \<open>Managed memory\<close>

text \<open>The fields of \<open>struct mmem\<close> by the address of the structure; \<open>bptr\<close> is an offset in the arena.\<close>

record mmem_st =
  mmemlist :: ptr
  nxt :: nexts
  bsize :: "nat \<Rightarrow> nat"
  bptr :: "nat \<Rightarrow> nat"
  avail_memory :: nat
  arena :: "u8 list"

definition MMEM_SIZE :: nat where "MMEM_SIZE = 2048"

definition mmem_init :: "mmem_st \<Rightarrow> mmem_st" where
  "mmem_init s = s\<lparr>mmemlist := list_init, avail_memory := MMEM_SIZE\<rparr>"

definition mmem_alloc :: "nat \<Rightarrow> nat \<Rightarrow> mmem_st \<Rightarrow> (bool \<times> mmem_st) option" where
  "mmem_alloc m sz s =
     (if avail_memory s < sz then Some (False, s)
      else case list_add (mmemlist s) (nxt s) m of None \<Rightarrow> None
        | Some (l, nx) \<Rightarrow>
            Some (True, s\<lparr>mmemlist := l, nxt := nx, bptr := (bptr s)(m := MMEM_SIZE - avail_memory s),
                          bsize := (bsize s)(m := sz), avail_memory := avail_memory s - sz\<rparr>))"

partial_function (option) shift_loop :: "nexts \<Rightarrow> nat \<Rightarrow> ptr \<Rightarrow> (nat \<Rightarrow> nat) \<Rightarrow> (nat \<Rightarrow> nat) option" where
  "shift_loop nx sz n bp =
     (case n of None \<Rightarrow> Some bp | Some p \<Rightarrow> shift_loop nx sz (nx p) (bp(p := bp p - sz)))"

definition mmem_free :: "nat \<Rightarrow> mmem_st \<Rightarrow> mmem_st option" where
  "mmem_free m s =
     (case (case nxt s m of None \<Rightarrow> Some (arena s, bptr s)
            | Some q \<Rightarrow>
                (case memmove (arena s) (bptr s m) (bptr s q) (MMEM_SIZE - avail_memory s - bptr s q) of None \<Rightarrow> None
                 | Some a \<Rightarrow> map_option (Pair a) (shift_loop (nxt s) (bsize s m) (nxt s m) (bptr s)))) of
        None \<Rightarrow> None
      | Some (a, bp) \<Rightarrow>
          (case list_remove (mmemlist s) (nxt s) m of None \<Rightarrow> None
           | Some (l, nx) \<Rightarrow>
               Some (s\<lparr>arena := a, bptr := bp, avail_memory := avail_memory s + bsize s m, mmemlist := l, nxt := nx\<rparr>)))"

section \<open>Blocks lie one after the other\<close>

fun laid :: "(nat \<Rightarrow> nat) \<Rightarrow> (nat \<Rightarrow> nat) \<Rightarrow> nat \<Rightarrow> nat list \<Rightarrow> bool" where
  "laid bp bs off [] = True"
| "laid bp bs off (x # xs) = (bp x = off \<and> laid bp bs (off + bs x) xs)"

definition total :: "(nat \<Rightarrow> nat) \<Rightarrow> nat list \<Rightarrow> nat" where
  "total bs xs = sum_list (map bs xs)"

lemma total_simps [simp]: "total bs [] = 0" "total bs (x # xs) = bs x + total bs xs"
  "total bs (xs @ ys) = total bs xs + total bs ys"
  by (simp_all add: total_def)

definition mmem_inv :: "mmem_st \<Rightarrow> nat list \<Rightarrow> bool" where
  "mmem_inv s xs \<longleftrightarrow> path (nxt s) (mmemlist s) xs \<and> length (arena s) = 2048 \<and>
     avail_memory s + total (bsize s) xs = 2048 \<and> laid (bptr s) (bsize s) 0 xs"

definition content :: "mmem_st \<Rightarrow> nat \<Rightarrow> u8 list" where
  "content s x = rd_bytes (arena s) (bptr s x) (bsize s x)"

lemma laid_append [simp]: "laid bp bs off (xs @ ys) \<longleftrightarrow> laid bp bs off xs \<and> laid bp bs (off + total bs xs) ys"
  by (induction xs arbitrary: off) (auto simp: add.assoc)

lemma laid_cong: "\<forall>x\<in>set xs. bp' x = bp x \<and> bs' x = bs x \<Longrightarrow> laid bp' bs' off xs = laid bp bs off xs"
  by (induction xs arbitrary: off) auto

lemma total_cong: "\<forall>x\<in>set xs. bs' x = bs x \<Longrightarrow> total bs' xs = total bs xs"
  by (induction xs) auto

lemma laid_shift:
  "laid bp bs (off + d) xs \<Longrightarrow> distinct xs \<Longrightarrow> \<forall>x\<in>set xs. bp' x = bp x - d \<Longrightarrow> laid bp' bs off xs"
proof (induction xs arbitrary: off)
  case (Cons x xs)
  have "laid bp bs (off + bs x + d) xs" using Cons.prems(1) by (simp add: ac_simps)
  then show ?case using Cons.IH [of "off + bs x"] Cons.prems by simp
qed simp

lemma laid_range: "laid bp bs off xs \<Longrightarrow> x \<in> set xs \<Longrightarrow> off \<le> bp x \<and> bp x + bs x \<le> off + total bs xs"
proof (induction xs arbitrary: off)
  case (Cons y ys)
  then show ?case by (cases "x = y") (force, fastforce)
qed simp

lemma shift_loop_path:
  "path nx n xs \<Longrightarrow> distinct xs \<Longrightarrow> \<exists>bp'. shift_loop nx d n bp = Some bp' \<and> (\<forall>x. bp' x = (if x \<in> set xs then bp x - d else bp x))"
proof (induction xs arbitrary: n bp)
  case Nil
  then show ?case by (subst shift_loop.simps) simp
next
  case (Cons x xs)
  obtain bp' where b: "shift_loop nx d (nx x) (bp(x := bp x - d)) = Some bp'"
    "\<forall>y. bp' y = (if y \<in> set xs then (bp(x := bp x - d)) y - d else (bp(x := bp x - d)) y)"
    using Cons.IH [of "nx x" "bp(x := bp x - d)"] Cons.prems unfolding path.simps(2) distinct.simps(2) by blast
  show ?case using b Cons.prems by (subst shift_loop.simps) (auto intro!: exI [of _ bp'])
qed

lemma mmem_init_inv: "length (arena s) = 2048 \<Longrightarrow> mmem_inv (mmem_init s) []"
  by (simp add: mmem_inv_def mmem_init_def list_init_def MMEM_SIZE_def)

lemma mmem_alloc_correct:
  assumes "mmem_inv s xs" "m \<notin> set xs"
  shows "\<exists>ok s'. mmem_alloc m sz s = Some (ok, s') \<and> (ok \<longleftrightarrow> total (bsize s) xs + sz \<le> 2048) \<and>
    mmem_inv s' (if ok then xs @ [m] else xs) \<and> (\<forall>x\<in>set xs. content s' x = content s x \<and> bsize s' x = bsize s x) \<and>
    (ok \<longrightarrow> bsize s' m = sz)"
proof (cases "avail_memory s < sz")
  case True
  then show ?thesis using assms(1) by (auto simp: mmem_alloc_def mmem_inv_def)
next
  case False
  have p: "path (nxt s) (mmemlist s) xs" "avail_memory s + total (bsize s) xs = 2048" "laid (bptr s) (bsize s) 0 xs"
    using assms(1) by (simp_all add: mmem_inv_def)
  obtain l' nx' where a: "list_add (mmemlist s) (nxt s) m = Some (l', nx')" "path nx' l' (xs @ [m])"
    using list_add_path [OF p(1) assms(2)] by blast
  let ?bs = "(bsize s)(m := sz)" and ?bp = "(bptr s)(m := 2048 - avail_memory s)"
  have t: "total ?bs xs = total (bsize s) xs" "laid ?bp ?bs 0 xs"
    using total_cong [of xs ?bs "bsize s"] laid_cong [of xs ?bp "bptr s" ?bs "bsize s" 0] assms(2) p(3) by auto
  have "mmem_inv (s\<lparr>mmemlist := l', nxt := nx', bptr := ?bp, bsize := ?bs, avail_memory := avail_memory s - sz\<rparr>) (xs @ [m])"
    using a(2) t p(2) False assms(1) by (auto simp: mmem_inv_def)
  then show ?thesis using False a(1) p(2) assms(2)
    by (auto simp: mmem_alloc_def MMEM_SIZE_def content_def)
qed

lemma mmem_free_correct:
  assumes "mmem_inv s (as @ m # bs)"
  shows "\<exists>s'. mmem_free m s = Some s' \<and> mmem_inv s' (as @ bs) \<and>
    (\<forall>x\<in>set (as @ bs). content s' x = content s x \<and> bsize s' x = bsize s x)"
proof -
  let ?xs = "as @ m # bs" and ?d = "bsize s m" and ?off = "total (bsize s) as" and ?a = "arena s"
  have p: "path (nxt s) (mmemlist s) ?xs" "length ?a = 2048" "avail_memory s + total (bsize s) ?xs = 2048"
    "laid (bptr s) (bsize s) 0 ?xs" using assms by (simp_all only: mmem_inv_def)
  have dist: "distinct ?xs" by (rule path_distinct [OF p(1)])
  have lm: "bptr s m = ?off" "laid (bptr s) (bsize s) (?off + ?d) bs" "laid (bptr s) (bsize s) 0 as" using p(4) by auto
  have sfx: "path (nxt s) (nxt s m) bs" by (rule path_suffix [OF p(1)])
  obtain l' nx' where r: "list_remove (mmemlist s) (nxt s) m = Some (l', nx')" "path nx' l' (remove1 m ?xs)"
    using list_remove_path [OF p(1), of m] by blast
  have rem: "remove1 m ?xs = as @ bs" using dist by (simp add: remove1_append)
  let ?n = "total (bsize s) bs"
  let ?a' = "wr_bytes ?a ?off (rd_bytes ?a (?off + ?d) ?n)"
  obtain a bp where ab: "(case nxt s m of None \<Rightarrow> Some (arena s, bptr s)
      | Some q \<Rightarrow> (case memmove (arena s) (bptr s m) (bptr s q) (MMEM_SIZE - avail_memory s - bptr s q) of None \<Rightarrow> None
         | Some a \<Rightarrow> map_option (Pair a) (shift_loop (nxt s) (bsize s m) (nxt s m) (bptr s)))) = Some (a, bp)"
    "\<forall>x. bp x = (if x \<in> set bs then bptr s x - ?d else bptr s x)" "a = ?a'"
  proof (cases bs)
    case Nil
    then show ?thesis using that [of ?a "bptr s"] sfx by simp
  next
    case (Cons q qs)
    have q: "nxt s m = Some q" "bptr s q = ?off + ?d" using sfx lm(2) Cons by auto
    have n: "MMEM_SIZE - avail_memory s - bptr s q = ?n" using p(3) q(2) by (simp add: MMEM_SIZE_def)
    have "memmove ?a ?off (?off + ?d) ?n = Some ?a'"
      unfolding memmove_def by (rule copy_up_correct) (use p(2,3) in auto)
    moreover obtain bp where "shift_loop (nxt s) ?d (nxt s m) (bptr s) = Some bp"
      "\<forall>x. bp x = (if x \<in> set bs then bptr s x - ?d else bptr s x)"
      using shift_loop_path [OF sfx, of ?d "bptr s"] dist by (metis distinct_append distinct.simps(2))
    ultimately show ?thesis using that [of ?a' bp] q n lm(1) by simp
  qed
  let ?s = "s\<lparr>arena := a, bptr := bp, avail_memory := avail_memory s + ?d, mmemlist := l', nxt := nx'\<rparr>"
  have f: "mmem_free m s = Some ?s" using ab(1) r(1) by (simp add: mmem_free_def)
  have fit: "?off + ?d + ?n \<le> 2048" using p(3) by simp
  have "\<forall>x\<in>set as. bp x = bptr s x \<and> bsize s x = bsize s x" using ab(2) dist by (auto simp: disjoint_iff)
  then have "laid bp (bsize s) 0 as" using laid_cong lm(3) by blast
  moreover have "laid bp (bsize s) ?off bs" by (rule laid_shift [OF lm(2)]) (use ab(2) dist in auto)
  ultimately have inv: "mmem_inv ?s (as @ bs)"
    using r(2) rem p(2,3) fit ab(3) by (auto simp: mmem_inv_def)
  have "content ?s x = content s x" if "x \<in> set as" for x
  proof -
    have x: "bptr s x + bsize s x \<le> ?off" "bp x = bptr s x"
      using laid_range [OF lm(3) that] ab(2) dist that by auto
    have "rd_bytes ?a' (bptr s x) (bsize s x) = rd_bytes ?a (bptr s x) (bsize s x)"
      by (rule rd_wr_bytes_other) (use x(1) fit p(2) in auto)
    then show ?thesis using x(2) ab(3) by (simp add: content_def)
  qed
  moreover have "content ?s x = content s x" if "x \<in> set bs" for x
  proof -
    have x: "?off + ?d \<le> bptr s x" "bptr s x + bsize s x \<le> ?off + ?d + ?n" "bp x = bptr s x - ?d"
      using laid_range [OF lm(2) that] ab(2) that by auto
    have "rd_bytes ?a' (bptr s x - ?d) (bsize s x) = rd_bytes ?a (bptr s x) (bsize s x)"
      by (rule nth_equalityI) (use x(1,2) fit p(2) in \<open>auto simp: nth_rd_bytes nth_wr_bytes\<close>)
    then show ?thesis using x(3) ab(3) by (simp add: content_def)
  qed
  ultimately show ?thesis using f inv by auto
qed

text \<open>
C40: The managed memory never overlaps or loses live data: from a well-formed arena, an allocation
succeeds exactly when the sizes still fit in 2048 bytes and then appends a block of the asked size,
and freeing a block removes just that block; both keep the blocks laid out without gaps and leave
the bytes of every other block unchanged, although freeing moves them.
\<close>

theorem mmem_preserves_contents:
  assumes "mmem_inv s xs" "m \<notin> set xs" "f \<in> set xs"
  shows "(\<exists>ok s'. mmem_alloc m sz s = Some (ok, s') \<and> (ok \<longleftrightarrow> total (bsize s) xs + sz \<le> 2048) \<and>
      mmem_inv s' (if ok then xs @ [m] else xs) \<and> (ok \<longrightarrow> length (content s' m) = sz) \<and>
      (\<forall>x\<in>set xs. content s' x = content s x)) \<and>
    (\<exists>s'. mmem_free f s = Some s' \<and> mmem_inv s' (remove1 f xs) \<and>
      (\<forall>x\<in>set xs - {f}. content s' x = content s x))"
proof -
  obtain as bs where xs: "xs = as @ f # bs" "f \<notin> set as" using assms(3) by (metis split_list_first)
  obtain ok s' where a: "mmem_alloc m sz s = Some (ok, s')" "ok \<longleftrightarrow> total (bsize s) xs + sz \<le> 2048"
    "mmem_inv s' (if ok then xs @ [m] else xs)" "\<forall>x\<in>set xs. content s' x = content s x \<and> bsize s' x = bsize s x"
    "ok \<longrightarrow> bsize s' m = sz"
    using mmem_alloc_correct [OF assms(1,2), of sz] by blast
  have "length (content s' m) = sz" if ok
  proof -
    have "laid (bptr s') (bsize s') 0 (xs @ [m])" "length (arena s') = 2048"
      "avail_memory s' + total (bsize s') (xs @ [m]) = 2048" using a(3) that by (simp_all only: mmem_inv_def if_True)
    then have "bptr s' m + bsize s' m \<le> 2048" by auto
    then show ?thesis using a(5) that \<open>length (arena s') = 2048\<close> by (simp add: content_def)
  qed
  moreover have "\<exists>s'. mmem_free f s = Some s' \<and> mmem_inv s' (remove1 f xs) \<and>
      (\<forall>x\<in>set xs - {f}. content s' x = content s x)"
    using mmem_free_correct [of s as f bs] assms(1) xs by (auto simp: remove1_append)
  ultimately show ?thesis using a by blast
qed

definition demo_mmem :: mmem_st where
  "demo_mmem = \<lparr>mmemlist = Some 1, nxt = (\<lambda>_. None)(1 := Some 2), bsize = (\<lambda>_. 4), bptr = (\<lambda>_. 0)(2 := 4),
     avail_memory = 2040, arena = replicate 2048 0\<rparr>"

lemma mmem_preserves_contents_witness:
  "\<exists>s'. mmem_free 1 demo_mmem = Some s' \<and> mmem_inv s' (remove1 1 [1, 2])"
proof -
  have i: "mmem_inv demo_mmem [1, 2]" by (simp add: mmem_inv_def demo_mmem_def)
  have "(7 :: nat) \<notin> set [1, 2]" "(1 :: nat) \<in> set [1, 2]" by simp_all
  from mmem_preserves_contents [OF i this, of 5] show ?thesis by blast
qed

section \<open>Block pools\<close>

text \<open>
  The word at the start of a block links it to the next free one; \<open>mem\<close> holds the words of memory by
  address, 0 is the null pointer. The data of a block starts four bytes after its start.
\<close>

record pool_st =
  free_list :: nat
  words :: "nat \<Rightarrow> nat"

definition blocksize :: "nat \<Rightarrow> nat" where
  "blocksize itemsize = 4 * ((itemsize + 3) div 4)"

fun chain_loop :: "nat \<Rightarrow> nat \<Rightarrow> nat \<Rightarrow> (nat \<Rightarrow> nat) \<Rightarrow> nat \<times> (nat \<Rightarrow> nat)" where
  "chain_loop bs tmp 0 w = (tmp, w)"
| "chain_loop bs tmp (Suc n) w = chain_loop bs (tmp + bs) n (w(tmp := tmp + bs))"

definition mempool_init :: "nat \<Rightarrow> nat \<Rightarrow> nat \<Rightarrow> pool_st \<Rightarrow> pool_st" where
  "mempool_init mem itemsize itemcount s =
     (let (tmp, w) = chain_loop (blocksize itemsize) mem (itemcount - 1) (words s)
      in \<lparr>free_list = mem, words = w(tmp := 0)\<rparr>)"

definition mempool_header :: "nat \<Rightarrow> nat" where
  "mempool_header pd = pd - 4"

text \<open>The returned pointer is the block's data, or 0.\<close>

definition mempool_alloc :: "pool_st \<Rightarrow> nat \<times> pool_st" where
  "mempool_alloc s = (if free_list s = 0 then (0, s) else (free_list s + 4, s\<lparr>free_list := words s (free_list s)\<rparr>))"

definition mempool_free :: "nat \<Rightarrow> pool_st \<Rightarrow> pool_st" where
  "mempool_free p s = (let tmp = mempool_header p in \<lparr>free_list = tmp, words = (words s)(tmp := free_list s)\<rparr>)"

fun free_chain :: "(nat \<Rightarrow> nat) \<Rightarrow> nat \<Rightarrow> nat list \<Rightarrow> bool" where
  "free_chain w a [] \<longleftrightarrow> a = 0"
| "free_chain w a (b # bs) \<longleftrightarrow> a = b \<and> b \<noteq> 0 \<and> free_chain w (w b) bs"

lemma free_chain_cong: "\<forall>b\<in>set bs. w' b = w b \<Longrightarrow> free_chain w' a bs = free_chain w a bs"
  by (induction bs arbitrary: a) auto

lemma chain_loop_spec:
  assumes "0 < bs"
  shows "\<exists>w'. chain_loop bs t n w = (t + n * bs, w') \<and> (\<forall>i<n. w' (t + i * bs) = t + Suc i * bs) \<and>
    (\<forall>a. a < t \<longrightarrow> w' a = w a)"
proof (induction n arbitrary: t w)
  case (Suc n)
  obtain w' where w': "chain_loop bs (t + bs) n (w(t := t + bs)) = (t + bs + n * bs, w')"
    "\<forall>i<n. w' (t + bs + i * bs) = t + bs + Suc i * bs" "\<forall>a. a < t + bs \<longrightarrow> w' a = (w(t := t + bs)) a"
    using Suc.IH [of "t + bs" "w(t := t + bs)"] by blast
  have "w' (t + i * bs) = t + Suc i * bs" if "i < Suc n" for i
  proof (cases i)
    case 0
    then show ?thesis using w'(3) assms by simp
  next
    case (Suc j)
    have "w' (t + bs + j * bs) = t + bs + Suc j * bs" using w'(2) that Suc by simp
    then show ?thesis by (simp add: Suc add.assoc)
  qed
  moreover have "\<forall>a. a < t \<longrightarrow> w' a = w a" using w'(3) by auto
  ultimately show ?case using w'(1) by (intro exI [of _ w']) (simp add: ac_simps)
qed simp

lemma init_chain:
  assumes "0 < bs" "0 < t" "\<forall>i<n. w (t + i * bs) = t + Suc i * bs" "w (t + n * bs) = 0"
  shows "free_chain w t (map (\<lambda>i. t + i * bs) [0..<Suc n])"
  using assms(2-4)
proof (induction n arbitrary: t)
  case (Suc n)
  have "free_chain w (t + bs) (map (\<lambda>i. t + bs + i * bs) [0..<Suc n])"
  proof (rule Suc.IH)
    show "\<forall>i<n. w (t + bs + i * bs) = t + bs + Suc i * bs"
    proof (intro allI impI)
      fix i assume "i < n"
      then show "w (t + bs + i * bs) = t + bs + Suc i * bs" using Suc.prems(2) [rule_format, of "Suc i"] by (simp add: ac_simps)
    qed
  qed (use Suc.prems in \<open>simp_all add: ac_simps\<close>)
  moreover have "w t = t + bs" using Suc.prems(2) [rule_format, of 0] by simp
  moreover have "map (\<lambda>i. t + i * bs) [0..<Suc (Suc n)] = t # map (\<lambda>i. t + bs + i * bs) [0..<Suc n]"
    by (simp add: upt_conv_Cons map_Suc_upt [symmetric] ac_simps del: upt_Suc)
  ultimately show ?case using Suc.prems(1) by (simp del: upt_Suc)
qed simp

text \<open>The blocks of a pool with \<open>itemcount\<close> items.\<close>

definition pool_blocks :: "nat \<Rightarrow> nat \<Rightarrow> nat \<Rightarrow> nat list" where
  "pool_blocks mem itemsize itemcount = map (\<lambda>i. mem + i * blocksize itemsize) [0..<itemcount]"

lemma mempool_init_chain:
  assumes "0 < mem" "0 < itemsize" "0 < itemcount"
  shows "free_chain (words (mempool_init mem itemsize itemcount s)) (free_list (mempool_init mem itemsize itemcount s))
    (pool_blocks mem itemsize itemcount)"
proof -
  let ?bs = "blocksize itemsize" and ?n = "itemcount - 1"
  have b: "0 < ?bs" using assms(2) by (simp add: blocksize_def)
  obtain w' where w': "chain_loop ?bs mem ?n (words s) = (mem + ?n * ?bs, w')" "\<forall>i<?n. w' (mem + i * ?bs) = mem + Suc i * ?bs"
    using chain_loop_spec [OF b, of mem ?n "words s"] by blast
  have "free_chain (w'(mem + ?n * ?bs := 0)) mem (map (\<lambda>i. mem + i * ?bs) [0..<Suc ?n])"
    by (rule init_chain [OF b assms(1)]) (use w'(2) b in auto)
  then show ?thesis using w'(1) assms(3) by (simp add: mempool_init_def pool_blocks_def)
qed

text \<open>
The pool is a stack of blocks, but its blocks are four bytes too small: allocation hands out
the first free block and freeing puts a block back in front, yet a client that fills the item it
was given, up to the size the pool was made for, overwrites the link of the following block, and
the allocation after the next returns whatever address the client wrote.
\<close>

theorem mempool_item_overwrites_link:
  assumes "0 < mem" "4 \<le> itemsize" "itemsize mod 4 = 0" "1 < itemcount"
  shows "let s = mempool_init mem itemsize itemcount s0;
      (p, s1) = mempool_alloc s; s2 = s1\<lparr>words := (words s1)(p + (itemsize - 4) := evil)\<rparr>;
      (q, s3) = mempool_alloc s2; (r, s4) = mempool_alloc s3 in
    p = mem + 4 \<and> q = mem + itemsize + 4 \<and> (evil \<noteq> 0 \<longrightarrow> r = evil + 4) \<and>
    mempool_alloc (mempool_free p s1) = (p, s1)"
proof -
  let ?s = "mempool_init mem itemsize itemcount s0"
  have bs: "blocksize itemsize = itemsize" using assms(3) by (auto simp: blocksize_def)
  have c: "free_chain (words ?s) (free_list ?s) (pool_blocks mem itemsize itemcount)"
    using mempool_init_chain assms by auto
  obtain k where k: "k = itemcount - 2" by blast
  have "itemcount = Suc (Suc k)" using assms(4) by (simp add: k)
  then have "pool_blocks mem itemsize itemcount = mem # (mem + itemsize) # map (\<lambda>i. mem + i * itemsize) [2..<itemcount]"
    by (simp add: pool_blocks_def bs upt_conv_Cons numeral_2_eq_2 del: upt_Suc)
  then have f: "free_list ?s = mem" "words ?s mem = mem + itemsize" using c by auto
  have "(words ?s)(mem := mem + itemsize) = words ?s" using f(2) by auto
  then show ?thesis
    using f assms(1,2) by (auto simp: mempool_alloc_def mempool_free_def mempool_header_def Let_def)
qed

lemma mempool_item_overwrites_link_witness:
  "fst (mempool_alloc (mempool_init 100 8 3 \<lparr>free_list = 0, words = (\<lambda>_. 0)\<rparr>)) = 104"
proof -
  have "(0 :: nat) < 100" "(4 :: nat) \<le> 8" "8 mod 4 = (0 :: nat)" "(1 :: nat) < 3" by simp_all
  from mempool_item_overwrites_link [OF this, of "\<lparr>free_list = 0, words = (\<lambda>_. 0)\<rparr>" 0] show ?thesis
    by (auto simp: Let_def split: prod.splits)
qed

end
