(* ===== verification/FlashDrv.thy ===== *)
theory FlashDrv
  imports Prelude MeshFlash
begin

text \<open>
  The flash driver (\<open>drivers/8258/flash.c\<close> with the \<open>mspi_*\<close> accessors of \<open>drivers/8258/spi_i.h\<close>).
  The driver shifts command, address and data bytes through the memory SPI controller; the chip acts
  on a complete frame when the chip select rises. The chip is the serial NOR flash of the data sheets
  named in the source: programming only clears bits and wraps inside its 256-byte page, program and
  erase need the write-enable latch, and a busy chip answers nothing but its status. How many status
  reads answer busy after a program or erase is the parameter \<open>latency\<close> of the state.

  The first part of the lemmas shows that the driver implements the elementary operations on which the
  parameter storage is built; the second treats the value logs of the HomeKit configuration.
\<close>

section \<open>Chip\<close>

record nor_chip =
  cells :: "nat \<Rightarrow> u8"
  wel :: bool
  wip :: nat
  deep :: bool
  nvstat :: u8
  jedec :: "u8 list"
  uid :: "u8 list"
  latency :: nat

definition adr24 :: "u8 list \<Rightarrow> nat" where
  "adr24 f = unat (f ! 1) * 65536 + unat (f ! 2) * 256 + unat (f ! 3)"

text \<open>The page buffer: byte \<open>i\<close> of the data goes to place \<open>(off + i) mod 256\<close>, later bytes replace earlier ones.\<close>

primrec page_latch :: "nat \<Rightarrow> u8 list \<Rightarrow> (nat \<Rightarrow> u8) \<Rightarrow> nat \<Rightarrow> u8" where
  "page_latch off [] l = l"
| "page_latch off (x # xs) l = page_latch (off + 1) xs (l(off mod 256 := x))"

definition nor_cycle :: "(nat \<Rightarrow> u8) \<Rightarrow> 'a nor_chip_scheme \<Rightarrow> 'a nor_chip_scheme" where
  "nor_cycle m c = (if wel c then c\<lparr>cells := m, wel := False, wip := latency c\<rparr> else c)"

definition nor_program :: "nat \<Rightarrow> u8 list \<Rightarrow> (nat \<Rightarrow> u8) \<Rightarrow> nat \<Rightarrow> u8" where
  "nor_program adr xs m = (\<lambda>x. if x div 256 = adr div 256 then m x AND page_latch adr xs (\<lambda>_. 0xFF) (x mod 256) else m x)"

definition nor_erase :: "nat \<Rightarrow> nat \<Rightarrow> (nat \<Rightarrow> u8) \<Rightarrow> nat \<Rightarrow> u8" where
  "nor_erase sz adr m = (\<lambda>x. if x div sz = adr div sz then 0xFF else m x)"

text \<open>The command in a frame, and its effect when the chip select rises.\<close>

datatype nor_cmd =
    Nop | WriteEnable | WriteDisable | ProgramPage nat "u8 list" | EraseRegion nat nat | EraseChip
  | WriteStatus u8 | PowerDown | Release

definition nor_decode :: "u8 list \<Rightarrow> nor_cmd" where
  "nor_decode f =
     (if f = [] then Nop
      else let cmd = hd f; n = length f in
        if cmd = 0xAB then Release
        else if cmd = 0x06 then WriteEnable
        else if cmd = 0x04 then WriteDisable
        else if cmd = 0x02 \<and> 4 < n then ProgramPage (adr24 f) (drop 4 f)
        else if cmd = 0x20 \<and> n = 4 then EraseRegion 4096 (adr24 f)
        else if cmd = 0x81 \<and> n = 4 then EraseRegion 256 (adr24 f)
        else if cmd = 0x52 \<and> n = 4 then EraseRegion 32768 (adr24 f)
        else if cmd = 0xD8 \<and> n = 4 then EraseRegion 65536 (adr24 f)
        else if cmd = 0x60 \<and> n = 1 then EraseChip
        else if cmd = 0x01 \<and> 1 < n then WriteStatus (f ! 1 AND 0xFC)
        else if cmd = 0xB9 \<and> n = 1 then PowerDown
        else Nop)"

fun nor_exec :: "nor_cmd \<Rightarrow> 'a nor_chip_scheme \<Rightarrow> 'a nor_chip_scheme" where
  "nor_exec Nop c = c"
| "nor_exec WriteEnable c = c\<lparr>wel := True\<rparr>"
| "nor_exec WriteDisable c = c\<lparr>wel := False\<rparr>"
| "nor_exec (ProgramPage a xs) c = nor_cycle (nor_program a xs (cells c)) c"
| "nor_exec (EraseRegion sz a) c = nor_cycle (nor_erase sz a (cells c)) c"
| "nor_exec EraseChip c = nor_cycle (\<lambda>_. 0xFF) c"
| "nor_exec (WriteStatus v) c = nor_cycle (cells c) (if wel c then c\<lparr>nvstat := v\<rparr> else c)"
| "nor_exec PowerDown c = c\<lparr>deep := True\<rparr>"
| "nor_exec Release c = c\<lparr>deep := False\<rparr>"

definition nor_commit :: "u8 list \<Rightarrow> 'a nor_chip_scheme \<Rightarrow> 'a nor_chip_scheme" where
  "nor_commit f c =
     (if 0 < wip c \<or> (deep c \<and> nor_decode f \<noteq> Release) then c else nor_exec (nor_decode f) c)"

definition nor_status :: "'a nor_chip_scheme \<Rightarrow> u8" where
  "nor_status c = (nvstat c AND 0xFC) OR (if wel c then 2 else 0) OR (if 0 < wip c then 1 else 0)"

text \<open>The byte shifted out while the byte after the frame \<open>f\<close> is shifted in.\<close>

definition nor_reply :: "u8 list \<Rightarrow> 'a nor_chip_scheme \<Rightarrow> u8" where
  "nor_reply f c =
     (let n = length f in
      if n = 0 \<or> deep c then 0xFF
      else if hd f = 0x05 then nor_status c
      else if 0 < wip c then 0xFF
      else if hd f = 0x03 \<and> 4 \<le> n then cells c ((adr24 f + (n - 4)) mod 2 ^ 24)
      else if hd f = 0x9F \<and> n \<le> length (jedec c) then jedec c ! (n - 1)
      else if (hd f = 0x4B \<or> hd f = 0x5A) \<and> 5 \<le> n \<and> n - 5 < length (uid c) then uid c ! (n - 5)
      else 0xFF)"

section \<open>Controller and processor\<close>

record spi_drv = nor_chip +
  selected :: bool
  frame :: "u8 list"
  reg_mspi_data :: u8
  rd_mode :: bool
  reg_irq_en :: u8
  wd_clears :: nat

definition mspi_wait :: "'a spi_drv_scheme \<Rightarrow> 'a spi_drv_scheme" where
  "mspi_wait s = s"

definition mspi_ctrl_write :: "u8 \<Rightarrow> 'a spi_drv_scheme \<Rightarrow> 'a spi_drv_scheme" where
  "mspi_ctrl_write c s =
     (if bit c 0 then (nor_commit (frame s) s)\<lparr>selected := False, frame := [], rd_mode := bit c 3\<rparr>
      else s\<lparr>selected := True, rd_mode := bit c 3\<rparr>)"

definition mspi_high :: "'a spi_drv_scheme \<Rightarrow> 'a spi_drv_scheme" where
  "mspi_high s = mspi_ctrl_write 1 s"

definition mspi_low :: "'a spi_drv_scheme \<Rightarrow> 'a spi_drv_scheme" where
  "mspi_low s = mspi_ctrl_write 0 s"

text \<open>One byte on the bus: a status answer counts one busy answer down.\<close>

definition mspi_write :: "u8 \<Rightarrow> 'a spi_drv_scheme \<Rightarrow> 'a spi_drv_scheme" where
  "mspi_write c s =
     (if selected s
      then s\<lparr>reg_mspi_data := nor_reply (frame s) s, frame := frame s @ [c],
             wip := (if frame s \<noteq> [] \<and> hd (frame s) = 0x05 then wip s - 1 else wip s)\<rparr>
      else s)"

definition mspi_get :: "'a spi_drv_scheme \<Rightarrow> u8 \<times> 'a spi_drv_scheme" where
  "mspi_get s = (reg_mspi_data s, if rd_mode s then mspi_write 0 s else s)"

definition mspi_read :: "'a spi_drv_scheme \<Rightarrow> u8 \<times> 'a spi_drv_scheme" where
  "mspi_read s = mspi_get (mspi_wait (mspi_write 0 s))"

definition irq_disable :: "'a spi_drv_scheme \<Rightarrow> u8 \<times> 'a spi_drv_scheme" where
  "irq_disable s = (reg_irq_en s, s\<lparr>reg_irq_en := 0\<rparr>)"

definition irq_restore :: "u8 \<Rightarrow> 'a spi_drv_scheme \<Rightarrow> 'a spi_drv_scheme" where
  "irq_restore en s = s\<lparr>reg_irq_en := en\<rparr>"

definition wd_clear :: "'a spi_drv_scheme \<Rightarrow> 'a spi_drv_scheme" where
  "wd_clear s = s\<lparr>wd_clears := wd_clears s + 1\<rparr>"

section \<open>Commands\<close>

definition FLASH_WRITE_STATUS_CMD :: u8 where "FLASH_WRITE_STATUS_CMD = 0x01"
definition FLASH_WRITE_CMD :: u8 where "FLASH_WRITE_CMD = 0x02"
definition FLASH_READ_CMD :: u8 where "FLASH_READ_CMD = 0x03"
definition FLASH_READ_STATUS_CMD :: u8 where "FLASH_READ_STATUS_CMD = 0x05"
definition FLASH_WRITE_ENABLE_CMD :: u8 where "FLASH_WRITE_ENABLE_CMD = 0x06"
definition FLASH_SECT_ERASE_CMD :: u8 where "FLASH_SECT_ERASE_CMD = 0x20"
definition FLASH_GD_PUYA_READ_UID_CMD :: u8 where "FLASH_GD_PUYA_READ_UID_CMD = 0x4B"
definition FLASH_32KBLK_ERASE_CMD :: u8 where "FLASH_32KBLK_ERASE_CMD = 0x52"
definition FLASH_XTX_READ_UID_CMD :: u8 where "FLASH_XTX_READ_UID_CMD = 0x5A"
definition FLASH_CHIP_ERASE_CMD :: u8 where "FLASH_CHIP_ERASE_CMD = 0x60"
definition FLASH_PAGE_ERASE_CMD :: u8 where "FLASH_PAGE_ERASE_CMD = 0x81"
definition FLASH_64KBLK_ERASE_CMD :: u8 where "FLASH_64KBLK_ERASE_CMD = 0xD8"
definition FLASH_POWER_DOWN :: u8 where "FLASH_POWER_DOWN = 0xB9"
definition FLASH_POWER_DOWN_RELEASE :: u8 where "FLASH_POWER_DOWN_RELEASE = 0xAB"
definition FLASH_GET_JEDEC_ID :: u8 where "FLASH_GET_JEDEC_ID = 0x9F"

lemmas flash_cmds = FLASH_WRITE_STATUS_CMD_def FLASH_WRITE_CMD_def FLASH_READ_CMD_def
  FLASH_READ_STATUS_CMD_def FLASH_WRITE_ENABLE_CMD_def FLASH_SECT_ERASE_CMD_def
  FLASH_GD_PUYA_READ_UID_CMD_def FLASH_32KBLK_ERASE_CMD_def FLASH_XTX_READ_UID_CMD_def
  FLASH_CHIP_ERASE_CMD_def FLASH_PAGE_ERASE_CMD_def FLASH_64KBLK_ERASE_CMD_def
  FLASH_POWER_DOWN_def FLASH_POWER_DOWN_RELEASE_def FLASH_GET_JEDEC_ID_def

definition flash_is_busy :: "'a spi_drv_scheme \<Rightarrow> bool \<times> 'a spi_drv_scheme" where
  "flash_is_busy s = (let (v, s) = mspi_read s in (v AND 0x01 \<noteq> 0, s))"

definition flash_send_cmd :: "u8 \<Rightarrow> 'a spi_drv_scheme \<Rightarrow> 'a spi_drv_scheme" where
  "flash_send_cmd cmd s = mspi_wait (mspi_write cmd (mspi_low (mspi_high s)))"

definition flash_send_addr :: "u32 \<Rightarrow> 'a spi_drv_scheme \<Rightarrow> 'a spi_drv_scheme" where
  "flash_send_addr addr s =
     (let s = mspi_wait (mspi_write (ucast (drop_bit 16 addr)) s);
          s = mspi_wait (mspi_write (ucast (drop_bit 8 addr)) s)
      in mspi_wait (mspi_write (ucast addr) s))"

primrec wait_loop :: "nat \<Rightarrow> 'a spi_drv_scheme \<Rightarrow> 'a spi_drv_scheme" where
  "wait_loop 0 s = s"
| "wait_loop (Suc n) s = (let (b, s) = flash_is_busy s in if b then wait_loop n s else s)"

definition flash_wait_done :: "'a spi_drv_scheme \<Rightarrow> 'a spi_drv_scheme" where
  "flash_wait_done s = mspi_high (wait_loop 10000000 (flash_send_cmd FLASH_READ_STATUS_CMD s))"

definition flash_erase_sector_d :: "u32 \<Rightarrow> 'a spi_drv_scheme \<Rightarrow> 'a spi_drv_scheme" where
  "flash_erase_sector_d addr s =
     (let (r, s) = irq_disable s;
          s = wd_clear s;
          s = flash_send_cmd FLASH_WRITE_ENABLE_CMD s;
          s = flash_send_cmd FLASH_SECT_ERASE_CMD s;
          s = flash_send_addr addr s;
          s = mspi_high s;
          s = flash_wait_done s
      in irq_restore r s)"

definition flash_write_page_256 :: "u32 \<Rightarrow> nat \<Rightarrow> u8 list \<Rightarrow> 'a spi_drv_scheme \<Rightarrow> 'a spi_drv_scheme" where
  "flash_write_page_256 addr len buf s =
     (let (r, s) = irq_disable s;
          s = flash_send_cmd FLASH_WRITE_ENABLE_CMD s;
          s = flash_send_cmd FLASH_WRITE_CMD s;
          s = flash_send_addr addr s;
          s = fold (\<lambda>i s. mspi_wait (mspi_write (buf ! i) s)) [0..<len] s;
          s = mspi_high s;
          s = flash_wait_done s
      in irq_restore r s)"

definition PAGE_SIZE :: nat where "PAGE_SIZE = 256"

text \<open>The \<open>while (len)\<close> loop; \<open>len_empty\<close> is the room left in the current page and never zero.\<close>

function page_loop :: "u32 \<Rightarrow> nat \<Rightarrow> u8 list \<Rightarrow> nat \<Rightarrow> 'a spi_drv_scheme \<Rightarrow> 'a spi_drv_scheme" where
  "page_loop addr len buf len_empty s =
     (if len = 0 \<or> len_empty = 0 then s
      else if len_empty \<le> len
      then page_loop (addr + of_nat len_empty) (len - len_empty) (drop len_empty buf) PAGE_SIZE
             (flash_write_page_256 addr len_empty buf s)
      else flash_write_page_256 addr len buf s)"
  by pat_completeness auto

termination
  by (relation "measure (\<lambda>(a, len, b, e, s). len)") auto

declare page_loop.simps [simp del]

definition flash_write_page_d :: "u32 \<Rightarrow> nat \<Rightarrow> u8 list \<Rightarrow> 'a spi_drv_scheme \<Rightarrow> 'a spi_drv_scheme" where
  "flash_write_page_d addr len buf s = page_loop addr len buf (PAGE_SIZE - unat (ucast addr :: u8)) s"

primrec get_loop :: "nat \<Rightarrow> 'a spi_drv_scheme \<Rightarrow> u8 list \<times> 'a spi_drv_scheme" where
  "get_loop 0 s = ([], s)"
| "get_loop (Suc n) s = (let (x, s) = mspi_get s; (xs, s) = get_loop n (mspi_wait s) in (x # xs, s))"

definition flash_read_page_d :: "u32 \<Rightarrow> nat \<Rightarrow> 'a spi_drv_scheme \<Rightarrow> u8 list \<times> 'a spi_drv_scheme" where
  "flash_read_page_d addr len s =
     (let (r, s) = irq_disable s;
          s = flash_send_cmd FLASH_READ_CMD s;
          s = flash_send_addr addr s;
          s = mspi_wait (mspi_write 0x00 s);
          s = mspi_wait (mspi_ctrl_write 0x0a s);
          (buf, s) = get_loop len s;
          s = mspi_high s
      in (buf, irq_restore r s))"

definition flash_read_mid :: "'a spi_drv_scheme \<Rightarrow> u8 list \<times> 'a spi_drv_scheme" where
  "flash_read_mid s =
     (let (r, s) = irq_disable s;
          s = flash_send_cmd FLASH_GET_JEDEC_ID s;
          s = mspi_wait (mspi_write 0x00 s);
          s = mspi_wait (mspi_ctrl_write 0x0a s);
          (buf, s) = get_loop 3 s;
          s = mspi_high s
      in (buf, irq_restore r s))"

section \<open>Frames\<close>

definition idle :: "'a spi_drv_scheme \<Rightarrow> bool" where
  "idle s = (\<not> selected s \<and> frame s = [] \<and> \<not> rd_mode s)"

definition ready :: "'a spi_drv_scheme \<Rightarrow> bool" where
  "ready s = (idle s \<and> wip s = 0 \<and> \<not> deep s \<and> \<not> wel s \<and> latency s < 10000000)"

lemmas bus_defs = mspi_wait_def mspi_ctrl_write_def mspi_high_def mspi_low_def

lemma ctrl_write_bits [simp]: "bit (0x0a :: u8) 0 = False" "bit (0x0a :: u8) 3 = True"
    "\<not> bit (1 :: u8) 3"
  by (simp_all add: bit_iff_odd)

lemma nor_commit_Nil [simp]: "nor_commit [] c = c"
  by (simp add: nor_commit_def nor_decode_def)

lemma nor_exec_fields [simp]:
  "latency (nor_exec k c) = latency c" "jedec (nor_exec k c) = jedec c" "uid (nor_exec k c) = uid c"
  "selected (nor_exec k (s :: 'a spi_drv_scheme)) = selected s" "frame (nor_exec k s) = frame s"
  "rd_mode (nor_exec k s) = rd_mode s" "reg_irq_en (nor_exec k s) = reg_irq_en s"
  by (cases k; simp add: nor_cycle_def)+

lemma nor_commit_fields [simp]:
  "latency (nor_commit f c) = latency c" "jedec (nor_commit f c) = jedec c" "uid (nor_commit f c) = uid c"
  "selected (nor_commit f (s :: 'a spi_drv_scheme)) = selected s" "frame (nor_commit f s) = frame s"
  "rd_mode (nor_commit f s) = rd_mode s" "reg_irq_en (nor_commit f s) = reg_irq_en s"
  by (simp_all add: nor_commit_def)

lemma nor_exec_bus [simp]:
  "nor_exec k (c\<lparr>reg_mspi_data := d\<rparr>) = (nor_exec k c)\<lparr>reg_mspi_data := d\<rparr>"
  "nor_exec k (c\<lparr>frame := g\<rparr>) = (nor_exec k c)\<lparr>frame := g\<rparr>"
  "nor_exec k (c\<lparr>selected := b\<rparr>) = (nor_exec k c)\<lparr>selected := b\<rparr>"
  "nor_exec k (c\<lparr>rd_mode := b\<rparr>) = (nor_exec k c)\<lparr>rd_mode := b\<rparr>"
  by (cases k; simp add: nor_cycle_def)+

lemma nor_commit_bus [simp]:
  "nor_commit f (c\<lparr>reg_mspi_data := d\<rparr>) = (nor_commit f c)\<lparr>reg_mspi_data := d\<rparr>"
  "nor_commit f (c\<lparr>frame := g\<rparr>) = (nor_commit f c)\<lparr>frame := g\<rparr>"
  "nor_commit f (c\<lparr>selected := b\<rparr>) = (nor_commit f c)\<lparr>selected := b\<rparr>"
  "nor_commit f (c\<lparr>rd_mode := b\<rparr>) = (nor_commit f c)\<lparr>rd_mode := b\<rparr>"
  by (simp_all add: nor_commit_def)

lemma nor_commit_busy [simp]: "0 < wip c \<Longrightarrow> nor_commit f c = c"
  by (simp add: nor_commit_def)

lemma nor_commit_wren [simp]: "wip c = 0 \<Longrightarrow> \<not> deep c \<Longrightarrow> nor_commit [FLASH_WRITE_ENABLE_CMD] c = c\<lparr>wel := True\<rparr>"
  by (simp add: nor_commit_def nor_decode_def flash_cmds)

lemma nor_commit_status [simp]: "nor_commit (FLASH_READ_STATUS_CMD # f) c = c"
  by (simp add: nor_commit_def nor_decode_def flash_cmds)

lemma send_cmd_idle: "idle s \<Longrightarrow> flash_send_cmd c s =
   s\<lparr>selected := True, frame := [c], reg_mspi_data := 0xFF\<rparr>"
  by (cases s) (simp add: flash_send_cmd_def idle_def bus_defs mspi_write_def nor_reply_def)

lemma send_cmd_frame: "selected s \<Longrightarrow> flash_send_cmd c s =
   (nor_commit (frame s) s)\<lparr>selected := True, frame := [c], rd_mode := False, reg_mspi_data := 0xFF\<rparr>"
  by (simp add: flash_send_cmd_def bus_defs mspi_write_def nor_reply_def)

lemma mspi_write_frame: "selected s \<Longrightarrow> frame s = f \<Longrightarrow> f \<noteq> [] \<Longrightarrow> hd f \<noteq> 0x05 \<Longrightarrow>
   \<exists>d. mspi_write c s = s\<lparr>frame := f @ [c], reg_mspi_data := d\<rparr>"
  by (rule exI [of _ "nor_reply f s"]) (cases s, simp add: mspi_write_def)

lemma fold_write_frame: "selected s \<Longrightarrow> frame s \<noteq> [] \<Longrightarrow> hd (frame s) \<noteq> 0x05 \<Longrightarrow>
   \<exists>d. fold (\<lambda>i s. mspi_wait (mspi_write (b ! i) s)) is s = s\<lparr>frame := frame s @ map ((!) b) is, reg_mspi_data := d\<rparr>"
proof (induction "is" arbitrary: s)
  case Nil
  then show ?case by (intro exI [of _ "reg_mspi_data s"]) simp
next
  case (Cons i js)
  from mspi_write_frame [OF Cons.prems(1) refl Cons.prems(2,3)] obtain d where
    d: "mspi_write (b ! i) s = s\<lparr>frame := frame s @ [b ! i], reg_mspi_data := d\<rparr>" by blast
  have "\<exists>d'. fold (\<lambda>i s. mspi_wait (mspi_write (b ! i) s)) js (s\<lparr>frame := frame s @ [b ! i], reg_mspi_data := d\<rparr>) =
      (s\<lparr>frame := frame s @ [b ! i], reg_mspi_data := d\<rparr>)\<lparr>frame := (frame s @ [b ! i]) @ map ((!) b) js, reg_mspi_data := d'\<rparr>"
    using Cons.IH [of "s\<lparr>frame := frame s @ [b ! i], reg_mspi_data := d\<rparr>"] Cons.prems by simp
  then show ?case by (auto simp: d mspi_wait_def)
qed

definition addr_bytes :: "u32 \<Rightarrow> u8 list" where
  "addr_bytes a = [ucast (drop_bit 16 a), ucast (drop_bit 8 a), ucast a]"

lemma length_addr_bytes [simp]: "length (addr_bytes a) = 3"
  by (simp add: addr_bytes_def)

lemma adr24_addr_bytes [simp]: "adr24 (c # addr_bytes a @ ds) = unat a mod 2 ^ 24"
proof -
  have "unat (ucast (drop_bit 16 a) :: u8) = unat a div 65536 mod 256"
    "unat (ucast (drop_bit 8 a) :: u8) = unat a div 256 mod 256"
    by (simp_all add: unat_ucast_narrow unat_div_distrib drop_bit_eq_div)
  moreover have "unat a div 65536 mod 256 * 65536 + unat a div 256 mod 256 * 256 + unat a mod 256
      = unat a mod 16777216"
    using mod_mult2_eq [of "unat a" 256 65536] mod_mult2_eq [of "unat a div 256" 256 256]
    by (simp add: div_mult2_eq [symmetric])
  ultimately show ?thesis by (simp add: adr24_def addr_bytes_def unat_ucast_narrow)
qed

lemma send_addr_frame: "selected s \<Longrightarrow> frame s = [c] \<Longrightarrow> c \<noteq> 0x05 \<Longrightarrow>
   \<exists>d. flash_send_addr a s = s\<lparr>frame := c # addr_bytes a, reg_mspi_data := d\<rparr>"
  using fold_write_frame [of s "addr_bytes a" "[0,1,2]"]
  by (simp add: flash_send_addr_def addr_bytes_def Let_def mspi_wait_def)

lemma status_busy: "(nor_status c AND 1 \<noteq> 0) = (0 < wip c)"
proof -
  have "(nor_status c AND 1 \<noteq> 0) = bit (nor_status c) 0"
    by (simp add: and_one_eq bit_iff_odd odd_iff_mod_2_eq_one)
  also have "\<dots> = (0 < wip c)"
    by (simp add: nor_status_def bit_0 even_or_iff even_and_iff)
  finally show ?thesis .
qed

lemma is_busy_frame: "selected s \<Longrightarrow> \<not> rd_mode s \<Longrightarrow> \<not> deep s \<Longrightarrow> frame s = FLASH_READ_STATUS_CMD # f \<Longrightarrow>
   flash_is_busy s = (0 < wip s, s\<lparr>frame := FLASH_READ_STATUS_CMD # f @ [0], reg_mspi_data := nor_status s, wip := wip s - 1\<rparr>)"
  by (simp add: flash_is_busy_def mspi_read_def mspi_get_def mspi_write_def mspi_wait_def Let_def
      nor_reply_def FLASH_READ_STATUS_CMD_def status_busy)

lemma wait_loop_frame: "selected s \<Longrightarrow> \<not> rd_mode s \<Longrightarrow> \<not> deep s \<Longrightarrow> frame s = FLASH_READ_STATUS_CMD # f \<Longrightarrow>
   \<exists>f' d. wait_loop n s = s\<lparr>frame := FLASH_READ_STATUS_CMD # f', reg_mspi_data := d, wip := wip s - n\<rparr>"
proof (induction n arbitrary: s f)
  case 0
  then show ?case by (intro exI [of _ f] exI [of _ "reg_mspi_data s"]) simp
next
  case (Suc n)
  show ?case
  proof (cases "wip s = 0")
    case True
    then show ?thesis using Suc.prems by (auto simp: is_busy_frame)
  next
    case False
    obtain t where t: "t = s\<lparr>frame := FLASH_READ_STATUS_CMD # f @ [0], reg_mspi_data := nor_status s, wip := wip s - 1\<rparr>"
      by blast
    have "\<exists>f' d. wait_loop n t = t\<lparr>frame := FLASH_READ_STATUS_CMD # f', reg_mspi_data := d, wip := wip t - n\<rparr>"
      by (rule Suc.IH [of t "f @ [0]"]) (use Suc.prems in \<open>simp_all add: t\<close>)
    then show ?thesis using Suc.prems False by (auto simp: is_busy_frame t)
  qed
qed

lemma wait_done_idle: "idle s \<Longrightarrow> \<not> deep s \<Longrightarrow>
   \<exists>d. flash_wait_done s = s\<lparr>reg_mspi_data := d, wip := wip s - 10000000\<rparr>"
proof -
  assume a: "idle s" "\<not> deep s"
  obtain t where t: "t = flash_send_cmd FLASH_READ_STATUS_CMD s" by blast
  have ts: "t = s\<lparr>selected := True, frame := [FLASH_READ_STATUS_CMD], reg_mspi_data := 0xFF\<rparr>"
    using a by (simp add: t send_cmd_idle)
  obtain f d where w: "wait_loop 10000000 t = t\<lparr>frame := FLASH_READ_STATUS_CMD # f, reg_mspi_data := d, wip := wip t - 10000000\<rparr>"
    using wait_loop_frame [of t "[]" 10000000] a by (auto simp: ts idle_def)
  have "flash_wait_done s = mspi_high (wait_loop 10000000 t)"
    by (simp only: flash_wait_done_def t)
  also have "\<dots> = s\<lparr>selected := False, frame := [], rd_mode := False, reg_mspi_data := d, wip := wip s - 10000000\<rparr>"
    using a by (subst w) (simp add: ts bus_defs idle_def)
  also have "\<dots> = s\<lparr>reg_mspi_data := d, wip := wip s - 10000000\<rparr>"
    using a by (cases s) (simp add: idle_def)
  finally show ?thesis by blast
qed

section \<open>Elementary operations\<close>

lemma ready_idle: "ready s \<Longrightarrow> idle s" "ready s \<Longrightarrow> wip s = 0" "ready s \<Longrightarrow> \<not> deep s"
  by (simp_all add: ready_def)

lemma cycle_frame_idle:
  assumes "idle s" "wip s = 0" "\<not> deep s" "c \<noteq> 0x05"
  shows "\<exists>d. mspi_high (fold (\<lambda>i s. mspi_wait (mspi_write (b ! i) s)) is
      (flash_send_addr a (flash_send_cmd c (flash_send_cmd FLASH_WRITE_ENABLE_CMD s)))) =
    (nor_commit (c # addr_bytes a @ map ((!) b) is) (s\<lparr>wel := True\<rparr>))\<lparr>reg_mspi_data := d\<rparr>"
proof -
  obtain t where t: "t = s\<lparr>wel := True, selected := True, frame := [c], rd_mode := False, reg_mspi_data := 0xFF\<rparr>" by blast
  have 1: "flash_send_cmd c (flash_send_cmd FLASH_WRITE_ENABLE_CMD s) = t"
    using assms by (simp add: send_cmd_idle send_cmd_frame t)
  obtain d where d: "flash_send_addr a t = t\<lparr>frame := c # addr_bytes a, reg_mspi_data := d\<rparr>"
    using send_addr_frame [of t c a] assms(4) by (auto simp: t)
  obtain u where u: "u = t\<lparr>frame := c # addr_bytes a, reg_mspi_data := d\<rparr>" by blast
  obtain e where e: "fold (\<lambda>i s. mspi_wait (mspi_write (b ! i) s)) is u =
      u\<lparr>frame := c # addr_bytes a @ map ((!) b) is, reg_mspi_data := e\<rparr>"
    using fold_write_frame [of u b "is"] assms(4) by (auto simp: u t)
  have "mspi_high (u\<lparr>frame := c # addr_bytes a @ map ((!) b) is, reg_mspi_data := e\<rparr>) =
      (nor_commit (c # addr_bytes a @ map ((!) b) is) (s\<lparr>wel := True\<rparr>))\<lparr>reg_mspi_data := e, selected := False, frame := [], rd_mode := False\<rparr>"
    by (simp add: bus_defs u t)
  also have "\<dots> = (nor_commit (c # addr_bytes a @ map ((!) b) is) (s\<lparr>wel := True\<rparr>))\<lparr>reg_mspi_data := e\<rparr>"
    using assms by (intro spi_drv.equality) (simp_all add: idle_def)
  finally show ?thesis unfolding 1 d u [symmetric] e by blast
qed

lemmas cycle_frame = cycle_frame_idle [OF ready_idle(1) ready_idle(2) ready_idle(3)]

lemma ready_update [simp]:
  "ready (s\<lparr>cells := m\<rparr>) = ready s" "ready (s\<lparr>reg_mspi_data := d\<rparr>) = ready s"
  "ready (s\<lparr>reg_irq_en := r\<rparr>) = ready s" "ready (s\<lparr>wd_clears := n\<rparr>) = ready s" "ready (s\<lparr>nvstat := v\<rparr>) = ready s"
  by (simp_all add: ready_def idle_def)

text \<open>The common tail: a cycle of the chip and the wait for its end.\<close>

lemma wait_done_cycle:
  assumes "ready s"
  shows "\<exists>d. flash_wait_done ((nor_cycle m (s\<lparr>wel := True\<rparr>))\<lparr>reg_mspi_data := e\<rparr>) = s\<lparr>cells := m, reg_mspi_data := d\<rparr>"
proof -
  obtain t where t: "t = s\<lparr>cells := m, wip := latency s, reg_mspi_data := e\<rparr>" by blast
  have "(nor_cycle m (s\<lparr>wel := True\<rparr>))\<lparr>reg_mspi_data := e\<rparr> = t"
    using assms by (cases s) (simp add: nor_cycle_def t ready_def)
  moreover obtain d where "flash_wait_done t = t\<lparr>reg_mspi_data := d, wip := wip t - 10000000\<rparr>"
    using wait_done_idle [of t] assms by (auto simp: t ready_def idle_def)
  moreover have "t\<lparr>reg_mspi_data := d, wip := wip t - 10000000\<rparr> = s\<lparr>cells := m, reg_mspi_data := d\<rparr>"
    using assms by (cases s) (simp add: t ready_def)
  ultimately show ?thesis by metis
qed

lemma nor_commit_program: "wip c = 0 \<Longrightarrow> \<not> deep c \<Longrightarrow> xs \<noteq> [] \<Longrightarrow>
    nor_commit (FLASH_WRITE_CMD # addr_bytes a @ xs) c = nor_cycle (nor_program (unat a mod 2 ^ 24) xs (cells c)) c"
  by (simp add: nor_commit_def nor_decode_def FLASH_WRITE_CMD_def Let_def)

lemma nor_commit_erase: "wip c = 0 \<Longrightarrow> \<not> deep c \<Longrightarrow>
    nor_commit (FLASH_SECT_ERASE_CMD # addr_bytes a) c = nor_cycle (nor_erase 4096 (unat a mod 2 ^ 24) (cells c)) c"
  using adr24_addr_bytes [of FLASH_SECT_ERASE_CMD a "[]"]
  by (simp add: nor_commit_def nor_decode_def FLASH_SECT_ERASE_CMD_def Let_def)

lemma erase_sector_ready:
  assumes "ready s"
  shows "\<exists>d. flash_erase_sector_d a s =
    s\<lparr>cells := nor_erase 4096 (unat a mod 2 ^ 24) (cells s), wd_clears := wd_clears s + 1, reg_mspi_data := d\<rparr>"
proof -
  obtain t where t: "t = s\<lparr>reg_irq_en := 0, wd_clears := wd_clears s + 1\<rparr>" by blast
  have r: "ready t" using assms by (simp add: t)
  obtain d where d: "mspi_high (flash_send_addr a (flash_send_cmd FLASH_SECT_ERASE_CMD (flash_send_cmd FLASH_WRITE_ENABLE_CMD t))) =
      (nor_commit (FLASH_SECT_ERASE_CMD # addr_bytes a) (t\<lparr>wel := True\<rparr>))\<lparr>reg_mspi_data := d\<rparr>"
    using cycle_frame [OF r r r, of FLASH_SECT_ERASE_CMD b "[]" a for b] by (auto simp: flash_cmds)
  have c: "nor_commit (FLASH_SECT_ERASE_CMD # addr_bytes a) (t\<lparr>wel := True\<rparr>) =
      nor_cycle (nor_erase 4096 (unat a mod 2 ^ 24) (cells s)) (t\<lparr>wel := True\<rparr>)"
    using r by (subst nor_commit_erase) (simp_all add: ready_def t)
  obtain e where e: "flash_wait_done ((nor_cycle (nor_erase 4096 (unat a mod 2 ^ 24) (cells s)) (t\<lparr>wel := True\<rparr>))\<lparr>reg_mspi_data := d\<rparr>) =
      t\<lparr>cells := nor_erase 4096 (unat a mod 2 ^ 24) (cells s), reg_mspi_data := e\<rparr>"
    using wait_done_cycle [OF r] by blast
  have "flash_erase_sector_d a s = irq_restore (reg_irq_en s) (flash_wait_done (mspi_high (flash_send_addr a
      (flash_send_cmd FLASH_SECT_ERASE_CMD (flash_send_cmd FLASH_WRITE_ENABLE_CMD t)))))"
    by (simp add: flash_erase_sector_d_def irq_disable_def wd_clear_def t Let_def)
  also have "\<dots> = s\<lparr>cells := nor_erase 4096 (unat a mod 2 ^ 24) (cells s), wd_clears := wd_clears s + 1, reg_mspi_data := e\<rparr>"
    unfolding d c e by (cases s) (simp add: irq_restore_def t)
  finally show ?thesis by blast
qed

lemma map_nth_upt: "len \<le> length b \<Longrightarrow> map ((!) b) [0..<len] = take len b"
  by (rule nth_equalityI) auto

lemma write_page_256_ready:
  assumes "ready s" "0 < len" "len \<le> length b"
  shows "\<exists>d. flash_write_page_256 a len b s =
    s\<lparr>cells := nor_program (unat a mod 2 ^ 24) (take len b) (cells s), reg_mspi_data := d\<rparr>"
proof -
  obtain t where t: "t = s\<lparr>reg_irq_en := 0\<rparr>" by blast
  have r: "ready t" using assms by (simp add: t)
  obtain d where d: "mspi_high (fold (\<lambda>i s. mspi_wait (mspi_write (b ! i) s)) [0..<len]
      (flash_send_addr a (flash_send_cmd FLASH_WRITE_CMD (flash_send_cmd FLASH_WRITE_ENABLE_CMD t)))) =
      (nor_commit (FLASH_WRITE_CMD # addr_bytes a @ take len b) (t\<lparr>wel := True\<rparr>))\<lparr>reg_mspi_data := d\<rparr>"
    using cycle_frame [OF r r r, of FLASH_WRITE_CMD b "[0..<len]" a] map_nth_upt [OF assms(3)] by (auto simp: flash_cmds)
  have c: "nor_commit (FLASH_WRITE_CMD # addr_bytes a @ take len b) (t\<lparr>wel := True\<rparr>) =
      nor_cycle (nor_program (unat a mod 2 ^ 24) (take len b) (cells s)) (t\<lparr>wel := True\<rparr>)"
    using r assms(2,3) by (subst nor_commit_program) (auto simp: ready_def t)
  obtain e where e: "flash_wait_done ((nor_cycle (nor_program (unat a mod 2 ^ 24) (take len b) (cells s)) (t\<lparr>wel := True\<rparr>))\<lparr>reg_mspi_data := d\<rparr>) =
      t\<lparr>cells := nor_program (unat a mod 2 ^ 24) (take len b) (cells s), reg_mspi_data := e\<rparr>"
    using wait_done_cycle [OF r] by blast
  have "flash_write_page_256 a len b s = irq_restore (reg_irq_en s) (flash_wait_done (mspi_high (fold (\<lambda>i s. mspi_wait (mspi_write (b ! i) s)) [0..<len]
      (flash_send_addr a (flash_send_cmd FLASH_WRITE_CMD (flash_send_cmd FLASH_WRITE_ENABLE_CMD t))))))"
    by (simp add: flash_write_page_256_def irq_disable_def t Let_def)
  also have "\<dots> = s\<lparr>cells := nor_program (unat a mod 2 ^ 24) (take len b) (cells s), reg_mspi_data := e\<rparr>"
    unfolding d c e by (cases s) (simp add: irq_restore_def t)
  finally show ?thesis by blast
qed

section \<open>Refinement of the elementary operations\<close>

lemma run_page_ops:
  "run_ops (page_ops adr xs) m = (\<lambda>x. if adr \<le> x \<and> x < adr + length xs then m x AND xs ! (x - adr) else m x)"
proof (induction xs rule: rev_induct)
  case (snoc y ys)
  then show ?case by (auto simp: page_ops_snoc run_ops_def nth_append fun_eq_iff)
qed (auto simp: fun_eq_iff)

lemma page_latch_in_page: "off + length xs \<le> 256 \<Longrightarrow>
    page_latch off xs l j = (if off \<le> j \<and> j < off + length xs then xs ! (j - off) else l j)"
proof (induction xs arbitrary: off l)
  case (Cons x xs)
  then have "off mod 256 = off" by simp
  then show ?case using Cons by (auto simp: nth_Cons')
qed auto

lemma page_latch_mod: "page_latch off xs l = page_latch (off mod 256) xs l"
proof (induction xs arbitrary: off l)
  case (Cons x xs)
  have "page_latch (off + 1) xs k = page_latch (off mod 256 + 1) xs k" for k
    by (subst (1 2) Cons.IH) (simp add: mod_Suc_eq)
  then show ?case by simp
qed simp

lemma and_FF_right [simp]: "(v :: u8) AND 0xFF = v"
proof -
  have "(0xFF :: u8) = -1" by simp
  then show ?thesis by (simp only: and.right_neutral)
qed

lemma nor_program_in_page:
  assumes "adr mod 256 + length xs \<le> 256"
  shows "nor_program adr xs m = run_ops (page_ops adr xs) m"
proof (rule ext)
  fix x :: nat
  have x: "x = 256 * (x div 256) + x mod 256" "adr = 256 * (adr div 256) + adr mod 256" by simp_all
  show "nor_program adr xs m x = run_ops (page_ops adr xs) m x"
  proof (cases "x div 256 = adr div 256")
    case True
    then have d: "x - adr = x mod 256 - adr mod 256" "(adr \<le> x) = (adr mod 256 \<le> x mod 256)"
      "(x < adr + length xs) = (x mod 256 < adr mod 256 + length xs)" using x by linarith+
    have "page_latch adr xs (\<lambda>_. 0xFF) (x mod 256) =
        (if adr mod 256 \<le> x mod 256 \<and> x mod 256 < adr mod 256 + length xs then xs ! (x mod 256 - adr mod 256) else 0xFF)"
      by (subst page_latch_mod) (simp add: page_latch_in_page [OF assms])
    then show ?thesis using True by (simp add: nor_program_def run_page_ops d)
  next
    case False
    then have "\<not> (adr \<le> x \<and> x < adr + length xs)"
    proof (intro notI)
      assume a: "adr \<le> x \<and> x < adr + length xs"
      then have "x < 256 * (adr div 256) + 256" using x(2) assms by linarith
      moreover have "256 * (adr div 256) \<le> x" using a x(2) by linarith
      ultimately have "x div 256 = adr div 256" by (intro div_nat_eqI) simp_all
      then show False using False by simp
    qed
    then show ?thesis using False by (auto simp: nor_program_def run_page_ops)
  qed
qed

lemma page_ops_append: "page_ops adr (xs @ ys) = page_ops adr xs @ page_ops (adr + length xs) ys"
  by (induction ys rule: rev_induct) (simp_all add: page_ops_snoc page_ops_snoc [of _ "xs @ _", simplified] flip: append_assoc)

lemma page_loop_ready:
  assumes "ready s" "len \<le> length b" "unat a + len \<le> 2 ^ 24" "e = 256 - unat a mod 256"
  shows "\<exists>d. page_loop a len b e s = s\<lparr>cells := run_ops (page_ops (unat a) (take len b)) (cells s), reg_mspi_data := d\<rparr>"
  using assms
proof (induction len arbitrary: a b e s rule: less_induct)
  case (less len)
  have e: "0 < e" "e \<le> 256" "unat a mod 256 + e = 256" using less.prems(4) by simp_all
  show ?case
  proof (cases "len = 0")
    case True
    then show ?thesis by (subst page_loop.simps) (auto simp: run_ops_def intro: exI [of _ "reg_mspi_data s"])
  next
    case False
    have am: "unat a mod 2 ^ 24 = unat a" using less.prems(3) False by simp
    show ?thesis
    proof (cases "e \<le> len")
      case True
      obtain d where d: "flash_write_page_256 a e b s =
          s\<lparr>cells := nor_program (unat a) (take e b) (cells s), reg_mspi_data := d\<rparr>"
        using write_page_256_ready [OF less.prems(1) e(1), of b a] True less.prems(2) am by fastforce
      obtain t where t: "t = s\<lparr>cells := run_ops (page_ops (unat a) (take e b)) (cells s), reg_mspi_data := d\<rparr>" by blast
      have w: "flash_write_page_256 a e b s = t"
        unfolding d t using e True less.prems(2) by (subst nor_program_in_page) simp_all
      have ua: "unat (a + of_nat e) = unat a + e"
        using less.prems(3) True e(2) by (simp add: unat_word_ariths unat_of_nat_u32)
      have m: "unat (a + of_nat e) mod 256 = 0"
        unfolding ua using e(3) mod_add_left_eq [of "unat a" 256 e] by simp
      have "\<exists>d. page_loop (a + of_nat e) (len - e) (drop e b) PAGE_SIZE t =
          t\<lparr>cells := run_ops (page_ops (unat (a + of_nat e)) (take (len - e) (drop e b))) (cells t), reg_mspi_data := d\<rparr>"
      proof (rule less.IH)
        show "len - e < len" using e(1) False by simp
        show "ready t" using less.prems(1) by (simp add: t)
        show "len - e \<le> length (drop e b)" using less.prems(2) by simp
        show "unat (a + of_nat e) + (len - e) \<le> 2 ^ 24" using less.prems(3) True by (simp add: ua)
        show "PAGE_SIZE = 256 - unat (a + of_nat e) mod 256" by (simp add: m PAGE_SIZE_def)
      qed
      then obtain d' where d': "page_loop (a + of_nat e) (len - e) (drop e b) PAGE_SIZE t =
          t\<lparr>cells := run_ops (page_ops (unat a + e) (take (len - e) (drop e b))) (cells t), reg_mspi_data := d'\<rparr>"
        by (auto simp: ua)
      have "take len b = take e b @ take (len - e) (drop e b)"
        using True by (metis le_add_diff_inverse take_add)
      moreover have "length (take e b) = e" using True less.prems(2) by simp
      ultimately have p: "run_ops (page_ops (unat a) (take len b)) (cells s) =
          run_ops (page_ops (unat a + e) (take (len - e) (drop e b))) (run_ops (page_ops (unat a) (take e b)) (cells s))"
        by (simp add: page_ops_append run_ops_def)
      have "page_loop a len b e s = page_loop (a + of_nat e) (len - e) (drop e b) PAGE_SIZE t"
        using False e(1) True by (subst page_loop.simps) (simp add: w)
      also have "\<dots> = s\<lparr>cells := run_ops (page_ops (unat a) (take len b)) (cells s), reg_mspi_data := d'\<rparr>"
        unfolding d' p by (simp add: t)
      finally show ?thesis by blast
    next
      case F: False
      obtain d where d: "flash_write_page_256 a len b s =
          s\<lparr>cells := nor_program (unat a) (take len b) (cells s), reg_mspi_data := d\<rparr>"
        using write_page_256_ready [OF less.prems(1), of len b a] False less.prems(2) am by fastforce
      have "nor_program (unat a) (take len b) (cells s) = run_ops (page_ops (unat a) (take len b)) (cells s)"
        using F e less.prems(2) by (intro nor_program_in_page) simp
      then show ?thesis using False F e(1) by (subst page_loop.simps) (auto simp: d)
    qed
  qed
qed

lemma write_page_ready:
  assumes "ready s" "len \<le> length b" "unat a + len \<le> 2 ^ 24"
  shows "\<exists>d. flash_write_page_d a len b s =
    s\<lparr>cells := run_ops (page_ops (unat a) (take len b)) (cells s), reg_mspi_data := d\<rparr>"
  unfolding flash_write_page_d_def
  by (rule page_loop_ready [OF assms]) (simp add: PAGE_SIZE_def unat_ucast_narrow)

lemma nor_erase_sector: "nor_erase 4096 adr m = run_ops [Erase adr] m"
  by (simp add: nor_erase_def run_ops_def)

section \<open>Reading\<close>

lemma nor_reply_bus [simp]:
  "nor_reply f (c\<lparr>reg_mspi_data := d\<rparr>) = nor_reply f c" "nor_reply f (c\<lparr>frame := g\<rparr>) = nor_reply f c"
  "nor_reply f (c\<lparr>selected := b\<rparr>) = nor_reply f c" "nor_reply f (c\<lparr>rd_mode := b\<rparr>) = nor_reply f c"
  "nor_reply f (c\<lparr>reg_irq_en := r\<rparr>) = nor_reply f c"
  by (simp_all add: nor_reply_def nor_status_def cong: if_cong)

lemma get_loop_frame:
  assumes "selected s" "rd_mode s" "frame s = f @ replicate (k + 1) 0" "f \<noteq> []" "hd f \<noteq> 0x05"
    "reg_mspi_data s = nor_reply (f @ replicate k 0) s"
  shows "get_loop n s = (map (\<lambda>i. nor_reply (f @ replicate i 0) s) [k..<k + n],
     s\<lparr>frame := f @ replicate (k + 1 + n) 0, reg_mspi_data := nor_reply (f @ replicate (k + n) 0) s\<rparr>)"
  using assms
proof (induction n arbitrary: s k)
  case 0
  then show ?case by (cases s) simp
next
  case (Suc n)
  obtain t where t: "t = s\<lparr>frame := f @ replicate (Suc k + 1) 0, reg_mspi_data := nor_reply (f @ replicate (Suc k) 0) s\<rparr>" by blast
  have g: "mspi_get s = (nor_reply (f @ replicate k 0) s, t)"
    using Suc.prems by (cases s) (simp add: mspi_get_def mspi_write_def t replicate_append_same)
  have "get_loop n t = (map (\<lambda>i. nor_reply (f @ replicate i 0) t) [Suc k..<Suc k + n],
     t\<lparr>frame := f @ replicate (Suc k + 1 + n) 0, reg_mspi_data := nor_reply (f @ replicate (Suc k + n) 0) t\<rparr>)"
    by (rule Suc.IH) (use Suc.prems in \<open>simp_all add: t\<close>)
  moreover have "[k..<k + Suc n] = k # [Suc k..<Suc k + n]" by (simp add: upt_conv_Cons)
  ultimately show ?case by (simp add: g mspi_wait_def t)
qed

text \<open>Everything after the address of a read command: dummy byte, automatic mode, \<open>n\<close> reads, deselection.\<close>

definition read_tail :: "nat \<Rightarrow> 'a spi_drv_scheme \<Rightarrow> u8 list \<times> 'a spi_drv_scheme" where
  "read_tail n s = (let s = mspi_wait (mspi_write 0x00 s); s = mspi_wait (mspi_ctrl_write 0x0a s);
       (buf, s) = get_loop n s in (buf, mspi_high s))"

lemma read_tail_frame:
  assumes "selected s" "frame s = f" "f \<noteq> []" "hd f \<noteq> 0x05" "nor_commit (f @ replicate (n + 1) 0) s = s"
  shows "\<exists>d. read_tail n s =
    (map (\<lambda>i. nor_reply (f @ replicate i 0) s) [0..<n], s\<lparr>selected := False, frame := [], rd_mode := False, reg_mspi_data := d\<rparr>)"
proof -
  obtain t where t: "t = s\<lparr>frame := f @ [0], reg_mspi_data := nor_reply f s, selected := True, rd_mode := True\<rparr>" by blast
  have 1: "mspi_wait (mspi_ctrl_write 0x0a (mspi_wait (mspi_write 0x00 s))) = t"
    using assms by (simp add: bus_defs mspi_write_def t)
  have 2: "get_loop n t = (map (\<lambda>i. nor_reply (f @ replicate i 0) t) [0..<n],
     t\<lparr>frame := f @ replicate (n + 1) 0, reg_mspi_data := nor_reply (f @ replicate n 0) t\<rparr>)"
    using get_loop_frame [of t f 0 n] assms by (simp add: t)
  have 3: "mspi_high (t\<lparr>frame := f @ replicate (n + 1) 0, reg_mspi_data := d\<rparr>) =
      s\<lparr>selected := False, frame := [], rd_mode := False, reg_mspi_data := d\<rparr>" for d
    using assms(5) by (simp add: bus_defs t del: replicate_Suc add_Suc_right)
  have "read_tail n s = (map (\<lambda>i. nor_reply (f @ replicate i 0) t) [0..<n],
      s\<lparr>selected := False, frame := [], rd_mode := False, reg_mspi_data := nor_reply (f @ replicate n 0) t\<rparr>)"
    by (simp only: read_tail_def Let_def 1 2 3 split_beta fst_conv snd_conv)
  moreover have "nor_reply g t = nor_reply g s" for g by (simp add: t)
  ultimately show ?thesis by auto
qed

lemma cmd_not_status: "FLASH_READ_CMD \<noteq> 5" "FLASH_GET_JEDEC_ID \<noteq> 5"
  "FLASH_GD_PUYA_READ_UID_CMD \<noteq> 5" "FLASH_XTX_READ_UID_CMD \<noteq> 5"
  by (simp_all add: flash_cmds)

lemma nor_commit_read [simp]: "nor_commit (FLASH_READ_CMD # f) c = c" "nor_commit (FLASH_GET_JEDEC_ID # f) c = c"
  "nor_commit (FLASH_GD_PUYA_READ_UID_CMD # f) c = c" "nor_commit (FLASH_XTX_READ_UID_CMD # f) c = c"
  by (simp_all add: nor_commit_def nor_decode_def flash_cmds)

lemma read_page_ready:
  assumes "ready s" "unat a + n \<le> 2 ^ 24"
  shows "\<exists>d. flash_read_page_d a n s = (map (\<lambda>i. cells s (unat a + i)) [0..<n], s\<lparr>reg_mspi_data := d\<rparr>)"
proof -
  obtain t where t: "t = s\<lparr>reg_irq_en := 0, selected := True, frame := [FLASH_READ_CMD], reg_mspi_data := 0xFF\<rparr>" by blast
  have 1: "flash_send_cmd FLASH_READ_CMD (s\<lparr>reg_irq_en := 0\<rparr>) = t"
    using assms(1) by (simp add: send_cmd_idle ready_def idle_def t)
  obtain d where d: "flash_send_addr a t = t\<lparr>frame := FLASH_READ_CMD # addr_bytes a, reg_mspi_data := d\<rparr>"
    using send_addr_frame [of t FLASH_READ_CMD a] by (auto simp: t flash_cmds)
  obtain u where u: "u = t\<lparr>frame := FLASH_READ_CMD # addr_bytes a, reg_mspi_data := d\<rparr>" by blast
  obtain e where e: "read_tail n u = (map (\<lambda>i. nor_reply ((FLASH_READ_CMD # addr_bytes a) @ replicate i 0) u) [0..<n],
      u\<lparr>selected := False, frame := [], rd_mode := False, reg_mspi_data := e\<rparr>)"
    using read_tail_frame [of u "FLASH_READ_CMD # addr_bytes a" n] cmd_not_status by (auto simp: u t)
  have r: "nor_reply ((FLASH_READ_CMD # addr_bytes a) @ replicate i 0) u = cells s (unat a + i)" if "i < n" for i
    using assms that by (simp add: nor_reply_def u t ready_def FLASH_READ_CMD_def)
  have "flash_read_page_d a n s = (let (b, s') = read_tail n u in (b, irq_restore (reg_irq_en s) s'))"
    by (simp add: flash_read_page_d_def read_tail_def irq_disable_def 1 d u Let_def split_beta)
  also have "\<dots> = (map (\<lambda>i. cells s (unat a + i)) [0..<n], s\<lparr>reg_mspi_data := e\<rparr>)"
    unfolding e using assms(1) r by (cases s) (auto simp: irq_restore_def u t ready_def idle_def)
  finally show ?thesis by blast
qed

section \<open>The driver implements the storage operations\<close>

text \<open>
C12: On a chip that is not busy the driver performs exactly the elementary operations the parameter
storage is built on, for every address and length inside the 24-bit address space and across page
boundaries: \<open>flash_write_page\<close> clears bits byte by byte as \<open>page_ops\<close> says, although the chip wraps inside a
page, \<open>flash_erase_sector\<close> erases the sector, \<open>flash_read_page\<close> returns the cells, and each leaves the chip
ready and the interrupt enable as it found it.
\<close>

theorem flash_driver_refines:
  assumes "ready s" "len \<le> length buf" "unat a + len \<le> 2 ^ 24"
  shows "(let t = flash_write_page_d a len buf s
          in cells t = run_ops (page_ops (unat a) (take len buf)) (cells s) \<and> ready t \<and> reg_irq_en t = reg_irq_en s)
    \<and> (let t = flash_erase_sector_d a s
        in cells t = run_ops [Erase (unat a mod 2 ^ 24)] (cells s) \<and> ready t \<and> reg_irq_en t = reg_irq_en s)
    \<and> (let (b, t) = flash_read_page_d a len s
        in b = flash_read_page (cells s) (unat a) len \<and> cells t = cells s \<and> ready t \<and> reg_irq_en t = reg_irq_en s)"
proof -
  obtain d where w: "flash_write_page_d a len buf s =
      s\<lparr>cells := run_ops (page_ops (unat a) (take len buf)) (cells s), reg_mspi_data := d\<rparr>"
    using write_page_ready [OF assms] by blast
  obtain e where e: "flash_erase_sector_d a s = s\<lparr>cells := nor_erase 4096 (unat a mod 2 ^ 24) (cells s),
      wd_clears := wd_clears s + 1, reg_mspi_data := e\<rparr>"
    using erase_sector_ready [OF assms(1)] by blast
  obtain r where r: "flash_read_page_d a len s = (map (\<lambda>i. cells s (unat a + i)) [0..<len], s\<lparr>reg_mspi_data := r\<rparr>)"
    using read_page_ready [OF assms(1,3)] by blast
  show ?thesis unfolding w e r using assms(1)
    by (simp add: nor_erase_sector flash_read_page_def)
qed

definition blank_chip :: spi_drv where
  "blank_chip = \<lparr>cells = (\<lambda>_. 0xFF), wel = False, wip = 0, deep = False, nvstat = 0, jedec = [0xC8, 0x60, 0x13],
     uid = replicate 16 0x77, latency = 3, selected = False, frame = [], reg_mspi_data = 0, rd_mode = False,
     reg_irq_en = 1, wd_clears = 0\<rparr>"

lemma ready_blank [simp]: "ready blank_chip"
  by (simp add: ready_def idle_def blank_chip_def)

lemma flash_driver_refines_witness:
  "cells (flash_write_page_d 0x310FF 2 [5, 6] blank_chip) = run_ops (page_ops 0x310FF [5, 6]) (cells blank_chip)"
  using flash_driver_refines [of blank_chip 2 "[5, 6]" "0x310FF"] by (simp add: Let_def)

lemma busy_cycle_lost:
  assumes "idle s" "\<not> deep s" "0 < wip s"
  shows "cells (flash_erase_sector_d a s) = cells s"
proof -
  obtain t where t: "t = s\<lparr>reg_irq_en := 0, wd_clears := wd_clears s + 1\<rparr>" by blast
  obtain u where u: "u = t\<lparr>selected := True, frame := [FLASH_SECT_ERASE_CMD], rd_mode := False, reg_mspi_data := 0xFF\<rparr>" by blast
  have 1: "flash_send_cmd FLASH_SECT_ERASE_CMD (flash_send_cmd FLASH_WRITE_ENABLE_CMD t) = u"
    using assms by (simp add: send_cmd_idle idle_def t u send_cmd_frame)
  obtain d where d: "flash_send_addr a u = u\<lparr>frame := FLASH_SECT_ERASE_CMD # addr_bytes a, reg_mspi_data := d\<rparr>"
    using send_addr_frame [of u FLASH_SECT_ERASE_CMD a] by (auto simp: u flash_cmds)
  obtain v where v: "v = mspi_high (u\<lparr>frame := FLASH_SECT_ERASE_CMD # addr_bytes a, reg_mspi_data := d\<rparr>)" by blast
  have vv: "idle v" "\<not> deep v" "cells v = cells s"
    using assms by (simp_all add: v u t bus_defs idle_def)
  obtain e where "flash_wait_done v = v\<lparr>reg_mspi_data := e, wip := wip v - 10000000\<rparr>"
    using wait_done_idle [OF vv(1,2)] by blast
  moreover have "flash_erase_sector_d a s = irq_restore (reg_irq_en s) (flash_wait_done (mspi_high (flash_send_addr a
      (flash_send_cmd FLASH_SECT_ERASE_CMD (flash_send_cmd FLASH_WRITE_ENABLE_CMD t)))))"
    by (simp add: flash_erase_sector_d_def irq_disable_def wd_clear_def t Let_def)
  ultimately show ?thesis using vv(3) by (simp only: 1 d v [symmetric]) (simp add: irq_restore_def)
qed

text \<open>
The wait for the end of a cycle gives up silently after ten million status reads. If the chip needs
longer, the page is still written, but the next erase is ignored by the busy chip and nobody is told.
\<close>

theorem slow_chip_loses_next_erase:
  assumes "idle s" "wip s = 0" "\<not> deep s" "\<not> wel s" "10000000 < latency s" "0 < len" "len \<le> length buf"
  shows "let t = flash_write_page_256 a len buf s
     in cells t = nor_program (unat a mod 2 ^ 24) (take len buf) (cells s) \<and> cells (flash_erase_sector_d b t) = cells t"
proof -
  obtain t where t: "t = s\<lparr>reg_irq_en := 0\<rparr>" by blast
  obtain m where m: "m = nor_program (unat a mod 2 ^ 24) (take len buf) (cells s)" by blast
  obtain d where d: "mspi_high (fold (\<lambda>i s. mspi_wait (mspi_write (buf ! i) s)) [0..<len]
      (flash_send_addr a (flash_send_cmd FLASH_WRITE_CMD (flash_send_cmd FLASH_WRITE_ENABLE_CMD t)))) =
      (nor_commit (FLASH_WRITE_CMD # addr_bytes a @ take len buf) (t\<lparr>wel := True\<rparr>))\<lparr>reg_mspi_data := d\<rparr>"
    using cycle_frame_idle [of t FLASH_WRITE_CMD buf "[0..<len]" a] map_nth_upt [OF assms(7)] assms(1-4)
    by (auto simp: flash_cmds t idle_def)
  have c: "nor_commit (FLASH_WRITE_CMD # addr_bytes a @ take len buf) (t\<lparr>wel := True\<rparr>) = nor_cycle m (t\<lparr>wel := True\<rparr>)"
    using assms by (subst nor_commit_program) (auto simp: t m)
  obtain u where u: "u = (nor_cycle m (t\<lparr>wel := True\<rparr>))\<lparr>reg_mspi_data := d\<rparr>" by blast
  have uu: "idle u" "\<not> deep u" "cells u = m" "wip u = latency s"
    using assms by (simp_all add: u nor_cycle_def idle_def t)
  obtain e where e: "flash_wait_done u = u\<lparr>reg_mspi_data := e, wip := wip u - 10000000\<rparr>"
    using wait_done_idle [OF uu(1,2)] by blast
  have "flash_write_page_256 a len buf s = irq_restore (reg_irq_en s) (flash_wait_done (mspi_high (fold (\<lambda>i s. mspi_wait (mspi_write (buf ! i) s)) [0..<len]
      (flash_send_addr a (flash_send_cmd FLASH_WRITE_CMD (flash_send_cmd FLASH_WRITE_ENABLE_CMD t))))))"
    by (simp add: flash_write_page_256_def irq_disable_def t Let_def)
  then have w: "flash_write_page_256 a len buf s = u\<lparr>reg_mspi_data := e, wip := wip u - 10000000, reg_irq_en := reg_irq_en s\<rparr>"
    by (simp only: d c u [symmetric] e irq_restore_def)
  have "cells (flash_erase_sector_d b (flash_write_page_256 a len buf s)) = cells (flash_write_page_256 a len buf s)"
    unfolding w by (rule busy_cycle_lost) (use uu assms in \<open>simp_all add: idle_def\<close>)
  moreover have "cells (flash_write_page_256 a len buf s) = m" by (simp add: w uu)
  ultimately show ?thesis by (simp add: m Let_def)
qed

lemma slow_chip_loses_next_erase_witness:
  "let t = flash_write_page_256 0x1000 1 [7] (blank_chip\<lparr>latency := 20000000\<rparr>) in cells (flash_erase_sector_d 0x1000 t) = cells t"
  using slow_chip_loses_next_erase [of "blank_chip\<lparr>latency := 20000000\<rparr>" 1 "[7]" "0x1000" "0x1000"]
  by (simp add: Let_def blank_chip_def idle_def)

end
