(* ===== verification/FlashExt.thy ===== *)
theory FlashExt
  imports Prelude FlashDrv
begin

text \<open>
  The rest of \<open>drivers/8258/flash.c\<close>: adaptation to the capacity of the chip, the value logs of the HomeKit
  configuration (\<open>HOMEKIT_EN\<close>), and the maintenance operations that the file keeps under \<open>#if 0\<close>. They are
  built on the operations of \<open>FlashDrv\<close>.
\<close>

section \<open>Capacity\<close>

record flash_ext = spi_drv +
  flash_capacity :: u8
  flash_sector_mac_address :: u32
  flash_sector_calibration :: u32

definition FLASH_SIZE_1M :: u8 where "FLASH_SIZE_1M = 0x14"
definition CFG_ADR_MAC_512K_FLASH :: u32 where "CFG_ADR_MAC_512K_FLASH = 0x76000"
definition CFG_ADR_MAC_1M_FLASH :: u32 where "CFG_ADR_MAC_1M_FLASH = 0xFF000"
definition CFG_ADR_CALIBRATION_1M_FLASH :: u32 where "CFG_ADR_CALIBRATION_1M_FLASH = 0xFE000"

lemmas capacity_consts = FLASH_SIZE_1M_def CFG_ADR_MAC_512K_FLASH_def CFG_ADR_MAC_1M_FLASH_def CFG_ADR_CALIBRATION_1M_FLASH_def

definition flash_set_capacity :: "u8 \<Rightarrow> 'a flash_ext_scheme \<Rightarrow> 'a flash_ext_scheme" where
  "flash_set_capacity flash_cap s = s\<lparr>flash_capacity := flash_cap\<rparr>"

definition flash_get_capacity :: "'a flash_ext_scheme \<Rightarrow> u8" where
  "flash_get_capacity s = flash_capacity s"

text \<open>
  \<open>mac_code\<close> is \<open>CFG_SECTOR_ADR_MAC_CODE\<close> of the build. \<open>None\<close> is the endless loop that a build for 1 MB
  flash enters on a smaller chip.
\<close>

definition blc_readFlashSize_autoConfigCustomFlashSector :: "u32 \<Rightarrow> 'a flash_ext_scheme \<Rightarrow> 'a flash_ext_scheme option" where
  "blc_readFlashSize_autoConfigCustomFlashSector mac_code s =
     (let (temp_buf, s) = flash_read_mid s; flash_cap = temp_buf ! 2 in
      if CFG_ADR_MAC_512K_FLASH = mac_code
      then if flash_cap = FLASH_SIZE_1M
           then let (mac_512, s) = flash_read_page_d CFG_ADR_MAC_512K_FLASH 6 s;
                    (mac_1M, s) = flash_read_page_d CFG_ADR_MAC_1M_FLASH 6 s;
                    mac_null = replicate 6 0xff
                in Some (flash_set_capacity flash_cap
                     (if mac_512 = mac_null \<and> mac_1M \<noteq> mac_null
                      then s\<lparr>flash_sector_mac_address := CFG_ADR_MAC_1M_FLASH,
                             flash_sector_calibration := CFG_ADR_CALIBRATION_1M_FLASH\<rparr>
                      else s))
           else Some (flash_set_capacity flash_cap s)
      else if CFG_ADR_MAC_1M_FLASH = mac_code \<and> flash_cap \<noteq> FLASH_SIZE_1M then None
      else Some (flash_set_capacity flash_cap s))"

section \<open>Value logs\<close>

definition le_bytes :: "u32 \<Rightarrow> u8 list" where
  "le_bytes v = [ucast v, ucast (drop_bit 8 v), ucast (drop_bit 16 v), ucast (drop_bit 24 v)]"

definition le_word :: "u8 list \<Rightarrow> u32" where
  "le_word b = ucast (b ! 0) OR push_bit 8 (ucast (b ! 1)) OR push_bit 16 (ucast (b ! 2)) OR push_bit 24 (ucast (b ! 3))"

text \<open>The \<open>do while\<close> loop; \<open>ns\<close> is the room in the current page and never zero.\<close>

function write_data_loop :: "u32 \<Rightarrow> nat \<Rightarrow> u8 list \<Rightarrow> nat \<Rightarrow> 'a spi_drv_scheme \<Rightarrow> 'a spi_drv_scheme" where
  "write_data_loop addr len buf ns s =
     (let nw = (if len > ns then ns else len); s = flash_write_page_d addr nw buf s in
      if len - nw > 0 \<and> nw > 0 then write_data_loop (addr + of_nat nw) (len - nw) (drop nw buf) 256 s else s)"
  by pat_completeness auto

termination
  by (relation "measure (\<lambda>(a, len, b, ns, s). len)") (auto simp: Let_def)

declare write_data_loop.simps [simp del]

definition flash_write_data :: "u32 \<Rightarrow> nat \<Rightarrow> u8 list \<Rightarrow> 'a spi_drv_scheme \<Rightarrow> 'a spi_drv_scheme" where
  "flash_write_data addr len buf s = write_data_loop addr len buf (256 - unat (addr AND 0xff)) s"

definition slot :: "u32 \<Rightarrow> nat \<Rightarrow> u32" where
  "slot adr i = adr + of_nat (i * 4)"

definition read_word :: "u32 \<Rightarrow> 'a spi_drv_scheme \<Rightarrow> u32 \<times> 'a spi_drv_scheme" where
  "read_word a s = (let (b, s) = flash_read_page_d a 4 s in (le_word b, s))"

text \<open>The loops return the index at which they stopped; the body of the value write is the same up to the limit.\<close>

function write_val_loop :: "u32 \<Rightarrow> u32 \<Rightarrow> nat \<Rightarrow> 'a spi_drv_scheme \<Rightarrow> nat \<times> 'a spi_drv_scheme" where
  "write_val_loop adr flag_invalid i s =
     (if i < 1024 then
        let (p, s) = read_word (slot adr i) s in
        if p = 0xffffffff then (i, s)
        else if p \<noteq> flag_invalid
        then (if i = 1023 then (0, flash_erase_sector_d adr s)
              else (i + 1, flash_write_data (slot adr i) 4 (le_bytes flag_invalid) s))
        else write_val_loop adr flag_invalid (i + 1) s
      else (i, s))"
  by pat_completeness auto

termination
  by (relation "measure (\<lambda>(a, f, i, s). 1024 - i)") auto

declare write_val_loop.simps [simp del]

definition flash_write_val :: "u32 \<Rightarrow> u32 \<Rightarrow> u32 \<Rightarrow> 'a spi_drv_scheme \<Rightarrow> 'a spi_drv_scheme" where
  "flash_write_val adr flag_invalid dat s =
     (let (i, s) = write_val_loop adr flag_invalid 0 s in flash_write_data (slot adr i) 4 (le_bytes dat) s)"

text \<open>Scan of a log in steps of \<open>step\<close> words; a step of zero never leaves an invalid mark behind.\<close>

datatype scan = Stopped nat | Found nat u32 | Endless

function read_val_loop :: "u32 \<Rightarrow> u32 \<Rightarrow> nat \<Rightarrow> nat \<Rightarrow> nat \<Rightarrow> 'a spi_drv_scheme \<Rightarrow> scan \<times> 'a spi_drv_scheme" where
  "read_val_loop adr flag_invalid limit step i s =
     (if i < limit then
        let (p, s) = read_word (slot adr i) s in
        if p = 0xffffffff then (Stopped i, s)
        else if p \<noteq> flag_invalid then (Found i p, s)
        else if step = 0 then (Endless, s)
        else read_val_loop adr flag_invalid limit step (i + step) s
      else (Stopped i, s))"
  by pat_completeness auto

termination
  by (relation "measure (\<lambda>(a, f, l, st, i, s). l - i)") auto

declare read_val_loop.simps [simp del]

definition flash_read_val :: "u32 \<Rightarrow> u32 \<Rightarrow> 'a spi_drv_scheme \<Rightarrow> u32 \<times> 'a spi_drv_scheme" where
  "flash_read_val adr flag_invalid s =
     (case read_val_loop adr flag_invalid 1024 1 0 s of
        (Found i p, s) \<Rightarrow> (p, s)
      | (Endless, s) \<Rightarrow> (flag_invalid, s)
      | (Stopped i, s) \<Rightarrow> (flag_invalid, if 1000 < i then flash_erase_sector_d adr s else s))"

text \<open>
  \<open>flash_write_long_val\<close> stores a value of \<open>len\<close> bytes in slots of \<open>len / 4\<close> words. A step of zero
  words (\<open>len < 4\<close>) makes the loop endless when the first word is the invalid mark: \<open>None\<close>.
\<close>

function write_long_loop :: "u32 \<Rightarrow> u32 \<Rightarrow> nat \<Rightarrow> nat \<Rightarrow> 'a spi_drv_scheme \<Rightarrow> (nat \<times> 'a spi_drv_scheme) option" where
  "write_long_loop adr flag_invalid data_len i s =
     (if i < 1024 - data_len then
        let (p, s) = read_word (slot adr i) s in
        if p = 0xffffffff then Some (i, s)
        else if p \<noteq> flag_invalid
        then (if i \<ge> 1024 - data_len then Some (0, flash_erase_sector_d adr s)
              else Some (i + data_len, flash_write_data (slot adr i) 4 (le_bytes flag_invalid) s))
        else if data_len = 0 then None
        else write_long_loop adr flag_invalid data_len (i + data_len) s
      else Some (i, s))"
  by pat_completeness auto

termination
  by (relation "measure (\<lambda>(a, f, d, i, s). 1024 - i)") auto

declare write_long_loop.simps [simp del]

definition flash_write_long_val :: "u32 \<Rightarrow> u32 \<Rightarrow> u8 list \<Rightarrow> u8 \<Rightarrow> 'a spi_drv_scheme \<Rightarrow> 'a spi_drv_scheme option" where
  "flash_write_long_val adr flag_invalid dat len s =
     (case write_long_loop adr flag_invalid (unat len div 4) 0 s of
        None \<Rightarrow> None
      | Some (i, s) \<Rightarrow> Some (flash_write_data (slot adr i) (unat len) dat s))"

text \<open>The result is the returned word, the bytes stored to \<open>dat\<close> if any, and the state; \<open>None\<close> is the endless loop.\<close>

definition flash_read_long_val :: "u32 \<Rightarrow> u32 \<Rightarrow> u8 \<Rightarrow> 'a spi_drv_scheme \<Rightarrow> (u32 \<times> u8 list option \<times> 'a spi_drv_scheme) option" where
  "flash_read_long_val adr flag_invalid len s =
     (let data_len = (unat len + 3) div 4 in
      case read_val_loop adr flag_invalid (1024 - data_len) data_len 0 s of
        (Found i p, s) \<Rightarrow> (let (dat, s) = flash_read_page_d (slot adr i) (unat len) s in Some (p, Some dat, s))
      | (Endless, s) \<Rightarrow> None
      | (Stopped i, s) \<Rightarrow> Some (flag_invalid, None, if 1000 \<le> i then flash_erase_sector_d adr s else s))"

function subregion_write_loop :: "u32 \<Rightarrow> u32 \<Rightarrow> nat \<Rightarrow> nat \<Rightarrow> 'a spi_drv_scheme \<Rightarrow> nat option \<times> 'a spi_drv_scheme" where
  "subregion_write_loop adr flag_invalid num i s =
     (if i < num then
        let (p, s) = read_word (slot adr i) s in
        if p = 0xffffffff then (Some i, s)
        else if p \<noteq> flag_invalid
        then (if i \<ge> num - 1 then (None, s)
              else (Some (i + 1), flash_write_data (slot adr i) 4 (le_bytes flag_invalid) s))
        else subregion_write_loop adr flag_invalid num (i + 1) s
      else (Some i, s))"
  by pat_completeness auto

termination
  by (relation "measure (\<lambda>(a, f, n, i, s). n - i)") auto

declare subregion_write_loop.simps [simp del]

definition flash_subregion_write_val :: "u32 \<Rightarrow> u32 \<Rightarrow> u32 \<Rightarrow> nat \<Rightarrow> 'a spi_drv_scheme \<Rightarrow> u32 \<times> 'a spi_drv_scheme" where
  "flash_subregion_write_val adr flag_invalid dat num s =
     (case subregion_write_loop adr flag_invalid num 0 s of
        (None, s) \<Rightarrow> (flag_invalid, s)
      | (Some i, s) \<Rightarrow> (1, flash_write_data (slot adr i) 4 (le_bytes dat) s))"

definition flash_subregion_read_val :: "u32 \<Rightarrow> u32 \<Rightarrow> nat \<Rightarrow> 'a spi_drv_scheme \<Rightarrow> u32 \<times> 'a spi_drv_scheme" where
  "flash_subregion_read_val adr flag_invalid num s =
     (case read_val_loop adr flag_invalid num 1 0 s of
        (Found i p, s) \<Rightarrow> (p, s)
      | (r, s) \<Rightarrow> (flag_invalid, s))"

section \<open>Adapting to the chip\<close>

lemma read_mid_ready:
  assumes "ready s" "3 \<le> length (jedec s)"
  shows "\<exists>d. flash_read_mid s = (take 3 (jedec s), s\<lparr>reg_mspi_data := d\<rparr>)"
proof -
  obtain t where t: "t = s\<lparr>reg_irq_en := 0, selected := True, frame := [FLASH_GET_JEDEC_ID], reg_mspi_data := 0xFF\<rparr>" by blast
  have 1: "flash_send_cmd FLASH_GET_JEDEC_ID (s\<lparr>reg_irq_en := 0\<rparr>) = t"
    using assms(1) by (simp add: send_cmd_idle ready_def idle_def t)
  obtain e where e: "read_tail 3 t = (map (\<lambda>i. nor_reply ([FLASH_GET_JEDEC_ID] @ replicate i 0) t) [0..<3],
      t\<lparr>selected := False, frame := [], rd_mode := False, reg_mspi_data := e\<rparr>)"
    using read_tail_frame [of t "[FLASH_GET_JEDEC_ID]" 3] cmd_not_status by (auto simp: t)
  have r: "nor_reply ([FLASH_GET_JEDEC_ID] @ replicate i 0) t = jedec s ! i" if "i < 3" for i
    using assms that by (simp add: nor_reply_def t ready_def FLASH_GET_JEDEC_ID_def)
  have "map (\<lambda>i. nor_reply ([FLASH_GET_JEDEC_ID] @ replicate i 0) t) [0..<3] = take 3 (jedec s)"
    by (rule nth_equalityI) (use assms(2) r in simp_all)
  moreover have "flash_read_mid s = (let (b, s') = read_tail 3 t in (b, irq_restore (reg_irq_en s) s'))"
    by (simp add: flash_read_mid_def read_tail_def irq_disable_def 1 Let_def split_beta)
  moreover have "irq_restore (reg_irq_en s) (t\<lparr>selected := False, frame := [], rd_mode := False, reg_mspi_data := e\<rparr>) = s\<lparr>reg_mspi_data := e\<rparr>"
    using assms(1) by (cases s) (simp add: irq_restore_def t ready_def idle_def)
  ultimately show ?thesis unfolding e by auto
qed

text \<open>
  A 512 KB build takes the capacity from the chip and moves to the addresses of a 1 MB chip exactly when the
  chip has 1 MB, the old place is blank and the new one is not.
\<close>

lemma capacity_adapts:
  assumes "ready s" "3 \<le> length (jedec s)"
  shows "\<exists>t. blc_readFlashSize_autoConfigCustomFlashSector CFG_ADR_MAC_512K_FLASH s = Some t \<and>
    flash_get_capacity t = jedec s ! 2 \<and> ready t \<and>
    flash_sector_mac_address t =
      (if jedec s ! 2 = FLASH_SIZE_1M \<and> (\<forall>i<6. cells s (0x76000 + i) = 0xff) \<and> (\<exists>i<6. cells s (0xFF000 + i) \<noteq> 0xff)
       then CFG_ADR_MAC_1M_FLASH else flash_sector_mac_address s)"
proof -
  obtain d where d: "flash_read_mid s = (take 3 (jedec s), s\<lparr>reg_mspi_data := d\<rparr>)"
    using read_mid_ready [OF assms] by blast
  obtain t where t: "t = s\<lparr>reg_mspi_data := d\<rparr>" by blast
  have r: "ready t" using assms(1) by (simp add: t)
  obtain e where e: "flash_read_page_d CFG_ADR_MAC_512K_FLASH 6 t = (map (\<lambda>i. cells s (0x76000 + i)) [0..<6], t\<lparr>reg_mspi_data := e\<rparr>)"
    using read_page_ready [OF r, of CFG_ADR_MAC_512K_FLASH 6] by (auto simp: capacity_consts t)
  obtain u where u: "u = t\<lparr>reg_mspi_data := e\<rparr>" by blast
  have ru: "ready u" using r by (simp add: u)
  obtain f where f: "flash_read_page_d CFG_ADR_MAC_1M_FLASH 6 u = (map (\<lambda>i. cells s (0xFF000 + i)) [0..<6], u\<lparr>reg_mspi_data := f\<rparr>)"
    using read_page_ready [OF ru, of CFG_ADR_MAC_1M_FLASH 6] by (auto simp: capacity_consts t u)
  have n: "(map (\<lambda>i. cells s (k + i)) [0..<6] = replicate 6 0xff) = (\<forall>i<6. cells s (k + i) = 0xff)" for k
    by (auto simp: list_eq_iff_nth_eq)
  obtain v where v: "v = u\<lparr>reg_mspi_data := f\<rparr>" by blast
  have "blc_readFlashSize_autoConfigCustomFlashSector CFG_ADR_MAC_512K_FLASH s = Some (flash_set_capacity (jedec s ! 2)
      (if jedec s ! 2 = FLASH_SIZE_1M
       then (if (\<forall>i<6. cells s (0x76000 + i) = 0xff) \<and> (\<exists>i<6. cells s (0xFF000 + i) \<noteq> 0xff)
             then v\<lparr>flash_sector_mac_address := CFG_ADR_MAC_1M_FLASH, flash_sector_calibration := CFG_ADR_CALIBRATION_1M_FLASH\<rparr>
             else v) else t))"
    using assms(2) n [of "0x76000"] n [of "0xFF000"]
    by (simp add: blc_readFlashSize_autoConfigCustomFlashSector_def d t [symmetric] e u [symmetric] f v [symmetric] Let_def
      del: upt_rec_numeral)
  then show ?thesis using r
    by (simp add: flash_set_capacity_def flash_get_capacity_def) (auto simp: ready_def idle_def t u v)
qed

section \<open>Words in flash\<close>

definition word_at :: "(nat \<Rightarrow> u8) \<Rightarrow> nat \<Rightarrow> u32" where
  "word_at m a = le_word (map (\<lambda>i. m (a + i)) [0..<4])"

lemma le_word_bytes [simp]: "le_word (le_bytes v) = v"
proof (rule bit_word_eqI)
  fix n assume "n < LENGTH(32)"
  then consider "n < 8" | "8 \<le> n \<and> n < 16" | "16 \<le> n \<and> n < 24" | "24 \<le> n \<and> n < 32" by force
  then show "bit (le_word (le_bytes v)) n = bit v n"
    by cases (auto simp: le_word_def le_bytes_def bit_simps)
qed

lemma word_at_cong: "(\<And>i. i < 4 \<Longrightarrow> m (a + i) = m' (a + i)) \<Longrightarrow> word_at m a = word_at m' a"
  unfolding word_at_def by (rule arg_cong [where f = le_word]) simp

lemma word_at_simp: "word_at m a = ucast (m a) OR push_bit 8 (ucast (m (a + 1))) OR push_bit 16 (ucast (m (a + 2)))
    OR push_bit 24 (ucast (m (a + 3)))"
  by (simp add: word_at_def le_word_def upt_rec numeral_eq_Suc)

lemma le_word_and: "ucast (a0 AND b0 :: u8) OR push_bit 8 (ucast (a1 AND b1 :: u8)) OR push_bit 16 (ucast (a2 AND b2 :: u8)) OR
      push_bit 24 (ucast (a3 AND b3 :: u8)) =
    (ucast a0 OR push_bit 8 (ucast a1) OR push_bit 16 (ucast a2) OR push_bit 24 (ucast a3)) AND
    (ucast b0 OR push_bit 8 (ucast b1) OR push_bit 16 (ucast b2) OR push_bit 24 (ucast b3) :: u32)"
  by (rule bit_word_eqI) (auto simp: bit_simps dest: bit_imp_le_length)

lemma nth_le_bytes: "le_bytes v ! 0 = ucast v" "le_bytes v ! Suc 0 = ucast (drop_bit 8 v)"
  "le_bytes v ! 2 = ucast (drop_bit 16 v)" "le_bytes v ! 3 = ucast (drop_bit 24 v)" "length (le_bytes v) = 4"
  by (simp_all add: le_bytes_def)

lemma word_at_write:
  "word_at (run_ops (page_ops (a + 4 * j) (le_bytes v)) m) (a + 4 * k) =
     (if k = j then word_at m (a + 4 * k) AND v else word_at m (a + 4 * k))"
proof (cases "k = j")
  case True
  have "word_at (run_ops (page_ops (a + 4 * j) (le_bytes v)) m) (a + 4 * j) =
      word_at m (a + 4 * j) AND le_word (le_bytes v)"
    by (simp only: word_at_simp run_page_ops nth_le_bytes)
       (simp add: nth_le_bytes le_word_and le_word_def)
  then show ?thesis using True by simp
next
  case False
  have "\<not> (a + 4 * j \<le> a + 4 * k + i \<and> a + 4 * k + i < a + 4 * j + 4)" if "i < 4" for i
    using False that by presburger
  then have "word_at (run_ops (page_ops (a + 4 * j) (le_bytes v)) m) (a + 4 * k) = word_at m (a + 4 * k)"
    by (intro word_at_cong) (auto simp: run_page_ops nth_le_bytes)
  then show ?thesis using False by simp
qed

lemma word_at_erase:
  assumes "a mod 4096 = 0" "k < 1024"
  shows "word_at (run_ops [Erase a] m) (a + 4 * k) = 0xffffffff"
proof -
  have "a = 4096 * (a div 4096)" using assms(1) mult_div_mod_eq [of 4096 a] by linarith
  note aq = this
  have "(a + 4 * k + i) div 4096 = a div 4096" if "i < 4" for i
  proof (rule div_nat_eqI)
    show "4096 * (a div 4096) \<le> a + 4 * k + i" using aq by linarith
    have "4 * k + i < 4096" using assms(2) that by simp
    then show "a + 4 * k + i < 4096 * Suc (a div 4096)" using aq by (simp only: mult_Suc_right)
  qed
  then have "word_at (run_ops [Erase a] m) (a + 4 * k) = word_at (\<lambda>_. 0xff) (a + 4 * k)"
    by (intro word_at_cong) simp
  then show ?thesis by (simp add: word_at_simp)
qed

text \<open>\<open>reaches m s t\<close>: from \<open>s\<close> to \<open>t\<close> only the cells, the data register and the watchdog have changed.\<close>

definition reaches :: "(nat \<Rightarrow> u8) \<Rightarrow> 'a spi_drv_scheme \<Rightarrow> 'a spi_drv_scheme \<Rightarrow> bool" where
  "reaches m s t = (\<exists>d w. t = s\<lparr>cells := m, reg_mspi_data := d, wd_clears := w\<rparr>)"

lemma reaches_trans:
  assumes "reaches m s t" "reaches m' t u"
  shows "reaches m' s u"
proof -
  obtain d w e x where "t = s\<lparr>cells := m, reg_mspi_data := d, wd_clears := w\<rparr>"
    "u = t\<lparr>cells := m', reg_mspi_data := e, wd_clears := x\<rparr>" using assms by (auto simp: reaches_def)
  then have "u = s\<lparr>cells := m', reg_mspi_data := e, wd_clears := x\<rparr>" by simp
  then show ?thesis unfolding reaches_def by blast
qed

lemma reaches_cells: "reaches m s t \<Longrightarrow> cells t = m"
  by (auto simp: reaches_def)

lemma reaches_ready: "reaches m s t \<Longrightarrow> ready t = ready s"
  by (auto simp: reaches_def)

lemma reaches_refl: "reaches (cells s) s s"
  unfolding reaches_def by (rule exI [of _ "reg_mspi_data s"], rule exI [of _ "wd_clears s"]) simp

lemma read_page_reaches:
  assumes "ready s" "unat a + n \<le> 2 ^ 24"
  shows "\<exists>t. flash_read_page_d a n s = (map (\<lambda>i. cells s (unat a + i)) [0..<n], t) \<and> reaches (cells s) s t"
proof -
  obtain d where "flash_read_page_d a n s = (map (\<lambda>i. cells s (unat a + i)) [0..<n], s\<lparr>reg_mspi_data := d\<rparr>)"
    using read_page_ready [OF assms] by blast
  moreover have "reaches (cells s) s (s\<lparr>reg_mspi_data := d\<rparr>)"
    unfolding reaches_def by (rule exI [of _ d], rule exI [of _ "wd_clears s"]) simp
  ultimately show ?thesis by blast
qed

lemma read_word_reaches:
  assumes "ready s" "unat a + 4 \<le> 2 ^ 24"
  shows "\<exists>t. read_word a s = (word_at (cells s) (unat a), t) \<and> reaches (cells s) s t"
  using read_page_reaches [OF assms] by (auto simp: read_word_def word_at_def)

lemma write_page_reaches:
  assumes "ready s" "len \<le> length b" "unat a + len \<le> 2 ^ 24"
  shows "reaches (run_ops (page_ops (unat a) (take len b)) (cells s)) s (flash_write_page_d a len b s)"
proof -
  obtain d where "flash_write_page_d a len b s =
      s\<lparr>cells := run_ops (page_ops (unat a) (take len b)) (cells s), reg_mspi_data := d\<rparr>"
    using write_page_ready [OF assms] by blast
  then show ?thesis
    unfolding reaches_def by (intro exI [of _ d] exI [of _ "wd_clears s"]) simp
qed

lemma erase_reaches:
  assumes "ready s" "unat a < 2 ^ 24"
  shows "reaches (run_ops [Erase (unat a)] (cells s)) s (flash_erase_sector_d a s)"
proof -
  obtain d where "flash_erase_sector_d a s = s\<lparr>cells := run_ops [Erase (unat a)] (cells s), wd_clears := wd_clears s + 1, reg_mspi_data := d\<rparr>"
    using erase_sector_ready [OF assms(1), of a] assms(2) unfolding nor_erase_sector by auto
  then have "flash_erase_sector_d a s = s\<lparr>cells := run_ops [Erase (unat a)] (cells s), reg_mspi_data := d, wd_clears := wd_clears s + 1\<rparr>"
    by (cases s) simp
  then show ?thesis unfolding reaches_def by blast
qed

lemma write_data_reaches:
  assumes "ready s" "len \<le> length b" "unat a + len \<le> 2 ^ 24"
  shows "reaches (run_ops (page_ops (unat a) (take len b)) (cells s)) s (flash_write_data a len b s)"
proof -
  have "0 < ns \<Longrightarrow> ready s \<Longrightarrow> len \<le> length b \<Longrightarrow> unat a + len \<le> 2 ^ 24 \<Longrightarrow>
      reaches (run_ops (page_ops (unat a) (take len b)) (cells s)) s (write_data_loop a len b ns s)" for ns
  proof (induction len arbitrary: a b ns s rule: less_induct)
    case (less len)
    show ?case
    proof (cases "ns < len")
      case True
      obtain t where t: "t = flash_write_page_d a ns b s" by blast
      have r: "reaches (run_ops (page_ops (unat a) (take ns b)) (cells s)) s t"
        unfolding t by (rule write_page_reaches) (use True less.prems in simp_all)
      have ua: "unat (a + of_nat ns) = unat a + ns"
        using True less.prems(4) by (simp add: unat_word_ariths unat_of_nat_u32)
      have "reaches (run_ops (page_ops (unat (a + of_nat ns)) (take (len - ns) (drop ns b))) (cells t)) t
          (write_data_loop (a + of_nat ns) (len - ns) (drop ns b) 256 t)"
        by (rule less.IH) (use True less.prems reaches_ready [OF r] in \<open>simp_all add: ua\<close>)
      then have u: "reaches (run_ops (page_ops (unat a + ns) (take (len - ns) (drop ns b))) (cells t)) s
          (write_data_loop (a + of_nat ns) (len - ns) (drop ns b) 256 t)"
        using reaches_trans [OF r] by (simp add: ua)
      have "take len b = take ns b @ take (len - ns) (drop ns b)"
        using True by (metis le_add_diff_inverse less_imp_le take_add)
      moreover have "length (take ns b) = ns" using True less.prems(3) by simp
      ultimately have "run_ops (page_ops (unat a) (take len b)) (cells s) =
          run_ops (page_ops (unat a + ns) (take (len - ns) (drop ns b))) (cells t)"
        by (simp add: page_ops_append reaches_cells [OF r])
      moreover have "write_data_loop a len b ns s = write_data_loop (a + of_nat ns) (len - ns) (drop ns b) 256 t"
        using True less.prems(1) by (subst write_data_loop.simps) (simp add: t Let_def)
      ultimately show ?thesis using u by simp
    next
      case False
      then have "write_data_loop a len b ns s = flash_write_page_d a len b s"
        by (subst write_data_loop.simps) (simp add: Let_def)
      then show ?thesis using write_page_reaches [OF less.prems(2-4)] by simp
    qed
  qed
  moreover have "0 < 256 - unat (a AND 0xff)"
  proof -
    have "a AND 0xff = take_bit 8 a" by (simp add: take_bit_eq_mask mask_eq_exp_minus_1)
    then show ?thesis by (simp add: unsigned_take_bit_eq take_bit_eq_mod unat_mod_distrib)
  qed
  ultimately show ?thesis using assms unfolding flash_write_data_def by blast
qed

lemma unat_slot: "unat adr + 4 * i < 2 ^ 32 \<Longrightarrow> unat (slot adr i) = unat adr + 4 * i"
  by (simp add: slot_def unat_word_ariths unat_of_nat_u32 mult.commute)

section \<open>The value log\<close>

text \<open>
  \<open>log_state m a n v\<close>: the words below \<open>n\<close> are used up, word \<open>n\<close> holds the value (\<open>None\<close>: is blank), and the
  words above are blank. The invalid mark is zero, as in all calls of the firmware.
\<close>

definition log_state :: "(nat \<Rightarrow> u8) \<Rightarrow> nat \<Rightarrow> nat \<Rightarrow> u32 option \<Rightarrow> bool" where
  "log_state m a n v = (n < 1024 \<and> (\<forall>j<n. word_at m (a + 4 * j) = 0) \<and>
     (\<forall>j. n < j \<and> j < 1024 \<longrightarrow> word_at m (a + 4 * j) = 0xffffffff) \<and>
     (case v of None \<Rightarrow> word_at m (a + 4 * n) = 0xffffffff
      | Some x \<Rightarrow> word_at m (a + 4 * n) = x \<and> x \<noteq> 0 \<and> x \<noteq> 0xffffffff))"

lemma read_slot:
  assumes "ready s" "unat adr + 4096 \<le> 2 ^ 24" "i < 1024"
  shows "\<exists>t. read_word (slot adr i) s = (word_at (cells s) (unat adr + 4 * i), t) \<and> reaches (cells s) s t"
  using read_word_reaches [OF assms(1), of "slot adr i"] assms(2,3) by (simp add: unat_slot)

lemma write_val_loop_skip:
  assumes "ready s" "unat adr + 4096 \<le> 2 ^ 24" "\<And>j. i \<le> j \<Longrightarrow> j < n \<Longrightarrow> word_at (cells s) (unat adr + 4 * j) = 0" "i \<le> n" "n < 1024"
  shows "\<exists>t. write_val_loop adr 0 i s = write_val_loop adr 0 n t \<and> reaches (cells s) s t"
  using assms
proof (induction "n - i" arbitrary: i s)
  case 0
  then show ?case using reaches_refl by auto
next
  case (Suc d)
  have i: "i < n" "i < 1024" using Suc.prems(5) Suc.hyps(2) by linarith+
  obtain t where t: "read_word (slot adr i) s = (0, t)" "reaches (cells s) s t"
    using read_slot [OF Suc.prems(1,2), of i] Suc.prems(3) [of i] i by auto
  have "\<exists>u. write_val_loop adr 0 (Suc i) t = write_val_loop adr 0 n u \<and> reaches (cells t) t u"
    by (rule Suc.hyps(1)) (use Suc.prems Suc.hyps(2) reaches_ready [OF t(2)] reaches_cells [OF t(2)] in auto)
  then obtain u where "write_val_loop adr 0 (Suc i) t = write_val_loop adr 0 n u" "reaches (cells s) t u"
    using reaches_cells [OF t(2)] by auto
  moreover have "write_val_loop adr 0 i s = write_val_loop adr 0 (Suc i) t"
    using i(2) by (subst write_val_loop.simps) (simp add: t)
  ultimately show ?case using reaches_trans [OF t(2)] by metis
qed

lemma read_val_loop_skip:
  assumes "ready s" "unat adr + 4096 \<le> 2 ^ 24" "\<And>j. i \<le> j \<Longrightarrow> j < n \<Longrightarrow> word_at (cells s) (unat adr + 4 * j) = 0" "i \<le> n" "n < 1024"
  shows "\<exists>t. read_val_loop adr 0 1024 1 i s = read_val_loop adr 0 1024 1 n t \<and> reaches (cells s) s t"
  using assms
proof (induction "n - i" arbitrary: i s)
  case 0
  then show ?case using reaches_refl by auto
next
  case (Suc d)
  have i: "i < n" "i < 1024" using Suc.prems(5) Suc.hyps(2) by linarith+
  obtain t where t: "read_word (slot adr i) s = (0, t)" "reaches (cells s) s t"
    using read_slot [OF Suc.prems(1,2), of i] Suc.prems(3) [of i] i by auto
  have "\<exists>u. read_val_loop adr 0 1024 1 (Suc i) t = read_val_loop adr 0 1024 1 n u \<and> reaches (cells t) t u"
    by (rule Suc.hyps(1)) (use Suc.prems Suc.hyps(2) reaches_ready [OF t(2)] reaches_cells [OF t(2)] in auto)
  then obtain u where "read_val_loop adr 0 1024 1 (Suc i) t = read_val_loop adr 0 1024 1 n u" "reaches (cells s) t u"
    using reaches_cells [OF t(2)] by auto
  moreover have "read_val_loop adr 0 1024 1 i s = read_val_loop adr 0 1024 1 (Suc i) t"
    using i(2) by (subst read_val_loop.simps) (simp add: t)
  ultimately show ?case using reaches_trans [OF t(2)] by metis
qed

text \<open>Writing a word into slot \<open>n\<close>.\<close>

lemma write_slot:
  assumes "ready s" "unat adr + 4096 \<le> 2 ^ 24" "n < 1024" "unat adr mod 4096 = 0"
  obtains m where "reaches m s (flash_write_data (slot adr n) 4 (le_bytes v) s)"
    "\<And>j. word_at m (unat adr + 4 * j) = (if j = n then word_at (cells s) (unat adr + 4 * j) AND v
        else word_at (cells s) (unat adr + 4 * j))"
    "\<And>x. x div 4096 \<noteq> unat adr div 4096 \<Longrightarrow> m x = cells s x"
proof
  let ?m = "run_ops (page_ops (unat adr + 4 * n) (le_bytes v)) (cells s)"
  show "reaches ?m s (flash_write_data (slot adr n) 4 (le_bytes v) s)"
    using write_data_reaches [OF assms(1), of 4 "le_bytes v" "slot adr n"] assms(2,3)
    by (simp add: unat_slot nth_le_bytes)
  show "word_at ?m (unat adr + 4 * j) = (if j = n then word_at (cells s) (unat adr + 4 * j) AND v
      else word_at (cells s) (unat adr + 4 * j))" for j
    by (rule word_at_write)
  show "?m x = cells s x" if "x div 4096 \<noteq> unat adr div 4096" for x
  proof -
    have "unat adr = 4096 * (unat adr div 4096)" using assms(4) mult_div_mod_eq [of 4096 "unat adr"] by linarith
    then have "\<not> (unat adr + 4 * n \<le> x \<and> x < unat adr + 4 * n + 4)"
      using that assms(3) div_nat_eqI [of 4096 "unat adr div 4096" x] by fastforce
    then show ?thesis unfolding run_page_ops nth_le_bytes by (simp only: if_False)
  qed
qed

lemma and_all_ones [simp]: "(0xffffffff :: u32) AND v = v"
proof -
  have "(0xffffffff :: u32) = -1" by simp
  then show ?thesis by (simp only: and.left_neutral)
qed

lemma log_put:
  assumes "n < 1024" "\<And>j. j < n \<Longrightarrow> word_at m (a + 4 * j) = 0" "\<And>j. n \<le> j \<Longrightarrow> j < 1024 \<Longrightarrow> word_at m (a + 4 * j) = 0xffffffff"
    "\<And>j. word_at m' (a + 4 * j) = (if j = n then word_at m (a + 4 * j) AND dat else word_at m (a + 4 * j))"
    "dat \<noteq> 0" "dat \<noteq> 0xffffffff"
  shows "log_state m' a n (Some dat)"
  unfolding log_state_def
proof (intro conjI allI impI)
  show "word_at m' (a + 4 * j) = 0" if "j < n" for j
    unfolding assms(4) using that assms(2) by simp
  show "word_at m' (a + 4 * j) = 0xffffffff" if "n < j \<and> j < 1024" for j
    unfolding assms(4) using that assms(3) by simp
  have "word_at m' (a + 4 * n) = dat"
    unfolding assms(4) using assms(1,3) by simp
  then show "case Some dat of None \<Rightarrow> word_at m' (a + 4 * n) = 0xffffffff
      | Some x \<Rightarrow> word_at m' (a + 4 * n) = x \<and> x \<noteq> 0 \<and> x \<noteq> 0xffffffff"
    using assms(5,6) by simp
qed (rule assms(1))

lemma write_val_log:
  assumes "ready s" "unat adr + 4096 \<le> 2 ^ 24" "unat adr mod 4096 = 0" "log_state (cells s) (unat adr) n v" "dat \<noteq> 0" "dat \<noteq> 0xffffffff"
  shows "\<exists>k m. log_state m (unat adr) k (Some dat) \<and> reaches m s (flash_write_val adr 0 dat s) \<and>
    (\<forall>x. x div 4096 \<noteq> unat adr div 4096 \<longrightarrow> m x = cells s x)"
proof -
  obtain A where A: "A = unat adr" by blast
  note L = assms(4) [unfolded log_state_def A [symmetric]]
  obtain t where t: "write_val_loop adr 0 0 s = write_val_loop adr 0 n t" "reaches (cells s) s t"
    using write_val_loop_skip [OF assms(1,2), of 0 n] L by (auto simp: A)
  have rt: "ready t" "cells t = cells s" using assms(1) reaches_ready [OF t(2)] reaches_cells [OF t(2)] by auto
  obtain u where u: "read_word (slot adr n) t = (word_at (cells s) (A + 4 * n), u)" "reaches (cells s) t u"
    using read_slot [OF rt(1) assms(2), of n] L rt(2) by (auto simp: A)
  have ru: "ready u" "cells u = cells s" "reaches (cells s) s u"
    using rt reaches_ready [OF u(2)] reaches_cells [OF u(2)] reaches_trans [OF t(2) u(2)] by auto
  have n: "n < 1024" using L by simp
  consider (blank) "v = None" | (room) x where "v = Some x" "n \<noteq> 1023" | (full) x where "v = Some x" "n = 1023" by (cases v) auto
  then show ?thesis
  proof cases
    case blank
    then have "write_val_loop adr 0 0 s = (n, u)"
      using L t u by (subst t(1), subst write_val_loop.simps) simp
    then have w: "flash_write_val adr 0 dat s = flash_write_data (slot adr n) 4 (le_bytes dat) u"
      by (simp add: flash_write_val_def)
    obtain m where m: "reaches m u (flash_write_data (slot adr n) 4 (le_bytes dat) u)"
      "\<And>j. word_at m (A + 4 * j) = (if j = n then word_at (cells u) (A + 4 * j) AND dat else word_at (cells u) (A + 4 * j))"
      "\<And>x. x div 4096 \<noteq> A div 4096 \<Longrightarrow> m x = cells u x"
      by (rule write_slot [OF ru(1) assms(2) n assms(3), of dat, folded A], rule that)
    have "log_state m A n (Some dat)"
    proof (rule log_put [OF n _ _ m(2) assms(5,6)], goal_cases)
      case (1 j) then show ?case unfolding ru(2) using L by simp
    next
      case (2 j) then show ?case unfolding ru(2) using L blank by (cases "j = n") simp_all
    qed
    then show ?thesis using w m(1,3) reaches_trans [OF ru(3) m(1)] ru(2) unfolding A by metis
  next
    case (room x)
    then have wx: "word_at (cells s) (A + 4 * n) = x" "x \<noteq> 0" "x \<noteq> 0xffffffff" using L by auto
    obtain m where m: "reaches m u (flash_write_data (slot adr n) 4 (le_bytes 0) u)"
      "\<And>j. word_at m (A + 4 * j) = (if j = n then word_at (cells u) (A + 4 * j) AND 0 else word_at (cells u) (A + 4 * j))"
      "\<And>x. x div 4096 \<noteq> A div 4096 \<Longrightarrow> m x = cells u x"
      by (rule write_slot [OF ru(1) assms(2) n assms(3), of 0, folded A], rule that)
    obtain r where r: "r = flash_write_data (slot adr n) 4 (le_bytes 0) u" by blast
    have rr: "ready r" "cells r = m" using ru(1) reaches_ready [OF m(1)] reaches_cells [OF m(1)] by (auto simp: r)
    have n1: "n + 1 < 1024" using n room(2) by linarith
    obtain m' where m': "reaches m' r (flash_write_data (slot adr (n + 1)) 4 (le_bytes dat) r)"
      "\<And>j. word_at m' (A + 4 * j) = (if j = n + 1 then word_at (cells r) (A + 4 * j) AND dat else word_at (cells r) (A + 4 * j))"
      "\<And>x. x div 4096 \<noteq> A div 4096 \<Longrightarrow> m' x = cells r x"
      by (rule write_slot [OF rr(1) assms(2) n1 assms(3), of dat, folded A], rule that)
    have "write_val_loop adr 0 0 s = (n + 1, r)"
      using n wx room(2) t u by (subst t(1), subst write_val_loop.simps) (simp add: r)
    then have w: "flash_write_val adr 0 dat s = flash_write_data (slot adr (n + 1)) 4 (le_bytes dat) r"
      by (simp add: flash_write_val_def)
    have "word_at m (A + 4 * j) = 0" if "j < n + 1" for j
      unfolding m(2) ru(2) using L that by (cases "j = n") simp_all
    moreover have "word_at m (A + 4 * j) = 0xffffffff" if "n + 1 \<le> j" "j < 1024" for j
      unfolding m(2) ru(2) using L that by simp
    ultimately have "log_state m' A (n + 1) (Some dat)"
      by (rule log_put [OF n1 _ _ m'(2) [unfolded rr(2)] assms(5,6)])
    moreover have "reaches m' s (flash_write_val adr 0 dat s)"
      unfolding w using reaches_trans [OF reaches_trans [OF ru(3) m(1)] m'(1) [unfolded r]] by (simp add: r)
    ultimately show ?thesis using m(3) m'(3) rr(2) ru(2) unfolding A by metis
  next
    case (full x)
    then have wx: "word_at (cells s) (A + 4 * n) = x" "x \<noteq> 0" "x \<noteq> 0xffffffff" using L by auto
    obtain r where r: "r = flash_erase_sector_d adr u" by blast
    obtain m where m: "m = run_ops [Erase A] (cells s)" by blast
    have e: "reaches m u r" using erase_reaches [OF ru(1), of adr] assms(2) ru(2) by (simp add: r m A)
    have rr: "ready r" "cells r = m" using ru(1) reaches_ready [OF e] reaches_cells [OF e] by auto
    obtain m' where m': "reaches m' r (flash_write_data (slot adr 0) 4 (le_bytes dat) r)"
      "\<And>j. word_at m' (A + 4 * j) = (if j = 0 then word_at (cells r) (A + 4 * j) AND dat else word_at (cells r) (A + 4 * j))"
      "\<And>x. x div 4096 \<noteq> A div 4096 \<Longrightarrow> m' x = cells r x"
      by (rule write_slot [OF rr(1) assms(2) _ assms(3), of 0 dat, folded A], simp, rule that)
    have "write_val_loop adr 0 0 s = (0, r)"
      using n wx full(2) t u by (subst t(1), subst write_val_loop.simps) (simp add: r)
    then have w: "flash_write_val adr 0 dat s = flash_write_data (slot adr 0) 4 (le_bytes dat) r"
      by (simp add: flash_write_val_def)
    have blank: "word_at m (A + 4 * j) = 0xffffffff" if "j < 1024" for j
      unfolding m by (rule word_at_erase) (use that assms(3) A in auto)
    have "log_state m' A 0 (Some dat)"
      by (rule log_put [OF _ _ _ m'(2) [unfolded rr(2)] assms(5,6)]) (simp, simp, rule blank)
    moreover have "reaches m' s (flash_write_val adr 0 dat s)"
      unfolding w using reaches_trans [OF reaches_trans [OF ru(3) e] m'(1)] .
    moreover have "m x = cells s x" if "x div 4096 \<noteq> A div 4096" for x using that by (simp add: m)
    ultimately show ?thesis using m'(3) rr(2) unfolding A by metis
  qed
qed

lemma read_val_log:
  assumes "ready s" "unat adr + 4096 \<le> 2 ^ 24" "log_state (cells s) (unat adr) n (Some x)"
  shows "fst (flash_read_val adr 0 s) = x"
proof -
  obtain t where t: "read_val_loop adr 0 1024 1 0 s = read_val_loop adr 0 1024 1 n t" "reaches (cells s) s t"
    using read_val_loop_skip [OF assms(1,2), of 0 n] assms(3) by (auto simp: log_state_def)
  have rt: "ready t" "cells t = cells s" using assms(1) reaches_ready [OF t(2)] reaches_cells [OF t(2)] by auto
  obtain u where "read_word (slot adr n) t = (x, u)"
    using read_slot [OF rt(1) assms(2), of n] assms(3) rt(2) by (auto simp: log_state_def)
  then have "read_val_loop adr 0 1024 1 0 s = (Found n x, u)"
    using assms(3) by (subst t(1), subst read_val_loop.simps) (simp add: log_state_def)
  then show ?thesis by (simp add: flash_read_val_def)
qed

text \<open>
C35: The value log of the HomeKit configuration keeps the last value written. From any state the log can
be in, \<open>flash_write_val\<close> stores the value so that \<open>flash_read_val\<close> returns it, leaves the log in such a state
again (the step from the last word of the sector erases it and starts over), and does not touch other
sectors.
\<close>

theorem value_log_roundtrip:
  assumes "ready s" "unat adr + 4096 \<le> 2 ^ 24" "unat adr mod 4096 = 0" "log_state (cells s) (unat adr) n v"
    "dat \<noteq> 0" "dat \<noteq> 0xffffffff"
  shows "let t = flash_write_val adr 0 dat s
    in fst (flash_read_val adr 0 t) = dat \<and> (\<exists>k. log_state (cells t) (unat adr) k (Some dat)) \<and>
       (\<forall>x. x div 4096 \<noteq> unat adr div 4096 \<longrightarrow> cells t x = cells s x)"
proof -
  obtain t where t: "t = flash_write_val adr 0 dat s" by blast
  obtain k m where m: "log_state m (unat adr) k (Some dat)" "reaches m s t"
    "\<forall>x. x div 4096 \<noteq> unat adr div 4096 \<longrightarrow> m x = cells s x"
    using write_val_log [OF assms] unfolding t by blast
  have "ready t" "cells t = m" using assms(1) reaches_ready [OF m(2)] reaches_cells [OF m(2)] by auto
  then show ?thesis
    using m(1,3) read_val_log [of t adr k dat] assms(2) unfolding t [symmetric] Let_def by blast
qed

lemma value_log_roundtrip_witness:
  "fst (flash_read_val 0x70000 0 (flash_write_val 0x70000 0 42 blank_chip)) = 42"
proof -
  have "log_state (cells blank_chip) (unat (0x70000 :: u32)) 0 None"
    by (simp add: log_state_def blank_chip_def word_at_simp)
  then show ?thesis
    using value_log_roundtrip [of blank_chip "0x70000" 0 None 42] by (simp add: Let_def)
qed

section \<open>Long values\<close>

lemma write_long_loop_used_up:
  assumes "ready s" "unat adr + 4096 \<le> 2 ^ 24" "0 < dl" "dl dvd i" "i < 1024"
    "\<And>j. dl dvd j \<Longrightarrow> j < 1024 - dl \<Longrightarrow> word_at (cells s) (unat adr + 4 * j) = 0"
  shows "\<exists>k t. write_long_loop adr 0 dl i s = Some (k, t) \<and> reaches (cells s) s t \<and> 1024 - dl \<le> k \<and> k < 1024 \<and> dl dvd k"
  using assms
proof (induction "1024 - i" arbitrary: i s rule: less_induct)
  case less
  show ?case
  proof (cases "i < 1024 - dl")
    case False
    then show ?thesis using less.prems(4,5) reaches_refl by (subst write_long_loop.simps) auto
  next
    case True
    obtain t where t: "read_word (slot adr i) s = (0, t)" "reaches (cells s) s t"
      using read_slot [OF less.prems(1,2,5)] less.prems(6) [OF less.prems(4) True] by auto
    have "\<exists>k u. write_long_loop adr 0 dl (i + dl) t = Some (k, u) \<and> reaches (cells t) t u \<and> 1024 - dl \<le> k \<and> k < 1024 \<and> dl dvd k"
      by (rule less.hyps) (use True less.prems reaches_ready [OF t(2)] reaches_cells [OF t(2)] in auto)
    then obtain k u where u: "write_long_loop adr 0 dl (i + dl) t = Some (k, u)" "reaches (cells s) t u"
      "1024 - dl \<le> k" "k < 1024" "dl dvd k"
      using reaches_cells [OF t(2)] by auto
    have "write_long_loop adr 0 dl i s = write_long_loop adr 0 dl (i + dl) t"
      using True less.prems(3) by (subst write_long_loop.simps) (simp add: t)
    then show ?thesis using u reaches_trans [OF t(2) u(2)] by auto
  qed
qed

lemma read_long_loop_used_up:
  assumes "ready s" "unat adr + 4096 \<le> 2 ^ 24" "0 < dl" "dl dvd i" "i < 1024"
    "\<And>j. dl dvd j \<Longrightarrow> j < 1024 - dl \<Longrightarrow> word_at (cells s) (unat adr + 4 * j) = 0"
  shows "\<exists>k t. read_val_loop adr 0 (1024 - dl) dl i s = (Stopped k, t) \<and> reaches (cells s) s t \<and> 1024 - dl \<le> k"
  using assms
proof (induction "1024 - i" arbitrary: i s rule: less_induct)
  case less
  show ?case
  proof (cases "i < 1024 - dl")
    case False
    then show ?thesis using reaches_refl by (subst read_val_loop.simps) auto
  next
    case True
    obtain t where t: "read_word (slot adr i) s = (0, t)" "reaches (cells s) s t"
      using read_slot [OF less.prems(1,2,5)] less.prems(6) [OF less.prems(4) True] by auto
    have "\<exists>k u. read_val_loop adr 0 (1024 - dl) dl (i + dl) t = (Stopped k, u) \<and> reaches (cells t) t u \<and> 1024 - dl \<le> k"
      by (rule less.hyps) (use True less.prems reaches_ready [OF t(2)] reaches_cells [OF t(2)] in auto)
    then obtain k u where u: "read_val_loop adr 0 (1024 - dl) dl (i + dl) t = (Stopped k, u)" "reaches (cells s) t u"
      "1024 - dl \<le> k"
      using reaches_cells [OF t(2)] by auto
    have "read_val_loop adr 0 (1024 - dl) dl i s = read_val_loop adr 0 (1024 - dl) dl (i + dl) t"
      using True less.prems(3) by (subst read_val_loop.simps) (simp add: t)
    then show ?thesis using u reaches_trans [OF t(2) u(2)] by auto
  qed
qed

text \<open>
Once the slots of a long value are used up, the test that should erase the sector can never hold, so
\<open>flash_write_long_val\<close> writes the value into the rest of the sector that \<open>flash_read_long_val\<close> does not
search: the value is not found, and reading it erases the whole sector.
\<close>

theorem long_value_lost_at_sector_end:
  assumes "ready s" "unat adr + 4096 + 256 \<le> 2 ^ 24" "unat adr mod 4096 = 0" "unat len = 4 * dl" "0 < dl" "dl \<le> 24"
    "length dat = 4 * dl" "\<forall>j < 1024 - dl. dl dvd j \<longrightarrow> word_at (cells s) (unat adr + 4 * j) = 0"
  shows "\<exists>t u. flash_write_long_val adr 0 dat len s = Some t \<and> flash_read_long_val adr 0 len t = Some (0, None, u) \<and>
    (\<forall>j < 1024. word_at (cells u) (unat adr + 4 * j) = 0xffffffff)"
proof -
  have b: "unat adr + 4096 \<le> 2 ^ 24" using assms(2) by linarith
  have w: "write_long_loop adr 0 (unat len div 4) 0 s = write_long_loop adr 0 dl 0 s" by (simp add: assms(4))
  obtain k r where k: "write_long_loop adr 0 dl 0 s = Some (k, r)" "reaches (cells s) s r" "1024 - dl \<le> k" "k < 1024"
    using write_long_loop_used_up [OF assms(1) b assms(5), of 0] assms(8) by auto
  have rr: "ready r" "cells r = cells s" using assms(1) reaches_ready [OF k(2)] reaches_cells [OF k(2)] by auto
  obtain t where t: "t = flash_write_data (slot adr k) (unat len) dat r" by blast
  have sl: "unat (slot adr k) = unat adr + 4 * k" using assms(2) k(4) by (intro unat_slot) simp
  obtain m where m: "m = run_ops (page_ops (unat adr + 4 * k) dat) (cells s)" by blast
  have "reaches m r t"
    using write_data_reaches [OF rr(1), of "unat len" dat "slot adr k"] assms(2,4,6,7) k(4) rr(2)
    by (simp add: t sl m)
  then have tt: "ready t" "cells t = m" using rr(1) reaches_ready reaches_cells by blast+
  have z: "word_at (cells t) (unat adr + 4 * j) = 0" if "dl dvd j" "j < 1024 - dl" for j
  proof -
    have "word_at m (unat adr + 4 * j) = word_at (cells s) (unat adr + 4 * j)"
      unfolding m using that(2) k(3) by (intro word_at_cong) (simp add: run_page_ops)
    then show ?thesis using assms(8) that tt(2) by simp
  qed
  obtain q v where q: "read_val_loop adr 0 (1024 - dl) dl 0 t = (Stopped q, v)" "reaches (cells t) t v" "1024 - dl \<le> q"
    using read_long_loop_used_up [OF tt(1) b assms(5), of 0] z by auto
  have rv: "ready v" using tt(1) reaches_ready [OF q(2)] by simp
  obtain u where u: "u = flash_erase_sector_d adr v" by blast
  have "(unat len + 3) div 4 = dl" by (simp add: assms(4))
  moreover have "1000 \<le> q" using q(3) assms(6) by linarith
  ultimately have "flash_read_long_val adr 0 len t = Some (0, None, u)"
    by (simp add: flash_read_long_val_def q(1) u)
  moreover have e: "reaches (run_ops [Erase (unat adr)] (cells v)) v u"
    unfolding u by (rule erase_reaches [OF rv]) (use b in simp)
  have "\<forall>j < 1024. word_at (cells u) (unat adr + 4 * j) = 0xffffffff"
    unfolding reaches_cells [OF e] by (intro allI impI word_at_erase assms(3))
  moreover have "flash_write_long_val adr 0 dat len s = Some t"
    by (simp add: flash_write_long_val_def w k(1) t)
  ultimately show ?thesis by blast
qed

lemma long_value_lost_at_sector_end_witness:
  "\<exists>t u. flash_write_long_val 0x70000 0 (replicate 32 7) 32 (blank_chip\<lparr>cells := \<lambda>_. 0\<rparr>) = Some t \<and>
     flash_read_long_val 0x70000 0 32 t = Some (0, None, u)"
proof -
  have "word_at (\<lambda>_. 0) a = 0" for a by (simp add: word_at_simp)
  then show ?thesis
    using long_value_lost_at_sector_end [of "blank_chip\<lparr>cells := \<lambda>_. 0\<rparr>" "0x70000" 32 8 "replicate 32 7"] by auto
qed

end
