(* ===== verification/FlashMaint.thy ===== *)
theory FlashMaint
  imports Prelude FlashDrv
begin

text \<open>
  The maintenance operations of \<open>drivers/8258/flash.c\<close> that the file keeps under \<open>#if 0\<close> (\<open>according to your
  application\<close>): the other erase sizes, the status register, protection, power-down and the unique id.
\<close>

section \<open>Erasing\<close>

definition flash_erase_page :: "u32 \<Rightarrow> 'a spi_drv_scheme \<Rightarrow> 'a spi_drv_scheme" where
  "flash_erase_page addr s =
     (let (r, s) = irq_disable s;
          s = flash_send_cmd FLASH_WRITE_ENABLE_CMD s;
          s = flash_send_cmd FLASH_PAGE_ERASE_CMD s;
          s = flash_send_addr addr s;
          s = mspi_high s;
          s = flash_wait_done s
      in irq_restore r s)"

definition flash_erase_32kblock :: "u32 \<Rightarrow> 'a spi_drv_scheme \<Rightarrow> 'a spi_drv_scheme" where
  "flash_erase_32kblock addr s =
     (let (r, s) = irq_disable s;
          s = wd_clear s;
          s = flash_send_cmd FLASH_WRITE_ENABLE_CMD s;
          s = flash_send_cmd FLASH_32KBLK_ERASE_CMD s;
          s = flash_send_addr addr s;
          s = mspi_high s;
          s = flash_wait_done s
      in irq_restore r s)"

definition flash_erase_64kblock :: "u32 \<Rightarrow> 'a spi_drv_scheme \<Rightarrow> 'a spi_drv_scheme" where
  "flash_erase_64kblock addr s =
     (let (r, s) = irq_disable s;
          s = wd_clear s;
          s = flash_send_cmd FLASH_WRITE_ENABLE_CMD s;
          s = flash_send_cmd FLASH_64KBLK_ERASE_CMD s;
          s = flash_send_addr addr s;
          s = mspi_high s;
          s = flash_wait_done s
      in irq_restore r s)"

definition flash_erase_chip :: "'a spi_drv_scheme \<Rightarrow> 'a spi_drv_scheme" where
  "flash_erase_chip s =
     (let (r, s) = irq_disable s;
          s = wd_clear s;
          s = flash_send_cmd FLASH_WRITE_ENABLE_CMD s;
          s = flash_send_cmd FLASH_CHIP_ERASE_CMD s;
          s = mspi_high s;
          s = flash_wait_done s
      in irq_restore r s)"

section \<open>Status, power-down and protection\<close>

definition flash_write_status :: "u8 \<Rightarrow> 'a spi_drv_scheme \<Rightarrow> u8 \<times> 'a spi_drv_scheme" where
  "flash_write_status dat s =
     (let (r, s) = irq_disable s;
          s = flash_send_cmd FLASH_WRITE_ENABLE_CMD s;
          s = flash_send_cmd FLASH_WRITE_STATUS_CMD s;
          s = mspi_wait (mspi_write dat s);
          s = mspi_high s;
          s = flash_wait_done s;
          s = flash_send_cmd FLASH_READ_STATUS_CMD s;
          (result, s) = mspi_read s;
          s = mspi_high s
      in (result, irq_restore r s))"

definition flash_read_status :: "'a spi_drv_scheme \<Rightarrow> u8 \<times> 'a spi_drv_scheme" where
  "flash_read_status s =
     (let (r, s) = irq_disable s;
          s = flash_send_cmd FLASH_READ_STATUS_CMD s;
          (status, s) = mspi_read s;
          s = mspi_high s
      in (status, irq_restore r s))"

definition flash_deep_powerdown :: "'a spi_drv_scheme \<Rightarrow> 'a spi_drv_scheme" where
  "flash_deep_powerdown s =
     (let (r, s) = irq_disable s;
          s = flash_send_cmd FLASH_POWER_DOWN s;
          s = mspi_high s
      in irq_restore r s)"

definition flash_release_deep_powerdown :: "'a spi_drv_scheme \<Rightarrow> 'a spi_drv_scheme" where
  "flash_release_deep_powerdown s =
     (let (r, s) = irq_disable s;
          s = flash_send_cmd FLASH_POWER_DOWN_RELEASE s;
          s = mspi_high s;
          s = flash_wait_done s;
          s = mspi_high s
      in irq_restore r s)"

datatype Flash_TypeDef = FLASH_TYPE_GD | FLASH_TYPE_XTX | FLASH_TYPE_PUYA

definition flash_lock :: "Flash_TypeDef \<Rightarrow> u16 \<Rightarrow> 'a spi_drv_scheme \<Rightarrow> 'a spi_drv_scheme" where
  "flash_lock type dat s =
     (let (r, s) = irq_disable s;
          s = flash_send_cmd FLASH_WRITE_ENABLE_CMD s;
          s = flash_send_cmd FLASH_WRITE_STATUS_CMD s;
          s = (case type of
                 FLASH_TYPE_GD \<Rightarrow> mspi_write (ucast dat) s
               | FLASH_TYPE_XTX \<Rightarrow> mspi_write (ucast dat) s
               | FLASH_TYPE_PUYA \<Rightarrow> mspi_write (ucast (drop_bit 8 dat)) (mspi_wait (mspi_write (ucast dat) s)));
          s = mspi_wait s;
          s = mspi_high s;
          s = flash_wait_done s;
          s = mspi_high s
      in irq_restore r s)"

definition flash_unlock :: "Flash_TypeDef \<Rightarrow> 'a spi_drv_scheme \<Rightarrow> 'a spi_drv_scheme" where
  "flash_unlock type s =
     (let (r, s) = irq_disable s;
          s = flash_send_cmd FLASH_WRITE_ENABLE_CMD s;
          s = flash_send_cmd FLASH_WRITE_STATUS_CMD s;
          s = (case type of
                 FLASH_TYPE_GD \<Rightarrow> mspi_write 0 s
               | FLASH_TYPE_XTX \<Rightarrow> mspi_write 0 s
               | FLASH_TYPE_PUYA \<Rightarrow> mspi_write 0 (mspi_wait (mspi_write 0 s)));
          s = mspi_wait s;
          s = mspi_high s;
          s = flash_wait_done s;
          s = mspi_high s
      in irq_restore r s)"

section \<open>Identification\<close>

definition flash_read_uid :: "u8 \<Rightarrow> 'a spi_drv_scheme \<Rightarrow> u8 list \<times> 'a spi_drv_scheme" where
  "flash_read_uid idcmd s =
     (let (r, s) = irq_disable s;
          s = flash_send_cmd idcmd s;
          s = (if idcmd = FLASH_GD_PUYA_READ_UID_CMD
               then mspi_wait (mspi_write 0x00 (flash_send_addr 0x00 s))
               else if idcmd = FLASH_XTX_READ_UID_CMD
               then mspi_wait (mspi_write 0x00 (flash_send_addr 0x80 s))
               else s);
          s = mspi_wait (mspi_write 0x00 s);
          s = mspi_wait (mspi_ctrl_write 0x0a s);
          (buf, s) = get_loop 16 s;
          s = mspi_high s
      in (buf, irq_restore r s))"

text \<open>The results: the verdict, the manufacturer word, and the bytes stored to \<open>flash_uid\<close> if any.\<close>

definition no_uid :: "u8 list" where
  "no_uid = [0x51,0x01,0x51,0x01,0x51,0x01,0x51,0x01,0x51,0x01,0x51,0x01,0x51,0x01,0x51,0x01]"

definition f_cnt :: "u8 list \<Rightarrow> nat" where
  "f_cnt flash_uid = fold (\<lambda>i f. if flash_uid ! i = no_uid ! i then f + 1 else f) [0..<16] 0"

definition flash_read_mid_uid_with_check :: "'a spi_drv_scheme \<Rightarrow> (bool \<times> u16 \<times> u8 list option) \<times> 'a spi_drv_scheme" where
  "flash_read_mid_uid_with_check s =
     (let (b, s) = flash_read_mid s; mid = mk16 (b ! 1) (b ! 0) in
      if mid = 0x60C8 \<or> mid = 0x6085 \<or> mid = 0x4051 \<or> mid = 0x311C
      then let (flash_uid, s) = flash_read_uid (if mid = 0x311C then FLASH_XTX_READ_UID_CMD else FLASH_GD_PUYA_READ_UID_CMD) s
           in ((f_cnt flash_uid \<noteq> 16, mid, Some flash_uid), s)
      else ((False, mid, None), s))"

section \<open>Lemmas\<close>

lemma cycle_cmd:
  assumes "ready s" "c \<noteq> 0x05"
  shows "\<exists>d. mspi_high (fold (\<lambda>i s. mspi_wait (mspi_write (b ! i) s)) is (flash_send_cmd c (flash_send_cmd FLASH_WRITE_ENABLE_CMD s))) =
    (nor_commit (c # map ((!) b) is) (s\<lparr>wel := True\<rparr>))\<lparr>reg_mspi_data := d\<rparr>"
proof -
  obtain t where t: "t = s\<lparr>wel := True, selected := True, frame := [c], rd_mode := False, reg_mspi_data := 0xFF\<rparr>" by blast
  have 1: "flash_send_cmd c (flash_send_cmd FLASH_WRITE_ENABLE_CMD s) = t"
    using assms by (simp add: send_cmd_idle ready_def send_cmd_frame t)
  obtain e where e: "fold (\<lambda>i s. mspi_wait (mspi_write (b ! i) s)) is t =
      t\<lparr>frame := c # map ((!) b) is, reg_mspi_data := e\<rparr>"
    using fold_write_frame [of t b "is"] assms(2) by (auto simp: t)
  have "mspi_high (t\<lparr>frame := c # map ((!) b) is, reg_mspi_data := e\<rparr>) =
      (nor_commit (c # map ((!) b) is) (s\<lparr>wel := True\<rparr>))\<lparr>reg_mspi_data := e, selected := False, frame := [], rd_mode := False\<rparr>"
    by (simp add: bus_defs t)
  also have "\<dots> = (nor_commit (c # map ((!) b) is) (s\<lparr>wel := True\<rparr>))\<lparr>reg_mspi_data := e\<rparr>"
    using assms by (intro spi_drv.equality) (simp_all add: ready_def idle_def)
  finally show ?thesis unfolding 1 e by blast
qed

lemma commit_erase_sizes: "wip c = 0 \<Longrightarrow> \<not> deep c \<Longrightarrow>
    nor_commit (FLASH_PAGE_ERASE_CMD # addr_bytes a) c = nor_cycle (nor_erase 256 (unat a mod 2 ^ 24) (cells c)) c \<and>
    nor_commit (FLASH_32KBLK_ERASE_CMD # addr_bytes a) c = nor_cycle (nor_erase 32768 (unat a mod 2 ^ 24) (cells c)) c \<and>
    nor_commit (FLASH_64KBLK_ERASE_CMD # addr_bytes a) c = nor_cycle (nor_erase 65536 (unat a mod 2 ^ 24) (cells c)) c \<and>
    nor_commit [FLASH_CHIP_ERASE_CMD] c = nor_cycle (\<lambda>_. 0xFF) c"
  using adr24_addr_bytes [of _ a "[]"]
  by (simp add: nor_commit_def nor_decode_def flash_cmds Let_def)

text \<open>The common shape of the erase operations after the interrupts are off.\<close>

lemma erase_tail:
  assumes "ready t" "c \<noteq> 0x05" "nor_commit (c # addr_bytes a) (t\<lparr>wel := True\<rparr>) = nor_cycle m (t\<lparr>wel := True\<rparr>)"
  shows "\<exists>d. flash_wait_done (mspi_high (flash_send_addr a (flash_send_cmd c (flash_send_cmd FLASH_WRITE_ENABLE_CMD t)))) =
    t\<lparr>cells := m, reg_mspi_data := d\<rparr>"
proof -
  obtain d where "mspi_high (flash_send_addr a (flash_send_cmd c (flash_send_cmd FLASH_WRITE_ENABLE_CMD t))) =
      (nor_commit (c # addr_bytes a) (t\<lparr>wel := True\<rparr>))\<lparr>reg_mspi_data := d\<rparr>"
    using cycle_frame [OF assms(1) assms(1) assms(1,2), of undefined "[]" a] by auto
  then show ?thesis using wait_done_cycle [OF assms(1), where m = m and e = d] by (simp add: assms(3))
qed

lemma erase_chip_tail:
  assumes "ready t" "nor_commit [c] (t\<lparr>wel := True\<rparr>) = nor_cycle m (t\<lparr>wel := True\<rparr>)" "c \<noteq> 0x05"
  shows "\<exists>d. flash_wait_done (mspi_high (flash_send_cmd c (flash_send_cmd FLASH_WRITE_ENABLE_CMD t))) = t\<lparr>cells := m, reg_mspi_data := d\<rparr>"
proof -
  obtain d where "mspi_high (flash_send_cmd c (flash_send_cmd FLASH_WRITE_ENABLE_CMD t)) =
      (nor_commit [c] (t\<lparr>wel := True\<rparr>))\<lparr>reg_mspi_data := d\<rparr>"
    using cycle_cmd [OF assms(1,3), of undefined "[]"] by auto
  then show ?thesis using wait_done_cycle [OF assms(1), where m = m and e = d] by (simp add: assms(2))
qed

text \<open>Each erase operation sets exactly its region to \<open>0xFF\<close> and leaves the chip ready.\<close>

lemma maintenance_erases:
  assumes "ready s"
  shows "cells (flash_erase_page a s) = nor_erase 256 (unat a mod 2 ^ 24) (cells s) \<and> ready (flash_erase_page a s)"
    "cells (flash_erase_32kblock a s) = nor_erase 32768 (unat a mod 2 ^ 24) (cells s) \<and> ready (flash_erase_32kblock a s)"
    "cells (flash_erase_64kblock a s) = nor_erase 65536 (unat a mod 2 ^ 24) (cells s) \<and> ready (flash_erase_64kblock a s)"
    "cells (flash_erase_chip s) = (\<lambda>_. 0xFF) \<and> ready (flash_erase_chip s)"
proof -
  obtain t u where t: "t = s\<lparr>reg_irq_en := 0\<rparr>" "u = t\<lparr>wd_clears := wd_clears s + 1\<rparr>" by blast
  have r: "ready t" "ready u" using assms by (simp_all add: t)
  have w: "wip (t\<lparr>wel := True\<rparr>) = 0" "\<not> deep (t\<lparr>wel := True\<rparr>)" "wip (u\<lparr>wel := True\<rparr>) = 0" "\<not> deep (u\<lparr>wel := True\<rparr>)"
    using r by (simp_all add: ready_def)
  note c = commit_erase_sizes [OF w(1,2), of a] commit_erase_sizes [OF w(3,4), of a]
  obtain d where "flash_wait_done (mspi_high (flash_send_addr a (flash_send_cmd FLASH_PAGE_ERASE_CMD (flash_send_cmd FLASH_WRITE_ENABLE_CMD t)))) =
    t\<lparr>cells := nor_erase 256 (unat a mod 2 ^ 24) (cells s), reg_mspi_data := d\<rparr>"
    using erase_tail [OF r(1), of FLASH_PAGE_ERASE_CMD a] c by (auto simp: t flash_cmds)
  then show "cells (flash_erase_page a s) = nor_erase 256 (unat a mod 2 ^ 24) (cells s) \<and> ready (flash_erase_page a s)"
    using assms by (simp add: flash_erase_page_def irq_disable_def t Let_def irq_restore_def)
  obtain d where "flash_wait_done (mspi_high (flash_send_addr a (flash_send_cmd FLASH_32KBLK_ERASE_CMD (flash_send_cmd FLASH_WRITE_ENABLE_CMD u)))) =
    u\<lparr>cells := nor_erase 32768 (unat a mod 2 ^ 24) (cells s), reg_mspi_data := d\<rparr>"
    using erase_tail [OF r(2), of FLASH_32KBLK_ERASE_CMD a] c by (auto simp: t flash_cmds)
  then show "cells (flash_erase_32kblock a s) = nor_erase 32768 (unat a mod 2 ^ 24) (cells s) \<and> ready (flash_erase_32kblock a s)"
    using assms by (simp add: flash_erase_32kblock_def irq_disable_def wd_clear_def t Let_def irq_restore_def)
  obtain d where "flash_wait_done (mspi_high (flash_send_addr a (flash_send_cmd FLASH_64KBLK_ERASE_CMD (flash_send_cmd FLASH_WRITE_ENABLE_CMD u)))) =
    u\<lparr>cells := nor_erase 65536 (unat a mod 2 ^ 24) (cells s), reg_mspi_data := d\<rparr>"
    using erase_tail [OF r(2), of FLASH_64KBLK_ERASE_CMD a] c by (auto simp: t flash_cmds)
  then show "cells (flash_erase_64kblock a s) = nor_erase 65536 (unat a mod 2 ^ 24) (cells s) \<and> ready (flash_erase_64kblock a s)"
    using assms by (simp add: flash_erase_64kblock_def irq_disable_def wd_clear_def t Let_def irq_restore_def)
  obtain d where "flash_wait_done (mspi_high (flash_send_cmd FLASH_CHIP_ERASE_CMD (flash_send_cmd FLASH_WRITE_ENABLE_CMD u))) =
    u\<lparr>cells := (\<lambda>_. 0xFF), reg_mspi_data := d\<rparr>"
    using erase_chip_tail [OF r(2), of FLASH_CHIP_ERASE_CMD] c by (auto simp: flash_cmds)
  then show "cells (flash_erase_chip s) = (\<lambda>_. 0xFF) \<and> ready (flash_erase_chip s)"
    using assms by (simp add: flash_erase_chip_def irq_disable_def wd_clear_def t Let_def irq_restore_def)
qed

lemma f_cnt_all: "length u = 16 \<Longrightarrow> (f_cnt u = 16) = (u = no_uid)"
proof -
  have c: "fold (\<lambda>i f. if P i then f + 1 else f) xs k = k + length (filter P xs)" for P xs and k :: nat
    by (induction xs arbitrary: k) auto
  assume l: "length u = 16"
  have f: "(length (filter P xs) = length xs) = (\<forall>x\<in>set xs. P x)" for P and xs :: "nat list"
  proof (induction xs)
    case (Cons x xs)
    moreover have "length (filter P xs) \<noteq> Suc (length xs)" using length_filter_le [of P xs] by linarith
    ultimately show ?case by simp
  qed simp
  have "(length (filter (\<lambda>i. u ! i = no_uid ! i) [0..<16]) = 16) = (\<forall>i<16. u ! i = no_uid ! i)"
    using f [of "\<lambda>i. u ! i = no_uid ! i" "[0..<16]"] by (simp add: Ball_def del: upt_rec_numeral)
  also have "\<dots> = (u = no_uid)" using l by (auto simp: list_eq_iff_nth_eq no_uid_def)
  finally show ?thesis by (simp add: f_cnt_def c)
qed

end
