(* ===== verification/Regs.thy ===== *)
theory Regs
  imports Prelude
begin

text \<open>
  The memory-mapped registers of the 8258 and the primitives every driver is written with: register
  reads and writes (\<open>drivers/8258/bsp.h\<close>), the interrupt enables (\<open>irq.h\<close>) and the access to the analog
  registers through the registers \<open>0xb8\<close> to \<open>0xba\<close> (\<open>analog.c\<close>).

  The device behaviour that the code relies on is in \<open>write_reg8\<close>: a status register forgets the bits that
  are written as one, and a start bit written to the analog control register runs one analog access.
\<close>

section \<open>Registers\<close>

record mcu =
  dig :: "nat \<Rightarrow> u8"
  ana :: "nat \<Rightarrow> u8"

definition BIT :: "nat \<Rightarrow> 'a::len word" where
  "BIT n = push_bit n 1"

text \<open>The interrupt status registers of the timers, the processor, the PWM, the DMA and the radio: writing a one clears the bit.\<close>

definition w1c :: "nat \<Rightarrow> bool" where
  "w1c a = (a = 0x623 \<or> (0x648 \<le> a \<and> a \<le> 0x64b) \<or> a = 0x7b1 \<or> a = 0xc26 \<or> a = 0xf20 \<or> a = 0xf21)"

text \<open>The input levels of the ports are read-only.\<close>

definition ro :: "nat \<Rightarrow> bool" where
  "ro a = (a = 0x580 \<or> a = 0x588 \<or> a = 0x590 \<or> a = 0x598 \<or> a = 0x5a0)"

definition stored :: "nat \<Rightarrow> u8 \<Rightarrow> u8 \<Rightarrow> u8" where
  "stored a old v = (if ro a then old else if w1c a then old AND NOT v else v)"

text \<open>One analog access: \<open>FLD_ANA_RW\<close> is bit 5, \<open>FLD_ANA_START\<close> bit 6 and \<open>FLD_ANA_CYC\<close> bit 7 of the control byte.\<close>

definition ana_cycle :: "u8 \<Rightarrow> 'a mcu_scheme \<Rightarrow> 'a mcu_scheme" where
  "ana_cycle v s =
     (let adr = dig s 0xb8;
          s = (if bit v 5 then s\<lparr>ana := (ana s)(unat adr := dig s 0xb9)\<rparr>
               else s\<lparr>dig := (dig s)(0xb9 := ana s (unat adr))\<rparr>)
      in if bit v 7 then s\<lparr>dig := (dig s)(0xb8 := adr + 1)\<rparr> else s)"

definition read_reg8 :: "nat \<Rightarrow> 'a mcu_scheme \<Rightarrow> u8" where
  "read_reg8 a s = dig s a"

definition write_reg8 :: "nat \<Rightarrow> u8 \<Rightarrow> 'a mcu_scheme \<Rightarrow> 'a mcu_scheme" where
  "write_reg8 a v s =
     (let s = s\<lparr>dig := (dig s)(a := stored a (dig s a) v)\<rparr>
      in if a = 0xba \<and> bit v 6 then ana_cycle v s else s)"

definition read_reg16 :: "nat \<Rightarrow> 'a mcu_scheme \<Rightarrow> u16" where
  "read_reg16 a s = mk16 (read_reg8 (a + 1) s) (read_reg8 a s)"

definition write_reg16 :: "nat \<Rightarrow> u16 \<Rightarrow> 'a mcu_scheme \<Rightarrow> 'a mcu_scheme" where
  "write_reg16 a v s = write_reg8 (a + 1) (hi8 v) (write_reg8 a (lo8 v) s)"

definition read_reg32 :: "nat \<Rightarrow> 'a mcu_scheme \<Rightarrow> u32" where
  "read_reg32 a s = push_bit 16 (ucast (read_reg16 (a + 2) s)) OR ucast (read_reg16 a s)"

definition write_reg32 :: "nat \<Rightarrow> u32 \<Rightarrow> 'a mcu_scheme \<Rightarrow> 'a mcu_scheme" where
  "write_reg32 a v s = write_reg16 (a + 2) (ucast (drop_bit 16 v)) (write_reg16 a (ucast v) s)"

text \<open>\<open>BM_SET\<close>, \<open>BM_CLR\<close> and \<open>BM_IS_SET\<close> of \<open>proj/common/bit.h\<close> on 8-bit registers.\<close>

definition BM_SET :: "nat \<Rightarrow> u8 \<Rightarrow> 'a mcu_scheme \<Rightarrow> 'a mcu_scheme" where
  "BM_SET a msk s = write_reg8 a (read_reg8 a s OR msk) s"

definition BM_CLR :: "nat \<Rightarrow> u8 \<Rightarrow> 'a mcu_scheme \<Rightarrow> 'a mcu_scheme" where
  "BM_CLR a msk s = write_reg8 a (read_reg8 a s AND NOT msk) s"

definition BM_IS_SET :: "nat \<Rightarrow> u8 \<Rightarrow> 'a mcu_scheme \<Rightarrow> u8" where
  "BM_IS_SET a msk s = read_reg8 a s AND msk"

section \<open>Interrupt enables\<close>

definition reg_irq_mask :: nat where "reg_irq_mask = 0x640"
definition reg_irq_en8 :: nat where "reg_irq_en8 = 0x643"
definition reg_irq_src :: nat where "reg_irq_src = 0x648"
definition reg_rf_irq_mask :: nat where "reg_rf_irq_mask = 0xf1c"
definition reg_rf_irq_status :: nat where "reg_rf_irq_status = 0xf20"

lemmas irq_regs = reg_irq_mask_def reg_irq_en8_def reg_irq_src_def reg_rf_irq_mask_def reg_rf_irq_status_def

definition irq_enable_m :: "'a mcu_scheme \<Rightarrow> u8 \<times> 'a mcu_scheme" where
  "irq_enable_m s = (read_reg8 reg_irq_en8 s, write_reg8 reg_irq_en8 1 s)"

definition irq_disable_m :: "'a mcu_scheme \<Rightarrow> u8 \<times> 'a mcu_scheme" where
  "irq_disable_m s = (read_reg8 reg_irq_en8 s, write_reg8 reg_irq_en8 0 s)"

definition irq_restore_m :: "u8 \<Rightarrow> 'a mcu_scheme \<Rightarrow> 'a mcu_scheme" where
  "irq_restore_m en s = write_reg8 reg_irq_en8 en s"

definition irq_enable_type :: "u32 \<Rightarrow> 'a mcu_scheme \<Rightarrow> 'a mcu_scheme" where
  "irq_enable_type msk s = write_reg32 reg_irq_mask (read_reg32 reg_irq_mask s OR msk) s"

definition irq_set_mask :: "u32 \<Rightarrow> 'a mcu_scheme \<Rightarrow> 'a mcu_scheme" where
  "irq_set_mask msk s = write_reg32 reg_irq_mask (read_reg32 reg_irq_mask s OR msk) s"

definition irq_get_mask :: "'a mcu_scheme \<Rightarrow> u32" where
  "irq_get_mask s = read_reg32 reg_irq_mask s"

definition irq_disable_type :: "u32 \<Rightarrow> 'a mcu_scheme \<Rightarrow> 'a mcu_scheme" where
  "irq_disable_type msk s = write_reg32 reg_irq_mask (read_reg32 reg_irq_mask s AND NOT msk) s"

definition irq_get_src :: "'a mcu_scheme \<Rightarrow> u32" where
  "irq_get_src s = read_reg32 reg_irq_src s"

definition irq_clr_src2 :: "u32 \<Rightarrow> 'a mcu_scheme \<Rightarrow> 'a mcu_scheme" where
  "irq_clr_src2 msk s = write_reg32 reg_irq_src (read_reg32 reg_irq_src s OR msk) s"

definition irq_clr_src :: "'a mcu_scheme \<Rightarrow> 'a mcu_scheme" where
  "irq_clr_src s = write_reg32 reg_irq_src 0xffffffff s"

definition rf_irq_enable :: "u16 \<Rightarrow> 'a mcu_scheme \<Rightarrow> 'a mcu_scheme" where
  "rf_irq_enable msk s = write_reg16 reg_rf_irq_mask (read_reg16 reg_rf_irq_mask s OR msk) s"

definition rf_irq_disable :: "u16 \<Rightarrow> 'a mcu_scheme \<Rightarrow> 'a mcu_scheme" where
  "rf_irq_disable msk s = write_reg16 reg_rf_irq_mask (read_reg16 reg_rf_irq_mask s AND NOT msk) s"

definition rf_irq_src_get :: "'a mcu_scheme \<Rightarrow> u16" where
  "rf_irq_src_get s = read_reg16 reg_rf_irq_status s"

definition rf_irq_clr_src :: "u16 \<Rightarrow> 'a mcu_scheme \<Rightarrow> 'a mcu_scheme" where
  "rf_irq_clr_src msk s = write_reg16 reg_rf_irq_status (read_reg16 reg_rf_irq_status s OR msk) s"

section \<open>Analog registers\<close>

definition reg_ana_addr :: nat where "reg_ana_addr = 0xb8"
definition reg_ana_data :: nat where "reg_ana_data = 0xb9"
definition reg_ana_ctrl :: nat where "reg_ana_ctrl = 0xba"
definition FLD_ANA_RW :: u8 where "FLD_ANA_RW = BIT 5"
definition FLD_ANA_START :: u8 where "FLD_ANA_START = BIT 6"
definition FLD_ANA_CYC :: u8 where "FLD_ANA_CYC = BIT 7"

lemmas ana_regs = reg_ana_addr_def reg_ana_data_def reg_ana_ctrl_def FLD_ANA_RW_def FLD_ANA_START_def FLD_ANA_CYC_def

text \<open>The access is over when its start bit has been written, so the busy bit is never seen set.\<close>

definition analog_wait :: "'a mcu_scheme \<Rightarrow> 'a mcu_scheme" where
  "analog_wait s = s"

definition analog_read :: "u8 \<Rightarrow> 'a mcu_scheme \<Rightarrow> u8 \<times> 'a mcu_scheme" where
  "analog_read addr s =
     (let (r, s) = irq_disable_m s;
          s = write_reg8 reg_ana_addr addr s;
          s = analog_wait (write_reg8 reg_ana_ctrl FLD_ANA_START s);
          dat = read_reg8 reg_ana_data s;
          s = write_reg8 reg_ana_ctrl 0 s
      in (dat, irq_restore_m r s))"

definition analog_write :: "u8 \<Rightarrow> u8 \<Rightarrow> 'a mcu_scheme \<Rightarrow> 'a mcu_scheme" where
  "analog_write addr v s =
     (let (r, s) = irq_disable_m s;
          s = write_reg8 reg_ana_addr addr s;
          s = write_reg8 reg_ana_data v s;
          s = analog_wait (write_reg8 reg_ana_ctrl (FLD_ANA_START OR FLD_ANA_RW) s);
          s = write_reg8 reg_ana_ctrl 0 s
      in irq_restore_m r s)"

primrec read_cycles :: "nat \<Rightarrow> 'a mcu_scheme \<Rightarrow> u8 list \<times> 'a mcu_scheme" where
  "read_cycles 0 s = ([], s)"
| "read_cycles (Suc n) s =
     (let s = analog_wait (write_reg8 reg_ana_ctrl (FLD_ANA_CYC OR FLD_ANA_START) s);
          x = read_reg8 reg_ana_data s;
          (xs, s) = read_cycles n s
      in (x # xs, s))"

definition analog_read_buff :: "u8 \<Rightarrow> nat \<Rightarrow> 'a mcu_scheme \<Rightarrow> u8 list \<times> 'a mcu_scheme" where
  "analog_read_buff addr len s =
     (let (r, s) = irq_disable_m s;
          s = write_reg8 reg_ana_ctrl 0 s;
          s = write_reg8 reg_ana_addr addr s;
          (buff, s) = read_cycles len s;
          s = write_reg8 reg_ana_ctrl 0 s
      in (buff, irq_restore_m r s))"

definition analog_write_buff :: "u8 \<Rightarrow> u8 list \<Rightarrow> 'a mcu_scheme \<Rightarrow> 'a mcu_scheme" where
  "analog_write_buff addr buff s =
     (let (r, s) = irq_disable_m s;
          s = write_reg8 reg_ana_addr addr s;
          s = fold (\<lambda>x s. analog_wait (write_reg8 reg_ana_ctrl (FLD_ANA_CYC OR FLD_ANA_START OR FLD_ANA_RW)
                            (write_reg8 reg_ana_data x s))) buff s;
          s = write_reg8 reg_ana_ctrl 0 s
      in irq_restore_m r s)"

section \<open>Lemmas\<close>

lemma bit_BIT [simp]: "bit (BIT n :: 'a::len word) k = (k = n \<and> n < LENGTH('a))"
  by (auto simp: BIT_def bit_simps)

lemma stored_simps [simp]:
  "\<not> ro a \<Longrightarrow> \<not> w1c a \<Longrightarrow> stored a old v = v"
  "\<not> ro a \<Longrightarrow> w1c a \<Longrightarrow> stored a old v = old AND NOT v"
  "ro a \<Longrightarrow> stored a old v = old"
  by (simp_all add: stored_def)

lemma dig_write_reg8 [simp]:
  "a \<noteq> 0xba \<Longrightarrow> dig (write_reg8 a v s) = (dig s)(a := stored a (dig s a) v)"
  by (simp add: write_reg8_def)

lemma ana_write_reg8 [simp]: "a \<noteq> 0xba \<Longrightarrow> ana (write_reg8 a v s) = ana s"
  by (simp add: write_reg8_def)

lemma write_reg8_plain: "a \<noteq> 0xba \<Longrightarrow> \<not> w1c a \<Longrightarrow> \<not> ro a \<Longrightarrow> write_reg8 a v s = s\<lparr>dig := (dig s)(a := v)\<rparr>"
  by (simp add: write_reg8_def)

lemma write_ctrl_zero: "write_reg8 0xba 0 s = s\<lparr>dig := (dig s)(0xba := 0)\<rparr>"
  by (simp add: write_reg8_def w1c_def ro_def)

text \<open>What the analog accesses come to: only the three interface registers and the addressed cell change.\<close>

definition ana_if :: "u8 \<Rightarrow> u8 \<Rightarrow> (nat \<Rightarrow> u8) \<Rightarrow> nat \<Rightarrow> u8" where
  "ana_if a v d = d(0xb8 := a, 0xb9 := v, 0xba := 0)"

lemma analog_read_eq: "analog_read a s = (ana s (unat a), s\<lparr>dig := ana_if a (ana s (unat a)) (dig s)\<rparr>)"
  by (cases s) (auto simp: analog_read_def irq_disable_m_def irq_restore_m_def irq_regs ana_regs write_reg8_def
      ana_cycle_def analog_wait_def Let_def w1c_def ro_def read_reg8_def ana_if_def fun_eq_iff)

lemma analog_write_eq: "analog_write a v s = s\<lparr>ana := (ana s)(unat a := v), dig := ana_if a v (dig s)\<rparr>"
  by (cases s) (auto simp: analog_write_def irq_disable_m_def irq_restore_m_def irq_regs ana_regs write_reg8_def
      ana_cycle_def analog_wait_def Let_def w1c_def ro_def read_reg8_def ana_if_def fun_eq_iff bit_or_iff)

lemma ana_if_other [simp]: "x \<noteq> 0xb8 \<Longrightarrow> x \<noteq> 0xb9 \<Longrightarrow> x \<noteq> 0xba \<Longrightarrow> ana_if a v d x = d x"
  by (simp add: ana_if_def)

lemma ana_if_twice [simp]: "ana_if a v (ana_if b w d) = ana_if a v d"
  by (auto simp: ana_if_def)

lemma read_cycles_eq:
  "dig s 0xb8 = a \<Longrightarrow> fst (read_cycles n s) = map (\<lambda>i. ana s (unat (a + of_nat i))) [0..<n] \<and>
     ana (snd (read_cycles n s)) = ana s"
proof (induction n arbitrary: s a)
  case (Suc n)
  obtain t where t: "t = analog_wait (write_reg8 reg_ana_ctrl (FLD_ANA_CYC OR FLD_ANA_START) s)" by blast
  have f: "dig t 0xb8 = a + 1" "dig t 0xb9 = ana s (unat a)" "ana t = ana s"
    using Suc.prems by (simp_all add: t analog_wait_def write_reg8_def ana_regs w1c_def ro_def ana_cycle_def Let_def bit_or_iff)
  have "map (\<lambda>i. ana s (unat (a + of_nat i))) [0..<Suc n] = ana s (unat a) # map (\<lambda>i. ana s (unat (a + 1 + of_nat i))) [0..<n]"
    by (simp add: upt_conv_Cons map_Suc_upt [symmetric] add.commute add.left_commute del: upt_Suc)
  then show ?case
    using Suc.IH [OF f(1)] f by (simp add: t [symmetric] Let_def split_beta read_reg8_def reg_ana_data_def del: upt_Suc)
qed simp

lemma write_cycles_eq:
  "dig s 0xb8 = a \<Longrightarrow> length buff \<le> 256 \<Longrightarrow>
   ana (fold (\<lambda>x s. analog_wait (write_reg8 reg_ana_ctrl (FLD_ANA_CYC OR FLD_ANA_START OR FLD_ANA_RW)
                            (write_reg8 reg_ana_data x s))) buff s) =
   (\<lambda>k. if \<exists>i<length buff. k = unat (a + of_nat i) then buff ! (unat (of_nat k - a)) else ana s k)"
proof (induction buff rule: rev_induct)
  case (snoc x xs)
  have d: "dig (fold (\<lambda>x s. analog_wait (write_reg8 reg_ana_ctrl (FLD_ANA_CYC OR FLD_ANA_START OR FLD_ANA_RW)
                            (write_reg8 reg_ana_data x s))) ys s) 0xb8 = a + of_nat (length ys)" for ys
    using snoc.prems(1)
    by (induction ys arbitrary: a s)
      (simp_all add: analog_wait_def write_reg8_def ana_regs w1c_def ro_def ana_cycle_def Let_def bit_or_iff)
  have l: "length xs < 256" using snoc.prems by simp
  have u: "unat (of_nat (unat (a + of_nat i)) - a) = i" if "i < 256" for i
    using that by (simp add: word_of_nat_eq_iff)
  show ?case
    using snoc.IH [OF snoc.prems(1)] d [of xs] l u
    by (auto simp: analog_wait_def write_reg8_def ana_regs w1c_def ro_def ana_cycle_def Let_def bit_or_iff fun_eq_iff nth_append less_Suc_eq)
qed simp

text \<open>
Analog registers written in one burst are read back in one burst: up to 256 bytes, from any
address, including the wrap of the 8-bit register address.
\<close>

theorem analog_burst_roundtrip:
  assumes "length buff \<le> 256"
  shows "fst (analog_read_buff a (length buff) (analog_write_buff a buff s)) = buff"
proof -
  obtain t where t: "t = analog_write_buff a buff s" by blast
  obtain s' where s': "s' = write_reg8 reg_ana_addr a (snd (irq_disable_m s))" by blast
  have d: "dig s' 0xb8 = a" by (simp add: s' ana_regs w1c_def ro_def)
  have at: "ana t k = (if \<exists>i<length buff. k = unat (a + of_nat i) then buff ! (unat (of_nat k - a)) else ana s' k)" for k
    using fun_cong [OF write_cycles_eq [OF d assms], of k]
    by (auto simp: t analog_write_buff_def s' Let_def split_beta irq_restore_m_def irq_regs ana_regs write_ctrl_zero)
  obtain u where u: "u = write_reg8 reg_ana_addr a (write_reg8 reg_ana_ctrl 0 (snd (irq_disable_m t)))" by blast
  have du: "dig u 0xb8 = a" "ana u = ana t"
    by (simp_all add: u ana_regs w1c_def ro_def irq_disable_m_def irq_regs write_ctrl_zero)
  have "fst (analog_read_buff a (length buff) t) = map (\<lambda>i. ana t (unat (a + of_nat i))) [0..<length buff]"
    using read_cycles_eq [OF du(1), of "length buff"] du(2)
    by (simp add: analog_read_buff_def u Let_def split_beta)
  also have "\<dots> = buff"
  proof (rule nth_equalityI)
    fix i assume "i < length (map (\<lambda>i. ana t (unat (a + of_nat i))) [0..<length buff])"
    then have i: "i < length buff" by simp
    moreover have "unat (of_nat (unat (a + of_nat i)) - a) = i" using i assms by simp
    ultimately show "map (\<lambda>i. ana t (unat (a + of_nat i))) [0..<length buff] ! i = buff ! i"
      by (auto simp: at)
  qed simp
  finally show ?thesis by (simp add: t)
qed

lemma analog_burst_roundtrip_witness:
  "fst (analog_read_buff 0xFF 2 (analog_write_buff 0xFF [3, 4] \<lparr>dig = (\<lambda>_. 0), ana = (\<lambda>_. 0)\<rparr>)) = [3, 4]"
  using analog_burst_roundtrip [of "[3, 4]" "0xFF" "\<lparr>dig = (\<lambda>_. 0), ana = (\<lambda>_. 0)\<rparr>"] by (simp add: numeral_2_eq_2)

text \<open>
\<open>irq_clr_src2\<close> and \<open>rf_irq_clr_src\<close> are documented to clear the given interrupt source. They read the status
register back and write it with the bits added, so that every pending source is cleared: an interrupt
that arrives together with the served one is lost.
\<close>

theorem clearing_one_irq_clears_all:
  "irq_get_src (irq_clr_src2 msk s) = 0 \<and> rf_irq_src_get (rf_irq_clr_src m s) = 0"
proof
  have z: "dig s 0x648 AND NOT (lo8 (ucast (read_reg32 0x648 s OR msk))) = 0"
    "dig s 0x649 AND NOT (hi8 (ucast (read_reg32 0x648 s OR msk))) = 0"
    "dig s 0x64a AND NOT (lo8 (ucast (drop_bit 16 (read_reg32 0x648 s OR msk)))) = 0"
    "dig s 0x64b AND NOT (hi8 (ucast (drop_bit 16 (read_reg32 0x648 s OR msk)))) = 0"
    "dig s 0xf20 AND NOT (lo8 (read_reg16 0xf20 s OR m)) = 0"
    "dig s 0xf21 AND NOT (hi8 (read_reg16 0xf20 s OR m)) = 0"
    by (rule bit_word_eqI; auto simp: bit_simps lo8_def hi8_def read_reg32_def read_reg16_def read_reg8_def mk16_def)+
  show "irq_get_src (irq_clr_src2 msk s) = 0"
    using z(1-4)
    by (simp add: irq_get_src_def irq_clr_src2_def irq_regs write_reg32_def write_reg16_def w1c_def ro_def)
      (simp add: read_reg32_def read_reg16_def read_reg8_def write_reg32_def write_reg16_def w1c_def ro_def mk16_def)
  show "rf_irq_src_get (rf_irq_clr_src m s) = 0"
    using z(5,6)
    by (simp add: rf_irq_src_get_def rf_irq_clr_src_def irq_regs write_reg16_def w1c_def ro_def)
      (simp add: read_reg16_def read_reg8_def w1c_def ro_def mk16_def)
qed

end
