(* ===== verification/Gpio.thy ===== *)
theory Gpio
  imports Prelude Regs
begin

text \<open>
  The pin driver (\<open>drivers/8258/gpio_8258.c\<close>, \<open>gpio_8258.h\<close>) and the default pin configuration
  (\<open>gpio_default_8258.h\<close>). A pin is the 16-bit value of \<open>GPIO_PinTypeDef\<close>: the port in bits 8 to 10, one bit per
  pin below. Ports A, D and E keep their input enable and drive strength in digital registers, ports B and
  C in analog ones.
\<close>

section \<open>Pins, functions and registers\<close>

definition GPIO_GROUPA :: u16 where "GPIO_GROUPA = 0x000"
definition GPIO_GROUPB :: u16 where "GPIO_GROUPB = 0x100"
definition GPIO_GROUPC :: u16 where "GPIO_GROUPC = 0x200"
definition GPIO_GROUPD :: u16 where "GPIO_GROUPD = 0x300"
definition GPIO_GROUPE :: u16 where "GPIO_GROUPE = 0x400"
definition GPIO_ALL :: u16 where "GPIO_ALL = 0x500"

definition GPIO_PA0 :: u16 where "GPIO_PA0 = GPIO_GROUPA OR BIT 0"
definition GPIO_PA1 :: u16 where "GPIO_PA1 = GPIO_GROUPA OR BIT 1"
definition GPIO_PA2 :: u16 where "GPIO_PA2 = GPIO_GROUPA OR BIT 2"
definition GPIO_PA3 :: u16 where "GPIO_PA3 = GPIO_GROUPA OR BIT 3"
definition GPIO_PA4 :: u16 where "GPIO_PA4 = GPIO_GROUPA OR BIT 4"
definition GPIO_PA5 :: u16 where "GPIO_PA5 = GPIO_GROUPA OR BIT 5"
definition GPIO_PA6 :: u16 where "GPIO_PA6 = GPIO_GROUPA OR BIT 6"
definition GPIO_PA7 :: u16 where "GPIO_PA7 = GPIO_GROUPA OR BIT 7"
definition GPIO_PB0 :: u16 where "GPIO_PB0 = GPIO_GROUPB OR BIT 0"
definition GPIO_PB1 :: u16 where "GPIO_PB1 = GPIO_GROUPB OR BIT 1"
definition GPIO_PB2 :: u16 where "GPIO_PB2 = GPIO_GROUPB OR BIT 2"
definition GPIO_PB3 :: u16 where "GPIO_PB3 = GPIO_GROUPB OR BIT 3"
definition GPIO_PB4 :: u16 where "GPIO_PB4 = GPIO_GROUPB OR BIT 4"
definition GPIO_PB5 :: u16 where "GPIO_PB5 = GPIO_GROUPB OR BIT 5"
definition GPIO_PB6 :: u16 where "GPIO_PB6 = GPIO_GROUPB OR BIT 6"
definition GPIO_PB7 :: u16 where "GPIO_PB7 = GPIO_GROUPB OR BIT 7"
definition GPIO_PC0 :: u16 where "GPIO_PC0 = GPIO_GROUPC OR BIT 0"
definition GPIO_PC1 :: u16 where "GPIO_PC1 = GPIO_GROUPC OR BIT 1"
definition GPIO_PC2 :: u16 where "GPIO_PC2 = GPIO_GROUPC OR BIT 2"
definition GPIO_PC3 :: u16 where "GPIO_PC3 = GPIO_GROUPC OR BIT 3"
definition GPIO_PC4 :: u16 where "GPIO_PC4 = GPIO_GROUPC OR BIT 4"
definition GPIO_PC5 :: u16 where "GPIO_PC5 = GPIO_GROUPC OR BIT 5"
definition GPIO_PC6 :: u16 where "GPIO_PC6 = GPIO_GROUPC OR BIT 6"
definition GPIO_PC7 :: u16 where "GPIO_PC7 = GPIO_GROUPC OR BIT 7"
definition GPIO_PD0 :: u16 where "GPIO_PD0 = GPIO_GROUPD OR BIT 0"
definition GPIO_PD1 :: u16 where "GPIO_PD1 = GPIO_GROUPD OR BIT 1"
definition GPIO_PD2 :: u16 where "GPIO_PD2 = GPIO_GROUPD OR BIT 2"
definition GPIO_PD3 :: u16 where "GPIO_PD3 = GPIO_GROUPD OR BIT 3"
definition GPIO_PD4 :: u16 where "GPIO_PD4 = GPIO_GROUPD OR BIT 4"
definition GPIO_PD5 :: u16 where "GPIO_PD5 = GPIO_GROUPD OR BIT 5"
definition GPIO_PD6 :: u16 where "GPIO_PD6 = GPIO_GROUPD OR BIT 6"
definition GPIO_PD7 :: u16 where "GPIO_PD7 = GPIO_GROUPD OR BIT 7"
definition GPIO_PE0 :: u16 where "GPIO_PE0 = GPIO_GROUPE OR BIT 0"
definition GPIO_PE1 :: u16 where "GPIO_PE1 = GPIO_GROUPE OR BIT 1"
definition GPIO_PE2 :: u16 where "GPIO_PE2 = GPIO_GROUPE OR BIT 2"
definition GPIO_PE3 :: u16 where "GPIO_PE3 = GPIO_GROUPE OR BIT 3"

lemmas gpio_groups = GPIO_GROUPA_def GPIO_GROUPB_def GPIO_GROUPC_def GPIO_GROUPD_def GPIO_GROUPE_def GPIO_ALL_def
lemmas gpio_pins = GPIO_PA0_def GPIO_PA1_def GPIO_PA2_def GPIO_PA3_def GPIO_PA4_def GPIO_PA5_def GPIO_PA6_def GPIO_PA7_def GPIO_PB0_def GPIO_PB1_def GPIO_PB2_def GPIO_PB3_def GPIO_PB4_def GPIO_PB5_def GPIO_PB6_def GPIO_PB7_def GPIO_PC0_def GPIO_PC1_def GPIO_PC2_def GPIO_PC3_def GPIO_PC4_def GPIO_PC5_def GPIO_PC6_def GPIO_PC7_def GPIO_PD0_def GPIO_PD1_def GPIO_PD2_def GPIO_PD3_def GPIO_PD4_def GPIO_PD5_def GPIO_PD6_def GPIO_PD7_def GPIO_PE0_def GPIO_PE1_def GPIO_PE2_def GPIO_PE3_def

datatype gpio_func =
    AS_GPIO | AS_MSPI | AS_SWIRE | AS_UART | AS_I2C | AS_SPI | AS_I2S | AS_AMIC | AS_DMIC | AS_SDM | AS_USB
  | AS_ADC | AS_CMP | AS_ATS | AS_PWM | AS_PWM_SECOND

datatype gpio_pull = PM_PIN_UP_DOWN_FLOAT | PM_PIN_PULLUP_1M | PM_PIN_PULLDOWN_100K | PM_PIN_PULLUP_10K

fun pull_val :: "gpio_pull \<Rightarrow> u8" where
  "pull_val PM_PIN_UP_DOWN_FLOAT = 0"
| "pull_val PM_PIN_PULLUP_1M = 1"
| "pull_val PM_PIN_PULLDOWN_100K = 2"
| "pull_val PM_PIN_PULLUP_10K = 3"

datatype gpio_level = Level_Low | Level_High

definition group8 :: "u16 \<Rightarrow> nat" where
  "group8 i = unat (drop_bit 8 i)"

definition reg_gpio_in :: "u16 \<Rightarrow> nat" where "reg_gpio_in i = 0x580 + group8 i * 8"
definition reg_gpio_ie :: "u16 \<Rightarrow> nat" where "reg_gpio_ie i = 0x581 + group8 i * 8"
definition reg_gpio_oen :: "u16 \<Rightarrow> nat" where "reg_gpio_oen i = 0x582 + group8 i * 8"
definition reg_gpio_out :: "u16 \<Rightarrow> nat" where "reg_gpio_out i = 0x583 + group8 i * 8"
definition reg_gpio_pol :: "u16 \<Rightarrow> nat" where "reg_gpio_pol i = 0x584 + group8 i * 8"
definition reg_gpio_ds :: "u16 \<Rightarrow> nat" where "reg_gpio_ds i = 0x585 + group8 i * 8"
definition reg_gpio_func :: "u16 \<Rightarrow> nat" where "reg_gpio_func i = 0x586 + group8 i * 8"
definition reg_gpio_irq_wakeup_en :: "u16 \<Rightarrow> nat" where "reg_gpio_irq_wakeup_en i = 0x587 + group8 i * 8"
definition reg_gpio_irq_risc0_en :: "u16 \<Rightarrow> nat" where "reg_gpio_irq_risc0_en i = 0x5b8 + group8 i"
definition reg_gpio_irq_risc1_en :: "u16 \<Rightarrow> nat" where "reg_gpio_irq_risc1_en i = 0x5c0 + group8 i"
definition reg_gpio_wakeup_irq :: nat where "reg_gpio_wakeup_irq = 0x5b5"
definition areg_gpio_pb_ie :: u8 where "areg_gpio_pb_ie = 0xbd"
definition areg_gpio_pb_ds :: u8 where "areg_gpio_pb_ds = 0xbf"
definition areg_gpio_pc_ie :: u8 where "areg_gpio_pc_ie = 0xc0"
definition areg_gpio_pc_ds :: u8 where "areg_gpio_pc_ds = 0xc2"
definition FLD_GPIO_CORE_WAKEUP_EN :: u8 where "FLD_GPIO_CORE_WAKEUP_EN = BIT 2"
definition FLD_GPIO_CORE_INTERRUPT_EN :: u8 where "FLD_GPIO_CORE_INTERRUPT_EN = BIT 3"
definition FLD_IRQ_GPIO_EN :: u32 where "FLD_IRQ_GPIO_EN = BIT 18"
definition FLD_IRQ_GPIO_RISC0_EN :: u32 where "FLD_IRQ_GPIO_RISC0_EN = BIT 21"
definition FLD_IRQ_GPIO_RISC1_EN :: u32 where "FLD_IRQ_GPIO_RISC1_EN = BIT 22"

lemmas gpio_regs = reg_gpio_in_def reg_gpio_ie_def reg_gpio_oen_def reg_gpio_out_def reg_gpio_pol_def reg_gpio_ds_def
  reg_gpio_func_def reg_gpio_irq_wakeup_en_def reg_gpio_irq_risc0_en_def reg_gpio_irq_risc1_en_def
  reg_gpio_wakeup_irq_def areg_gpio_pb_ie_def areg_gpio_pb_ds_def areg_gpio_pc_ie_def areg_gpio_pc_ds_def
lemmas gpio_flds = FLD_GPIO_CORE_WAKEUP_EN_def FLD_GPIO_CORE_INTERRUPT_EN_def FLD_IRQ_GPIO_EN_def
  FLD_IRQ_GPIO_RISC0_EN_def FLD_IRQ_GPIO_RISC1_EN_def

text \<open>\<open>bit\<close> and \<open>group\<close> of the functions below.\<close>

definition pin_bit :: "u16 \<Rightarrow> u8" where
  "pin_bit pin = ucast (pin AND 0xff)"

definition pin_group :: "u16 \<Rightarrow> u16" where
  "pin_group pin = pin AND 0xf00"

section \<open>Pin operations\<close>

definition BM_SEL :: "bool \<Rightarrow> nat \<Rightarrow> u8 \<Rightarrow> 'a mcu_scheme \<Rightarrow> 'a mcu_scheme" where
  "BM_SEL b a m s = (if b then BM_SET a m s else BM_CLR a m s)"

text \<open>Setting or clearing a bit of an analog register.\<close>

definition areg_sel :: "bool \<Rightarrow> u8 \<Rightarrow> u8 \<Rightarrow> 'a mcu_scheme \<Rightarrow> 'a mcu_scheme" where
  "areg_sel b a m s =
     (let (v, s) = analog_read a s in analog_write a (if b then v OR m else v AND NOT m) s)"

definition gpio_core_wakeup_enable_all :: "bool \<Rightarrow> 'a mcu_scheme \<Rightarrow> 'a mcu_scheme" where
  "gpio_core_wakeup_enable_all en s = BM_SEL en reg_gpio_wakeup_irq FLD_GPIO_CORE_WAKEUP_EN s"

definition gpio_core_irq_enable_all :: "bool \<Rightarrow> 'a mcu_scheme \<Rightarrow> 'a mcu_scheme" where
  "gpio_core_irq_enable_all en s = BM_SEL en reg_gpio_wakeup_irq FLD_GPIO_CORE_INTERRUPT_EN s"

definition gpio_set_output_en :: "u16 \<Rightarrow> bool \<Rightarrow> 'a mcu_scheme \<Rightarrow> 'a mcu_scheme" where
  "gpio_set_output_en pin val s = BM_SEL (\<not> val) (reg_gpio_oen pin) (pin_bit pin) s"

definition gpio_is_output_en :: "u16 \<Rightarrow> 'a mcu_scheme \<Rightarrow> bool" where
  "gpio_is_output_en pin s = (BM_IS_SET (reg_gpio_oen pin) (pin_bit pin) s = 0)"

definition gpio_is_input_en :: "u16 \<Rightarrow> 'a mcu_scheme \<Rightarrow> bool" where
  "gpio_is_input_en pin s = (BM_IS_SET (reg_gpio_ie pin) (pin_bit pin) s \<noteq> 0)"

definition gpio_write :: "u16 \<Rightarrow> bool \<Rightarrow> 'a mcu_scheme \<Rightarrow> 'a mcu_scheme" where
  "gpio_write pin val s = BM_SEL val (reg_gpio_out pin) (pin_bit pin) s"

definition gpio_read :: "u16 \<Rightarrow> 'a mcu_scheme \<Rightarrow> u8" where
  "gpio_read pin s = BM_IS_SET (reg_gpio_in pin) (pin_bit pin) s"

definition gpio_read_all :: "'a mcu_scheme \<Rightarrow> u8 list" where
  "gpio_read_all s = [read_reg8 0x580 s, read_reg8 0x588 s, read_reg8 0x590 s, read_reg8 0x598 s]"

definition gpio_read_cache :: "u16 \<Rightarrow> u8 list \<Rightarrow> u8 option" where
  "gpio_read_cache pin p = (if group8 pin < length p then Some (p ! group8 pin AND pin_bit pin) else None)"

definition gpio_toggle :: "u16 \<Rightarrow> 'a mcu_scheme \<Rightarrow> 'a mcu_scheme" where
  "gpio_toggle pin s = write_reg8 (reg_gpio_out pin) (read_reg8 (reg_gpio_out pin) s XOR pin_bit pin) s"

definition gpio_set_interrupt_pol :: "u16 \<Rightarrow> bool \<Rightarrow> 'a mcu_scheme \<Rightarrow> 'a mcu_scheme" where
  "gpio_set_interrupt_pol pin falling s = BM_SEL falling (reg_gpio_pol pin) (pin_bit pin) s"

definition gpio_set_interrupt :: "u16 \<Rightarrow> bool \<Rightarrow> 'a mcu_scheme \<Rightarrow> 'a mcu_scheme" where
  "gpio_set_interrupt pin falling s =
     (let s = BM_SET (reg_gpio_irq_wakeup_en pin) (pin_bit pin) s;
          s = write_reg32 reg_irq_mask (read_reg32 reg_irq_mask s OR FLD_IRQ_GPIO_EN) s;
          s = write_reg8 reg_gpio_wakeup_irq (read_reg8 reg_gpio_wakeup_irq s OR FLD_GPIO_CORE_INTERRUPT_EN) s
      in BM_SEL falling (reg_gpio_pol pin) (pin_bit pin) s)"

definition gpio_en_interrupt :: "u16 \<Rightarrow> bool \<Rightarrow> 'a mcu_scheme \<Rightarrow> 'a mcu_scheme" where
  "gpio_en_interrupt pin en s = BM_SEL en (reg_gpio_irq_wakeup_en pin) (pin_bit pin) s"

definition gpio_set_interrupt_risc0 :: "u16 \<Rightarrow> bool \<Rightarrow> 'a mcu_scheme \<Rightarrow> 'a mcu_scheme" where
  "gpio_set_interrupt_risc0 pin falling s =
     (let s = BM_SET (reg_gpio_irq_risc0_en pin) (pin_bit pin) s;
          s = write_reg32 reg_irq_mask (read_reg32 reg_irq_mask s OR FLD_IRQ_GPIO_RISC0_EN) s
      in BM_SEL falling (reg_gpio_pol pin) (pin_bit pin) s)"

definition gpio_en_interrupt_risc0 :: "u16 \<Rightarrow> bool \<Rightarrow> 'a mcu_scheme \<Rightarrow> 'a mcu_scheme" where
  "gpio_en_interrupt_risc0 pin en s = BM_SEL en (reg_gpio_irq_risc0_en pin) (pin_bit pin) s"

definition gpio_set_interrupt_risc1 :: "u16 \<Rightarrow> bool \<Rightarrow> 'a mcu_scheme \<Rightarrow> 'a mcu_scheme" where
  "gpio_set_interrupt_risc1 pin falling s =
     (let s = BM_SET (reg_gpio_irq_risc1_en pin) (pin_bit pin) s;
          s = write_reg32 reg_irq_mask (read_reg32 reg_irq_mask s OR FLD_IRQ_GPIO_RISC1_EN) s
      in BM_SEL falling (reg_gpio_pol pin) (pin_bit pin) s)"

definition gpio_en_interrupt_risc1 :: "u16 \<Rightarrow> bool \<Rightarrow> 'a mcu_scheme \<Rightarrow> 'a mcu_scheme" where
  "gpio_en_interrupt_risc1 pin en s = BM_SEL en (reg_gpio_irq_risc1_en pin) (pin_bit pin) s"

definition gpio_set_input_en :: "u16 \<Rightarrow> bool \<Rightarrow> 'a mcu_scheme \<Rightarrow> 'a mcu_scheme" where
  "gpio_set_input_en pin val s =
     (let grp = pin_group pin in
      if grp = GPIO_GROUPA \<or> grp = GPIO_GROUPD \<or> grp = GPIO_GROUPE then BM_SEL val (reg_gpio_ie pin) (pin_bit pin) s
      else if grp = GPIO_GROUPB then areg_sel val areg_gpio_pb_ie (pin_bit pin) s
      else if grp = GPIO_GROUPC then areg_sel val areg_gpio_pc_ie (pin_bit pin) s
      else s)"

definition gpio_set_data_strength :: "u16 \<Rightarrow> bool \<Rightarrow> 'a mcu_scheme \<Rightarrow> 'a mcu_scheme" where
  "gpio_set_data_strength pin val s =
     (let grp = pin_group pin in
      if grp = GPIO_GROUPA \<or> grp = GPIO_GROUPD \<or> grp = GPIO_GROUPE then BM_SEL val (reg_gpio_ds pin) (pin_bit pin) s
      else if grp = GPIO_GROUPB then areg_sel val areg_gpio_pb_ds (pin_bit pin) s
      else if grp = GPIO_GROUPC then areg_sel val areg_gpio_pc_ds (pin_bit pin) s
      else s)"

section \<open>Function selection\<close>

text \<open>
  The switch of \<open>gpio_set_mux\<close>, port by port: the mask of the bits to keep and the value of the field. A function
  that the pin does not have gets the value zero, the first function of the pin.
\<close>

definition mux_PA :: "u16 \<Rightarrow> gpio_func \<Rightarrow> u8 \<times> u8" where
  "mux_PA pin func =
     (if pin = GPIO_PA0 then (NOT (BIT 1 OR BIT 0), if func = AS_DMIC then 0 else if func = AS_PWM then BIT 0 else if func = AS_UART then BIT 1 else 0)
      else if pin = GPIO_PA1 then (NOT (BIT 3 OR BIT 2), if func = AS_DMIC then 0 else if func = AS_UART then BIT 2 else if func = AS_I2S then BIT 3 else 0)
      else if pin = GPIO_PA2 then (NOT (BIT 5 OR BIT 4), if func = AS_SPI then 0 else if func = AS_UART then BIT 4 else if func = AS_PWM then BIT 5 else 0)
      else if pin = GPIO_PA3 then (NOT (BIT 7 OR BIT 6), if func = AS_SPI \<or> func = AS_I2C then 0 else if func = AS_UART then BIT 6 else if func = AS_PWM then BIT 7 else 0)
      else if pin = GPIO_PA4 then (NOT (BIT 1 OR BIT 0), if func = AS_SPI \<or> func = AS_I2C then 0 else if func = AS_UART then BIT 0 else if func = AS_PWM then BIT 1 else 0)
      else if pin = GPIO_PA7 then (NOT (BIT 7 OR BIT 6), if func = AS_SWIRE then 0 else if func = AS_UART then BIT 6 else 0)
      else (0xff, 0))"

definition mux_PB :: "u16 \<Rightarrow> gpio_func \<Rightarrow> u8 \<times> u8" where
  "mux_PB pin func =
     (if pin = GPIO_PB0 then (NOT (BIT 1 OR BIT 0), if func = AS_PWM then 0 else if func = AS_UART then BIT 0 else if func = AS_ATS then BIT 1 else 0)
      else if pin = GPIO_PB1 then (NOT (BIT 3 OR BIT 2), if func = AS_PWM then 0 else if func = AS_UART then BIT 2 else if func = AS_ATS then BIT 3 else 0)
      else if pin = GPIO_PB2 then (NOT (BIT 5 OR BIT 4), if func = AS_PWM then 0 else if func = AS_UART then BIT 4 else 0)
      else if pin = GPIO_PB3 then (NOT (BIT 7 OR BIT 6), if func = AS_PWM then 0 else if func = AS_UART then BIT 6 else 0)
      else if pin = GPIO_PB4 then (NOT (BIT 1 OR BIT 0), if func = AS_SDM then 0 else if func = AS_PWM then BIT 0 else if func = AS_CMP then BIT 1 else 0)
      else if pin = GPIO_PB5 then (NOT (BIT 3 OR BIT 2), if func = AS_SDM then 0 else if func = AS_PWM then BIT 2 else if func = AS_CMP then BIT 3 else 0)
      else if pin = GPIO_PB6 then (NOT (BIT 5 OR BIT 4), if func = AS_SDM then 0 else if func = AS_SPI \<or> func = AS_I2C then BIT 4 else if func = AS_UART then BIT 5 else 0)
      else if pin = GPIO_PB7 then (NOT (BIT 7 OR BIT 6), if func = AS_SDM then 0 else if func = AS_SPI then BIT 6 else if func = AS_UART then BIT 7 else 0)
      else (0xff, 0))"

definition mux_PC :: "u16 \<Rightarrow> gpio_func \<Rightarrow> u8 \<times> u8" where
  "mux_PC pin func =
     (if pin = GPIO_PC0 then (NOT (BIT 1 OR BIT 0), if func = AS_I2C then 0 else if func = AS_PWM then BIT 0 else if func = AS_UART then BIT 1 else 0)
      else if pin = GPIO_PC1 then (NOT (BIT 3 OR BIT 2), if func = AS_I2C then 0 else if func = AS_PWM_SECOND then BIT 2 else if func = AS_PWM then BIT 3 else 0)
      else if pin = GPIO_PC2 then (NOT (BIT 5 OR BIT 4), if func = AS_PWM then 0 else if func = AS_UART then BIT 4 else if func = AS_I2C then BIT 5 else 0)
      else if pin = GPIO_PC3 then (NOT (BIT 7 OR BIT 6), if func = AS_PWM then 0 else if func = AS_UART then BIT 6 else if func = AS_I2C then BIT 7 else 0)
      else if pin = GPIO_PC4 then (NOT (BIT 1 OR BIT 0), if func = AS_PWM then 0 else if func = AS_UART then BIT 0 else if func = AS_PWM_SECOND then BIT 1 else 0)
      else if pin = GPIO_PC5 then (NOT (BIT 3 OR BIT 2), if func = AS_PWM then 0 else if func = AS_UART then BIT 2 else if func = AS_ATS then BIT 3 else 0)
      else if pin = GPIO_PC6 then (NOT (BIT 5 OR BIT 4), if func = AS_ATS then BIT 4 else if func = AS_PWM then BIT 5 else 0)
      else if pin = GPIO_PC7 then (NOT (BIT 7 OR BIT 6), if func = AS_ATS then BIT 6 else if func = AS_PWM then BIT 7 else 0)
      else (0xff, 0))"

definition mux_PD :: "u16 \<Rightarrow> gpio_func \<Rightarrow> u8 \<times> u8" where
  "mux_PD pin func =
     (if pin = GPIO_PD0 then (NOT (BIT 1 OR BIT 0), if func = AS_CMP then BIT 0 else if func = AS_UART then BIT 1 else 0)
      else if pin = GPIO_PD1 then (NOT (BIT 3 OR BIT 2), if func = AS_CMP then BIT 2 else if func = AS_UART then BIT 3 else 0)
      else if pin = GPIO_PD2 then (NOT (BIT 5 OR BIT 4), if func = AS_SPI then 0 else if func = AS_I2S then BIT 4 else if func = AS_PWM then BIT 5 else 0)
      else if pin = GPIO_PD3 then (NOT (BIT 7 OR BIT 6), if func = AS_PWM then 0 else if func = AS_I2S then BIT 6 else if func = AS_UART then BIT 7 else 0)
      else if pin = GPIO_PD4 then (NOT (BIT 1 OR BIT 0), if func = AS_SWIRE then 0 else if func = AS_I2S then BIT 0 else if func = AS_PWM then BIT 1 else 0)
      else if pin = GPIO_PD5 then (NOT (BIT 3 OR BIT 2), if func = AS_PWM then 0 else if func = AS_CMP then BIT 2 else if func = AS_PWM_SECOND then BIT 3 else 0)
      else if pin = GPIO_PD6 then (NOT (BIT 5 OR BIT 4), if func = AS_SPI then 0 else if func = AS_UART then BIT 4 else if func = AS_ATS then BIT 5 else 0)
      else if pin = GPIO_PD7 then (NOT (BIT 7 OR BIT 6), if func = AS_SPI \<or> func = AS_I2C then 0 else if func = AS_I2S then BIT 6 else if func = AS_UART then BIT 7 else 0)
      else (0xff, 0))"

definition gpio_set_mux :: "u16 \<Rightarrow> gpio_func \<Rightarrow> 'a mcu_scheme \<Rightarrow> 'a mcu_scheme" where
  "gpio_set_mux pin func s =
     (let grp = pin_group pin;
          (msk, val) = (if grp = GPIO_GROUPA then mux_PA pin func else if grp = GPIO_GROUPB then mux_PB pin func
                        else if grp = GPIO_GROUPC then mux_PC pin func else if grp = GPIO_GROUPD then mux_PD pin func
                        else (0xff, 0));
          s = (if pin = GPIO_PA5 \<or> pin = GPIO_PA6 then gpio_set_input_en pin True s else s);
          reg = 0x5a8 + group8 pin * 2 + (if pin AND 0x0f0 \<noteq> 0 then 1 else 0)
      in write_reg8 reg ((read_reg8 reg s AND msk) OR val) s)"

definition gpio_set_func :: "u16 \<Rightarrow> gpio_func \<Rightarrow> 'a mcu_scheme \<Rightarrow> 'a mcu_scheme" where
  "gpio_set_func pin func s =
     (let s = (if func \<noteq> AS_GPIO then gpio_set_mux pin func s else s)
      in if func = AS_GPIO then BM_SET (reg_gpio_func pin) (pin_bit pin) s else BM_CLR (reg_gpio_func pin) (pin_bit pin) s)"

section \<open>Resistors, shutdown, wakeup and interrupts\<close>

definition gpio_setup_up_down_resistor :: "u16 \<Rightarrow> u8 \<Rightarrow> 'a mcu_scheme \<Rightarrow> 'a mcu_scheme" where
  "gpio_setup_up_down_resistor gpio up_down s =
     (let r_val = up_down AND 0x03;
          base_ana_reg = 0x0e + push_bit 1 (ucast (drop_bit 8 gpio)) + (if gpio AND 0xf0 \<noteq> 0 then 1 else 0);
          set = (\<lambda>shift_num mask_not.
            let (v, s) = analog_read base_ana_reg s in analog_write base_ana_reg ((v AND mask_not) OR push_bit shift_num r_val) s)
      in if gpio AND 0x11 \<noteq> 0 then set 0 0xfc
         else if gpio AND 0x22 \<noteq> 0 then set 2 0xf3
         else if gpio AND 0x44 \<noteq> 0 then set 4 0xcf
         else if gpio AND 0x88 \<noteq> 0 then set 6 0x3f
         else s)"

text \<open>\<open>!bit\<close> of the source is the logical negation: zero for every pin.\<close>

definition lnot :: "u8 \<Rightarrow> u8" where
  "lnot b = (if b = 0 then 1 else 0)"

definition areg_and :: "u8 \<Rightarrow> u8 \<Rightarrow> 'a mcu_scheme \<Rightarrow> 'a mcu_scheme" where
  "areg_and a m s = (let (v, s) = analog_read a s in analog_write a (v AND m) s)"

definition reg_or :: "nat \<Rightarrow> u8 \<Rightarrow> 'a mcu_scheme \<Rightarrow> 'a mcu_scheme" where
  "reg_or a m s = write_reg8 a (read_reg8 a s OR m) s"

definition reg_and :: "nat \<Rightarrow> u8 \<Rightarrow> 'a mcu_scheme \<Rightarrow> 'a mcu_scheme" where
  "reg_and a m s = write_reg8 a (read_reg8 a s AND m) s"

definition gpio_shutdown :: "u16 \<Rightarrow> 'a mcu_scheme \<Rightarrow> 'a mcu_scheme" where
  "gpio_shutdown pin s =
     (let grp = pin_group pin; b = pin_bit pin in
      if grp = GPIO_GROUPA
      then reg_and 0x581 (lnot b) (reg_and 0x583 (lnot b) (reg_or 0x582 b s))
      else if grp = GPIO_GROUPB
      then areg_and areg_gpio_pb_ie (lnot b) (reg_and 0x58b (lnot b) (reg_or 0x58a b s))
      else if grp = GPIO_GROUPC
      then areg_and areg_gpio_pc_ie (lnot b) (reg_and 0x593 (lnot b) (reg_or 0x592 b s))
      else if grp = GPIO_GROUPD
      then reg_and 0x599 (lnot b) (reg_and 0x59b (lnot b) (reg_or 0x59a b s))
      else if grp = GPIO_ALL
      then let s = write_reg8 0x59a 0xff (write_reg8 0x592 0xff (write_reg8 0x58a 0xff (write_reg8 0x582 0xff s)));
               s = write_reg8 0x59b 0 (write_reg8 0x593 0 (write_reg8 0x58b 0 (write_reg8 0x583 0 s)));
               s = write_reg8 0x581 0x80 s;
               s = analog_write areg_gpio_pc_ie 0 (analog_write areg_gpio_pb_ie 0 s)
           in write_reg8 0x599 0 s
      else s)"

definition gpio_set_wakeup :: "u16 \<Rightarrow> gpio_level \<Rightarrow> bool \<Rightarrow> 'a mcu_scheme \<Rightarrow> 'a mcu_scheme" where
  "gpio_set_wakeup pin level en s =
     (let s = BM_SEL en (reg_gpio_irq_wakeup_en pin) (pin_bit pin) s
      in if level = Level_High then BM_CLR (reg_gpio_pol pin) (pin_bit pin) s else BM_SET (reg_gpio_pol pin) (pin_bit pin) s)"

definition gpio_set_interrupt_init :: "u32 \<Rightarrow> u32 \<Rightarrow> bool \<Rightarrow> u32 \<Rightarrow> 'a mcu_scheme \<Rightarrow> 'a mcu_scheme" where
  "gpio_set_interrupt_init pin32 up_down falling irq_mask s =
     (if irq_mask AND NOT (FLD_IRQ_GPIO_EN OR FLD_IRQ_GPIO_RISC0_EN OR FLD_IRQ_GPIO_RISC1_EN) \<noteq> 0 then s
      else let pin = ucast pin32;
        s = gpio_core_irq_enable_all True s;
        s = gpio_set_func pin AS_GPIO s;
        s = gpio_set_input_en pin True s;
        s = gpio_set_output_en pin False s;
        s = gpio_setup_up_down_resistor pin (ucast up_down) s;
        s = gpio_set_interrupt_pol pin falling s;
        s = write_reg32 reg_irq_src irq_mask s;
        s = write_reg32 reg_irq_mask (read_reg32 reg_irq_mask s OR irq_mask) s
      in if irq_mask = FLD_IRQ_GPIO_EN then gpio_en_interrupt pin True s
         else if irq_mask = FLD_IRQ_GPIO_RISC0_EN then gpio_en_interrupt_risc0 pin True s
         else if irq_mask = FLD_IRQ_GPIO_RISC1_EN then gpio_en_interrupt_risc1 pin True s
         else s)"

section \<open>USB pins\<close>

definition usb_dp_pullup_en :: "bool \<Rightarrow> 'a mcu_scheme \<Rightarrow> 'a mcu_scheme" where
  "usb_dp_pullup_en en s =
     (let (dat, s) = analog_read 0x0b s in analog_write 0x0b (if en then dat OR BIT 7 else dat AND 0x7f) s)"

definition usb_power_on :: "bool \<Rightarrow> 'a mcu_scheme \<Rightarrow> 'a mcu_scheme" where
  "usb_power_on en s =
     (let (v, s) = analog_read 0x34 s in analog_write 0x34 (if en then v OR 0x02 else v AND 0xfd) s)"

definition usb_set_pin_en :: "'a mcu_scheme \<Rightarrow> 'a mcu_scheme" where
  "usb_set_pin_en s = usb_dp_pullup_en True (gpio_set_func GPIO_PA6 AS_USB (gpio_set_func GPIO_PA5 AS_USB s))"

end
