(* ===== verification/GpioInit.thy ===== *)
theory GpioInit
  imports Prelude Regs Gpio
begin

text \<open>
  The start-up configuration of the pins: \<open>gpio_init\<close> of \<open>gpio_8258.c\<close>, the defaults of
  \<open>gpio_default_8258.h\<close>, and the pin macros of that header. The configuration macros of the application
  (\<open>PB4_FUNC\<close> and so on) are a function from port number and pin number to a record.
\<close>

section \<open>Configuration\<close>

record pin_cfg =
  INPUT_ENABLE :: bool
  OUTPUT_ENABLE :: bool
  DATA_STRENGTH :: bool
  DATA_OUT :: bool
  FUNC :: gpio_func
  PULL_WAKEUP_SRC :: gpio_pull

definition plain_pin :: pin_cfg where
  "plain_pin = \<lparr>INPUT_ENABLE = False, OUTPUT_ENABLE = False, DATA_STRENGTH = True, DATA_OUT = False,
     FUNC = AS_GPIO, PULL_WAKEUP_SRC = PM_PIN_UP_DOWN_FLOAT\<rparr>"

definition default_PA :: "nat \<Rightarrow> pin_cfg" where
  "default_PA k =
     (if k = 7 then plain_pin\<lparr>INPUT_ENABLE := True, FUNC := AS_SWIRE, PULL_WAKEUP_SRC := PM_PIN_PULLUP_1M\<rparr> else plain_pin)"

definition default_PB :: "nat \<Rightarrow> pin_cfg" where
  "default_PB k =
     (if k = 1 \<or> k = 4 then plain_pin\<lparr>PULL_WAKEUP_SRC := PM_PIN_UP_DOWN_FLOAT\<rparr> else plain_pin)"

definition default_PC :: "nat \<Rightarrow> pin_cfg" where
  "default_PC k = plain_pin"

definition default_PD :: "nat \<Rightarrow> pin_cfg" where
  "default_PD k = plain_pin"

definition default_PE :: "nat \<Rightarrow> pin_cfg" where
  "default_PE k = plain_pin\<lparr>INPUT_ENABLE := True, FUNC := AS_MSPI\<rparr>"

definition default_cfg :: "nat \<Rightarrow> nat \<Rightarrow> pin_cfg" where
  "default_cfg p = (if p = 0 then default_PA else if p = 1 then default_PB else if p = 2 then default_PC
     else if p = 3 then default_PD else default_PE)"

section \<open>gpio_init\<close>

text \<open>The eight flags \<open>f 0\<close> to \<open>f 7\<close> at the bits \<open>off\<close> to \<open>off + 7\<close>.\<close>

definition flags :: "(nat \<Rightarrow> bool) \<Rightarrow> nat \<Rightarrow> 'a::len word" where
  "flags f off =
     (if f 0 then BIT (off) else 0) OR (if f 1 then BIT (off + 1) else 0) OR (if f 2 then BIT (off + 2) else 0) OR
     (if f 3 then BIT (off + 3) else 0) OR (if f 4 then BIT (off + 4) else 0) OR (if f 5 then BIT (off + 5) else 0) OR
     (if f 6 then BIT (off + 6) else 0) OR (if f 7 then BIT (off + 7) else 0)"

definition setting1 :: "(nat \<Rightarrow> pin_cfg) \<Rightarrow> u32" where
  "setting1 c = flags (\<lambda>k. INPUT_ENABLE (c k)) 8 OR flags (\<lambda>k. \<not> OUTPUT_ENABLE (c k)) 16 OR flags (\<lambda>k. DATA_OUT (c k)) 24"

definition setting2 :: "(nat \<Rightarrow> pin_cfg) \<Rightarrow> u32" where
  "setting2 c = flags (\<lambda>k. DATA_STRENGTH (c k)) 8 OR flags (\<lambda>k. FUNC (c k) = AS_GPIO) 16"

definition init_PA :: "(nat \<Rightarrow> pin_cfg) \<Rightarrow> 'a mcu_scheme \<Rightarrow> 'a mcu_scheme" where
  "init_PA c s = write_reg32 0x584 (setting2 c) (write_reg32 0x580 (setting1 c) s)"

definition init_PB :: "(nat \<Rightarrow> pin_cfg) \<Rightarrow> 'a mcu_scheme \<Rightarrow> 'a mcu_scheme" where
  "init_PB c s =
     (let s = analog_write areg_gpio_pb_ie (flags (\<lambda>k. INPUT_ENABLE (c k)) 0) s;
          s = write_reg8 0x58a (flags (\<lambda>k. \<not> OUTPUT_ENABLE (c k)) 0) s;
          s = write_reg8 0x58b (flags (\<lambda>k. DATA_OUT (c k)) 0) s;
          s = analog_write areg_gpio_pb_ds (flags (\<lambda>k. DATA_STRENGTH (c k)) 0) s
      in write_reg8 0x58e (flags (\<lambda>k. FUNC (c k) = AS_GPIO) 0) s)"

definition init_PC :: "(nat \<Rightarrow> pin_cfg) \<Rightarrow> 'a mcu_scheme \<Rightarrow> 'a mcu_scheme" where
  "init_PC c s =
     (let s = analog_write areg_gpio_pc_ie (flags (\<lambda>k. INPUT_ENABLE (c k)) 0) s;
          s = write_reg8 0x592 (flags (\<lambda>k. \<not> OUTPUT_ENABLE (c k)) 0) s;
          s = write_reg8 0x593 (flags (\<lambda>k. DATA_OUT (c k)) 0) s;
          s = analog_write areg_gpio_pc_ds (flags (\<lambda>k. DATA_STRENGTH (c k)) 0) s
      in write_reg8 0x596 (flags (\<lambda>k. FUNC (c k) = AS_GPIO) 0) s)"

definition init_PD :: "(nat \<Rightarrow> pin_cfg) \<Rightarrow> 'a mcu_scheme \<Rightarrow> 'a mcu_scheme" where
  "init_PD c s = write_reg32 0x59c (setting2 c) (write_reg32 0x598 (setting1 c) s)"

definition init_PE :: "(nat \<Rightarrow> pin_cfg) \<Rightarrow> 'a mcu_scheme \<Rightarrow> 'a mcu_scheme" where
  "init_PE c s =
     (let f = (\<lambda>g. flags (\<lambda>k. k < 4 \<and> g k) 0);
          s = write_reg8 0x5a1 (f (\<lambda>k. INPUT_ENABLE (c k))) s;
          s = write_reg8 0x5a2 (f (\<lambda>k. \<not> OUTPUT_ENABLE (c k))) s;
          s = write_reg8 0x5a3 (f (\<lambda>k. DATA_OUT (c k))) s;
          s = write_reg8 0x5a5 (f (\<lambda>k. DATA_STRENGTH (c k))) s
      in write_reg8 0x5a6 (f (\<lambda>k. FUNC (c k) = AS_GPIO)) s)"

definition pulls :: "(nat \<Rightarrow> pin_cfg) \<Rightarrow> nat \<Rightarrow> u8" where
  "pulls c k = pull_val (PULL_WAKEUP_SRC (c k)) OR push_bit 2 (pull_val (PULL_WAKEUP_SRC (c (k + 1)))) OR
     push_bit 4 (pull_val (PULL_WAKEUP_SRC (c (k + 2)))) OR push_bit 6 (pull_val (PULL_WAKEUP_SRC (c (k + 3))))"

definition gpio_analog_resistance_init :: "(nat \<Rightarrow> nat \<Rightarrow> pin_cfg) \<Rightarrow> 'a mcu_scheme \<Rightarrow> 'a mcu_scheme" where
  "gpio_analog_resistance_init c s =
     (let s = analog_write 0x0e (pulls (c 0) 0) s;
          s = analog_write 0x0f (pulls (c 0) 4) s;
          s = analog_write 0x10 (pulls (c 1) 0) s;
          s = analog_write 0x11 (pulls (c 1) 4) s;
          s = analog_write 0x12 (pulls (c 2) 0) s;
          s = analog_write 0x13 (pulls (c 2) 4) s;
          s = analog_write 0x14 (pulls (c 3) 0) s
      in analog_write 0x15 (pulls (c 3) 4) s)"

definition gpio_init :: "(nat \<Rightarrow> nat \<Rightarrow> pin_cfg) \<Rightarrow> bool \<Rightarrow> 'a mcu_scheme \<Rightarrow> 'a mcu_scheme" where
  "gpio_init c anaRes_init_en s =
     (let s = init_PE (c 4) (init_PD (c 3) (init_PC (c 2) (init_PB (c 1) (init_PA (c 0) s))))
      in if anaRes_init_en then gpio_analog_resistance_init c s else s)"

section \<open>Pin macros\<close>

text \<open>
  The families \<open>GPIO_Pxk_PULL_*\<close> and \<open>GPIO_Pxk_OUTPUT_*\<close> of \<open>gpio_default_8258.h\<close>, for port number \<open>p\<close> and pin \<open>k\<close>.
\<close>

datatype pull_macro = PULL_FLOAT | PULL_UP_1M | PULL_DOWN_100K | PULL_UP_10K | PULL_TOGGLE

definition pull_areg :: "nat \<Rightarrow> nat \<Rightarrow> u8" where
  "pull_areg p k = of_nat (0x0e + 2 * p + k div 4)"

definition GPIO_PULL :: "nat \<Rightarrow> nat \<Rightarrow> pull_macro \<Rightarrow> 'a mcu_scheme \<Rightarrow> 'a mcu_scheme" where
  "GPIO_PULL p k mac s =
     (let (val, s) = analog_read (pull_areg p k) s;
          lo = BIT (2 * (k mod 4)); hi = BIT (2 * (k mod 4) + 1);
          val = (case mac of
              PULL_FLOAT \<Rightarrow> val AND NOT (lo OR hi)
            | PULL_UP_1M \<Rightarrow> (val AND NOT hi) OR lo
            | PULL_DOWN_100K \<Rightarrow> (val OR hi) AND NOT lo
            | PULL_UP_10K \<Rightarrow> val OR (lo OR hi)
            | PULL_TOGGLE \<Rightarrow> val XOR lo)
      in analog_write (pull_areg p k) val s)"

datatype output_macro = OUTPUT_LOW | OUTPUT_HIGH | OUTPUT_TOGGLE

definition GPIO_OUTPUT :: "nat \<Rightarrow> nat \<Rightarrow> output_macro \<Rightarrow> 'a mcu_scheme \<Rightarrow> 'a mcu_scheme" where
  "GPIO_OUTPUT p k mac s =
     (let a = 0x583 + 8 * p; v = read_reg8 a s; m = BIT k in
      write_reg8 a (case mac of OUTPUT_LOW \<Rightarrow> v AND NOT m | OUTPUT_HIGH \<Rightarrow> v OR m | OUTPUT_TOGGLE \<Rightarrow> v XOR m) s)"

end
