(* ===== verification/GpioFacts.thy ===== *)
theory GpioFacts
  imports Prelude Regs Gpio GpioInit
begin

text \<open>
  Properties of the pin driver: a function selection concerns one pin, what \<open>gpio_init\<close> establishes, the macros
  against the functions, and the two functions that treat a whole port or the wrong register.
\<close>

section \<open>Geometry of the pins\<close>

definition pin_of :: "nat \<Rightarrow> nat \<Rightarrow> u16" where
  "pin_of p k = push_bit 8 (of_nat p) OR BIT k"

definition geometry :: "nat \<Rightarrow> nat \<Rightarrow> bool" where
  "geometry p k = (let pin = pin_of p k in
     group8 pin = p \<and> pin_bit pin = BIT k \<and> pin_group pin = push_bit 8 (of_nat p) \<and>
     (pin AND 0x0f0 \<noteq> 0) = (4 \<le> k) \<and> (ucast (drop_bit 8 pin) :: u8) = of_nat p \<and>
     (pin AND 0x11 \<noteq> 0) = (k mod 4 = 0) \<and> (pin AND 0x22 \<noteq> 0) = (k mod 4 = 1) \<and> (pin AND 0x44 \<noteq> 0) = (k mod 4 = 2) \<and>
     (pin AND 0x88 \<noteq> 0) = (k mod 4 = 3))"

lemma geometry_all: "list_all (\<lambda>p. list_all (geometry p) [0..<8]) [0..<5]"
  by code_simp

definition mux_table :: "u16 \<Rightarrow> gpio_func \<Rightarrow> u8 \<times> u8" where
  "mux_table pin func = (let grp = pin_group pin in
     if grp = GPIO_GROUPA then mux_PA pin func else if grp = GPIO_GROUPB then mux_PB pin func
     else if grp = GPIO_GROUPC then mux_PC pin func else if grp = GPIO_GROUPD then mux_PD pin func
     else (0xff, 0))"

lemma pin_names:
  "GPIO_PA0 = pin_of 0 0" "GPIO_PA1 = pin_of 0 1" "GPIO_PA2 = pin_of 0 2" "GPIO_PA3 = pin_of 0 3" "GPIO_PA4 = pin_of 0 4" "GPIO_PA5 = pin_of 0 5" "GPIO_PA6 = pin_of 0 6" "GPIO_PA7 = pin_of 0 7"
  "GPIO_PB0 = pin_of 1 0" "GPIO_PB1 = pin_of 1 1" "GPIO_PB2 = pin_of 1 2" "GPIO_PB3 = pin_of 1 3" "GPIO_PB4 = pin_of 1 4" "GPIO_PB5 = pin_of 1 5" "GPIO_PB6 = pin_of 1 6" "GPIO_PB7 = pin_of 1 7"
  "GPIO_PC0 = pin_of 2 0" "GPIO_PC1 = pin_of 2 1" "GPIO_PC2 = pin_of 2 2" "GPIO_PC3 = pin_of 2 3" "GPIO_PC4 = pin_of 2 4" "GPIO_PC5 = pin_of 2 5" "GPIO_PC6 = pin_of 2 6" "GPIO_PC7 = pin_of 2 7"
  "GPIO_PD0 = pin_of 3 0" "GPIO_PD1 = pin_of 3 1" "GPIO_PD2 = pin_of 3 2" "GPIO_PD3 = pin_of 3 3" "GPIO_PD4 = pin_of 3 4" "GPIO_PD5 = pin_of 3 5" "GPIO_PD6 = pin_of 3 6" "GPIO_PD7 = pin_of 3 7"
  by (simp_all add: gpio_pins gpio_groups pin_of_def)

lemma geometryD: "p < 5 \<Longrightarrow> k < 8 \<Longrightarrow> geometry p k"
  using geometry_all by (simp add: list_all_iff)

lemma pin_of_inj: "p < 5 \<Longrightarrow> k < 8 \<Longrightarrow> q < 5 \<Longrightarrow> j < 8 \<Longrightarrow> (pin_of p k = pin_of q j) = (p = q \<and> k = j)"
proof -
  assume a: "p < 5" "k < 8" "q < 5" "j < 8"
  have "k = j" if "(BIT k :: u8) = BIT j"
  proof -
    have "bit (BIT k :: u8) k = bit (BIT j :: u8) k" using that by simp
    then show ?thesis using a by simp
  qed
  then show ?thesis using geometryD [OF a(1,2)] geometryD [OF a(3,4)] unfolding geometry_def Let_def by metis
qed

definition mux_ok :: "nat \<Rightarrow> nat \<Rightarrow> gpio_func \<Rightarrow> bool" where
  "mux_ok p k f = (let (m, v) = mux_table (pin_of p k) f in
     if p = 0 \<and> (k = 5 \<or> k = 6) then m = 0xff \<and> v = 0 else m = NOT (push_bit (2 * (k mod 4)) 3) \<and> v AND m = 0)"

lemma less_8: "k < 8 \<Longrightarrow> k = 0 \<or> k = 1 \<or> k = 2 \<or> k = 3 \<or> k = 4 \<or> k = 5 \<or> k = 6 \<or> (k :: nat) = 7"
  by auto

lemma mux_table_ports:
  assumes "k < 8"
  shows "mux_table (pin_of 0 k) f = mux_PA (pin_of 0 k) f" "mux_table (pin_of 1 k) f = mux_PB (pin_of 1 k) f"
    "mux_table (pin_of 2 k) f = mux_PC (pin_of 2 k) f" "mux_table (pin_of 3 k) f = mux_PD (pin_of 3 k) f"
  using geometryD [of 0 k] geometryD [of 1 k] geometryD [of 2 k] geometryD [of 3 k] assms
  by (simp_all add: mux_table_def geometry_def Let_def gpio_groups)

lemma mux_ok_PA: "k < 8 \<Longrightarrow> mux_ok 0 k f"
  by (drule less_8, elim disjE; simp add: mux_ok_def mux_table_ports mux_PA_def pin_names pin_of_inj BIT_def)
lemma mux_ok_PB: "k < 8 \<Longrightarrow> mux_ok 1 k f"
  by (drule less_8, elim disjE; simp add: mux_ok_def mux_table_ports [simplified] mux_PB_def pin_names pin_of_inj BIT_def)
lemma mux_ok_PC: "k < 8 \<Longrightarrow> mux_ok 2 k f"
  by (drule less_8, elim disjE; simp add: mux_ok_def mux_table_ports mux_PC_def pin_names pin_of_inj BIT_def)
lemma mux_ok_PD: "k < 8 \<Longrightarrow> mux_ok 3 k f"
  by (drule less_8, elim disjE; simp add: mux_ok_def mux_table_ports mux_PD_def pin_names pin_of_inj BIT_def)

lemma mux_ok_all:
  assumes "p < 4" "k < 8"
  shows "mux_ok p k f"
proof -
  consider "p = 0" | "p = 1" | "p = 2" | "p = 3" using assms(1) by linarith
  then show ?thesis using assms(2) mux_ok_PA mux_ok_PB mux_ok_PC mux_ok_PD by cases auto
qed

section \<open>Selecting a function\<close>

text \<open>The function field of a pin, and whether the pin is an ordinary input/output.\<close>

definition mux_field :: "nat \<Rightarrow> nat \<Rightarrow> 'a mcu_scheme \<Rightarrow> u8" where
  "mux_field p k s = drop_bit (2 * (k mod 4)) (dig s (0x5a8 + p * 2 + k div 4)) AND 3"

definition is_gpio :: "nat \<Rightarrow> nat \<Rightarrow> 'a mcu_scheme \<Rightarrow> bool" where
  "is_gpio p k s = bit (dig s (0x586 + p * 8)) k"

lemma gpio_set_mux_eq:
  assumes "p < 4" "k < 8"
  shows "\<exists>m v ie. (m = 0xff \<and> v = 0 \<or> m = NOT (push_bit (2 * (k mod 4)) 3) \<and> v AND m = 0) \<and>
    dig (gpio_set_mux (pin_of p k) f s) =
      (dig s)(0x581 := ie, 0x5a8 + p * 2 + k div 4 := (dig s (0x5a8 + p * 2 + k div 4) AND m) OR v)"
proof -
  obtain m v where mv: "mux_table (pin_of p k) f = (m, v)" by fastforce
  have ok: "m = 0xff \<and> v = 0 \<or> m = NOT (push_bit (2 * (k mod 4)) 3) \<and> v AND m = 0"
    using mux_ok_all [OF assms, of f] mv by (auto simp: mux_ok_def split: if_splits)
  have g: "group8 (pin_of p k) = p" "(pin_of p k AND 0x0f0 \<noteq> 0) = (4 \<le> k)"
    using geometryD [of p k] assms by (simp_all add: geometry_def Let_def)
  have d: "k div 4 = (if 4 \<le> k then 1 else 0)"
    using assms(2) by (auto intro: div_nat_eqI)
  have r: "\<not> w1c (0x5a8 + p * 2 + x)" "\<not> ro (0x5a8 + p * 2 + x)" "0x5a8 + p * 2 + x \<noteq> 0xba" "0x5a8 + p * 2 + x \<noteq> 0x581" if "x < 2" for x
    using assms(1) that by (simp_all add: w1c_def ro_def)
  obtain t where t: "t = (if pin_of p k = GPIO_PA5 \<or> pin_of p k = GPIO_PA6 then gpio_set_input_en (pin_of p k) True s else s)" by blast
  have "\<exists>ie. dig t = (dig s)(0x581 := ie)"
  proof (cases "pin_of p k = GPIO_PA5 \<or> pin_of p k = GPIO_PA6")
    case True
    then have "p = 0" using assms by (auto simp: pin_names pin_of_inj)
    then have "pin_group (pin_of p k) = GPIO_GROUPA" "group8 (pin_of p k) = 0"
      using geometryD [of p k] assms by (simp_all add: geometry_def Let_def gpio_groups)
    then show ?thesis using True
      by (simp add: t gpio_set_input_en_def BM_SEL_def BM_SET_def reg_gpio_ie_def w1c_def ro_def) blast
  next
    case False
    then show ?thesis by (intro exI [of _ "dig s 0x581"]) (simp add: t)
  qed
  then obtain ie where ie: "dig t = (dig s)(0x581 := ie)" by blast
  have "gpio_set_mux (pin_of p k) f s = (let reg = 0x5a8 + p * 2 + k div 4 in write_reg8 reg ((read_reg8 reg t AND m) OR v) t)"
    using mv g d unfolding gpio_set_mux_def mux_table_def Let_def t by (simp add: split_beta)
  then have "dig (gpio_set_mux (pin_of p k) f s) =
      (dig s)(0x581 := ie, 0x5a8 + p * 2 + k div 4 := (dig s (0x5a8 + p * 2 + k div 4) AND m) OR v)"
    using r [of "k div 4"] assms(2) ie by (simp add: Let_def read_reg8_def)
  then show ?thesis using ok by blast
qed

lemma two_digit: "x < 2 \<Longrightarrow> x' < 2 \<Longrightarrow> (c + p' * 2 + x' = c + p * 2 + x) = (p' = p \<and> x' = (x :: nat))"
  by presburger

lemma bit_3: "bit (3 :: u8) n = (n < 2)"
  using bit_mask_iff [where 'a = u8, of 2 n] by (simp add: mask_eq_exp_minus_1) auto

lemma bit_3_int: "bit (3 :: int) n = (n < 2)"
  using bit_mask_iff [where 'a = int, of 2 n] by (simp add: mask_eq_exp_minus_1)

lemma other_field:
  assumes "(v :: u8) AND NOT (push_bit (2 * j) 3) = 0" "i < 4" "j < 4" "i \<noteq> j"
  shows "drop_bit (2 * i) ((x AND NOT (push_bit (2 * j) 3)) OR v) AND 3 = drop_bit (2 * i) x AND 3"
proof (rule bit_word_eqI)
  fix n assume "n < LENGTH(8)"
  have v: "bit v m \<Longrightarrow> 2 * j \<le> m \<and> m < 2 * j + 2" for m
  proof -
    assume b: "bit v m"
    then have m: "m < 8" by (auto dest: bit_imp_le_length)
    have "\<not> bit (v AND NOT (push_bit (2 * j) 3)) m" using assms(1) by simp
    then show ?thesis using b m by (auto simp: bit_simps bit_3 bit_3_int)
  qed
  have "\<not> (2 * j \<le> 2 * i + n \<and> 2 * i + n < 2 * j + 2)" if "n < 2" using that assms(4) by presburger
  then show "bit (drop_bit (2 * i) ((x AND NOT (push_bit (2 * j) 3)) OR v) AND 3) n = bit (drop_bit (2 * i) x AND 3) n"
    using v [of "2 * i + n"] by (auto simp: bit_simps bit_3 bit_3_int dest: bit_imp_le_length)
qed

text \<open>
Selecting a function for a pin concerns that pin only. For each of the 32 pins of ports A to D and every
function, \<open>gpio_set_func\<close> leaves the function field and the input/output bit of every other pin as they
were, and the pin is an ordinary input/output afterwards exactly when \<open>AS_GPIO\<close> was selected.
\<close>

theorem gpio_set_func_own_pin:
  assumes "p < 4" "k < 8" "p' < 4" "k' < 8" "(p', k') \<noteq> (p, k)"
  shows "let t = gpio_set_func (pin_of p k) f s in
    mux_field p' k' t = mux_field p' k' s \<and> is_gpio p' k' t = is_gpio p' k' s \<and> is_gpio p k t = (f = AS_GPIO)"
proof -
  obtain t where t: "t = (if f \<noteq> AS_GPIO then gpio_set_mux (pin_of p k) f s else s)" by blast
  have g: "group8 (pin_of p k) = p" "pin_bit (pin_of p k) = BIT k"
    using geometryD [of p k] assms by (simp_all add: geometry_def Let_def)
  have kk: "k div 4 < 2" "k' div 4 < 2" using assms(2,4) by simp_all
  have dt: "mux_field p' k' t = mux_field p' k' s \<and> (\<forall>q < 4. dig t (0x586 + q * 8) = dig s (0x586 + q * 8))"
  proof (cases "f = AS_GPIO")
    case True then show ?thesis by (simp add: t)
  next
    case False
    obtain m v ie where m: "m = 0xff \<and> v = 0 \<or> m = NOT (push_bit (2 * (k mod 4)) 3) \<and> v AND m = 0"
      and e: "dig t = (dig s)(0x581 := ie, 0x5a8 + p * 2 + k div 4 := (dig s (0x5a8 + p * 2 + k div 4) AND m) OR v)"
      using gpio_set_mux_eq [OF assms(1,2), of f s] False by (auto simp: t)
    have "mux_field p' k' t = mux_field p' k' s"
    proof (cases "p' = p \<and> k' div 4 = k div 4")
      case True
      then have n: "k' mod 4 \<noteq> k mod 4" using assms(5) by (metis div_mult_mod_eq)
      have "drop_bit (2 * (k' mod 4)) ((dig s (0x5a8 + p * 2 + k div 4) AND m) OR v) AND 3 =
          drop_bit (2 * (k' mod 4)) (dig s (0x5a8 + p * 2 + k div 4)) AND 3"
        using m
      proof
        assume "m = 0xff \<and> v = 0"
        moreover have "(x :: u8) AND 0xff = x" for x
        proof -
          have "(0xff :: u8) = -1" by simp
          then show ?thesis by (simp only: and.right_neutral)
        qed
        ultimately show ?thesis by simp
      next
        assume m: "m = NOT (push_bit (2 * (k mod 4)) 3) \<and> v AND m = 0"
        then have "v AND NOT (push_bit (2 * (k mod 4)) 3) = 0" by blast
        from other_field [OF this, of "k' mod 4"] show ?thesis using n m by simp
      qed
      then show ?thesis using True assms(1) by (simp add: mux_field_def e)
    next
      case False
      then have "0x5a8 + p' * 2 + k' div 4 \<noteq> 0x5a8 + p * 2 + k div 4" using two_digit [OF kk] by simp
      then show ?thesis by (simp add: mux_field_def e)
    qed
    moreover have "0x586 + q * 8 \<noteq> 0x5a8 + p * 2 + k div 4 \<and> 0x586 + q * 8 \<noteq> 0x581" if "q < 4" for q
      using that by linarith
    ultimately show ?thesis by (simp add: e)
  qed
  have r: "\<not> w1c (0x586 + q * 8)" "\<not> ro (0x586 + q * 8)" "0x586 + q * 8 \<noteq> 0xba" if "q < 4" for q
    using that unfolding w1c_def ro_def by presburger+
  obtain u where u: "u = gpio_set_func (pin_of p k) f s" by blast
  have du: "dig u = (dig t)(0x586 + p * 8 := (if f = AS_GPIO then dig t (0x586 + p * 8) OR BIT k else dig t (0x586 + p * 8) AND NOT (BIT k)))"
    using r [OF assms(1)] by (simp add: u gpio_set_func_def t Let_def BM_SET_def BM_CLR_def reg_gpio_func_def g read_reg8_def)
  have "mux_field p' k' u = mux_field p' k' t"
  proof -
    have "0x5a8 + p' * 2 + k' div 4 \<noteq> 0x586 + p * 8" using assms(1) by linarith
    then show ?thesis by (simp add: mux_field_def du)
  qed
  moreover have "is_gpio p' k' u = is_gpio p' k' t"
    using assms by (cases "p' = p") (auto simp: is_gpio_def du bit_simps)
  moreover have "is_gpio p k u = (f = AS_GPIO)"
    using assms(2) by (simp add: is_gpio_def du bit_simps)
  ultimately show ?thesis using dt assms(3) by (simp add: u Let_def is_gpio_def)
qed

lemma gpio_set_func_own_pin_witness:
  "let t = gpio_set_func GPIO_PB1 AS_UART \<lparr>dig = (\<lambda>_. 0xff), ana = (\<lambda>_. 0)\<rparr> in mux_field 1 2 t = 3 \<and> \<not> is_gpio 1 1 t"
  using gpio_set_func_own_pin [of 1 1 1 2 AS_UART "\<lparr>dig = (\<lambda>_. 0xff), ana = (\<lambda>_. 0)\<rparr>"]
  by (simp add: pin_names Let_def) (simp add: mux_field_def)

section \<open>Shutdown and reading back\<close>

text \<open>The input enable of a pin, where the port keeps it, and its output level and output disable.\<close>

definition input_enabled :: "nat \<Rightarrow> nat \<Rightarrow> 'a mcu_scheme \<Rightarrow> bool" where
  "input_enabled p k s =
     bit (if p = 1 then ana s 0xbd else if p = 2 then ana s 0xc0 else dig s (0x581 + 8 * p)) k"

definition out_level :: "nat \<Rightarrow> nat \<Rightarrow> 'a mcu_scheme \<Rightarrow> bool" where
  "out_level p k s = bit (dig s (0x583 + 8 * p)) k"

definition out_disabled :: "nat \<Rightarrow> nat \<Rightarrow> 'a mcu_scheme \<Rightarrow> bool" where
  "out_disabled p k s = bit (dig s (0x582 + 8 * p)) k"

lemma port_groups: "p < 4 \<Longrightarrow> k < 8 \<Longrightarrow> pin_group (pin_of p k) = push_bit 8 (of_nat p) \<and> pin_bit (pin_of p k) = BIT k \<and> group8 (pin_of p k) = p"
  using geometryD [of p k] by (simp add: geometry_def Let_def)

lemma port_simps:
  "k < 8 \<Longrightarrow> pin_group (pin_of 0 k) = 0" "k < 8 \<Longrightarrow> pin_group (pin_of (Suc 0) k) = 0x100"
  "k < 8 \<Longrightarrow> pin_group (pin_of 2 k) = 0x200" "k < 8 \<Longrightarrow> pin_group (pin_of 3 k) = 0x300"
  "p < 4 \<Longrightarrow> k < 8 \<Longrightarrow> pin_bit (pin_of p k) = BIT k" "p < 4 \<Longrightarrow> k < 8 \<Longrightarrow> group8 (pin_of p k) = p"
  using port_groups [of 0 k] port_groups [of 1 k] port_groups [of 2 k] port_groups [of 3 k] port_groups [of p k] by simp_all

lemma BIT_nonzero: "k < 8 \<Longrightarrow> (BIT k :: u8) \<noteq> 0"
proof
  assume "k < 8" "(BIT k :: u8) = 0"
  then have "bit (0 :: u8) k" using bit_BIT [where 'a = 8, of k k] by simp
  then show False by simp
qed

lemma lnot_BIT: "k < 8 \<Longrightarrow> lnot (BIT k) = 0"
  by (simp add: lnot_def BIT_nonzero)

lemma and_BIT: "k < 8 \<Longrightarrow> ((x :: u8) AND BIT k = 0) = (\<not> bit x k)"
proof
  assume "k < 8" "x AND BIT k = 0"
  then have "\<not> bit (x AND BIT k) k" by simp
  then show "\<not> bit x k" using \<open>k < 8\<close> by (simp add: bit_and_iff)
next
  assume "\<not> bit x k"
  then show "x AND BIT k = 0" by (intro bit_word_eqI) (auto simp: bit_and_iff)
qed

lemma less_4: "p < 4 \<Longrightarrow> p = 0 \<or> p = 1 \<or> p = 2 \<or> (p :: nat) = 3"
  by auto

text \<open>
\<open>gpio_shutdown\<close> is to put one pin into high resistance. It negates the pin's bit logically (\<open>!bit\<close>)
instead of bitwise, so shutting down any pin drives the output register of its whole port to zero and
disables the inputs of all eight pins of the port; only the output disable is limited to the pin.
\<close>

theorem gpio_shutdown_hits_whole_port:
  assumes "p < 4" "k < 8" "j < 8"
  shows "let t = gpio_shutdown (pin_of p k) s in
    \<not> input_enabled p j t \<and> \<not> out_level p j t \<and> out_disabled p j t = (j = k \<or> out_disabled p j s)"
  using less_4 [OF assms(1)] assms(2,3)
  by (elim disjE)
      (auto simp: gpio_shutdown_def port_simps lnot_BIT gpio_groups Let_def reg_and_def reg_or_def areg_and_def analog_read_eq analog_write_eq
        read_reg8_def w1c_def ro_def gpio_regs input_enabled_def out_level_def out_disabled_def bit_or_iff)

lemma gpio_shutdown_hits_whole_port_witness:
  "\<not> input_enabled 0 7 (gpio_shutdown GPIO_PA1 \<lparr>dig = (\<lambda>_. 0xff), ana = (\<lambda>_. 0)\<rparr>)"
  using gpio_shutdown_hits_whole_port [of 0 1 7 "\<lparr>dig = (\<lambda>_. 0xff), ana = (\<lambda>_. 0)\<rparr>"] by (simp add: pin_names Let_def)

lemma input_en_sets:
  assumes "p < 4" "k < 8" "j < 8"
  shows "input_enabled p j (gpio_set_input_en (pin_of p k) v s) = (if j = k then v else input_enabled p j s)"
  using less_4 [OF assms(1)] assms(2,3)
  by (elim disjE)
    (auto simp: gpio_set_input_en_def port_simps gpio_groups Let_def BM_SEL_def BM_SET_def BM_CLR_def areg_sel_def analog_read_eq analog_write_eq
        read_reg8_def w1c_def ro_def gpio_regs input_enabled_def bit_or_iff bit_and_iff bit_not_iff)

text \<open>
\<open>gpio_set_input_en\<close> changes the input enable of exactly its pin on every port, but \<open>gpio_is_input_en\<close> looks at
the digital register for all ports: on ports B and C, whose input enables are analog, its answer does not
depend on what was set.
\<close>

theorem gpio_is_input_en_ignores_analog_ports:
  assumes "p < 4" "k < 8"
  shows "input_enabled p k (gpio_set_input_en (pin_of p k) v s) = v \<and>
    gpio_is_input_en (pin_of p k) (gpio_set_input_en (pin_of p k) v s) =
      (if p = 1 \<or> p = 2 then gpio_is_input_en (pin_of p k) s else v)"
proof
  show "input_enabled p k (gpio_set_input_en (pin_of p k) v s) = v"
    using input_en_sets [OF assms assms(2)] by simp
  show "gpio_is_input_en (pin_of p k) (gpio_set_input_en (pin_of p k) v s) =
      (if p = 1 \<or> p = 2 then gpio_is_input_en (pin_of p k) s else v)"
    using less_4 [OF assms(1)] assms(2)
    by (elim disjE)
      (auto simp: gpio_is_input_en_def BM_IS_SET_def port_simps and_BIT gpio_set_input_en_def gpio_groups Let_def BM_SEL_def BM_SET_def BM_CLR_def
        areg_sel_def analog_read_eq analog_write_eq read_reg8_def w1c_def ro_def gpio_regs bit_or_iff bit_and_iff bit_not_iff)
qed

lemma gpio_is_input_en_ignores_analog_ports_witness:
  "\<not> gpio_is_input_en GPIO_PB4 (gpio_set_input_en GPIO_PB4 True \<lparr>dig = (\<lambda>_. 0), ana = (\<lambda>_. 0)\<rparr>)"
  using gpio_is_input_en_ignores_analog_ports [of 1 4 True "\<lparr>dig = (\<lambda>_. 0), ana = (\<lambda>_. 0)\<rparr>"]
  by (simp add: pin_names) (simp add: gpio_is_input_en_def BM_IS_SET_def read_reg8_def)

section \<open>Start-up configuration\<close>

lemma bit_flags: "off + 7 < LENGTH('a) \<Longrightarrow> bit (flags f off :: 'a::len word) n = (off \<le> n \<and> n < off + 8 \<and> f (n - off))"
proof -
  assume a: "off + 7 < LENGTH('a)"
  consider "n < off" | j where "n = off + j" "j < 8" | "off + 8 \<le> n"
    by (metis add_less_cancel_left le_add_diff_inverse not_less)
  then show ?thesis
  proof cases
    case 2
    from less_8 [OF 2(2)] show ?thesis using 2(1) a
      by (elim disjE) (simp_all add: flags_def bit_or_iff)
  qed (simp_all add: flags_def bit_or_iff)
qed

lemma bit_lo_hi:
  "j < 8 \<Longrightarrow> bit (lo8 x) j = bit x j" "j < 8 \<Longrightarrow> bit (hi8 x) j = bit x (8 + j)"
  "j < 16 \<Longrightarrow> bit (ucast (w :: u32) :: u16) j = bit w j"
  by (simp_all add: lo8_def hi8_def bit_simps)

lemma bit_setting: "j < 8 \<Longrightarrow> bit (setting1 c) (8 + j) = INPUT_ENABLE (c j)"
  "j < 8 \<Longrightarrow> bit (setting1 c) (16 + j) = (\<not> OUTPUT_ENABLE (c j))"
  "j < 8 \<Longrightarrow> bit (setting1 c) (24 + j) = DATA_OUT (c j)"
  "j < 8 \<Longrightarrow> bit (setting2 c) (8 + j) = DATA_STRENGTH (c j)"
  "j < 8 \<Longrightarrow> bit (setting2 c) (16 + j) = (FUNC (c j) = AS_GPIO)"
  by (simp_all add: setting1_def setting2_def bit_or_iff bit_flags)

definition strength :: "nat \<Rightarrow> nat \<Rightarrow> 'a mcu_scheme \<Rightarrow> bool" where
  "strength p k s = bit (if p = 1 then ana s 0xbf else if p = 2 then ana s 0xc2 else dig s (0x585 + 8 * p)) k"

definition pull_of :: "nat \<Rightarrow> nat \<Rightarrow> 'a mcu_scheme \<Rightarrow> u8" where
  "pull_of p k s = drop_bit (2 * (k mod 4)) (ana s (0x0e + 2 * p + k div 4)) AND 3"

text \<open>What the start-up code leaves in the registers.\<close>

lemma pa_pd_after:
  assumes "q = 0 \<or> q = 3"
  shows "dig (write_reg32 (0x584 + 8 * q) (setting2 c) (write_reg32 (0x580 + 8 * q) (setting1 c) s)) a =
    (if a = 0x581 + 8 * q then hi8 (ucast (setting1 c)) else if a = 0x582 + 8 * q then lo8 (ucast (drop_bit 16 (setting1 c)))
     else if a = 0x583 + 8 * q then hi8 (ucast (drop_bit 16 (setting1 c))) else if a = 0x584 + 8 * q then lo8 (ucast (setting2 c))
     else if a = 0x585 + 8 * q then hi8 (ucast (setting2 c)) else if a = 0x586 + 8 * q then lo8 (ucast (drop_bit 16 (setting2 c)))
     else if a = 0x587 + 8 * q then hi8 (ucast (drop_bit 16 (setting2 c))) else dig s a)"
    "ana (write_reg32 (0x584 + 8 * q) (setting2 c) (write_reg32 (0x580 + 8 * q) (setting1 c) s)) = ana s"
  using assms by (elim disjE; simp add: write_reg32_def write_reg16_def w1c_def ro_def; fail)+

lemma init_PA_after: "dig (init_PA c s) a =
    (if a = 0x581 then hi8 (ucast (setting1 c)) else if a = 0x582 then lo8 (ucast (drop_bit 16 (setting1 c)))
     else if a = 0x583 then hi8 (ucast (drop_bit 16 (setting1 c))) else if a = 0x584 then lo8 (ucast (setting2 c))
     else if a = 0x585 then hi8 (ucast (setting2 c)) else if a = 0x586 then lo8 (ucast (drop_bit 16 (setting2 c)))
     else if a = 0x587 then hi8 (ucast (drop_bit 16 (setting2 c))) else dig s a)" "ana (init_PA c s) = ana s"
  using pa_pd_after [of 0 c s] by (simp_all add: init_PA_def)

lemma init_PD_after: "dig (init_PD c s) a =
    (if a = 0x599 then hi8 (ucast (setting1 c)) else if a = 0x59a then lo8 (ucast (drop_bit 16 (setting1 c)))
     else if a = 0x59b then hi8 (ucast (drop_bit 16 (setting1 c))) else if a = 0x59c then lo8 (ucast (setting2 c))
     else if a = 0x59d then hi8 (ucast (setting2 c)) else if a = 0x59e then lo8 (ucast (drop_bit 16 (setting2 c)))
     else if a = 0x59f then hi8 (ucast (drop_bit 16 (setting2 c))) else dig s a)" "ana (init_PD c s) = ana s"
  using pa_pd_after [of 3 c s] by (simp_all add: init_PD_def)

lemma init_PB_after: "dig (init_PB c s) a =
    (if a = 0x58a then flags (\<lambda>k. \<not> OUTPUT_ENABLE (c k)) 0 else if a = 0x58b then flags (\<lambda>k. DATA_OUT (c k)) 0
     else if a = 0x58e then flags (\<lambda>k. FUNC (c k) = AS_GPIO) 0 else ana_if 0xbf (flags (\<lambda>k. DATA_STRENGTH (c k)) 0) (dig s) a)"
  "ana (init_PB c s) = (ana s)(0xbd := flags (\<lambda>k. INPUT_ENABLE (c k)) 0, 0xbf := flags (\<lambda>k. DATA_STRENGTH (c k)) 0)"
  by (simp_all add: init_PB_def Let_def analog_write_eq w1c_def ro_def gpio_regs ana_if_def)

lemma init_PC_after: "dig (init_PC c s) a =
    (if a = 0x592 then flags (\<lambda>k. \<not> OUTPUT_ENABLE (c k)) 0 else if a = 0x593 then flags (\<lambda>k. DATA_OUT (c k)) 0
     else if a = 0x596 then flags (\<lambda>k. FUNC (c k) = AS_GPIO) 0 else ana_if 0xc2 (flags (\<lambda>k. DATA_STRENGTH (c k)) 0) (dig s) a)"
  "ana (init_PC c s) = (ana s)(0xc0 := flags (\<lambda>k. INPUT_ENABLE (c k)) 0, 0xc2 := flags (\<lambda>k. DATA_STRENGTH (c k)) 0)"
  by (simp_all add: init_PC_def Let_def analog_write_eq w1c_def ro_def gpio_regs ana_if_def)

lemma init_PE_after: "ana (init_PE c s) = ana s" "a < 0x5a0 \<Longrightarrow> dig (init_PE c s) a = dig s a"
  by (simp_all add: init_PE_def Let_def w1c_def ro_def)

lemma resistance_after: "a < 0xb8 \<or> 0xba < a \<Longrightarrow> dig (gpio_analog_resistance_init c s) a = dig s a"
  "ana (gpio_analog_resistance_init c s) = (ana s)(0x0e := pulls (c 0) 0, 0x0f := pulls (c 0) 4, 0x10 := pulls (c 1) 0,
     0x11 := pulls (c 1) 4, 0x12 := pulls (c 2) 0, 0x13 := pulls (c 2) 4, 0x14 := pulls (c 3) 0, 0x15 := pulls (c 3) 4)"
  by (auto simp: gpio_analog_resistance_init_def Let_def analog_write_eq ana_if_def)

lemmas init_after = init_PA_after init_PB_after init_PC_after init_PD_after init_PE_after resistance_after

lemma pull_field:
  assumes "j < 4"
  shows "drop_bit (2 * j) (pulls c k) AND 3 = pull_val (PULL_WAKEUP_SRC (c (k + j)))"
proof -
  have "pulls c k AND 3 = pull_val (PULL_WAKEUP_SRC (c k))"
    "drop_bit 2 (pulls c k) AND 3 = pull_val (PULL_WAKEUP_SRC (c (k + 1)))"
    "drop_bit 4 (pulls c k) AND 3 = pull_val (PULL_WAKEUP_SRC (c (k + 2)))"
    "drop_bit 6 (pulls c k) AND 3 = pull_val (PULL_WAKEUP_SRC (c (k + 3)))"
    unfolding pulls_def
    by (cases "PULL_WAKEUP_SRC (c k)"; cases "PULL_WAKEUP_SRC (c (k + 1))"; cases "PULL_WAKEUP_SRC (c (k + 2))";
        cases "PULL_WAKEUP_SRC (c (k + 3))"; simp)+
  then show ?thesis using less_4 [OF assms] by (elim disjE) simp_all
qed

lemma pulls_at:
  assumes "p < 4" "h < 2"
  shows "ana (gpio_analog_resistance_init c s) (0x0e + 2 * p + h) = pulls (c p) (4 * h)"
proof -
  have "h = 0 \<or> h = 1" using assms(2) by auto
  then show ?thesis using less_4 [OF assms(1)] by (elim disjE) (simp_all add: resistance_after)
qed

text \<open>
After \<open>gpio_init\<close> every pin of ports A to D is as configured, whatever the registers held: input enable, output
disable, output level, drive strength and function, for ports B and C in the analog registers; and when
the analog registers are to be set, the pull resistor too.
\<close>

theorem gpio_init_configures:
  assumes "p < 4" "k < 8"
  shows "let t = gpio_init c en s in
    input_enabled p k t = INPUT_ENABLE (c p k) \<and> out_disabled p k t = (\<not> OUTPUT_ENABLE (c p k)) \<and>
    out_level p k t = DATA_OUT (c p k) \<and> strength p k t = DATA_STRENGTH (c p k) \<and>
    is_gpio p k t = (FUNC (c p k) = AS_GPIO) \<and>
    pull_of p k t = (if en then pull_val (PULL_WAKEUP_SRC (c p k)) else pull_of p k s)"
proof -
  have f: "input_enabled p k (gpio_init c en s) = INPUT_ENABLE (c p k) \<and>
    out_disabled p k (gpio_init c en s) = (\<not> OUTPUT_ENABLE (c p k)) \<and>
    out_level p k (gpio_init c en s) = DATA_OUT (c p k) \<and> strength p k (gpio_init c en s) = DATA_STRENGTH (c p k) \<and>
    is_gpio p k (gpio_init c en s) = (FUNC (c p k) = AS_GPIO)"
    using less_4 [OF assms(1)] assms(2)
    by (elim disjE) (simp_all add: gpio_init_def Let_def input_enabled_def out_disabled_def out_level_def strength_def is_gpio_def
        init_after bit_flags bit_lo_hi bit_setting bit_drop_bit_eq ana_if_def)
  have kk: "k div 4 < 2" "4 * (k div 4) + k mod 4 = k" using assms(2) by simp_all
  obtain t where t: "t = init_PE (c 4) (init_PD (c 3) (init_PC (c 2) (init_PB (c 1) (init_PA (c 0) s))))" by blast
  have "ana t (0x0e + 2 * p + k div 4) = ana s (0x0e + 2 * p + k div 4)"
    using assms(1) kk(1) by (simp add: t init_after)
  moreover have "gpio_init c en s = (if en then gpio_analog_resistance_init c t else t)"
    by (simp add: gpio_init_def t)
  ultimately have "ana (gpio_init c en s) (0x0e + 2 * p + k div 4) = (if en then pulls (c p) (4 * (k div 4)) else ana s (0x0e + 2 * p + k div 4))"
    using pulls_at [OF assms(1) kk(1)] by (cases en) (simp_all only: if_True if_False simp_thms)
  then have "pull_of p k (gpio_init c en s) = (if en then pull_val (PULL_WAKEUP_SRC (c p k)) else pull_of p k s)"
    using pull_field [of "k mod 4" "c p" "4 * (k div 4)"] kk(2) by (simp add: pull_of_def)
  then show ?thesis using f by (simp add: Let_def)
qed

lemma gpio_init_configures_witness:
  "pull_of 0 7 (gpio_init default_cfg True \<lparr>dig = (\<lambda>_. 0), ana = (\<lambda>_. 0)\<rparr>) = 1"
  using gpio_init_configures [of 0 7 default_cfg True "\<lparr>dig = (\<lambda>_. 0), ana = (\<lambda>_. 0)\<rparr>"]
  by (simp add: Let_def default_cfg_def default_PA_def plain_pin_def)

section \<open>Macros and functions\<close>

lemma push_field: "push_bit k (3 :: u8) = BIT k OR BIT (k + 1)"
  by (rule bit_word_eqI) (auto simp: bit_or_iff bit_push_bit_iff bit_3 bit_3_int)

lemma push_val: "push_bit k (pull_val PM_PIN_UP_DOWN_FLOAT) = 0" "push_bit k (pull_val PM_PIN_PULLUP_1M) = BIT k"
  "push_bit k (pull_val PM_PIN_PULLDOWN_100K) = BIT (k + 1)" "push_bit k (pull_val PM_PIN_PULLUP_10K) = BIT k OR BIT (k + 1)"
  using push_bit_push_bit [of k 1 "1 :: u8"] by (simp_all add: push_field) (simp_all add: BIT_def add.commute)

definition pull_kind :: "pull_macro \<Rightarrow> gpio_pull option" where
  "pull_kind m = (case m of PULL_FLOAT \<Rightarrow> Some PM_PIN_UP_DOWN_FLOAT | PULL_UP_1M \<Rightarrow> Some PM_PIN_PULLUP_1M
     | PULL_DOWN_100K \<Rightarrow> Some PM_PIN_PULLDOWN_100K | PULL_UP_10K \<Rightarrow> Some PM_PIN_PULLUP_10K | PULL_TOGGLE \<Rightarrow> None)"

text \<open>
The macro families agree with the functions: \<open>GPIO_Pxk_PULL_UP_10K\<close> and its siblings do what
\<open>gpio_setup_up_down_resistor\<close> does for the pin and resistor, and the output macros do what \<open>gpio_write\<close> and
\<open>gpio_toggle\<close> do.
\<close>

theorem gpio_macros_agree:
  assumes "p < 4" "k < 8" "pull_kind m = Some r"
  shows "GPIO_PULL p k m s = gpio_setup_up_down_resistor (pin_of p k) (pull_val r) s \<and>
    GPIO_OUTPUT p k OUTPUT_HIGH s = gpio_write (pin_of p k) True s \<and>
    GPIO_OUTPUT p k OUTPUT_LOW s = gpio_write (pin_of p k) False s \<and>
    GPIO_OUTPUT p k OUTPUT_TOGGLE s = gpio_toggle (pin_of p k) s"
proof -
  have g: "group8 (pin_of p k) = p" "pin_bit (pin_of p k) = BIT k"
    "(pin_of p k AND 0x0f0 \<noteq> 0) = (4 \<le> k)" "(ucast (drop_bit 8 (pin_of p k)) :: u8) = of_nat p"
    "(pin_of p k AND 0x11 \<noteq> 0) = (k mod 4 = 0)" "(pin_of p k AND 0x22 \<noteq> 0) = (k mod 4 = 1)"
    "(pin_of p k AND 0x44 \<noteq> 0) = (k mod 4 = 2)" "(pin_of p k AND 0x88 \<noteq> 0) = (k mod 4 = 3)"
    using geometryD [of p k] assms by (simp_all add: geometry_def Let_def)
  have "GPIO_PULL p k m s = gpio_setup_up_down_resistor (pin_of p k) (pull_val r) s"
  proof -
    have d: "k div 4 = (if 4 \<le> k then 1 else 0)" using assms(2) by (auto intro: div_nat_eqI)
    have a: "pull_areg p k = 0x0e + push_bit 1 (ucast (drop_bit 8 (pin_of p k))) + (if pin_of p k AND 0xf0 \<noteq> 0 then 1 else 0)"
      using less_4 [OF assms(1)] d unfolding g by (elim disjE) (simp_all add: pull_areg_def)
    have v: "(case m of PULL_FLOAT \<Rightarrow> v AND NOT (BIT (2 * j) OR BIT (2 * j + 1)) | PULL_UP_1M \<Rightarrow> (v AND NOT (BIT (2 * j + 1))) OR BIT (2 * j)
            | PULL_DOWN_100K \<Rightarrow> (v OR BIT (2 * j + 1)) AND NOT (BIT (2 * j)) | PULL_UP_10K \<Rightarrow> v OR (BIT (2 * j) OR BIT (2 * j + 1))
            | PULL_TOGGLE \<Rightarrow> v XOR BIT (2 * j)) =
        (v AND NOT (push_bit (2 * j) 3)) OR push_bit (2 * j) (pull_val r)" for j and v :: u8
    proof -
      have "push_bit (2 * j) (pull_val r) = (case m of PULL_FLOAT \<Rightarrow> 0 | PULL_UP_1M \<Rightarrow> BIT (2 * j) | PULL_DOWN_100K \<Rightarrow> BIT (2 * j + 1)
          | PULL_UP_10K \<Rightarrow> BIT (2 * j) OR BIT (2 * j + 1) | PULL_TOGGLE \<Rightarrow> undefined)" "m \<noteq> PULL_TOGGLE"
        using assms(3) by (cases m; auto simp: pull_kind_def push_val simp del: pull_val.simps)+
      then show ?thesis unfolding push_field
        by (cases m) (auto intro!: bit_word_eqI simp: bit_and_iff bit_or_iff bit_not_iff)
    qed
    have r3: "pull_val r AND 3 = pull_val r" by (cases r) simp_all
    have set: "gpio_setup_up_down_resistor (pin_of p k) (pull_val r) s =
        (let A = pull_areg p k; (v, s) = analog_read A s
         in analog_write A ((v AND NOT (push_bit (2 * (k mod 4)) 3)) OR push_bit (2 * (k mod 4)) (pull_val r)) s)"
    proof -
      have "k mod 4 < 4" by simp
      have n: "(0xfc :: u8) = -4" "(0xf3 :: u8) = -13" "(0xcf :: u8) = -49" "(0x3f :: u8) = -193" by simp_all
      from less_4 [OF \<open>k mod 4 < 4\<close>] show ?thesis
        unfolding gpio_setup_up_down_resistor_def a [symmetric] unfolding Let_def g r3
        by (elim disjE) (simp_all add: split_beta n)
    qed
    show ?thesis unfolding set GPIO_PULL_def Let_def split_beta v [where j = "k mod 4", symmetric] by simp
  qed
  then show ?thesis
    by (simp add: GPIO_OUTPUT_def gpio_write_def gpio_toggle_def BM_SEL_def BM_SET_def BM_CLR_def reg_gpio_out_def g mult.commute Let_def)
qed

lemma gpio_macros_agree_witness:
  "GPIO_PULL 1 4 PULL_UP_10K \<lparr>dig = (\<lambda>_. 0), ana = (\<lambda>_. 0)\<rparr> =
     gpio_setup_up_down_resistor GPIO_PB4 3 \<lparr>dig = (\<lambda>_. 0), ana = (\<lambda>_. 0)\<rparr>"
  using gpio_macros_agree [of 1 4 PULL_UP_10K PM_PIN_PULLUP_10K "\<lparr>dig = (\<lambda>_. 0), ana = (\<lambda>_. 0)\<rparr>"]
  by (simp add: pin_names pull_kind_def)

end
