(* ===== verification/SelSort.thy ===== *)
theory SelSort
  imports Prelude "HOL-Library.Multiset"
begin

text \<open>
  The two exchange sorts of \<open>proj/common/selection_sort.c\<close>: the same loops over an array of bytes and
  over an array of 32-bit words.
\<close>

text \<open>The exchange on an array held as a list; the same text sorts bytes and 32-bit words.\<close>

fun exchange :: "('a :: ord) list \<Rightarrow> nat \<Rightarrow> nat \<Rightarrow> 'a list" where
  "exchange arr i j = (if arr ! j < arr ! i then arr[i := arr ! j, j := arr ! i] else arr)"

function exchange_loop :: "('a :: ord) list \<Rightarrow> nat \<Rightarrow> nat \<Rightarrow> nat \<Rightarrow> 'a list" where
  "exchange_loop arr sz i j = (if j < sz then exchange_loop (exchange arr i j) sz i (j + 1) else arr)"
  by pat_completeness auto
termination by (relation "measure (\<lambda>(arr, sz, i, j). sz - j)") auto

function selection_loop :: "('a :: ord) list \<Rightarrow> nat \<Rightarrow> nat \<Rightarrow> 'a list" where
  "selection_loop arr sz i =
     (if i < sz then selection_loop (exchange_loop arr sz i (i + 1)) sz (i + 1) else arr)"
  by pat_completeness auto
termination by (relation "measure (\<lambda>(arr, sz, i). sz - i)") auto

declare exchange_loop.simps [simp del] selection_loop.simps [simp del]

definition selection_sort_char :: "u8 list \<Rightarrow> int \<Rightarrow> u8 list" where
  "selection_sort_char arr sz = selection_loop arr (nat sz) 0"

definition selection_sort_int :: "u32 list \<Rightarrow> int \<Rightarrow> u32 list" where
  "selection_sort_int arr sz = selection_loop arr (nat sz) 0"

lemma exchange_result:
  fixes arr :: "('a :: linorder) list"
  assumes "i < j" "j < length arr"
  shows "length (exchange arr i j) = length arr" "mset (exchange arr i j) = mset arr"
    "k \<noteq> i \<Longrightarrow> k \<noteq> j \<Longrightarrow> exchange arr i j ! k = arr ! k"
    "{exchange arr i j ! i, exchange arr i j ! j} = {arr ! i, arr ! j}"
    "exchange arr i j ! i \<le> arr ! i" "exchange arr i j ! i \<le> exchange arr i j ! j"
  using assms mset_swap [of j arr i] by (auto simp: nth_list_update list_update_swap)

lemma exchange_loop_run:
  fixes arr :: "('a :: linorder) list"
  assumes "i < j" "sz \<le> length arr" "\<forall>k. i < k \<and> k < j \<longrightarrow> arr ! i \<le> arr ! k"
    "r = exchange_loop arr sz i j"
  shows "length r = length arr \<and> mset r = mset arr \<and> (\<forall>k. k < i \<or> sz \<le> k \<and> j \<le> k \<longrightarrow> r ! k = arr ! k) \<and>
    (\<forall>k. i < k \<and> k < max j sz \<longrightarrow> r ! i \<le> r ! k) \<and>
    (\<forall>k. i \<le> k \<and> k < max j sz \<longrightarrow> (\<exists>l. i \<le> l \<and> l < max j sz \<and> r ! k = arr ! l))"
  using assms
proof (induction "sz - j" arbitrary: arr j)
  case 0
  then have "r = arr" by (subst (asm) exchange_loop.simps) simp
  then show ?case using 0 by (auto simp: max_def)
next
  case (Suc n)
  then have j: "j < sz" "n = sz - (j + 1)" by auto
  obtain a where a: "a = exchange arr i j" by blast
  note ex = exchange_result [OF Suc.prems(1) order_less_le_trans [OF j(1) Suc.prems(2)], folded a]
  have below: "\<forall>k. i < k \<and> k < j + 1 \<longrightarrow> a ! i \<le> a ! k"
  proof (intro allI impI)
    fix k assume k: "i < k \<and> k < j + 1"
    show "a ! i \<le> a ! k"
    proof (cases "k = j")
      case False
      then have "a ! k = arr ! k" "arr ! i \<le> arr ! k" using k ex(3) [of k] Suc.prems(3) by auto
      then show ?thesis using ex(5) by simp
    qed (simp add: ex(6))
  qed
  have "r = exchange_loop a sz i (j + 1)"
    using Suc.prems(4) j(1) by (simp add: exchange_loop.simps [of arr] a)
  from Suc.hyps(1) [OF j(2) _ _ below this]
  have IH: "length r = length a" "mset r = mset a" "\<forall>k. k < i \<or> sz \<le> k \<and> j + 1 \<le> k \<longrightarrow> r ! k = a ! k"
    "\<forall>k. i < k \<and> k < sz \<longrightarrow> r ! i \<le> r ! k"
    "\<forall>k. i \<le> k \<and> k < sz \<longrightarrow> (\<exists>l. i \<le> l \<and> l < sz \<and> r ! k = a ! l)"
    using Suc.prems(1,2) ex(1) j(1) by (simp_all add: max_def)
  have src: "\<exists>l'. i \<le> l' \<and> l' < sz \<and> a ! l = arr ! l'" if "i \<le> l" "l < sz" for l
  proof (cases "l = i \<or> l = j")
    case True
    then have "a ! l \<in> {arr ! i, arr ! j}" using ex(4) by (metis insert_iff)
    then show ?thesis using Suc.prems(1) j(1) by (auto intro: exI [of _ i] exI [of _ j])
  next
    case False
    then show ?thesis using ex(3) [of l] that by auto
  qed
  have "\<exists>l. i \<le> l \<and> l < sz \<and> r ! k = arr ! l" if "i \<le> k" "k < sz" for k
    using IH(5) src that by metis
  then show ?case using IH(1-4) ex(1-3) Suc.prems(1) j(1) by (auto simp: max_def)
qed

lemma selection_loop_run:
  fixes arr :: "('a :: linorder) list"
  assumes "sz \<le> length arr" "\<forall>a b. a < i \<and> a < b \<and> b < sz \<longrightarrow> arr ! a \<le> arr ! b" "r = selection_loop arr sz i"
  shows "length r = length arr \<and> mset r = mset arr \<and> (\<forall>k. sz \<le> k \<longrightarrow> r ! k = arr ! k) \<and>
    (\<forall>a b. a < b \<and> b < sz \<longrightarrow> r ! a \<le> r ! b)"
  using assms
proof (induction "sz - i" arbitrary: arr i)
  case 0
  then have "r = arr" by (subst (asm) selection_loop.simps) simp
  then show ?case using 0 by auto
next
  case (Suc n)
  then have i: "i < sz" "n = sz - (i + 1)" by auto
  obtain x where x: "x = exchange_loop arr sz i (i + 1)" by blast
  have none: "\<forall>k. i < k \<and> k < i + 1 \<longrightarrow> arr ! i \<le> arr ! k" by auto
  have "length x = length arr" "mset x = mset arr" "\<forall>k. k < i \<or> sz \<le> k \<longrightarrow> x ! k = arr ! k"
    and least: "\<forall>k. i < k \<and> k < sz \<longrightarrow> x ! i \<le> x ! k"
    and src: "\<forall>k. i \<le> k \<and> k < sz \<longrightarrow> (\<exists>l. i \<le> l \<and> l < sz \<and> x ! k = arr ! l)"
    using exchange_loop_run [OF _ Suc.prems(1) none x] i(1) by (simp_all add: max_def)
  note x3 = this
  have ord: "\<forall>a b. a < i + 1 \<and> a < b \<and> b < sz \<longrightarrow> x ! a \<le> x ! b"
  proof (intro allI impI)
    fix a b assume ab: "a < i + 1 \<and> a < b \<and> b < sz"
    consider "a = i" | "a < i" "b < i" | "a < i" "i \<le> b" using ab by linarith
    then show "x ! a \<le> x ! b"
    proof cases
      case 3
      then obtain l where "i \<le> l" "l < sz" "x ! b = arr ! l" using src ab by blast
      then show ?thesis using x3(3) Suc.prems(2) 3 by auto
    qed (use ab least x3(3) Suc.prems(2) in auto)
  qed
  have "r = selection_loop x sz (i + 1)"
    using Suc.prems(3) i(1) by (simp add: selection_loop.simps [of arr] x)
  from Suc.hyps(1) [OF i(2) _ ord this] show ?case using x3 Suc.prems(1) by auto
qed

text \<open>The array is cut at \<open>size\<close>: that part is sorted, what follows it stays.\<close>

lemma selection_loop_sorts:
  fixes arr :: "('a :: linorder) list"
  assumes "sz \<le> length arr"
  shows "selection_loop arr sz 0 = sort (take sz arr) @ drop sz arr"
proof -
  obtain r where r: "r = selection_loop arr sz 0" by blast
  have run: "length r = length arr" "mset r = mset arr" "\<forall>k. sz \<le> k \<longrightarrow> r ! k = arr ! k"
    "\<forall>a b. a < b \<and> b < sz \<longrightarrow> r ! a \<le> r ! b"
    using selection_loop_run [OF assms _ r] by auto
  have rest: "drop sz r = drop sz arr"
    by (rule nth_equalityI) (use run(1,3) assms in auto)
  have "sorted (take sz r)" using run(4) by (auto simp: sorted_iff_nth_mono_less)
  moreover have "mset (take sz r) = mset (take sz arr)"
  proof -
    have "mset (take sz r) + mset (drop sz r) = mset (take sz arr) + mset (drop sz arr)"
      using run(2) by (simp flip: mset_append)
    then show ?thesis using rest by simp
  qed
  ultimately have "take sz r = sort (take sz arr)" by (metis properties_for_sort)
  then show ?thesis using rest append_take_drop_id [of sz r] r by simp
qed

text \<open>
Both exchange sorts return the first \<open>size\<close> elements in ascending unsigned order and leave the rest
of the array alone.
\<close>

theorem selection_sort_sorts:
  assumes "sz \<le> int (length arr)" "sz' \<le> int (length arr')"
  shows "selection_sort_char arr sz = sort (take (nat sz) arr) @ drop (nat sz) arr \<and>
    selection_sort_int arr' sz' = sort (take (nat sz') arr') @ drop (nat sz') arr'"
  using selection_loop_sorts [of "nat sz" arr] selection_loop_sorts [of "nat sz'" arr'] assms
  by (simp add: selection_sort_char_def selection_sort_int_def)

lemma selection_sort_sorts_witness:
  "selection_sort_char [9, 200, 3, 7] 3 = [3, 9, 200, 7] \<and> selection_sort_int [5, 1] 2 = [1, 5]"
  using selection_sort_sorts [of 3 "[9, 200, 3, 7]" 2 "[5, 1]"] by (simp add: word_le_nat_alt)

end
