(* ===== verification/Qsort.thy ===== *)
theory Qsort
  imports Prelude "HOL-Library.Multiset" "HOL-Library.Monad_Syntax"
begin

text \<open>
  The byte-wise in-place quicksort of \<open>proj/common/qsort.c\<close>, with its explicit stack of 32 frames
  and its insertion sort for parts of at most four elements beside the pivot. Memory is a map from addresses to bytes (the stack lies elsewhere);
  addresses are integers, so that the pointer one element before the array is a value like any
  other. The callback \<open>compare\<close> sees its two elements as byte lists. The loops may run forever for
  an element size of zero, so they are partial functions: \<open>None\<close> is a call that does not return.
\<close>

section \<open>qsort.c\<close>

type_synonym bmem = "int \<Rightarrow> u8"
type_synonym comparison = "u8 list \<Rightarrow> u8 list \<Rightarrow> int"

datatype sort_error = Stack_overflow

record stackframe =
  sf_left :: int
  sf_right :: int

definition elem :: "bmem \<Rightarrow> int \<Rightarrow> nat \<Rightarrow> u8 list" where
  "elem m a n = map (\<lambda>i. m (a + int i)) [0..<n]"

primrec SWAP :: "nat \<Rightarrow> int \<Rightarrow> int \<Rightarrow> bmem \<Rightarrow> bmem" where
  "SWAP 0 a b m = m"
| "SWAP (Suc n) a b m = (let swap_byte = m b in SWAP n (a + 1) (b + 1) (m(b := m a, a := swap_byte)))"

primrec swap_next_bytes :: "nat \<Rightarrow> nat \<Rightarrow> int \<Rightarrow> bmem \<Rightarrow> bmem" where
  "swap_next_bytes sz 0 a m = m"
| "swap_next_bytes sz (Suc n) a m = (let swap_byte = m (a + int sz) in
     swap_next_bytes sz n (a + 1) (m(a + int sz := m a, a := swap_byte)))"

definition SWAP_NEXT :: "nat \<Rightarrow> int \<Rightarrow> bmem \<Rightarrow> bmem" where
  "SWAP_NEXT sz a m = swap_next_bytes sz sz a m"

text \<open>The scan from left to right: smaller elements move to \<open>store\<close>.\<close>

partial_function (option) part_loop ::
  "comparison \<Rightarrow> nat \<Rightarrow> int \<Rightarrow> int \<Rightarrow> int \<Rightarrow> bmem \<Rightarrow> (bmem \<times> int) option" where
  "part_loop compare sz right index store m =
     (if index < right then
        (if 0 < compare (elem m right sz) (elem m index sz)
         then part_loop compare sz right (index + int sz) (store + int sz) (SWAP sz index store m)
         else part_loop compare sz right (index + int sz) store m)
      else Some (m, store))"

text \<open>The middle of the range, rounded to an element by the mask of the element size.\<close>

definition pivot_offset :: "nat \<Rightarrow> int \<Rightarrow> int" where
  "pivot_offset sz d = drop_bit 1 d AND NOT (int sz - 1)"

definition partition_range :: "comparison \<Rightarrow> nat \<Rightarrow> int \<Rightarrow> int \<Rightarrow> bmem \<Rightarrow> (bmem \<times> int) option" where
  "partition_range compare sz left right m = do {
     (m, store) \<leftarrow> part_loop compare sz right left left
       (SWAP sz (left + pivot_offset sz (right - left)) right m);
     Some (SWAP sz right store m, store) }"

partial_function (option) insertion_inner :: "comparison \<Rightarrow> nat \<Rightarrow> int \<Rightarrow> int \<Rightarrow> bmem \<Rightarrow> bmem option" where
  "insertion_inner compare sz LEFT trail m =
     (if LEFT \<le> trail \<and> 0 < compare (elem m trail sz) (elem m (trail + int sz) sz)
      then insertion_inner compare sz LEFT (trail - int sz) (SWAP_NEXT sz trail m)
      else Some m)"

text \<open>The two insertion loops differ in their bound: \<open>index < store\<close> and \<open>index <= right\<close>.\<close>

partial_function (option) insertion_left :: "comparison \<Rightarrow> nat \<Rightarrow> int \<Rightarrow> int \<Rightarrow> int \<Rightarrow> bmem \<Rightarrow> bmem option" where
  "insertion_left compare sz left store index m =
     (if index < store then do {
        m \<leftarrow> insertion_inner compare sz left (index - int sz) m;
        insertion_left compare sz left store (index + int sz) m }
      else Some m)"

partial_function (option) insertion_right :: "comparison \<Rightarrow> nat \<Rightarrow> int \<Rightarrow> int \<Rightarrow> int \<Rightarrow> bmem \<Rightarrow> bmem option" where
  "insertion_right compare sz store right index m =
     (if index \<le> right then do {
        m \<leftarrow> insertion_inner compare sz (store + int sz) (index - int sz) m;
        insertion_right compare sz store right (index + int sz) m }
      else Some m)"

text \<open>The stack: 32 frames on the 32-bit core, the top frame first.\<close>

definition SORT_STACK :: nat where "SORT_STACK = 8 * 4"

definition push_frame :: "stackframe \<Rightarrow> stackframe list \<Rightarrow> sort_error + stackframe list" where
  "push_frame f st = (if length st < SORT_STACK then Inr (f # st) else Inl Stack_overflow)"

type_synonym sort_state = "sort_error + bmem \<times> stackframe list"

definition pushed :: "bmem \<Rightarrow> sort_error + stackframe list \<Rightarrow> sort_state" where
  "pushed m r = (case r of Inl e \<Rightarrow> Inl e | Inr st \<Rightarrow> Inr (m, st))"

definition threshold :: "nat \<Rightarrow> int" where
  "threshold sz = push_bit 2 (int sz)"

definition SORT_LEFT :: "comparison \<Rightarrow> nat \<Rightarrow> int \<Rightarrow> int \<Rightarrow> bmem \<times> stackframe list \<Rightarrow> sort_state option" where
  "SORT_LEFT compare sz left store = (\<lambda>(m, st).
     if store - left \<le> threshold sz then do {
       m \<leftarrow> insertion_left compare sz left store (left + int sz) m;
       Some (Inr (m, st)) }
     else Some (if left < store - int sz
       then pushed m (push_frame \<lparr>sf_left = left, sf_right = store - int sz\<rparr> st) else Inr (m, st)))"

definition SORT_RIGHT :: "comparison \<Rightarrow> nat \<Rightarrow> int \<Rightarrow> int \<Rightarrow> bmem \<times> stackframe list \<Rightarrow> sort_state option" where
  "SORT_RIGHT compare sz store right = (\<lambda>(m, st).
     if right - store \<le> threshold sz then do {
       m \<leftarrow> insertion_right compare sz store right (store + push_bit 1 (int sz)) m;
       Some (Inr (m, st)) }
     else Some (if store + int sz < right
       then pushed m (push_frame \<lparr>sf_left = store + int sz, sf_right = right\<rparr> st) else Inr (m, st)))"

definition and_then :: "sort_state option \<Rightarrow> (bmem \<times> stackframe list \<Rightarrow> sort_state option) \<Rightarrow> sort_state option" where
  "and_then x f = (case x of None \<Rightarrow> None | Some (Inl e) \<Rightarrow> Some (Inl e) | Some (Inr s) \<Rightarrow> f s)"

definition sort_frame :: "comparison \<Rightarrow> nat \<Rightarrow> stackframe \<Rightarrow> bmem \<times> stackframe list \<Rightarrow> sort_state option" where
  "sort_frame compare sz f = (\<lambda>(m, st). let left = sf_left f; right = sf_right f in do {
     (m, store) \<leftarrow> partition_range compare sz left right m;
     if store - left < right - store
     then and_then (SORT_RIGHT compare sz store right (m, st)) (SORT_LEFT compare sz left store)
     else and_then (SORT_LEFT compare sz left store (m, st)) (SORT_RIGHT compare sz store right) })"

partial_function (option) sort_loop ::
  "comparison \<Rightarrow> nat \<Rightarrow> bmem \<Rightarrow> stackframe list \<Rightarrow> (sort_error + bmem) option" where
  "sort_loop compare sz m st =
     (if st = [] then Some (Inr m)
      else do {
        s \<leftarrow> sort_frame compare sz (hd st) (m, tl st);
        if isl s then Some (Inl (projl s)) else sort_loop compare sz (fst (projr s)) (snd (projr s)) })"

declare part_loop.simps [code] insertion_inner.simps [code] insertion_left.simps [code]
  insertion_right.simps [code] sort_loop.simps [code]

definition qsort :: "int \<Rightarrow> nat \<Rightarrow> nat \<Rightarrow> comparison \<Rightarrow> bmem \<Rightarrow> (sort_error + bmem) option" where
  "qsort array len sz compare m =
     sort_loop compare sz m [\<lparr>sf_left = array, sf_right = array + int sz * (int len - 1)\<rparr>]"

section \<open>Swapping elements\<close>

lemma SWAP_eq:
  "a = b \<or> a + int n \<le> b \<or> b + int n \<le> a \<Longrightarrow>
     SWAP n a b m x = (if a \<le> x \<and> x < a + int n then m (b + (x - a))
       else if b \<le> x \<and> x < b + int n then m (a + (x - b)) else m x)"
proof (induction n arbitrary: a b m)
  case 0
  then show ?case by auto
next
  case (Suc n)
  have "a + 1 = b + 1 \<or> a + 1 + int n \<le> b + 1 \<or> b + 1 + int n \<le> a + 1" using Suc.prems by auto
  note IH = Suc.IH [OF this, of "m(b := m a, a := m b)"]
  have "x = a \<or> x = b \<or> (x \<noteq> a \<and> x \<noteq> b)" by blast
  then show ?case using Suc.prems
    by (auto simp: IH Let_def)
qed

lemma swap_next_bytes_eq: "swap_next_bytes sz n a m = SWAP n a (a + int sz) m"
  by (induction n arbitrary: a m) (simp_all add: Let_def algebra_simps)

lemma SWAP_NEXT_eq: "SWAP_NEXT sz a m = SWAP sz a (a + int sz) m"
  by (simp add: SWAP_NEXT_def swap_next_bytes_eq)


section \<open>Elements\<close>

definition view :: "int \<Rightarrow> nat \<Rightarrow> bmem \<Rightarrow> int \<Rightarrow> u8 list" where
  "view b sz m k = elem m (b + k * int sz) sz"

definition slot :: "int \<Rightarrow> nat \<Rightarrow> int \<Rightarrow> int" where
  "slot b sz k = b + k * int sz"

lemma slot_mono: "0 < sz \<Longrightarrow> slot b sz i < slot b sz j \<longleftrightarrow> i < j"
  by (simp add: slot_def)

lemma slot_le: "0 < sz \<Longrightarrow> slot b sz i \<le> slot b sz j \<longleftrightarrow> i \<le> j"
  by (simp add: slot_def)

lemma slot_next: "slot b sz k + int sz = slot b sz (k + 1)" "slot b sz k - int sz = slot b sz (k - 1)"
  by (simp_all add: slot_def algebra_simps)

lemma slot_gap: "i < j \<Longrightarrow> slot b sz i + int sz \<le> slot b sz j"
proof -
  assume "i < j"
  then have "(i + 1) * int sz \<le> j * int sz" by (intro mult_right_mono) auto
  then show ?thesis by (simp add: slot_def algebra_simps)
qed

lemma view_slot: "elem m (slot b sz k) sz = view b sz m k"
  by (simp add: view_def slot_def)

lemma view_cong: "(\<And>x. slot b sz k \<le> x \<Longrightarrow> x < slot b sz k + int sz \<Longrightarrow> m x = m' x) \<Longrightarrow> view b sz m k = view b sz m' k"
  by (auto simp: view_def elem_def slot_def)

lemma view_SWAP:
  "view b sz (SWAP sz (slot b sz i) (slot b sz j) m) = (view b sz m)(i := view b sz m j, j := view b sz m i)"
proof (rule ext)
  fix k
  have apart: "slot b sz i = slot b sz j \<or> slot b sz i + int sz \<le> slot b sz j \<or> slot b sz j + int sz \<le> slot b sz i"
    using slot_gap [of i j b sz] slot_gap [of j i b sz] by (cases i j rule: linorder_cases) auto
  note at = SWAP_eq [OF apart, of m]
  consider "k = j" | "k = i" "i \<noteq> j" | "k \<noteq> i" "k \<noteq> j" by blast
  then show "view b sz (SWAP sz (slot b sz i) (slot b sz j) m) k
      = ((view b sz m)(i := view b sz m j, j := view b sz m i)) k"
  proof cases
    case 1
    then show ?thesis using apart by (auto simp: view_def elem_def at simp flip: slot_def)
  next
    case 2
    then show ?thesis using apart by (auto simp: view_def elem_def at simp flip: slot_def)
  next
    case 3
    have "view b sz (SWAP sz (slot b sz i) (slot b sz j) m) k = view b sz m k"
      by (rule view_cong, subst at)
        (use 3 slot_gap [of k i b sz] slot_gap [of i k b sz] slot_gap [of k j b sz] slot_gap [of j k b sz] in
          \<open>cases k i rule: linorder_cases; cases k j rule: linorder_cases; auto\<close>)
    then show ?thesis using 3 by simp
  qed
qed

lemma SWAP_outside:
  assumes "lo \<le> i" "i \<le> hi" "lo \<le> j" "j \<le> hi" "x < slot b sz lo \<or> slot b sz (hi + 1) \<le> x"
  shows "SWAP sz (slot b sz i) (slot b sz j) m x = m x"
proof -
  have apart: "slot b sz i = slot b sz j \<or> slot b sz i + int sz \<le> slot b sz j \<or> slot b sz j + int sz \<le> slot b sz i"
    using slot_gap [of i j b sz] slot_gap [of j i b sz] by (cases i j rule: linorder_cases) auto
  have "slot b sz lo \<le> slot b sz i" "slot b sz lo \<le> slot b sz j"
    using assms slot_gap [of lo i b sz] slot_gap [of lo j b sz] by (auto simp: order_le_less)
  moreover have "slot b sz i + int sz \<le> slot b sz (hi + 1)" "slot b sz j + int sz \<le> slot b sz (hi + 1)"
    using assms slot_gap [of i "hi + 1" b sz] slot_gap [of j "hi + 1" b sz] by auto
  ultimately show ?thesis using assms(5) by (auto simp: SWAP_eq [OF apart])
qed

section \<open>Rearrangements\<close>

text \<open>\<open>m'\<close> has the elements \<open>lo..hi\<close> of \<open>m\<close> in some order and every other byte of \<open>m\<close>.\<close>

definition rearr :: "int \<Rightarrow> nat \<Rightarrow> int \<Rightarrow> int \<Rightarrow> bmem \<Rightarrow> bmem \<Rightarrow> bool" where
  "rearr b sz lo hi m m' \<longleftrightarrow>
     (\<forall>x. x < slot b sz lo \<or> slot b sz (hi + 1) \<le> x \<longrightarrow> m' x = m x) \<and>
     image_mset (view b sz m') (mset_set {lo..hi}) = image_mset (view b sz m) (mset_set {lo..hi})"

lemma rearr_refl [simp]: "rearr b sz lo hi m m"
  by (simp add: rearr_def)

lemma rearr_trans: "rearr b sz lo hi m m' \<Longrightarrow> rearr b sz lo hi m' m'' \<Longrightarrow> rearr b sz lo hi m m''"
  by (simp add: rearr_def)

lemma rearr_out: "rearr b sz lo hi m m' \<Longrightarrow> k < lo \<or> hi < k \<Longrightarrow> view b sz m' k = view b sz m k"
  using slot_gap [of k lo b sz] slot_gap [of hi k b sz] slot_gap [of "hi + 1" k b sz]
  by (intro view_cong) (auto simp: rearr_def slot_next not_less order_le_less)

lemma rearr_value:
  assumes "rearr b sz lo hi m m'" "lo \<le> k" "k \<le> hi"
  obtains j where "lo \<le> j" "j \<le> hi" "view b sz m' k = view b sz m j"
proof -
  have "view b sz m' k \<in># image_mset (view b sz m') (mset_set {lo..hi})" using assms by auto
  also have "image_mset (view b sz m') (mset_set {lo..hi}) = image_mset (view b sz m) (mset_set {lo..hi})"
    using assms(1) by (simp add: rearr_def)
  finally have "view b sz m' k \<in> view b sz m ` {lo..hi}" by simp
  then show ?thesis using that by auto
qed

lemma rearr_source:
  assumes r: "rearr b sz lo hi m m'"
  obtains j where "view b sz m' k = view b sz m j" "if lo \<le> k \<and> k \<le> hi then lo \<le> j \<and> j \<le> hi else j = k"
proof (cases "lo \<le> k \<and> k \<le> hi")
  case True
  then show ?thesis using rearr_value [OF r] that by (metis (full_types))
next
  case False
  then have "view b sz m' k = view b sz m k" using rearr_out [OF r, of k] by auto
  then show ?thesis using that [of k] False by auto
qed

lemma rearr_mono:
  assumes "rearr b sz lo hi m m'" "lo' \<le> lo" "hi \<le> hi'"
  shows "rearr b sz lo' hi' m m'"
proof -
  have "slot b sz lo' \<le> slot b sz lo" "slot b sz (hi + 1) \<le> slot b sz (hi' + 1)"
    using assms(2,3) by (auto simp: slot_def mult_right_mono)
  then have out: "m' x = m x" if "x < slot b sz lo' \<or> slot b sz (hi' + 1) \<le> x" for x
    using assms(1) that by (auto simp: rearr_def)
  have split: "mset_set {lo'..hi'} = mset_set {lo..hi} + mset_set ({lo'..hi'} - {lo..hi})"
    using assms(2,3) by (subst mset_set_Union [symmetric]) (auto intro!: arg_cong [of _ _ mset_set])
  have "image_mset (view b sz m') (mset_set ({lo'..hi'} - {lo..hi}))
      = image_mset (view b sz m) (mset_set ({lo'..hi'} - {lo..hi}))"
    by (rule image_mset_cong) (use rearr_out [OF assms(1)] in auto)
  then show ?thesis using out assms(1) by (simp add: rearr_def split)
qed

lemma image_mset_swap:
  assumes "i \<in> A" "j \<in> A" "finite A"
  shows "image_mset (f(i := f j, j := f i)) (mset_set A) = image_mset f (mset_set A)"
proof -
  obtain t where t: "t = (\<lambda>k. if k = i then j else if k = j then i else k)" by blast
  have img: "t ` A = A" using assms t by (auto simp: image_iff)
  have inj: "inj_on t A" using t by (auto simp: inj_on_def split: if_splits)
  have "f(i := f j, j := f i) = f \<circ> t" using t by auto
  then have "image_mset (f(i := f j, j := f i)) (mset_set A) = image_mset f (image_mset t (mset_set A))"
    by (simp add: multiset.map_comp)
  also have "\<dots> = image_mset f (mset_set A)" using image_mset_mset_set [OF inj] img by simp
  finally show ?thesis .
qed

lemma rearr_SWAP:
  assumes "lo \<le> i" "i \<le> hi" "lo \<le> j" "j \<le> hi"
  shows "rearr b sz lo hi m (SWAP sz (slot b sz i) (slot b sz j) m)"
  using assms SWAP_outside [OF assms] by (auto simp: rearr_def view_SWAP image_mset_swap)

end
