(* ===== verification/QsortFacts.thy ===== *)
theory QsortFacts
  imports Qsort CString
begin

text \<open>
  Correctness of \<open>qsort\<close> for element sizes that are powers of two: it returns, its 32 frames
  suffice, the array is sorted, its elements are the old ones and no other byte changes.
\<close>

lemma pivot_offset_slot: "pivot_offset (2 ^ e) (slot b (2 ^ e) hi - slot b (2 ^ e) lo) = (hi - lo) div 2 * int (2 ^ e)"
proof -
  have "slot b (2 ^ e) hi - slot b (2 ^ e) lo = push_bit e (hi - lo)"
    by (simp add: slot_def push_bit_eq_mult algebra_simps)
  moreover have "drop_bit 1 (push_bit e (hi - lo)) AND NOT (Bit_Operations.mask e) = push_bit e (drop_bit 1 (hi - lo))"
    by (rule bit_eqI) (auto simp: bit_simps Suc_diff_le)
  ultimately show ?thesis
    by (simp add: pivot_offset_def mask_eq_exp_minus_1 push_bit_eq_mult drop_bit_eq_div)
qed

lemma part_loop_run:
  assumes "0 < sz" "lo \<le> st" "st \<le> i" "i \<le> hi"
    "\<forall>k. lo \<le> k \<and> k < st \<longrightarrow> 0 < compare (view b sz m hi) (view b sz m k)"
    "\<forall>k. st \<le> k \<and> k < i \<longrightarrow> compare (view b sz m hi) (view b sz m k) \<le> 0"
  shows "\<exists>m' p. part_loop compare sz (slot b sz hi) (slot b sz i) (slot b sz st) m = Some (m', slot b sz p) \<and>
    st \<le> p \<and> p \<le> hi \<and> rearr b sz lo (hi - 1) m m' \<and>
    (\<forall>k. lo \<le> k \<and> k < p \<longrightarrow> 0 < compare (view b sz m hi) (view b sz m' k)) \<and>
    (\<forall>k. p \<le> k \<and> k < hi \<longrightarrow> compare (view b sz m hi) (view b sz m' k) \<le> 0)"
  using assms
proof (induction "nat (hi - i)" arbitrary: i st m)
  case 0
  then show ?case by (subst part_loop.simps) (auto simp: slot_mono)
next
  case (Suc n)
  then have i: "i < hi" "n = nat (hi - (i + 1))" by auto
  show ?case
  proof (cases "0 < compare (view b sz m hi) (view b sz m i)")
    case True
    obtain m1 where m1: "m1 = SWAP sz (slot b sz i) (slot b sz st) m" by blast
    have v1: "view b sz m1 = (view b sz m)(i := view b sz m st, st := view b sz m i)"
      unfolding m1 by (rule view_SWAP)
    have "\<exists>m' p. part_loop compare sz (slot b sz hi) (slot b sz (i + 1)) (slot b sz (st + 1)) m1 = Some (m', slot b sz p) \<and>
        st + 1 \<le> p \<and> p \<le> hi \<and> rearr b sz lo (hi - 1) m1 m' \<and>
        (\<forall>k. lo \<le> k \<and> k < p \<longrightarrow> 0 < compare (view b sz m1 hi) (view b sz m' k)) \<and>
        (\<forall>k. p \<le> k \<and> k < hi \<longrightarrow> compare (view b sz m1 hi) (view b sz m' k) \<le> 0)"
      by (rule Suc.hyps(1) [OF i(2)]) (use Suc.prems i(1) True in \<open>auto simp: v1\<close>)
    moreover have "rearr b sz lo (hi - 1) m m1" unfolding m1
      by (rule rearr_SWAP) (use Suc.prems i(1) in auto)
    moreover have "view b sz m1 hi = view b sz m hi" using i(1) Suc.prems by (simp add: v1)
    moreover have "part_loop compare sz (slot b sz hi) (slot b sz i) (slot b sz st) m
        = part_loop compare sz (slot b sz hi) (slot b sz (i + 1)) (slot b sz (st + 1)) m1"
      using Suc.prems(1) i(1) True by (subst part_loop.simps) (simp add: slot_mono slot_next view_slot m1)
    ultimately show ?thesis using rearr_trans by (smt (verit, best))
  next
    case False
    have "\<exists>m' p. part_loop compare sz (slot b sz hi) (slot b sz (i + 1)) (slot b sz st) m = Some (m', slot b sz p) \<and>
        st \<le> p \<and> p \<le> hi \<and> rearr b sz lo (hi - 1) m m' \<and>
        (\<forall>k. lo \<le> k \<and> k < p \<longrightarrow> 0 < compare (view b sz m hi) (view b sz m' k)) \<and>
        (\<forall>k. p \<le> k \<and> k < hi \<longrightarrow> compare (view b sz m hi) (view b sz m' k) \<le> 0)"
    proof (rule Suc.hyps(1) [OF i(2)])
      show "\<forall>k. st \<le> k \<and> k < i + 1 \<longrightarrow> compare (view b sz m hi) (view b sz m k) \<le> 0"
      proof (intro allI impI)
        fix k assume "st \<le> k \<and> k < i + 1"
        then have "k = i \<or> (st \<le> k \<and> k < i)" by auto
        then show "compare (view b sz m hi) (view b sz m k) \<le> 0" using Suc.prems(6) False by auto
      qed
    qed (use Suc.prems i(1) in auto)
    moreover have "part_loop compare sz (slot b sz hi) (slot b sz i) (slot b sz st) m
        = part_loop compare sz (slot b sz hi) (slot b sz (i + 1)) (slot b sz st) m"
      using Suc.prems(1) i(1) False by (subst part_loop.simps) (simp add: slot_mono slot_next view_slot)
    ultimately show ?thesis by simp
  qed
qed

text \<open>Frames as index ranges; the one on top of the stack comes first.\<close>

definition frame :: "int \<Rightarrow> nat \<Rightarrow> int \<times> int \<Rightarrow> stackframe" where
  "frame b sz f = \<lparr>sf_left = slot b sz (fst f), sf_right = slot b sz (snd f)\<rparr>"

definition covered :: "(int \<times> int) list \<Rightarrow> int \<Rightarrow> int \<Rightarrow> bool" where
  "covered fs j k \<longleftrightarrow> (\<exists>f \<in> set fs. fst f \<le> j \<and> k \<le> snd f)"

definition apart :: "int \<times> int \<Rightarrow> int \<times> int \<Rightarrow> bool" where
  "apart f g \<longleftrightarrow> snd f < fst g \<or> snd g < fst f"

definition width :: "int \<times> int \<Rightarrow> int" where
  "width f = snd f - fst f + 1"

primrec fits :: "(int \<times> int) list \<Rightarrow> bool" where
  "fits [] \<longleftrightarrow> True"
| "fits (f # fs) \<longleftrightarrow> width f * 2 ^ length fs \<le> 2 ^ SORT_STACK \<and> fits fs"

lemma room: "width f * 2 ^ n \<le> 2 ^ SORT_STACK \<Longrightarrow> 1 < width f \<Longrightarrow> n < SORT_STACK"
proof (rule ccontr)
  assume w: "width f * 2 ^ n \<le> 2 ^ SORT_STACK" "1 < width f" "\<not> n < SORT_STACK"
  then have "(2 :: int) ^ SORT_STACK \<le> 2 ^ n" by (intro power_increasing) auto
  moreover have "1 * 2 ^ n < width f * 2 ^ n" using w(2) by (intro mult_strict_right_mono) auto
  ultimately show False using w(1) by linarith
qed

lemma fits_room: "fits (f # fs) \<Longrightarrow> 1 < width f \<Longrightarrow> length fs < SORT_STACK"
  using room [of f "length fs"] by simp

lemma fits_less:
  assumes "fits (f # gs)" "width g \<le> width f"
  shows "fits (g # gs)"
proof -
  have "width g * 2 ^ length gs \<le> width f * 2 ^ length gs"
    using assms(2) by (intro mult_right_mono) auto
  moreover have "width f * 2 ^ length gs \<le> 2 ^ SORT_STACK" "fits gs" using assms(1) by auto
  ultimately show ?thesis unfolding fits.simps by linarith
qed

lemma fits_halves:
  assumes "fits (f # gs)" "2 * width x \<le> width f" "width y \<le> width f"
  shows "fits (x # y # gs)"
proof -
  have "2 * width x * 2 ^ length gs \<le> width f * 2 ^ length gs"
    using assms(2) by (intro mult_right_mono) auto
  moreover have "2 * width x * 2 ^ length gs = width x * 2 ^ length (y # gs)" by simp
  moreover have "width f * 2 ^ length gs \<le> 2 ^ SORT_STACK" using assms(1) by simp
  ultimately have "width x * 2 ^ length (y # gs) \<le> 2 ^ SORT_STACK" by linarith
  then show ?thesis using fits_less [OF assms(1,3)] unfolding fits.simps by blast
qed

locale sort_order =
  fixes compare :: comparison
  assumes compare_total: "compare x y \<le> 0 \<or> compare y x \<le> 0"
    and compare_trans: "compare x y \<le> 0 \<Longrightarrow> compare y z \<le> 0 \<Longrightarrow> compare x z \<le> 0"
begin

lemma partition_run:
  assumes "sz = 2 ^ e" "lo \<le> hi"
  shows "\<exists>m' p. partition_range compare sz (slot b sz lo) (slot b sz hi) m = Some (m', slot b sz p) \<and>
    lo \<le> p \<and> p \<le> hi \<and> rearr b sz lo hi m m' \<and>
    (\<forall>k. lo \<le> k \<and> k < p \<longrightarrow> compare (view b sz m' k) (view b sz m' p) \<le> 0) \<and>
    (\<forall>k. p < k \<and> k \<le> hi \<longrightarrow> compare (view b sz m' p) (view b sz m' k) \<le> 0)"
proof -
  obtain c where c: "c = lo + (hi - lo) div 2" by blast
  have cb: "lo \<le> c" "c \<le> hi" using assms(2) c by auto
  have mid: "slot b sz lo + pivot_offset sz (slot b sz hi - slot b sz lo) = slot b sz c"
    unfolding assms(1) pivot_offset_slot c by (simp add: slot_def algebra_simps)
  obtain m1 where m1: "m1 = SWAP sz (slot b sz c) (slot b sz hi) m" by blast
  have pos: "0 < sz" using assms(1) by simp
  obtain m2 p where run: "part_loop compare sz (slot b sz hi) (slot b sz lo) (slot b sz lo) m1 = Some (m2, slot b sz p)"
    and p: "lo \<le> p" "p \<le> hi" and r2: "rearr b sz lo (hi - 1) m1 m2"
    and small: "\<forall>k. lo \<le> k \<and> k < p \<longrightarrow> 0 < compare (view b sz m1 hi) (view b sz m2 k)"
    and big: "\<forall>k. p \<le> k \<and> k < hi \<longrightarrow> compare (view b sz m1 hi) (view b sz m2 k) \<le> 0"
    using part_loop_run [OF pos order_refl order_refl assms(2), of compare b m1] by auto
  have piv: "view b sz m2 hi = view b sz m1 hi" by (rule rearr_out [OF r2]) simp
  obtain m3 where m3: "m3 = SWAP sz (slot b sz hi) (slot b sz p) m2" by blast
  have v3: "view b sz m3 = (view b sz m2)(hi := view b sz m2 p, p := view b sz m2 hi)"
    unfolding m3 by (rule view_SWAP)
  have "rearr b sz lo hi m m1" unfolding m1 by (rule rearr_SWAP) (use cb in auto)
  moreover have "rearr b sz lo hi m1 m2" using r2 by (rule rearr_mono) auto
  moreover have "rearr b sz lo hi m2 m3" unfolding m3 by (rule rearr_SWAP) (use p in auto)
  ultimately have r: "rearr b sz lo hi m m3" by (blast intro: rearr_trans)
  have eq: "partition_range compare sz (slot b sz lo) (slot b sz hi) m = Some (m3, slot b sz p)"
    by (simp add: partition_range_def mid run m3 flip: m1)
  have low: "compare (view b sz m3 k) (view b sz m3 p) \<le> 0" if "lo \<le> k \<and> k < p" for k
    using that small [rule_format, OF that] p compare_total [of "view b sz m2 k" "view b sz m2 hi"]
    by (auto simp: v3 piv)
  have high: "compare (view b sz m3 p) (view b sz m3 k) \<le> 0" if "p < k \<and> k \<le> hi" for k
    using that big [rule_format, of k] big [rule_format, of p] p by (auto simp: v3 piv)
  show ?thesis using eq p r low high by blast
qed

definition sorted_in :: "int \<Rightarrow> nat \<Rightarrow> int \<Rightarrow> int \<Rightarrow> bmem \<Rightarrow> bool" where
  "sorted_in b sz lo hi m \<longleftrightarrow>
     (\<forall>j k. lo \<le> j \<and> j < k \<and> k \<le> hi \<longrightarrow> compare (view b sz m j) (view b sz m k) \<le> 0)"

lemma inner_run:
  assumes "0 < sz" "lo - 1 \<le> t" "t + 1 \<le> hi"
    "\<forall>j k. lo \<le> j \<and> j < k \<and> k \<le> hi \<and> j \<noteq> t + 1 \<and> k \<noteq> t + 1 \<longrightarrow> compare (view b sz m j) (view b sz m k) \<le> 0"
    "\<forall>k. t + 1 < k \<and> k \<le> hi \<longrightarrow> compare (view b sz m (t + 1)) (view b sz m k) \<le> 0"
  shows "\<exists>m'. insertion_inner compare sz (slot b sz lo) (slot b sz t) m = Some m' \<and>
    rearr b sz lo hi m m' \<and> sorted_in b sz lo hi m'"
  using assms
proof (induction "nat (t - lo + 1)" arbitrary: t m)
  case 0
  then have t: "t = lo - 1" by simp
  have "insertion_inner compare sz (slot b sz lo) (slot b sz t) m = Some m"
    using 0(2) t by (subst insertion_inner.simps) (simp add: slot_le)
  moreover have "compare (view b sz m j) (view b sz m k) \<le> 0" if "lo \<le> j \<and> j < k \<and> k \<le> hi" for j k
    using that 0 t by (cases "j = lo") auto
  ultimately show ?case by (simp add: sorted_in_def)
next
  case (Suc n)
  then have t: "lo \<le> t" "n = nat (t - 1 - lo + 1)" by auto
  show ?case
  proof (cases "0 < compare (view b sz m t) (view b sz m (t + 1))")
    case True
    obtain m1 where m1: "m1 = SWAP sz (slot b sz t) (slot b sz (t + 1)) m" by blast
    have v1: "view b sz m1 = (view b sz m)(t := view b sz m (t + 1), t + 1 := view b sz m t)"
      unfolding m1 by (rule view_SWAP)
    have le: "compare (view b sz m (t + 1)) (view b sz m t) \<le> 0"
      using True compare_total [of "view b sz m t" "view b sz m (t + 1)"] by auto
    have "\<exists>m'. insertion_inner compare sz (slot b sz lo) (slot b sz (t - 1)) m1 = Some m' \<and>
        rearr b sz lo hi m1 m' \<and> sorted_in b sz lo hi m'"
    proof (rule Suc.hyps(1) [OF t(2)])
      show "\<forall>j k. lo \<le> j \<and> j < k \<and> k \<le> hi \<and> j \<noteq> t - 1 + 1 \<and> k \<noteq> t - 1 + 1 \<longrightarrow>
          compare (view b sz m1 j) (view b sz m1 k) \<le> 0"
        using Suc.prems(4) t(1) by (auto simp: v1)
      show "\<forall>k. t - 1 + 1 < k \<and> k \<le> hi \<longrightarrow> compare (view b sz m1 (t - 1 + 1)) (view b sz m1 k) \<le> 0"
        using Suc.prems(5) le by (auto simp: v1)
    qed (use Suc.prems t(1) in auto)
    moreover have "rearr b sz lo hi m m1" unfolding m1 by (rule rearr_SWAP) (use Suc.prems t(1) in auto)
    moreover have "insertion_inner compare sz (slot b sz lo) (slot b sz t) m
        = insertion_inner compare sz (slot b sz lo) (slot b sz (t - 1)) m1"
      using Suc.prems(1) t(1) True
      by (subst insertion_inner.simps) (simp add: slot_le slot_next view_slot SWAP_NEXT_eq m1)
    ultimately show ?thesis by (auto intro: rearr_trans)
  next
    case False
    then have le: "compare (view b sz m t) (view b sz m (t + 1)) \<le> 0" by simp
    have "insertion_inner compare sz (slot b sz lo) (slot b sz t) m = Some m"
      using False by (subst insertion_inner.simps) (simp add: slot_next view_slot)
    moreover have "compare (view b sz m j) (view b sz m k) \<le> 0" if jk: "lo \<le> j \<and> j < k \<and> k \<le> hi" for j k
    proof -
      consider "j \<noteq> t + 1" "k \<noteq> t + 1" | "j = t + 1" | "k = t + 1" "j = t" | "k = t + 1" "j < t"
        using jk by linarith
      then show ?thesis
      proof cases
        case 4
        then have "compare (view b sz m j) (view b sz m t) \<le> 0" using Suc.prems(3,4) jk by auto
        then show ?thesis using le 4(1) by (auto intro: compare_trans)
      qed (use Suc.prems jk le in auto)
    qed
    ultimately show ?thesis by (simp add: sorted_in_def)
  qed
qed

lemma insert_run:
  assumes "0 < sz" "sorted_in b sz lo (i - 1) m" "lo \<le> i"
  shows "\<exists>m'. insertion_inner compare sz (slot b sz lo) (slot b sz i - int sz) m = Some m' \<and>
    rearr b sz lo i m m' \<and> sorted_in b sz lo i m'"
  unfolding slot_next by (rule inner_run) (use assms in \<open>auto simp: sorted_in_def\<close>)

lemma insertion_left_run:
  assumes "0 < sz" "lo \<le> i" "sorted_in b sz lo (i - 1) m"
  shows "\<exists>m'. insertion_left compare sz (slot b sz lo) (slot b sz p) (slot b sz i) m = Some m' \<and>
    rearr b sz lo (p - 1) m m' \<and> sorted_in b sz lo (p - 1) m'"
  using assms
proof (induction "nat (p - i)" arbitrary: i m)
  case 0
  then show ?case by (subst insertion_left.simps) (auto simp: slot_mono sorted_in_def)
next
  case (Suc n)
  then have i: "i < p" "n = nat (p - (i + 1))" by auto
  obtain m1 where m1: "insertion_inner compare sz (slot b sz lo) (slot b sz i - int sz) m = Some m1"
      "rearr b sz lo i m m1" "sorted_in b sz lo (i + 1 - 1) m1"
    using insert_run [OF Suc.prems(1,3,2)] by auto
  have "\<exists>m'. insertion_left compare sz (slot b sz lo) (slot b sz p) (slot b sz (i + 1)) m1 = Some m' \<and>
      rearr b sz lo (p - 1) m1 m' \<and> sorted_in b sz lo (p - 1) m'"
    by (rule Suc.hyps(1) [OF i(2)]) (use Suc.prems m1 in auto)
  moreover have "rearr b sz lo (p - 1) m m1" using m1(2) by (rule rearr_mono) (use i in auto)
  ultimately show ?case using Suc.prems(1) i(1) m1(1)
    by (subst insertion_left.simps) (auto simp: slot_mono slot_next intro: rearr_trans)
qed

lemma insertion_right_run:
  assumes "0 < sz" "lo \<le> i" "sorted_in b sz lo (i - 1) m" "slot b sz lo = slot b sz p + int sz"
  shows "\<exists>m'. insertion_right compare sz (slot b sz p) (slot b sz hi) (slot b sz i) m = Some m' \<and>
    rearr b sz lo hi m m' \<and> sorted_in b sz lo hi m'"
  using assms
proof (induction "nat (hi + 1 - i)" arbitrary: i m)
  case 0
  then show ?case by (subst insertion_right.simps) (auto simp: slot_le sorted_in_def)
next
  case (Suc n)
  then have i: "i \<le> hi" "n = nat (hi + 1 - (i + 1))" by auto
  obtain m1 where m1: "insertion_inner compare sz (slot b sz lo) (slot b sz i - int sz) m = Some m1"
      "rearr b sz lo i m m1" "sorted_in b sz lo (i + 1 - 1) m1"
    using insert_run [OF Suc.prems(1,3,2)] by auto
  have "\<exists>m'. insertion_right compare sz (slot b sz p) (slot b sz hi) (slot b sz (i + 1)) m1 = Some m' \<and>
      rearr b sz lo hi m1 m' \<and> sorted_in b sz lo hi m'"
    by (rule Suc.hyps(1) [OF i(2)]) (use Suc.prems m1 in auto)
  moreover have "rearr b sz lo hi m m1" using m1(2) by (rule rearr_mono) (use i in auto)
  ultimately show ?case using Suc.prems(1,4) i(1) m1(1)
    by (subst insertion_right.simps) (auto simp: slot_le slot_next intro: rearr_trans)
qed

definition side :: "int \<Rightarrow> nat \<Rightarrow> int \<Rightarrow> int \<Rightarrow> bmem \<Rightarrow> bmem \<Rightarrow> (int \<times> int) list \<Rightarrow> bool" where
  "side b sz lo hi m m' fs \<longleftrightarrow> rearr b sz lo hi m m' \<and>
     (fs = [] \<and> sorted_in b sz lo hi m' \<or> fs = [(lo, hi)] \<and> 3 < hi - lo)"

lemma slot_threshold: "0 < sz \<Longrightarrow> slot b sz j - slot b sz i \<le> threshold sz \<longleftrightarrow> j - i \<le> 4"
proof -
  assume "0 < sz"
  have "slot b sz j - slot b sz i = (j - i) * int sz" "threshold sz = 4 * int sz"
    by (simp_all add: slot_def threshold_def push_bit_eq_mult algebra_simps)
  then show ?thesis using \<open>0 < sz\<close> by simp
qed

lemma SORT_LEFT_run:
  assumes "0 < sz" "lo \<le> p" "4 < p - lo \<Longrightarrow> length st < SORT_STACK"
  shows "\<exists>m' fs. SORT_LEFT compare sz (slot b sz lo) (slot b sz p) (m, st)
      = Some (Inr (m', map (frame b sz) fs @ st)) \<and> side b sz lo (p - 1) m m' fs"
proof (cases "p - lo \<le> 4")
  case True
  obtain m' where "insertion_left compare sz (slot b sz lo) (slot b sz p) (slot b sz (lo + 1)) m = Some m'"
    "rearr b sz lo (p - 1) m m'" "sorted_in b sz lo (p - 1) m'"
    using insertion_left_run [OF assms(1), of lo "lo + 1" b m p] by (auto simp: sorted_in_def)
  then show ?thesis using True
    by (intro exI [of _ m'] exI [of _ "[]"]) (simp add: SORT_LEFT_def slot_threshold [OF assms(1)] slot_next side_def)
next
  case False
  have "slot b sz lo < slot b sz (p - 1)" using False assms(1) by (simp add: slot_mono)
  then show ?thesis using False assms
    by (intro exI [of _ m] exI [of _ "[(lo, p - 1)]"])
      (simp add: SORT_LEFT_def slot_threshold [OF assms(1)] slot_next side_def push_frame_def pushed_def frame_def)
qed

lemma SORT_RIGHT_run:
  assumes "0 < sz" "p \<le> hi" "4 < hi - p \<Longrightarrow> length st < SORT_STACK"
  shows "\<exists>m' fs. SORT_RIGHT compare sz (slot b sz p) (slot b sz hi) (m, st)
      = Some (Inr (m', map (frame b sz) fs @ st)) \<and> side b sz (p + 1) hi m m' fs"
proof (cases "hi - p \<le> 4")
  case True
  have at: "slot b sz p + int sz * 2 = slot b sz (p + 2)"
    by (simp add: slot_def algebra_simps)
  obtain m' where "insertion_right compare sz (slot b sz p) (slot b sz hi) (slot b sz (p + 2)) m = Some m'"
    "rearr b sz (p + 1) hi m m'" "sorted_in b sz (p + 1) hi m'"
    using insertion_right_run [OF assms(1), of "p + 1" "p + 2" b m p hi] by (auto simp: sorted_in_def slot_next)
  then show ?thesis using True
    by (intro exI [of _ m'] exI [of _ "[]"]) (simp add: SORT_RIGHT_def slot_threshold [OF assms(1)] at side_def)
next
  case False
  have "slot b sz (p + 1) < slot b sz hi" using False assms(1) by (simp add: slot_mono)
  then show ?thesis using False assms
    by (intro exI [of _ m] exI [of _ "[(p + 1, hi)]"])
      (simp add: SORT_RIGHT_def slot_threshold [OF assms(1)] slot_next side_def push_frame_def pushed_def frame_def)
qed

text \<open>The pairs of a range are in order or lie in one of the frames that are still to be sorted.\<close>

definition pending :: "int \<Rightarrow> nat \<Rightarrow> int \<Rightarrow> int \<Rightarrow> bmem \<Rightarrow> (int \<times> int) list \<Rightarrow> bool" where
  "pending b sz lo hi m fs \<longleftrightarrow>
     (\<forall>f \<in> set fs. lo \<le> fst f \<and> fst f \<le> snd f \<and> snd f \<le> hi) \<and> sorted_wrt apart fs \<and>
     (\<forall>j k. lo \<le> j \<and> j < k \<and> k \<le> hi \<longrightarrow> covered fs j k \<or> compare (view b sz m j) (view b sz m k) \<le> 0)"

lemma side_pair:
  assumes "side b sz lo hi m m' fs" "lo \<le> j" "j < k" "k \<le> hi" "view b sz m'' j = view b sz m' j"
    "view b sz m'' k = view b sz m' k"
  shows "covered fs j k \<or> compare (view b sz m'' j) (view b sz m'' k) \<le> 0"
  using assms by (auto simp: side_def covered_def sorted_in_def)

lemma pivot_pair:
  assumes low: "\<forall>k. lo \<le> k \<and> k < p \<longrightarrow> compare (view b sz m k) (view b sz m p) \<le> 0"
    and high: "\<forall>k. p < k \<and> k \<le> hi \<longrightarrow> compare (view b sz m p) (view b sz m k) \<le> 0"
    and left: "\<And>k. lo \<le> k \<Longrightarrow> k < p \<Longrightarrow> \<exists>i. lo \<le> i \<and> i < p \<and> view b sz m' k = view b sz m i"
    and right: "\<And>k. p < k \<Longrightarrow> k \<le> hi \<Longrightarrow> \<exists>i. p < i \<and> i \<le> hi \<and> view b sz m' k = view b sz m i"
    and piv: "view b sz m' p = view b sz m p"
    and jk: "lo \<le> j" "j < k" "k \<le> hi" "j \<le> p" "p \<le> k"
  shows "compare (view b sz m' j) (view b sz m' k) \<le> 0"
proof -
  have 1: "compare (view b sz m' j) (view b sz m' p) \<le> 0" if "j < p"
    using left [OF jk(1) that] low piv by auto
  have 2: "compare (view b sz m' p) (view b sz m' k) \<le> 0" if "p < k"
    using right [OF that jk(3)] high piv by auto
  consider "j < p" "p < k" | "j = p" | "k = p" using jk by linarith
  then show ?thesis using 1 2 jk by cases (auto intro: compare_trans [OF 1 2])
qed

lemma sides_pending:
  assumes p: "lo \<le> p" "p \<le> hi"
    and low: "\<forall>k. lo \<le> k \<and> k < p \<longrightarrow> compare (view b sz m1 k) (view b sz m1 p) \<le> 0"
    and high: "\<forall>k. p < k \<and> k \<le> hi \<longrightarrow> compare (view b sz m1 p) (view b sz m1 k) \<le> 0"
    and sides: "side b sz lo (p - 1) ml ml' fl" "side b sz (p + 1) hi mr mr' fr"
    and order: "ml = m1 \<and> mr = ml' \<and> m3 = mr' \<or> mr = m1 \<and> ml = mr' \<and> m3 = ml'"
    and fs: "fs = fl @ fr \<or> fs = fr @ fl"
  shows "pending b sz lo hi m3 fs"
proof -
  have rl: "rearr b sz lo (p - 1) ml ml'" and rr: "rearr b sz (p + 1) hi mr mr'"
    using sides by (auto simp: side_def)
  have at_l: "view b sz ml k = view b sz m1 k" "view b sz m3 k = view b sz ml' k" if "k \<le> p" for k
    using order rearr_out [OF rr, of k] that by auto
  have at_r: "view b sz mr k = view b sz m1 k" "view b sz m3 k = view b sz mr' k" if "p \<le> k" for k
    using order rearr_out [OF rl, of k] that by auto
  have left: "\<exists>i. lo \<le> i \<and> i < p \<and> view b sz m3 k = view b sz m1 i" if "lo \<le> k" "k < p" for k
  proof -
    have "k \<le> p - 1" using that by simp
    with rl that(1) obtain i where "lo \<le> i" "i \<le> p - 1" "view b sz ml' k = view b sz ml i"
      by (rule rearr_value)
    then show ?thesis using that at_l [of k] at_l [of i] by (intro exI [of _ i]) auto
  qed
  have right: "\<exists>i. p < i \<and> i \<le> hi \<and> view b sz m3 k = view b sz m1 i" if "p < k" "k \<le> hi" for k
  proof -
    have "p + 1 \<le> k" using that by simp
    from rr this that(2) obtain i where "p + 1 \<le> i" "i \<le> hi" "view b sz mr' k = view b sz mr i"
      by (rule rearr_value)
    then show ?thesis using that at_r [of k] at_r [of i] by (intro exI [of _ i]) auto
  qed
  have piv: "view b sz m3 p = view b sz m1 p"
    using at_l [of p] rearr_out [OF rl, of p] by simp
  have pair: "covered fs j k \<or> compare (view b sz m3 j) (view b sz m3 k) \<le> 0"
    if jk: "lo \<le> j" "j < k" "k \<le> hi" for j k
  proof -
    consider "k < p" | "p < j" | "j \<le> p" "p \<le> k" by linarith
    then show ?thesis
    proof cases
      case 1
      then have "covered fl j k \<or> compare (view b sz m3 j) (view b sz m3 k) \<le> 0"
        using side_pair [OF sides(1) jk(1,2)] at_l [of j] at_l [of k] jk by auto
      then show ?thesis using fs by (auto simp: covered_def)
    next
      case 2
      then have "covered fr j k \<or> compare (view b sz m3 j) (view b sz m3 k) \<le> 0"
        using side_pair [OF sides(2) _ jk(2,3)] at_r [of j] at_r [of k] jk by auto
      then show ?thesis using fs by (auto simp: covered_def)
    next
      case 3
      then show ?thesis using pivot_pair [OF low high left right piv jk] by blast
    qed
  qed
  have "\<forall>f \<in> set fs. lo \<le> fst f \<and> fst f \<le> snd f \<and> snd f \<le> hi" "sorted_wrt apart fs"
    using sides fs p by (auto simp: side_def apart_def)
  then show ?thesis using pair by (auto simp: pending_def)
qed

lemma side_frames: "side b sz lo hi m m' fs \<Longrightarrow> fs = [] \<or> fs = [(lo, hi)] \<and> 4 < width (lo, hi)"
  by (auto simp: side_def width_def)

lemma side_rearr: "side b sz lo hi m m' fs \<Longrightarrow> rearr b sz lo hi m m'"
  by (simp add: side_def)

lemma sort_frame_run:
  assumes sz: "sz = 2 ^ e" and le: "lo \<le> hi" and fits: "fits ((lo, hi) # gs)"
  shows "\<exists>m' fs. sort_frame compare sz (frame b sz (lo, hi)) (m, map (frame b sz) gs)
      = Some (Inr (m', map (frame b sz) (fs @ gs))) \<and>
    rearr b sz lo hi m m' \<and> pending b sz lo hi m' fs \<and> fits (fs @ gs) \<and>
    sum_list (map width fs) < width (lo, hi)"
proof -
  have pos: "0 < sz" using sz by simp
  obtain m1 p where part: "partition_range compare sz (slot b sz lo) (slot b sz hi) m = Some (m1, slot b sz p)"
    and p: "lo \<le> p" "p \<le> hi" and r1: "rearr b sz lo hi m m1"
    and low: "\<forall>k. lo \<le> k \<and> k < p \<longrightarrow> compare (view b sz m1 k) (view b sz m1 p) \<le> 0"
    and high: "\<forall>k. p < k \<and> k \<le> hi \<longrightarrow> compare (view b sz m1 p) (view b sz m1 k) \<le> 0"
    using partition_run [OF sz le, of b m] by blast
  note sp = sides_pending [OF p low high]
  have wl: "width (lo, p - 1) \<le> width (lo, hi)" and wr: "width (p + 1, hi) \<le> width (lo, hi)"
    using p by (auto simp: width_def)
  have dist: "slot b sz j - slot b sz i = (j - i) * int sz" for i j by (simp add: slot_def algebra_simps)
  have cmp: "slot b sz p - slot b sz lo < slot b sz hi - slot b sz p \<longleftrightarrow> p - lo < hi - p"
    using pos by (simp add: dist)
  then have cmp: "2 * slot b sz p - slot b sz lo < slot b sz hi \<longleftrightarrow> p - lo < hi - p" by linarith
  show ?thesis
  proof (cases "p - lo < hi - p")
    case True
    have "4 < hi - p \<Longrightarrow> length (map (frame b sz) gs) < SORT_STACK"
      using fits_room [OF fits_less [OF fits wr]] by (simp add: width_def)
    from SORT_RIGHT_run [OF pos p(2) this, of b m1] obtain m2 fr where
      run2: "SORT_RIGHT compare sz (slot b sz p) (slot b sz hi) (m1, map (frame b sz) gs)
        = Some (Inr (m2, map (frame b sz) (fr @ gs)))" and s2: "side b sz (p + 1) hi m1 m2 fr" by auto
    have fits_l: "fits ((lo, p - 1) # fr @ gs)"
      using side_frames [OF s2] fits_less [OF fits wl] fits_halves [OF fits _ wr, of "(lo, p - 1)"] True
      by (auto simp: width_def)
    have "4 < p - lo \<Longrightarrow> length (map (frame b sz) (fr @ gs)) < SORT_STACK"
      using fits_room [OF fits_l] by (simp add: width_def)
    from SORT_LEFT_run [OF pos p(1) this, of b m2] obtain m3 fl where
      run3: "SORT_LEFT compare sz (slot b sz lo) (slot b sz p) (m2, map (frame b sz) (fr @ gs))
        = Some (Inr (m3, map (frame b sz) (fl @ fr @ gs)))" and s3: "side b sz lo (p - 1) m2 m3 fl" by auto
    have "sort_frame compare sz (frame b sz (lo, hi)) (m, map (frame b sz) gs)
        = Some (Inr (m3, map (frame b sz) ((fl @ fr) @ gs)))"
      using run2 run3 by (simp add: sort_frame_def Let_def frame_def part cmp True and_then_def)
    moreover have "rearr b sz lo hi m m3"
      using r1 rearr_mono [OF side_rearr [OF s2], of lo hi] rearr_mono [OF side_rearr [OF s3], of lo hi] p
      by (auto intro: rearr_trans)
    moreover have "pending b sz lo hi m3 (fl @ fr)" by (rule sp [OF s3 s2]) auto
    moreover have "fits ((fl @ fr) @ gs)"
      using side_frames [OF s3] fits_l by auto
    moreover have "sum_list (map width (fl @ fr)) < width (lo, hi)"
      using side_frames [OF s2] side_frames [OF s3] p by (auto simp: width_def)
    ultimately show ?thesis by blast
  next
    case False
    have "4 < p - lo \<Longrightarrow> length (map (frame b sz) gs) < SORT_STACK"
      using fits_room [OF fits_less [OF fits wl]] by (simp add: width_def)
    from SORT_LEFT_run [OF pos p(1) this, of b m1] obtain m2 fl where
      run2: "SORT_LEFT compare sz (slot b sz lo) (slot b sz p) (m1, map (frame b sz) gs)
        = Some (Inr (m2, map (frame b sz) (fl @ gs)))" and s2: "side b sz lo (p - 1) m1 m2 fl" by auto
    have fits_r: "fits ((p + 1, hi) # fl @ gs)"
      using side_frames [OF s2] fits_less [OF fits wr] fits_halves [OF fits _ wl, of "(p + 1, hi)"] False
      by (auto simp: width_def)
    have "4 < hi - p \<Longrightarrow> length (map (frame b sz) (fl @ gs)) < SORT_STACK"
      using fits_room [OF fits_r] by (simp add: width_def)
    from SORT_RIGHT_run [OF pos p(2) this, of b m2] obtain m3 fr where
      run3: "SORT_RIGHT compare sz (slot b sz p) (slot b sz hi) (m2, map (frame b sz) (fl @ gs))
        = Some (Inr (m3, map (frame b sz) (fr @ fl @ gs)))" and s3: "side b sz (p + 1) hi m2 m3 fr" by auto
    have "sort_frame compare sz (frame b sz (lo, hi)) (m, map (frame b sz) gs)
        = Some (Inr (m3, map (frame b sz) ((fr @ fl) @ gs)))"
      using run2 run3 by (simp add: sort_frame_def Let_def frame_def part cmp False and_then_def)
    moreover have "rearr b sz lo hi m m3"
      using r1 rearr_mono [OF side_rearr [OF s2], of lo hi] rearr_mono [OF side_rearr [OF s3], of lo hi] p
      by (auto intro: rearr_trans)
    moreover have "pending b sz lo hi m3 (fr @ fl)" by (rule sp [OF s2 s3]) auto
    moreover have "fits ((fr @ fl) @ gs)"
      using side_frames [OF s3] fits_r by auto
    moreover have "sum_list (map width (fr @ fl)) < width (lo, hi)"
      using side_frames [OF s2] side_frames [OF s3] p by (auto simp: width_def)
    ultimately show ?thesis by blast
  qed
qed

text \<open>One frame replaced by what remains of it: the invariant of the outer loop.\<close>

lemma pending_step:
  assumes inv: "pending b sz lo hi m (f # gs)" and r: "rearr b sz (fst f) (snd f) m m'"
    and sub: "pending b sz (fst f) (snd f) m' fs"
  shows "pending b sz lo hi m' (fs @ gs)"
proof -
  have f: "lo \<le> fst f" "fst f \<le> snd f" "snd f \<le> hi" and away: "\<forall>g \<in> set gs. apart f g"
    using inv by (auto simp: pending_def)
  have within: "\<forall>h \<in> set fs. fst f \<le> fst h \<and> fst h \<le> snd h \<and> snd h \<le> snd f" using sub by (simp add: pending_def)
  have pair: "covered (fs @ gs) j k \<or> compare (view b sz m' j) (view b sz m' k) \<le> 0"
    if jk: "lo \<le> j" "j < k" "k \<le> hi" for j k
  proof (cases "fst f \<le> j \<and> k \<le> snd f")
    case True
    then have "covered fs j k \<or> compare (view b sz m' j) (view b sz m' k) \<le> 0"
      using sub jk(2) by (auto simp: pending_def)
    then show ?thesis by (auto simp: covered_def)
  next
    case out: False
    obtain j' where j': "view b sz m' j = view b sz m j'"
      "if fst f \<le> j \<and> j \<le> snd f then fst f \<le> j' \<and> j' \<le> snd f else j' = j"
      using rearr_source [OF r, of j] by blast
    obtain k' where k': "view b sz m' k = view b sz m k'"
      "if fst f \<le> k \<and> k \<le> snd f then fst f \<le> k' \<and> k' \<le> snd f else k' = k"
      using rearr_source [OF r, of k] by blast
    have "lo \<le> j'" "j' < k'" "k' \<le> hi" "\<not> (fst f \<le> j' \<and> k' \<le> snd f)"
      using j'(2) k'(2) out jk f by (auto split: if_splits)
    then have "covered gs j' k' \<or> compare (view b sz m j') (view b sz m k') \<le> 0"
      using inv by (auto simp: pending_def covered_def)
    moreover have "covered gs j k" if c: "covered gs j' k'"
    proof -
      from c obtain g where g: "g \<in> set gs" "fst g \<le> j'" "k' \<le> snd g" by (auto simp: covered_def)
      with away have "snd f < fst g \<or> snd g < fst f" by (auto simp: apart_def)
      then have "j' = j" "k' = k" using j'(2) k'(2) g \<open>j' < k'\<close> by (auto split: if_splits)
      then show ?thesis using c by simp
    qed
    ultimately show ?thesis using j'(1) k'(1) by (auto simp: covered_def)
  qed
  have "sorted_wrt apart (fs @ gs)"
    using inv sub within away f by (fastforce simp: pending_def sorted_wrt_append apart_def)
  moreover have "\<forall>h \<in> set (fs @ gs). lo \<le> fst h \<and> fst h \<le> snd h \<and> snd h \<le> hi"
    using inv within f by (fastforce simp: pending_def)
  ultimately show ?thesis using pair by (auto simp: pending_def)
qed

lemma sort_loop_run:
  assumes "sz = 2 ^ e" "pending b sz lo hi m fs" "fits fs"
  shows "\<exists>m'. sort_loop compare sz m (map (frame b sz) fs) = Some (Inr m') \<and>
    rearr b sz lo hi m m' \<and> sorted_in b sz lo hi m'"
  using assms(2,3)
proof (induction "nat (sum_list (map width fs))" arbitrary: m fs rule: less_induct)
  case less
  show ?case
  proof (cases fs)
    case Nil
    then show ?thesis using less.prems
      by (subst sort_loop.simps) (auto simp: pending_def sorted_in_def covered_def)
  next
    case (Cons f gs)
    have f: "lo \<le> fst f" "fst f \<le> snd f" "snd f \<le> hi" using less.prems(1) Cons by (auto simp: pending_def)
    have "0 \<le> sum_list (map width gs)"
      using less.prems(1) Cons by (intro sum_list_nonneg) (auto simp: pending_def width_def)
    from sort_frame_run [OF assms(1) f(2), where gs = gs and b = b and m = m] less.prems(2) Cons obtain m1 hs where
      run: "sort_frame compare sz (frame b sz f) (m, map (frame b sz) gs) = Some (Inr (m1, map (frame b sz) (hs @ gs)))"
      and r: "rearr b sz (fst f) (snd f) m m1" and sub: "pending b sz (fst f) (snd f) m1 hs"
      and fits: "fits (hs @ gs)" and dec: "sum_list (map width hs) < width f" by auto
    have inv: "pending b sz lo hi m1 (hs @ gs)"
      using pending_step [OF _ r sub] less.prems(1) Cons by simp
    have "nat (sum_list (map width (hs @ gs))) < nat (sum_list (map width fs))"
      using Cons dec \<open>0 \<le> sum_list (map width gs)\<close> f(2) by (simp add: width_def)
    from less.hyps [OF this inv fits] obtain m' where
      "sort_loop compare sz m1 (map (frame b sz) (hs @ gs)) = Some (Inr m')"
      "rearr b sz lo hi m1 m'" "sorted_in b sz lo hi m'" by blast
    moreover have "rearr b sz lo hi m m1" using r f by (auto intro: rearr_mono)
    ultimately show ?thesis using run Cons
      by (subst sort_loop.simps) (auto intro: rearr_trans)
  qed
qed

end

section \<open>Comparing elements with memcmp\<close>

text \<open>The comparison of two elements of the same size by \<open>memcmp\<close>, as a callback of \<open>qsort\<close>.\<close>

definition memcmp_elements :: comparison where
  "memcmp_elements x y = (if length x = length y then the (memcmp (x @ y) 0 (length x) (length x))
     else int (length x) - int (length y))"

fun lex_difference :: "u8 list \<Rightarrow> u8 list \<Rightarrow> int" where
  "lex_difference (a # as) (c # cs) = (if a \<noteq> c then uint a - uint c else lex_difference as cs)"
| "lex_difference _ _ = 0"

lemma memcmp_difference: "p + n \<le> length m \<Longrightarrow> q + n \<le> length m \<Longrightarrow>
  memcmp m p q n = Some (lex_difference (rd_bytes m p n) (rd_bytes m q n))"
proof (induction n arbitrary: p q)
  case 0
  then show ?case by (simp add: rd_bytes_def)
next
  case (Suc n)
  have "rd_bytes m a (Suc n) = m ! a # rd_bytes m (a + 1) n" if "a < length m" for a
    using that by (simp add: rd_bytes_def Cons_nth_drop_Suc [symmetric])
  then show ?case using Suc.IH [of "p + 1" "q + 1"] Suc.prems by auto
qed

lemma memcmp_elements_eq: "length x = length y \<Longrightarrow> memcmp_elements x y = lex_difference x y"
  using memcmp_difference [of 0 "length x" "x @ y" "length x"] by (simp add: memcmp_elements_def rd_bytes_def)

lemma lex_difference_minus: "lex_difference y x = - lex_difference x y"
  by (induction x y rule: lex_difference.induct) auto

lemma lex_difference_0: "length x = length y \<Longrightarrow> lex_difference x y = 0 \<longleftrightarrow> x = y"
  by (induction x y rule: list_induct2) (auto simp: word_uint_eq_iff)

lemma lex_difference_trans:
  "length x = length y \<Longrightarrow> length y = length z \<Longrightarrow> lex_difference x y \<le> 0 \<Longrightarrow> lex_difference y z \<le> 0 \<Longrightarrow>
     lex_difference x z \<le> 0"
  by (induction x y z rule: list_induct3) (auto simp: word_uint_eq_iff split: if_splits)

interpretation bytes: sort_order memcmp_elements
proof
  fix x y z :: "u8 list"
  show "memcmp_elements x y \<le> 0 \<or> memcmp_elements y x \<le> 0"
  proof (cases "length x = length y")
    case True
    then show ?thesis using lex_difference_minus [of x y] by (simp add: memcmp_elements_eq linorder_linear)
  qed (auto simp: memcmp_elements_def)
  show "memcmp_elements x z \<le> 0" if "memcmp_elements x y \<le> 0" "memcmp_elements y z \<le> 0"
  proof (cases "length x = length y \<and> length y = length z")
    case True
    then show ?thesis using that lex_difference_trans [of x y z] by (simp add: memcmp_elements_eq)
  next
    case False
    then show ?thesis using that by (auto simp: memcmp_elements_def split: if_splits)
  qed
qed

section \<open>Properties\<close>

definition elements :: "bmem \<Rightarrow> int \<Rightarrow> nat \<Rightarrow> nat \<Rightarrow> u8 list list" where
  "elements m array sz n = map (\<lambda>k. elem m (array + int k * int sz) sz) [0..<n]"

lemma elements_view: "elements m b sz n = map (\<lambda>k. view b sz m (int k)) [0..<n]"
  by (simp add: elements_def view_def)

lemma mset_elements: "mset (elements m b sz n) = image_mset (view b sz m) (mset_set {0..int n - 1})"
proof -
  have "int ` {0..<n} = {0..int n - 1}"
    by (auto simp: image_int_atLeastLessThan)
  then have "mset_set {0..int n - 1} = image_mset int (mset_set {0..<n})"
    using image_mset_mset_set [of int "{0..<n}"] by simp
  then show ?thesis by (simp add: elements_view multiset.map_comp comp_def)
qed

text \<open>
C29: \<open>qsort\<close> returns for every array of at least one element whose size is a power of two, its stack of 32
frames does not overflow, the elements are in the order of the callback, they are the elements
there were before, and no byte outside the array changes. The callback only has to be a total preorder.
\<close>

theorem qsort_sorts:
  assumes "0 < len" "int len \<le> 2 ^ 32" "sz = 2 ^ e"
    and total: "\<And>x y. compare x y \<le> 0 \<or> compare y x \<le> 0"
    and trans: "\<And>x y z. compare x y \<le> 0 \<Longrightarrow> compare y z \<le> 0 \<Longrightarrow> compare x z \<le> 0"
  shows "\<exists>m'. qsort array len sz compare m = Some (Inr m') \<and>
    sorted_wrt (\<lambda>x y. compare x y \<le> 0) (elements m' array sz len) \<and>
    mset (elements m' array sz len) = mset (elements m array sz len) \<and>
    (\<forall>x. x \<notin> {array ..< array + int len * int sz} \<longrightarrow> m' x = m x)"
proof -
  have order: "sort_order compare" by (rule sort_order.intro) (fact total, erule (1) trans)
  have start: "sort_order.pending compare array sz 0 (int len - 1) m [(0, int len - 1)]"
    using assms(1) by (simp add: sort_order.pending_def [OF order] covered_def)
  have "fits [(0, int len - 1)]" using assms(2) by (simp add: width_def SORT_STACK_def)
  from sort_order.sort_loop_run [OF order assms(3) start this] obtain m' where
    run: "sort_loop compare sz m (map (frame array sz) [(0, int len - 1)]) = Some (Inr m')"
    and r: "rearr array sz 0 (int len - 1) m m'"
    and s: "sort_order.sorted_in compare array sz 0 (int len - 1) m'" by blast
  have eq: "qsort array len sz compare m = Some (Inr m')"
    using run by (simp add: qsort_def frame_def slot_def algebra_simps)
  have sorted: "sorted_wrt (\<lambda>x y. compare x y \<le> 0) (elements m' array sz len)"
    using s by (auto simp: sort_order.sorted_in_def [OF order] sorted_wrt_iff_nth_less elements_view)
  have "mset (elements m' array sz len) = mset (elements m array sz len)"
    using r by (simp add: mset_elements rearr_def)
  moreover have "m' x = m x" if "x \<notin> {array ..< array + int len * int sz}" for x
    using r that by (auto simp: rearr_def slot_def)
  ultimately show ?thesis using eq sorted by blast
qed

text \<open>The laws of the callback hold for \<open>memcmp\<close>: four 32-bit elements are sorted as byte strings.\<close>

definition demo_array :: bmem where
  "demo_array = (\<lambda>x. if x = 100 then 9 else if x = 104 then 3 else if x = 108 then 7 else if x = 112 then 1 else 0)"

lemma qsort_sorts_witness:
  "\<exists>m'. qsort 100 4 4 memcmp_elements demo_array = Some (Inr m') \<and>
     sorted_wrt (\<lambda>x y. memcmp_elements x y \<le> 0) (elements m' 100 4 4) \<and>
     mset (elements m' 100 4 4) = mset (elements demo_array 100 4 4)"
proof -
  have "(0 :: nat) < 4" "int 4 \<le> 2 ^ 32" "(4 :: nat) = 2 ^ 2" by simp_all
  then have "\<exists>m'. qsort 100 4 4 memcmp_elements demo_array = Some (Inr m') \<and>
      sorted_wrt (\<lambda>x y. memcmp_elements x y \<le> 0) (elements m' 100 4 4) \<and>
      mset (elements m' 100 4 4) = mset (elements demo_array 100 4 4) \<and>
      (\<forall>x. x \<notin> {100 ..< 100 + int 4 * int 4} \<longrightarrow> m' x = demo_array x)"
    by (rule qsort_sorts [OF _ _ _ bytes.compare_total]) (erule (1) bytes.compare_trans)
  then show ?thesis by blast
qed

text \<open>
Called with no elements, \<open>qsort\<close> exchanges the element before the array with the element at its
start: both lie outside the array.
\<close>

theorem qsort_empty_writes_outside:
  "qsort array 0 (2 ^ e) compare m = Some (Inr (SWAP (2 ^ e) (array - 2 ^ e) array m))"
proof -
  obtain sz :: nat where sz: "sz = 2 ^ e" by blast
  have pos: "0 < sz" using sz by simp
  have piv: "pivot_offset sz (- int sz) = - int sz"
    using pivot_offset_slot [of e 0 "-1" 0] sz by (simp add: slot_def)
  have same: "SWAP sz (array - int sz) (array - int sz) m = m"
    by (rule ext) (simp add: SWAP_eq)
  have part: "partition_range compare sz array (array - int sz) m = Some (SWAP sz (array - int sz) array m, array)"
    by (simp add: partition_range_def piv same, subst part_loop.simps, simp add: pos)
  have thr: "0 \<le> threshold sz" by (simp add: threshold_def)
  have left: "insertion_left compare sz array array (array + int sz) m' = Some m'" for m'
    by (subst insertion_left.simps) simp
  have right: "insertion_right compare sz array (array - int sz) (array + push_bit 1 (int sz)) m' = Some m'" for m'
    by (subst insertion_right.simps) (use pos in \<open>simp add: push_bit_eq_mult\<close>)
  have "sort_frame compare sz \<lparr>sf_left = array, sf_right = array - int sz\<rparr> (m, [])
      = Some (Inr (SWAP sz (array - int sz) array m, []))"
    using thr right by (simp add: sort_frame_def part SORT_LEFT_def SORT_RIGHT_def left and_then_def)
  then have "sort_loop compare sz m [\<lparr>sf_left = array, sf_right = array - int sz\<rparr>]
      = Some (Inr (SWAP sz (array - int sz) array m))"
    by (subst sort_loop.simps) (simp, subst sort_loop.simps, simp)
  then show ?thesis by (simp add: qsort_def sz)
qed

text \<open>
The middle element is found by masking with the element size, which is right for powers of two
only: three elements of three bytes that are already in order are torn apart.
\<close>

definition three_bytes :: bmem where
  "three_bytes = (\<lambda>x. if x = 0 then 1 else if x = 3 then 2 else if x = 6 then 3 else 0)"

theorem qsort_tears_elements:
  "elements three_bytes 0 3 3 = [[1, 0, 0], [2, 0, 0], [3, 0, 0]] \<and>
   map_option (map_sum id (\<lambda>m. elements m 0 3 3)) (qsort 0 3 3 memcmp_elements three_bytes)
     = Some (Inr [[0, 0, 0], [0, 0, 2], [1, 3, 0]])"
  by code_simp

end
