(* ===== verification/Printf.thy ===== *)
theory Printf
  imports SoftUart
begin

text \<open>
  The formatted output of \<open>proj/common/printf.c\<close>: the conversions of \<open>print\<close> with their padding, the
  hex dump, and \<open>rdPrintf\<close>, which formats into a buffer of 128 bytes and sends it on the serial
  port. A C string is the list of its bytes before the terminator; \<open>print\<close> returns the bytes it
  writes, whether it appends the terminator, and its count. Reading beyond the format, taking an
  argument that was not passed and writing outside a buffer are errors. Widths are unbounded integers.
\<close>

section \<open>Padding and numbers\<close>

abbreviation (input) c_percent :: u8 where "c_percent \<equiv> 0x25"
abbreviation (input) c_minus :: u8 where "c_minus \<equiv> 0x2D"
abbreviation (input) c_space :: u8 where "c_space \<equiv> 0x20"
abbreviation (input) c_0 :: u8 where "c_0 \<equiv> 0x30"
abbreviation (input) c_9 :: u8 where "c_9 \<equiv> 0x39"
abbreviation (input) c_a :: u8 where "c_a \<equiv> 0x61"
abbreviation (input) c_A :: u8 where "c_A \<equiv> 0x41"
abbreviation (input) c_c :: u8 where "c_c \<equiv> 0x63"
abbreviation (input) c_d :: u8 where "c_d \<equiv> 0x64"
abbreviation (input) c_s :: u8 where "c_s \<equiv> 0x73"
abbreviation (input) c_u :: u8 where "c_u \<equiv> 0x75"
abbreviation (input) c_x :: u8 where "c_x \<equiv> 0x78"
abbreviation (input) c_X :: u8 where "c_X \<equiv> 0x58"
abbreviation (input) c_CR :: u8 where "c_CR \<equiv> 0x0D"
abbreviation (input) c_LF :: u8 where "c_LF \<equiv> 0x0A"

datatype print_error = Format_overrun | Missing_argument | Not_a_string | Buffer_overflow

definition PAD_RIGHT :: u8 where "PAD_RIGHT = 1"
definition PAD_ZERO :: u8 where "PAD_ZERO = 2"
definition PRINT_BUF_LEN :: nat where "PRINT_BUF_LEN = 12"

definition prints :: "u8 list \<Rightarrow> int \<Rightarrow> u8 \<Rightarrow> u8 list" where
  "prints string width pad =
     (let padchar = (if 0 < width \<and> pad AND PAD_ZERO \<noteq> 0 then c_0 else c_space);
          width = (if 0 < width then (if width \<le> int (length string) then 0 else width - int (length string)) else width);
          blanks = replicate (nat width) padchar
      in if pad AND PAD_RIGHT = 0 then blanks @ string else string @ blanks)"

text \<open>The digits are written downwards from the end of \<open>print_buf\<close>; the base is 10 or 16.\<close>

definition digit_char :: "u8 \<Rightarrow> nat \<Rightarrow> u8" where
  "digit_char letbase t = (if 10 \<le> t then of_nat t + (letbase - c_0 - 10) + c_0 else of_nat t + c_0)"

function digit_loop :: "nat \<Rightarrow> u8 \<Rightarrow> nat \<Rightarrow> u8 list \<Rightarrow> u8 list" where
  "digit_loop b letbase u s =
     (if u \<noteq> 0 \<and> 1 < b then digit_loop b letbase (u div b) (digit_char letbase (u mod b) # s) else s)"
  by pat_completeness auto
termination by (relation "measure (\<lambda>(b, letbase, u, s). u)") auto

declare digit_loop.simps [simp del]

definition in_print_buf :: "u8 list \<Rightarrow> u8 list \<Rightarrow> print_error + u8 list" where
  "in_print_buf s out = (if length s < PRINT_BUF_LEN then Inr out else Inl Buffer_overflow)"

definition printi :: "u32 \<Rightarrow> nat \<Rightarrow> bool \<Rightarrow> int \<Rightarrow> u8 \<Rightarrow> u8 \<Rightarrow> print_error + u8 list" where
  "printi i b sg width pad letbase =
     (if i = 0 then Inr (prints [c_0] width pad)
      else let neg = (sg \<and> b = 10 \<and> sint i < 0);
               u = (if neg then - i else i);
               s = digit_loop b letbase (unat u) []
        in if neg then
             (if width \<noteq> 0 \<and> pad AND PAD_ZERO \<noteq> 0
              then in_print_buf s (c_minus # prints s (width - 1) pad)
              else in_print_buf (c_minus # s) (prints (c_minus # s) width pad))
           else in_print_buf s (prints s width pad))"

section \<open>Formats\<close>

text \<open>An argument is a number or a pointer to a string; the null pointer is \<open>None\<close>.\<close>

datatype arg = Num u32 | Str "u8 list option"

definition null_text :: "u8 list" where
  "null_text = [0x28, 0x6E, 0x75, 0x6C, 0x6C, 0x29]"

definition scr :: "u32 \<Rightarrow> u8 list" where
  "scr i = (let c = ucast i :: u8 in if c = 0 then [] else [c])"

definition number :: "(u32 \<Rightarrow> print_error + u8 list) \<Rightarrow> arg list \<Rightarrow> print_error + u8 list \<times> arg list" where
  "number f args = (case args of [] \<Rightarrow> Inl Missing_argument
     | Num i # rest \<Rightarrow> (case f i of Inl e \<Rightarrow> Inl e | Inr out \<Rightarrow> Inr (out, rest))
     | Str s # rest \<Rightarrow> Inl Not_a_string)"

definition conversion :: "u8 \<Rightarrow> int \<Rightarrow> u8 \<Rightarrow> arg list \<Rightarrow> print_error + u8 list \<times> arg list" where
  "conversion k width pad args =
     (if k = c_s then (case args of [] \<Rightarrow> Inl Missing_argument
         | Str s # rest \<Rightarrow> Inr (prints (case s of None \<Rightarrow> null_text | Some t \<Rightarrow> t) width pad, rest)
         | Num i # rest \<Rightarrow> Inl Not_a_string)
      else if k = c_d then number (\<lambda>i. printi i 10 True width pad c_a) args
      else if k = c_x then number (\<lambda>i. printi i 16 False width pad c_a) args
      else if k = c_X then number (\<lambda>i. printi i 16 False width pad c_A) args
      else if k = c_u then number (\<lambda>i. printi i 10 False width pad c_a) args
      else if k = c_c then number (\<lambda>i. Inr (prints (scr i) width pad)) args
      else Inr ([], args))"

fun skip_zeros :: "u8 list \<Rightarrow> u8 \<Rightarrow> u8 list \<times> u8" where
  "skip_zeros [] pad = ([], pad)"
| "skip_zeros (c # f) pad = (if c = c_0 then skip_zeros f (pad OR PAD_ZERO) else (c # f, pad))"

fun read_width :: "u8 list \<Rightarrow> int \<Rightarrow> u8 list \<times> int" where
  "read_width [] width = ([], width)"
| "read_width (c # f) width =
     (if c_0 \<le> c \<and> c \<le> c_9 then read_width f (width * 10 + (uint c - 48)) else (c # f, width))"

lemma length_skip_zeros: "length (fst (skip_zeros f pad)) \<le> length f"
  by (induction f pad rule: skip_zeros.induct) auto

lemma length_read_width: "length (fst (read_width f w)) \<le> length f"
  by (induction f w rule: read_width.induct) auto

text \<open>What stands between the percent sign and the conversion character.\<close>

definition read_flags :: "u8 list \<Rightarrow> u8 list \<times> int \<times> u8" where
  "read_flags f = (let (g, pad) = (case f of c # f' \<Rightarrow> if c = c_minus then (f', PAD_RIGHT) else (f, 0) | [] \<Rightarrow> ([], 0));
       (g, pad) = skip_zeros g pad;
       (g, width) = read_width g 0
     in (g, width, pad))"

lemma length_read_flags: "length (fst (read_flags f)) \<le> length f"
proof (cases f)
  case Nil
  then show ?thesis by (simp add: read_flags_def)
next
  case (Cons c f')
  obtain g pad where g: "(case f of c # f' \<Rightarrow> if c = c_minus then (f', PAD_RIGHT) else (f, 0) | [] \<Rightarrow> ([], 0)) = (g, pad)"
    by (metis surj_pair)
  then have "length g \<le> length f" using Cons by (auto split: if_splits)
  then show ?thesis
    using length_skip_zeros [of g pad] length_read_width [of "fst (skip_zeros g pad)" 0]
    by (simp add: read_flags_def g split_beta)
qed

lemma read_flags_shorter: "read_flags f = (k # g, w) \<Longrightarrow> length g < length f"
  using length_read_flags [of f] by simp

record printed =
  p_text :: "u8 list"
  p_terminated :: bool
  p_count :: int

function print_loop :: "u8 list \<Rightarrow> arg list \<Rightarrow> u8 list \<Rightarrow> int \<Rightarrow> print_error + printed" where
  "print_loop [] args text pc = Inr \<lparr>p_text = text, p_terminated = True, p_count = pc\<rparr>"
| "print_loop (c # f) args text pc =
     (if 512 - 2 < pc then Inr \<lparr>p_text = text, p_terminated = False, p_count = pc\<rparr>
      else if c = c_percent then
        (case f of [] \<Rightarrow> Inr \<lparr>p_text = text, p_terminated = True, p_count = pc\<rparr>
         | d # f' \<Rightarrow>
             if d = c_percent then print_loop f' args (text @ [d]) (pc + 1)
             else (case read_flags f of (g, width, pad) \<Rightarrow>
               (case g of [] \<Rightarrow> Inl Format_overrun
                | k # g' \<Rightarrow> (case conversion k width pad args of Inl e \<Rightarrow> Inl e
                    | Inr (out, rest) \<Rightarrow> print_loop g' rest (text @ out) (pc + int (length out))))))
      else print_loop f args (text @ [c]) (pc + 1))"
  by pat_completeness auto
termination
  by (relation "measure (\<lambda>(f, args, text, pc). length f)") (auto dest!: read_flags_shorter [OF sym] split: prod.splits)

declare print_loop.simps [simp del]

definition print :: "u8 list \<Rightarrow> arg list \<Rightarrow> print_error + printed" where
  "print format args = print_loop format args [] 0"

section \<open>Destinations\<close>

text \<open>\<open>my_printf\<close> gives every byte to \<open>putchar\<close>; the other two write to memory and terminate it.\<close>

definition my_printf :: "u8 list \<Rightarrow> arg list \<Rightarrow> print_error + u8 list \<times> int" where
  "my_printf format args = (case print format args of Inl e \<Rightarrow> Inl e | Inr r \<Rightarrow> Inr (p_text r, p_count r))"

definition written :: "printed \<Rightarrow> u8 list" where
  "written r = p_text r @ (if p_terminated r then [0] else [])"

definition my_sprintf :: "u8 list \<Rightarrow> nat \<Rightarrow> u8 list \<Rightarrow> arg list \<Rightarrow> print_error + u8 list \<times> int" where
  "my_sprintf mem out format args = (case print format args of Inl e \<Rightarrow> Inl e
     | Inr r \<Rightarrow> (if out + length (written r) \<le> length mem then Inr (wr_bytes mem out (written r), p_count r)
         else Inl Buffer_overflow))"

text \<open>\<open>bufft\<close> has 128 bytes.\<close>

definition rdPrintf :: "u8 list \<Rightarrow> pin \<Rightarrow> u8 list \<Rightarrow> arg list \<Rightarrow> ('a hw_scheme, print_error + u8 list) state" where
  "rdPrintf bufft p format args = (case my_sprintf bufft 0 format args of Inl e \<Rightarrow> ret (Inl e)
     | Inr (bufft', n) \<Rightarrow> do { softUartSend p bufft'; ret (Inr bufft') })"

section \<open>Hex dump\<close>

definition printf_arrb2t :: "u8 list" where
  "printf_arrb2t = [0x30, 0x31, 0x32, 0x33, 0x34, 0x35, 0x36, 0x37, 0x38, 0x39, 0x61, 0x62, 0x63, 0x64, 0x65, 0x66]"

definition get_len_Bin2Text :: "u32 \<Rightarrow> u32" where
  "get_len_Bin2Text buf_len = buf_len * 3 + ((buf_len + 15) div 16) * (1 + 2)"

definition LINE_MAX_LOG :: nat where "LINE_MAX_LOG = 5"

text \<open>One byte of the dump: a line break in front of it, two digits, and the blanks after it.\<close>

definition dump_byte :: "nat \<Rightarrow> nat \<Rightarrow> u8 \<Rightarrow> u8 list" where
  "dump_byte m i c =
     (if i mod 2 ^ LINE_MAX_LOG = 0 \<and> i \<noteq> 0 then [c_CR, c_LF] else []) @
     [printf_arrb2t ! unat (drop_bit 4 c AND 15), printf_arrb2t ! unat (c AND 15)] @
     (if i mod 2 ^ LINE_MAX_LOG \<noteq> 2 ^ LINE_MAX_LOG - 1
      then [c_space] @ (if 2 ^ LINE_MAX_LOG < m \<and> i mod 8 = 7 then [c_space] else []) else [])"

fun dump_loop :: "nat \<Rightarrow> int \<Rightarrow> nat \<Rightarrow> u8 list \<Rightarrow> u8 list \<Rightarrow> u8 list" where
  "dump_loop m len_max i [] lpD = lpD"
| "dump_loop m len_max i (c # cs) lpD =
     (if len_max < int (length lpD) + 6 + 2 then lpD
      else dump_loop m len_max (i + 1) cs (lpD @ dump_byte m i c))"

definition printf_Bin2Text :: "int \<Rightarrow> u8 list \<Rightarrow> u8 list" where
  "printf_Bin2Text lpD_len_max lpS =
     (let m = length lpS;
          start = (2 ^ LINE_MAX_LOG < m \<and> 2 < lpD_len_max);
          len_max = (if start then lpD_len_max - 2 else lpD_len_max);
          lpD = dump_loop m len_max 0 lpS (if start then [c_CR, c_LF] else [])
      in if int (length lpD) + 2 \<le> len_max then lpD @ [c_CR, c_LF] else lpD)"

end
