(* ===== verification/PrintfFacts.thy ===== *)
theory PrintfFacts
  imports Printf
begin

text \<open>
  What is printed can be read back: a reader for numbers, the serial receiver of \<open>SoftUart\<close> behind
  \<open>rdPrintf\<close>, and a reader for hex dumps.
\<close>

section \<open>Numbers\<close>

text \<open>A reader in the manner of \<open>strtol\<close>: blanks, a sign, digits up to the first other character.\<close>

definition digit_of :: "u8 \<Rightarrow> int" where
  "digit_of c = (if c \<le> c_9 then uint c - 48 else uint c - 87)"

definition value_of :: "u8 list \<Rightarrow> int" where
  "value_of s = foldl (\<lambda>v c. v * 10 + digit_of c) 0 s"

definition read_number :: "u8 list \<Rightarrow> int" where
  "read_number s = (case dropWhile (\<lambda>c. c = c_space) s of
       [] \<Rightarrow> 0
     | c # t \<Rightarrow> if c = c_minus then - value_of (takeWhile (\<lambda>c. c_0 \<le> c \<and> c \<le> c_9) t)
         else value_of (takeWhile (\<lambda>c. c_0 \<le> c \<and> c \<le> c_9) (c # t)))"

definition decimal :: "u8 list \<Rightarrow> bool" where
  "decimal s \<longleftrightarrow> s \<noteq> [] \<and> (\<forall>c \<in> set s. c_0 \<le> c \<and> c \<le> c_9)"

lemma digit_loop_append: "digit_loop b l u s = digit_loop b l u [] @ s"
proof (induction u arbitrary: s rule: less_induct)
  case (less u)
  show ?case
  proof (cases "u \<noteq> 0 \<and> 1 < b")
    case True
    then have "u div b < u" by simp
    note IH = less.IH [OF this, of "digit_char l (u mod b) # s"] less.IH [OF this, of "[digit_char l (u mod b)]"]
    show ?thesis using True
      by (subst digit_loop.simps, subst (2) digit_loop.simps) (simp add: IH)
  qed (auto simp: digit_loop.simps [of b l u])
qed

lemma digit_loop_step: "u \<noteq> 0 \<Longrightarrow> 1 < b \<Longrightarrow> digit_loop b l u [] = digit_loop b l (u div b) [] @ [digit_char l (u mod b)]"
  by (subst digit_loop.simps) (simp add: digit_loop_append [of _ _ _ "[_]"])

lemma length_digit_loop: "u < b ^ n \<Longrightarrow> 1 < b \<Longrightarrow> length (digit_loop b l u []) \<le> n"
proof (induction n arbitrary: u)
  case 0
  then show ?case by (simp add: digit_loop.simps)
next
  case (Suc n)
  show ?case
  proof (cases "u = 0")
    case True
    then show ?thesis by (simp add: digit_loop.simps)
  next
    case False
    have "u div b < b ^ n" using Suc.prems by (simp add: less_mult_imp_div_less mult.commute)
    then show ?thesis using Suc.IH Suc.prems(2) False by (simp add: digit_loop_step)
  qed
qed

lemma digit_char_10:
  assumes "t < 10"
  shows "digit_of (digit_char l t) = int t" "c_0 \<le> digit_char l t" "digit_char l t \<le> c_9"
proof -
  have "unat (of_nat t + c_0 :: u8) = t + 48" using assms by (simp add: unat_add_u8)
  then have "digit_char l t \<le> c_9" "c_0 \<le> digit_char l t" "uint (digit_char l t) = int t + 48"
    using assms by (simp_all add: digit_char_def word_le_nat_alt uint_nat)
  then show "digit_of (digit_char l t) = int t" "c_0 \<le> digit_char l t" "digit_char l t \<le> c_9"
    by (simp_all add: digit_of_def)
qed

lemma value_of_snoc [simp]: "value_of (s @ [c]) = value_of s * 10 + digit_of c"
  by (simp add: value_of_def)

lemma digit_loop_value: "value_of (digit_loop 10 l u []) = int u"
proof (induction u rule: less_induct)
  case (less u)
  show ?case
  proof (cases "u = 0")
    case True
    then show ?thesis by (simp add: digit_loop.simps value_of_def)
  next
    case False
    have "int (u div 10) * 10 + int (u mod 10) = int u" by presburger
    then show ?thesis using less.IH [of "u div 10"] False by (simp add: digit_loop_step digit_char_10)
  qed
qed

lemma digit_loop_digits: "c \<in> set (digit_loop 10 l u []) \<Longrightarrow> c_0 \<le> c \<and> c \<le> c_9"
proof (induction u rule: less_induct)
  case (less u)
  show ?case
  proof (cases "u = 0")
    case True
    then show ?thesis using less.prems by (simp add: digit_loop.simps)
  next
    case False
    then show ?thesis using less.IH [of "u div 10"] less.prems digit_char_10(2,3) [of "u mod 10" l]
      by (auto simp: digit_loop_step)
  qed
qed

lemma decimal_digit_loop: "u \<noteq> 0 \<Longrightarrow> decimal (digit_loop 10 l u [])"
  using digit_loop_digits [of _ l u] digit_loop_step [of u 10 l] unfolding decimal_def by auto

lemma value_of_zeros [simp]: "value_of (replicate n c_0 @ s) = value_of s"
  by (induction n) (simp_all add: value_of_def digit_of_def)

text \<open>Blanks before, zeros before, or blanks after a decimal do not change what is read.\<close>

lemma takeWhile_decimal: "decimal s \<Longrightarrow> takeWhile (\<lambda>c. c_0 \<le> c \<and> c \<le> c_9) (s @ replicate n c_space) = s"
  by (auto simp: decimal_def takeWhile_append takeWhile_replicate)

lemma decimal_first: "decimal s \<Longrightarrow> \<exists>c t. s = c # t \<and> c \<noteq> c_space \<and> c \<noteq> c_minus"
  by (cases s) (auto simp: decimal_def)

lemma read_decimal:
  assumes "decimal s"
  shows "read_number (replicate m c_space @ s @ replicate n c_space) = value_of s"
proof -
  obtain c t where c: "s = c # t" "c \<noteq> c_space" "c \<noteq> c_minus" using decimal_first [OF assms] by blast
  have "dropWhile (\<lambda>c. c = c_space) (replicate m c_space @ s @ replicate n c_space) = s @ replicate n c_space"
    using c by (simp add: dropWhile_append)
  then show ?thesis using takeWhile_decimal [OF assms, of n] c
    by (simp add: read_number_def del: takeWhile.simps(2))
qed

lemma read_negative:
  assumes "decimal s"
  shows "read_number (replicate m c_space @ c_minus # s @ replicate n c_space) = - value_of s"
  using takeWhile_decimal [OF assms, of n] by (simp add: read_number_def dropWhile_append)

lemma decimal_zeros: "decimal s \<Longrightarrow> decimal (replicate n c_0 @ s)"
  by (auto simp: decimal_def)

definition sane_pad :: "u8 \<Rightarrow> bool" where
  "sane_pad pad \<longleftrightarrow> pad AND PAD_RIGHT = 0 \<or> pad AND PAD_ZERO = 0"

lemma length_prints: "length (prints s width pad) = max (nat width) (length s)"
  by (auto simp: prints_def Let_def)

lemma prints_zero_width: "width \<le> 0 \<Longrightarrow> prints s width pad = s"
  by (simp add: prints_def)

lemma read_prints:
  assumes "decimal s" "sane_pad pad"
  shows "read_number (prints s width pad) = value_of s"
proof -
  obtain k where k: "k = nat (if 0 < width then (if width \<le> int (length s) then 0 else width - int (length s)) else width)"
    by blast
  consider "pad AND PAD_RIGHT \<noteq> 0" | "pad AND PAD_RIGHT = 0" "0 < width \<and> pad AND PAD_ZERO \<noteq> 0"
    | "pad AND PAD_RIGHT = 0" "\<not> (0 < width \<and> pad AND PAD_ZERO \<noteq> 0)" by blast
  then show ?thesis
  proof cases
    case 1
    then have "prints s width pad = replicate 0 c_space @ s @ replicate k c_space"
      using assms(2) by (simp add: prints_def sane_pad_def k)
    then show ?thesis using read_decimal [OF assms(1)] by metis
  next
    case 2
    then have "prints s width pad = replicate 0 c_space @ (replicate k c_0 @ s) @ replicate 0 c_space"
      by (simp add: prints_def k)
    then show ?thesis using read_decimal [OF decimal_zeros [OF assms(1)]] by (metis value_of_zeros)
  next
    case 3
    then have "prints s width pad = replicate k c_space @ s @ replicate 0 c_space"
      by (simp add: prints_def k)
    then show ?thesis using read_decimal [OF assms(1)] by metis
  qed
qed

lemma read_prints_minus:
  assumes "decimal s" "pad AND PAD_ZERO = 0"
  shows "read_number (prints (c_minus # s) width pad) = - value_of s"
proof -
  obtain k where k: "k = nat (if 0 < width then (if width \<le> int (length (c_minus # s)) then 0
      else width - int (length (c_minus # s))) else width)" by blast
  have "prints (c_minus # s) width pad = (if pad AND PAD_RIGHT = 0
      then replicate k c_space @ c_minus # s @ replicate 0 c_space
      else replicate 0 c_space @ c_minus # s @ replicate k c_space)"
    using assms(2) by (simp add: prints_def k)
  then show ?thesis using read_negative [OF assms(1)] by metis
qed

lemma read_minus_prints:
  assumes "decimal s" "pad AND PAD_RIGHT = 0" "pad AND PAD_ZERO \<noteq> 0"
  shows "read_number (c_minus # prints s width pad) = - value_of s"
proof -
  obtain k where k: "k = nat (if 0 < width then (if width \<le> int (length s) then 0 else width - int (length s)) else width)"
    by blast
  have "c_minus # prints s width pad = replicate 0 c_space @ c_minus # (replicate k c_0 @ s) @ replicate 0 c_space"
    using assms by (auto simp: prints_def k)
  then show ?thesis using read_negative [OF decimal_zeros [OF assms(1)], of 0 k 0] by simp
qed

lemma sint_eq_uint: "sint i = uint i - (if bit i 31 then 2 ^ 32 else 0)" for i :: u32
  using uint_lt2p [of i] by (simp add: sint_uint signed_take_bit_eq_take_bit_minus bit_uint_iff take_bit_int_eq_self)

lemma uint_negative:
  fixes i :: u32
  assumes "sint i < 0"
  shows "uint (- i) = - sint i"
proof -
  have bit: "bit i 31" using assms by (auto simp: sint_eq_uint split: if_splits)
  then have "uint i \<noteq> 0" by (metis bit_0_eq bot_apply bot_bool_def uint_0_iff)
  then have "uint (- i) = 2 ^ 32 - uint i"
    using uint_lt2p [of i] uint_ge_0 [of i] by (simp add: uint_word_ariths zmod_zminus1_eq_if)
  then show ?thesis using bit by (simp add: sint_eq_uint)
qed

lemma uint_nonnegative: "\<not> sint i < 0 \<Longrightarrow> uint i = sint i" for i :: u32
  using uint_lt2p [of i] by (auto simp: sint_eq_uint split: if_splits)

lemma number_length: "length (digit_loop 10 l (unat (i :: u32)) []) \<le> 10"
  using length_digit_loop [of "unat i" 10 10 l] unat_less_2p32 [of i] by (simp del: unat_less_2p32)

lemma printi_reads:
  assumes "0 \<le> width" "sane_pad pad"
  shows "\<exists>out. printi i 10 True width pad l = Inr out \<and> read_number out = sint i \<and>
    nat width \<le> length out \<and> length out \<le> max (nat width) 11"
proof (cases "i = 0")
  case True
  have "decimal [c_0]" by (simp add: decimal_def)
  then show ?thesis using True read_prints [OF _ assms(2), of "[c_0]" width]
    by (simp add: printi_def length_prints value_of_def digit_of_def)
next
  case nz: False
  show ?thesis
  proof (cases "sint i < 0")
    case neg: True
    obtain s where s: "s = digit_loop 10 l (unat (- i)) []" by blast
    have dec: "decimal s" unfolding s using nz by (intro decimal_digit_loop) (simp add: unat_eq_zero)
    have val: "value_of s = - sint i" by (simp add: s digit_loop_value uint_negative [OF neg])
    have len: "length s \<le> 10" unfolding s by (rule number_length)
    show ?thesis
    proof (cases "width \<noteq> 0 \<and> pad AND PAD_ZERO \<noteq> 0")
      case True
      then have "pad AND PAD_RIGHT = 0" using assms(2) by (simp add: sane_pad_def)
      then show ?thesis using True nz neg len read_minus_prints [OF dec] val assms(1)
        by (auto simp: printi_def Let_def in_print_buf_def PRINT_BUF_LEN_def length_prints simp flip: s)
    next
      case False
      have "read_number (prints (c_minus # s) width pad) = sint i"
      proof (cases "width = 0")
        case True
        then show ?thesis using read_negative [OF dec, of 0 0] val by (simp add: prints_zero_width)
      qed (use False read_prints_minus [OF dec] val in auto)
      then show ?thesis using False nz neg len
        by (auto simp: printi_def Let_def in_print_buf_def PRINT_BUF_LEN_def length_prints simp flip: s)
    qed
  next
    case pos: False
    obtain s where s: "s = digit_loop 10 l (unat i) []" by blast
    have dec: "decimal s" unfolding s using nz by (intro decimal_digit_loop) (simp add: unat_eq_zero)
    have val: "value_of s = sint i" using uint_nonnegative [OF pos] by (simp add: s digit_loop_value)
    have len: "length s \<le> 10" unfolding s by (rule number_length)
    show ?thesis using pos nz len read_prints [OF dec assms(2)] val
      by (auto simp: printi_def Let_def in_print_buf_def PRINT_BUF_LEN_def length_prints simp flip: s)
  qed
qed

section \<open>Formats\<close>

lemma print_loop_plain:
  "c_percent \<notin> set pre \<Longrightarrow> pc + int (length pre) \<le> 511 \<Longrightarrow>
     print_loop (pre @ f) args t0 pc = print_loop f args (t0 @ pre) (pc + int (length pre))"
proof (induction pre arbitrary: t0 pc)
  case (Cons c pre)
  then show ?case by (simp add: print_loop.simps(2) algebra_simps)
qed simp

lemma read_flags_letter: "k \<noteq> c_minus \<Longrightarrow> k \<noteq> c_0 \<Longrightarrow> \<not> (c_0 \<le> k \<and> k \<le> c_9) \<Longrightarrow> read_flags (k # f) = (k # f, 0, 0)"
  by (auto simp: read_flags_def)

lemma print_number:
  assumes "c_percent \<notin> set pre" "c_percent \<notin> set post" "length pre + length post \<le> 499"
    and out: "printi i 10 True 0 0 c_a = Inr out" "length out \<le> 11"
  shows "print (pre @ [c_percent, c_d] @ post) (Num i # args) =
    Inr \<lparr>p_text = pre @ out @ post, p_terminated = True, p_count = int (length pre + length out + length post)\<rparr>"
proof -
  have "print (pre @ [c_percent, c_d] @ post) (Num i # args)
      = print_loop (c_percent # c_d # post) (Num i # args) pre (int (length pre))"
    using print_loop_plain [OF assms(1), of 0] assms(3) by (simp add: print_def)
  also have "\<dots> = print_loop (post @ []) args (pre @ out) (int (length pre) + int (length out))"
    using assms(3) out(1)
    by (subst print_loop.simps(2)) (simp add: read_flags_letter conversion_def number_def)
  also have "\<dots> = Inr \<lparr>p_text = pre @ out @ post, p_terminated = True, p_count = int (length pre + length out + length post)\<rparr>"
    using assms(3) out(2) by (subst print_loop_plain [OF assms(2)]) (simp_all add: print_loop.simps(1))
  finally show ?thesis .
qed

lemma printi_no_zero: "printi i 10 True 0 0 l = Inr out \<Longrightarrow> 0 \<notin> set out"
  using digit_loop_digits [of 0 l "unat i"] digit_loop_digits [of 0 l "unat (- i)"]
  by (auto simp: printi_def Let_def in_print_buf_def prints_zero_width split: if_splits)

text \<open>
C36: A number printed with \<open>rdPrintf\<close> arrives: for every format that holds one \<open>%d\<close> between two plain texts
of together at most 116 characters, a receiver on the serial pin reads the first text, a numeral
that reads back as the signed value of the argument, and the second text; the buffer does not overflow.
\<close>

theorem rdPrintf_number_received:
  assumes "c_percent \<notin> set pre" "c_percent \<notin> set post" "0 \<notin> set pre" "0 \<notin> set post"
    "length pre + length post \<le> 116" "length bufft = 128" "98 \<le> T" "T \<le> 107" "cmds s = []"
  shows "\<exists>out. read_number out = sint i \<and>
    uart_receive T (line_level p True (cmds (exec (rdPrintf bufft p (pre @ [c_percent, c_d] @ post) [Num i]) s))) = pre @ out @ post"
proof -
  obtain out where out: "printi i 10 True 0 0 c_a = Inr out" "read_number out = sint i" "length out \<le> 11"
    using printi_reads [of 0 0 i c_a] by (auto simp: sane_pad_def)
  obtain after where buf: "wr_bytes bufft 0 ((pre @ out @ post) @ [0]) = (pre @ out @ post) @ 0 # after"
    by (simp add: wr_bytes_def)
  have "exec (rdPrintf bufft p (pre @ [c_percent, c_d] @ post) [Num i]) s
      = exec (softUartSend p ((pre @ out @ post) @ 0 # after)) s"
    using print_number [OF assms(1,2) _ out(1,3)] assms(5,6) out(3) buf
    by (simp add: rdPrintf_def my_sprintf_def written_def exec_def run_bind split_beta)
  moreover have "0 \<notin> set (pre @ out @ post)" using assms(3,4) printi_no_zero [OF out(1)] by simp
  ultimately show ?thesis
    using softUartSend_received [OF _ assms(7,8,9), of "pre @ out @ post" p after] out(2) by auto
qed

lemma rdPrintf_number_received_witness:
  "\<exists>out. read_number out = - 2 \<and>
    uart_receive 104 (line_level GPIO_PA0 True
      (cmds (exec (rdPrintf (replicate 128 0) GPIO_PA0 ([0x4D, 0x3A] @ [c_percent, c_d] @ [c_LF]) [Num (- 2)]) (quiet 0))))
      = [0x4D, 0x3A] @ out @ [c_LF]"
  using rdPrintf_number_received [of "[0x4D, 0x3A]" "[c_LF]" "replicate 128 0" 104 "quiet 0" "- 2" GPIO_PA0]
  by (simp add: quiet_def)

text \<open>A text of 128 characters or more does not fit the buffer, and nothing in the code checks it.\<close>

lemma rdPrintf_overflows:
  assumes "c_percent \<notin> set txt" "128 \<le> length txt" "length txt \<le> 511" "length bufft = 128"
  shows "run_state (rdPrintf bufft p txt args) s = (Inl Buffer_overflow, s)"
  using print_loop_plain [OF assms(1), of 0 "[]" args "[]"] assms(2-4)
  by (simp add: rdPrintf_def my_sprintf_def written_def print_def print_loop.simps(1))

text \<open>A format that ends inside a conversion is read beyond its terminator.\<close>

lemma unfinished_conversion:
  assumes "c_percent \<notin> set pre" "length pre \<le> 510"
  shows "print (pre @ [c_percent, c_minus]) args = Inl Format_overrun"
  using print_loop_plain [OF assms(1), of 0] assms(2)
  by (simp add: print_def print_loop.simps(2) read_flags_def)

text \<open>Left-justified with zeros, a number is printed as another number.\<close>

lemma left_zero_pad: "print [c_percent, c_minus, c_0, 0x33, c_d] [Num 7]
   = Inr \<lparr>p_text = [0x37, c_0, c_0], p_terminated = True, p_count = 3\<rparr>"
  by code_simp

section \<open>Hex dumps\<close>

definition hex2 :: "u8 \<Rightarrow> u8 list" where
  "hex2 c = [printf_arrb2t ! unat (drop_bit 4 c AND 15), printf_arrb2t ! unat (c AND 15)]"

definition dark :: "u8 \<Rightarrow> bool" where
  "dark c \<longleftrightarrow> c \<noteq> c_CR \<and> c \<noteq> c_LF \<and> c \<noteq> c_space"

definition nibble :: "u8 \<Rightarrow> u8" where
  "nibble c = (if c \<le> c_9 then c - 48 else c - 87)"

fun unhex :: "u8 list \<Rightarrow> u8 list" where
  "unhex (a # b # s) = (nibble a * 16 + nibble b) # unhex s"
| "unhex _ = []"

lemma and_15: "unat (c AND 15) = unat c mod 16" for c :: u8
proof -
  have "c AND 15 = take_bit 4 c" by (simp add: take_bit_eq_mask mask_eq_exp_minus_1)
  then show ?thesis by (simp add: take_bit_eq_mod unat_mod)
qed

lemma hex_table: "\<forall>n \<in> {0..<16}. nibble (printf_arrb2t ! n) = of_nat n \<and> dark (printf_arrb2t ! n)"
  by code_simp

lemma hex2_back: "unhex (hex2 c @ s) = c # unhex s" and hex2_dark: "filter dark (hex2 c) = hex2 c"
proof -
  have hi: "unat (drop_bit 4 c AND 15) = unat c div 16"
    using unat_less_256 [of c] by (simp add: and_15 drop_bit_eq_div unat_div less_mult_imp_div_less del: unat_less_256)
  have "unat c div 16 < 16" using unat_less_256 [of c] by (simp add: less_mult_imp_div_less del: unat_less_256)
  then have n: "nibble (printf_arrb2t ! (unat c div 16)) = of_nat (unat c div 16)" "dark (printf_arrb2t ! (unat c div 16))"
    "nibble (printf_arrb2t ! (unat c mod 16)) = of_nat (unat c mod 16)" "dark (printf_arrb2t ! (unat c mod 16))"
    using hex_table by auto
  have "of_nat (unat c div 16) * 16 + of_nat (unat c mod 16) = (of_nat (unat c div 16 * 16 + unat c mod 16) :: u8)"
    by (simp only: of_nat_add of_nat_mult of_nat_numeral)
  then have "of_nat (unat c div 16) * 16 + of_nat (unat c mod 16) = c" by (simp del: of_nat_add of_nat_mult)
  then show "unhex (hex2 c @ s) = c # unhex s" using n by (simp add: hex2_def and_15 hi [unfolded and_15])
  show "filter dark (hex2 c) = hex2 c" using n by (simp add: hex2_def and_15 hi [unfolded and_15])
qed

lemma unhex_concat: "unhex (concat (map hex2 cs)) = cs"
  by (induction cs) (simp_all add: hex2_back)

lemma dump_byte_dark: "filter dark (dump_byte m i c) = hex2 c" and dump_byte_length: "length (dump_byte m i c) \<le> 6"
  using hex2_dark [of c] by (auto simp: dump_byte_def hex2_def dark_def split: if_splits)

lemma dump_loop_run:
  "\<exists>k \<le> length cs. filter dark (dump_loop m L i cs acc) = filter dark acc @ concat (map hex2 (take k cs)) \<and>
     int (length (dump_loop m L i cs acc)) \<le> max (int (length acc)) (L - 2) \<and>
     (int (length acc) + 6 * int (length cs) + 2 \<le> L \<longrightarrow> k = length cs)"
proof (induction cs arbitrary: i acc)
  case Nil
  then show ?case by simp
next
  case (Cons c cs)
  show ?case
  proof (cases "L < int (length acc) + 6 + 2")
    case True
    then show ?thesis by (intro exI [of _ 0]) simp
  next
    case False
    obtain k where k: "k \<le> length cs"
      "filter dark (dump_loop m L (i + 1) cs (acc @ dump_byte m i c)) = filter dark (acc @ dump_byte m i c) @ concat (map hex2 (take k cs))"
      "int (length (dump_loop m L (i + 1) cs (acc @ dump_byte m i c))) \<le> max (int (length (acc @ dump_byte m i c))) (L - 2)"
      "int (length (acc @ dump_byte m i c)) + 6 * int (length cs) + 2 \<le> L \<longrightarrow> k = length cs"
      using Cons.IH [of "i + 1" "acc @ dump_byte m i c"] by blast
    have "int (length (dump_byte m i c)) \<le> 6" using dump_byte_length [of m i c] by simp
    then show ?thesis using False k by (intro exI [of _ "Suc k"]) (auto simp: dump_byte_dark)
  qed
qed

text \<open>
A hex dump never exceeds the room it is given, and reading the digits back gives the first bytes of
the data; all of them when there are six characters per byte and six more.
\<close>

theorem hexdump_reads_back:
  assumes "0 \<le> room"
  shows "\<exists>k \<le> length data. unhex (filter dark (printf_Bin2Text room data)) = take k data \<and>
    int (length (printf_Bin2Text room data)) \<le> room \<and>
    (6 * int (length data) + 6 \<le> room \<longrightarrow> k = length data)"
proof -
  obtain start where start: "start \<longleftrightarrow> 2 ^ LINE_MAX_LOG < length data \<and> 2 < room" by blast
  obtain L where L: "L = (if start then room - 2 else room)" by blast
  obtain acc where acc: "acc = (if start then [c_CR, c_LF] else [])" by blast
  obtain k where k: "k \<le> length data"
    "filter dark (dump_loop (length data) L 0 data acc) = filter dark acc @ concat (map hex2 (take k data))"
    "int (length (dump_loop (length data) L 0 data acc)) \<le> max (int (length acc)) (L - 2)"
    "int (length acc) + 6 * int (length data) + 2 \<le> L \<longrightarrow> k = length data"
    using dump_loop_run [of data "length data" L 0 acc] by blast
  have eq: "printf_Bin2Text room data = (let lpD = dump_loop (length data) L 0 data acc
      in if int (length lpD) + 2 \<le> L then lpD @ [c_CR, c_LF] else lpD)"
    unfolding printf_Bin2Text_def Let_def L acc start by simp
  have "filter dark acc = []" by (simp add: acc dark_def)
  then have "unhex (filter dark (printf_Bin2Text room data)) = take k data"
    using k(2) by (simp add: eq Let_def dark_def unhex_concat)
  moreover have "int (length (printf_Bin2Text room data)) \<le> room"
    using k(3) assms start by (auto simp: eq Let_def L acc split: if_splits)
  moreover have "6 * int (length data) + 6 \<le> room \<longrightarrow> k = length data"
    using k(4) by (auto simp: L acc)
  ultimately show ?thesis using k(1) by blast
qed

lemma hexdump_reads_back_witness:
  "\<exists>k \<le> 2. unhex (filter dark (printf_Bin2Text 20 [0xA7, 0x03])) = take k [0xA7, 0x03] \<and> k = 2"
  using hexdump_reads_back [of 20 "[0xA7, 0x03]"] by auto

text \<open>The size \<open>get_len_Bin2Text\<close> computes for one byte is too small for that byte.\<close>

lemma dump_size_too_small:
  "get_len_Bin2Text 1 = 6" "printf_Bin2Text (uint (get_len_Bin2Text 1)) [c] = [c_CR, c_LF]"
  by (simp_all add: get_len_Bin2Text_def printf_Bin2Text_def LINE_MAX_LOG_def)

end
