(* ===== verification/Adc.thy ===== *)
theory Adc
  imports Gpio "HOL-Library.Monad_Syntax"
begin

text \<open>
  The analog-to-digital converter (\<open>drivers/8258/adc.c\<close>, \<open>adc.h\<close> and the buffer functions of \<open>dfifo.h\<close>),
  with which the application measures its battery. The setters change fields of analog registers;
  \<open>adc_sample_and_get_result\<close> waits for eight samples that arrive by DMA, sorts them while they
  arrive and averages the middle four. The clock is a stream of readings, and the samples are what
  the DMA has written when they are read. A wait that never ends is \<open>None\<close>.
\<close>

section \<open>State and registers\<close>

record adc_mcu = mcu +
  adc_vref :: u16
  adc_calib_en :: u16
  adc_pre_scale :: u8
  adc_code :: u16

definition BIT_RNG :: "nat \<Rightarrow> nat \<Rightarrow> u8" where
  "BIT_RNG s e = push_bit s (BIT (e - s + 1) - 1)"

definition areg_clk_setting :: u8 where "areg_clk_setting = 0x82"
definition areg_adc_sampling_clk_div :: u8 where "areg_adc_sampling_clk_div = 0xf4"
definition areg_adc_vref :: u8 where "areg_adc_vref = 0xe7"
definition areg_adc_vref_vbat_div :: u8 where "areg_adc_vref_vbat_div = 0xf9"
definition areg_adc_ain_chn_misc :: u8 where "areg_adc_ain_chn_misc = 0xe8"
definition areg_adc_ain_chn_left :: u8 where "areg_adc_ain_chn_left = 0xe9"
definition areg_adc_ain_chn_right :: u8 where "areg_adc_ain_chn_right = 0xea"
definition areg_adc_res_l_r :: u8 where "areg_adc_res_l_r = 0xeb"
definition anareg_adc_res_m :: u8 where "anareg_adc_res_m = 0xec"
definition areg_adc_tsmaple_m :: u8 where "areg_adc_tsmaple_m = 0xee"
definition areg_adc_tsmaple_l_r :: u8 where "areg_adc_tsmaple_l_r = 0xed"
definition areg_r_max_mc :: u8 where "areg_r_max_mc = 0xef"
definition areg_r_max_c :: u8 where "areg_r_max_c = 0xf0"
definition areg_r_max_s :: u8 where "areg_r_max_s = 0xf1"
definition areg_adc_chn_en :: u8 where "areg_adc_chn_en = 0xf2"
definition areg_ain_scale :: u8 where "areg_ain_scale = 0xfa"
definition areg_adc_pga_boost :: u8 where "areg_adc_pga_boost = 0xfb"
definition areg_adc_pga_ctrl :: u8 where "areg_adc_pga_ctrl = 0xfc"
definition areg_adc_rng_l :: u8 where "areg_adc_rng_l = 0xf5"
definition areg_adc_rng_h :: u8 where "areg_adc_rng_h = 0xf6"

definition FLD_CLK_24M_TO_SAR_EN :: u8 where "FLD_CLK_24M_TO_SAR_EN = BIT 6"
definition FLD_ADC_VREF_CHN_L :: u8 where "FLD_ADC_VREF_CHN_L = BIT_RNG 0 1"
definition FLD_ADC_VREF_CHN_R :: u8 where "FLD_ADC_VREF_CHN_R = BIT_RNG 2 3"
definition FLD_ADC_VREF_CHN_M :: u8 where "FLD_ADC_VREF_CHN_M = BIT_RNG 4 5"
definition FLD_ADC_VREF_VBAT_DIV :: u8 where "FLD_ADC_VREF_VBAT_DIV = BIT_RNG 2 3"
definition FLD_ADC_AIN_NEGATIVE :: u8 where "FLD_ADC_AIN_NEGATIVE = BIT_RNG 0 3"
definition FLD_ADC_AIN_POSITIVE :: u8 where "FLD_ADC_AIN_POSITIVE = BIT_RNG 4 7"
definition FLD_ADC_RES_L :: u8 where "FLD_ADC_RES_L = BIT_RNG 0 1"
definition FLD_ADC_RES_R :: u8 where "FLD_ADC_RES_R = BIT_RNG 4 5"
definition FLD_ADC_RES_M :: u8 where "FLD_ADC_RES_M = BIT_RNG 0 1"
definition FLD_ADC_EN_DIFF_CHN_L :: u8 where "FLD_ADC_EN_DIFF_CHN_L = BIT 4"
definition FLD_ADC_EN_DIFF_CHN_R :: u8 where "FLD_ADC_EN_DIFF_CHN_R = BIT 5"
definition FLD_ADC_EN_DIFF_CHN_M :: u8 where "FLD_ADC_EN_DIFF_CHN_M = BIT 6"
definition FLD_ADC_TSAMPLE_CYCLE_CHN_L :: u8 where "FLD_ADC_TSAMPLE_CYCLE_CHN_L = BIT_RNG 0 3"
definition FLD_ADC_TSAMPLE_CYCLE_CHN_R :: u8 where "FLD_ADC_TSAMPLE_CYCLE_CHN_R = BIT_RNG 4 7"
definition FLD_R_MAX_S :: u8 where "FLD_R_MAX_S = BIT_RNG 0 3"
definition FLD_R_MAX_C1 :: u8 where "FLD_R_MAX_C1 = BIT_RNG 4 5"
definition FLD_R_MAX_MC1 :: u8 where "FLD_R_MAX_MC1 = BIT_RNG 6 7"
definition FLD_ADC_MAX_SCNT :: u8 where "FLD_ADC_MAX_SCNT = BIT_RNG 4 6"
definition FLD_ADC_ITRIM_PREAMP :: u8 where "FLD_ADC_ITRIM_PREAMP = BIT_RNG 0 1"
definition FLD_ADC_ITRIM_VREFBUF :: u8 where "FLD_ADC_ITRIM_VREFBUF = BIT_RNG 2 3"
definition FLD_ADC_ITRIM_VCMBUF :: u8 where "FLD_ADC_ITRIM_VCMBUF = BIT_RNG 4 5"
definition FLD_SEL_AIN_SCALE :: u8 where "FLD_SEL_AIN_SCALE = BIT_RNG 6 7"
definition FLD_PGA_CAP_TRIM_EN_L :: u8 where "FLD_PGA_CAP_TRIM_EN_L = BIT 0"
definition FLD_PGA_CAP_TRIM_EN_R :: u8 where "FLD_PGA_CAP_TRIM_EN_R = BIT 1"
definition FLD_PGA_ITRIM_BOOST_L :: u8 where "FLD_PGA_ITRIM_BOOST_L = BIT_RNG 4 5"
definition FLD_PGA_ITRIM_BOOST_R :: u8 where "FLD_PGA_ITRIM_BOOST_R = BIT_RNG 6 7"
definition FLD_PGA_ITRIM_GAIN_L :: u8 where "FLD_PGA_ITRIM_GAIN_L = BIT_RNG 0 1"
definition FLD_PGA_ITRIM_GAIN_R :: u8 where "FLD_PGA_ITRIM_GAIN_R = BIT_RNG 2 3"
definition FLD_ADC_MODE :: u8 where "FLD_ADC_MODE = BIT 4"
definition FLD_SAR_ADC_POWER_DOWN :: u8 where "FLD_SAR_ADC_POWER_DOWN = BIT 5"
definition FLD_POWER_DOWN_PGA_CHN_L :: u8 where "FLD_POWER_DOWN_PGA_CHN_L = BIT 6"
definition FLD_POWER_DOWN_PGA_CHN_R :: u8 where "FLD_POWER_DOWN_PGA_CHN_R = BIT 7"

lemmas adc_regs = areg_clk_setting_def areg_adc_sampling_clk_div_def areg_adc_vref_def areg_adc_vref_vbat_div_def areg_adc_ain_chn_misc_def areg_adc_ain_chn_left_def areg_adc_ain_chn_right_def areg_adc_res_l_r_def anareg_adc_res_m_def areg_adc_tsmaple_m_def
  areg_adc_tsmaple_l_r_def areg_r_max_mc_def areg_r_max_c_def areg_r_max_s_def areg_adc_chn_en_def areg_ain_scale_def areg_adc_pga_boost_def areg_adc_pga_ctrl_def areg_adc_rng_l_def areg_adc_rng_h_def
lemmas adc_flds = FLD_CLK_24M_TO_SAR_EN_def FLD_ADC_VREF_CHN_L_def FLD_ADC_VREF_CHN_R_def FLD_ADC_VREF_CHN_M_def FLD_ADC_VREF_VBAT_DIV_def
  FLD_ADC_AIN_NEGATIVE_def FLD_ADC_AIN_POSITIVE_def FLD_ADC_RES_L_def FLD_ADC_RES_R_def FLD_ADC_RES_M_def
  FLD_ADC_EN_DIFF_CHN_L_def FLD_ADC_EN_DIFF_CHN_R_def FLD_ADC_EN_DIFF_CHN_M_def FLD_ADC_TSAMPLE_CYCLE_CHN_L_def FLD_ADC_TSAMPLE_CYCLE_CHN_R_def
  FLD_R_MAX_S_def FLD_R_MAX_C1_def FLD_R_MAX_MC1_def FLD_ADC_MAX_SCNT_def FLD_ADC_ITRIM_PREAMP_def
  FLD_ADC_ITRIM_VREFBUF_def FLD_ADC_ITRIM_VCMBUF_def FLD_SEL_AIN_SCALE_def FLD_PGA_CAP_TRIM_EN_L_def FLD_PGA_CAP_TRIM_EN_R_def
  FLD_PGA_ITRIM_BOOST_L_def FLD_PGA_ITRIM_BOOST_R_def FLD_PGA_ITRIM_GAIN_L_def FLD_PGA_ITRIM_GAIN_R_def FLD_ADC_MODE_def
  FLD_SAR_ADC_POWER_DOWN_def FLD_POWER_DOWN_PGA_CHN_L_def FLD_POWER_DOWN_PGA_CHN_R_def

text \<open>The enumerations of \<open>adc.h\<close>.\<close>

definition ADC_VREF_0P6V :: u8 where "ADC_VREF_0P6V = 0"
definition ADC_VREF_0P9V :: u8 where "ADC_VREF_0P9V = 1"
definition ADC_VREF_1P2V :: u8 where "ADC_VREF_1P2V = 2"
definition ADC_VREF_VBAT_N :: u8 where "ADC_VREF_VBAT_N = 3"
definition ADC_VBAT_DIVIDER_OFF :: u8 where "ADC_VBAT_DIVIDER_OFF = 0"
definition GND :: u8 where "GND = 15"
definition RES14 :: u8 where "RES14 = 3"
definition SAMPLING_CYCLES_6 :: u8 where "SAMPLING_CYCLES_6 = 1"
definition ADC_PRESCALER_1F8 :: u8 where "ADC_PRESCALER_1F8 = 3"
definition GAIN_STAGE_BIAS_PER100 :: u8 where "GAIN_STAGE_BIAS_PER100 = 1"
definition ADC_NORMAL_MODE :: u8 where "ADC_NORMAL_MODE = 0"
definition ADC_LEFT_CHN :: u8 where "ADC_LEFT_CHN = BIT 0"
definition ADC_RIGHT_CHN :: u8 where "ADC_RIGHT_CHN = BIT 1"
definition ADC_MISC_CHN :: u8 where "ADC_MISC_CHN = BIT 2"

datatype adc_input_mode = SINGLE_ENDED_MODE | DIFFERENTIAL_MODE

lemmas adc_enums = ADC_VREF_0P6V_def ADC_VREF_0P9V_def ADC_VREF_1P2V_def ADC_VREF_VBAT_N_def ADC_VBAT_DIVIDER_OFF_def GND_def RES14_def SAMPLING_CYCLES_6_def ADC_PRESCALER_1F8_def GAIN_STAGE_BIAS_PER100_def ADC_NORMAL_MODE_def
  ADC_LEFT_CHN_def ADC_RIGHT_CHN_def ADC_MISC_CHN_def

text \<open>\<open>analog_write(a, f(analog_read(a)))\<close>.\<close>

definition areg_upd :: "u8 \<Rightarrow> (u8 \<Rightarrow> u8) \<Rightarrow> 'a mcu_scheme \<Rightarrow> 'a mcu_scheme" where
  "areg_upd a f s = (let (v, s) = analog_read a s in analog_write a (f v) s)"

definition areg_field :: "u8 \<Rightarrow> u8 \<Rightarrow> u8 \<Rightarrow> 'a mcu_scheme \<Rightarrow> 'a mcu_scheme" where
  "areg_field a msk v = areg_upd a (\<lambda>x. (x AND NOT msk) OR v)"

section \<open>Setters\<close>

definition adc_reset_adc_module :: "'a mcu_scheme \<Rightarrow> 'a mcu_scheme" where
  "adc_reset_adc_module s = write_reg8 0x61 0 (write_reg8 0x61 (BIT 5) s)"

definition adc_enable_clk_24m_to_sar_adc :: "bool \<Rightarrow> 'a mcu_scheme \<Rightarrow> 'a mcu_scheme" where
  "adc_enable_clk_24m_to_sar_adc en s = areg_upd areg_clk_setting
     (\<lambda>x. if en then x OR FLD_CLK_24M_TO_SAR_EN else x AND NOT FLD_CLK_24M_TO_SAR_EN) s"

definition adc_set_sample_clk :: "u8 \<Rightarrow> 'a mcu_scheme \<Rightarrow> 'a mcu_scheme" where
  "adc_set_sample_clk divider s = analog_write areg_adc_sampling_clk_div (divider AND 0x07) s"

definition adc_set_vref :: "u8 \<Rightarrow> u8 \<Rightarrow> u8 \<Rightarrow> 'a mcu_scheme \<Rightarrow> 'a mcu_scheme" where
  "adc_set_vref vRef_L vRef_R vRef_M s = analog_write areg_adc_vref (vRef_L OR push_bit 2 vRef_R OR push_bit 4 vRef_M) s"

definition adc_set_vref_chn_left :: "u8 \<Rightarrow> 'a mcu_scheme \<Rightarrow> 'a mcu_scheme" where
  "adc_set_vref_chn_left v_ref s = areg_field areg_adc_vref FLD_ADC_VREF_CHN_L (v_ref) s"

definition adc_set_vref_chn_right :: "u8 \<Rightarrow> 'a mcu_scheme \<Rightarrow> 'a mcu_scheme" where
  "adc_set_vref_chn_right v_ref s = areg_field areg_adc_vref FLD_ADC_VREF_CHN_R (push_bit 2 v_ref) s"

definition adc_set_vref_chn_misc :: "u8 \<Rightarrow> 'a mcu_scheme \<Rightarrow> 'a mcu_scheme" where
  "adc_set_vref_chn_misc v_ref s = areg_field areg_adc_vref FLD_ADC_VREF_CHN_M (push_bit 4 v_ref) s"

definition adc_set_vref_vbat_divider :: "u8 \<Rightarrow> 'a mcu_scheme \<Rightarrow> 'a mcu_scheme" where
  "adc_set_vref_vbat_divider vbat_div s = areg_field areg_adc_vref_vbat_div FLD_ADC_VREF_VBAT_DIV (push_bit 2 vbat_div) s"

definition adc_set_ain_chn_misc :: "u8 \<Rightarrow> u8 \<Rightarrow> 'a mcu_scheme \<Rightarrow> 'a mcu_scheme" where
  "adc_set_ain_chn_misc p_ain n_ain s = analog_write areg_adc_ain_chn_misc (n_ain OR push_bit 4 p_ain) s"

definition adc_set_ain_chn_left :: "u8 \<Rightarrow> u8 \<Rightarrow> 'a mcu_scheme \<Rightarrow> 'a mcu_scheme" where
  "adc_set_ain_chn_left p_ain n_ain s = analog_write areg_adc_ain_chn_left (n_ain OR push_bit 4 p_ain) s"

definition adc_set_ain_chn_right :: "u8 \<Rightarrow> u8 \<Rightarrow> 'a mcu_scheme \<Rightarrow> 'a mcu_scheme" where
  "adc_set_ain_chn_right p_ain n_ain s = analog_write areg_adc_ain_chn_right (n_ain OR push_bit 4 p_ain) s"

definition adc_set_ain_negative_chn_misc :: "u8 \<Rightarrow> 'a mcu_scheme \<Rightarrow> 'a mcu_scheme" where
  "adc_set_ain_negative_chn_misc v_ain s = areg_field areg_adc_ain_chn_misc FLD_ADC_AIN_NEGATIVE v_ain s"

definition adc_set_ain_positive_chn_misc :: "u8 \<Rightarrow> 'a mcu_scheme \<Rightarrow> 'a mcu_scheme" where
  "adc_set_ain_positive_chn_misc v_ain s = areg_field areg_adc_ain_chn_misc FLD_ADC_AIN_POSITIVE (push_bit 4 v_ain) s"

definition adc_set_ain_negative_chn_left :: "u8 \<Rightarrow> 'a mcu_scheme \<Rightarrow> 'a mcu_scheme" where
  "adc_set_ain_negative_chn_left v_ain s = areg_field areg_adc_ain_chn_left FLD_ADC_AIN_NEGATIVE v_ain s"

definition adc_set_ain_positive_chn_left :: "u8 \<Rightarrow> 'a mcu_scheme \<Rightarrow> 'a mcu_scheme" where
  "adc_set_ain_positive_chn_left v_ain s = areg_field areg_adc_ain_chn_left FLD_ADC_AIN_POSITIVE (push_bit 4 v_ain) s"

definition adc_set_ain_negative_chn_right :: "u8 \<Rightarrow> 'a mcu_scheme \<Rightarrow> 'a mcu_scheme" where
  "adc_set_ain_negative_chn_right v_ain s = areg_field areg_adc_ain_chn_right FLD_ADC_AIN_NEGATIVE v_ain s"

definition adc_set_ain_positive_chn_right :: "u8 \<Rightarrow> 'a mcu_scheme \<Rightarrow> 'a mcu_scheme" where
  "adc_set_ain_positive_chn_right v_ain s = areg_field areg_adc_ain_chn_right FLD_ADC_AIN_POSITIVE (push_bit 4 v_ain) s"

definition adc_set_resolution_chn_left :: "u8 \<Rightarrow> 'a mcu_scheme \<Rightarrow> 'a mcu_scheme" where
  "adc_set_resolution_chn_left v_res s = areg_field areg_adc_res_l_r FLD_ADC_RES_L v_res s"

definition adc_set_resolution_chn_right :: "u8 \<Rightarrow> 'a mcu_scheme \<Rightarrow> 'a mcu_scheme" where
  "adc_set_resolution_chn_right v_res s = areg_field areg_adc_res_l_r FLD_ADC_RES_R (push_bit 4 v_res) s"

definition adc_set_resolution_chn_misc :: "u8 \<Rightarrow> 'a mcu_scheme \<Rightarrow> 'a mcu_scheme" where
  "adc_set_resolution_chn_misc v_res s = areg_field anareg_adc_res_m FLD_ADC_RES_M v_res s"

definition adc_set_input_mode_chn_left :: "adc_input_mode \<Rightarrow> 'a mcu_scheme \<Rightarrow> 'a mcu_scheme" where
  "adc_set_input_mode_chn_left m_input s = areg_upd anareg_adc_res_m
     (\<lambda>x. if m_input = DIFFERENTIAL_MODE then x OR FLD_ADC_EN_DIFF_CHN_L else x AND NOT FLD_ADC_EN_DIFF_CHN_L) s"

definition adc_set_input_mode_chn_right :: "adc_input_mode \<Rightarrow> 'a mcu_scheme \<Rightarrow> 'a mcu_scheme" where
  "adc_set_input_mode_chn_right m_input s = areg_upd anareg_adc_res_m
     (\<lambda>x. if m_input = DIFFERENTIAL_MODE then x OR FLD_ADC_EN_DIFF_CHN_R else x AND NOT FLD_ADC_EN_DIFF_CHN_R) s"

definition adc_set_input_mode_chn_misc :: "adc_input_mode \<Rightarrow> 'a mcu_scheme \<Rightarrow> 'a mcu_scheme" where
  "adc_set_input_mode_chn_misc m_input s = areg_upd anareg_adc_res_m
     (\<lambda>x. if m_input = DIFFERENTIAL_MODE then x OR FLD_ADC_EN_DIFF_CHN_M else x AND NOT FLD_ADC_EN_DIFF_CHN_M) s"

definition adc_set_tsample_cycle_chn_misc :: "u8 \<Rightarrow> 'a mcu_scheme \<Rightarrow> 'a mcu_scheme" where
  "adc_set_tsample_cycle_chn_misc adcST s = analog_write areg_adc_tsmaple_m adcST s"

definition adc_set_tsample_cycle_chn_left :: "u8 \<Rightarrow> 'a mcu_scheme \<Rightarrow> 'a mcu_scheme" where
  "adc_set_tsample_cycle_chn_left adcST s = areg_field areg_adc_tsmaple_l_r FLD_ADC_TSAMPLE_CYCLE_CHN_L adcST s"

definition adc_set_tsample_cycle_chn_right :: "u8 \<Rightarrow> 'a mcu_scheme \<Rightarrow> 'a mcu_scheme" where
  "adc_set_tsample_cycle_chn_right adcST s = areg_field areg_adc_tsmaple_l_r FLD_ADC_TSAMPLE_CYCLE_CHN_R (push_bit 4 adcST) s"

definition adc_set_length_set_state :: "u8 \<Rightarrow> 'a mcu_scheme \<Rightarrow> 'a mcu_scheme" where
  "adc_set_length_set_state r_max_s s = areg_field areg_r_max_s FLD_R_MAX_S r_max_s s"

definition adc_set_length_capture_state_for_chn_misc_rns :: "u16 \<Rightarrow> 'a mcu_scheme \<Rightarrow> 'a mcu_scheme" where
  "adc_set_length_capture_state_for_chn_misc_rns r_max_mc s = areg_field areg_r_max_s FLD_R_MAX_MC1 (push_bit 6 (hi8 (r_max_mc AND 0x3ff)))
     (analog_write areg_r_max_mc (lo8 r_max_mc) s)"

definition adc_set_length_capture_state_for_chn_left_right :: "u16 \<Rightarrow> 'a mcu_scheme \<Rightarrow> 'a mcu_scheme" where
  "adc_set_length_capture_state_for_chn_left_right r_max_c s = areg_field areg_r_max_s FLD_R_MAX_C1 (push_bit 4 (hi8 (r_max_c AND 0x3ff)))
     (analog_write areg_r_max_c (lo8 r_max_c) s)"

definition adc_set_state_length :: "u16 \<Rightarrow> u16 \<Rightarrow> u8 \<Rightarrow> 'a mcu_scheme \<Rightarrow> 'a mcu_scheme" where
  "adc_set_state_length R_max_mc R_max_c R_max_s s = analog_write areg_r_max_s (push_bit 6 (hi8 R_max_mc) OR push_bit 4 (hi8 R_max_c) OR (R_max_s AND FLD_R_MAX_S))
     (analog_write areg_r_max_c (lo8 R_max_c) (analog_write areg_r_max_mc (lo8 R_max_mc) s))"

definition adc_set_chn_enable :: "u8 \<Rightarrow> 'a mcu_scheme \<Rightarrow> 'a mcu_scheme" where
  "adc_set_chn_enable ad_ch s = areg_upd areg_adc_chn_en (\<lambda>x. (x AND 0xf0) OR ad_ch) s"

definition adc_set_chn_enable_and_max_state_cnt :: "u8 \<Rightarrow> u8 \<Rightarrow> 'a mcu_scheme \<Rightarrow> 'a mcu_scheme" where
  "adc_set_chn_enable_and_max_state_cnt ad_ch s_cnt s = analog_write areg_adc_chn_en (ad_ch OR push_bit 4 (s_cnt AND 0x07)) s"

definition adc_set_max_state_cnt :: "u8 \<Rightarrow> 'a mcu_scheme \<Rightarrow> 'a mcu_scheme" where
  "adc_set_max_state_cnt s_cnt s = areg_field areg_adc_chn_en FLD_ADC_MAX_SCNT (push_bit 4 (s_cnt AND 0x07)) s"

definition adc_set_itrim_preamp :: "u8 \<Rightarrow> 'a mcu_scheme \<Rightarrow> 'a mcu_scheme" where
  "adc_set_itrim_preamp bias s = areg_field areg_ain_scale FLD_ADC_ITRIM_PREAMP (push_bit 0 bias) s"

definition adc_set_itrim_vrefbuf :: "u8 \<Rightarrow> 'a mcu_scheme \<Rightarrow> 'a mcu_scheme" where
  "adc_set_itrim_vrefbuf bias s = areg_field areg_ain_scale FLD_ADC_ITRIM_VREFBUF (push_bit 2 bias) s"

definition adc_set_itrim_vcmbuf :: "u8 \<Rightarrow> 'a mcu_scheme \<Rightarrow> 'a mcu_scheme" where
  "adc_set_itrim_vcmbuf bias s = areg_field areg_ain_scale FLD_ADC_ITRIM_VCMBUF (push_bit 4 bias) s"

definition adc_set_left_boost_bias :: "u8 \<Rightarrow> 'a mcu_scheme \<Rightarrow> 'a mcu_scheme" where
  "adc_set_left_boost_bias bias s = areg_field areg_adc_pga_boost FLD_PGA_ITRIM_BOOST_L (push_bit 4 bias OR FLD_PGA_CAP_TRIM_EN_L) s"

definition adc_set_right_boost_bias :: "u8 \<Rightarrow> 'a mcu_scheme \<Rightarrow> 'a mcu_scheme" where
  "adc_set_right_boost_bias bias s = areg_field areg_adc_pga_boost FLD_PGA_ITRIM_BOOST_R (push_bit 6 bias OR FLD_PGA_CAP_TRIM_EN_R) s"

definition adc_set_left_right_gain_bias :: "u8 \<Rightarrow> u8 \<Rightarrow> 'a mcu_scheme \<Rightarrow> 'a mcu_scheme" where
  "adc_set_left_right_gain_bias bias_L bias_R s = areg_upd areg_adc_pga_ctrl (\<lambda>x. (x AND 0xf0) OR (bias_L OR push_bit 2 bias_R)) s"

definition adc_set_left_gain_bias :: "u8 \<Rightarrow> 'a mcu_scheme \<Rightarrow> 'a mcu_scheme" where
  "adc_set_left_gain_bias bias s = areg_field areg_adc_pga_ctrl FLD_PGA_ITRIM_GAIN_L bias s"

definition adc_set_right_gain_bias :: "u8 \<Rightarrow> 'a mcu_scheme \<Rightarrow> 'a mcu_scheme" where
  "adc_set_right_gain_bias bias s = areg_field areg_adc_pga_ctrl FLD_PGA_ITRIM_GAIN_R (push_bit 2 bias) s"

definition adc_set_mode :: "u8 \<Rightarrow> 'a mcu_scheme \<Rightarrow> 'a mcu_scheme" where
  "adc_set_mode adc_m s = areg_field areg_adc_pga_ctrl FLD_ADC_MODE adc_m s"

definition adc_power_on_sar_adc :: "bool \<Rightarrow> 'a mcu_scheme \<Rightarrow> 'a mcu_scheme" where
  "adc_power_on_sar_adc on_off s = areg_field areg_adc_pga_ctrl FLD_SAR_ADC_POWER_DOWN (if on_off then 0 else BIT 5) s"

definition pga_left_chn_power_on :: "bool \<Rightarrow> 'a mcu_scheme \<Rightarrow> 'a mcu_scheme" where
  "pga_left_chn_power_on on_off s = areg_field areg_adc_pga_ctrl FLD_POWER_DOWN_PGA_CHN_L (if on_off then 0 else BIT 6) s"

definition pga_right_chn_power_on :: "bool \<Rightarrow> 'a mcu_scheme \<Rightarrow> 'a mcu_scheme" where
  "pga_right_chn_power_on on_off s = areg_field areg_adc_pga_ctrl FLD_POWER_DOWN_PGA_CHN_R (if on_off then 0 else BIT 7) s"

definition adc_calib_vref_enable :: "u8 \<Rightarrow> 'a adc_mcu_scheme \<Rightarrow> 'a adc_mcu_scheme" where
  "adc_calib_vref_enable en s = s\<lparr>adc_calib_en := ucast en\<rparr>"

definition RNG_Set :: "u8 \<Rightarrow> u8 \<Rightarrow> 'a mcu_scheme \<Rightarrow> 'a mcu_scheme" where
  "RNG_Set src update_type s = analog_write 0xfe (src OR update_type) s"

definition RNG_Read :: "'a mcu_scheme \<Rightarrow> u16 \<times> 'a mcu_scheme" where
  "RNG_Read s = (let (h, s) = analog_read areg_adc_rng_h s; (l, s) = analog_read areg_adc_rng_l s in (mk16 h l, s))"

section \<open>The sample buffer\<close>

definition dfifo_enable_dfifo2 :: "'a mcu_scheme \<Rightarrow> 'a mcu_scheme" where
  "dfifo_enable_dfifo2 s = BM_SET 0xb10 (BIT 2) s"

definition dfifo_disable_dfifo2 :: "'a mcu_scheme \<Rightarrow> 'a mcu_scheme" where
  "dfifo_disable_dfifo2 s = BM_CLR 0xb10 (BIT 2) s"

definition adc_config_misc_channel_buf :: "u32 \<Rightarrow> u32 \<Rightarrow> 'a mcu_scheme \<Rightarrow> 'a mcu_scheme" where
  "adc_config_misc_channel_buf pbuff size_buff s =
     write_reg16 0xb1e 0 (write_reg8 0xb0a (ucast (drop_bit 4 size_buff) - 1) (write_reg16 0xb08 (ucast pbuff) s))"

definition dfifo_set_dfifo0 :: "u32 \<Rightarrow> u32 \<Rightarrow> 'a mcu_scheme \<Rightarrow> 'a mcu_scheme" where
  "dfifo_set_dfifo0 pbuff size_buff s = write_reg8 0xb02 (ucast (drop_bit 4 size_buff) - 1) (write_reg16 0xb00 (ucast pbuff) s)"

definition dfifo_set_dfifo1 :: "u32 \<Rightarrow> u32 \<Rightarrow> 'a mcu_scheme \<Rightarrow> 'a mcu_scheme" where
  "dfifo_set_dfifo1 pbuff size_buff s = write_reg8 0xb06 (ucast (drop_bit 4 size_buff) - 1) (write_reg16 0xb04 (ucast pbuff) s)"

definition dfifo_set_dfifo2 :: "u32 \<Rightarrow> u32 \<Rightarrow> 'a mcu_scheme \<Rightarrow> 'a mcu_scheme" where
  "dfifo_set_dfifo2 pbuff size_buff s = write_reg8 0xb0a (ucast (drop_bit 4 size_buff) - 1) (write_reg16 0xb08 (ucast pbuff) s)"

definition audio_config_mic_buf :: "u32 \<Rightarrow> u32 \<Rightarrow> 'a mcu_scheme \<Rightarrow> 'a mcu_scheme" where
  "audio_config_mic_buf pbuff size_buff s = write_reg8 0xb02 (ucast (drop_bit 4 size_buff) - 1) (write_reg16 0xb00 (ucast pbuff) s)"

section \<open>Channels and references\<close>

definition adc_ref_vol :: "u16 list" where "adc_ref_vol = [600, 900]"

definition ADC_GPIO_tab :: "u16 list" where
  "ADC_GPIO_tab = [GPIO_PB0, GPIO_PB1, GPIO_PB2, GPIO_PB3, GPIO_PB4, GPIO_PB5, GPIO_PB6, GPIO_PB7, GPIO_PC4, GPIO_PC5]"

definition adc_base_pin_init :: "u16 \<Rightarrow> 'a mcu_scheme \<Rightarrow> 'a mcu_scheme" where
  "adc_base_pin_init pin s =
     gpio_write pin False (gpio_set_output_en pin False (gpio_set_input_en pin False (gpio_set_func pin AS_GPIO s)))"

definition adc_vbat_pin_init :: "u16 \<Rightarrow> 'a mcu_scheme \<Rightarrow> 'a mcu_scheme" where
  "adc_vbat_pin_init pin s =
     gpio_write pin True (gpio_set_output_en pin True (gpio_set_input_en pin False (gpio_set_func pin AS_GPIO s)))"

text \<open>\<open>adc_ref_vol\<close> has two elements; reading a third is \<open>None\<close>.\<close>

definition adc_set_ref_voltage :: "u8 \<Rightarrow> u8 \<Rightarrow> 'a adc_mcu_scheme \<Rightarrow> 'a adc_mcu_scheme option" where
  "adc_set_ref_voltage ch_n v_ref s =
     (let s = adc_set_vref v_ref v_ref v_ref s in
      if v_ref = ADC_VREF_1P2V then Some (areg_upd areg_ain_scale (\<lambda>x. (x AND 0xC0) OR 0x3d) s)
      else let s = areg_upd areg_ain_scale (\<lambda>x. (x AND 0xC0) OR 0x15) s in
        if unat v_ref < length adc_ref_vol then Some (s\<lparr>adc_vref := adc_ref_vol ! unat v_ref\<rparr>) else None)"

definition adc_set_resolution :: "u8 \<Rightarrow> u8 \<Rightarrow> 'a mcu_scheme \<Rightarrow> 'a mcu_scheme" where
  "adc_set_resolution ch_n v_res s =
     (let s = (if ch_n AND ADC_LEFT_CHN \<noteq> 0 then adc_set_resolution_chn_left v_res s else s);
          s = (if ch_n AND ADC_RIGHT_CHN \<noteq> 0 then adc_set_resolution_chn_right v_res s else s)
      in if ch_n AND ADC_MISC_CHN \<noteq> 0 then adc_set_resolution_chn_misc v_res s else s)"

definition adc_set_tsample_cycle :: "u8 \<Rightarrow> u8 \<Rightarrow> 'a mcu_scheme \<Rightarrow> 'a mcu_scheme" where
  "adc_set_tsample_cycle ch_n adcST s =
     (let s = (if ch_n AND ADC_LEFT_CHN \<noteq> 0 then adc_set_tsample_cycle_chn_left adcST s else s);
          s = (if ch_n AND ADC_RIGHT_CHN \<noteq> 0 then adc_set_tsample_cycle_chn_right adcST s else s)
      in if ch_n AND ADC_MISC_CHN \<noteq> 0 then adc_set_tsample_cycle_chn_misc adcST s else s)"

definition adc_set_input_mode :: "u8 \<Rightarrow> adc_input_mode \<Rightarrow> 'a mcu_scheme \<Rightarrow> 'a mcu_scheme" where
  "adc_set_input_mode ch_n m_input s =
     (let s = (if ch_n AND ADC_LEFT_CHN \<noteq> 0 then adc_set_input_mode_chn_left m_input s else s);
          s = (if ch_n AND ADC_RIGHT_CHN \<noteq> 0 then adc_set_input_mode_chn_right m_input s else s)
      in if ch_n AND ADC_MISC_CHN \<noteq> 0 then adc_set_input_mode_chn_misc m_input s else s)"

definition adc_set_ain_channel_single_ended_input_mode :: "u8 \<Rightarrow> u8 \<Rightarrow> 'a mcu_scheme \<Rightarrow> 'a mcu_scheme" where
  "adc_set_ain_channel_single_ended_input_mode ch_n InPCH s =
     (let s = (if ch_n AND ADC_LEFT_CHN \<noteq> 0 then adc_set_input_mode_chn_left SINGLE_ENDED_MODE (adc_set_ain_positive_chn_left InPCH (adc_set_ain_negative_chn_left GND s)) else s);
          s = (if ch_n AND ADC_RIGHT_CHN \<noteq> 0 then adc_set_input_mode_chn_right SINGLE_ENDED_MODE (adc_set_ain_positive_chn_right InPCH (adc_set_ain_negative_chn_right GND s)) else s)
      in if ch_n AND ADC_MISC_CHN \<noteq> 0 then adc_set_input_mode_chn_misc SINGLE_ENDED_MODE (adc_set_ain_positive_chn_misc InPCH (adc_set_ain_negative_chn_misc GND s)) else s)"

definition adc_set_ain_channel_differential_mode :: "u8 \<Rightarrow> u8 \<Rightarrow> u8 \<Rightarrow> 'a mcu_scheme \<Rightarrow> 'a mcu_scheme" where
  "adc_set_ain_channel_differential_mode ch_n InPCH InNCH s =
     (let s = (if ch_n AND ADC_LEFT_CHN \<noteq> 0 then adc_set_input_mode_chn_left DIFFERENTIAL_MODE (adc_set_ain_chn_left InPCH InNCH s) else s);
          s = (if ch_n AND ADC_RIGHT_CHN \<noteq> 0 then adc_set_input_mode_chn_right DIFFERENTIAL_MODE (adc_set_ain_chn_right InPCH InNCH s) else s)
      in if ch_n AND ADC_MISC_CHN \<noteq> 0 then adc_set_input_mode_chn_misc DIFFERENTIAL_MODE (adc_set_ain_chn_misc InPCH InNCH s) else s)"

definition adc_set_ain_pre_scaler :: "u8 \<Rightarrow> 'a adc_mcu_scheme \<Rightarrow> 'a adc_mcu_scheme" where
  "adc_set_ain_pre_scaler v_scl s =
     (let s = areg_field areg_ain_scale FLD_SEL_AIN_SCALE (push_bit 6 v_scl) s;
          s = (if v_scl \<noteq> 0 then areg_upd 0xF9 (\<lambda>tmp. tmp OR 0x10) s else areg_upd 0xF9 (\<lambda>tmp. tmp AND 0xcf) s)
      in s\<lparr>adc_pre_scale := push_bit (unat v_scl) 1\<rparr>)"

section \<open>Initialisation\<close>

definition adc_init :: "'a mcu_scheme \<Rightarrow> 'a mcu_scheme" where
  "adc_init s =
     (let s = adc_power_on_sar_adc False s;
          s = adc_reset_adc_module s;
          s = adc_enable_clk_24m_to_sar_adc True s;
          s = adc_set_sample_clk 5 s;
          s = pga_left_chn_power_on False s;
          s = pga_right_chn_power_on False s;
          s = adc_set_left_gain_bias GAIN_STAGE_BIAS_PER100 s;
          s = adc_set_right_gain_bias GAIN_STAGE_BIAS_PER100 s
      in dfifo_disable_dfifo2 s)"

text \<open>The search of both initialisations: the position of the pin plus one, or 0.\<close>

fun find_adc_pin :: "u16 \<Rightarrow> u8 \<Rightarrow> u16 list \<Rightarrow> u8" where
  "find_adc_pin pin i [] = 0"
| "find_adc_pin pin i (p # ps) = (if pin = p then i + 1 else find_adc_pin pin (i + 1) ps)"

text \<open>\<open>ADC_SAMPLE_RATE_SELECT\<close> is \<open>ADC_SAMPLE_RATE_23K\<close>.\<close>

definition adc_base_init :: "u16 \<Rightarrow> 'a adc_mcu_scheme \<Rightarrow> 'a adc_mcu_scheme option" where
  "adc_base_init pin s = do {
     let s = adc_set_chn_enable_and_max_state_cnt ADC_MISC_CHN 2 s;
     let s = adc_set_state_length 1023 0 15 s;
     s \<leftarrow> adc_set_ref_voltage ADC_MISC_CHN ADC_VREF_1P2V s;
     let s = adc_set_vref_vbat_divider ADC_VBAT_DIVIDER_OFF s;
     let s = adc_base_pin_init pin s;
     let gpio_num = find_adc_pin pin 0 ADC_GPIO_tab;
     let s = adc_set_ain_channel_differential_mode ADC_MISC_CHN gpio_num GND s;
     let s = adc_set_resolution ADC_MISC_CHN RES14 s;
     let s = adc_set_tsample_cycle ADC_MISC_CHN SAMPLING_CYCLES_6 s;
     let s = adc_set_ain_pre_scaler ADC_PRESCALER_1F8 s;
     Some (adc_set_mode ADC_NORMAL_MODE s) }"

definition adc_vbat_init :: "u16 \<Rightarrow> 'a adc_mcu_scheme \<Rightarrow> 'a adc_mcu_scheme option" where
  "adc_vbat_init pin s = do {
     let s = adc_set_chn_enable_and_max_state_cnt ADC_MISC_CHN 2 s;
     let s = adc_set_state_length 240 0 10 s;
     let s = adc_set_vref_vbat_divider ADC_VBAT_DIVIDER_OFF s;
     let s = adc_vbat_pin_init pin s;
     let gpio_no = find_adc_pin pin 0 ADC_GPIO_tab;
     let s = adc_set_input_mode ADC_MISC_CHN DIFFERENTIAL_MODE s;
     let s = adc_set_ain_channel_differential_mode ADC_MISC_CHN gpio_no GND s;
     s \<leftarrow> adc_set_ref_voltage ADC_MISC_CHN ADC_VREF_1P2V s;
     let s = adc_set_resolution ADC_MISC_CHN RES14 s;
     let s = adc_set_tsample_cycle ADC_MISC_CHN SAMPLING_CYCLES_6 s;
     let s = adc_set_ain_pre_scaler ADC_PRESCALER_1F8 s;
     Some (adc_set_mode ADC_NORMAL_MODE s) }"

text \<open>\<open>RD_ADC_init\<close> of the application, here with its effect on the registers.\<close>

definition RD_ADC_init_hw :: "u16 \<Rightarrow> 'a adc_mcu_scheme \<Rightarrow> 'a adc_mcu_scheme option" where
  "RD_ADC_init_hw gpio s = map_option (adc_power_on_sar_adc True) (adc_base_init gpio (adc_init s))"

section \<open>Sampling\<close>

definition ADC_SAMPLE_NUM :: nat where "ADC_SAMPLE_NUM = 8"

text \<open>\<open>while(!clock_time_exceed(t0, us));\<close> from the \<open>n\<close>-th reading of the clock on.\<close>

partial_function (option) wait_exceed :: "(nat \<Rightarrow> u32) \<Rightarrow> u32 \<Rightarrow> u32 \<Rightarrow> nat \<Rightarrow> nat option" where
  "wait_exceed clk t0 us n = (if clock_exceeds (clk n) t0 us then Some (n + 1) else wait_exceed clk t0 us (n + 1))"

declare wait_exceed.simps [code]

definition adc_value :: "u32 \<Rightarrow> u16" where
  "adc_value w = (if bit w 13 then 0 else ucast w AND 0x1FFF)"

text \<open>The inner loop of the insertion: \<open>j + 1\<close> is counted down.\<close>

fun shift_up :: "u16 list \<Rightarrow> u16 \<Rightarrow> nat \<Rightarrow> u16 list \<times> nat" where
  "shift_up a temp 0 = (a, 0)"
| "shift_up a temp (Suc j) = (if temp < a ! j then shift_up (a[Suc j := a ! j]) temp j else (a, Suc j))"

definition insert_sample :: "u16 list \<Rightarrow> nat \<Rightarrow> u16 list" where
  "insert_sample a i =
     (if i \<noteq> 0 \<and> a ! i < a ! (i - 1) then
        (let temp = a ! i;
             (a, j1) = shift_up (a[i := a ! (i - 1)]) temp i
         in a[j1 := temp])
      else a)"

fun sample_loop :: "(nat \<Rightarrow> u32) \<Rightarrow> (nat \<Rightarrow> u32) \<Rightarrow> nat list \<Rightarrow> u32 \<Rightarrow> nat \<Rightarrow> u16 list \<Rightarrow> u16 list option" where
  "sample_loop clk dma [] t0 n a = Some a"
| "sample_loop clk dma (i # is) t0 n a = do {
     n \<leftarrow> wait_exceed clk t0 90 n;
     sample_loop clk dma is (clk n) (n + 1) (insert_sample (a[i := adc_value (dma i)]) i) }"

definition adc_millivolt :: "u16 \<Rightarrow> u8 \<Rightarrow> u16 \<Rightarrow> u32" where
  "adc_millivolt result scale vref = drop_bit 13 (ucast result * ucast scale * ucast vref)"

definition adc_sample_and_get_result ::
  "(nat \<Rightarrow> u32) \<Rightarrow> (nat \<Rightarrow> u32) \<Rightarrow> u32 \<Rightarrow> 'a adc_mcu_scheme \<Rightarrow> (u32 \<times> 'a adc_mcu_scheme) option" where
  "adc_sample_and_get_result clk dma adc_data_buf s = do {
     let s = adc_reset_adc_module s;
     let t0 = clk 0;
     n \<leftarrow> wait_exceed clk t0 90 1;
     let s = adc_config_misc_channel_buf adc_data_buf (push_bit 2 (of_nat ADC_SAMPLE_NUM)) s;
     let s = dfifo_enable_dfifo2 s;
     a \<leftarrow> sample_loop clk dma [0..<ADC_SAMPLE_NUM] t0 n (replicate ADC_SAMPLE_NUM 0);
     let s = dfifo_disable_dfifo2 s;
     let adc_average = of_nat ((unat (a ! 2) + unat (a ! 3) + unat (a ! 4) + unat (a ! 5)) div 4);
     Some (adc_millivolt adc_average (adc_pre_scale s) (adc_vref s), s\<lparr>adc_code := adc_average\<rparr>) }"

end
