(* ===== verification/AdcFacts.thy ===== *)
theory AdcFacts
  imports Adc "HOL-Library.Multiset"
begin

text \<open>
  The battery measurement: what a conversion returns, that two outliers on either side do not move it
  out of the range of the others, and what the initialisation leaves in the converter's registers.
\<close>

section \<open>Sorting while sampling\<close>

lemma insort_before: "temp < x \<Longrightarrow> insort temp (xs @ [x]) = insort temp xs @ [x]" for temp :: "'a :: linorder"
  by (induction xs) auto

lemma insort_last: "sorted (xs @ [x]) \<Longrightarrow> \<not> temp < x \<Longrightarrow> insort temp (xs @ [x]) = xs @ [x, temp]"
  for temp :: "'a :: linorder"
  using sorted_insort_is_snoc [of "xs @ [x]" temp] by (fastforce simp: sorted_append not_less)

lemma sort_snoc: "sort (xs @ [x]) = insort x (sort xs)" for x :: "'a :: linorder"
  by (rule properties_for_sort) (simp_all add: sorted_insort)

lemma shift_up_insort:
  "sorted xs \<Longrightarrow> (case shift_up (xs @ y # zs) temp (length xs) of (a, j1) \<Rightarrow> a[j1 := temp]) = insort temp xs @ zs"
proof (induction xs arbitrary: y zs rule: rev_induct)
  case (snoc x xs)
  show ?case
  proof (cases "temp < x")
    case True
    have "sorted xs" using snoc.prems by (simp add: sorted_append)
    moreover have "shift_up ((xs @ [x]) @ y # zs) temp (length (xs @ [x])) = shift_up (xs @ x # (x # zs)) temp (length xs)"
      using True by (simp add: nth_append list_update_append)
    ultimately show ?thesis using snoc.IH [of x "x # zs"] insort_before [OF True] by simp
  next
    case False
    then show ?thesis using insort_last [OF snoc.prems False] by (simp add: nth_append list_update_append)
  qed
qed simp

lemma insert_sample_insort:
  assumes "i < length a" "sorted (take i a)"
  shows "insert_sample a i = insort (a ! i) (take i a) @ drop (Suc i) a"
proof (cases "i \<noteq> 0 \<and> a ! i < a ! (i - 1)")
  case True
  have "a[i := a ! (i - 1)] = take i a @ a ! (i - 1) # drop (Suc i) a"
    using assms(1) by (simp add: upd_conv_take_nth_drop)
  then show ?thesis
    using True assms shift_up_insort [OF assms(2), where y = "a ! (i - 1)" and zs = "drop (Suc i) a" and temp = "a ! i"]
    by (simp add: insert_sample_def Let_def min_def)
next
  case False
  have "insort (a ! i) (take i a) = take i a @ [a ! i]"
  proof (cases i)
    case (Suc k)
    then have "take i a = take k a @ [a ! k]" "\<not> a ! i < a ! k" using assms(1) False by (simp_all add: take_Suc_conv_app_nth)
    then show ?thesis using insort_last [of "take k a" "a ! k" "a ! i"] assms(2) by simp
  qed simp
  then show ?thesis using False assms(1) by (auto simp: insert_sample_def id_take_nth_drop [symmetric])
qed

text \<open>A clock that keeps running: whatever was read before, a later reading is more than \<open>us\<close> away.\<close>

definition runs :: "(nat \<Rightarrow> u32) \<Rightarrow> u32 \<Rightarrow> bool" where
  "runs clk us \<longleftrightarrow> (\<forall>n t0. \<exists>m \<ge> n. clock_exceeds (clk m) t0 us)"

lemma wait_exceed_ends:
  assumes "clock_exceeds (clk m) t0 us" "n \<le> m"
  shows "\<exists>k. wait_exceed clk t0 us n = Some k"
  using assms(2)
proof (induction "m - n" arbitrary: n)
  case 0
  then have "n = m" by simp
  then show ?case using assms(1) by (subst wait_exceed.simps) simp
next
  case (Suc d)
  show ?case
  proof (cases "clock_exceeds (clk n) t0 us")
    case False
    have "d = m - (n + 1)" "n + 1 \<le> m" using Suc.hyps(2) by auto
    from Suc.hyps(1) [OF this] show ?thesis using False by (subst wait_exceed.simps) simp
  qed (subst wait_exceed.simps, simp)
qed

lemma wait_returns: "runs clk us \<Longrightarrow> \<exists>k. wait_exceed clk t0 us n = Some k"
  using wait_exceed_ends by (fastforce simp: runs_def)

lemma sample_loop_sorts:
  assumes "runs clk 90" "i + k \<le> length a" "take i a = sort (map f [0..<i])" "\<And>j. f j = adc_value (dma j)"
  shows "\<exists>b. sample_loop clk dma [i..<i + k] t0 n a = Some b \<and> length b = length a \<and>
    take (i + k) b = sort (map f [0..<i + k])"
  using assms(2,3)
proof (induction k arbitrary: i t0 n a)
  case (Suc k)
  obtain m where m: "wait_exceed clk t0 90 n = Some m" using wait_returns [OF assms(1)] by blast
  obtain c where c: "c = insert_sample (a[i := f i]) i" by blast
  have ins: "c = insort (f i) (take i a) @ drop (Suc i) a"
    using Suc.prems unfolding c by (subst insert_sample_insort) auto
  have len: "length c = length a" using Suc.prems ins by simp
  have "take (Suc i) c = sort (map f [0..<Suc i])"
    using Suc.prems by (simp add: ins Suc.prems(2) sort_snoc)
  from Suc.IH [OF _ this, of "clk m" "m + 1"] Suc.prems(1) len show ?case
    using m by (simp add: c assms(4) upt_conv_Cons del: upt_Suc)
qed simp

section \<open>The result\<close>

definition middle_average :: "u16 list \<Rightarrow> nat" where
  "middle_average xs = (let x = sort xs in (unat (x ! 2) + unat (x ! 3) + unat (x ! 4) + unat (x ! 5)) div 4)"

lemma adc_value_le: "unat (adc_value w) \<le> 8191"
proof -
  have "ucast w AND (0x1FFF :: u16) \<le> 0x1FFF" by (rule word_and_le1)
  then show ?thesis by (simp add: adc_value_def word_le_nat_alt)
qed

lemma count_prefix: "sorted x \<Longrightarrow> k < length x \<Longrightarrow> x ! k < lo \<Longrightarrow> Suc k \<le> length (filter (\<lambda>v. v < lo) x)" for lo :: "'a :: linorder"
proof -
  assume x: "sorted x" "k < length x" "x ! k < lo"
  have "v < lo" if "v \<in> set (take (Suc k) x)" for v
  proof -
    from that obtain i where i: "i \<le> k" "v = x ! i" by (auto simp: in_set_conv_nth less_Suc_eq_le)
    show ?thesis using sorted_nth_mono [OF x(1) i(1) x(2)] i(2) x(3) by simp
  qed
  then have "length (filter (\<lambda>v. v < lo) (take (Suc k) x)) = Suc k" using x(2) by simp
  then show ?thesis using append_take_drop_id [of "Suc k" x] by (metis filter_append le_add1 length_append)
qed

lemma count_suffix: "sorted x \<Longrightarrow> k < length x \<Longrightarrow> hi < x ! k \<Longrightarrow> length x - k \<le> length (filter (\<lambda>v. hi < v) x)" for hi :: "'a :: linorder"
proof -
  assume x: "sorted x" "k < length x" "hi < x ! k"
  have "hi < v" if "v \<in> set (drop k x)" for v
  proof -
    from that obtain i where i: "i < length x - k" "v = x ! (k + i)" by (auto simp: in_set_conv_nth)
    have le: "x ! k \<le> x ! (k + i)" by (rule sorted_nth_mono [OF x(1)]) (use i(1) in auto)
    show ?thesis using order_less_le_trans [OF x(3) le] i(2) by simp
  qed
  then have "length (filter (\<lambda>v. hi < v) (drop k x)) = length x - k" by simp
  then show ?thesis using append_take_drop_id [of k x] by (metis filter_append le_add2 length_append)
qed

lemma filter_sort_length: "length (filter P (sort xs)) = length (filter P xs)"
  by (metis mset_filter mset_sort size_mset)

lemma middle_average_robust:
  assumes "length xs = 8" "length (filter (\<lambda>v. v < lo) xs) \<le> 2" "length (filter (\<lambda>v. hi < v) xs) \<le> 2"
  shows "unat lo \<le> middle_average xs \<and> middle_average xs \<le> unat hi"
proof -
  obtain x where x: "x = sort xs" by blast
  have srt: "sorted x" "length x = 8" using assms(1) by (simp_all add: x)
  have lo: "unat lo \<le> unat (x ! k)" if "k \<in> {2, 3, 4, 5}" for k
  proof (rule ccontr)
    assume "\<not> unat lo \<le> unat (x ! k)"
    then have "x ! k < lo" by (simp add: word_less_nat_alt)
    then show False using count_prefix [OF srt(1), of k lo] assms(2) that srt(2) by (auto simp: x filter_sort_length)
  qed
  have hi: "unat (x ! k) \<le> unat hi" if "k \<in> {2, 3, 4, 5}" for k
  proof (rule ccontr)
    assume "\<not> unat (x ! k) \<le> unat hi"
    then have "hi < x ! k" by (simp add: word_less_nat_alt)
    then show False using count_suffix [OF srt(1), of k hi] assms(3) that srt(2) by (auto simp: x filter_sort_length)
  qed
  show ?thesis
    using lo [of 2] lo [of 3] lo [of 4] lo [of 5] hi [of 2] hi [of 3] hi [of 4] hi [of 5]
    by (simp add: middle_average_def Let_def x [symmetric], arith)
qed

lemma unat_adc_millivolt:
  assumes "unat r \<le> 8191" "unat scale \<le> 8" "unat vref \<le> 32767"
  shows "unat (adc_millivolt r scale vref) = unat r * unat scale * unat vref div 8192"
proof -
  have "unat r * unat scale \<le> 8191 * 8" using assms(1,2) by (rule mult_le_mono)
  then have p: "unat r * unat scale * unat vref \<le> 8191 * 8 * 32767" using assms(3) by (rule mult_le_mono)
  then have q: "unat r * unat scale < 4294967296" using \<open>unat r * unat scale \<le> 8191 * 8\<close> by simp
  show ?thesis using p q
    by (simp add: adc_millivolt_def drop_bit_eq_div unat_div unat_word_ariths)
qed

lemma adc_fields [simp]:
  "adc_vref (write_reg8 a v s) = adc_vref s" "adc_pre_scale (write_reg8 a v s) = adc_pre_scale s"
  "adc_vref (write_reg16 a w s) = adc_vref s" "adc_pre_scale (write_reg16 a w s) = adc_pre_scale s"
  "adc_vref (BM_SET a v s) = adc_vref s" "adc_pre_scale (BM_SET a v s) = adc_pre_scale s"
  "adc_vref (BM_CLR a v s) = adc_vref s" "adc_pre_scale (BM_CLR a v s) = adc_pre_scale s"
  "adc_vref (areg_upd b f s) = adc_vref s" "adc_pre_scale (areg_upd b f s) = adc_pre_scale s"
  "adc_vref (analog_write b v s) = adc_vref s" "adc_pre_scale (analog_write b v s) = adc_pre_scale s"
  by (simp_all add: write_reg8_def write_reg16_def BM_SET_def BM_CLR_def ana_cycle_def areg_upd_def
      analog_read_eq analog_write_eq Let_def)

text \<open>
C17: A conversion returns as long as the clock runs. Its result is the mean of the middle four of the eight
samples, in millivolts and without overflow; when at most two samples are below a bound and at
most two above another, the mean lies between the bounds. Negative samples count as zero.
\<close>

theorem adc_reading:
  assumes "runs clk 90" "unat (adc_pre_scale s) \<le> 8" "unat (adc_vref s) \<le> 32767"
    and xs: "xs = map (\<lambda>i. adc_value (dma i)) [0..<8]"
    and out: "length (filter (\<lambda>v. v < lo) xs) \<le> 2" "length (filter (\<lambda>v. hi < v) xs) \<le> 2"
  shows "\<exists>mv s'. adc_sample_and_get_result clk dma buf s = Some (mv, s') \<and>
    unat (adc_code s') = middle_average xs \<and>
    unat mv = middle_average xs * unat (adc_pre_scale s) * unat (adc_vref s) div 8192 \<and>
    unat lo \<le> middle_average xs \<and> middle_average xs \<le> unat hi"
proof -
  obtain n where n: "wait_exceed clk (clk 0) 90 1 = Some n" using wait_returns [OF assms(1)] by blast
  obtain a where a: "sample_loop clk dma [0..<0 + 8] (clk 0) n (replicate 8 0) = Some a"
    "length a = 8" "take (0 + 8) a = sort (map (\<lambda>i. adc_value (dma i)) [0..<0 + 8])"
    using sample_loop_sorts [OF assms(1), of 0 8 "replicate 8 0" "\<lambda>i. adc_value (dma i)" dma "clk 0" n]
    by (auto simp del: upt_rec_numeral)
  have srt: "a = sort xs" using a(2,3) by (simp add: xs)
  have le: "unat (a ! k) \<le> 8191" if "k < 8" for k
  proof -
    have "a ! k \<in> set (sort xs)" using that a(2) srt nth_mem [of k a] by simp
    then show ?thesis using adc_value_le by (auto simp: xs)
  qed
  obtain avg :: u16 where avg: "avg = of_nat (middle_average xs)" by blast
  have small: "middle_average xs \<le> 8191"
    using le [of 2] le [of 3] le [of 4] le [of 5] by (simp add: middle_average_def srt [symmetric] Let_def)
  then have u: "unat avg = middle_average xs" by (simp add: avg)
  have "\<exists>s'. adc_sample_and_get_result clk dma buf s = Some (adc_millivolt avg (adc_pre_scale s) (adc_vref s), s') \<and> adc_code s' = avg"
    using n a(1) by (simp add: adc_sample_and_get_result_def ADC_SAMPLE_NUM_def adc_reset_adc_module_def
        adc_config_misc_channel_buf_def dfifo_enable_dfifo2_def dfifo_disable_dfifo2_def avg middle_average_def
        srt [symmetric] Let_def del: upt_rec_numeral)
  then show ?thesis
    using u unat_adc_millivolt [of avg "adc_pre_scale s" "adc_vref s"] small assms(2,3)
      middle_average_robust [OF _ out] by (auto simp: xs simp del: upt_rec_numeral)
qed

lemma clock_step: "\<not> 1440 < d \<Longrightarrow> 1440 < d + 1500" for d :: u32
proof -
  assume "\<not> 1440 < d"
  then have "unat d \<le> 1440" by (simp add: word_less_nat_alt)
  then show ?thesis by (simp add: word_less_nat_alt unat_word_ariths)
qed

text \<open>Two outliers on each side, whatever they are, leave the reading among the other four samples.\<close>

definition demo_samples :: "nat \<Rightarrow> u32" where
  "demo_samples i = [700, 0, 710, 8191, 705, 16383, 8191, 708] ! i"

lemma adc_reading_witness:
  "\<exists>mv s'. adc_sample_and_get_result (\<lambda>n. of_nat n * 1500) demo_samples 0x8000
      \<lparr>dig = (\<lambda>_. 0), ana = (\<lambda>_. 0), adc_vref = 1175, adc_calib_en = 1, adc_pre_scale = 8, adc_code = 0\<rparr> = Some (mv, s') \<and>
    700 \<le> unat (adc_code s') \<and> unat (adc_code s') \<le> 710"
proof -
  have run: "runs (\<lambda>n. of_nat n * 1500) 90" unfolding runs_def
  proof (intro allI)
    fix n :: nat and t0 :: u32
    show "\<exists>m \<ge> n. clock_exceeds (of_nat m * 1500) t0 90"
    proof (cases "clock_exceeds (of_nat n * 1500) t0 90")
      case False
      then have "\<not> 1440 < of_nat n * 1500 - t0" by (simp add: clock_exceeds_def)
      then have "clock_exceeds (of_nat (n + 1) * 1500) t0 90"
        using clock_step [of "of_nat n * 1500 - t0"] by (simp add: clock_exceeds_def algebra_simps)
      then show ?thesis by (intro exI [of _ "n + 1"]) simp
    qed auto
  qed
  have out: "length (filter (\<lambda>v. v < 700) (map (\<lambda>i. adc_value (demo_samples i)) [0..<8])) \<le> 2 \<and>
      length (filter (\<lambda>v. 710 < v) (map (\<lambda>i. adc_value (demo_samples i)) [0..<8])) \<le> 2"
    by code_simp
  show ?thesis
    using adc_reading [OF run, where s = "\<lparr>dig = (\<lambda>_. 0), ana = (\<lambda>_. 0), adc_vref = 1175, adc_calib_en = 1, adc_pre_scale = 8, adc_code = 0\<rparr>"
        and lo = 700 and hi = 710 and buf = "0x8000", OF _ _ refl conjunct1 [OF out] conjunct2 [OF out]]
    by fastforce
qed

section \<open>The configuration\<close>

lemma areg_upd_eq: "areg_upd a f s = s\<lparr>ana := (ana s)(unat a := f (ana s (unat a))), dig := ana_if a (f (ana s (unat a))) (dig s)\<rparr>"
  by (simp add: areg_upd_def analog_read_eq analog_write_eq Let_def)

lemma ana_areg_upd [simp]: "ana (areg_upd a f s) = (ana s)(unat a := f (ana s (unat a)))"
  by (simp add: areg_upd_eq)

lemma ana_analog_write [simp]: "ana (analog_write a v s) = (ana s)(unat a := v)"
  by (simp add: analog_write_eq)

lemma ana_write_reg8_ctrl: "ana (BM_SET a v s) = ana s" "ana (BM_CLR a v s) = ana s" if "a \<noteq> 0xba"
  using that by (simp_all add: BM_SET_def BM_CLR_def)

lemma adc_pin_ana:
  assumes "pin \<in> set ADC_GPIO_tab" "x \<noteq> 0xbd" "x \<noteq> 0xc0"
  shows "ana (adc_base_pin_init pin s) x = ana s x" "ana (adc_vbat_pin_init pin s) x = ana s x"
proof -
  have grp: "pin_group pin = GPIO_GROUPB \<or> pin_group pin = GPIO_GROUPC" "group8 pin = 1 \<or> group8 pin = 2"
    using assms(1) by (auto simp: ADC_GPIO_tab_def gpio_pins gpio_groups pin_group_def group8_def BIT_def)
  have f: "ana (gpio_set_func pin AS_GPIO s) = ana s" for s :: "'a mcu_scheme"
    using grp(2) by (auto simp: gpio_set_func_def ana_write_reg8_ctrl reg_gpio_func_def)
  have o: "ana (gpio_write pin v s) = ana s" "ana (gpio_set_output_en pin v s) = ana s" for v and s :: "'a mcu_scheme"
    using grp(2) by (auto simp: gpio_write_def gpio_set_output_en_def BM_SEL_def ana_write_reg8_ctrl reg_gpio_out_def reg_gpio_oen_def)
  have i: "ana (gpio_set_input_en pin v s) x = ana s x" for v and s :: "'a mcu_scheme"
    using grp(1) assms(2,3) by (auto simp: gpio_set_input_en_def Let_def gpio_groups areg_sel_def analog_read_eq analog_write_eq
        areg_gpio_pb_ie_def areg_gpio_pc_ie_def)
  show "ana (adc_base_pin_init pin s) x = ana s x" "ana (adc_vbat_pin_init pin s) x = ana s x"
    by (simp_all add: adc_base_pin_init_def adc_vbat_pin_init_def f o i)
qed

lemma adc_pin_fields: "adc_vref (adc_base_pin_init pin s) = adc_vref s" "adc_vref (adc_vbat_pin_init pin s) = adc_vref s"
  by (simp_all add: adc_base_pin_init_def adc_vbat_pin_init_def gpio_set_func_def gpio_write_def gpio_set_output_en_def
      BM_SEL_def gpio_set_input_en_def areg_sel_def analog_read_eq analog_write_eq Let_def)

lemma find_adc_pin_all: "list_all (\<lambda>k. find_adc_pin (ADC_GPIO_tab ! k) 0 ADC_GPIO_tab = of_nat k + 1) [0..<10]"
  by code_simp

lemma find_adc_pin: "k < 10 \<Longrightarrow> find_adc_pin (ADC_GPIO_tab ! k) 0 ADC_GPIO_tab = of_nat k + 1"
  using find_adc_pin_all by (simp add: list_all_iff del: upt_rec_numeral)

lemma ana_reset [simp]: "ana (adc_reset_adc_module s) = ana s"
  by (simp add: adc_reset_adc_module_def)

lemma ana_dfifo2 [simp]: "ana (dfifo_disable_dfifo2 s) = ana s" "ana (dfifo_enable_dfifo2 s) = ana s"
  by (simp_all add: dfifo_disable_dfifo2_def dfifo_enable_dfifo2_def ana_write_reg8_ctrl)

lemmas adc_setters = areg_field_def adc_enable_clk_24m_to_sar_adc_def adc_set_sample_clk_def adc_set_vref_def adc_set_vref_vbat_divider_def
  adc_set_ain_chn_misc_def adc_set_resolution_chn_misc_def adc_set_input_mode_chn_misc_def adc_set_tsample_cycle_chn_misc_def
  adc_set_state_length_def adc_set_chn_enable_and_max_state_cnt_def adc_set_left_gain_bias_def adc_set_right_gain_bias_def adc_set_mode_def
  adc_power_on_sar_adc_def pga_left_chn_power_on_def pga_right_chn_power_on_def adc_set_ain_channel_differential_mode_def
  adc_set_resolution_def adc_set_tsample_cycle_def adc_set_ain_pre_scaler_def


lemma adc_masks: "NOT FLD_SEL_AIN_SCALE = 0x3f" "NOT FLD_SAR_ADC_POWER_DOWN = 0xdf" "NOT FLD_POWER_DOWN_PGA_CHN_L = 0xbf"
  "NOT FLD_POWER_DOWN_PGA_CHN_R = 0x7f" "NOT FLD_PGA_ITRIM_GAIN_L = 0xfc" "NOT FLD_PGA_ITRIM_GAIN_R = 0xf3" "NOT FLD_ADC_MODE = 0xef"
  "NOT FLD_ADC_VREF_VBAT_DIV = 0xf3" "NOT FLD_ADC_RES_M = 0xfc" "FLD_CLK_24M_TO_SAR_EN = 0x40" "FLD_ADC_EN_DIFF_CHN_M = 0x40" "FLD_R_MAX_S = 0x0f"
  "BIT 5 = (0x20 :: u8)" "BIT 6 = (0x40 :: u8)" "BIT 7 = (0x80 :: u8)" "BIT 0 = (1 :: u8)" "BIT (Suc 0) = (2 :: u8)" "BIT 2 = (4 :: u8)"
  "hi8 1023 = 3" "lo8 1023 = 0xff" "hi8 0 = 0" "lo8 0 = 0"
  by code_simp+

lemma or_3_64: "3 OR (64 OR x) = 67 OR x" for x :: u8
  by (simp add: or.assoc [symmetric])

lemma ana_adc_init: "ana (adc_init s) = (ana s)(0x82 := ana s 0x82 OR 0x40, 0xf4 := 5,
    0xfc := (ana s 0xfc AND 0x10) OR 0xe5)"
  by (simp add: adc_init_def adc_setters adc_regs adc_enums Let_def adc_masks word_ao_dist and.assoc or.assoc fun_eq_iff)

lemma adc_base_init_configures:
  assumes "pin \<in> set ADC_GPIO_tab"
  shows "\<exists>t. adc_base_init pin s = Some t \<and> adc_vref t = adc_vref s \<and> adc_pre_scale t = 8 \<and>
    ana t 0xe8 = push_bit 4 (find_adc_pin pin 0 ADC_GPIO_tab) OR 15 \<and> ana t 0xe7 = 0x2a \<and>
    ana t 0xec = ana s 0xec AND 0xfc OR 0x43 \<and> ana t 0xee = 1 \<and> ana t 0xf2 = 0x24 \<and>
    ana t 0xef = 0xff \<and> ana t 0xf0 = 0 \<and> ana t 0xf1 = 0xcf \<and> ana t 0xfa = 0xfd \<and>
    ana t 0xf9 = ana s 0xf9 AND 0xf3 OR 0x10 \<and> ana t 0xf4 = ana s 0xf4 \<and> ana t 0x82 = ana s 0x82 \<and>
    ana t 0xfc = ana s 0xfc AND 0xef"
  using assms
  by (simp add: adc_base_init_def adc_set_ref_voltage_def adc_setters adc_pin_ana(1) adc_pin_fields adc_regs Let_def
      adc_enums adc_masks word_ao_dist and.assoc or.assoc or.commute or_3_64)

text \<open>
After \<open>RD_ADC_init\<close> of the \<open>k\<close>-th pin of the table the converter runs from its 24 MHz clock divided by 6, measures
that pin (positive input \<open>k + 1\<close>) against ground in differential mode with 14 bits, a 1.2 V reference on all
channels, one eighth of the input and six cycles per sample, on the misc channel only, powered
with both amplifiers off; the calibrated reference voltage is kept.
\<close>

theorem RD_ADC_init_configures:
  assumes "k < 10"
  shows "\<exists>t. RD_ADC_init_hw (ADC_GPIO_tab ! k) s = Some t \<and> adc_vref t = adc_vref s \<and> adc_pre_scale t = 8 \<and>
    ana t 0xe8 = push_bit 4 (of_nat k + 1) OR 15 \<and> ana t 0xe7 = 0x2a \<and> ana t 0xec = ana s 0xec AND 0xfc OR 0x43 \<and>
    ana t 0xee = 1 \<and> ana t 0xf2 = 0x24 \<and> ana t 0xef = 0xff \<and> ana t 0xf0 = 0 \<and> ana t 0xf1 = 0xcf \<and>
    ana t 0xfa = 0xfd \<and> ana t 0xf9 = ana s 0xf9 AND 0xf3 OR 0x10 \<and> ana t 0xf4 = 5 \<and>
    ana t 0x82 = ana s 0x82 OR 0x40 \<and> ana t 0xfc = 0xc5"
proof -
  have "ADC_GPIO_tab ! k \<in> set ADC_GPIO_tab" using assms by (intro nth_mem) (simp add: ADC_GPIO_tab_def)
  from adc_base_init_configures [OF this, of "adc_init s"] obtain t where
    t: "adc_base_init (ADC_GPIO_tab ! k) (adc_init s) = Some t" "adc_vref t = adc_vref (adc_init s)" "adc_pre_scale t = 8"
    "ana t 0xe8 = push_bit 4 (of_nat k + 1) OR 15" "ana t 0xe7 = 0x2a" "ana t 0xec = ana s 0xec AND 0xfc OR 0x43"
    "ana t 0xee = 1" "ana t 0xf2 = 0x24" "ana t 0xef = 0xff" "ana t 0xf0 = 0" "ana t 0xf1 = 0xcf" "ana t 0xfa = 0xfd"
    "ana t 0xf9 = ana s 0xf9 AND 0xf3 OR 0x10" "ana t 0xf4 = 5" "ana t 0x82 = ana s 0x82 OR 0x40"
    "ana t 0xfc = (ana s 0xfc AND 0x10 OR 0xe5) AND 0xef"
    by (auto simp: find_adc_pin [OF assms] ana_adc_init)
  have v: "adc_vref (adc_init s) = adc_vref s"
    by (simp add: adc_init_def adc_setters adc_reset_adc_module_def dfifo_disable_dfifo2_def Let_def)
  show ?thesis
    using t v by (simp add: RD_ADC_init_hw_def adc_power_on_sar_adc_def areg_field_def adc_regs adc_masks word_ao_dist and.assoc)
qed

lemma RD_ADC_init_configures_witness:
  "\<exists>t. RD_ADC_init_hw GPIO_PC4 \<lparr>dig = (\<lambda>_. 0xff), ana = (\<lambda>_. 0xff), adc_vref = 1175, adc_calib_en = 1, adc_pre_scale = 1, adc_code = 0\<rparr> = Some t \<and>
    ana t 0xe8 = 0x9f \<and> adc_vref t = 1175"
  using RD_ADC_init_configures [of 8 "\<lparr>dig = (\<lambda>_. 0xff), ana = (\<lambda>_. 0xff), adc_vref = 1175, adc_calib_en = 1, adc_pre_scale = 1, adc_code = 0\<rparr>"]
  by (auto simp: ADC_GPIO_tab_def)

text \<open>
Choosing the battery as reference writes the register fields for it and then reads the table of
reference voltages, which has two elements, at index 3.
\<close>

theorem vbat_reference_outside_table:
  "adc_set_ref_voltage ch v s = None \<longleftrightarrow> v \<noteq> ADC_VREF_0P6V \<and> v \<noteq> ADC_VREF_0P9V \<and> v \<noteq> ADC_VREF_1P2V"
proof -
  have "unat v < 2 \<longleftrightarrow> v = 0 \<or> v = 1"
    by (metis less_2_cases_iff of_nat_0 of_nat_1 One_nat_def ucast_id unat_0 unat_1 word_of_nat_eq_0_iff unsigned_word_eqI)
  then show ?thesis by (auto simp: adc_set_ref_voltage_def adc_ref_vol_def Let_def adc_enums)
qed

end
