(* ===== verification/Uart.thy ===== *)
theory Uart
  imports Gpio CString "HOL-Library.Monad_Syntax"
begin

text \<open>
  The serial port driver (\<open>drivers/8258/uart.c\<close>, \<open>uart.h\<close>): the search for a divider, the configuration
  registers \<open>0x94\<close> to \<open>0x9b\<close>, and sending by DMA or through the four data registers. The RAM behind
  \<open>tx_buff\<close> is part of the state; an access outside it and a division by zero are \<open>None\<close>.
\<close>

section \<open>State and registers\<close>

record uart_mcu = mcu +
  g_bwpc :: u8
  g_uart_div :: u32
  tx_buff :: "u16 option"
  tx_ram :: "u8 list"
  uart_TxIndex :: u8

definition reg_uart_clk_div :: nat where "reg_uart_clk_div = 0x94"
definition reg_uart_ctrl0 :: nat where "reg_uart_ctrl0 = 0x96"
definition reg_uart_ctrl1 :: nat where "reg_uart_ctrl1 = 0x97"
definition reg_uart_ctrl2 :: nat where "reg_uart_ctrl2 = 0x98"
definition reg_uart_ctrl3 :: nat where "reg_uart_ctrl3 = 0x99"
definition reg_uart_rx_timeout0 :: nat where "reg_uart_rx_timeout0 = 0x9a"
definition reg_uart_rx_timeout1 :: nat where "reg_uart_rx_timeout1 = 0x9b"
definition reg_uart_buf_cnt :: nat where "reg_uart_buf_cnt = 0x9c"
definition reg_uart_status0 :: nat where "reg_uart_status0 = 0x9d"
definition reg_uart_status1 :: nat where "reg_uart_status1 = 0x9e"
definition reg_rst0 :: nat where "reg_rst0 = 0x60"
definition reg_dma0_addr :: nat where "reg_dma0_addr = 0xc00"
definition reg_dma0_size :: nat where "reg_dma0_size = 0xc02"
definition reg_dma0_mode :: nat where "reg_dma0_mode = 0xc03"
definition reg_dma1_addr :: nat where "reg_dma1_addr = 0xc04"
definition reg_dma_tx_rdy0 :: nat where "reg_dma_tx_rdy0 = 0xc24"
definition reg_dma0_addrHi :: nat where "reg_dma0_addrHi = 0xc40"
definition reg_dma1_addrHi :: nat where "reg_dma1_addrHi = 0xc41"

definition reg_uart_data_buf :: "u8 \<Rightarrow> nat" where "reg_uart_data_buf i = 0x90 + unat i"

definition FLD_UART_CLK_DIV_EN :: u32 where "FLD_UART_CLK_DIV_EN = BIT 15"
definition FLD_UART_RX_DMA_EN :: u8 where "FLD_UART_RX_DMA_EN = BIT 4"
definition FLD_UART_TX_DMA_EN :: u8 where "FLD_UART_TX_DMA_EN = BIT 5"
definition FLD_UART_RX_IRQ_EN :: u8 where "FLD_UART_RX_IRQ_EN = BIT 6"
definition FLD_UART_TX_IRQ_EN :: u8 where "FLD_UART_TX_IRQ_EN = BIT 7"
definition FLD_UART_CTRL1_CTS_SELECT :: u8 where "FLD_UART_CTRL1_CTS_SELECT = BIT 0"
definition FLD_UART_CTRL1_CTS_EN :: u8 where "FLD_UART_CTRL1_CTS_EN = BIT 1"
definition FLD_UART_CTRL1_PARITY_EN :: u8 where "FLD_UART_CTRL1_PARITY_EN = BIT 2"
definition FLD_UART_CTRL1_PARITY_POLARITY :: u8 where "FLD_UART_CTRL1_PARITY_POLARITY = BIT 3"
definition FLD_UART_CTRL1_STOP_BIT :: u8 where "FLD_UART_CTRL1_STOP_BIT = push_bit 4 3"
definition FLD_UART_CTRL2_RTS_TRIG_LVL :: u16 where "FLD_UART_CTRL2_RTS_TRIG_LVL = 0x0f"
definition FLD_UART_CTRL2_RTS_PARITY :: u16 where "FLD_UART_CTRL2_RTS_PARITY = BIT 4"
definition FLD_UART_CTRL2_RTS_MANUAL_VAL :: u16 where "FLD_UART_CTRL2_RTS_MANUAL_VAL = BIT 5"
definition FLD_UART_CTRL2_RTS_MANUAL_EN :: u16 where "FLD_UART_CTRL2_RTS_MANUAL_EN = BIT 6"
definition FLD_UART_CTRL2_RTS_EN :: u16 where "FLD_UART_CTRL2_RTS_EN = BIT 7"
definition FLD_UART_IRQ_FLAG :: u8 where "FLD_UART_IRQ_FLAG = BIT 3"
definition FLD_UART_CLEAR_RX_FLAG :: u8 where "FLD_UART_CLEAR_RX_FLAG = BIT 6"
definition FLD_UART_RX_ERR_FLAG :: u8 where "FLD_UART_RX_ERR_FLAG = BIT 7"
definition FLD_UART_TX_DONE :: u8 where "FLD_UART_TX_DONE = BIT 0"
definition FLD_IRQ_UART_EN :: u32 where "FLD_IRQ_UART_EN = BIT 6"
definition FLD_RST0_UART :: u8 where "FLD_RST0_UART = BIT 2"
definition FLD_DMA_WR_MEM :: u8 where "FLD_DMA_WR_MEM = BIT 0"
definition FLD_DMA_CHN_UART_TX :: u8 where "FLD_DMA_CHN_UART_TX = BIT 1"
definition UART_BW_MUL2 :: u8 where "UART_BW_MUL2 = 1"

lemmas uart_regs = reg_uart_clk_div_def reg_uart_ctrl0_def reg_uart_ctrl1_def reg_uart_ctrl2_def reg_uart_ctrl3_def
  reg_uart_rx_timeout0_def reg_uart_rx_timeout1_def reg_uart_buf_cnt_def reg_uart_status0_def reg_uart_status1_def reg_rst0_def
  reg_dma0_addr_def reg_dma0_size_def reg_dma0_mode_def reg_dma1_addr_def reg_dma_tx_rdy0_def reg_dma0_addrHi_def reg_dma1_addrHi_def
lemmas uart_flds = FLD_UART_CLK_DIV_EN_def FLD_UART_RX_DMA_EN_def FLD_UART_TX_DMA_EN_def FLD_UART_RX_IRQ_EN_def FLD_UART_TX_IRQ_EN_def
  FLD_UART_CTRL1_CTS_SELECT_def FLD_UART_CTRL1_CTS_EN_def FLD_UART_CTRL1_PARITY_EN_def FLD_UART_CTRL1_PARITY_POLARITY_def
  FLD_UART_CTRL1_STOP_BIT_def FLD_UART_IRQ_FLAG_def FLD_UART_CLEAR_RX_FLAG_def FLD_UART_RX_ERR_FLAG_def FLD_UART_TX_DONE_def
  FLD_RST0_UART_def FLD_DMA_WR_MEM_def FLD_DMA_CHN_UART_TX_def UART_BW_MUL2_def

datatype uart_parity = PARITY_NONE | PARITY_EVEN | PARITY_ODD
datatype uart_stop_bit = STOP_BIT_ONE | STOP_BIT_ONE_DOT_FIVE | STOP_BIT_TWO
datatype uart_rts_mode = UART_RTS_MODE_AUTO | UART_RTS_MODE_MANUAL

primrec stop_val :: "uart_stop_bit \<Rightarrow> u8" where
  "stop_val STOP_BIT_ONE = 0"
| "stop_val STOP_BIT_ONE_DOT_FIVE = BIT 4"
| "stop_val STOP_BIT_TWO = BIT 5"

text \<open>\<open>reg |= m\<close> and \<open>reg &= ~m\<close>, chosen by a condition.\<close>

definition set_flag8 :: "nat \<Rightarrow> u8 \<Rightarrow> bool \<Rightarrow> 'a mcu_scheme \<Rightarrow> 'a mcu_scheme" where
  "set_flag8 a msk on s = (if on then BM_SET a msk s else BM_CLR a msk s)"

definition set_flag16 :: "nat \<Rightarrow> u16 \<Rightarrow> bool \<Rightarrow> 'a mcu_scheme \<Rightarrow> 'a mcu_scheme" where
  "set_flag16 a msk on s = (if on then write_reg16 a (read_reg16 a s OR msk) s else write_reg16 a (read_reg16 a s AND NOT msk) s)"

section \<open>The divider\<close>

text \<open>The loop runs in 32-bit arithmetic: \<open>i * i\<close> and \<open>i + 2\<close> may wrap.\<close>

partial_function (option) prime_loop :: "u32 \<Rightarrow> u32 \<Rightarrow> u8 option" where
  "prime_loop n i =
     (if i * i < n then
        if i = 0 then None
        else if n mod i = 0 then Some 0
        else if i + 2 = 0 then None
        else if n mod (i + 2) = 0 then Some 0
        else prime_loop n (i + 6)
      else Some 1)"

declare prime_loop.simps [code]

definition IsPrime :: "u32 \<Rightarrow> u8 option" where
  "IsPrime n = (if n \<le> 3 then Some 1 else if n mod 2 = 0 \<or> n mod 3 = 0 then Some 0 else prime_loop n 5)"

text \<open>The first half of \<open>GetBetterBwpc\<close>: the ratio to approximate.\<close>

definition uart_ratio :: "u32 \<Rightarrow> u32 \<Rightarrow> u32 option" where
  "uart_ratio baut_rate tmp_sysclk =
     (if baut_rate = 0 then None
      else let primeInt = tmp_sysclk div baut_rate;
               primeDec = (ucast (10 * tmp_sysclk div baut_rate - 10 * primeInt) :: u8)
        in do { p \<leftarrow> IsPrime primeInt;
                if p \<noteq> 0 then Some (primeInt + 1)
                else if 5 < primeDec then do { q \<leftarrow> IsPrime (primeInt + 1); Some (if q \<noteq> 0 then primeInt else primeInt + 1) }
                else Some primeInt })"

definition D_intdec :: "u32 \<Rightarrow> u32 list" where
  "D_intdec primeInt = map (\<lambda>i. (10 * primeInt) div (of_nat i + 1)) [3..<16]"

definition D_dec :: "u32 \<Rightarrow> u8 list" where
  "D_dec primeInt = map (\<lambda>d. ucast (d - 10 * (d div 10))) (D_intdec primeInt)"

definition D_int :: "u32 \<Rightarrow> u32 list" where
  "D_int primeInt = map (\<lambda>d. d div 10) (D_intdec primeInt)"

text \<open>The scan for the smallest and the largest decimal after \<open>n\<close> iterations.\<close>

record scan_st =
  s_min :: u32
  position_min :: nat
  s_max :: u32
  position_max :: nat

primrec bwpc_scan :: "u8 list \<Rightarrow> u32 list \<Rightarrow> nat \<Rightarrow> scan_st" where
  "bwpc_scan dec ints 0 = \<lparr>s_min = 0xffffffff, position_min = 0, s_max = 0, position_max = 0\<rparr>"
| "bwpc_scan dec ints (Suc j) =
     (let c = bwpc_scan dec ints j;
          c = (if ucast (dec ! j) \<le> s_min c \<and> ints ! j \<noteq> 1 then c\<lparr>s_min := ucast (dec ! j), position_min := j\<rparr> else c)
      in if s_max c \<le> ucast (dec ! j) then c\<lparr>s_max := ucast (dec ! j), position_max := j\<rparr> else c)"

definition best_bwpc :: "u32 \<Rightarrow> u8 \<times> u32" where
  "best_bwpc primeInt =
     (let dec = D_dec primeInt; ints = D_int primeInt; c = bwpc_scan dec ints 13;
          use_min = (of_nat (position_min c) + 3, ints ! position_min c - 1);
          use_max = (of_nat (position_max c) + 3, ints ! position_max c)
      in if dec ! position_min c < 5 \<and> 5 \<le> dec ! position_max c then
           if dec ! position_min c < 10 - dec ! position_max c then use_min else use_max
         else if dec ! position_min c < 5 \<and> dec ! position_max c < 5 then use_min
         else use_max)"

definition GetBetterBwpc :: "u32 \<Rightarrow> u32 \<Rightarrow> 'a uart_mcu_scheme \<Rightarrow> 'a uart_mcu_scheme option" where
  "GetBetterBwpc baut_rate tmp_sysclk s =
     map_option (\<lambda>p. s\<lparr>g_bwpc := fst (best_bwpc p), g_uart_div := snd (best_bwpc p)\<rparr>) (uart_ratio baut_rate tmp_sysclk)"

section \<open>The DMA\<close>

text \<open>\<open>drivers/8258/dma.h\<close>.\<close>

definition reg_rst1 :: nat where "reg_rst1 = 0x61"
definition reg_dma_chn_en :: nat where "reg_dma_chn_en = 0xc20"
definition reg_dma_chn_irq_msk :: nat where "reg_dma_chn_irq_msk = 0xc21"
definition reg_dma_irq_status :: nat where "reg_dma_irq_status = 0xc26"
definition FLD_RST1_DMA :: u8 where "FLD_RST1_DMA = BIT 2"

lemmas dma_regs = reg_rst1_def reg_dma_chn_en_def reg_dma_chn_irq_msk_def reg_dma_irq_status_def FLD_RST1_DMA_def

definition dma_reset :: "'a mcu_scheme \<Rightarrow> 'a mcu_scheme" where
  "dma_reset s = BM_CLR reg_rst1 FLD_RST1_DMA (BM_SET reg_rst1 FLD_RST1_DMA s)"

definition dma_irq_enable :: "u32 \<Rightarrow> 'a mcu_scheme \<Rightarrow> 'a mcu_scheme" where
  "dma_irq_enable msk s = BM_SET reg_dma_chn_irq_msk (ucast msk) s"

definition dma_irq_disable :: "u32 \<Rightarrow> 'a mcu_scheme \<Rightarrow> 'a mcu_scheme" where
  "dma_irq_disable msk s = BM_CLR reg_dma_chn_irq_msk (ucast msk) s"

definition dma_chn_enable :: "u8 \<Rightarrow> bool \<Rightarrow> 'a mcu_scheme \<Rightarrow> 'a mcu_scheme" where
  "dma_chn_enable chn en s = set_flag8 reg_dma_chn_en chn en s"

definition dma_chn_irq_enable :: "u8 \<Rightarrow> bool \<Rightarrow> 'a mcu_scheme \<Rightarrow> 'a mcu_scheme" where
  "dma_chn_irq_enable chn en s =
     (let s = write_reg8 reg_dma_irq_status chn s
      in set_flag8 reg_dma_chn_irq_msk chn en (set_flag8 reg_dma_chn_en chn en s))"

definition dma_chn_irq_status_clr :: "u8 \<Rightarrow> 'a mcu_scheme \<Rightarrow> 'a mcu_scheme" where
  "dma_chn_irq_status_clr irq_status s = write_reg8 reg_dma_irq_status irq_status s"

definition dma_chn_irq_status_get :: "'a mcu_scheme \<Rightarrow> u8" where
  "dma_chn_irq_status_get s = read_reg8 reg_dma_irq_status s"

text \<open>The channel is given by its number in \<open>DMA_chn_Typdef\<close>.\<close>

definition dma_set_buff_size :: "nat \<Rightarrow> u32 \<Rightarrow> 'a mcu_scheme \<Rightarrow> 'a mcu_scheme" where
  "dma_set_buff_size chn sz s = write_reg8 (0xc02 + 4 * chn) (ucast (sz div 16)) s"

definition dma_channel_enable_all :: "'a mcu_scheme \<Rightarrow> 'a mcu_scheme" where
  "dma_channel_enable_all s = write_reg8 reg_dma_chn_en 0xff s"

definition dma_channel_disable_all :: "'a mcu_scheme \<Rightarrow> 'a mcu_scheme" where
  "dma_channel_disable_all s = write_reg8 reg_dma_chn_en 0 s"

section \<open>Configuration\<close>

text \<open>The part that \<open>uart_init\<close> and \<open>uart_init_baudrate\<close> have in common.\<close>

definition uart_config :: "u32 \<Rightarrow> u8 \<Rightarrow> uart_parity \<Rightarrow> uart_stop_bit \<Rightarrow> 'a mcu_scheme \<Rightarrow> 'a mcu_scheme" where
  "uart_config dv bwpc Parity StopBit s =
     (let s = write_reg8 reg_uart_ctrl0 bwpc s;
          s = write_reg16 reg_uart_clk_div (ucast (dv OR FLD_UART_CLK_DIV_EN)) s;
          s = write_reg8 reg_uart_rx_timeout0 ((bwpc + 1) * 12) s;
          s = write_reg8 reg_uart_rx_timeout1 UART_BW_MUL2 s;
          s = (if Parity \<noteq> PARITY_NONE then
                 let s = BM_SET reg_uart_ctrl1 FLD_UART_CTRL1_PARITY_EN s
                 in if Parity = PARITY_EVEN then BM_CLR reg_uart_ctrl1 FLD_UART_CTRL1_PARITY_POLARITY s
                    else if Parity = PARITY_ODD then BM_SET reg_uart_ctrl1 FLD_UART_CTRL1_PARITY_POLARITY s
                    else s
               else BM_CLR reg_uart_ctrl1 FLD_UART_CTRL1_PARITY_EN s);
          s = BM_CLR reg_uart_ctrl1 FLD_UART_CTRL1_STOP_BIT s
      in BM_SET reg_uart_ctrl1 (stop_val StopBit) s)"

definition uart_init :: "u16 \<Rightarrow> u8 \<Rightarrow> uart_parity \<Rightarrow> uart_stop_bit \<Rightarrow> 'a mcu_scheme \<Rightarrow> 'a mcu_scheme" where
  "uart_init dv bwpc Parity StopBit s = uart_config (ucast dv) bwpc Parity StopBit s"

definition uart_init_baudrate ::
  "u32 \<Rightarrow> u32 \<Rightarrow> uart_parity \<Rightarrow> uart_stop_bit \<Rightarrow> 'a uart_mcu_scheme \<Rightarrow> 'a uart_mcu_scheme option" where
  "uart_init_baudrate Baudrate System_clock Parity StopBit s =
     map_option (\<lambda>s. uart_config (g_uart_div s) (g_bwpc s) Parity StopBit s) (GetBetterBwpc Baudrate System_clock s)"

definition uart_dma_enable :: "bool \<Rightarrow> bool \<Rightarrow> 'a mcu_scheme \<Rightarrow> 'a mcu_scheme" where
  "uart_dma_enable rx_dma_en tx_dma_en s =
     set_flag8 reg_uart_ctrl0 FLD_UART_TX_DMA_EN tx_dma_en (set_flag8 reg_uart_ctrl0 FLD_UART_RX_DMA_EN rx_dma_en s)"

definition uart_irq_enable :: "bool \<Rightarrow> bool \<Rightarrow> 'a mcu_scheme \<Rightarrow> 'a mcu_scheme" where
  "uart_irq_enable rx_irq_en tx_irq_en s =
     (let s = set_flag8 reg_uart_ctrl0 FLD_UART_RX_IRQ_EN rx_irq_en s;
          s = set_flag8 reg_uart_ctrl0 FLD_UART_TX_IRQ_EN tx_irq_en s
      in if tx_irq_en \<or> rx_irq_en then write_reg32 reg_irq_mask (read_reg32 reg_irq_mask s OR FLD_IRQ_UART_EN) s
         else write_reg32 reg_irq_mask (read_reg32 reg_irq_mask s AND NOT FLD_IRQ_UART_EN) s)"

definition uart_ndma_irq_triglevel :: "u8 \<Rightarrow> u8 \<Rightarrow> 'a mcu_scheme \<Rightarrow> 'a mcu_scheme" where
  "uart_ndma_irq_triglevel rx_level tx_level s = write_reg8 reg_uart_ctrl3 (rx_level OR push_bit 4 tx_level) s"

definition uart_ndmairq_get :: "'a mcu_scheme \<Rightarrow> u8" where
  "uart_ndmairq_get s = read_reg8 reg_uart_status0 s AND FLD_UART_IRQ_FLAG"

definition uart_tx_is_busy :: "'a mcu_scheme \<Rightarrow> bool" where
  "uart_tx_is_busy s = (read_reg8 reg_uart_status1 s AND FLD_UART_TX_DONE = 0)"

definition uart_reset :: "'a mcu_scheme \<Rightarrow> 'a mcu_scheme" where
  "uart_reset s = BM_CLR reg_rst0 FLD_RST0_UART (BM_SET reg_rst0 FLD_RST0_UART s)"

definition uart_is_parity_error :: "'a mcu_scheme \<Rightarrow> u8" where
  "uart_is_parity_error s = read_reg8 reg_uart_status0 s AND FLD_UART_RX_ERR_FLAG"

definition uart_clear_parity_error :: "'a mcu_scheme \<Rightarrow> 'a mcu_scheme" where
  "uart_clear_parity_error s = BM_SET reg_uart_status0 FLD_UART_CLEAR_RX_FLAG s"

definition uart_ErrorCLR :: "'a mcu_scheme \<Rightarrow> u8 \<times> 'a mcu_scheme" where
  "uart_ErrorCLR s = (if uart_is_parity_error s \<noteq> 0 then (1, uart_clear_parity_error s) else (0, s))"

definition uart_set_rts :: "bool \<Rightarrow> uart_rts_mode \<Rightarrow> u8 \<Rightarrow> bool \<Rightarrow> u16 \<Rightarrow> 'a mcu_scheme \<Rightarrow> 'a mcu_scheme" where
  "uart_set_rts Enable Mode Thresh Invert pin s =
     (let s = (if Enable then set_flag16 reg_uart_ctrl2 FLD_UART_CTRL2_RTS_EN True
                 (gpio_set_output_en pin True (gpio_set_input_en pin True (gpio_set_func pin AS_UART s)))
               else set_flag16 reg_uart_ctrl2 FLD_UART_CTRL2_RTS_EN False s);
          s = set_flag16 reg_uart_ctrl2 FLD_UART_CTRL2_RTS_MANUAL_EN (Mode = UART_RTS_MODE_MANUAL) s;
          s = set_flag16 reg_uart_ctrl2 FLD_UART_CTRL2_RTS_PARITY Invert s;
          s = set_flag16 reg_uart_ctrl2 FLD_UART_CTRL2_RTS_TRIG_LVL False s
      in set_flag16 reg_uart_ctrl2 (ucast Thresh AND FLD_UART_CTRL2_RTS_TRIG_LVL) True s)"

definition uart_set_rts_level :: "bool \<Rightarrow> 'a mcu_scheme \<Rightarrow> 'a mcu_scheme" where
  "uart_set_rts_level Polarity s = set_flag16 reg_uart_ctrl2 FLD_UART_CTRL2_RTS_MANUAL_VAL Polarity s"

definition uart_set_cts :: "bool \<Rightarrow> bool \<Rightarrow> u16 \<Rightarrow> 'a mcu_scheme \<Rightarrow> 'a mcu_scheme" where
  "uart_set_cts Enable Select pin s =
     (let s = (if Enable then BM_SET reg_uart_ctrl1 FLD_UART_CTRL1_CTS_EN
                 (gpio_set_input_en pin True (gpio_set_func pin AS_UART s))
               else BM_CLR reg_uart_ctrl1 FLD_UART_CTRL1_CTS_EN s)
      in set_flag8 reg_uart_ctrl1 FLD_UART_CTRL1_CTS_SELECT Select s)"

definition uart_gpio_set :: "u16 \<Rightarrow> u16 \<Rightarrow> 'a mcu_scheme \<Rightarrow> 'a mcu_scheme" where
  "uart_gpio_set tx_pin rx_pin s =
     (let s = gpio_setup_up_down_resistor tx_pin (pull_val PM_PIN_PULLUP_10K) s;
          s = gpio_setup_up_down_resistor rx_pin (pull_val PM_PIN_PULLUP_10K) s;
          s = gpio_set_func rx_pin AS_UART (gpio_set_func tx_pin AS_UART s)
      in gpio_set_input_en rx_pin True (gpio_set_input_en tx_pin True s))"

section \<open>Sending and receiving\<close>

text \<open>\<open>while((reg_uart_buf_cnt>>4)>7);\<close> from the \<open>n\<close>-th reading of the fill level on.\<close>

partial_function (option) wait_tx_room :: "(nat \<Rightarrow> u8) \<Rightarrow> nat \<Rightarrow> nat option" where
  "wait_tx_room cnt n = (if 7 < drop_bit 4 (cnt n) then wait_tx_room cnt (n + 1) else Some (n + 1))"

declare wait_tx_room.simps [code]

definition uart_ndma_send_byte :: "(nat \<Rightarrow> u8) \<Rightarrow> u8 \<Rightarrow> nat \<times> 'a uart_mcu_scheme \<Rightarrow> (nat \<times> 'a uart_mcu_scheme) option" where
  "uart_ndma_send_byte cnt uartData ns = do {
     n \<leftarrow> wait_tx_room cnt (fst ns);
     let s = write_reg8 (reg_uart_data_buf (uart_TxIndex (snd ns))) uartData (snd ns);
     Some (n, s\<lparr>uart_TxIndex := (uart_TxIndex s + 1) AND 3\<rparr>) }"

text \<open>The string is given from its first character on; running past its end is \<open>None\<close>.\<close>

fun uart_CSend :: "(nat \<Rightarrow> u8) \<Rightarrow> u8 list \<Rightarrow> nat \<times> 'a uart_mcu_scheme \<Rightarrow> (u8 \<times> nat \<times> 'a uart_mcu_scheme) option" where
  "uart_CSend cnt [] ns = None"
| "uart_CSend cnt (c # cs) ns = (if c = 0 then Some (0, ns) else uart_ndma_send_byte cnt c ns \<bind> uart_CSend cnt cs)"

definition put_bytes :: "nat \<Rightarrow> u8 list \<Rightarrow> u8 list \<Rightarrow> u8 list option" where
  "put_bytes i bs m = (if i + length bs \<le> length m then Some (wr_bytes m i bs) else None)"

text \<open>\<open>data\<close> holds at least \<open>len\<close> bytes, or the copy reads outside it.\<close>

definition uart_Send :: "u8 \<Rightarrow> u8 list \<Rightarrow> u32 \<Rightarrow> 'a uart_mcu_scheme \<Rightarrow> (u8 \<times> 'a uart_mcu_scheme) option" where
  "uart_Send len_max data len s =
     (if ucast len_max < len then Some (1, s)
      else case tx_buff s of
        None \<Rightarrow> Some (0, s)
      | Some a \<Rightarrow>
          if read_reg8 reg_uart_status1 s AND FLD_UART_TX_DONE \<noteq> 0 then do {
            m \<leftarrow> put_bytes 0 (word_bytes len) (tx_ram s);
            d \<leftarrow> (if unat len \<le> length data then Some (take (unat len) data) else None);
            m \<leftarrow> put_bytes 4 d m;
            let s = write_reg16 reg_dma1_addr a (s\<lparr>tx_ram := m\<rparr>);
            Some (1, BM_SET reg_dma_tx_rdy0 FLD_DMA_CHN_UART_TX s) }
          else Some (0, s))"

definition uart_dma_send :: "u32 \<Rightarrow> 'a mcu_scheme \<Rightarrow> u8 \<times> 'a mcu_scheme" where
  "uart_dma_send Addr s =
     (if read_reg8 reg_uart_status1 s AND FLD_UART_TX_DONE \<noteq> 0 then
        (1, BM_SET reg_dma_tx_rdy0 FLD_DMA_CHN_UART_TX (write_reg16 reg_dma1_addr (ucast Addr) s))
      else (0, s))"

text \<open>\<open>addr\<close> is where the compiler has placed the local array \<open>b\<close>.\<close>

definition uart_send_byte :: "u32 \<Rightarrow> 'a mcu_scheme \<Rightarrow> u8 \<times> 'a mcu_scheme" where
  "uart_send_byte addr s =
     (if read_reg8 reg_uart_status1 s AND FLD_UART_TX_DONE \<noteq> 0 then
        (1, write_reg8 reg_dma_tx_rdy0 (BIT 1)
              (write_reg8 reg_dma1_addrHi (ucast (drop_bit 16 addr AND 0xff)) (write_reg16 reg_dma1_addr (ucast addr) s)))
      else (0, s))"

definition uart_recbuff_init :: "u32 \<Rightarrow> u16 \<Rightarrow> (u16 \<times> u8 list) option \<Rightarrow> 'a uart_mcu_scheme \<Rightarrow> 'a uart_mcu_scheme" where
  "uart_recbuff_init RecvAddr RecvBufLen tx s =
     (let s = write_reg16 reg_dma0_addr (ucast RecvAddr) s;
          s = write_reg8 reg_dma0_addrHi 0x04 s;
          s = write_reg8 reg_dma0_size (ucast (RecvBufLen div 16)) s;
          s = write_reg8 reg_dma0_mode FLD_DMA_WR_MEM s
      in case tx of Some (a, m) \<Rightarrow> s\<lparr>tx_buff := Some a, tx_ram := m\<rparr> | None \<Rightarrow> s)"

end
