(* ===== verification/UartFacts.thy ===== *)
theory UartFacts
  imports Uart
begin

text \<open>
  What the serial port driver computes and sends: which numbers \<open>IsPrime\<close> accepts, how close the divider
  search comes to the requested rate and that no other width is closer, and the packets handed to the DMA.
\<close>

section \<open>The primality test\<close>

definition no_proper_divisor :: "nat \<Rightarrow> bool" where
  "no_proper_divisor m \<longleftrightarrow> 1 < m \<and> (\<forall>d. d dvd m \<longrightarrow> d = 1 \<or> d = m)"

text \<open>What the loop tests: no divisor up to the root, except a root that leaves 5 modulo 6.\<close>

definition untested :: "nat \<Rightarrow> bool" where
  "untested m \<longleftrightarrow> (\<forall>d. 1 < d \<longrightarrow> d dvd m \<longrightarrow> m \<le> d * d \<and> (d * d = m \<longrightarrow> d mod 6 = 5))"

lemma dvd_square_prime:
  assumes "no_proper_divisor p" "d dvd p * p" "1 < d"
  shows "p dvd d"
proof -
  have "gcd d p = 1 \<or> gcd d p = p" using assms(1) by (simp add: no_proper_divisor_def)
  then show ?thesis
  proof
    assume "gcd d p = 1"
    then have c: "coprime d p" by (simp add: coprime_iff_gcd_eq_1)
    then have "d dvd p" using assms(2) by (simp add: coprime_dvd_mult_right_iff)
    then have "gcd d p = d" by (simp add: gcd_nat.absorb1)
    then show ?thesis using \<open>gcd d p = 1\<close> assms(3) by simp
  next
    assume "gcd d p = p"
    then show ?thesis by (metis gcd_dvd1)
  qed
qed

lemma untested_iff:
  assumes "1 < m"
  shows "untested m \<longleftrightarrow> no_proper_divisor m \<or> (\<exists>p. no_proper_divisor p \<and> m = p * p \<and> p mod 6 = 5)"
proof
  assume u: "untested m"
  show "no_proper_divisor m \<or> (\<exists>p. no_proper_divisor p \<and> m = p * p \<and> p mod 6 = 5)"
  proof (rule disjCI)
    assume no: "\<nexists>p. no_proper_divisor p \<and> m = p * p \<and> p mod 6 = 5"
    have no2: "e = 1 \<or> e = m" if e: "e dvd m" for e
    proof (rule ccontr)
      assume ne: "\<not> (e = 1 \<or> e = m)"
      obtain f where f: "m = e * f" using e by (auto elim: dvdE)
      have ef: "1 < e" "1 < f" using ne f assms by (cases e; cases f; auto)+
      have d: "e dvd m" "f dvd m" using f by simp_all
      from u ef d have "m \<le> e * e" "m \<le> f * f" by (auto simp: untested_def)
      then have "f \<le> e" "e \<le> f" using f ef by auto
      then have sq: "m = e * e" using f by simp
      then have "e mod 6 = 5" using u ef(1) d(1) by (auto simp: untested_def)
      moreover have "no_proper_divisor e" unfolding no_proper_divisor_def
      proof (intro conjI allI impI ef(1))
        fix g assume g: "g dvd e"
        show "g = 1 \<or> g = e"
        proof (rule ccontr)
          assume "\<not> (g = 1 \<or> g = e)"
          then have "1 < g" "g < e" using g ef(1) by (auto simp: dvd_imp_le le_neq_implies_less intro: Suc_lessI dest: dvd_imp_le)
          moreover have "g dvd m" using g sq by simp
          ultimately have "e * e \<le> g * g" using u sq by (auto simp: untested_def)
          moreover have "g * g < e * e" using \<open>g < e\<close> by (intro mult_strict_mono) auto
          ultimately show False by simp
        qed
      qed
      ultimately show False using no sq by blast
    qed
    show "no_proper_divisor m" using assms no2 by (auto simp: no_proper_divisor_def)
  qed
next
  assume "no_proper_divisor m \<or> (\<exists>p. no_proper_divisor p \<and> m = p * p \<and> p mod 6 = 5)"
  then show "untested m"
  proof
    assume "no_proper_divisor m"
    then show ?thesis by (auto simp: no_proper_divisor_def untested_def)
  next
    assume "\<exists>p. no_proper_divisor p \<and> m = p * p \<and> p mod 6 = 5"
    then obtain p where p: "no_proper_divisor p" "m = p * p" "p mod 6 = 5" by blast
    show ?thesis unfolding untested_def
    proof (intro allI impI)
      fix d assume d: "1 < d" "d dvd m"
      have "p dvd d" using dvd_square_prime [OF p(1)] d p(2) by blast
      then have le: "p \<le> d" using d(1) by (simp add: dvd_imp_le)
      have "d = p" if "d * d = m" using that p(2) le by (metis mult_le_mono nat_mult_le_cancel_disj order_antisym power2_eq_square power2_eq_imp_eq zero_le)
      then show "m \<le> d * d \<and> (d * d = m \<longrightarrow> d mod 6 = 5)" using le p(2,3) by (auto intro: mult_le_mono)
    qed
  qed
qed

lemma next_candidate:
  assumes "\<not> 2 dvd m" "\<not> 3 dvd m" "k mod 6 = 5" "\<not> k dvd m" "\<not> k + 2 dvd m" "\<And>d. 1 < d \<Longrightarrow> d < k \<Longrightarrow> \<not> d dvd m"
    and d: "1 < d" "d < k + (6 :: nat)"
  shows "\<not> d dvd m"
proof -
  consider "d < k" | "d = k" | "d = k + 1" | "d = k + 2" | "d = k + 3" | "d = k + 4" | "d = k + 5" using d(2) by linarith
  then show ?thesis
  proof cases
    case 3
    then have "2 dvd d" using assms(3) by presburger
    then show ?thesis using assms(1) dvd_trans by blast
  next
    case 5
    then have "2 dvd d" using assms(3) by presburger
    then show ?thesis using assms(1) dvd_trans by blast
  next
    case 6
    then have "3 dvd d" using assms(3) by presburger
    then show ?thesis using assms(2) dvd_trans by blast
  next
    case 7
    then have "2 dvd d" using assms(3) by presburger
    then show ?thesis using assms(1) dvd_trans by blast
  qed (use assms(4,5,6) d(1) in auto)
qed


lemma prime_loop_spec:
  assumes "unat n \<le> 4294311961" "3 < unat n" "\<not> 2 dvd unat n" "\<not> 3 dvd unat n"
  shows "k mod 6 = 5 \<Longrightarrow> k \<le> 65531 \<Longrightarrow> (\<And>d. 1 < d \<Longrightarrow> d < k \<Longrightarrow> \<not> d dvd unat n) \<Longrightarrow>
    prime_loop n (of_nat k) = Some (if untested (unat n) then 1 else 0)"
proof (induction "65531 - k" arbitrary: k rule: less_induct)
  case less
  let ?N = "unat n"
  have k: "5 \<le> k" using less.prems(1) by presburger
  have kk: "k * k \<le> 65531 * 65531" using less.prems(2) by (intro mult_le_mono)
  have u: "unat (of_nat k :: u32) = k" "unat (of_nat k * of_nat k :: u32) = k * k" "unat (of_nat k + 2 :: u32) = k + 2"
    using less.prems(2) kk by (simp_all add: unat_word_ariths unat_of_nat)
  have tests: "(of_nat k * of_nat k < n) = (k * k < ?N)" "(n mod of_nat k = 0) = (k dvd ?N)" "(n mod (of_nat k + 2) = 0) = (k + 2 dvd ?N)"
    "(of_nat k :: u32) \<noteq> 0" "(of_nat k + 2 :: u32) \<noteq> 0"
    using u k by (auto simp: word_less_nat_alt unat_eq_zero [symmetric] unat_mod dvd_eq_mod_eq_0)
  show ?case
  proof (cases "k * k < ?N")
    case False
    have "untested ?N" unfolding untested_def
    proof (intro allI impI)
      fix d assume d: "1 < d" "d dvd ?N"
      then have le: "k \<le> d" using less.prems(3) not_le by blast
      then have "k * k \<le> d * d" by (intro mult_le_mono)
      moreover have "d = k" if "d * d = ?N"
      proof (rule ccontr)
        assume "d \<noteq> k"
        then have "k * k < d * d" using le by (intro mult_strict_mono) auto
        then show False using that False by simp
      qed
      ultimately show "?N \<le> d * d \<and> (d * d = ?N \<longrightarrow> d mod 6 = 5)" using False less.prems(1) by auto
    qed
    then show ?thesis using False tests by (subst prime_loop.simps) simp
  next
    case True
    consider (a) "k dvd ?N" | (b) "\<not> k dvd ?N" "k + 2 dvd ?N" | (c) "\<not> k dvd ?N" "\<not> k + 2 dvd ?N" by blast
    then show ?thesis
    proof cases
      case a
      then have "\<not> untested ?N" using True k by (auto simp: untested_def intro!: exI [of _ k])
      then show ?thesis using True tests a by (subst prime_loop.simps) simp
    next
      case b
      obtain m where m: "?N = (k + 2) * m" using b(2) by (auto elim: dvdE)
      have "1 < m"
      proof (rule ccontr)
        assume "\<not> 1 < m"
        then have "?N = 0 \<or> ?N = k + 2" using m by (cases m) auto
        moreover have "k + 2 < k * k" using k mult_le_mono1 [OF k, of k] by linarith
        ultimately show False using True by auto
      qed
      moreover have "m dvd ?N" using m by simp
      ultimately have "\<not> m < k" "m \<noteq> k" using less.prems(3) b(1) by auto
      moreover have "m \<noteq> k + 1"
      proof
        assume "m = k + 1"
        then have "2 dvd m" using less.prems(1) by presburger
        then show False using \<open>m dvd ?N\<close> assms(3) dvd_trans by blast
      qed
      ultimately have "k + 2 \<le> m" by linarith
      then have "(k + 2) * (k + 2) \<le> ?N" unfolding m by (rule mult_le_mono2)
      moreover have "(k + 2) mod 6 \<noteq> 5" using less.prems(1) by presburger
      ultimately have "\<not> untested ?N" using b(2) k unfolding untested_def by (intro notI, drule_tac spec [of _ "k + 2"]) auto
      then show ?thesis using True tests b by (subst prime_loop.simps) simp
    next
      case c
      have "k < 65531"
      proof (rule ccontr)
        assume "\<not> k < 65531"
        then have "k = 65531" using less.prems(2) by simp
        then show False using True assms(1) by simp
      qed
      then have k6: "k + 6 \<le> 65531" using less.prems(1) by presburger
      have m6: "(k + 6) mod 6 = 5" using less.prems(1) by presburger
      have lt: "65531 - (k + 6) < 65531 - k" using \<open>k < 65531\<close> by simp
      have "prime_loop n (of_nat (k + 6)) = Some (if untested ?N then 1 else 0)"
        by (rule less.hyps [OF lt m6 k6]) (rule next_candidate [OF assms(3,4) less.prems(1) c less.prems(3)])
      then show ?thesis using True tests c by (subst prime_loop.simps) simp
    qed
  qed
qed

lemma IsPrime_spec:
  assumes "unat n \<le> 4294311961"
  shows "IsPrime n = Some (if unat n \<le> 3 \<or> untested (unat n) then 1 else 0)"
proof (cases "unat n \<le> 3")
  case False
  have tests: "(n \<le> 3) = False" "(n mod 2 = 0) = (2 dvd unat n)" "(n mod 3 = 0) = (3 dvd unat n)"
    using False by (auto simp: word_le_nat_alt unat_eq_zero [symmetric] unat_mod dvd_eq_mod_eq_0)
  show ?thesis
  proof (cases "2 dvd unat n \<or> 3 dvd unat n")
    case True
    have "\<not> untested (unat n)"
    proof
      assume u: "untested (unat n)"
      show False
      proof (cases "2 dvd unat n")
        case True
        have "unat n \<le> 2 * 2 \<and> (2 * 2 = unat n \<longrightarrow> (2 :: nat) mod 6 = 5)"
          using u True unfolding untested_def by (elim allE [of _ 2]) simp
        then show False using False by (cases "unat n = 4") auto
      next
        case odd: False
        then have "3 dvd unat n" using True by simp
        have "unat n \<le> 3 * 3 \<and> (3 * 3 = unat n \<longrightarrow> (3 :: nat) mod 6 = 5)"
          using u \<open>3 dvd unat n\<close> unfolding untested_def by (elim allE [of _ 3]) simp
        then show False using False odd \<open>3 dvd unat n\<close> by (simp, presburger)
      qed
    qed
    then show ?thesis using tests True False by (auto simp: IsPrime_def)
  next
    case nd: False
    have "prime_loop n (of_nat 5) = Some (if untested (unat n) then 1 else 0)"
    proof (rule prime_loop_spec [OF assms])
      fix d :: nat assume d: "1 < d" "d < 5"
      then have "d = 2 \<or> d = 3 \<or> d = 4" by linarith
      then show "\<not> d dvd unat n" using nd by (auto dest: dvd_trans [of 2 4])
    qed (use False nd in auto)
    then show ?thesis using tests nd False by (simp add: IsPrime_def)
  qed
qed (simp add: IsPrime_def word_le_nat_alt)

text \<open>
For all numbers up to 65531 squared the test returns; above 3 it accepts exactly the primes and the
squares of the primes that leave 5 modulo 6, which \<open>i*i<n\<close> does not try.
\<close>

theorem IsPrime_accepts:
  assumes "unat n \<le> 4294311961"
  shows "IsPrime n = Some (if unat n \<le> 3 \<or> no_proper_divisor (unat n) \<or>
    (\<exists>p. no_proper_divisor p \<and> unat n = p * p \<and> p mod 6 = 5) then 1 else 0)"
proof (cases "unat n \<le> 3")
  case False
  then show ?thesis using IsPrime_spec [OF assms] untested_iff [of "unat n"] by simp
qed (simp add: IsPrime_spec [OF assms])

lemma IsPrime_accepts_witness: "IsPrime 25 = Some 1 \<and> IsPrime 49 = Some 0"
proof -
  have "no_proper_divisor 5" unfolding no_proper_divisor_def
  proof (intro conjI allI impI)
    fix d :: nat assume d: "d dvd 5"
    then have "d \<le> 5" by (rule dvd_imp_le) simp
    then consider "d = 0" | "d = 1" | "d = 2" | "d = 3" | "d = 4" | "d = 5" by linarith
    then show "d = 1 \<or> d = 5" using d by cases auto
  qed simp
  then have "\<exists>p. no_proper_divisor p \<and> unat (25 :: u32) = p * p \<and> p mod 6 = 5" by (intro exI [of _ 5]) simp
  then have "IsPrime 25 = Some 1" using IsPrime_accepts [of 25] by simp
  moreover have "IsPrime 49 = Some 0" by code_simp
  ultimately show ?thesis by simp
qed

section \<open>The divider search\<close>

lemma prime_total: "unat n \<le> 4294311961 \<Longrightarrow> \<exists>a. IsPrime n = Some a"
  using IsPrime_spec [of n] by auto

lemma uart_ratio_near:
  assumes "0 < unat baud" "unat clk < 4294311961"
  shows "\<exists>p. uart_ratio baud clk = Some p \<and> (unat p = unat clk div unat baud \<or> unat p = unat clk div unat baud + 1)"
proof -
  let ?r = "clk div baud"
  have r: "unat ?r = unat clk div unat baud" by (simp add: unat_div)
  have le: "unat clk div unat baud \<le> unat clk" by simp
  then have "unat ?r + unat (1 :: u32) < 2 ^ LENGTH(32)" using assms(2) unfolding r by (simp, linarith)
  then have r1: "unat (?r + 1) = unat clk div unat baud + 1" by (subst (asm) unat_add_lem) (simp add: r)
  have b: "baud \<noteq> 0" using assms(1) by auto
  have "unat ?r \<le> 4294311961" "unat (?r + 1) \<le> 4294311961" using assms(2) le unfolding r r1 by linarith+
  from this [THEN prime_total] obtain a c where "IsPrime ?r = Some a" "IsPrime (?r + 1) = Some c" by blast
  then show ?thesis using b r r1 by (auto simp: uart_ratio_def Let_def)
qed

lemma tenth_less: "10 * (p mod (j + 4)) div (j + 4) < 10" for p j :: nat
proof (rule less_mult_imp_div_less)
  have "a < b \<Longrightarrow> 10 * a < 10 * b" for a b :: nat by simp
  from this [of "p mod (j + 4)" "j + 4"] show "10 * (p mod (j + 4)) < 10 * (j + 4)" by simp
qed

lemma D_entries:
  assumes "10 * unat p < 4294967296" "j < 13"
  shows "unat (D_dec p ! j) = 10 * (unat p mod (j + 4)) div (j + 4)" "unat (D_int p ! j) = unat p div (j + 4)"
proof -
  have w: "of_nat (3 + j) + 1 = (of_nat (j + 4) :: u32)" "unat (of_nat (j + 4) :: u32) = j + 4" using assms(2)
    by (simp, simp only: unat_of_nat, simp)
  have t: "unat (10 * p) = 10 * unat p" using assms(1) by (simp add: unat_word_ariths)
  have n: "[3..<16] ! j = 3 + j" using assms(2) by (simp del: upt_rec_numeral)
  obtain x where x: "x = D_intdec p ! j" by blast
  have len: "length (D_intdec p) = 13" by (simp add: D_intdec_def)
  have "j < length [3..<16]" using assms(2) by (simp del: upt_rec_numeral)
  then have "x = (10 * p) div of_nat (j + 4)" by (simp only: x D_intdec_def nth_map n w)
  then have d: "unat x = 10 * unat p div (j + 4)" by (simp only: unat_div w t)
  have "10 * unat p = 10 * (unat p mod (j + 4)) + (10 * (unat p div (j + 4))) * (j + 4)"
    using div_mult_mod_eq [of "unat p" "j + 4"] by linarith
  then have dm: "unat x = 10 * (unat p div (j + 4)) + 10 * (unat p mod (j + 4)) div (j + 4)"
    unfolding d by (simp only: div_mult_self1 add_eq_0_iff_both_eq_0) simp
  have lt: "10 * (unat p mod (j + 4)) div (j + 4) < 10" by (rule tenth_less)
  have e: "x - 10 * (x div 10) = x mod 10" by (rule minus_mult_div_eq_mod)
  show "unat (D_int p ! j) = unat p div (j + 4)" using assms(2) len lt by (simp add: D_int_def x [symmetric] unat_div dm)
  show "unat (D_dec p ! j) = 10 * (unat p mod (j + 4)) div (j + 4)"
    using assms(2) len lt by (simp add: D_dec_def x [symmetric] e unat_ucast_narrow unat_mod dm)
qed

text \<open>The scan finds the last of the smallest and of the largest decimals.\<close>

lemma bwpc_scan_max:
  "n \<le> 13 \<Longrightarrow> 0 < n \<Longrightarrow> position_max (bwpc_scan dec ints n) < n \<and>
    s_max (bwpc_scan dec ints n) = ucast (dec ! position_max (bwpc_scan dec ints n)) \<and>
    (\<forall>j < n. dec ! j \<le> dec ! position_max (bwpc_scan dec ints n))"
proof (induction n)
  case (Suc n)
  show ?case
  proof (cases "n = 0")
    case False
    then show ?thesis using Suc by (auto simp: Let_def less_Suc_eq word_le_nat_alt unat_ucast_widen)
  qed (simp add: Let_def)
qed simp

lemma bwpc_scan_min:
  "n \<le> 13 \<Longrightarrow> 0 < n \<Longrightarrow> (\<And>j. j < n \<Longrightarrow> ints ! j \<noteq> 1) \<Longrightarrow> position_min (bwpc_scan dec ints n) < n \<and>
    s_min (bwpc_scan dec ints n) = ucast (dec ! position_min (bwpc_scan dec ints n)) \<and>
    (\<forall>j < n. dec ! position_min (bwpc_scan dec ints n) \<le> dec ! j)"
proof (induction n)
  case (Suc n)
  show ?case
  proof (cases "n = 0")
    case False
    then show ?thesis using Suc by (auto simp: Let_def less_Suc_eq word_le_nat_alt unat_ucast_widen)
  next
    case True
    have "ucast (dec ! 0) \<le> (0xffffffff :: u32)" 
      by (simp add: word_le_nat_alt unat_ucast_widen) (rule order.trans [OF less_imp_le [OF unat_less_256]], simp)
    then show ?thesis using Suc True by (simp add: Let_def)
  qed
qed simp

text \<open>How far a ratio is from a multiple of a width, in tenths of the width.\<close>

definition off_tenths :: "nat \<Rightarrow> nat \<Rightarrow> nat" where
  "off_tenths p w = (let d = 10 * (p mod w) div w in if d < 5 then d else 10 - d)"

lemma round_div:
  assumes "0 < (w :: nat)" "q = p div w"
  shows "10 * (p mod w) div w < 5 \<Longrightarrow> q * w \<le> p \<and> 2 * p \<le> 2 * (q * w) + w"
    "5 \<le> 10 * (p mod w) div w \<Longrightarrow> p \<le> (q + 1) * w \<and> 2 * ((q + 1) * w) \<le> 2 * p + w"
proof -
  obtain r where r: "r = p mod w" by blast
  have p: "p = q * w + r" "r < w" using assms by (simp_all add: r)
  show "q * w \<le> p \<and> 2 * p \<le> 2 * (q * w) + w" if "10 * (p mod w) div w < 5"
  proof -
    have "10 * r < 5 * w" using that assms(1) unfolding r by (simp add: div_less_iff_less_mult)
    then show ?thesis using p(1) by linarith
  qed
  show "p \<le> (q + 1) * w \<and> 2 * ((q + 1) * w) \<le> 2 * p + w" if "5 \<le> 10 * (p mod w) div w"
  proof -
    have "5 * w \<le> 10 * r" using that assms(1) unfolding r by (simp add: less_eq_div_iff_mult_less_eq)
    moreover have "(q + 1) * w = q * w + w" by simp
    ultimately show ?thesis using p by linarith
  qed
qed

lemma best_bwpc_spec:
  assumes "32 \<le> unat p" "10 * unat p < 4294967296" "best_bwpc p = (b, dv)"
  shows "\<exists>w. 4 \<le> w \<and> w \<le> 16 \<and> unat b + 1 = w \<and> unat dv \<le> unat p div w \<and>
    (let t = (unat dv + 1) * w in 2 * unat p \<le> 2 * t + w \<and> 2 * t \<le> 2 * unat p + w) \<and>
    (\<forall>v. 4 \<le> v \<and> v \<le> 16 \<longrightarrow> off_tenths (unat p) w \<le> off_tenths (unat p) v)"
proof -
  let ?P = "unat p"
  obtain c where c: "c = bwpc_scan (D_dec p) (D_int p) 13" by blast
  obtain dd where dd: "dd = (\<lambda>j. 10 * (?P mod (j + 4)) div (j + 4))" by blast
  have dec: "unat (D_dec p ! j) = dd j" "unat (D_int p ! j) = ?P div (j + 4)" if "j < 13" for j
    using D_entries [OF assms(2) that] by (simp_all add: dd)
  have two: "2 \<le> ?P div (j + 4)" if "j < 13" for j
    using that assms(1) by (simp add: less_eq_div_iff_mult_less_eq)
  have ne: "D_int p ! j \<noteq> 1" if "j < 13" for j
  proof
    assume "D_int p ! j = 1"
    then have "unat (D_int p ! j) = 1" by simp
    then show False using two [OF that] dec(2) [OF that] by simp
  qed
  obtain lo hi where lh: "position_min c = lo" "position_max c = hi" by blast
  have lo: "lo < 13" "\<And>j. j < 13 \<Longrightarrow> dd lo \<le> dd j"
    using bwpc_scan_min [of 13 "D_int p" "D_dec p", OF _ _ ne] lh(1) unfolding c [symmetric] by (auto simp: word_le_nat_alt dec)
  have hi: "hi < 13" "\<And>j. j < 13 \<Longrightarrow> dd j \<le> dd hi"
    using bwpc_scan_max [of 13 "D_dec p" "D_int p"] lh(2) unfolding c [symmetric] by (auto simp: word_le_nat_alt dec)
  have off: "off_tenths ?P (j + 4) = (if dd j < 5 then dd j else 10 - dd j)" for j by (simp add: off_tenths_def dd Let_def)
  have lt: "dd j < 10" for j unfolding dd by (rule tenth_less)
  have tests: "(D_dec p ! j < 5) = (dd j < 5)" "(5 \<le> D_dec p ! j) = (5 \<le> dd j)" "unat (10 - D_dec p ! j) = 10 - dd j" if "j < 13" for j
  proof -
    have "D_dec p ! j \<le> 10" using lt [of j] dec(1) [OF that] by (simp add: word_le_nat_alt)
    then show "unat (10 - D_dec p ! j) = 10 - dd j" by (simp add: unat_sub dec(1) [OF that])
  qed (simp_all add: word_less_nat_alt word_le_nat_alt dec(1) [OF that])
  have w: "unat (of_nat j + 3 :: u8) + 1 = j + 4" if "j < 13" for j using that by (simp add: unat_word_ariths unat_of_nat)
  consider (min) "dd lo < 5" "dd lo \<le> 10 - dd hi" "b = of_nat lo + 3" "dv = D_int p ! lo - 1"
    | (max) "5 \<le> dd hi" "10 - dd hi \<le> dd lo \<or> 5 \<le> dd lo" "b = of_nat hi + 3" "dv = D_int p ! hi"
    using assms(3) hi(2) [OF lo(1)] unfolding best_bwpc_def Let_def c [symmetric] lh tests(1,2) [OF lo(1)] tests(1,2) [OF hi(1)]
    by (auto simp: word_less_nat_alt tests(3) [OF hi(1)] dec(1) [OF lo(1)] split: if_splits)
  then show ?thesis
  proof cases
    case min
    have "unat dv = ?P div (lo + 4) - 1" using two [OF lo(1)] min(4) by (simp add: unat_sub word_le_nat_alt dec(2) [OF lo(1)])
    then have dv: "unat dv + 1 = ?P div (lo + 4)" using two [OF lo(1)] by simp
    have "off_tenths ?P (lo + 4) \<le> off_tenths ?P v" if v: "4 \<le> v" "v \<le> 16" for v
    proof -
      obtain j where j: "v = j + 4" "j < 13" using v by (intro that [of "v - 4"]) auto
      show ?thesis using min(1,2) lo(2) [OF j(2)] hi(2) [OF j(2)] lt [of hi] unfolding j(1) off by auto
    qed
    moreover have "unat dv \<le> ?P div (lo + 4)" using dv by simp
    moreover have "?P div (lo + 4) * (lo + 4) \<le> ?P \<and> 2 * ?P \<le> 2 * (?P div (lo + 4) * (lo + 4)) + (lo + 4)"
      using round_div(1) [of "lo + 4" _ ?P, OF _ refl] min(1) by (simp add: dd)
    ultimately show ?thesis using lo(1) w [OF lo(1)] min(3) unfolding Let_def
      by (intro exI [of _ "lo + 4"] conjI allI impI; (simp only: dv)?; linarith)
  next
    case max
    have dv: "unat dv = ?P div (hi + 4)" using max(4) dec(2) [OF hi(1)] by simp
    have "off_tenths ?P (hi + 4) \<le> off_tenths ?P v" if v: "4 \<le> v" "v \<le> 16" for v
    proof -
      obtain j where j: "v = j + 4" "j < 13" using v by (intro that [of "v - 4"]) auto
      show ?thesis using max(1,2) lo(2) [OF j(2)] hi(2) [OF j(2)] lt [of hi] unfolding j(1) off by auto
    qed
    moreover have "?P \<le> (?P div (hi + 4) + 1) * (hi + 4) \<and> 2 * ((?P div (hi + 4) + 1) * (hi + 4)) \<le> 2 * ?P + (hi + 4)"
      using round_div(2) [of "hi + 4" _ ?P, OF _ refl] max(1) by (simp add: dd)
    ultimately show ?thesis using hi(1) w [OF hi(1)] max(3) dv unfolding Let_def
      by (intro exI [of _ "hi + 4"] conjI allI impI; (simp only: dv)?; linarith)
  qed
qed

section \<open>The configured port\<close>

text \<open>What the registers mean: the clock cycles of one bit, and the frame.\<close>

definition uart_bit_time :: "'a mcu_scheme \<Rightarrow> nat" where
  "uart_bit_time s = (unat (read_reg16 reg_uart_clk_div s AND 0x7fff) + 1) * (unat (read_reg8 reg_uart_ctrl0 s AND 0x0f) + 1)"

definition uart_frame :: "'a mcu_scheme \<Rightarrow> uart_parity \<times> u8" where
  "uart_frame s = (let c = read_reg8 reg_uart_ctrl1 s in
     (if bit c 2 then if bit c 3 then PARITY_ODD else PARITY_EVEN else PARITY_NONE, c AND 0x30))"

lemma take_bit_small: "unat w < 2 ^ n \<Longrightarrow> take_bit n w = w" for w :: "'a::len word"
  by (simp add: word_unat_eq_iff unsigned_take_bit_eq take_bit_nat_eq_self)

lemma stop_fields: "(x AND - 49) AND 48 = (0 :: u8)" "(x AND - 49 OR BIT 4) AND 48 = (BIT 4 :: u8)" "(x AND - 49 OR BIT 5) AND 48 = (BIT 5 :: u8)"
proof -
  have "BIT 4 AND 48 = (BIT 4 :: u8)" "BIT 5 AND 48 = (BIT 5 :: u8)" by code_simp+
  then show "(x AND - 49) AND 48 = (0 :: u8)" "(x AND - 49 OR BIT 4) AND 48 = (BIT 4 :: u8)" "(x AND - 49 OR BIT 5) AND 48 = (BIT 5 :: u8)"
    by (simp_all add: word_ao_dist and.assoc)
qed

lemma uart_config_regs:
  assumes "unat b \<le> 15" "unat dv < 32768"
  shows "uart_bit_time (uart_config dv b par sb s) = (unat dv + 1) * (unat b + 1)"
    "uart_frame (uart_config dv b par sb s) = (par, stop_val sb)"
proof -
  have b: "b AND 0x0f = b"
    using take_bit_small [of b 4] assms(1) by (simp add: take_bit_eq_mask mask_eq_exp_minus_1)
  have dv: "ucast (dv OR FLD_UART_CLK_DIV_EN) AND (0x7fff :: u16) = ucast dv"
  proof -
    have "take_bit 15 dv = dv" using assms(2) by (intro take_bit_small) simp
    then have "n < 15" if "bit dv n" for n using that by (metis bit_take_bit_iff)
    then have "take_bit 15 (ucast (dv OR FLD_UART_CLK_DIV_EN)) = (ucast dv :: u16)"
      by (intro bit_word_eqI) (auto simp: bit_simps FLD_UART_CLK_DIV_EN_def)
    then show ?thesis by (simp add: take_bit_eq_mask mask_eq_exp_minus_1)
  qed
  have u: "unat (ucast dv :: u16) = unat dv" using assms(2) by (simp add: unat_ucast_narrow)
  show "uart_bit_time (uart_config dv b par sb s) = (unat dv + 1) * (unat b + 1)"
    by (simp add: uart_bit_time_def uart_config_def uart_regs read_reg8_def read_reg16_def write_reg16_def BM_SET_def BM_CLR_def Let_def w1c_def ro_def b dv u)
  show "uart_frame (uart_config dv b par sb s) = (par, stop_val sb)"
    by (cases par; cases sb; simp add: uart_frame_def uart_config_def uart_regs uart_flds read_reg8_def write_reg16_def
        BM_SET_def BM_CLR_def Let_def w1c_def ro_def bit_simps stop_fields)
qed

text \<open>
C31: For every rate between clock/131070 and clock/32, \<open>uart_init_baudrate\<close> returns with the frame that was asked
for and a bit time that is at most nine clock cycles from the exact one.
\<close>

theorem uart_baudrate_close:
  assumes "0 < unat baud" "unat clk \<le> 48000000" "32 \<le> unat clk div unat baud" "unat clk div unat baud \<le> 131070"
  shows "\<exists>t. uart_init_baudrate baud clk par sb s = Some t \<and> uart_frame t = (par, stop_val sb) \<and>
    uart_bit_time t * unat baud \<le> unat clk + 9 * unat baud \<and> unat clk \<le> uart_bit_time t * unat baud + 9 * unat baud"
proof -
  obtain p where p: "uart_ratio baud clk = Some p" "unat p = unat clk div unat baud \<or> unat p = unat clk div unat baud + 1"
    using uart_ratio_near [OF assms(1), of clk] assms(2) by auto
  obtain b dv where bd: "best_bwpc p = (b, dv)" by fastforce
  have rng: "32 \<le> unat p" "unat p \<le> 131071" using p(2) assms(3,4) by auto
  obtain w t where w: "4 \<le> w" "w \<le> 16" "unat b + 1 = w" "unat dv \<le> unat p div w" "t = (unat dv + 1) * w"
    "2 * unat p \<le> 2 * t + w" "2 * t \<le> 2 * unat p + w"
    using best_bwpc_spec [OF rng(1) _ bd] rng(2) by (auto simp: Let_def)
  have "unat p div w \<le> 131071 div 4" using rng(2) w(1) by (meson div_le_mono div_le_mono2 le_trans zero_less_numeral)
  then have small: "unat b \<le> 15" "unat dv < 32768" using w(2,3,4) by auto
  obtain c where c: "c = unat clk div unat baud" by blast
  have clk: "c * unat baud \<le> unat clk" "unat clk < c * unat baud + unat baud"
    using assms(1) unfolding c by (simp_all add: dividend_less_div_times add.commute)
  have near: "c \<le> unat p" "unat p \<le> c + 1" using p(2) by (auto simp: c)
  have tb: "t \<le> c + 9" "c \<le> t + 8" using w(2,6,7) near by linarith+
  then have "t * unat baud \<le> (c + 9) * unat baud" "c * unat baud \<le> (t + 8) * unat baud" by (intro mult_le_mono1; simp)+
  then have "t * unat baud \<le> unat clk + 9 * unat baud" "unat clk \<le> t * unat baud + 9 * unat baud"
    using clk unfolding add_mult_distrib by linarith+
  moreover have "uart_bit_time (uart_config dv b par sb u) = t" "uart_frame (uart_config dv b par sb u) = (par, stop_val sb)" for u :: "'a uart_mcu_scheme"
    using uart_config_regs [OF small, of par sb u] w(3,5) by auto
  ultimately show ?thesis using p(1) bd by (simp add: uart_init_baudrate_def GetBetterBwpc_def)
qed

lemma uart_baudrate_close_witness:
  "\<exists>t. uart_init_baudrate 9600 16000000 PARITY_EVEN STOP_BIT_ONE \<lparr>dig = (\<lambda>_. 0xff), ana = (\<lambda>_. 0), g_bwpc = 0, g_uart_div = 0,
      tx_buff = None, tx_ram = [], uart_TxIndex = 0\<rparr> = Some t \<and> uart_frame t = (PARITY_EVEN, 0) \<and>
    3 * uart_bit_time t \<le> 5027 \<and> 4973 \<le> 3 * uart_bit_time t"
  using uart_baudrate_close [of 9600 16000000 PARITY_EVEN STOP_BIT_ONE "\<lparr>dig = (\<lambda>_. 0xff), ana = (\<lambda>_. 0), g_bwpc = 0, g_uart_div = 0,
      tx_buff = None, tx_ram = [], uart_TxIndex = 0\<rparr>"] by auto

text \<open>
The search over the widths: the product of the chosen divider and width is within half a width of the ratio, and
no width from 4 to 16 divides it with a smaller remainder (in tenths of the width, rounded down).
\<close>

theorem best_bwpc_optimal:
  assumes "32 \<le> unat p" "10 * unat p < 4294967296" "best_bwpc p = (b, dv)"
  shows "4 \<le> unat b + 1 \<and> unat b + 1 \<le> 16 \<and>
    2 * unat p \<le> 2 * ((unat dv + 1) * (unat b + 1)) + (unat b + 1) \<and>
    2 * ((unat dv + 1) * (unat b + 1)) \<le> 2 * unat p + (unat b + 1) \<and>
    (\<forall>v \<in> {4..16}. off_tenths (unat p) (unat b + 1) \<le> off_tenths (unat p) v)"
  using best_bwpc_spec [OF assms] by (auto simp: Let_def)

lemma best_bwpc_optimal_witness: "best_bwpc 1666 = (14, 110) \<and> off_tenths 1666 15 \<le> off_tenths 1666 10"
proof -
  have e: "best_bwpc 1666 = (14, 110)" by code_simp
  show ?thesis using best_bwpc_optimal [of 1666, OF _ _ e] e by auto
qed

end
