(* ===== verification/HciUart.thy ===== *)
theory HciUart
  imports Uart Fifo
begin

text \<open>
  The host interface over the serial port (\<open>mesh_common.c\<close>): reports are pushed into the ring
  \<open>hci_tx_fifo\<close>, \<open>blc_hci_tx_to_uart\<close> takes the oldest one when the port is idle, and the DMA sends it
  while the program goes on. The system is a step relation in which pushes, polls and the completion
  of a transfer come in any order.
\<close>

section \<open>The program\<close>

record hci_st = uart_mcu +
  hci_tx_fifo :: my_fifo

definition UART_HW_HEAD_LEN :: nat where "UART_HW_HEAD_LEN = 6"

definition FLD_IRQ_DMA_EN :: u32 where "FLD_IRQ_DMA_EN = BIT 4"

text \<open>
  \<open>rx\<close> is the receive ring and \<open>rx_p\<close> its address, \<open>tx_a\<close> and \<open>buf\<close> are the address and the contents of \<open>uart_hw_tx_buf\<close>.
  The processor runs at 16 MHz.
\<close>

definition uart_drv_init :: "u32 \<Rightarrow> my_fifo \<Rightarrow> u16 \<Rightarrow> u8 list \<Rightarrow> 'a uart_mcu_scheme \<Rightarrow> 'a uart_mcu_scheme" where
  "uart_drv_init rx_p rx tx_a buf s =
     (let s = uart_recbuff_init (rx_p + of_nat (fifo_slot rx (wptr rx))) (fsize rx) (Some (tx_a, buf)) s;
          s = uart_gpio_set GPIO_PD7 GPIO_PA0 s;
          s = uart_reset s;
          s = uart_init 9 13 PARITY_NONE STOP_BIT_ONE s;
          s = uart_dma_enable False False s;
          s = irq_set_mask FLD_IRQ_DMA_EN s
      in dma_chn_irq_enable (BIT 0 OR BIT 1) True s)"

text \<open>\<open>len_max\<close> is \<open>UART_TX_LEN_MAX\<close>; \<open>HCI_LOG_FW_EN\<close> and \<open>GATEWAY_ENABLE\<close> are 0.\<close>

definition blc_hci_tx_to_uart :: "u8 \<Rightarrow> hci_st \<Rightarrow> hci_st option" where
  "blc_hci_tx_to_uart len_max s =
     (case my_fifo_get (hci_tx_fifo s) of
        None \<Rightarrow> Some s
      | Some p \<Rightarrow>
          if \<not> uart_tx_is_busy s then
            (let b = fbuf (hci_tx_fifo s)
             in map_option (\<lambda>(r, s). if r \<noteq> 0 then s\<lparr>hci_tx_fifo := my_fifo_pop (hci_tx_fifo s)\<rparr> else s)
                  (uart_Send len_max (drop (p + 2) b) (of_nat (fifo_len_at b p)) s))
          else Some s)"

definition my_fifo_push_hci_tx_fifo :: "u8 list \<Rightarrow> u16 \<Rightarrow> u8 list \<Rightarrow> u8 \<Rightarrow> hci_st \<Rightarrow> int \<times> hci_st" where
  "my_fifo_push_hci_tx_fifo p n head head_len s =
     (let (r, f) = my_fifo_push (hci_tx_fifo s) p n head head_len in (r, s\<lparr>hci_tx_fifo := f\<rparr>))"

text \<open>\<open>HCI_TX_FIFO_SIZE\<close> is 64 and the response type \<open>HCI_RSP_USER\<close>.\<close>

definition hci_send_data_user :: "u8 \<Rightarrow> u8 list \<Rightarrow> int \<Rightarrow> hci_st \<Rightarrow> int \<times> hci_st" where
  "hci_send_data_user rsp para n s =
     (if n > 64 - 2 - 1 then (-1, s) else my_fifo_push_hci_tx_fifo para (of_int n) [rsp] 1 s)"

section \<open>The system\<close>

text \<open>
  The sending channel of the DMA: a packet is a four-byte length followed by the bytes. A transfer
  starts when the ready bit is written while the port has its sending DMA enabled; it reads the buffer
  until it is complete, and only then \<open>FLD_UART_TX_DONE\<close> is set again.
\<close>

record hci_sys =
  sw :: hci_st
  dma_busy :: bool
  wire :: "u8 list list"
  accepted :: "u8 list list"

definition dma_packet :: "u8 list \<Rightarrow> u8 list" where
  "dma_packet m = take (unat (m ! 0) + 256 * unat (m ! 1) + 65536 * unat (m ! 2) + 16777216 * unat (m ! 3)) (drop 4 m)"

definition dma_start :: "hci_sys \<Rightarrow> hci_sys" where
  "dma_start y =
     (let s = sw y in
      if bit (read_reg8 reg_dma_tx_rdy0 s) 1 \<and> bit (read_reg8 reg_uart_ctrl0 s) 5 then
        y\<lparr>sw := s\<lparr>dig := (dig s)(reg_dma_tx_rdy0 := dig s reg_dma_tx_rdy0 AND NOT (BIT 1),
                              reg_uart_status1 := dig s reg_uart_status1 AND NOT FLD_UART_TX_DONE)\<rparr>, dma_busy := True\<rparr>
      else y)"

definition dma_done :: "hci_sys \<Rightarrow> hci_sys" where
  "dma_done y =
     (let s = sw y in
      if dma_busy y then
        y\<lparr>sw := s\<lparr>dig := (dig s)(reg_uart_status1 := dig s reg_uart_status1 OR FLD_UART_TX_DONE)\<rparr>, dma_busy := False,
          wire := wire y @ [dma_packet (tx_ram s)]\<rparr>
      else y)"

inductive hci_step :: "u8 \<Rightarrow> hci_sys \<Rightarrow> hci_sys \<Rightarrow> bool" for len_max :: u8 where
  push: "my_fifo_push_hci_tx_fifo p n head hl (sw y) = (r, s) \<Longrightarrow> unat n \<le> length p \<Longrightarrow> unat hl \<le> length head \<Longrightarrow>
    hci_step len_max y (y\<lparr>sw := s, accepted := accepted y @ (if r = 0 then [take (unat hl) head @ take (unat n) p] else [])\<rparr>)"
| poll: "blc_hci_tx_to_uart len_max (sw y) = Some s \<Longrightarrow> hci_step len_max y (dma_start (y\<lparr>sw := s\<rparr>))"
| complete: "hci_step len_max y (dma_done y)"

inductive hci_reach :: "u8 \<Rightarrow> hci_sys \<Rightarrow> hci_sys \<Rightarrow> bool" for len_max :: u8 and y0 :: hci_sys where
  start: "hci_reach len_max y0 y0"
| step: "hci_reach len_max y0 y \<Longrightarrow> hci_step len_max y z \<Longrightarrow> hci_reach len_max y0 z"

inductive_cases hci_stepE: "hci_step len_max y z"

section \<open>Sending one packet\<close>

definition in_flight :: "hci_sys \<Rightarrow> u8 list list" where
  "in_flight y = (if dma_busy y then [dma_packet (tx_ram (sw y))] else [])"

text \<open>
  The ring and the buffer fit the largest packet, no transfer is waiting, and port and DMA agree on being busy. In
  \<open>hci_ok\<close> the buffer has been handed to the driver and the sending DMA is enabled as well.
\<close>

definition port_ok :: "u8 \<Rightarrow> hci_sys \<Rightarrow> bool" where
  "port_ok len_max y \<longleftrightarrow> fifo_inv (hci_tx_fifo (sw y)) \<and> unat (fsize (hci_tx_fifo (sw y))) \<le> unat len_max + 2 \<and>
     unat len_max + 4 \<le> length (tx_ram (sw y)) \<and>
     \<not> bit (dig (sw y) reg_dma_tx_rdy0) 1 \<and> (bit (dig (sw y) reg_uart_status1) 0 \<longleftrightarrow> \<not> dma_busy y)"

definition hci_ok :: "u8 \<Rightarrow> hci_sys \<Rightarrow> bool" where
  "hci_ok len_max y \<longleftrightarrow> port_ok len_max y \<and> tx_buff (sw y) \<noteq> None \<and> bit (dig (sw y) reg_uart_ctrl0) 5"

lemma tx_done_bit: "x AND FLD_UART_TX_DONE \<noteq> 0 \<longleftrightarrow> bit x 0" for x :: u8
proof -
  have "x AND FLD_UART_TX_DONE = (if bit x 0 then 1 else 0)"
  proof (rule bit_word_eqI)
    fix n show "bit (x AND FLD_UART_TX_DONE) n = bit (if bit x 0 then 1 else (0 :: u8)) n"
      by (cases n) (auto simp: FLD_UART_TX_DONE_def bit_simps BIT_def)
  qed
  then show ?thesis by simp
qed

lemma bytes_of_nat:
  assumes "n < (4294967296 :: nat)"
  shows "n mod 256 + 256 * (n div 256 mod 256) + 65536 * (n div 65536 mod 256) + 16777216 * (n div 16777216) = n"
proof -
  obtain p q r where pqr: "p = n div 256" "q = p div 256" "r = q div 256" by blast
  have d: "n div 65536 = q" "n div 16777216 = r" unfolding pqr by (simp_all add: div_mult2_eq [symmetric])
  have "n = 256 * p + n mod 256" "p = 256 * q + p mod 256" "q = 256 * r + q mod 256" unfolding pqr by simp_all
  then show ?thesis unfolding d pqr(1) [symmetric] by linarith
qed

lemma word_bytes_len:
  "unat (word_bytes w ! 0) + 256 * unat (word_bytes w ! 1) + 65536 * unat (word_bytes w ! 2) + 16777216 * unat (word_bytes w ! 3) = unat w"
  using bytes_of_nat [of "unat w"] less_mult_imp_div_less [of "unat w" 256 16777216] by (simp add: word_bytes_def unat_ucast_narrow unat_drop_bit_eq drop_bit_eq_div unat_div)

lemma dma_packet_bytes:
  assumes "length d + 4 \<le> length m" "length d < 4294967296"
  shows "dma_packet (wr_bytes (wr_bytes m 0 (word_bytes (of_nat (length d)))) 4 d) = d"
proof -
  have len: "unat (of_nat (length d) :: u32) = length d" using assms(2) by (simp add: unat_of_nat)
  have wl: "length (word_bytes w) = 4" for w by (simp add: word_bytes_def)
  have "wr_bytes (wr_bytes m 0 (word_bytes (of_nat (length d)))) 4 d = word_bytes (of_nat (length d)) @ d @ drop (4 + length d) m"
    using assms(1) by (simp add: wr_bytes_def wl add.commute)
  then show ?thesis using word_bytes_len [of "of_nat (length d)"] by (simp add: dma_packet_def nth_append wl len)
qed

lemma send_packet:
  assumes "port_ok len_max y" "tx_buff (sw y) = Some a" "\<not> dma_busy y" "length d \<le> unat len_max" "length d \<le> length data" "take (length d) data = d"
  shows "\<exists>s. uart_Send len_max data (of_nat (length d)) (sw y) = Some (1, s) \<and> hci_tx_fifo s = hci_tx_fifo (sw y) \<and>
    dma_packet (tx_ram s) = d \<and> length (tx_ram s) = length (tx_ram (sw y)) \<and> tx_buff s = tx_buff (sw y) \<and>
    bit (dig s reg_dma_tx_rdy0) 1 \<and> dig s reg_uart_ctrl0 = dig (sw y) reg_uart_ctrl0 \<and> dig s reg_uart_status1 = dig (sw y) reg_uart_status1"
proof -
  note a = assms(2)
  have small: "length d < 256" using assms(4) unat_less_256 [of len_max] by linarith
  then have len: "unat (of_nat (length d) :: u32) = length d" by (simp add: unat_of_nat)
  have le: "\<not> ucast len_max < (of_nat (length d) :: u32)" using assms(4) small by (simp add: word_less_nat_alt len)
  have wl: "length (word_bytes w) = 4" for w by (simp add: word_bytes_def)
  have room: "length d + 4 \<le> length (tx_ram (sw y))" "4 \<le> length (tx_ram (sw y))" using assms(1,4) by (auto simp: port_ok_def)
  have done_: "read_reg8 reg_uart_status1 (sw y) AND FLD_UART_TX_DONE \<noteq> 0"
    using assms(1,3) by (simp add: tx_done_bit port_ok_def read_reg8_def)
  have lw: "length (wr_bytes (wr_bytes (tx_ram (sw y)) 0 (word_bytes w)) 4 d) = length (tx_ram (sw y))" for w
    using room by (simp add: wl)
  show ?thesis
    using dma_packet_bytes [OF room(1)] small room
    by (simp add: uart_Send_def le a done_ put_bytes_def wl len assms(5,6) Let_def)
      (simp add: uart_regs uart_flds BM_SET_def write_reg16_def read_reg8_def write_reg8_plain w1c_def ro_def bit_simps a lw)
qed

section \<open>Every interleaving\<close>

definition hci_ledger :: "hci_sys \<Rightarrow> bool" where
  "hci_ledger y \<longleftrightarrow> accepted y = wire y @ in_flight y @ fifo_items (hci_tx_fifo (sw y))"

lemma push_effect:
  assumes "fifo_inv (hci_tx_fifo (sw y))" "my_fifo_push_hci_tx_fifo p n head hl (sw y) = (r, s)" "unat n \<le> length p" "unat hl \<le> length head"
  shows "\<exists>f. s = (sw y)\<lparr>hci_tx_fifo := f\<rparr> \<and> fifo_inv f \<and> fsize f = fsize (hci_tx_fifo (sw y)) \<and>
    fifo_items f = fifo_items (hci_tx_fifo (sw y)) @ (if r = 0 then [take (unat hl) head @ take (unat n) p] else [])"
proof -
  let ?f = "hci_tx_fifo (sw y)" and ?d = "take (unat hl) head @ take (unat n) p"
  have len: "length ?d = unat n + unat hl" using assms(3,4) by simp
  show ?thesis
  proof (cases "fifo_count ?f < unat (fnum ?f) \<and> unat n + unat hl + 2 \<le> unat (fsize ?f)")
    case True
    then have "r = 0" "s = (sw y)\<lparr>hci_tx_fifo := fifo_put ?f ?d\<rparr>"
      using assms(2) by (simp_all add: my_fifo_push_hci_tx_fifo_def my_fifo_push_eq [OF assms(3,4)])
    moreover have "fifo_inv (fifo_put ?f ?d)" "fifo_items (fifo_put ?f ?d) = fifo_items ?f @ [?d]"
      using True assms(1) len by (auto intro!: fifo_put_inv fifo_put_items)
    ultimately show ?thesis by (intro exI [of _ "fifo_put ?f ?d"]) simp
  next
    case False
    then have "r = -1" "s = sw y"
      using assms(2) by (auto simp: my_fifo_push_hci_tx_fifo_def my_fifo_push_eq [OF assms(3,4)])
    then show ?thesis using assms(1) by (intro exI [of _ ?f]) simp
  qed
qed

lemma push_keeps:
  assumes "hci_ok len_max y" "hci_ledger y" "my_fifo_push_hci_tx_fifo p n head hl (sw y) = (r, s)"
    "unat n \<le> length p" "unat hl \<le> length head"
    "z = y\<lparr>sw := s, accepted := accepted y @ (if r = 0 then [take (unat hl) head @ take (unat n) p] else [])\<rparr>"
  shows "hci_ok len_max z \<and> hci_ledger z"
  using push_effect [OF _ assms(3-5)] assms(1,2,6) by (auto simp: hci_ok_def port_ok_def hci_ledger_def in_flight_def)

lemma idle_start: "hci_ok len_max y \<Longrightarrow> dma_start y = y"
  by (simp add: dma_start_def hci_ok_def port_ok_def read_reg8_def Let_def)

lemma okD: "hci_ok len_max y \<Longrightarrow> port_ok len_max y"
  by (simp add: hci_ok_def)

lemma tx_busy: "port_ok len_max y \<Longrightarrow> uart_tx_is_busy (sw y) = dma_busy y"
  using tx_done_bit [of "dig (sw y) reg_uart_status1"] by (auto simp: uart_tx_is_busy_def read_reg8_def port_ok_def)

lemma poll_sends:
  assumes ok: "port_ok len_max y" and a: "tx_buff (sw y) = Some a" and nb: "\<not> dma_busy y" and cnt: "0 < fifo_count (hci_tx_fifo (sw y))"
  shows "\<exists>s. blc_hci_tx_to_uart len_max (sw y) = Some s \<and> hci_tx_fifo s = my_fifo_pop (hci_tx_fifo (sw y)) \<and>
    fifo_items (hci_tx_fifo (sw y)) = dma_packet (tx_ram s) # fifo_items (hci_tx_fifo s) \<and>
    length (tx_ram s) = length (tx_ram (sw y)) \<and> tx_buff s = tx_buff (sw y) \<and> bit (dig s reg_dma_tx_rdy0) 1 \<and>
    dig s reg_uart_ctrl0 = dig (sw y) reg_uart_ctrl0 \<and> dig s reg_uart_status1 = dig (sw y) reg_uart_status1"
proof -
  let ?f = "hci_tx_fifo (sw y)"
  have inv: "fifo_inv ?f" using ok by (simp add: port_ok_def)
  obtain off d where off: "off = fifo_slot ?f (rptr ?f)" and d: "d = fifo_packet_at (fbuf ?f) off" by blast
  have items: "fifo_items ?f = d # fifo_items (my_fifo_pop ?f)"
    by (simp add: fifo_items_def fifo_pop_live [OF cnt] off d) (simp add: my_fifo_pop_def)
  have fits: "fifo_len_at (fbuf ?f) off + 2 \<le> unat (fsize ?f)" using fifo_fits [OF inv cnt] by (simp add: off)
  have slot: "off + unat (fsize ?f) \<le> length (fbuf ?f)" using fifo_slot_in_buffer [OF inv] by (simp add: off)
  have len: "length d = fifo_len_at (fbuf ?f) off" using fits slot by (simp add: d fifo_packet_at_def rd_bytes_def)
  have take: "take (length d) (drop (off + 2) (fbuf ?f)) = d" unfolding len by (simp add: d fifo_packet_at_def rd_bytes_def)
  have "unat (fsize ?f) \<le> unat len_max + 2" using ok by (simp add: port_ok_def)
  then have le: "length d \<le> unat len_max" "length d \<le> length (drop (off + 2) (fbuf ?f))" using fits slot len by auto
  obtain t where t: "uart_Send len_max (drop (off + 2) (fbuf ?f)) (of_nat (length d)) (sw y) = Some (1, t)"
    "hci_tx_fifo t = ?f" "dma_packet (tx_ram t) = d" "length (tx_ram t) = length (tx_ram (sw y))" "tx_buff t = tx_buff (sw y)"
    "bit (dig t reg_dma_tx_rdy0) 1" "dig t reg_uart_ctrl0 = dig (sw y) reg_uart_ctrl0" "dig t reg_uart_status1 = dig (sw y) reg_uart_status1"
    using send_packet [OF ok a nb le take] by blast
  have "blc_hci_tx_to_uart len_max (sw y) = Some (t\<lparr>hci_tx_fifo := my_fifo_pop ?f\<rparr>)"
    using tx_busy [OF ok] nb cnt t(1,2) by (simp add: blc_hci_tx_to_uart_def my_fifo_get_eq off [symmetric] len [symmetric] Let_def)
  then show ?thesis using t(3-8) items by simp
qed

lemma poll_nothing:
  assumes "port_ok len_max y" "fifo_count (hci_tx_fifo (sw y)) = 0 \<or> dma_busy y"
  shows "blc_hci_tx_to_uart len_max (sw y) = Some (sw y)"
  using assms tx_busy [OF assms(1)] by (auto simp: blc_hci_tx_to_uart_def my_fifo_get_eq)

lemma poll_keeps:
  assumes ok: "hci_ok len_max y" "hci_ledger y" and p: "blc_hci_tx_to_uart len_max (sw y) = Some s"
  shows "hci_ok len_max (dma_start (y\<lparr>sw := s\<rparr>)) \<and> hci_ledger (dma_start (y\<lparr>sw := s\<rparr>))"
proof (cases "fifo_count (hci_tx_fifo (sw y)) = 0 \<or> dma_busy y")
  case True
  then show ?thesis using poll_nothing [OF okD(1) [OF ok(1)]] p ok idle_start [OF ok(1)] by auto
next
  case False
  let ?f = "hci_tx_fifo (sw y)"
  have cnt: "0 < fifo_count ?f" and nb: "\<not> dma_busy y" using False by auto
  obtain a where a: "tx_buff (sw y) = Some a" using ok(1) by (auto simp: hci_ok_def)
  have s: "hci_tx_fifo s = my_fifo_pop ?f" "fifo_items ?f = dma_packet (tx_ram s) # fifo_items (hci_tx_fifo s)"
    "length (tx_ram s) = length (tx_ram (sw y))" "tx_buff s = tx_buff (sw y)" "bit (dig s reg_dma_tx_rdy0) 1"
    "dig s reg_uart_ctrl0 = dig (sw y) reg_uart_ctrl0" "dig s reg_uart_status1 = dig (sw y) reg_uart_status1"
    using poll_sends [OF okD(1) [OF ok(1)] a nb cnt] p by auto
  have "fifo_inv (my_fifo_pop ?f)" "fsize (my_fifo_pop ?f) = fsize ?f"
    using ok(1) cnt by (simp_all add: hci_ok_def port_ok_def fifo_pop_inv) (simp add: my_fifo_pop_def)
  then show ?thesis
    using ok s nb by (simp add: dma_start_def Let_def hci_ok_def port_ok_def hci_ledger_def in_flight_def read_reg8_def uart_regs uart_flds bit_simps)
qed

lemma done_keeps: "hci_ok len_max y \<Longrightarrow> hci_ledger y \<Longrightarrow> hci_ok len_max (dma_done y) \<and> hci_ledger (dma_done y)"
  by (auto simp: dma_done_def Let_def hci_ok_def port_ok_def hci_ledger_def in_flight_def uart_regs uart_flds bit_simps)

lemma hci_reach_ok:
  assumes "hci_reach len_max y0 y" "hci_ok len_max y0" "hci_ledger y0"
  shows "hci_ok len_max y \<and> hci_ledger y"
  using assms
proof (induction rule: hci_reach.induct)
  case (step y z)
  then have "hci_ok len_max y" "hci_ledger y" by auto
  with step.hyps(2) show ?case by (elim hci_stepE) (auto dest: push_keeps poll_keeps done_keeps)
qed simp

text \<open>
C4: With the port initialised and its sending DMA enabled, in every order of pushes, polls and completed
transfers: the reports accepted so far are those sent on the line, then the one in flight, then those in the ring,
in order, none lost, duplicated or overwritten while it is being sent; the ring stays well formed.
\<close>

theorem hci_packets_in_order:
  assumes "hci_reach len_max y0 y" "hci_ok len_max y0" "accepted y0 = wire y0 @ in_flight y0 @ fifo_items (hci_tx_fifo (sw y0))"
  shows "accepted y = wire y @ in_flight y @ fifo_items (hci_tx_fifo (sw y)) \<and>
    fifo_inv (hci_tx_fifo (sw y)) \<and> fifo_count (hci_tx_fifo (sw y)) \<le> unat (fnum (hci_tx_fifo (sw y)))"
  using hci_reach_ok [OF assms(1,2)] assms(3) by (auto simp: hci_ledger_def hci_ok_def port_ok_def dest: fifo_count_le)

definition hci_demo :: hci_sys where
  "hci_demo = \<lparr>sw = \<lparr>dig = (\<lambda>a. if a = 0x96 then 0x3d else if a = 0x9e then 1 else 0), ana = (\<lambda>_. 0), g_bwpc = 0, g_uart_div = 0,
      tx_buff = Some 0x8000, tx_ram = replicate 20 0, uart_TxIndex = 0,
      hci_tx_fifo = \<lparr>fsize = 16, fnum = 2, wptr = 0, rptr = 0, fbuf = replicate 32 0\<rparr>\<rparr>,
    dma_busy = False, wire = [], accepted = []\<rparr>"

lemma hci_demo_ok: "hci_ok 14 hci_demo" "hci_ledger hci_demo"
  by code_simp+

definition hci_demo_pushed :: hci_sys where
  "hci_demo_pushed = (let (r, s) = my_fifo_push_hci_tx_fifo [7, 8, 9] 3 [0x91] 1 (sw hci_demo)
     in hci_demo\<lparr>sw := s, accepted := [[0x91, 7, 8, 9]]\<rparr>)"

lemma hci_demo_step: "hci_reach 14 hci_demo hci_demo_pushed"
proof (rule hci_reach.step [OF hci_reach.start])
  obtain r s where rs: "my_fifo_push_hci_tx_fifo [7, 8, 9] 3 [0x91] 1 (sw hci_demo) = (r, s)" by fastforce
  have r: "r = 0" using rs by (auto simp: my_fifo_push_hci_tx_fifo_def my_fifo_push_def hci_demo_def Let_def)
  have "hci_demo_pushed = hci_demo\<lparr>sw := s, accepted := accepted hci_demo @ (if r = 0 then [take (unat (1 :: u8)) [0x91] @ take (unat (3 :: u16)) [7, 8, 9]] else [])\<rparr>"
    using rs r by (simp add: hci_demo_pushed_def) (simp add: hci_demo_def)
  then show "hci_step 14 hci_demo hci_demo_pushed" using hci_step.push [OF rs] by simp
qed

lemma hci_packets_in_order_witness: "fifo_items (hci_tx_fifo (sw hci_demo_pushed)) = [[0x91, 7, 8, 9]]"
proof -
  have "accepted hci_demo_pushed = [[0x91, 7, 8, 9]]" "wire hci_demo_pushed = []" "\<not> dma_busy hci_demo_pushed"
    by (simp_all add: hci_demo_pushed_def hci_demo_def split: prod.splits)
  then show ?thesis
    using hci_packets_in_order [OF hci_demo_step hci_demo_ok(1)] hci_demo_ok(2) by (simp add: hci_ledger_def in_flight_def)
qed

section \<open>Draining\<close>

text \<open>The transfer in progress completes, then the program polls.\<close>

definition hci_round :: "u8 \<Rightarrow> hci_sys \<Rightarrow> hci_sys option" where
  "hci_round len_max y = (let y = dma_done y in
     map_option (\<lambda>s. dma_start (y\<lparr>sw := s\<rparr>)) (blc_hci_tx_to_uart len_max (sw y)))"

primrec hci_rounds :: "u8 \<Rightarrow> nat \<Rightarrow> hci_sys \<Rightarrow> hci_sys option" where
  "hci_rounds len_max 0 y = Some y"
| "hci_rounds len_max (Suc n) y = Option.bind (hci_round len_max y) (hci_rounds len_max n)"

lemma accepted_same [simp]: "accepted (dma_done y) = accepted y" "accepted (dma_start y) = accepted y"
  "hci_tx_fifo (sw (dma_done y)) = hci_tx_fifo (sw y)" "hci_tx_fifo (sw (dma_start y)) = hci_tx_fifo (sw y)"
  "dma_busy (dma_done y) = False"
  by (simp_all add: dma_done_def dma_start_def Let_def)

lemma round_progress:
  assumes "hci_ok len_max y" "hci_ledger y"
  shows "\<exists>z. hci_round len_max y = Some z \<and> hci_ok len_max z \<and> hci_ledger z \<and> accepted z = accepted y \<and>
    fifo_count (hci_tx_fifo (sw z)) = fifo_count (hci_tx_fifo (sw y)) - 1 \<and>
    (fifo_count (hci_tx_fifo (sw y)) = 0 \<longrightarrow> \<not> dma_busy z)"
proof -
  let ?y = "dma_done y"
  have ok: "hci_ok len_max ?y" "hci_ledger ?y" using done_keeps [OF assms] by auto
  show ?thesis
  proof (cases "fifo_count (hci_tx_fifo (sw y)) = 0")
    case True
    then have "blc_hci_tx_to_uart len_max (sw ?y) = Some (sw ?y)" using poll_nothing [OF okD(1) [OF ok(1)]] by simp
    then show ?thesis using True ok idle_start [OF ok(1)] by (simp add: hci_round_def Let_def)
  next
    case False
    then obtain s where s: "blc_hci_tx_to_uart len_max (sw ?y) = Some s" "hci_tx_fifo s = my_fifo_pop (hci_tx_fifo (sw y))"
      using poll_sends [OF okD(1) [OF ok(1)]] ok(1) by (auto simp: hci_ok_def)
    then show ?thesis using poll_keeps [OF ok s(1)] False by (simp add: hci_round_def Let_def fifo_pop_count)
  qed
qed

lemma rounds_drain:
  "hci_ok len_max y \<Longrightarrow> hci_ledger y \<Longrightarrow> fifo_count (hci_tx_fifo (sw y)) < n \<Longrightarrow>
    \<exists>z. hci_rounds len_max n y = Some z \<and> hci_ok len_max z \<and> hci_ledger z \<and> accepted z = accepted y \<and>
      fifo_count (hci_tx_fifo (sw z)) = 0 \<and> \<not> dma_busy z"
proof (induction n arbitrary: y)
  case (Suc n)
  obtain z where z: "hci_round len_max y = Some z" "hci_ok len_max z" "hci_ledger z" "accepted z = accepted y"
    "fifo_count (hci_tx_fifo (sw z)) = fifo_count (hci_tx_fifo (sw y)) - 1" "fifo_count (hci_tx_fifo (sw y)) = 0 \<longrightarrow> \<not> dma_busy z"
    using round_progress [OF Suc.prems(1,2)] by (elim exE conjE) (rule that)
  show ?case
  proof (cases n)
    case 0
    then show ?thesis using z Suc.prems(3) by simp
  next
    case (Suc k)
    have "fifo_count (hci_tx_fifo (sw z)) < n" using z(5) Suc.prems(3) Suc by linarith
    from Suc.IH [OF z(2,3) this] obtain w where "hci_rounds len_max n z = Some w" "hci_ok len_max w" "hci_ledger w"
      "accepted w = accepted z" "fifo_count (hci_tx_fifo (sw w)) = 0" "\<not> dma_busy w" by blast
    then show ?thesis using z(1,4) by simp
  qed
qed simp

text \<open>
C23: From every reachable state, one poll after each completed transfer empties the ring: after one round more than
there are reports in it, everything accepted has been sent on the line, in order.
\<close>

theorem hci_ring_drains:
  assumes "hci_reach len_max y0 y" "hci_ok len_max y0" "accepted y0 = wire y0 @ in_flight y0 @ fifo_items (hci_tx_fifo (sw y0))"
  shows "\<exists>z. hci_rounds len_max (fifo_count (hci_tx_fifo (sw y)) + 1) y = Some z \<and> wire z = accepted y"
proof -
  have ok: "hci_ok len_max y" "hci_ledger y" using hci_reach_ok [OF assms(1,2)] assms(3) by (simp_all add: hci_ledger_def)
  from rounds_drain [OF ok, of "fifo_count (hci_tx_fifo (sw y)) + 1"] obtain z where
    z: "hci_rounds len_max (fifo_count (hci_tx_fifo (sw y)) + 1) y = Some z" "hci_ledger z" "accepted z = accepted y"
      "fifo_count (hci_tx_fifo (sw z)) = 0" "\<not> dma_busy z" by auto
  then show ?thesis by (auto simp: hci_ledger_def in_flight_def fifo_items_def fifo_live_def)
qed

lemma hci_ring_drains_witness: "\<exists>z. hci_rounds 14 2 hci_demo_pushed = Some z \<and> wire z = [[0x91, 7, 8, 9]]"
proof -
  have "accepted hci_demo_pushed = [[0x91, 7, 8, 9]]" by (simp add: hci_demo_pushed_def hci_demo_def split: prod.splits)
  moreover have "fifo_count (hci_tx_fifo (sw hci_demo_pushed)) = 1" by code_simp
  ultimately show ?thesis
    using hci_ring_drains [OF hci_demo_step hci_demo_ok(1)] hci_demo_ok(2) by (simp add: hci_ledger_def numeral_2_eq_2)
qed

section \<open>A port that does not send\<close>

text \<open>What stays true as long as no buffer has been handed to the driver.\<close>

definition hci_jammed :: "u8 \<Rightarrow> u8 list list \<Rightarrow> hci_sys \<Rightarrow> bool" where
  "hci_jammed len_max w y \<longleftrightarrow> port_ok len_max y \<and> tx_buff (sw y) = None \<and> \<not> dma_busy y \<and> wire y = w \<and>
     accepted y = fifo_items (hci_tx_fifo (sw y))"

lemma poll_jammed:
  assumes "hci_jammed len_max w y"
  shows "blc_hci_tx_to_uart len_max (sw y) = Some (sw y)"
proof (cases "fifo_count (hci_tx_fifo (sw y)) = 0")
  case False
  let ?f = "hci_tx_fifo (sw y)"
  obtain off where off: "off = fifo_slot ?f (rptr ?f)" by blast
  have j: "fifo_inv ?f" "unat (fsize ?f) \<le> unat len_max + 2" "tx_buff (sw y) = None" "\<not> dma_busy y"
    using assms by (auto simp: hci_jammed_def port_ok_def)
  have "fifo_len_at (fbuf ?f) off + 2 \<le> unat (fsize ?f)" using fifo_fits [OF j(1), of 0] False by (simp add: off)
  then have le: "fifo_len_at (fbuf ?f) off \<le> unat len_max" "fifo_len_at (fbuf ?f) off < 256"
    using j(2) unat_less_256 [of len_max] by linarith+
  then have "\<not> ucast len_max < (of_nat (fifo_len_at (fbuf ?f) off) :: u32)" by (simp add: word_less_nat_alt unat_of_nat)
  then show ?thesis by (simp add: blc_hci_tx_to_uart_def my_fifo_get_eq off [symmetric] Let_def uart_Send_def j(3))
qed (simp add: blc_hci_tx_to_uart_def my_fifo_get_eq)

lemma jammed_start: "hci_jammed len_max w y \<Longrightarrow> dma_start y = y" "hci_jammed len_max w y \<Longrightarrow> dma_done y = y"
  by (simp_all add: dma_start_def dma_done_def hci_jammed_def port_ok_def read_reg8_def Let_def)

lemma jammed_step: "hci_step len_max y z \<Longrightarrow> hci_jammed len_max w y \<Longrightarrow> hci_jammed len_max w z"
proof (elim hci_stepE)
  fix p n head hl r s
  assume j: "hci_jammed len_max w y" and p: "my_fifo_push_hci_tx_fifo p n head hl (sw y) = (r, s)" "unat n \<le> length p" "unat hl \<le> length head"
    and z: "z = y\<lparr>sw := s, accepted := accepted y @ (if r = 0 then [take (unat hl) head @ take (unat n) p] else [])\<rparr>"
  from push_effect [OF _ p] j show "hci_jammed len_max w z" by (auto simp: z hci_jammed_def port_ok_def)
qed (use poll_jammed jammed_start in auto)

text \<open>
When the driver has not been initialised (\<open>user_init\<close> registers the poll but does not call \<open>uart_drv_init\<close>), no
report ever leaves the ring: in every reachable state the line has seen nothing new and the reports accepted are those
still in the ring, at most as many as it has slots.
\<close>

theorem uninitialised_port_jams:
  assumes "hci_reach len_max y0 y" "port_ok len_max y0" "tx_buff (sw y0) = None" "\<not> dma_busy y0"
    "accepted y0 = fifo_items (hci_tx_fifo (sw y0))"
  shows "wire y = wire y0 \<and> accepted y = fifo_items (hci_tx_fifo (sw y)) \<and> length (accepted y) \<le> unat (fnum (hci_tx_fifo (sw y)))"
proof -
  have "hci_jammed len_max (wire y0) y"
    using assms by (induction rule: hci_reach.induct) (auto simp: hci_jammed_def [of _ _ y0] intro: jammed_step)
  then show ?thesis by (auto simp: hci_jammed_def port_ok_def dest: fifo_count_le)
qed

lemma uart_drv_init_dma_off:
  "\<not> bit (dig (uart_drv_init rx_p rx tx_a buf s) reg_uart_ctrl0) 4 \<and> \<not> bit (dig (uart_drv_init rx_p rx tx_a buf s) reg_uart_ctrl0) 5"
  by (simp add: uart_drv_init_def Let_def dma_chn_irq_enable_def set_flag8_def dma_regs uart_regs uart_flds BM_SET_def BM_CLR_def irq_set_mask_def
      write_reg32_def write_reg16_def irq_regs uart_dma_enable_def read_reg8_def w1c_def ro_def bit_simps)

text \<open>
C34: After \<open>uart_drv_init\<close>, which disables both DMA directions of the port, a poll takes the oldest report out of the
ring, but no transfer starts: the report is lost.
\<close>

theorem drv_init_loses_reports:
  assumes "port_ok len_max y" "tx_buff (sw y) = Some a" "\<not> dma_busy y" "0 < fifo_count (hci_tx_fifo (sw y))"
    "dig (sw y) reg_uart_ctrl0 = dig (uart_drv_init rx_p rx tx_a buf u) reg_uart_ctrl0"
  shows "\<exists>s. blc_hci_tx_to_uart len_max (sw y) = Some s \<and>
    (let z = dma_start (y\<lparr>sw := s\<rparr>) in wire z = wire y \<and> \<not> dma_busy z \<and> tl (fifo_items (hci_tx_fifo (sw y))) = fifo_items (hci_tx_fifo (sw z)))"
proof -
  obtain s where s: "blc_hci_tx_to_uart len_max (sw y) = Some s" "fifo_items (hci_tx_fifo (sw y)) = dma_packet (tx_ram s) # fifo_items (hci_tx_fifo s)"
    "dig s reg_uart_ctrl0 = dig (sw y) reg_uart_ctrl0"
    using poll_sends [OF assms(1-4)] by auto
  have "\<not> bit (dig s reg_uart_ctrl0) 5" using uart_drv_init_dma_off [of rx_p rx tx_a buf u] s(3) assms(5) by simp
  then show ?thesis using s(1,2) assms(3) by (simp add: dma_start_def read_reg8_def Let_def)
qed

lemma ctrl0_uart_init: "dig (uart_init dv bwpc par sb s) 0x96 = bwpc"
  by (cases par) (simp_all add: uart_init_def uart_config_def Let_def uart_regs write_reg16_def BM_SET_def BM_CLR_def w1c_def ro_def)

lemma uart_drv_init_ctrl0: "dig (uart_drv_init rx_p rx tx_a buf s) reg_uart_ctrl0 = 13"
proof -
  have "(13 AND NOT (BIT 4)) AND NOT (BIT 5) = (13 :: u8)" by code_simp
  then show ?thesis
    by (simp add: uart_drv_init_def Let_def dma_chn_irq_enable_def set_flag8_def dma_regs uart_regs uart_flds BM_SET_def BM_CLR_def
        irq_set_mask_def write_reg32_def write_reg16_def irq_regs uart_dma_enable_def read_reg8_def w1c_def ro_def ctrl0_uart_init)
qed

definition hci_demo_off :: hci_sys where
  "hci_demo_off = hci_demo_pushed\<lparr>sw := (sw hci_demo_pushed)\<lparr>dig := (dig (sw hci_demo_pushed))(0x96 := 13)\<rparr>\<rparr>"

lemma drv_init_loses_reports_witness:
  "\<exists>s. blc_hci_tx_to_uart 14 (sw hci_demo_off) = Some s \<and> fifo_items (hci_tx_fifo (sw (dma_start (hci_demo_off\<lparr>sw := s\<rparr>)))) = [] \<and>
    wire (dma_start (hci_demo_off\<lparr>sw := s\<rparr>)) = []"
proof -
  have "port_ok 14 hci_demo_off" "tx_buff (sw hci_demo_off) = Some 0x8000" "\<not> dma_busy hci_demo_off"
    "0 < fifo_count (hci_tx_fifo (sw hci_demo_off))" "wire hci_demo_off = []" "dig (sw hci_demo_off) reg_uart_ctrl0 = 13"
    "tl (fifo_items (hci_tx_fifo (sw hci_demo_off))) = []"
    by code_simp+
  then show ?thesis using drv_init_loses_reports [where len_max = 14 and y = hci_demo_off and a = "0x8000" and u = "sw hci_demo" and rx = demo_fifo]
    by (auto simp: uart_drv_init_ctrl0 Let_def)
qed

lemma uninitialised_port_jams_witness:
  "wire hci_demo_pushed = [] \<and> length (fifo_items (hci_tx_fifo (sw hci_demo))) = 0 \<and>
   (\<exists>y. hci_reach 14 (hci_demo\<lparr>sw := (sw hci_demo)\<lparr>tx_buff := None\<rparr>\<rparr>) y \<and> length (accepted y) \<le> unat (fnum (hci_tx_fifo (sw y))))"
proof -
  let ?y = "hci_demo\<lparr>sw := (sw hci_demo)\<lparr>tx_buff := None\<rparr>\<rparr>"
  have "port_ok 14 ?y" "accepted ?y = fifo_items (hci_tx_fifo (sw ?y))" "tx_buff (sw ?y) = None" "\<not> dma_busy ?y"
    "wire hci_demo_pushed = []" "length (fifo_items (hci_tx_fifo (sw hci_demo))) = 0"
    by code_simp+
  then show ?thesis using uninitialised_port_jams [OF hci_reach.start, of 14 ?y] hci_reach.start [of 14 ?y] by metis
qed

end
