(* ===== verification/HciRx.thy ===== *)
theory HciRx
  imports HciUart
begin

text \<open>
  The receiving side of the host interface: the DMA writes a packet into a slot of \<open>hci_rx_fifo\<close> and raises the
  interrupt of \<open>irq_uart_handle\<close> (\<open>vendor/mesh/main.c\<close>), which moves the DMA on to the next slot; the main loop takes the
  oldest packet (\<open>blc_rx_from_uart\<close>, \<open>mesh_common.c\<close>) and hands it to \<open>app_hci_cmd_from_usb_handle\<close>. The command
  handlers of the mesh library are parameters. Arrivals, interrupts, polls and the rest of the program come in any order.
\<close>

section \<open>The program\<close>

record hci_rx_st = hci_st +
  hci_rx_fifo :: my_fifo
  uart_tx_irq :: u16
  uart_rx_irq :: u16
  app_uuu :: u32

definition reg_dma_rx_rdy0 :: nat where "reg_dma_rx_rdy0 = 0xc26"
definition FLD_DMA_CHN_UART_RX :: u8 where "FLD_DMA_CHN_UART_RX = BIT 0"

definition HCI_CMD_BULK_CMD2MODEL :: u16 where "HCI_CMD_BULK_CMD2MODEL = 0xFFA1"
definition HCI_CMD_BULK_SET_PAR :: u16 where "HCI_CMD_BULK_SET_PAR = 0xFFA2"
definition HCI_CMD_BULK_CMD2DEBUG :: u16 where "HCI_CMD_BULK_CMD2DEBUG = 0xFFA3"
definition HCI_CMD_BULK_SET_PAR2USB :: u16 where "HCI_CMD_BULK_SET_PAR2USB = 0xFFA8"
definition HCI_CMD_USER_DEFINE :: u16 where "HCI_CMD_USER_DEFINE = 0xFFE4"
definition HCI_CMD_PROVISION :: u16 where "HCI_CMD_PROVISION = 0xFEA0"
definition HCI_CMD_LEN :: nat where "HCI_CMD_LEN = 2"
definition PRO_BEACON :: u8 where "PRO_BEACON = 16"
definition LIGHT_CNT :: int where "LIGHT_CNT = 1"

lemmas hci_cmds_defs = HCI_CMD_BULK_CMD2MODEL_def HCI_CMD_BULK_SET_PAR_def HCI_CMD_BULK_CMD2DEBUG_def
  HCI_CMD_BULK_SET_PAR2USB_def HCI_CMD_USER_DEFINE_def HCI_CMD_PROVISION_def HCI_CMD_LEN_def PRO_BEACON_def LIGHT_CNT_def

text \<open>
  What the interface calls: the library's handlers, the unprovisioned beacon with its retries, the light, and the interrupt handler of
  the stack, which shares the interrupt.
\<close>

record 's hci_cmds =
  mesh_bulk_cmd2model :: "u8 list \<Rightarrow> u16 \<Rightarrow> 's \<Rightarrow> int \<times> 's"
  mesh_bulk_cmd :: "u8 list \<Rightarrow> u16 \<Rightarrow> 's \<Rightarrow> int \<times> 's"
  mesh_bulk_set_par :: "u8 list \<Rightarrow> u16 \<Rightarrow> 's \<Rightarrow> int \<times> 's"
  mesh_bulk_set_par2usb :: "u8 list \<Rightarrow> u16 \<Rightarrow> 's \<Rightarrow> int \<times> 's"
  unprov_beacon_send :: "u8 \<Rightarrow> u8 \<Rightarrow> 's \<Rightarrow> 's"
  send_rcv_retry_set :: "u8 \<Rightarrow> u8 \<Rightarrow> u8 \<Rightarrow> 's \<Rightarrow> 's"
  light_onoff_idx :: "int \<Rightarrow> int \<Rightarrow> int \<Rightarrow> 's \<Rightarrow> 's"
  irq_blt_sdk_handler :: "'s \<Rightarrow> 's"

definition app_led_en :: "'s hci_cmds \<Rightarrow> int \<Rightarrow> int \<Rightarrow> 's \<Rightarrow> 's" where
  "app_led_en hk idx en s = (if idx < LIGHT_CNT then light_onoff_idx hk idx en 1 s else s)"

definition mesh_provision_cmd_process :: "'s hci_cmds \<Rightarrow> 's \<Rightarrow> u8 \<times> 's" where
  "mesh_provision_cmd_process hk s = (1, send_rcv_retry_set hk PRO_BEACON 0 0 (unprov_beacon_send hk 1 0 s))"

text \<open>
  \<open>buff\<close> is the memory from the command on, \<open>n\<close> its length. \<open>GATEWAY_ENABLE\<close>, \<open>DEBUG_MESH_DONGLE_IN_VC_EN\<close> and
  \<open>TESTCASE_FLAG_ENABLE\<close> are 0, \<open>FEATURE_PROV_EN\<close> is 1 and \<open>PROXY_HCI_SEL\<close> is \<open>PROXY_HCI_GATT\<close>.
\<close>

definition app_hci_cmd_from_usb_handle ::
  "'a hci_rx_st_scheme hci_cmds \<Rightarrow> u8 list \<Rightarrow> int \<Rightarrow> 'a hci_rx_st_scheme \<Rightarrow> int \<times> 'a hci_rx_st_scheme" where
  "app_hci_cmd_from_usb_handle hk buff n s =
     (if n \<le> 2 then (-1, s)
      else let s = s\<lparr>app_uuu := app_uuu s + 1\<rparr>;
               type = mk16 (buff ! 1) (buff ! 0);
               hci_data = drop HCI_CMD_LEN buff;
               hci_data_len = of_int (n - int HCI_CMD_LEN)
           in if type = HCI_CMD_BULK_CMD2MODEL then mesh_bulk_cmd2model hk hci_data hci_data_len s
              else if type = HCI_CMD_BULK_CMD2DEBUG then mesh_bulk_cmd hk hci_data hci_data_len s
              else if type = HCI_CMD_BULK_SET_PAR then mesh_bulk_set_par hk hci_data hci_data_len s
              else if type = HCI_CMD_BULK_SET_PAR2USB then mesh_bulk_set_par2usb hk hci_data hci_data_len s
              else if type = HCI_CMD_PROVISION then (let (r, s) = mesh_provision_cmd_process hk s in (int (unat r), s))
              else if type = HCI_CMD_USER_DEFINE then (-1, app_led_en hk (uint (buff ! 4)) (uint (buff ! 5)) s)
              else (-1, s))"

text \<open>\<open>uart_data_t\<close>: a 32-bit length, low byte first, then the data.\<close>

definition uart_data_len :: "u8 list \<Rightarrow> nat \<Rightarrow> u32" where
  "uart_data_len b p = ucast (mk16 (b ! (p + 1)) (b ! p)) OR push_bit 16 (ucast (mk16 (b ! (p + 3)) (b ! (p + 2))))"

definition blc_rx_from_uart :: "'a hci_rx_st_scheme hci_cmds \<Rightarrow> 'a hci_rx_st_scheme \<Rightarrow> 'a hci_rx_st_scheme" where
  "blc_rx_from_uart hk s =
     (let s = snd (uart_ErrorCLR s) in
      case my_fifo_get (hci_rx_fifo s) of None \<Rightarrow> s
      | Some p \<Rightarrow>
          (let b = fbuf (hci_rx_fifo s); rx_len = uart_data_len b p AND 0xff in
           if rx_len \<noteq> 0 then
             (let s = snd (app_hci_cmd_from_usb_handle hk (drop (p + 4) b) (uint rx_len) s)
              in s\<lparr>hci_rx_fifo := my_fifo_pop (hci_rx_fifo s)\<rparr>)
           else s))"

text \<open>\<open>rx_p\<close> is the address of the ring's array.\<close>

definition irq_uart_handle :: "u32 \<Rightarrow> 'a hci_rx_st_scheme \<Rightarrow> 'a hci_rx_st_scheme" where
  "irq_uart_handle rx_p s =
     (let irqS = read_reg8 reg_dma_rx_rdy0 s;
          s = (if irqS AND FLD_DMA_CHN_UART_RX \<noteq> 0 then
                 (let s = write_reg8 reg_dma_rx_rdy0 FLD_DMA_CHN_UART_RX (s\<lparr>uart_rx_irq := uart_rx_irq s + 1\<rparr>);
                      f = hci_rx_fifo s
                  in if fbuf f ! fifo_slot f (wptr f) \<noteq> 0 then
                       (let f = my_fifo_next f
                        in write_reg16 reg_dma0_addr (ucast (rx_p + of_nat (fifo_slot f (wptr f)))) (s\<lparr>hci_rx_fifo := f\<rparr>))
                     else s)
               else s)
      in if irqS AND FLD_DMA_CHN_UART_TX \<noteq> 0 then
           write_reg8 reg_dma_rx_rdy0 FLD_DMA_CHN_UART_TX (s\<lparr>uart_tx_irq := uart_tx_irq s + 1\<rparr>)
         else s)"

text \<open>\<open>IRQ_TIMER1_ENABLE\<close>, \<open>IRQ_GPIO_ENABLE\<close> and \<open>DUAL_MODE_ADAPT_EN\<close> are 0.\<close>

definition irq_handler :: "'a hci_rx_st_scheme hci_cmds \<Rightarrow> u32 \<Rightarrow> 'a hci_rx_st_scheme \<Rightarrow> 'a hci_rx_st_scheme" where
  "irq_handler hk rx_p s = irq_uart_handle rx_p (irq_blt_sdk_handler hk s)"

section \<open>The system\<close>

text \<open>
  The receiving channel of the DMA: a packet is written with its length in front at the address of the channel, then the
  ready flag is raised. The ghost lists are the packets that arrived and those handed to the command handler.
\<close>

record 'a rx_sys =
  rsw :: "'a hci_rx_st_scheme"
  received :: "u8 list list"
  handed :: "u8 list list"

definition rx_flag :: "'a hci_rx_st_scheme \<Rightarrow> bool" where
  "rx_flag s = bit (dig s reg_dma_rx_rdy0) 0"

definition rx_dma :: "u32 \<Rightarrow> u8 list \<Rightarrow> 'a hci_rx_st_scheme \<Rightarrow> 'a hci_rx_st_scheme" where
  "rx_dma rx_p pkt s =
     (let off = unat (read_reg16 reg_dma0_addr s) - unat (ucast rx_p :: u16); f = hci_rx_fifo s
      in s\<lparr>hci_rx_fifo := f\<lparr>fbuf := wr_bytes (fbuf f) off (word_bytes (of_nat (length pkt)) @ pkt)\<rparr>,
           dig := (dig s)(reg_dma_rx_rdy0 := dig s reg_dma_rx_rdy0 OR FLD_DMA_CHN_UART_RX)\<rparr>)"

text \<open>A packet that the poll takes from offset \<open>off\<close>, the packets in the ring, and what one poll hands to the handler.\<close>

definition rx_packet_at :: "u8 list \<Rightarrow> nat \<Rightarrow> u8 list" where
  "rx_packet_at b off = rd_bytes b (off + 4) (unat (b ! off))"

definition rx_items :: "my_fifo \<Rightarrow> u8 list list" where
  "rx_items f = map (rx_packet_at (fbuf f)) (fifo_live f)"

lemma length_rx_items: "length (rx_items f) = fifo_count f"
  by (simp add: rx_items_def fifo_live_def)

definition rx_handed :: "'a hci_rx_st_scheme \<Rightarrow> u8 list list" where
  "rx_handed s = (case my_fifo_get (hci_rx_fifo s) of None \<Rightarrow> []
     | Some p \<Rightarrow> if fbuf (hci_rx_fifo s) ! p \<noteq> 0 then [rx_packet_at (fbuf (hci_rx_fifo s)) p] else [])"

definition rx_poll :: "'a hci_rx_st_scheme hci_cmds \<Rightarrow> 'a rx_sys \<Rightarrow> 'a rx_sys" where
  "rx_poll hk y = y\<lparr>rsw := blc_rx_from_uart hk (rsw y), handed := handed y @ rx_handed (rsw y)\<rparr>"

text \<open>What the receiving side is: its ring, the address of the DMA channel and its ready flag.\<close>

definition rx_view :: "'a hci_rx_st_scheme \<Rightarrow> my_fifo \<times> u8 \<times> u8 \<times> bool" where
  "rx_view s = (hci_rx_fifo s, dig s 0xc00, dig s 0xc01, rx_flag s)"

text \<open>
  A packet fits in a slot behind its length and is shorter than 256 bytes; while the flag is up the next one does not arrive,
  and \<open>rx_paced\<close> says that the host leaves one slot of the ring free for it.
\<close>

definition rx_fits :: "my_fifo \<Rightarrow> u8 list \<Rightarrow> bool" where
  "rx_fits f pkt \<longleftrightarrow> 0 < length pkt \<and> length pkt < 256 \<and> length pkt + 4 \<le> unat (fsize f)"

definition rx_paced :: "'a hci_rx_st_scheme \<Rightarrow> bool" where
  "rx_paced s \<longleftrightarrow> fifo_count (hci_rx_fifo s) < unat (fnum (hci_rx_fifo s))"

inductive rx_step :: "'a hci_rx_st_scheme hci_cmds \<Rightarrow> u32 \<Rightarrow> 'a rx_sys \<Rightarrow> 'a rx_sys \<Rightarrow> bool"
  for hk :: "'a hci_rx_st_scheme hci_cmds" and rx_p :: u32 where
  arrive: "\<not> rx_flag (rsw y) \<Longrightarrow> rx_fits (hci_rx_fifo (rsw y)) pkt \<Longrightarrow> rx_paced (rsw y) \<Longrightarrow>
    rx_step hk rx_p y (y\<lparr>rsw := rx_dma rx_p pkt (rsw y), received := received y @ [pkt]\<rparr>)"
| irq: "rx_step hk rx_p y (y\<lparr>rsw := irq_handler hk rx_p (rsw y)\<rparr>)"
| poll: "rx_step hk rx_p y (rx_poll hk y)"
| other: "rx_view s = rx_view (rsw y) \<Longrightarrow> rx_step hk rx_p y (y\<lparr>rsw := s\<rparr>)"

inductive rx_reach :: "'a hci_rx_st_scheme hci_cmds \<Rightarrow> u32 \<Rightarrow> 'a rx_sys \<Rightarrow> 'a rx_sys \<Rightarrow> bool"
  for hk :: "'a hci_rx_st_scheme hci_cmds" and rx_p :: u32 and y0 :: "'a rx_sys" where
  start: "rx_reach hk rx_p y0 y0"
| step: "rx_reach hk rx_p y0 y \<Longrightarrow> rx_step hk rx_p y z \<Longrightarrow> rx_reach hk rx_p y0 z"

inductive_cases rx_stepE: "rx_step hk rx_p y z"

section \<open>The command handlers\<close>

text \<open>What the receiving side relies on: neither a command nor the interrupt handler of the stack touches it.\<close>

locale command_handlers =
  fixes hk :: "'a hci_rx_st_scheme hci_cmds"
  assumes cmd2model: "rx_view (snd (mesh_bulk_cmd2model hk b n s)) = rx_view s"
    and bulk_cmd: "rx_view (snd (mesh_bulk_cmd hk b n s)) = rx_view s"
    and set_par: "rx_view (snd (mesh_bulk_set_par hk b n s)) = rx_view s"
    and set_par2usb: "rx_view (snd (mesh_bulk_set_par2usb hk b n s)) = rx_view s"
    and beacon: "rx_view (unprov_beacon_send hk m st s) = rx_view s"
    and retry: "rx_view (send_rcv_retry_set hk c bc ack s) = rx_view s"
    and light: "rx_view (light_onoff_idx hk idx on flg s) = rx_view s"
    and sdk: "rx_view (irq_blt_sdk_handler hk s) = rx_view s"
begin

lemma command_keeps_view: "rx_view (snd (app_hci_cmd_from_usb_handle hk b n s)) = rx_view s"
proof -
  have "rx_view (s\<lparr>app_uuu := k\<rparr>) = rx_view s" for k by (simp add: rx_view_def rx_flag_def)
  then show ?thesis
    by (simp add: app_hci_cmd_from_usb_handle_def Let_def cmd2model bulk_cmd set_par set_par2usb light app_led_en_def
        mesh_provision_cmd_process_def retry beacon)
qed

end

text \<open>
  Handlers that report what they were called with over \<open>hci_send_data_user\<close>, and that hold the beacon and the light back.
\<close>

definition report_cmd :: "u8 \<Rightarrow> u8 list \<Rightarrow> u16 \<Rightarrow> 'a hci_rx_st_scheme \<Rightarrow> int \<times> 'a hci_rx_st_scheme" where
  "report_cmd tag b n s =
     (let (r, f) = my_fifo_push (hci_tx_fifo s) b n [tag] 1 in (r, s\<lparr>hci_tx_fifo := f\<rparr>))"

definition report_cmds :: "'a hci_rx_st_scheme hci_cmds" where
  "report_cmds = \<lparr>mesh_bulk_cmd2model = report_cmd 0xa1, mesh_bulk_cmd = report_cmd 0xa3, mesh_bulk_set_par = report_cmd 0xa2,
     mesh_bulk_set_par2usb = report_cmd 0xa8, unprov_beacon_send = (\<lambda>_ _ s. s), send_rcv_retry_set = (\<lambda>_ _ _ s. s),
     light_onoff_idx = (\<lambda>_ _ _ s. s), irq_blt_sdk_handler = (\<lambda>s. s)\<rparr>"

lemma report_cmd_view: "rx_view (snd (report_cmd t b n s)) = rx_view s"
  by (simp add: report_cmd_def rx_view_def rx_flag_def split: prod.splits)

interpretation reports: command_handlers report_cmds
  by unfold_locales (simp_all add: report_cmds_def report_cmd_view)

section \<open>The invariant\<close>

definition rx_slot_ok :: "my_fifo \<Rightarrow> nat \<Rightarrow> bool" where
  "rx_slot_ok f off \<longleftrightarrow> fbuf f ! off \<noteq> 0 \<and> fbuf f ! (off + 1) = 0 \<and> unat (fbuf f ! off) + 4 \<le> unat (fsize f)"

definition rx_ok :: "u32 \<Rightarrow> 'a hci_rx_st_scheme \<Rightarrow> bool" where
  "rx_ok rx_p s \<longleftrightarrow> (let f = hci_rx_fifo s in
     fifo_inv f \<and> unat (ucast rx_p :: u16) + length (fbuf f) \<le> 65536 \<and>
     mk16 (dig s 0xc01) (dig s 0xc00) = ucast (rx_p + of_nat (fifo_slot f (wptr f))) \<and>
     list_all (rx_slot_ok f) (fifo_live f) \<and> (rx_flag s \<longrightarrow> rx_paced s \<and> rx_slot_ok f (fifo_slot f (wptr f))))"

text \<open>The packet that arrived and whose interrupt has not been served.\<close>

definition rx_waiting :: "'a hci_rx_st_scheme \<Rightarrow> u8 list list" where
  "rx_waiting s = (let f = hci_rx_fifo s in if rx_flag s then [rx_packet_at (fbuf f) (fifo_slot f (wptr f))] else [])"

definition rx_ledger :: "'a rx_sys \<Rightarrow> bool" where
  "rx_ledger y \<longleftrightarrow> received y = handed y @ rx_items (hci_rx_fifo (rsw y)) @ rx_waiting (rsw y)"

lemma rx_view_cong:
  assumes "rx_view s = rx_view u"
  shows "hci_rx_fifo s = hci_rx_fifo u" "rx_flag s = rx_flag u" "rx_ok rx_p s = rx_ok rx_p u" "rx_waiting s = rx_waiting u"
  using assms by (auto simp: rx_view_def rx_ok_def rx_waiting_def rx_paced_def Let_def)

lemma rx_dma_offset:
  assumes "unat (ucast rx_p :: u16) + k < 65536"
  shows "unat (ucast (rx_p + of_nat k :: u32) :: u16) - unat (ucast rx_p :: u16) = k"
proof -
  have "unat (rx_p + of_nat k) mod 65536 = (unat rx_p + k) mod 65536"
    by (simp add: unat_word_ariths unat_of_nat mod_mod_cancel mod_simps)
  also have "\<dots> = (unat rx_p mod 65536 + k) mod 65536" by (simp add: mod_simps)
  also have "\<dots> = unat rx_p mod 65536 + k" using assms by (simp add: unat_ucast_narrow)
  finally show ?thesis by (simp add: unat_ucast_narrow)
qed

lemma word_bytes_short: "n < 256 \<Longrightarrow> word_bytes (of_nat n) = [of_nat n, 0, 0, 0]"
proof -
  assume n: "n < 256"
  have u: "unat (of_nat n :: u32) = n" using n by (simp add: unat_of_nat)
  have "ucast (of_nat n :: u32) = (of_nat n :: u8)" by (rule word_unat_eq_iff [THEN iffD2]) (use n u in \<open>simp add: unat_ucast_narrow unat_of_nat\<close>)
  moreover have "drop_bit 8 (of_nat n :: u32) = 0" "drop_bit 16 (of_nat n :: u32) = 0" "drop_bit 24 (of_nat n :: u32) = 0"
    unfolding word_unat_eq_iff unat_drop_bit_eq u using n by (simp_all add: drop_bit_eq_div)
  ultimately show ?thesis by (simp add: word_bytes_def)
qed

lemma rx_okD:
  assumes "rx_ok rx_p s"
  shows "fifo_inv (hci_rx_fifo s)" "list_all (rx_slot_ok (hci_rx_fifo s)) (fifo_live (hci_rx_fifo s))"
    "rx_flag s \<Longrightarrow> rx_paced s \<and> rx_slot_ok (hci_rx_fifo s) (fifo_slot (hci_rx_fifo s) (wptr (hci_rx_fifo s)))"
  using assms by (auto simp: rx_ok_def Let_def)

text \<open>Where the DMA writes: the slot of the write pointer.\<close>

lemma rx_dma_slot:
  assumes "rx_ok rx_p s" "0 < unat (fsize (hci_rx_fifo s))"
  shows "unat (read_reg16 reg_dma0_addr s) - unat (ucast rx_p :: u16) = fifo_slot (hci_rx_fifo s) (wptr (hci_rx_fifo s))"
proof -
  let ?f = "hci_rx_fifo s"
  have "fifo_slot ?f (wptr ?f) + unat (fsize ?f) \<le> length (fbuf ?f)" using fifo_slot_in_buffer [OF rx_okD(1) [OF assms(1)]] .
  then have "unat (ucast rx_p :: u16) + fifo_slot ?f (wptr ?f) < 65536" using assms by (simp add: rx_ok_def Let_def)
  from rx_dma_offset [OF this] show ?thesis using assms(1) by (simp add: rx_ok_def Let_def read_reg16_def read_reg8_def uart_regs)
qed

section \<open>Arrival\<close>

lemma rx_write:
  assumes inv: "fifo_inv f" and fit: "rx_fits f pkt" and room: "fifo_count f < unat (fnum f)"
    and g: "g = f\<lparr>fbuf := wr_bytes (fbuf f) (fifo_slot f (wptr f)) (word_bytes (of_nat (length pkt)) @ pkt)\<rparr>"
  shows "fifo_inv g \<and> rx_slot_ok g (fifo_slot f (wptr f)) \<and> rx_packet_at (fbuf g) (fifo_slot f (wptr f)) = pkt \<and>
    fifo_live g = fifo_live f \<and> length (fbuf g) = length (fbuf f) \<and>
    (\<forall>off \<in> set (fifo_live f). rx_slot_ok f off \<longrightarrow> rx_slot_ok g off \<and> rx_packet_at (fbuf g) off = rx_packet_at (fbuf f) off)"
proof -
  let ?w = "fifo_slot f (wptr f)" and ?n = "length pkt"
  have n: "?n < 256" "0 < ?n" "?n + 4 \<le> unat (fsize f)" using fit by (auto simp: rx_fits_def)
  have bytes: "word_bytes (of_nat ?n) @ pkt = of_nat ?n # 0 # 0 # 0 # pkt" by (simp add: word_bytes_short [OF n(1)])
  have in_b: "?w + (?n + 4) \<le> length (fbuf f)" using fifo_slot_in_buffer [OF inv, of "wptr f"] n(3) by linarith
  then have nth: "fbuf g ! i = (if ?w \<le> i \<and> i < ?w + (?n + 4) then (of_nat ?n # 0 # 0 # 0 # pkt) ! (i - ?w) else fbuf f ! i)"
    if "i < length (fbuf f)" for i using that by (simp add: g bytes nth_wr_bytes)
  have len: "length (fbuf g) = length (fbuf f)" using in_b by (simp add: g bytes)
  have live: "fifo_live g = fifo_live f" by (simp add: g fifo_live_def fifo_count_def fifo_slot_def)
  have own: "fbuf g ! ?w = of_nat ?n" "fbuf g ! (?w + 1) = 0" using nth [of ?w] nth [of "?w + 1"] in_b by simp_all
  have un: "unat (of_nat ?n :: u8) = ?n" using n(1) by (simp add: unat_of_nat)
  have ok: "rx_slot_ok g ?w" using n un own by (simp add: rx_slot_ok_def g word_unat_eq_iff)
  have pkt: "rx_packet_at (fbuf g) ?w = pkt"
  proof -
    have "rd_bytes (fbuf g) (?w + 4) ?n = pkt"
      by (rule nth_equalityI) (use in_b len in \<open>auto simp: nth_rd_bytes nth\<close>)
    then show ?thesis using own(1) un by (simp add: rx_packet_at_def)
  qed
  have same: "fbuf g ! i = fbuf f ! i" if off: "off \<in> set (fifo_live f)" "off \<le> i" "i < off + unat (fsize f)" for off i
  proof -
    obtain k where k: "k < fifo_count f" "off = fifo_slot f (rptr f + of_nat k)" using off(1) by (auto simp: fifo_live_def)
    have "i < length (fbuf f)" using off(3) fifo_slot_in_buffer [OF inv, of "rptr f + of_nat k"] k(2) by linarith
    then show ?thesis using fifo_slots_disjoint [OF inv k(1) room] off n(3) k(2) by (auto simp: nth)
  qed
  have len_at: "fifo_len_at (fbuf g) off = fifo_len_at (fbuf f) off" if "off \<in> set (fifo_live f)" for off
    using same [OF that, of off] same [OF that, of "off + 1"] n(3) by (simp add: fifo_len_at_def)
  have others: "rx_slot_ok g off \<and> rx_packet_at (fbuf g) off = rx_packet_at (fbuf f) off"
    if off: "off \<in> set (fifo_live f)" and o: "rx_slot_ok f off" for off
  proof -
    obtain k where k: "k < fifo_count f" "off = fifo_slot f (rptr f + of_nat k)" using off by (auto simp: fifo_live_def)
    have b: "off + unat (fsize f) \<le> length (fbuf f)" using fifo_slot_in_buffer [OF inv] by (simp add: k(2))
    have l: "fbuf g ! off = fbuf f ! off" "fbuf g ! (off + 1) = fbuf f ! (off + 1)"
      using same [OF off, of off] same [OF off, of "off + 1"] n(3) by auto
    have fl: "unat (fbuf f ! off) + 4 \<le> unat (fsize f)" using o by (simp add: rx_slot_ok_def)
    have "rd_bytes (fbuf g) (off + 4) (unat (fbuf f ! off)) = rd_bytes (fbuf f) (off + 4) (unat (fbuf f ! off))"
      by (rule nth_equalityI) (use b fl len same [OF off] in \<open>auto simp: nth_rd_bytes\<close>)
    then show ?thesis using l o by (simp add: rx_packet_at_def rx_slot_ok_def g)
  qed
  have "fifo_inv g" using inv len len_at by (simp add: fifo_inv_def live list_all_iff) (simp add: g fifo_count_def)
  then show ?thesis using ok pkt live len others by simp
qed

lemma arrive_keeps:
  assumes ok: "rx_ok rx_p s" and nf: "\<not> rx_flag s" and fit: "rx_fits (hci_rx_fifo s) pkt" and room: "rx_paced s"
  shows "rx_ok rx_p (rx_dma rx_p pkt s) \<and> rx_items (hci_rx_fifo (rx_dma rx_p pkt s)) = rx_items (hci_rx_fifo s) \<and>
    rx_waiting s = [] \<and> rx_waiting (rx_dma rx_p pkt s) = [pkt]"
proof -
  let ?f = "hci_rx_fifo s"
  obtain g where g: "g = ?f\<lparr>fbuf := wr_bytes (fbuf ?f) (fifo_slot ?f (wptr ?f)) (word_bytes (of_nat (length pkt)) @ pkt)\<rparr>" by blast
  have "0 < unat (fsize ?f)" using fit by (auto simp: rx_fits_def)
  then have f': "hci_rx_fifo (rx_dma rx_p pkt s) = g" using rx_dma_slot [OF ok] by (simp add: rx_dma_def Let_def g)
  have d: "dig (rx_dma rx_p pkt s) 0xc00 = dig s 0xc00" "dig (rx_dma rx_p pkt s) 0xc01 = dig s 0xc01" "rx_flag (rx_dma rx_p pkt s)"
    by (simp_all add: rx_dma_def Let_def reg_dma_rx_rdy0_def rx_flag_def FLD_DMA_CHN_UART_RX_def bit_simps)
  have ptr: "wptr g = wptr ?f" "rptr g = rptr ?f" "fnum g = fnum ?f" "fsize g = fsize ?f" "fifo_slot g q = fifo_slot ?f q"
    "fifo_count g = fifo_count ?f" for q by (simp_all add: g fifo_slot_def fifo_count_def)
  have "fifo_count ?f < unat (fnum ?f)" using room by (simp add: rx_paced_def)
  note w = rx_write [OF rx_okD(1) [OF ok] fit this g]
  have live: "list_all (rx_slot_ok g) (fifo_live g)" using w rx_okD(2) [OF ok] by (simp add: list_all_iff)
  have "rx_items g = rx_items ?f" using w rx_okD(2) [OF ok] by (auto simp: rx_items_def list_all_iff)
  moreover have "rx_ok rx_p (rx_dma rx_p pkt s)"
    using ok w live room by (simp add: rx_ok_def Let_def f' d ptr rx_paced_def)
  ultimately show ?thesis using w nf by (simp add: f' rx_waiting_def Let_def d ptr)
qed

section \<open>Interrupt\<close>

lemma rx_bit: "x AND FLD_DMA_CHN_UART_RX \<noteq> 0 \<longleftrightarrow> bit x 0" for x :: u8
  using tx_done_bit [of x] by (simp add: FLD_DMA_CHN_UART_RX_def FLD_UART_TX_DONE_def)

lemma irq_view:
  "rx_view (irq_uart_handle rx_p s) =
     (let f = hci_rx_fifo s; a = ucast (rx_p + of_nat (fifo_slot f (wptr f + 1))) :: u16 in
      if rx_flag s \<and> fbuf f ! fifo_slot f (wptr f) \<noteq> 0 then (my_fifo_next f, lo8 a, hi8 a, False)
      else (f, dig s 0xc00, dig s 0xc01, False))"
proof -
  have b: "read_reg8 reg_dma_rx_rdy0 s AND FLD_DMA_CHN_UART_RX \<noteq> 0 \<longleftrightarrow> rx_flag s"
    by (simp add: rx_bit rx_flag_def read_reg8_def)
  show ?thesis
    by (simp add: irq_uart_handle_def Let_def b rx_view_def)
      (auto simp: rx_flag_def reg_dma_rx_rdy0_def w1c_def ro_def uart_regs FLD_DMA_CHN_UART_RX_def FLD_DMA_CHN_UART_TX_def
        write_reg16_def write_reg8_def stored_def bit_simps my_fifo_next_def fifo_slot_def)
qed

lemma irq_keeps:
  assumes ok: "rx_ok rx_p s"
  shows "rx_ok rx_p (irq_uart_handle rx_p s) \<and> rx_waiting (irq_uart_handle rx_p s) = [] \<and>
    rx_items (hci_rx_fifo (irq_uart_handle rx_p s)) = rx_items (hci_rx_fifo s) @ rx_waiting s"
proof (cases "rx_flag s")
  case False
  then have "rx_view (irq_uart_handle rx_p s) = rx_view s" by (simp add: irq_view Let_def) (simp add: rx_view_def)
  from rx_view_cong [OF this] ok False show ?thesis by (simp add: rx_waiting_def)
next
  case True
  let ?f = "hci_rx_fifo s" and ?s = "irq_uart_handle rx_p s"
  have room: "fifo_count ?f < unat (fnum ?f)" and slot: "rx_slot_ok ?f (fifo_slot ?f (wptr ?f))"
    using rx_okD(3) [OF ok True] by (auto simp: rx_paced_def)
  have v: "hci_rx_fifo ?s = my_fifo_next ?f" "\<not> rx_flag ?s"
    "mk16 (dig ?s 0xc01) (dig ?s 0xc00) = ucast (rx_p + of_nat (fifo_slot ?f (wptr ?f + 1)))"
    using irq_view [of rx_p s] True slot by (simp_all add: Let_def rx_view_def rx_slot_ok_def)
  have n: "fifo_count (my_fifo_next ?f) = Suc (fifo_count ?f)"
    using fifo_count_push [OF room rx_okD(1) [OF ok]] by (simp add: fifo_count_def my_fifo_next_def)
  have sl: "fifo_slot (my_fifo_next ?f) q = fifo_slot ?f q" "rx_slot_ok (my_fifo_next ?f) = rx_slot_ok ?f"
    "fbuf (my_fifo_next ?f) = fbuf ?f" "wptr (my_fifo_next ?f) = wptr ?f + 1" for q
    by (simp_all add: my_fifo_next_def fifo_slot_def rx_slot_ok_def fun_eq_iff)
  have live: "fifo_live (my_fifo_next ?f) = fifo_live ?f @ [fifo_slot ?f (wptr ?f)]"
    by (simp add: fifo_live_def n) (simp add: fifo_count_def my_fifo_next_def fifo_slot_def)
  have "fifo_len_at (fbuf ?f) (fifo_slot ?f (wptr ?f)) + 2 \<le> unat (fsize ?f)" using slot by (simp add: rx_slot_ok_def fifo_len_at_def)
  then have "fifo_inv (my_fifo_next ?f)"
    using rx_okD(1) [OF ok] room by (simp add: fifo_inv_def live n del: list.set) (simp add: my_fifo_next_def)
  then have "rx_ok rx_p ?s"
    using ok slot v by (simp add: rx_ok_def Let_def live sl)
  then show ?thesis using True v by (simp add: rx_waiting_def rx_items_def live Let_def sl)
qed

lemma uart_data_len_low: "uart_data_len b p AND 0xff = ucast (b ! p)"
proof (rule bit_word_eqI)
  fix n
  have ff: "(0xff :: u32) = mask 8" by (simp add: mask_eq_exp_minus_1)
  show "bit (uart_data_len b p AND 0xff) n = bit (ucast (b ! p) :: u32) n" if "n < LENGTH(32)"
    unfolding ff uart_data_len_def mk16_def by (auto simp: bit_simps dest: bit_imp_le_length)
qed

lemma error_clr_view: "rx_view (snd (uart_ErrorCLR s)) = rx_view s"
  by (simp add: uart_ErrorCLR_def uart_clear_parity_error_def BM_SET_def write_reg8_def uart_regs rx_view_def rx_flag_def reg_dma_rx_rdy0_def)

text \<open>One poll: the handler gets the oldest packet and its length, then the packet is dropped.\<close>

definition rx_call :: "'a hci_rx_st_scheme hci_cmds \<Rightarrow> u8 list \<Rightarrow> int \<Rightarrow> 'a hci_rx_st_scheme \<Rightarrow> 'a hci_rx_st_scheme" where
  "rx_call hk m n s = (let s = snd (app_hci_cmd_from_usb_handle hk m n (snd (uart_ErrorCLR s)))
     in s\<lparr>hci_rx_fifo := my_fifo_pop (hci_rx_fifo s)\<rparr>)"

lemma poll_eq:
  "blc_rx_from_uart hk s =
     (let f = hci_rx_fifo s; p = fifo_slot f (rptr f) in
      if fifo_count f = 0 \<or> fbuf f ! p = 0 then snd (uart_ErrorCLR s)
      else rx_call hk (drop (p + 4) (fbuf f)) (int (unat (fbuf f ! p))) s)"
proof -
  have f: "hci_rx_fifo (snd (uart_ErrorCLR s)) = hci_rx_fifo s" by (rule rx_view_cong(1) [OF error_clr_view])
  have u: "unat (ucast c :: u32) = unat c" for c :: u8
    using unat_less_256 [of c] by (simp add: unsigned_ucast_eq take_bit_eq_mod del: unat_less_256)
  have z: "uint (ucast c :: u32) = int (unat c)" "(ucast c = (0 :: u32)) = (c = 0)" for c :: u8
    by (simp_all only: uint_nat word_unat_eq_iff u unat_0)
  show ?thesis by (simp add: blc_rx_from_uart_def my_fifo_get_eq Let_def f uart_data_len_low z rx_call_def)
qed

lemma rx_oldest:
  assumes "rx_ok rx_p s" "0 < fifo_count (hci_rx_fifo s)" "f = hci_rx_fifo s" "p = fifo_slot f (rptr f)"
  shows "fbuf f ! p \<noteq> 0" "rx_items f = rx_packet_at (fbuf f) p # rx_items (my_fifo_pop f)"
    "length (rx_packet_at (fbuf f) p) = unat (fbuf f ! p)" "take (unat (fbuf f ! p)) (drop (p + 4) (fbuf f)) = rx_packet_at (fbuf f) p"
proof -
  have live: "fifo_live f = p # fifo_live (my_fifo_pop f)" using fifo_pop_live assms by simp
  then have ok: "rx_slot_ok f p" using rx_okD(2) [OF assms(1)] assms(3) by simp
  then show "fbuf f ! p \<noteq> 0" by (simp add: rx_slot_ok_def)
  show "rx_items f = rx_packet_at (fbuf f) p # rx_items (my_fifo_pop f)" by (simp add: rx_items_def live) (simp add: my_fifo_pop_def)
  have "p + unat (fsize f) \<le> length (fbuf f)" using fifo_slot_in_buffer [OF rx_okD(1) [OF assms(1)]] by (simp add: assms(3,4))
  then show "length (rx_packet_at (fbuf f) p) = unat (fbuf f ! p)" using ok by (simp add: rx_packet_at_def rx_slot_ok_def)
  show "take (unat (fbuf f ! p)) (drop (p + 4) (fbuf f)) = rx_packet_at (fbuf f) p" by (simp add: rx_packet_at_def rd_bytes_def)
qed

context command_handlers
begin

lemma call_view: "rx_view (rx_call hk m n s) = (my_fifo_pop (hci_rx_fifo s), dig s 0xc00, dig s 0xc01, rx_flag s)"
proof -
  have "rx_view (snd (app_hci_cmd_from_usb_handle hk m n (snd (uart_ErrorCLR s)))) = rx_view s"
    by (simp add: command_keeps_view error_clr_view)
  then show ?thesis by (simp add: rx_call_def Let_def rx_view_def rx_flag_def)
qed

lemma rx_poll_keeps:
  assumes ok: "rx_ok rx_p s"
  shows "rx_ok rx_p (blc_rx_from_uart hk s) \<and> rx_waiting (blc_rx_from_uart hk s) = rx_waiting s \<and>
    rx_items (hci_rx_fifo s) = rx_handed s @ rx_items (hci_rx_fifo (blc_rx_from_uart hk s))"
proof (cases "fifo_count (hci_rx_fifo s) = 0")
  case True
  then have "rx_view (blc_rx_from_uart hk s) = rx_view s" by (simp add: poll_eq Let_def error_clr_view)
  from rx_view_cong [OF this] ok True show ?thesis by (simp add: rx_handed_def my_fifo_get_eq)
next
  case False
  obtain f p where f: "f = hci_rx_fifo s" "p = fifo_slot f (rptr f)" by blast
  have cnt: "0 < fifo_count f" "0 < fifo_count (hci_rx_fifo s)" using False f by auto
  note old = rx_oldest [OF ok cnt(2) f]
  have "blc_rx_from_uart hk s = rx_call hk (drop (p + 4) (fbuf f)) (int (unat (fbuf f ! p))) s"
    using old(1) cnt by (simp add: poll_eq Let_def f [symmetric])
  with call_view have v: "rx_view (blc_rx_from_uart hk s) = (my_fifo_pop f, dig s 0xc00, dig s 0xc01, rx_flag s)"
    by (simp add: f(1))
  then have w: "hci_rx_fifo (blc_rx_from_uart hk s) = my_fifo_pop f" "dig (blc_rx_from_uart hk s) 0xc00 = dig s 0xc00"
    "dig (blc_rx_from_uart hk s) 0xc01 = dig s 0xc01" "rx_flag (blc_rx_from_uart hk s) = rx_flag s"
    by (simp_all add: rx_view_def)
  have pop: "fifo_slot (my_fifo_pop f) q = fifo_slot f q" "rx_slot_ok (my_fifo_pop f) = rx_slot_ok f" "wptr (my_fifo_pop f) = wptr f"
    "fbuf (my_fifo_pop f) = fbuf f" "fnum (my_fifo_pop f) = fnum f" for q
    by (simp_all add: my_fifo_pop_def fifo_slot_def rx_slot_ok_def fun_eq_iff)
  have pop_size: "fsize (my_fifo_pop f) = fsize f" by (simp add: my_fifo_pop_def)
  have live: "list_all (rx_slot_ok f) (fifo_live (my_fifo_pop f))"
    using rx_okD(2) [OF ok] fifo_pop_live [OF cnt(1)] f by simp
  have "rx_ok rx_p (blc_rx_from_uart hk s)"
    using ok cnt(1) live by (auto simp: rx_ok_def Let_def w pop f(1) [symmetric] rx_paced_def fifo_pop_inv fifo_pop_count pop_size)
  moreover have "rx_handed s = [rx_packet_at (fbuf f) p]" using old(1) cnt by (simp add: rx_handed_def my_fifo_get_eq f [symmetric])
  ultimately show ?thesis using old(2) w by (simp add: rx_waiting_def Let_def pop f(1) [symmetric])
qed

lemma handler_keeps:
  assumes "rx_ok rx_p s"
  shows "rx_ok rx_p (irq_handler hk rx_p s) \<and> rx_waiting (irq_handler hk rx_p s) = [] \<and>
    rx_items (hci_rx_fifo (irq_handler hk rx_p s)) = rx_items (hci_rx_fifo s) @ rx_waiting s"
  using irq_keeps [of rx_p "irq_blt_sdk_handler hk s"] assms rx_view_cong [OF sdk [of s]] by (simp add: irq_handler_def)

lemma step_keeps:
  assumes "rx_step hk rx_p y z" "rx_ok rx_p (rsw y)" "rx_ledger y"
  shows "rx_ok rx_p (rsw z) \<and> rx_ledger z"
  using assms(1)
proof (cases rule: rx_step.cases)
  case (arrive pkt)
  then show ?thesis using arrive_keeps [OF assms(2)] assms(3) by (simp add: rx_ledger_def)
next
  case irq
  then show ?thesis using handler_keeps [OF assms(2)] assms(3) by (simp add: rx_ledger_def)
next
  case poll
  then show ?thesis using rx_poll_keeps [OF assms(2)] assms(3) by (simp add: rx_ledger_def rx_poll_def)
next
  case (other s)
  then show ?thesis using rx_view_cong [OF other(2)] assms(2,3) by (simp add: rx_ledger_def)
qed

lemma reach_keeps:
  "rx_reach hk rx_p y0 y \<Longrightarrow> rx_ok rx_p (rsw y0) \<Longrightarrow> rx_ledger y0 \<Longrightarrow> rx_ok rx_p (rsw y) \<and> rx_ledger y"
  by (induction rule: rx_reach.induct) (auto dest: step_keeps)

end

section \<open>Properties\<close>

text \<open>
C5: In every order of arrivals, interrupts, polls and other work of the program, as long as the host leaves a slot free for each
packet it sends and the commands leave the receiving side alone: the packets that arrived are those handed to the command handler,
then those in the ring, then the one whose interrupt is pending, in order, none lost or changed. The next poll calls the
handler with the oldest packet and its length and drops it; a poll on an empty ring calls nothing.
\<close>

theorem hci_commands_in_order:
  assumes "command_handlers hk" "rx_reach hk rx_p y0 y" "rx_ok rx_p (rsw y0)"
    "received y0 = handed y0 @ rx_items (hci_rx_fifo (rsw y0)) @ rx_waiting (rsw y0)"
  shows "received y = handed y @ rx_items (hci_rx_fifo (rsw y)) @ rx_waiting (rsw y) \<and> fifo_inv (hci_rx_fifo (rsw y)) \<and>
    (case rx_items (hci_rx_fifo (rsw y)) of
       [] \<Rightarrow> blc_rx_from_uart hk (rsw y) = snd (uart_ErrorCLR (rsw y))
     | d # _ \<Rightarrow> (\<exists>m. take (length d) m = d \<and> blc_rx_from_uart hk (rsw y) = rx_call hk m (int (length d)) (rsw y)))"
proof -
  have ok: "rx_ok rx_p (rsw y)" "rx_ledger y"
    using command_handlers.reach_keeps [OF assms(1-3)] assms(4) by (auto simp: rx_ledger_def)
  obtain f p where f: "f = hci_rx_fifo (rsw y)" "p = fifo_slot f (rptr f)" by blast
  show ?thesis
  proof (cases "fifo_count f = 0")
    case True
    then have "rx_items f = []" by (simp add: rx_items_def fifo_live_def)
    then show ?thesis using True ok rx_okD(1) [OF ok(1)] by (simp add: rx_ledger_def poll_eq Let_def f(1))
  next
    case False
    then have cnt: "0 < fifo_count (hci_rx_fifo (rsw y))" by (simp add: f(1))
    note old = rx_oldest [OF ok(1) cnt f]
    have "blc_rx_from_uart hk (rsw y) = rx_call hk (drop (p + 4) (fbuf f)) (int (length (rx_packet_at (fbuf f) p))) (rsw y)"
      using old(1,3) False by (simp add: poll_eq Let_def f [symmetric])
    then show ?thesis using old(2-4) ok rx_okD(1) [OF ok(1)] by (auto simp: rx_ledger_def f(1) [symmetric])
  qed
qed

definition rx_demo :: "unit rx_sys" where
  "rx_demo = \<lparr>rsw = \<lparr>dig = (\<lambda>a. if a = 0xc00 then 0x10 else if a = 0xc01 then 0x90 else 0), ana = (\<lambda>_. 0), g_bwpc = 0, g_uart_div = 0,
      tx_buff = None, tx_ram = [], uart_TxIndex = 0, hci_tx_fifo = \<lparr>fsize = 16, fnum = 2, wptr = 0, rptr = 0, fbuf = replicate 32 0\<rparr>,
      hci_rx_fifo = \<lparr>fsize = 16, fnum = 2, wptr = 255, rptr = 255, fbuf = replicate 32 0\<rparr>, uart_tx_irq = 0, uart_rx_irq = 0, app_uuu = 0\<rparr>,
    received = [], handed = []\<rparr>"

lemma rx_demo_ok: "rx_ok 0x849000 (rsw rx_demo)" "rx_items (hci_rx_fifo (rsw rx_demo)) = []" "rx_waiting (rsw rx_demo) = []"
  "received rx_demo = []" "handed rx_demo = []" "\<not> rx_flag (rsw rx_demo)" "rx_paced (rsw rx_demo)"
  "rx_fits (hci_rx_fifo (rsw rx_demo)) [0xa3, 0xff, 7]"
  by (simp_all add: rx_demo_def rx_ok_def Let_def fifo_inv_def fifo_count_def fifo_live_def fifo_slot_def rx_flag_def reg_dma_rx_rdy0_def
      rx_items_def rx_waiting_def rx_paced_def rx_fits_def mk16_def)

definition rx_demo_arrived :: "unit rx_sys" where
  "rx_demo_arrived = rx_demo\<lparr>rsw := irq_handler report_cmds 0x849000 (rx_dma 0x849000 [0xa3, 0xff, 7] (rsw rx_demo)),
     received := received rx_demo @ [[0xa3, 0xff, 7]]\<rparr>"

lemma rx_demo_reach: "rx_reach report_cmds 0x849000 rx_demo rx_demo_arrived"
proof -
  obtain y where y: "y = rx_demo\<lparr>rsw := rx_dma 0x849000 [0xa3, 0xff, 7] (rsw rx_demo), received := received rx_demo @ [[0xa3, 0xff, 7]]\<rparr>" by blast
  have "rx_step report_cmds 0x849000 rx_demo y" unfolding y by (rule rx_step.arrive [OF rx_demo_ok(6,8,7)])
  moreover have "rx_demo_arrived = y\<lparr>rsw := irq_handler report_cmds 0x849000 (rsw y)\<rparr>"
    by (rule rx_sys.equality) (simp_all add: rx_demo_arrived_def y)
  then have "rx_step report_cmds 0x849000 y rx_demo_arrived" using rx_step.irq [of report_cmds "0x849000" y] by simp
  ultimately show ?thesis by (blast intro: rx_reach.intros)
qed

lemma rx_demo_state: "rx_waiting (rsw rx_demo_arrived) = []" "received rx_demo_arrived = [[0xa3, 0xff, 7]]" "handed rx_demo_arrived = []"
  "rx_items (hci_rx_fifo (rsw rx_demo_arrived)) = [[0xa3, 0xff, 7]]"
  using arrive_keeps [OF rx_demo_ok(1,6,8,7)] reports.handler_keeps [of "0x849000" "rx_dma 0x849000 [0xa3, 0xff, 7] (rsw rx_demo)"] rx_demo_ok
  by (simp_all add: rx_demo_arrived_def)

lemma hci_commands_in_order_witness:
  "\<exists>m. take 3 m = [0xa3, 0xff, 7] \<and> blc_rx_from_uart report_cmds (rsw rx_demo_arrived) = rx_call report_cmds m 3 (rsw rx_demo_arrived)"
  using hci_commands_in_order [OF reports.command_handlers_axioms rx_demo_reach rx_demo_ok(1)] by (simp add: rx_demo_ok rx_demo_state numeral_3_eq_3)

text \<open>The interrupt is served, then the main loop polls as often as there are packets.\<close>

primrec rx_polls :: "'a hci_rx_st_scheme hci_cmds \<Rightarrow> nat \<Rightarrow> 'a rx_sys \<Rightarrow> 'a rx_sys" where
  "rx_polls hk 0 y = y"
| "rx_polls hk (Suc n) y = rx_polls hk n (rx_poll hk y)"

lemma poll_pops:
  assumes "command_handlers hk" "rx_ok rx_p s"
  shows "fifo_count (hci_rx_fifo (blc_rx_from_uart hk s)) = fifo_count (hci_rx_fifo s) - 1"
proof -
  have "length (rx_handed s) \<le> 1" "0 < fifo_count (hci_rx_fifo s) \<Longrightarrow> rx_handed s \<noteq> []"
    using rx_oldest(1) [OF assms(2) _ refl refl] by (auto simp: rx_handed_def my_fifo_get_eq split: option.splits)
  moreover have "rx_handed s = []" if "fifo_count (hci_rx_fifo s) = 0" using that by (simp add: rx_handed_def my_fifo_get_eq)
  moreover note length_rx_items
  ultimately show ?thesis using arg_cong [OF command_handlers.rx_poll_keeps [OF assms, THEN conjunct2, THEN conjunct2], of length]
    by (cases "rx_handed s"; cases "fifo_count (hci_rx_fifo s)") auto
qed

lemma polls_hand_all:
  assumes "command_handlers hk"
  shows "rx_ok rx_p (rsw y) \<Longrightarrow> rx_ledger y \<Longrightarrow> rx_waiting (rsw y) = [] \<Longrightarrow> fifo_count (hci_rx_fifo (rsw y)) \<le> n \<Longrightarrow>
    handed (rx_polls hk n y) = received y"
proof (induction n arbitrary: y)
  case 0
  then show ?case by (simp add: rx_ledger_def rx_items_def fifo_live_def)
next
  case (Suc n)
  note k = command_handlers.step_keeps [OF assms rx_step.poll Suc.prems(1,2)]
  have "rx_waiting (rsw (rx_poll hk y)) = []" using command_handlers.rx_poll_keeps [OF assms Suc.prems(1)] Suc.prems(3) by (simp add: rx_poll_def)
  moreover have "fifo_count (hci_rx_fifo (rsw (rx_poll hk y))) \<le> n" using poll_pops [OF assms Suc.prems(1)] Suc.prems(4) by (simp add: rx_poll_def)
  ultimately show ?case using Suc.IH k by (simp add: rx_poll_def)
qed

text \<open>
From every reachable state, once the pending interrupt is served, one poll for each packet in the ring hands everything that arrived
to the command handler.
\<close>

theorem hci_commands_all_handed:
  assumes "command_handlers hk" "rx_reach hk rx_p y0 y" "rx_ok rx_p (rsw y0)"
    "received y0 = handed y0 @ rx_items (hci_rx_fifo (rsw y0)) @ rx_waiting (rsw y0)"
  shows "handed (rx_polls hk (length (rx_items (hci_rx_fifo (rsw y)) @ rx_waiting (rsw y))) (y\<lparr>rsw := irq_handler hk rx_p (rsw y)\<rparr>)) = received y"
proof -
  let ?z = "y\<lparr>rsw := irq_handler hk rx_p (rsw y)\<rparr>"
  have ok: "rx_ok rx_p (rsw y)" "rx_ledger y" using command_handlers.reach_keeps [OF assms(1-3)] assms(4) by (auto simp: rx_ledger_def)
  note k = command_handlers.step_keeps [OF assms(1) rx_step.irq ok] and i = command_handlers.handler_keeps [OF assms(1) ok(1)]
  have "fifo_count (hci_rx_fifo (rsw ?z)) \<le> length (rx_items (hci_rx_fifo (rsw y)) @ rx_waiting (rsw y))"
    using arg_cong [OF i [THEN conjunct2, THEN conjunct2], of length] by (simp add: length_rx_items)
  then show ?thesis using polls_hand_all [OF assms(1), of rx_p ?z] k i by simp
qed

lemma hci_commands_all_handed_witness: "handed (rx_polls report_cmds 1 (rx_demo_arrived\<lparr>rsw := irq_handler report_cmds 0x849000 (rsw rx_demo_arrived)\<rparr>)) = [[0xa3, 0xff, 7]]"
  using hci_commands_all_handed [OF reports.command_handlers_axioms rx_demo_reach rx_demo_ok(1)] by (simp add: rx_demo_ok rx_demo_state)

section \<open>A host that does not wait\<close>

text \<open>
  The next polls call the command handler with these packets, in this order and each with its length, and the poll
  after them calls nothing.
\<close>

primrec hands_over :: "'a hci_rx_st_scheme hci_cmds \<Rightarrow> u8 list list \<Rightarrow> 'a hci_rx_st_scheme \<Rightarrow> bool" where
  "hands_over hk [] s \<longleftrightarrow> blc_rx_from_uart hk s = snd (uart_ErrorCLR s)"
| "hands_over hk (d # ds) s \<longleftrightarrow>
     (\<exists>m. take (length d) m = d \<and> blc_rx_from_uart hk s = rx_call hk m (int (length d)) s) \<and>
     hands_over hk ds (blc_rx_from_uart hk s)"

definition rx_ready :: "my_fifo \<Rightarrow> nat \<Rightarrow> bool" where
  "rx_ready f off \<longleftrightarrow> rx_slot_ok f off \<and> off + unat (fsize f) \<le> length (fbuf f)"

text \<open>Also a ring that holds more than its bound is emptied packet by packet.\<close>

lemma ring_handed_over:
  assumes "command_handlers hk"
  shows "f = hci_rx_fifo s \<Longrightarrow> list_all (rx_ready f) (fifo_live f) \<Longrightarrow> hands_over hk (rx_items f) s"
proof (induction "fifo_count f" arbitrary: f s)
  case 0
  then show ?case by (simp add: rx_items_def fifo_live_def poll_eq Let_def)
next
  case (Suc n)
  have cnt: "0 < fifo_count f" using Suc.hyps(2) by simp
  obtain p where p: "p = fifo_slot f (rptr f)" by blast
  have live: "fifo_live f = p # fifo_live (my_fifo_pop f)" unfolding p by (rule fifo_pop_live [OF cnt])
  have same: "rx_ready (my_fifo_pop f) = rx_ready f" "rx_packet_at (fbuf (my_fifo_pop f)) = rx_packet_at (fbuf f)"
    by (simp_all add: my_fifo_pop_def rx_ready_def rx_slot_ok_def fun_eq_iff)
  have ok: "rx_ready f p" using Suc.prems(2) live by simp
  have items: "rx_items f = rx_packet_at (fbuf f) p # rx_items (my_fifo_pop f)" by (simp add: rx_items_def live same)
  have len: "length (rx_packet_at (fbuf f) p) = unat (fbuf f ! p)"
    using ok by (simp add: rx_packet_at_def rx_ready_def rx_slot_ok_def)
  have call: "blc_rx_from_uart hk s = rx_call hk (drop (p + 4) (fbuf f)) (int (length (rx_packet_at (fbuf f) p))) s"
    using ok cnt unfolding len poll_eq Let_def Suc.prems(1) [symmetric] p [symmetric]
    by (simp add: rx_ready_def rx_slot_ok_def)
  have "rx_view (blc_rx_from_uart hk s) = (my_fifo_pop f, dig s 0xc00, dig s 0xc01, rx_flag s)"
    unfolding call command_handlers.call_view [OF assms] Suc.prems(1) ..
  then have next': "my_fifo_pop f = hci_rx_fifo (blc_rx_from_uart hk s)" by (simp add: rx_view_def)
  have "n = fifo_count (my_fifo_pop f)" using Suc.hyps(2) fifo_pop_count [OF cnt] by simp
  from Suc.hyps(1) [OF this next'] have "hands_over hk (rx_items (my_fifo_pop f)) (blc_rx_from_uart hk s)"
    using Suc.prems(2) by (simp add: live same)
  moreover have "take (length (rx_packet_at (fbuf f) p)) (drop (p + 4) (fbuf f)) = rx_packet_at (fbuf f) p"
    by (simp only: len) (simp add: rx_packet_at_def rd_bytes_def)
  ultimately show ?case using call by (auto simp: items)
qed

text \<open>What the interrupt leaves when a packet arrived on a full ring.\<close>

lemma overrun_ring:
  assumes "rx_ok rx_p s" "fifo_count (hci_rx_fifo s) = unat (fnum (hci_rx_fifo s))" "rx_fits (hci_rx_fifo s) pkt"
    and "rx_view t = rx_view (rx_dma rx_p pkt s)"
  shows "rx_items (hci_rx_fifo (irq_uart_handle rx_p t)) = pkt # tl (rx_items (hci_rx_fifo s)) @ [pkt] \<and>
    list_all (rx_ready (hci_rx_fifo (irq_uart_handle rx_p t))) (fifo_live (hci_rx_fifo (irq_uart_handle rx_p t)))"
proof -
  obtain f where f: "f = hci_rx_fifo s" by blast
  have inv: "fifo_inv f" and full: "fifo_count f = unat (fnum f)" and fit: "rx_fits (my_fifo_pop f) pkt"
    using rx_okD(1) [OF assms(1)] assms(2,3) by (simp_all add: f rx_fits_def my_fifo_pop_def)
  have cnt: "0 < fifo_count f" using full fifo_num_pos [OF inv] by simp
  let ?w = "fifo_slot f (wptr f)"
  have pop: "fnum (my_fifo_pop f) = fnum f" "wptr (my_fifo_pop f) = wptr f" "fifo_slot (my_fifo_pop f) q = fifo_slot f q"
    "fbuf (my_fifo_pop f) = fbuf f" "rx_slot_ok (my_fifo_pop f) = rx_slot_ok f" for q
    by (simp_all add: my_fifo_pop_def fifo_slot_def rx_slot_ok_def fun_eq_iff)
  have room: "fifo_count (my_fifo_pop f) < unat (fnum (my_fifo_pop f))" using fifo_pop_count [OF cnt] cnt full by (simp add: pop)
  obtain b where b: "b = wr_bytes (fbuf f) ?w (word_bytes (of_nat (length pkt)) @ pkt)" by blast
  note w = rx_write [OF fifo_pop_inv [OF inv cnt] fit room refl, unfolded pop, folded b]
  have same: "?w = fifo_slot f (rptr f)" using fifo_slot_wptr [OF inv] fifo_slot_mod [OF inv, of "rptr f"] full by simp
  have slots: "\<forall>off \<in> set (fifo_live (my_fifo_pop f)). rx_packet_at b off = rx_packet_at (fbuf f) off"
    using w rx_okD(2) [OF assms(1)] fifo_pop_live [OF cnt] by (auto simp: f [symmetric] list_all_iff)
  have own: "rx_packet_at b ?w = pkt" "b ! ?w \<noteq> 0" using w by (auto simp: rx_slot_ok_def)
  obtain g where g: "g = f\<lparr>fbuf := b\<rparr>" by blast
  have "0 < unat (fsize (hci_rx_fifo s))" using assms(3) by (auto simp: rx_fits_def)
  then have d: "hci_rx_fifo (rx_dma rx_p pkt s) = g" "rx_flag (rx_dma rx_p pkt s)"
    using rx_dma_slot [OF assms(1)] by (simp_all add: rx_dma_def Let_def f [symmetric] g b reg_dma_rx_rdy0_def rx_flag_def FLD_DMA_CHN_UART_RX_def bit_simps)
  have gs: "fifo_slot g q = fifo_slot f q" "wptr g = wptr f" "fbuf g = b" for q by (simp_all add: g fifo_slot_def)
  have "hci_rx_fifo t = g" "rx_flag t" using d rx_view_cong(1,2) [OF assms(4)] by simp_all
  then have next': "hci_rx_fifo (irq_uart_handle rx_p t) = my_fifo_next g"
    using irq_view [of rx_p t] own by (simp add: Let_def rx_view_def gs)
  have lt: "fifo_count f < 255" using full fifo_num_dvd [OF inv] fifo_num_lt [OF inv] inv by (auto simp: fifo_inv_def)
  have "fifo_count (my_fifo_next g) = Suc (fifo_count f)"
  proof -
    have "wptr f + 1 - rptr f = (wptr f - rptr f) + 1" by simp
    then have "unat (wptr f + 1 - rptr f) = (fifo_count f + 1) mod 256" by (simp only: unat_add_u8 fifo_count_def) simp
    then show ?thesis using lt by (simp add: fifo_count_def g my_fifo_next_def)
  qed
  then have "fifo_live (my_fifo_next g) = fifo_live f @ [?w]"
    by (simp add: fifo_live_def) (simp add: fifo_count_def g my_fifo_next_def fifo_slot_def)
  then have live: "fifo_live (my_fifo_next g) = ?w # fifo_live (my_fifo_pop f) @ [?w]"
    unfolding fifo_pop_live [OF cnt] same by simp
  then have "rx_items (my_fifo_next g) = map (rx_packet_at b) (?w # fifo_live (my_fifo_pop f) @ [?w])"
    by (simp add: rx_items_def) (simp add: g my_fifo_next_def)
  also have "\<dots> = pkt # map (rx_packet_at (fbuf f)) (fifo_live (my_fifo_pop f)) @ [pkt]" using own slots by simp
  also have "\<dots> = pkt # tl (rx_items f) @ [pkt]" using fifo_pop_live [OF cnt] by (simp add: rx_items_def)
  finally have items: "rx_items (my_fifo_next g) = pkt # tl (rx_items f) @ [pkt]" .
  have eq: "rx_slot_ok (my_fifo_next g) = rx_slot_ok ((my_fifo_pop f)\<lparr>fbuf := b\<rparr>)"
    by (simp add: fun_eq_iff rx_slot_ok_def g my_fifo_next_def my_fifo_pop_def)
  have ready: "rx_ready (my_fifo_next g) off" if "rx_slot_ok (my_fifo_next g) off" "off = fifo_slot f q" for off q
    using that fifo_slot_in_buffer [OF inv, of q] w by (simp add: rx_ready_def g my_fifo_next_def)
  have "rx_slot_ok (my_fifo_next g) off" if "off \<in> set (fifo_live (my_fifo_next g))" for off
    using that w rx_okD(2) [OF assms(1)] fifo_pop_live [OF cnt] unfolding eq live
    by (auto simp: f [symmetric] list_all_iff)
  moreover have "\<exists>q. off = fifo_slot f q" if "off \<in> set (fifo_live (my_fifo_next g))" for off
    using that unfolding live by (auto simp: fifo_live_def pop)
  ultimately have "list_all (rx_ready (my_fifo_next g)) (fifo_live (my_fifo_next g))"
    using ready unfolding list_all_iff by blast
  then show ?thesis using items by (simp add: next' f [symmetric])
qed

text \<open>
C33: When the ring is full and another packet arrives, it overwrites the oldest unread packet, and the interrupt moves on all the
same: that packet is lost, and the following polls call the command handler with the new packet, then with the remaining old
ones, and then with the new packet once more.
\<close>

theorem full_ring_overrun:
  assumes "command_handlers hk" "rx_ok rx_p s" "fifo_count (hci_rx_fifo s) = unat (fnum (hci_rx_fifo s))"
    and "rx_fits (hci_rx_fifo s) pkt"
  defines "z \<equiv> irq_handler hk rx_p (rx_dma rx_p pkt s)"
    and "ds \<equiv> pkt # tl (rx_items (hci_rx_fifo s)) @ [pkt]"
  shows "rx_items (hci_rx_fifo z) = ds \<and> hands_over hk ds z"
proof -
  have "rx_view (irq_blt_sdk_handler hk (rx_dma rx_p pkt s)) = rx_view (rx_dma rx_p pkt s)"
    by (rule command_handlers.sdk [OF assms(1)])
  note o = overrun_ring [OF assms(2-4) this, folded irq_handler_def, folded z_def ds_def]
  then show ?thesis using ring_handed_over [OF assms(1) refl, of z] by simp
qed

definition rx_demo_full :: "unit hci_rx_st_scheme" where
  "rx_demo_full = (rsw rx_demo)\<lparr>hci_rx_fifo := \<lparr>fsize = 16, fnum = 2, wptr = 1, rptr = 255,
     fbuf = [2, 0, 0, 0, 5, 6] @ replicate 10 0 @ [1, 0, 0, 0, 4] @ replicate 11 0\<rparr>\<rparr>"

lemma full_ring_overrun_witness:
  "rx_items (hci_rx_fifo rx_demo_full) = [[4], [5, 6]] \<and>
   hands_over report_cmds [[7, 8, 9], [5, 6], [7, 8, 9]]
     (irq_handler report_cmds 0x849000 (rx_dma 0x849000 [7, 8, 9] rx_demo_full))"
proof -
  have live: "fifo_live (hci_rx_fifo rx_demo_full) = [16, 0]"
  proof -
    have "[0..<2] = [0, 1 :: nat]" by (simp add: upt_rec)
    then show ?thesis by (simp add: rx_demo_full_def fifo_live_def fifo_count_def fifo_slot_def)
  qed
  have "rx_packet_at (fbuf (hci_rx_fifo rx_demo_full)) 16 = [4]" "rx_packet_at (fbuf (hci_rx_fifo rx_demo_full)) 0 = [5, 6]" by code_simp+
  then have "rx_items (hci_rx_fifo rx_demo_full) = [[4], [5, 6]]" by (simp add: rx_items_def live)
  moreover have "rx_ok 0x849000 rx_demo_full" unfolding rx_ok_def Let_def fifo_inv_def live
    by (simp add: rx_demo_full_def rx_demo_def fifo_count_def fifo_slot_def rx_flag_def reg_dma_rx_rdy0_def rx_slot_ok_def fifo_len_at_def mk16_def
        nth_append)
  moreover have "fifo_count (hci_rx_fifo rx_demo_full) = unat (fnum (hci_rx_fifo rx_demo_full))" "rx_fits (hci_rx_fifo rx_demo_full) [7, 8, 9]"
    by (simp_all add: rx_demo_full_def fifo_count_def rx_fits_def)
  ultimately show ?thesis using full_ring_overrun [OF reports.command_handlers_axioms, of "0x849000" rx_demo_full "[7, 8, 9]"] by simp
qed

end
