(* ===== verification/I2c.thy ===== *)
theory I2c
  imports Gpio
begin

text \<open>
  The I2C driver (\<open>drivers/8258/i2c.c\<close>, \<open>i2c.h\<close>) at the level of the bus. A write to the control register
  puts the conditions and bytes it names on the bus, in the fixed order start, id, address, the two
  data registers, stop; a device given by its reactions to the bus sees them and supplies the bytes
  that are read. Like the analog access, a command is complete when it has been written, so the busy
  bit is never seen set.
\<close>

section \<open>The bus\<close>

text \<open>A byte that is read carries the \<open>FLD_I2C_CMD_ACK\<close> bit of its command.\<close>

datatype i2c_event = I2C_START | I2C_BYTE u8 | I2C_READ u8 bool | I2C_STOP

record 'd i2c_mcu = mcu +
  i2c_bus :: "i2c_event list"
  i2c_dev :: 'd

text \<open>A device: the byte it drives next, and its state after an event.\<close>

record 'd i2c_device =
  dv_out :: "'d \<Rightarrow> u8"
  dv_step :: "'d \<Rightarrow> i2c_event \<Rightarrow> 'd"

definition bus_put :: "'d i2c_device \<Rightarrow> i2c_event \<Rightarrow> 'd i2c_mcu \<Rightarrow> 'd i2c_mcu" where
  "bus_put D e s = s\<lparr>i2c_bus := i2c_bus s @ [e], i2c_dev := dv_step D (i2c_dev s) e\<rparr>"

definition reg_i2c_speed :: nat where "reg_i2c_speed = 0x00"
definition reg_i2c_id :: nat where "reg_i2c_id = 0x01"
definition reg_i2c_mode :: nat where "reg_i2c_mode = 0x03"
definition reg_i2c_adr :: nat where "reg_i2c_adr = 0x04"
definition reg_i2c_do :: nat where "reg_i2c_do = 0x05"
definition reg_i2c_di :: nat where "reg_i2c_di = 0x06"
definition reg_i2c_ctrl :: nat where "reg_i2c_ctrl = 0x07"
definition reg_spi_sp :: nat where "reg_spi_sp = 0x0a"
definition reg_i2c_rst0 :: nat where "reg_i2c_rst0 = 0x60"
definition reg_clk_en0 :: nat where "reg_clk_en0 = 0x63"
definition reg_i2c_slave_map_addrl :: nat where "reg_i2c_slave_map_addrl = 0xe1"
definition reg_i2c_slave_map_addrm :: nat where "reg_i2c_slave_map_addrm = 0xe2"
definition reg_i2c_slave_map_addrh :: nat where "reg_i2c_slave_map_addrh = 0xe3"
definition reg_pin_i2c_spi_en :: nat where "reg_pin_i2c_spi_en = 0x5b7"

definition FLD_I2C_WRITE_READ_BIT :: u8 where "FLD_I2C_WRITE_READ_BIT = BIT 0"
definition FLD_I2C_ADDR_AUTO_ADD :: u8 where "FLD_I2C_ADDR_AUTO_ADD = BIT 0"
definition FLD_I2C_MASTER_EN :: u8 where "FLD_I2C_MASTER_EN = BIT 1"
definition FLD_I2C_SLAVE_MAPPING :: u8 where "FLD_I2C_SLAVE_MAPPING = BIT 2"
definition FLD_I2C_CMD_ID :: u8 where "FLD_I2C_CMD_ID = BIT 0"
definition FLD_I2C_CMD_ADDR :: u8 where "FLD_I2C_CMD_ADDR = BIT 1"
definition FLD_I2C_CMD_DO :: u8 where "FLD_I2C_CMD_DO = BIT 2"
definition FLD_I2C_CMD_DI :: u8 where "FLD_I2C_CMD_DI = BIT 3"
definition FLD_I2C_CMD_START :: u8 where "FLD_I2C_CMD_START = BIT 4"
definition FLD_I2C_CMD_STOP :: u8 where "FLD_I2C_CMD_STOP = BIT 5"
definition FLD_I2C_CMD_READ_ID :: u8 where "FLD_I2C_CMD_READ_ID = BIT 6"
definition FLD_I2C_CMD_ACK :: u8 where "FLD_I2C_CMD_ACK = BIT 7"
definition FLD_CLK0_I2C_EN :: u8 where "FLD_CLK0_I2C_EN = BIT 1"
definition FLD_RST0_I2C :: u8 where "FLD_RST0_I2C = BIT 1"
definition FLD_SPI_ENABLE :: u8 where "FLD_SPI_ENABLE = BIT 7"
definition FLD_PIN_PA3_SPI_EN :: u8 where "FLD_PIN_PA3_SPI_EN = BIT 0"
definition FLD_PIN_PA4_SPI_EN :: u8 where "FLD_PIN_PA4_SPI_EN = BIT 1"
definition FLD_PIN_PB6_SPI_EN :: u8 where "FLD_PIN_PB6_SPI_EN = BIT 2"
definition FLD_PIN_PD7_SPI_EN :: u8 where "FLD_PIN_PD7_SPI_EN = BIT 3"
definition FLD_PIN_PA3_I2C_EN :: u8 where "FLD_PIN_PA3_I2C_EN = BIT 4"
definition FLD_PIN_PA4_I2C_EN :: u8 where "FLD_PIN_PA4_I2C_EN = BIT 5"
definition FLD_PIN_PB6_I2C_EN :: u8 where "FLD_PIN_PB6_I2C_EN = BIT 6"
definition FLD_PIN_PD7_I2C_EN :: u8 where "FLD_PIN_PD7_I2C_EN = BIT 7"

lemmas i2c_regs = reg_i2c_speed_def reg_i2c_id_def reg_i2c_mode_def reg_i2c_adr_def reg_i2c_do_def reg_i2c_di_def reg_i2c_ctrl_def
  reg_spi_sp_def reg_i2c_rst0_def reg_clk_en0_def reg_i2c_slave_map_addrl_def reg_i2c_slave_map_addrm_def reg_i2c_slave_map_addrh_def
  reg_pin_i2c_spi_en_def
lemmas i2c_cmds = FLD_I2C_CMD_ID_def FLD_I2C_CMD_ADDR_def FLD_I2C_CMD_DO_def FLD_I2C_CMD_DI_def FLD_I2C_CMD_START_def
  FLD_I2C_CMD_STOP_def FLD_I2C_CMD_READ_ID_def FLD_I2C_CMD_ACK_def

text \<open>\<open>reg_i2c_ctrl = v\<close> with what the controller does with it.\<close>

definition i2c_data_phase :: "'d i2c_device \<Rightarrow> u8 \<Rightarrow> 'd i2c_mcu \<Rightarrow> 'd i2c_mcu" where
  "i2c_data_phase D v s =
     (if bit v 6 then
        let r = dv_out D (i2c_dev s) in write_reg8 reg_i2c_di r (bus_put D (I2C_READ r (bit v 7)) s)
      else bus_put D (I2C_BYTE (read_reg8 reg_i2c_di s)) s)"

definition i2c_command :: "'d i2c_device \<Rightarrow> u8 \<Rightarrow> 'd i2c_mcu \<Rightarrow> 'd i2c_mcu" where
  "i2c_command D v s =
     (let s = write_reg8 reg_i2c_ctrl v s;
          s = (if bit v 4 then bus_put D I2C_START s else s);
          s = (if bit v 0 then bus_put D (I2C_BYTE (read_reg8 reg_i2c_id s)) s else s);
          s = (if bit v 1 then bus_put D (I2C_BYTE (read_reg8 reg_i2c_adr s)) s else s);
          s = (if bit v 2 then bus_put D (I2C_BYTE (read_reg8 reg_i2c_do s)) s else s);
          s = (if bit v 3 then i2c_data_phase D v s else s)
      in if bit v 5 then bus_put D I2C_STOP s else s)"

section \<open>Set-up\<close>

datatype i2c_gpio_group = I2C_GPIO_GROUP_A3A4 | I2C_GPIO_GROUP_B6D7 | I2C_GPIO_GROUP_C0C1 | I2C_GPIO_GROUP_C2C3

datatype i2c_slave_mode = I2C_SLAVE_DMA | I2C_SLAVE_MAP

definition i2c_gpio_set :: "i2c_gpio_group \<Rightarrow> 'a mcu_scheme \<Rightarrow> 'a mcu_scheme" where
  "i2c_gpio_set i2c_pin_group s =
     (let (sda, scl, s) = (case i2c_pin_group of
            I2C_GPIO_GROUP_A3A4 \<Rightarrow> (GPIO_PA3, GPIO_PA4, BM_CLR reg_pin_i2c_spi_en (FLD_PIN_PA3_SPI_EN OR FLD_PIN_PA4_SPI_EN)
               (BM_SET reg_pin_i2c_spi_en (FLD_PIN_PA3_I2C_EN OR FLD_PIN_PA4_I2C_EN) s))
          | I2C_GPIO_GROUP_B6D7 \<Rightarrow> (GPIO_PB6, GPIO_PD7, BM_CLR reg_pin_i2c_spi_en (FLD_PIN_PB6_SPI_EN OR FLD_PIN_PD7_SPI_EN)
               (BM_SET reg_pin_i2c_spi_en (FLD_PIN_PB6_I2C_EN OR FLD_PIN_PD7_I2C_EN) s))
          | I2C_GPIO_GROUP_C0C1 \<Rightarrow> (GPIO_PC0, GPIO_PC1, s)
          | I2C_GPIO_GROUP_C2C3 \<Rightarrow> (GPIO_PC2, GPIO_PC3, s));
          s = gpio_setup_up_down_resistor sda (pull_val PM_PIN_PULLUP_10K) s;
          s = gpio_setup_up_down_resistor scl (pull_val PM_PIN_PULLUP_10K) s;
          s = gpio_set_func scl AS_I2C (gpio_set_func sda AS_I2C s)
      in gpio_set_input_en scl True (gpio_set_input_en sda True s))"

definition i2c_master_init :: "u8 \<Rightarrow> u8 \<Rightarrow> 'a mcu_scheme \<Rightarrow> 'a mcu_scheme" where
  "i2c_master_init SlaveID DivClock s =
     (let s = write_reg8 reg_i2c_speed DivClock s;
          s = write_reg8 reg_i2c_id SlaveID s;
          s = BM_SET reg_i2c_mode FLD_I2C_MASTER_EN s;
          s = BM_SET reg_clk_en0 FLD_CLK0_I2C_EN s
      in BM_CLR reg_spi_sp FLD_SPI_ENABLE s)"

definition i2c_slave_mapping_mode_data_buffer_config :: "u32 \<Rightarrow> 'a mcu_scheme \<Rightarrow> 'a mcu_scheme" where
  "i2c_slave_mapping_mode_data_buffer_config pMapBuf s =
     write_reg8 reg_i2c_slave_map_addrh 0x04
       (write_reg8 reg_i2c_slave_map_addrm (ucast (drop_bit 8 pMapBuf AND 0xff))
         (write_reg8 reg_i2c_slave_map_addrl (ucast (pMapBuf AND 0xff)) s))"

definition i2c_slave_init :: "u8 \<Rightarrow> i2c_slave_mode \<Rightarrow> u32 \<Rightarrow> 'a mcu_scheme \<Rightarrow> 'a mcu_scheme" where
  "i2c_slave_init device_ID m pMapBuf s =
     (let s = write_reg8 reg_i2c_id device_ID s;
          s = BM_SET reg_clk_en0 FLD_CLK0_I2C_EN s;
          s = BM_CLR reg_spi_sp FLD_SPI_ENABLE s;
          s = BM_CLR reg_i2c_mode FLD_I2C_MASTER_EN s;
          s = BM_SET reg_i2c_mode FLD_I2C_ADDR_AUTO_ADD s
      in if m = I2C_SLAVE_MAP then
           i2c_slave_mapping_mode_data_buffer_config pMapBuf (BM_SET reg_i2c_mode FLD_I2C_SLAVE_MAPPING s)
         else BM_CLR reg_i2c_mode FLD_I2C_SLAVE_MAPPING s)"

definition reset_i2c_moudle :: "'a mcu_scheme \<Rightarrow> 'a mcu_scheme" where
  "reset_i2c_moudle s = BM_CLR reg_i2c_rst0 FLD_RST0_I2C (BM_SET reg_i2c_rst0 FLD_RST0_I2C s)"

definition i2c_set_id :: "u8 \<Rightarrow> 'a mcu_scheme \<Rightarrow> 'a mcu_scheme" where
  "i2c_set_id SlaveID s = write_reg8 reg_i2c_id SlaveID s"

section \<open>Transfers\<close>

text \<open>The beginning of all four transfers: the id for writing, and the address, in one command.\<close>

definition i2c_address_phase :: "'d i2c_device \<Rightarrow> u32 \<Rightarrow> u32 \<Rightarrow> 'd i2c_mcu \<Rightarrow> 'd i2c_mcu" where
  "i2c_address_phase D Addr AddrLen s =
     (let s = BM_CLR reg_i2c_id FLD_I2C_WRITE_READ_BIT s in
      if AddrLen = 0 then i2c_command D (FLD_I2C_CMD_ID OR FLD_I2C_CMD_START) s
      else if AddrLen = 1 then
        i2c_command D (FLD_I2C_CMD_ID OR FLD_I2C_CMD_ADDR OR FLD_I2C_CMD_START) (write_reg8 reg_i2c_adr (ucast Addr) s)
      else if AddrLen = 2 then
        i2c_command D (FLD_I2C_CMD_ID OR FLD_I2C_CMD_ADDR OR FLD_I2C_CMD_DO OR FLD_I2C_CMD_START)
          (write_reg8 reg_i2c_do (ucast Addr) (write_reg8 reg_i2c_adr (ucast (drop_bit 8 Addr)) s))
      else if AddrLen = 3 then
        i2c_command D (FLD_I2C_CMD_ID OR FLD_I2C_CMD_ADDR OR FLD_I2C_CMD_DO OR FLD_I2C_CMD_DI OR FLD_I2C_CMD_START)
          (write_reg8 reg_i2c_di (ucast Addr) (write_reg8 reg_i2c_do (ucast (drop_bit 8 Addr))
            (write_reg8 reg_i2c_adr (ucast (drop_bit 16 Addr)) s)))
      else s)"

definition i2c_send :: "'d i2c_device \<Rightarrow> u8 \<Rightarrow> 'd i2c_mcu \<Rightarrow> 'd i2c_mcu" where
  "i2c_send D b s = i2c_command D FLD_I2C_CMD_DI (write_reg8 reg_i2c_di b s)"

definition i2c_write_byte :: "'d i2c_device \<Rightarrow> u32 \<Rightarrow> u32 \<Rightarrow> u8 \<Rightarrow> 'd i2c_mcu \<Rightarrow> 'd i2c_mcu" where
  "i2c_write_byte D Addr AddrLen Data s =
     i2c_command D FLD_I2C_CMD_STOP (i2c_send D Data (i2c_address_phase D Addr AddrLen s))"

definition i2c_read_phase :: "'d i2c_device \<Rightarrow> 'd i2c_mcu \<Rightarrow> 'd i2c_mcu" where
  "i2c_read_phase D s =
     i2c_command D (FLD_I2C_CMD_ID OR FLD_I2C_CMD_START) (BM_SET reg_i2c_id FLD_I2C_WRITE_READ_BIT s)"

definition i2c_read_byte :: "'d i2c_device \<Rightarrow> u32 \<Rightarrow> u32 \<Rightarrow> 'd i2c_mcu \<Rightarrow> u8 \<times> 'd i2c_mcu" where
  "i2c_read_byte D Addr AddrLen s =
     (let s = i2c_read_phase D (i2c_address_phase D Addr AddrLen s);
          s = i2c_command D (FLD_I2C_CMD_DI OR FLD_I2C_CMD_READ_ID OR FLD_I2C_CMD_ACK) s;
          ret = read_reg8 reg_i2c_di s
      in (ret, i2c_command D FLD_I2C_CMD_STOP s))"

text \<open>
  The lengths are signed; the index of the write loop is unsigned, so that a negative length is a huge one. Reading past the
  end of \<open>dataBuf\<close> is \<open>None\<close>.
\<close>

definition i2c_write_series :: "'d i2c_device \<Rightarrow> u32 \<Rightarrow> u32 \<Rightarrow> u8 list \<Rightarrow> int \<Rightarrow> 'd i2c_mcu \<Rightarrow> 'd i2c_mcu option" where
  "i2c_write_series D Addr AddrLen dataBuf dataLen s =
     (if unat (of_int dataLen :: u32) \<le> length dataBuf then
        Some (i2c_command D FLD_I2C_CMD_STOP (fold (i2c_send D) (take (unat (of_int dataLen :: u32)) dataBuf) (i2c_address_phase D Addr AddrLen s)))
      else None)"

primrec i2c_read_loop :: "'d i2c_device \<Rightarrow> nat \<Rightarrow> 'd i2c_mcu \<Rightarrow> u8 list \<times> 'd i2c_mcu" where
  "i2c_read_loop D 0 s = ([], s)"
| "i2c_read_loop D (Suc n) s =
     (let s = i2c_command D (FLD_I2C_CMD_DI OR FLD_I2C_CMD_READ_ID) s;
          b = read_reg8 reg_i2c_di s;
          (bs, s) = i2c_read_loop D n s
      in (b # bs, s))"

text \<open>
  The bytes stored in \<open>dataBuf\<close>. A length of zero or less makes the loop run through all negative numbers, far
  beyond any buffer: \<open>None\<close>.
\<close>

definition i2c_read_series_drv :: "'d i2c_device \<Rightarrow> u32 \<Rightarrow> u32 \<Rightarrow> int \<Rightarrow> 'd i2c_mcu \<Rightarrow> (u8 list \<times> 'd i2c_mcu) option" where
  "i2c_read_series_drv D Addr AddrLen dataLen s =
     (if dataLen < 1 then None
      else let s = i2c_read_phase D (i2c_address_phase D Addr AddrLen s);
               (bs, s) = i2c_read_loop D (nat (dataLen - 1)) s;
               s = i2c_command D (FLD_I2C_CMD_DI OR FLD_I2C_CMD_READ_ID OR FLD_I2C_CMD_ACK) s;
               b = read_reg8 reg_i2c_di s
           in Some (bs @ [b], i2c_command D FLD_I2C_CMD_STOP s))"

section \<open>The light sensor\<close>

definition OPT3001_RESULT_REGISTER :: u32 where "OPT3001_RESULT_REGISTER = 0"
definition OPT3001_CONFIG_REGISTER :: u32 where "OPT3001_CONFIG_REGISTER = 1"
definition OPT3001_CONFIG_REG_HIGH :: u8 where "OPT3001_CONFIG_REG_HIGH = 0xC4"
definition OPT3001_CONFIG_REG_LOW :: u8 where "OPT3001_CONFIG_REG_LOW = 0x10"
definition SLAVE_DEVICE_ADDR :: u8 where "SLAVE_DEVICE_ADDR = 0x88"
definition I2C_CLK_SPEED :: nat where "I2C_CLK_SPEED = 200000"

definition Light_sensor_i2c_init :: "'a mcu_scheme \<Rightarrow> 'a mcu_scheme" where
  "Light_sensor_i2c_init s =
     i2c_master_init SLAVE_DEVICE_ADDR (of_nat (16000000 div (4 * I2C_CLK_SPEED))) (i2c_gpio_set I2C_GPIO_GROUP_C0C1 s)"

definition RD_Light_Sensor_read_raw_val_drv :: "'d i2c_device \<Rightarrow> 'd i2c_mcu \<Rightarrow> (u32 \<times> 'd i2c_mcu) option" where
  "RD_Light_Sensor_read_raw_val_drv D s =
     (let s = i2c_master_init SLAVE_DEVICE_ADDR (of_nat (16000000 div (4 * I2C_CLK_SPEED))) (i2c_gpio_set I2C_GPIO_GROUP_C0C1 s)
      in case i2c_write_series D OPT3001_CONFIG_REGISTER 1 [OPT3001_CONFIG_REG_HIGH, OPT3001_CONFIG_REG_LOW] 2 s of
           None \<Rightarrow> None
         | Some s \<Rightarrow> map_option (\<lambda>(rx, s). (ucast (mk16 (rx ! 0) (rx ! 1)), s)) (i2c_read_series_drv D OPT3001_RESULT_REGISTER 1 3 s))"

end
