(* ===== verification/I2cFacts.thy ===== *)
theory I2cFacts
  imports I2c
begin

text \<open>
  What the I2C driver puts on the bus: each transfer as its sequence of conditions and bytes, against any
  device; the single-byte transfers as special cases of the series; and, for a device that stores what is
  written to an address, that a read returns what was written. The slave mode of the chip itself, as \<open>i2c.h\<close>
  describes it, is such a device.
\<close>

section \<open>Events and devices\<close>

primrec dev_run :: "'d i2c_device \<Rightarrow> i2c_event list \<Rightarrow> 'd \<Rightarrow> 'd" where
  "dev_run D [] d = d"
| "dev_run D (e # es) d = dev_run D es (dv_step D d e)"

text \<open>The bytes read are those the device drives at that moment.\<close>

primrec answered :: "'d i2c_device \<Rightarrow> i2c_event list \<Rightarrow> 'd \<Rightarrow> bool" where
  "answered D [] d = True"
| "answered D (e # es) d = ((case e of I2C_READ v a \<Rightarrow> v = dv_out D d | _ \<Rightarrow> True) \<and> answered D es (dv_step D d e))"

lemma dev_run_append [simp]: "dev_run D (es @ fs) d = dev_run D fs (dev_run D es d)"
  by (induction es arbitrary: d) simp_all

lemma answered_append [simp]: "answered D (es @ fs) d \<longleftrightarrow> answered D es d \<and> answered D fs (dev_run D es d)"
  by (induction es arbitrary: d) simp_all

definition bus_does :: "'d i2c_device \<Rightarrow> i2c_event list \<Rightarrow> 'd i2c_mcu \<Rightarrow> 'd i2c_mcu \<Rightarrow> bool" where
  "bus_does D es s t \<longleftrightarrow> i2c_bus t = i2c_bus s @ es \<and> i2c_dev t = dev_run D es (i2c_dev s) \<and> answered D es (i2c_dev s)"

lemma bus_does_trans: "bus_does D es s t \<Longrightarrow> bus_does D fs t u \<Longrightarrow> bus_does D (es @ fs) s u"
  by (simp add: bus_does_def)

lemma bus_does_Nil: "bus_does D [] s s"
  by (simp add: bus_does_def)

lemma i2c_write_reg8 [simp]: "i2c_bus (write_reg8 a v s) = i2c_bus s" "i2c_dev (write_reg8 a v s) = i2c_dev s" if "a \<noteq> 0xba"
  using that by (simp_all add: write_reg8_def Let_def)

lemma bus_put_simps [simp]: "dig (bus_put D e s) = dig s" "i2c_bus (bus_put D e s) = i2c_bus s @ [e]"
  "i2c_dev (bus_put D e s) = dv_step D (i2c_dev s) e"
  by (simp_all add: bus_put_def)

section \<open>The phases of a transfer\<close>

lemmas i2c_eval = i2c_command_def i2c_data_phase_def i2c_regs i2c_cmds read_reg8_def w1c_def ro_def bit_simps Let_def

definition address_bytes :: "u32 \<Rightarrow> u32 \<Rightarrow> u8 list" where
  "address_bytes Addr AddrLen = (if AddrLen = 0 then [] else if AddrLen = 1 then [ucast Addr]
     else if AddrLen = 2 then [ucast (drop_bit 8 Addr), ucast Addr]
     else [ucast (drop_bit 16 Addr), ucast (drop_bit 8 Addr), ucast Addr])"

lemma address_phase:
  assumes "AddrLen = 0 \<or> AddrLen = 1 \<or> AddrLen = 2 \<or> AddrLen = 3" "dig s 1 = w"
  shows "bus_does D (I2C_START # I2C_BYTE (w AND NOT 1) # map I2C_BYTE (address_bytes Addr AddrLen)) s (i2c_address_phase D Addr AddrLen s)"
    "dig (i2c_address_phase D Addr AddrLen s) 1 = w AND NOT 1"
  using assms by (auto simp: i2c_address_phase_def bus_does_def address_bytes_def BM_CLR_def FLD_I2C_WRITE_READ_BIT_def i2c_eval BIT_def)

lemma send_phase: "bus_does D [I2C_BYTE b] s (i2c_send D b s)" "dig (i2c_send D b s) 1 = dig s 1"
  by (simp_all add: i2c_send_def bus_does_def i2c_eval)

lemma sends_phase: "bus_does D (map I2C_BYTE bs) s (fold (i2c_send D) bs s)" "dig (fold (i2c_send D) bs s) 1 = dig s 1"
proof (induction bs arbitrary: s)
  case (Cons b bs)
  {
    case 1 show ?case using bus_does_trans [OF send_phase(1) Cons(1)] by simp
  next
    case 2 show ?case using send_phase(2) Cons(2) by simp
  }
qed (simp_all add: bus_does_Nil)

lemma stop_phase: "bus_does D [I2C_STOP] s (i2c_command D FLD_I2C_CMD_STOP s)" "dig (i2c_command D FLD_I2C_CMD_STOP s) 1 = dig s 1"
  by (simp_all add: bus_does_def i2c_eval)

lemma restart_phase: "bus_does D [I2C_START, I2C_BYTE (dig s 1 OR 1)] s (i2c_read_phase D s)" "dig (i2c_read_phase D s) 1 = dig s 1 OR 1"
  by (simp_all add: i2c_read_phase_def bus_does_def BM_SET_def FLD_I2C_WRITE_READ_BIT_def i2c_eval) (simp_all add: BIT_def)

lemma receive_phase:
  assumes "ack \<in> {0, FLD_I2C_CMD_ACK}" "t = i2c_command D (FLD_I2C_CMD_DI OR FLD_I2C_CMD_READ_ID OR ack) s"
  shows "bus_does D [I2C_READ (dig t 6) (ack \<noteq> 0)] s t" "dig t 1 = dig s 1"
proof -
  have "BIT 7 \<noteq> (0 :: u8)" by code_simp
  then show "bus_does D [I2C_READ (dig t 6) (ack \<noteq> 0)] s t" "dig t 1 = dig s 1"
    using assms by (auto simp: bus_does_def i2c_eval)
qed

lemma receive_loop:
  "\<exists>bs t. i2c_read_loop D n s = (bs, t) \<and> length bs = n \<and> bus_does D (map (\<lambda>b. I2C_READ b False) bs) s t \<and> dig t 1 = dig s 1"
proof (induction n arbitrary: s)
  case (Suc n)
  obtain t where t: "t = i2c_command D (FLD_I2C_CMD_DI OR FLD_I2C_CMD_READ_ID) s" by blast
  then have t0: "t = i2c_command D (FLD_I2C_CMD_DI OR FLD_I2C_CMD_READ_ID OR 0) s" by simp
  obtain bs u where u: "i2c_read_loop D n t = (bs, u)" "length bs = n" "bus_does D (map (\<lambda>b. I2C_READ b False) bs) t u" "dig u 1 = dig t 1"
    using Suc.IH by blast
  show ?case using receive_phase [OF _ t0] bus_does_trans [OF _ u(3)] u(1,2,4) t
    by (intro exI [of _ "dig t 6 # bs"] exI [of _ u]) (fastforce simp: Let_def read_reg8_def i2c_regs)
qed (simp add: bus_does_Nil)

section \<open>Transfers\<close>

lemma write_series_bus:
  assumes "AddrLen = 0 \<or> AddrLen = 1 \<or> AddrLen = 2 \<or> AddrLen = 3" "0 \<le> len" "len \<le> int (length buf)" "length buf < 4294967296"
  shows "\<exists>t. i2c_write_series D Addr AddrLen buf len s = Some t \<and>
    bus_does D (I2C_START # I2C_BYTE (dig s 1 AND NOT 1) # map I2C_BYTE (address_bytes Addr AddrLen @ take (nat len) buf) @ [I2C_STOP]) s t \<and>
    dig t 1 = dig s 1 AND NOT 1"
proof -
  have n: "unat (of_int len :: u32) = nat len"
  proof -
    have "of_int len = (of_nat (nat len) :: u32)" using assms(2) by simp
    then show ?thesis using assms(3,4) by (simp only: unat_of_nat) simp
  qed
  have le: "nat len \<le> length buf" using assms(3) by simp
  have "bus_does D (((I2C_START # I2C_BYTE (dig s 1 AND NOT 1) # map I2C_BYTE (address_bytes Addr AddrLen)) @ map I2C_BYTE (take (nat len) buf)) @ [I2C_STOP]) s
      (i2c_command D FLD_I2C_CMD_STOP (fold (i2c_send D) (take (nat len) buf) (i2c_address_phase D Addr AddrLen s)))"
    by (rule bus_does_trans [OF bus_does_trans [OF address_phase(1) [OF assms(1) refl] sends_phase(1)] stop_phase(1)])
  then show ?thesis using le by (simp add: i2c_write_series_def n stop_phase(2) sends_phase(2) address_phase(2) [OF assms(1) refl] del: One_nat_def)
qed

text \<open>The events of a read of \<open>vs\<close>: all but the last without the ACK bit.\<close>

definition read_events :: "u8 list \<Rightarrow> i2c_event list" where
  "read_events vs = map (\<lambda>b. I2C_READ b False) (butlast vs) @ [I2C_READ (last vs) True]"

lemma read_series_bus:
  assumes "AddrLen = 0 \<or> AddrLen = 1 \<or> AddrLen = 2 \<or> AddrLen = 3" "w = dig s 1 AND NOT 1"
  shows "if 1 \<le> len then \<exists>vs t. i2c_read_series_drv D Addr AddrLen len s = Some (vs, t) \<and> length vs = nat len \<and>
      bus_does D (I2C_START # I2C_BYTE w # map I2C_BYTE (address_bytes Addr AddrLen) @
        [I2C_START, I2C_BYTE (w OR 1)] @ read_events vs @ [I2C_STOP]) s t
    else i2c_read_series_drv D Addr AddrLen len s = None"
proof (cases "1 \<le> len")
  case True
  obtain a where a: "a = i2c_address_phase D Addr AddrLen s" by blast
  obtain b where b: "b = i2c_read_phase D a" by blast
  obtain bs c where c: "i2c_read_loop D (nat (len - 1)) b = (bs, c)" "length bs = nat (len - 1)" "bus_does D (map (\<lambda>b. I2C_READ b False) bs) b c"
    using receive_loop by blast
  obtain d where d: "d = i2c_command D (FLD_I2C_CMD_DI OR FLD_I2C_CMD_READ_ID OR FLD_I2C_CMD_ACK) c" by blast
  have A: "bus_does D (I2C_START # I2C_BYTE w # map I2C_BYTE (address_bytes Addr AddrLen)) s a" "dig a 1 = w"
    using address_phase [OF assms(1) refl] assms(2) by (simp_all add: a)
  have ack: "FLD_I2C_CMD_ACK \<noteq> 0" by code_simp
  have "bus_does D ((((I2C_START # I2C_BYTE w # map I2C_BYTE (address_bytes Addr AddrLen)) @ [I2C_START, I2C_BYTE (w OR 1)]) @ map (\<lambda>b. I2C_READ b False) bs) @ [I2C_READ (dig d 6) True]) s d"
    using bus_does_trans [OF bus_does_trans [OF bus_does_trans [OF A(1) restart_phase(1) [of D a]] c(3) [unfolded b]] receive_phase(1) [OF _ d]] A(2) ack by simp
  from bus_does_trans [OF this stop_phase(1)] show ?thesis
    using True c(1,2) d by (simp add: i2c_read_series_drv_def a b Let_def read_events_def read_reg8_def i2c_regs)
qed (simp add: i2c_read_series_drv_def)

text \<open>
C25: A series read puts on the bus: start, the id for writing, the address bytes (high byte first), a second
start, the id for reading, one read per byte, of which exactly the last has the ACK bit, and stop. What
it stores are the bytes the device drove, in order; a length below one never returns.
\<close>

theorem i2c_read_series_on_bus:
  assumes "AddrLen = 0 \<or> AddrLen = 1 \<or> AddrLen = 2 \<or> AddrLen = 3" "w = dig s 1 AND NOT 1"
  shows "if 1 \<le> len then \<exists>vs t. i2c_read_series_drv D Addr AddrLen len s = Some (vs, t) \<and> length vs = nat len \<and>
      bus_does D (I2C_START # I2C_BYTE w # map I2C_BYTE (address_bytes Addr AddrLen) @
        [I2C_START, I2C_BYTE (w OR 1)] @ read_events vs @ [I2C_STOP]) s t
    else i2c_read_series_drv D Addr AddrLen len s = None"
  using assms by (rule read_series_bus)

lemma i2c_read_series_on_bus_witness:
  "\<exists>vs t. i2c_read_series_drv \<lparr>dv_out = id, dv_step = (\<lambda>d e. d + 1)\<rparr> 0x1234 2 3 \<lparr>dig = (\<lambda>_. 0x5d), ana = (\<lambda>_. 0), i2c_bus = [], i2c_dev = 0\<rparr> = Some (vs, t) \<and>
    length vs = 3"
  using i2c_read_series_on_bus [of 2 "0x5c" "\<lparr>dig = (\<lambda>_. 0x5d), ana = (\<lambda>_. 0), i2c_bus = [], i2c_dev = 0\<rparr>" 3 "\<lparr>dv_out = id, dv_step = (\<lambda>d e. d + 1)\<rparr>" "0x1234"]
  by auto

text \<open>
The single-byte transfers are the series of length one.
\<close>

theorem i2c_byte_is_series:
  "i2c_write_series D Addr AddrLen [Data] 1 s = Some (i2c_write_byte D Addr AddrLen Data s) \<and>
   i2c_read_series_drv D Addr AddrLen 1 s = (case i2c_read_byte D Addr AddrLen s of (b, t) \<Rightarrow> Some ([b], t))"
  by (simp add: i2c_write_series_def i2c_write_byte_def i2c_read_series_drv_def i2c_read_byte_def Let_def)

section \<open>The light sensor\<close>

text \<open>The pin and set-up functions change registers only.\<close>

lemma more_regs [simp]: "mcu.more (write_reg8 a v s) = mcu.more s" "mcu.more (BM_SET a v s) = mcu.more s" "mcu.more (BM_CLR a v s) = mcu.more s"
  by (simp_all add: BM_SET_def BM_CLR_def write_reg8_def ana_cycle_def Let_def)

lemma more_analog [simp]: "mcu.more (analog_write b v s) = mcu.more s" "mcu.more (snd (analog_read b s)) = mcu.more s"
  by (simp_all add: analog_write_eq analog_read_eq)

lemmas more_if = if_distrib [of mcu.more]

lemma more_sel [simp]: "mcu.more (areg_sel b a m s) = mcu.more s" "mcu.more (BM_SEL b r m s) = mcu.more s"
  by (simp_all add: areg_sel_def BM_SEL_def analog_read_eq)

lemma more_gpio [simp]: "mcu.more (gpio_setup_up_down_resistor pin v s) = mcu.more s" "mcu.more (gpio_set_input_en pin b s) = mcu.more s"
  by (simp_all add: gpio_setup_up_down_resistor_def gpio_set_input_en_def Let_def analog_read_eq more_if)

lemma more_mux [simp]: "mcu.more (gpio_set_mux pin func s) = mcu.more s" "mcu.more (gpio_set_func pin func s) = mcu.more s"
  by (simp_all add: gpio_set_func_def gpio_set_mux_def Let_def split_beta more_if)

lemma more_i2c [simp]: "mcu.more (i2c_gpio_set g s) = mcu.more s" "mcu.more (i2c_master_init i d s) = mcu.more s"
  by (cases g) (simp_all add: i2c_gpio_set_def i2c_master_init_def Let_def)

lemma more_bus: "mcu.more s = mcu.more t \<Longrightarrow> i2c_bus s = i2c_bus t \<and> i2c_dev s = i2c_dev t" for s t :: "'d i2c_mcu"
  by (cases s; cases t) simp

text \<open>
A reading of the light sensor: whatever the device answers, the bus carries a write of \<open>C4 10\<close> to the
configuration register of device \<open>88\<close> and a read of three bytes of the result register, and the
value is made of the first two of them, high byte first.
\<close>

theorem light_sensor_on_bus:
  "\<exists>h l x t. RD_Light_Sensor_read_raw_val_drv D s = Some (ucast (mk16 h l), t) \<and>
    i2c_bus t = i2c_bus s @ [I2C_START, I2C_BYTE 0x88, I2C_BYTE 0x01, I2C_BYTE 0xC4, I2C_BYTE 0x10, I2C_STOP,
      I2C_START, I2C_BYTE 0x88, I2C_BYTE 0x00, I2C_START, I2C_BYTE 0x89, I2C_READ h False, I2C_READ l False, I2C_READ x True, I2C_STOP] \<and>
    answered D (drop (length (i2c_bus s)) (i2c_bus t)) (i2c_dev s)"
proof -
  obtain u where u: "u = i2c_master_init SLAVE_DEVICE_ADDR (of_nat (16000000 div (4 * I2C_CLK_SPEED))) (i2c_gpio_set I2C_GPIO_GROUP_C0C1 s)" by blast
  have "mcu.more u = mcu.more s" by (simp add: u)
  then have us: "i2c_bus u = i2c_bus s" "i2c_dev u = i2c_dev s" using more_bus by auto
  have id: "dig u 1 = 0x88" by (simp add: u i2c_master_init_def Let_def i2c_regs SLAVE_DEVICE_ADDR_def BM_SET_def BM_CLR_def w1c_def ro_def)
  obtain v where v: "i2c_write_series D OPT3001_CONFIG_REGISTER 1 [OPT3001_CONFIG_REG_HIGH, OPT3001_CONFIG_REG_LOW] 2 u = Some v"
    "bus_does D (I2C_START # I2C_BYTE (dig u 1 AND NOT 1) # map I2C_BYTE (address_bytes OPT3001_CONFIG_REGISTER 1 @
       take (nat 2) [OPT3001_CONFIG_REG_HIGH, OPT3001_CONFIG_REG_LOW]) @ [I2C_STOP]) u v" "dig v 1 = dig u 1 AND NOT 1"
    using write_series_bus [of 1 2 "[OPT3001_CONFIG_REG_HIGH, OPT3001_CONFIG_REG_LOW]" D OPT3001_CONFIG_REGISTER u] by auto
  have w: "0x88 = dig v 1 AND NOT 1" using v(3) id by simp
  obtain vs t where t: "i2c_read_series_drv D OPT3001_RESULT_REGISTER 1 3 v = Some (vs, t)" "length vs = 3"
    "bus_does D (I2C_START # I2C_BYTE 0x88 # map I2C_BYTE (address_bytes OPT3001_RESULT_REGISTER 1) @
        [I2C_START, I2C_BYTE (0x88 OR 1)] @ read_events vs @ [I2C_STOP]) v t"
    using read_series_bus [of 1 "0x88" v 3 D OPT3001_RESULT_REGISTER, OF _ w] by auto
  obtain h l x where hlx: "vs = [h, l, x]" using t(2) by (auto simp: numeral_3_eq_3 length_Suc_conv)
  have "bus_does D [I2C_START, I2C_BYTE 0x88, I2C_BYTE 0x01, I2C_BYTE 0xC4, I2C_BYTE 0x10, I2C_STOP] u v"
    using v(2) by (simp add: id address_bytes_def OPT3001_CONFIG_REGISTER_def OPT3001_CONFIG_REG_HIGH_def OPT3001_CONFIG_REG_LOW_def del: One_nat_def)
  moreover have "bus_does D [I2C_START, I2C_BYTE 0x88, I2C_BYTE 0x00, I2C_START, I2C_BYTE 0x89, I2C_READ h False, I2C_READ l False, I2C_READ x True, I2C_STOP] v t"
    using t(3) by (simp add: hlx read_events_def address_bytes_def OPT3001_RESULT_REGISTER_def)
  ultimately have "bus_does D ([I2C_START, I2C_BYTE 0x88, I2C_BYTE 0x01, I2C_BYTE 0xC4, I2C_BYTE 0x10, I2C_STOP] @
      [I2C_START, I2C_BYTE 0x88, I2C_BYTE 0x00, I2C_START, I2C_BYTE 0x89, I2C_READ h False, I2C_READ l False, I2C_READ x True, I2C_STOP]) u t"
    by (rule bus_does_trans)
  moreover have "RD_Light_Sensor_read_raw_val_drv D s = Some (ucast (mk16 h l), t)"
    unfolding RD_Light_Sensor_read_raw_val_drv_def Let_def u [symmetric] using v(1) t(1) by (simp add: hlx)
  ultimately show ?thesis unfolding bus_does_def us
    by (intro exI [of _ h] exI [of _ l] exI [of _ x] exI [of _ t]) (simp del: answered.simps)
qed

section \<open>Devices that store\<close>

text \<open>
  The contract of a device that is addressed with \<open>n\<close> bytes and keeps what is written: after the bytes of a write
  transfer its cells hold the data, after the head of a read transfer it drives its cells in order, and a transfer
  to another id or a read leaves them.
\<close>

locale i2c_memory =
  fixes D :: "'d i2c_device"
    and n :: u32
    and w :: u8
    and cells :: "'d \<Rightarrow> nat \<Rightarrow> u8"
    and start :: "u32 \<Rightarrow> nat"
    and ok :: "'d \<Rightarrow> bool"
  assumes width: "n = 0 \<or> n = 1 \<or> n = 2 \<or> n = 3"
    and write_id: "w AND NOT 1 = w"
    and keeps: "ok d \<Longrightarrow> ok (dev_run D es d)"
    and written: "ok d \<Longrightarrow> i < length bs \<Longrightarrow>
      cells (dev_run D (I2C_START # I2C_BYTE w # map I2C_BYTE (address_bytes a n @ bs) @ [I2C_STOP]) d) (start a + i) = bs ! i"
    and driven: "ok d \<Longrightarrow> answered D (read_events vs)
        (dev_run D (I2C_START # I2C_BYTE w # map I2C_BYTE (address_bytes a n) @ [I2C_START, I2C_BYTE (w OR 1)]) d) \<Longrightarrow>
      vs \<noteq> [] \<Longrightarrow> i < length vs \<Longrightarrow> vs ! i = cells d (start a + i)"
begin

lemma read_returns_written:
  assumes "dig s 1 AND NOT 1 = w" "bs \<noteq> []" "length bs < 4294967296" "ok (i2c_dev s)"
  shows "\<exists>t u. i2c_write_series D a n bs (int (length bs)) s = Some t \<and> i2c_read_series_drv D a n (int (length bs)) t = Some (bs, u)"
proof -
  obtain t where t: "i2c_write_series D a n bs (int (length bs)) s = Some t"
    "bus_does D (I2C_START # I2C_BYTE w # map I2C_BYTE (address_bytes a n @ bs) @ [I2C_STOP]) s t" "dig t 1 = w"
    using write_series_bus [OF width, of "int (length bs)" bs D a s] assms by auto
  have w1: "w = dig t 1 AND NOT 1" by (simp only: t(3) write_id)
  have "1 \<le> int (length bs)" using assms(2) by (cases bs) auto
  with read_series_bus [OF width w1, of "int (length bs)" D a] obtain vs u where
    u: "i2c_read_series_drv D a n (int (length bs)) t = Some (vs, u)" "length vs = length bs"
      "bus_does D (I2C_START # I2C_BYTE w # map I2C_BYTE (address_bytes a n) @ [I2C_START, I2C_BYTE (w OR 1)] @ read_events vs @ [I2C_STOP]) t u"
    by auto
  have dev: "i2c_dev t = dev_run D (I2C_START # I2C_BYTE w # map I2C_BYTE (address_bytes a n @ bs) @ [I2C_STOP]) (i2c_dev s)"
    using t(2) by (simp only: bus_does_def)
  have "answered D ((I2C_START # I2C_BYTE w # map I2C_BYTE (address_bytes a n) @ [I2C_START, I2C_BYTE (w OR 1)]) @ read_events vs @ [I2C_STOP]) (i2c_dev t)"
    using u(3) by (simp only: bus_does_def append_Cons append_assoc)
  then have ans: "answered D (read_events vs) (dev_run D (I2C_START # I2C_BYTE w # map I2C_BYTE (address_bytes a n) @ [I2C_START, I2C_BYTE (w OR 1)]) (i2c_dev t))"
    by (simp only: answered_append)
  have okt: "ok (i2c_dev t)" unfolding dev by (rule keeps [OF assms(4)])
  have ne: "vs \<noteq> []" using u(2) assms(2) by auto
  have "vs = bs"
  proof (rule nth_equalityI [OF u(2)])
    fix i assume i: "i < length vs"
    show "vs ! i = bs ! i" using driven [OF okt ans ne i] written [OF assms(4), of i bs a] i u(2)
      by (simp only: dev)
  qed
  then show ?thesis using t(1) u(1) by blast
qed

end

section \<open>The chip as a slave\<close>

text \<open>
  The slave mode of the chip in which the bus reads and writes its RAM directly (\<open>I2C_SLAVE_DMA\<close> in \<open>i2c.h\<close>):
  start, id for writing, three address bytes, data, stop; and start, id for writing, three address bytes, start, id for
  reading, data, stop.
\<close>

datatype sl_phase = SL_IDLE | SL_ID | SL_WRITE | SL_READ

record dma_slave =
  sl_id :: u8
  sl_ram :: "nat \<Rightarrow> u8"
  sl_ptr :: nat
  sl_got :: nat
  sl_phase :: sl_phase

primrec sl_step :: "dma_slave \<Rightarrow> i2c_event \<Rightarrow> dma_slave" where
  "sl_step d I2C_START = d\<lparr>sl_phase := SL_ID\<rparr>"
| "sl_step d I2C_STOP = d\<lparr>sl_phase := SL_IDLE\<rparr>"
| "sl_step d (I2C_READ v a) = (if sl_phase d = SL_READ then d\<lparr>sl_ptr := sl_ptr d + 1\<rparr> else d)"
| "sl_step d (I2C_BYTE b) =
    (case sl_phase d of
       SL_ID \<Rightarrow> (if b = sl_id d then d\<lparr>sl_phase := SL_WRITE, sl_got := 0, sl_ptr := 0\<rparr>
                else if b = sl_id d OR 1 then d\<lparr>sl_phase := SL_READ\<rparr> else d\<lparr>sl_phase := SL_IDLE\<rparr>)
     | SL_WRITE \<Rightarrow> (if sl_got d < 3 then d\<lparr>sl_ptr := 256 * sl_ptr d + unat b, sl_got := sl_got d + 1\<rparr>
                else d\<lparr>sl_ram := (sl_ram d)(sl_ptr d := b), sl_ptr := sl_ptr d + 1\<rparr>)
     | _ \<Rightarrow> d)"

definition sl_device :: "dma_slave i2c_device" where
  "sl_device = \<lparr>dv_out = (\<lambda>d. if sl_phase d = SL_READ then sl_ram d (sl_ptr d) else 0xff), dv_step = sl_step\<rparr>"

lemma sl_fields [simp]: "dv_step sl_device = sl_step" "dv_out sl_device d = (if sl_phase d = SL_READ then sl_ram d (sl_ptr d) else 0xff)"
  by (simp_all add: sl_device_def)

lemma sl_id_kept: "sl_id (dev_run sl_device es d) = sl_id d"
proof (induction es arbitrary: d)
  case (Cons e es)
  have "sl_id (sl_step d e) = sl_id d" by (cases e) (simp_all split: sl_phase.splits)
  then show ?case using Cons.IH [of "sl_step d e"] by simp
qed simp

lemma sl_address:
  assumes "sl_id d = w" "w AND NOT 1 = w"
  shows "dev_run sl_device (I2C_START # I2C_BYTE w # map I2C_BYTE (address_bytes a 3)) d =
    d\<lparr>sl_phase := SL_WRITE, sl_got := 3, sl_ptr := unat a mod 16777216\<rparr>"
proof -
  have "unat a mod 16777216 = 256 * (256 * (unat a div 256 div 256 mod 256) + unat a div 256 mod 256) + unat a mod 256"
    using mod_mult2_eq [of "unat a" 256 65536] mod_mult2_eq [of "unat a div 256" 256 256] by simp
  then have "256 * (256 * unat (ucast (drop_bit 16 a) :: u8) + unat (ucast (drop_bit 8 a) :: u8)) + unat (ucast a :: u8) = unat a mod 16777216"
    by (simp add: unat_ucast_narrow unat_drop_bit_eq drop_bit_eq_div unat_div div_mult2_eq [symmetric])
  then show ?thesis using assms(1) by (simp add: address_bytes_def numeral_3_eq_3)
qed

lemma sl_writes:
  "sl_phase d = SL_WRITE \<Longrightarrow> sl_got d = 3 \<Longrightarrow> dev_run sl_device (map I2C_BYTE bs) d =
    d\<lparr>sl_ram := (\<lambda>x. if sl_ptr d \<le> x \<and> x < sl_ptr d + length bs then bs ! (x - sl_ptr d) else sl_ram d x), sl_ptr := sl_ptr d + length bs\<rparr>"
proof (induction bs arbitrary: d)
  case (Cons b bs)
  show ?case using Cons.prems by (simp add: Cons.IH) (auto simp: fun_eq_iff nth_Cons' not_le less_Suc_eq_le intro!: arg_cong [where f = "nth bs"])
next
  case Nil
  then show ?case by (cases d) (auto simp: fun_eq_iff)
qed

lemma sl_reads:
  "sl_phase d = SL_READ \<Longrightarrow> answered sl_device (map (\<lambda>(v, a). I2C_READ v a) rs) d \<Longrightarrow> i < length rs \<Longrightarrow> fst (rs ! i) = sl_ram d (sl_ptr d + i)"
proof (induction rs arbitrary: d i)
  case (Cons r rs)
  obtain v a where r: "r = (v, a)" by fastforce
  show ?case
  proof (cases i)
    case (Suc k)
    have "fst (rs ! k) = sl_ram (d\<lparr>sl_ptr := sl_ptr d + 1\<rparr>) (sl_ptr (d\<lparr>sl_ptr := sl_ptr d + 1\<rparr>) + k)"
      using Cons.prems Suc by (intro Cons.IH) (simp_all add: r)
    then show ?thesis by (simp add: Suc)
  qed (use Cons.prems in \<open>simp add: r\<close>)
qed simp

lemma write_id_bit: "w AND NOT 1 = w \<Longrightarrow> w OR 1 \<noteq> (w :: u8)"
proof
  assume "w AND NOT 1 = w" "w OR 1 = w"
  then have "bit (w AND NOT 1) 0 = bit (w OR 1) 0" by metis
  then show False by (simp add: bit_simps)
qed

lemma sl_written:
  assumes "w AND NOT 1 = w" "sl_id d = w" "i < length bs"
  shows "sl_ram (dev_run sl_device (I2C_START # I2C_BYTE w # map I2C_BYTE (address_bytes a 3 @ bs) @ [I2C_STOP]) d) (unat a mod 16777216 + i) = bs ! i"
proof -
  have split: "I2C_START # I2C_BYTE w # map I2C_BYTE (address_bytes a 3 @ bs) @ [I2C_STOP] =
      (I2C_START # I2C_BYTE w # map I2C_BYTE (address_bytes a 3)) @ map I2C_BYTE bs @ [I2C_STOP]" by simp
  show ?thesis unfolding split dev_run_append sl_address [OF assms(2,1)] using assms(3) by (simp add: sl_writes)
qed

lemma sl_driven:
  assumes "w AND NOT 1 = w" "sl_id d = w" "vs \<noteq> []" "i < length vs"
    and ans: "answered sl_device (read_events vs)
      (dev_run sl_device (I2C_START # I2C_BYTE w # map I2C_BYTE (address_bytes a 3) @ [I2C_START, I2C_BYTE (w OR 1)]) d)"
  shows "vs ! i = sl_ram d (unat a mod 16777216 + i)"
proof -
  have split: "I2C_START # I2C_BYTE w # map I2C_BYTE (address_bytes a 3) @ [I2C_START, I2C_BYTE (w OR 1)] =
      (I2C_START # I2C_BYTE w # map I2C_BYTE (address_bytes a 3)) @ [I2C_START, I2C_BYTE (w OR 1)]" by simp
  obtain e where e: "e = dev_run sl_device (I2C_START # I2C_BYTE w # map I2C_BYTE (address_bytes a 3) @ [I2C_START, I2C_BYTE (w OR 1)]) d" by blast
  have st: "sl_phase e = SL_READ" "sl_ram e = sl_ram d" "sl_ptr e = unat a mod 16777216"
    using write_id_bit [OF assms(1)] assms(2) unfolding e split dev_run_append sl_address [OF assms(2,1)] by simp_all
  obtain rs where rs: "rs = map (\<lambda>v. (v, False)) (butlast vs) @ [(last vs, True)]" by blast
  have ev: "read_events vs = map (\<lambda>(v, a). I2C_READ v a) rs" by (simp add: read_events_def rs)
  have vs: "map fst rs = vs" using assms(3) by (simp add: rs comp_def)
  then have len: "i < length rs" using assms(4) by (metis length_map)
  have "fst (rs ! i) = sl_ram e (sl_ptr e + i)" using ans unfolding e [symmetric] ev by (intro sl_reads [OF st(1) _ len])
  then show ?thesis using vs len nth_map [OF len, of fst] by (simp add: st)
qed

lemma sl_memory: "w AND NOT 1 = w \<Longrightarrow> i2c_memory sl_device 3 w sl_ram (\<lambda>a. unat a mod 16777216) (\<lambda>d. sl_id d = w)"
  by unfold_locales (simp_all only: sl_written sl_driven sl_id_kept simp_thms)

text \<open>The id of the example in \<open>i2c_master_init\<close>.\<close>

interpretation slave: i2c_memory sl_device 3 "0x5c" sl_ram "\<lambda>a. unat a mod 16777216" "\<lambda>d. sl_id d = 0x5c"
  by (rule sl_memory) simp

text \<open>
C26: What the driver writes to the RAM of another such chip (a slave with the id the registers hold, addressed with
three bytes) is what it reads back.
\<close>

theorem i2c_ram_roundtrip:
  assumes "sl_id (i2c_dev s) = dig s 1 AND NOT 1" "bs \<noteq> []" "length bs < 4294967296"
  shows "\<exists>t u. i2c_write_series sl_device a 3 bs (int (length bs)) s = Some t \<and>
    i2c_read_series_drv sl_device a 3 (int (length bs)) t = Some (bs, u)"
proof -
  have "(dig s 1 AND NOT 1) AND NOT 1 = dig s 1 AND NOT 1" by (simp add: and.assoc)
  from i2c_memory.read_returns_written [OF sl_memory [OF this] refl assms(2,3)] assms(1) show ?thesis by blast
qed

lemma i2c_ram_roundtrip_witness:
  "\<exists>t u. i2c_write_series sl_device 0x840100 3 [1, 2, 3] 3 \<lparr>dig = (\<lambda>_. 0x5d), ana = (\<lambda>_. 0), i2c_bus = [],
      i2c_dev = \<lparr>sl_id = 0x5c, sl_ram = (\<lambda>_. 0), sl_ptr = 0, sl_got = 0, sl_phase = SL_IDLE\<rparr>\<rparr> = Some t \<and>
    i2c_read_series_drv sl_device 0x840100 3 3 t = Some ([1, 2, 3], u)"
  using i2c_ram_roundtrip [of "\<lparr>dig = (\<lambda>_. 0x5d), ana = (\<lambda>_. 0), i2c_bus = [],
      i2c_dev = \<lparr>sl_id = 0x5c, sl_ram = (\<lambda>_. 0), sl_ptr = 0, sl_got = 0, sl_phase = SL_IDLE\<rparr>\<rparr>" "[1, 2, 3]" "0x840100"]
  by simp

end
