(* ===== verification/SystemTime.thy ===== *)
theory SystemTime
  imports Prelude
begin

text \<open>
  The software clock (\<open>vendor/common/system_time.c\<close>, \<open>system_time.h\<close>): \<open>system_time_run\<close> is called from the main
  loop whenever it comes round, turns the ticks that have passed into counters of milliseconds, tenths of seconds and
  seconds, and calls what is due once per period. What it calls are the hooks of \<open>time_hooks\<close>; the contract they
  keep is the locale \<open>time_client\<close>.
\<close>

section \<open>State\<close>

record sys_time =
  system_time_ms :: u32
  system_time_100ms :: u32
  system_time_s :: u32
  system_time_tick :: u32
  publish_powerup_random_ms :: u16

text \<open>The functions of other modules it calls, on the state \<open>'s\<close>.\<close>

record 's time_hooks =
  mesh_iv_update_start_poll :: "'s \<Rightarrow> 's"
  light_transition_proc :: "'s \<Rightarrow> 's"
  mesh_beacon_poll_100ms :: "'s \<Rightarrow> 's"
  heartbeat_poll :: "'s \<Rightarrow> 's"
  mesh_iv_update_st_poll_s :: "'s \<Rightarrow> 's"
  light_par_save_proc :: "'s \<Rightarrow> 's"
  scene_status_change_check_all :: "'s \<Rightarrow> 's"
  publish_when_powerup :: "'s \<Rightarrow> 's"

type_synonym 'a hooks = "'a sys_time_scheme time_hooks"

definition CHECK_INTERVAL :: u32 where "CHECK_INTERVAL = 16000"

section \<open>Operations\<close>

text \<open>\<open>clock_time_ms\<close>, \<open>clock_time_100ms\<close> and \<open>clock_time_s\<close> read the counters.\<close>

definition clock_time_ms_st :: "'a sys_time_scheme \<Rightarrow> u32" where "clock_time_ms_st s = system_time_ms s"
definition clock_time_100ms :: "'a sys_time_scheme \<Rightarrow> u32" where "clock_time_100ms s = system_time_100ms s"
definition clock_time_s :: "'a sys_time_scheme \<Rightarrow> u32" where "clock_time_s s = system_time_s s"

definition clock_time_exceed_ms :: "u32 \<Rightarrow> u32 \<Rightarrow> 'a sys_time_scheme \<Rightarrow> bool" where
  "clock_time_exceed_ms ref span_ms s = (span_ms < clock_time_ms_st s - ref)"

definition clock_time_exceed_100ms :: "u32 \<Rightarrow> u32 \<Rightarrow> 'a sys_time_scheme \<Rightarrow> bool" where
  "clock_time_exceed_100ms ref span_100ms s = (span_100ms < clock_time_100ms s - ref)"

definition clock_time_exceed_s :: "u32 \<Rightarrow> u32 \<Rightarrow> 'a sys_time_scheme \<Rightarrow> bool" where
  "clock_time_exceed_s ref span_s s = (span_s < clock_time_s s - ref)"

definition system_timer_handle_ms :: "'a hooks \<Rightarrow> 'a sys_time_scheme \<Rightarrow> 'a sys_time_scheme" where
  "system_timer_handle_ms H s = light_transition_proc H s"

definition system_timer_handle_100ms :: "'a hooks \<Rightarrow> 'a sys_time_scheme \<Rightarrow> 'a sys_time_scheme" where
  "system_timer_handle_100ms H s = heartbeat_poll H (mesh_beacon_poll_100ms H s)"

text \<open>\<open>user_system_time_proc\<close> is empty in this build.\<close>

definition user_system_time_proc :: "'a sys_time_scheme \<Rightarrow> 'a sys_time_scheme" where
  "user_system_time_proc s = s"

definition handle_s :: "'a hooks \<Rightarrow> 'a sys_time_scheme \<Rightarrow> 'a sys_time_scheme" where
  "handle_s H s = user_system_time_proc (mesh_iv_update_st_poll_s H s)"

text \<open>The three nested blocks that advance the counters, the innermost first.\<close>

definition run_s :: "'a hooks \<Rightarrow> u32 \<Rightarrow> 'a sys_time_scheme \<Rightarrow> 'a sys_time_scheme" where
  "run_s H inc_s s =
     (if inc_s \<noteq> 0 then (handle_s H ^^ unat inc_s) (s\<lparr>system_time_s := system_time_s s + inc_s\<rparr>) else s)"

definition run_100ms :: "'a hooks \<Rightarrow> u32 \<Rightarrow> 'a sys_time_scheme \<Rightarrow> 'a sys_time_scheme" where
  "run_100ms H inc_100ms s =
     (if inc_100ms \<noteq> 0 then
        let inc_s = (system_time_100ms s mod 10 + inc_100ms) div 10;
            s = s\<lparr>system_time_100ms := system_time_100ms s + inc_100ms\<rparr>
        in run_s H inc_s ((system_timer_handle_100ms H ^^ unat inc_100ms) s)
      else s)"

definition run_ms :: "'a hooks \<Rightarrow> u32 \<Rightarrow> 'a sys_time_scheme \<Rightarrow> 'a sys_time_scheme" where
  "run_ms H interval_cnt s =
     (if interval_cnt \<noteq> 0 then
        let inc_100ms = (system_time_ms s mod 100 + interval_cnt) div 100;
            s = s\<lparr>system_time_ms := system_time_ms s + interval_cnt\<rparr>
        in run_100ms H inc_100ms ((system_timer_handle_ms H ^^ unat interval_cnt) s)
      else s)"

definition run_procs :: "'a hooks \<Rightarrow> 'a sys_time_scheme \<Rightarrow> 'a sys_time_scheme" where
  "run_procs H s =
     (let s = scene_status_change_check_all H (light_par_save_proc H s) in
      if publish_powerup_random_ms s \<noteq> 0 \<and> clock_time_exceed_ms 0 (ucast (publish_powerup_random_ms s)) s
      then publish_when_powerup H (s\<lparr>publish_powerup_random_ms := 0\<rparr>)
      else s)"

text \<open>\<open>clock_tmp\<close> is the tick count read after the first call.\<close>

definition system_time_run :: "'a hooks \<Rightarrow> u32 \<Rightarrow> 'a sys_time_scheme \<Rightarrow> 'a sys_time_scheme" where
  "system_time_run H clock_tmp s =
     (let s = mesh_iv_update_start_poll H s;
          t_delta = clock_tmp - system_time_tick s
      in if CHECK_INTERVAL \<le> t_delta then
           let interval_cnt = t_delta div CHECK_INTERVAL;
               s = run_ms H interval_cnt s
           in run_procs H (s\<lparr>system_time_tick := system_time_tick s + interval_cnt * CHECK_INTERVAL\<rparr>)
         else s)"

section \<open>What the hooks promise\<close>

definition clock_fields :: "'a sys_time_scheme \<Rightarrow> u32 \<times> u32 \<times> u32 \<times> u32" where
  "clock_fields s = (system_time_tick s, system_time_ms s, system_time_100ms s, system_time_s s)"

lemma clock_fields_eq: "clock_fields s = clock_fields t \<longleftrightarrow> system_time_tick s = system_time_tick t \<and> system_time_ms s = system_time_ms t \<and>
    system_time_100ms s = system_time_100ms t \<and> system_time_s s = system_time_s t"
  by (simp add: clock_fields_def)

lemma clock_fields_eqs: "clock_fields s = clock_fields t \<Longrightarrow> system_time_tick s = system_time_tick t"
  "clock_fields s = clock_fields t \<Longrightarrow> system_time_ms s = system_time_ms t"
  "clock_fields s = clock_fields t \<Longrightarrow> system_time_100ms s = system_time_100ms t"
  "clock_fields s = clock_fields t \<Longrightarrow> system_time_s s = system_time_s t"
  by (simp_all add: clock_fields_eq)

locale time_client =
  fixes H :: "'a hooks"
  assumes keeps_iv: "clock_fields (mesh_iv_update_start_poll H s) = clock_fields s"
    and keeps_light: "clock_fields (light_transition_proc H s) = clock_fields s"
    and keeps_beacon: "clock_fields (mesh_beacon_poll_100ms H s) = clock_fields s"
    and keeps_heartbeat: "clock_fields (heartbeat_poll H s) = clock_fields s"
    and keeps_iv_s: "clock_fields (mesh_iv_update_st_poll_s H s) = clock_fields s"
    and keeps_save: "clock_fields (light_par_save_proc H s) = clock_fields s"
    and keeps_scene: "clock_fields (scene_status_change_check_all H s) = clock_fields s"
    and keeps_publish: "clock_fields (publish_when_powerup H s) = clock_fields s"
begin

lemmas keeps = keeps_iv keeps_light keeps_beacon keeps_heartbeat keeps_iv_s keeps_save keeps_scene keeps_publish

lemma keeps_handlers [simp]: "clock_fields ((system_timer_handle_ms H ^^ n) s) = clock_fields s"
  "clock_fields ((system_timer_handle_100ms H ^^ n) s) = clock_fields s" "clock_fields ((handle_s H ^^ n) s) = clock_fields s"
  by (induction n; simp add: system_timer_handle_ms_def system_timer_handle_100ms_def handle_s_def user_system_time_proc_def keeps)+

lemmas handler_fields [simp] = keeps_handlers [THEN clock_fields_eqs(1)] keeps_handlers [THEN clock_fields_eqs(2)]
  keeps_handlers [THEN clock_fields_eqs(3)] keeps_handlers [THEN clock_fields_eqs(4)]

lemma keeps_procs: "clock_fields (run_procs H s) = clock_fields s"
  by (simp add: run_procs_def Let_def keeps) (simp add: clock_fields_def keeps [THEN clock_fields_eqs(1)] keeps [THEN clock_fields_eqs(2)]
    keeps [THEN clock_fields_eqs(3)] keeps [THEN clock_fields_eqs(4)])

text \<open>The increments of one run, and the counters after it.\<close>

lemma run_s_times: "clock_fields (run_s H n s) = (system_time_tick s, system_time_ms s, system_time_100ms s, system_time_s s + n)"
  by (simp add: run_s_def) (simp add: clock_fields_def)

lemma run_100ms_times:
  "clock_fields (run_100ms H n s) = (system_time_tick s, system_time_ms s, system_time_100ms s + n,
     if n = 0 then system_time_s s else system_time_s s + (system_time_100ms s mod 10 + n) div 10)"
  by (simp add: run_100ms_def Let_def run_s_times) (simp add: clock_fields_def)

lemma run_ms_times:
  "clock_fields (run_ms H n s) = (system_time_tick s, system_time_ms s + n,
     let m = (if n = 0 then 0 else (system_time_ms s mod 100 + n) div 100) in system_time_100ms s + m,
     let m = (if n = 0 then 0 else (system_time_ms s mod 100 + n) div 100) in
       if m = 0 then system_time_s s else system_time_s s + (system_time_100ms s mod 10 + m) div 10)"
  by (simp add: run_ms_def Let_def run_100ms_times) (simp add: clock_fields_def)

text \<open>The four fields after one run, with the increments as plain numbers.\<close>

lemma run_times:
  assumes "t = clock_tmp - system_time_tick s" "CHECK_INTERVAL \<le> t" "n = t div CHECK_INTERVAL"
  shows "clock_fields (system_time_run H clock_tmp s) = (system_time_tick s + n * CHECK_INTERVAL, system_time_ms s + n,
    system_time_100ms s + (system_time_ms s mod 100 + n) div 100,
    system_time_s s + (let m = (system_time_ms s mod 100 + n) div 100 in if m = 0 then 0 else (system_time_100ms s mod 10 + m) div 10))"
proof -
  have n: "n \<noteq> 0" using assms(2,3) by (auto simp: CHECK_INTERVAL_def word_le_nat_alt word_unat_eq_iff unat_div)
  obtain u where u: "u = mesh_iv_update_start_poll H s" by blast
  have f: "system_time_tick u = system_time_tick s" "system_time_ms u = system_time_ms s"
    "system_time_100ms u = system_time_100ms s" "system_time_s u = system_time_s s"
    using keeps_iv [of s] by (simp_all add: u clock_fields_def)
  have "system_time_run H clock_tmp s =
      run_procs H ((run_ms H n u)\<lparr>system_time_tick := system_time_tick (run_ms H n u) + n * CHECK_INTERVAL\<rparr>)"
    unfolding system_time_run_def Let_def u [symmetric] f(1) assms(1) [symmetric] using assms(2,3) by simp
  then have "clock_fields (system_time_run H clock_tmp s) = (system_time_tick (run_ms H n u) + n * CHECK_INTERVAL, snd (clock_fields (run_ms H n u)))"
    by (simp add: keeps_procs) (simp add: clock_fields_def)
  moreover have "system_time_tick (run_ms H n u) = fst (clock_fields (run_ms H n u))" by (simp add: clock_fields_def)
  ultimately show ?thesis using n by (simp add: run_ms_times f Let_def)
qed

end

section \<open>The counters are the time\<close>

text \<open>The state of the clock when \<open>E\<close> ticks have passed since it was started at \<open>c0\<close>.\<close>

definition clock_inv :: "u32 \<Rightarrow> nat \<Rightarrow> 'a sys_time_scheme \<Rightarrow> bool" where
  "clock_inv c0 E s \<longleftrightarrow> E div 16000 < 4294967296 \<and>
     clock_fields s = (c0 + of_nat (E div 16000 * 16000), of_nat (E div 16000), of_nat (E div 16000 div 100), of_nat (E div 16000 div 1000))"

lemma div_step: "a div k + (a mod k + n) div k = (a + n) div (k :: nat)"
proof (cases "k = 0")
  case False
  have "a + n = a mod k + n + a div k * k" by (simp add: mod_div_mult_eq)
  then show ?thesis using div_mult_self1 [OF False, of "a mod k + n" "a div k"] by (simp only:)
qed simp

lemma word_step:
  assumes "a < 4294967296" "n < 4294967196" "k = 10 \<or> k = 100"
  shows "(of_nat a mod of_nat k + of_nat n) div of_nat k = (of_nat ((a mod k + n) div k) :: u32)"
proof -
  have "0 < k" "k \<le> 100" using assms(3) by auto
  then have "a mod k \<le> 100" using mod_less_divisor [of k a] by (meson le_trans less_imp_le)
  then have m: "a mod k + n < 4294967296" using assms(2) by linarith
  then have "(a mod k + n) div k < 4294967296" by (rule le_less_trans [OF div_le_dividend])
  then show ?thesis using assms m
    by (auto simp: word_unat_eq_iff unat_div unat_mod unat_word_ariths unat_of_nat_u32)
qed

lemma of_nat_32: "a < 4294967296 \<Longrightarrow> unat (of_nat a :: u32) = a"
  by (simp add: unat_of_nat_u32)

text \<open>The increments of the three counters in a run at \<open>E'\<close>, as plain numbers.\<close>

lemma clock_increments:
  assumes inv: "clock_inv c0 E s" and "E \<le> E'" "E' - E \<le> 4294951296"
    and t: "t = c0 + of_nat E' - system_time_tick s"
  obtains n m k where "t div CHECK_INTERVAL = of_nat n" "CHECK_INTERVAL \<le> t \<longleftrightarrow> n \<noteq> 0" "n < 268436" "m \<le> n" "k \<le> m"
    "(system_time_ms s mod 100 + of_nat n) div 100 = of_nat m" "(system_time_100ms s mod 10 + of_nat m) div 10 = of_nat k"
    "E div 16000 + n = E' div 16000" "E div 16000 div 100 + m = E' div 16000 div 100" "E div 16000 div 1000 + k = E' div 16000 div 1000"
proof -
  obtain a where a: "a = E div 16000" by blast
  obtain d where d: "d = E' - a * 16000" by blast
  have aE: "a * 16000 \<le> E" "E < a * 16000 + 16000" using a by linarith+
  then have E': "E' = a * 16000 + d" "d < 4294967296" using d assms(2,3) by linarith+
  obtain n where n: "n = d div 16000" by blast
  have q: "E' div 16000 = a + n" using E'(1) n by simp
  have fields: "system_time_tick s = c0 + of_nat (a * 16000)" "system_time_ms s = of_nat a" "system_time_100ms s = of_nat (a div 100)"
    and lt: "a < 4294967296"
    using inv by (simp_all add: clock_inv_def clock_fields_def a)
  have t: "t = of_nat d" by (simp add: t fields E')
  have n_lt: "n < 268436" using n E'(2) by simp
  have i: "CHECK_INTERVAL \<le> t \<longleftrightarrow> n \<noteq> 0" using E'(2) by (simp add: word_le_nat_alt CHECK_INTERVAL_def of_nat_32 t n) linarith
  have w: "t div CHECK_INTERVAL = of_nat n"
    using E'(2) n_lt by (simp add: word_unat_eq_iff unat_div CHECK_INTERVAL_def of_nat_32 n t)
  obtain m where m: "m = (a mod 100 + n) div 100" by blast
  have m_le: "m \<le> n" using mod_less_divisor [of 100 a] unfolding m by linarith
  obtain k where k: "k = (a div 100 mod 10 + m) div 10" by blast
  have k_le: "k \<le> m" using mod_less_divisor [of 10 "a div 100"] unfolding k by linarith
  have inc: "(system_time_ms s mod 100 + of_nat n) div 100 = of_nat m"
    using word_step [OF lt, of n 100] n_lt by (simp add: m fields)
  have inc_s: "(system_time_100ms s mod 10 + of_nat m) div 10 = of_nat k"
    using word_step [of "a div 100" m 10] m_le n_lt lt by (simp add: div_le_dividend [THEN le_less_trans] k fields)
  have s100: "a div 100 + m = (a + n) div 100" unfolding m by (rule div_step)
  have "a div 1000 = a div 100 div 10" "(a + n) div 1000 = (a + n) div 100 div 10" by (simp_all add: div_mult2_eq [symmetric])
  then have s1: "a div 1000 + k = (a + n) div 1000"
    using div_step [of "a div 100" 10 m] s100 by (simp add: k)
  show thesis using that [OF w i n_lt m_le k_le inc inc_s] s100 s1 q a by simp
qed

context time_client
begin

lemma run_short: "\<not> CHECK_INTERVAL \<le> clock_tmp - system_time_tick s \<Longrightarrow> clock_fields (system_time_run H clock_tmp s) = clock_fields s"
  unfolding system_time_run_def Let_def keeps_iv [THEN clock_fields_eqs(1)] by (simp add: keeps_iv)

text \<open>However late a run comes, the clock is right after it, as long as the tick counter did not pass its start again.\<close>

lemma run_inv:
  assumes inv: "clock_inv c0 E s" and "E \<le> E'" "E' - E \<le> 4294951296" "E' div 16000 < 4294967296"
  shows "clock_inv c0 E' (system_time_run H (c0 + of_nat E') s)"
proof -
  obtain t where t: "t = c0 + of_nat E' - system_time_tick s" by blast
  obtain n m k where inc: "t div CHECK_INTERVAL = of_nat n" "CHECK_INTERVAL \<le> t \<longleftrightarrow> n \<noteq> 0" "n < 268436" "m \<le> n" "k \<le> m"
    "(system_time_ms s mod 100 + of_nat n) div 100 = of_nat m" "(system_time_100ms s mod 10 + of_nat m) div 10 = of_nat k"
    "E div 16000 + n = E' div 16000" "E div 16000 div 100 + m = E' div 16000 div 100" "E div 16000 div 1000 + k = E' div 16000 div 1000"
    by (rule clock_increments [OF assms(1-3) t])
  have s: "system_time_tick s = c0 + of_nat (E div 16000 * 16000)" "system_time_ms s = of_nat (E div 16000)"
    "system_time_100ms s = of_nat (E div 16000 div 100)" "system_time_s s = of_nat (E div 16000 div 1000)"
    using inv by (simp_all add: clock_inv_def clock_fields_def)
  show ?thesis
  proof (cases "CHECK_INTERVAL \<le> t")
    case False
    then show ?thesis using run_short [of "c0 + of_nat E'" s] inc(2,8) inv by (simp add: t clock_inv_def)
  next
    case True
    have m0: "(of_nat m = (0 :: u32)) = (m = 0)" using inc(3,4) by (simp add: word_unat_eq_iff of_nat_32)
    have k0: "m = 0 \<Longrightarrow> k = 0" using inc(5) by simp
    have "clock_fields (system_time_run H (c0 + of_nat E') s) = (system_time_tick s + of_nat n * CHECK_INTERVAL,
        system_time_ms s + of_nat n, system_time_100ms s + of_nat m, system_time_s s + of_nat k)"
      using run_times [OF t True refl] k0 by (cases "m = 0") (simp_all add: inc(1,6) m0 Let_def inc(7))
    also have "\<dots> = (c0 + of_nat ((E div 16000 + n) * 16000), of_nat (E div 16000 + n), of_nat (E div 16000 div 100 + m),
        of_nat (E div 16000 div 1000 + k))"
      by (simp add: s CHECK_INTERVAL_def algebra_simps)
    finally show ?thesis using assms(4) unfolding inc(8-10) by (simp add: clock_inv_def)
  qed
qed

end

text \<open>Readings of the clock, as the ticks since its start, that come often enough: the counter has \<open>2 ^ 32\<close> ticks, 268 seconds.\<close>

primrec paced :: "nat \<Rightarrow> nat list \<Rightarrow> bool" where
  "paced E [] = True"
| "paced E (x # xs) \<longleftrightarrow> E \<le> x \<and> x - E \<le> 4294951296 \<and> x div 16000 < 4294967296 \<and> paced x xs"

context time_client
begin

definition runs_at :: "u32 \<Rightarrow> nat list \<Rightarrow> 'a sys_time_scheme \<Rightarrow> 'a sys_time_scheme" where
  "runs_at c0 xs s = fold (\<lambda>x. system_time_run H (c0 + of_nat x)) xs s"

lemma runs_inv: "clock_inv c0 E s \<Longrightarrow> paced E xs \<Longrightarrow> clock_inv c0 (last (E # xs)) (runs_at c0 xs s)"
proof (induction xs arbitrary: E s)
  case (Cons x xs)
  then show ?case using run_inv [of c0 E s x] by (simp add: runs_at_def)
qed (simp add: runs_at_def)

end

section \<open>Every period is handled once\<close>

text \<open>Hooks that only record that they were called.\<close>

datatype sys_call = Call_iv_start | Call_light | Call_beacon | Call_heartbeat | Call_iv_s | Call_save | Call_scene | Call_publish

record traced = sys_time +
  calls :: "sys_call list"

definition record_call :: "sys_call \<Rightarrow> 'a traced_scheme \<Rightarrow> 'a traced_scheme" where
  "record_call c s = s\<lparr>calls := calls s @ [c]\<rparr>"

definition trace_hooks :: "'a traced_scheme time_hooks" where
  "trace_hooks = \<lparr>mesh_iv_update_start_poll = record_call Call_iv_start, light_transition_proc = record_call Call_light,
     mesh_beacon_poll_100ms = record_call Call_beacon, heartbeat_poll = record_call Call_heartbeat,
     mesh_iv_update_st_poll_s = record_call Call_iv_s, light_par_save_proc = record_call Call_save,
     scene_status_change_check_all = record_call Call_scene, publish_when_powerup = record_call Call_publish\<rparr>"

interpretation traced: time_client trace_hooks
  by unfold_locales (simp_all add: trace_hooks_def record_call_def clock_fields_def)

definition called :: "'a traced_scheme \<Rightarrow> sys_call \<Rightarrow> nat" where
  "called s c = count_list (calls s) c"

lemma called_record [simp]: "called (record_call c s) d = called s d + (if c = d then 1 else 0)"
  by (simp add: called_def record_call_def)

lemma called_fields [simp]: "called (s\<lparr>system_time_ms := x\<rparr>) = called s" "called (s\<lparr>system_time_100ms := x\<rparr>) = called s"
  "called (s\<lparr>system_time_s := x\<rparr>) = called s" "called (s\<lparr>system_time_tick := x\<rparr>) = called s" "called (s\<lparr>publish_powerup_random_ms := y\<rparr>) = called s"
  by (simp_all add: called_def fun_eq_iff)

lemma trace_hooks_simps [simp]: "mesh_iv_update_start_poll trace_hooks = record_call Call_iv_start"
  "light_transition_proc trace_hooks = record_call Call_light" "mesh_beacon_poll_100ms trace_hooks = record_call Call_beacon"
  "heartbeat_poll trace_hooks = record_call Call_heartbeat" "mesh_iv_update_st_poll_s trace_hooks = record_call Call_iv_s"
  "light_par_save_proc trace_hooks = record_call Call_save" "scene_status_change_check_all trace_hooks = record_call Call_scene"
  "publish_when_powerup trace_hooks = record_call Call_publish"
  by (simp_all add: trace_hooks_def)

lemma called_handlers [simp]:
  "called ((system_timer_handle_ms trace_hooks ^^ n) s) c = called s c + (if c = Call_light then n else 0)"
  "called ((system_timer_handle_100ms trace_hooks ^^ n) s) c = called s c + (if c = Call_beacon \<or> c = Call_heartbeat then n else 0)"
  "called ((handle_s trace_hooks ^^ n) s) c = called s c + (if c = Call_iv_s then n else 0)"
  by (induction n; auto simp: system_timer_handle_ms_def system_timer_handle_100ms_def handle_s_def user_system_time_proc_def)+

lemma record_call_fields [simp]: "system_time_ms (record_call c s) = system_time_ms s" "system_time_100ms (record_call c s) = system_time_100ms s"
  "system_time_s (record_call c s) = system_time_s s" "system_time_tick (record_call c s) = system_time_tick s"
  "publish_powerup_random_ms (record_call c s) = publish_powerup_random_ms s"
  by (simp_all add: record_call_def)

lemma record_call_clock [simp]: "clock_fields (record_call c s) = clock_fields s"
  by (simp add: clock_fields_def)

definition periodic :: "sys_call \<Rightarrow> bool" where
  "periodic c \<longleftrightarrow> c \<in> {Call_light, Call_beacon, Call_heartbeat, Call_iv_s}"

lemma called_procs: "periodic c \<Longrightarrow> called (run_procs trace_hooks s) c = called s c"
  by (auto simp: run_procs_def Let_def periodic_def)

text \<open>How often a periodic call is due in \<open>n\<close> milliseconds.\<close>

primrec due :: "sys_call \<Rightarrow> nat \<Rightarrow> nat" where
  "due Call_light n = n"
| "due Call_beacon n = n div 100"
| "due Call_heartbeat n = n div 100"
| "due Call_iv_s n = n div 1000"
| "due Call_iv_start n = 0"
| "due Call_save n = 0"
| "due Call_scene n = 0"
| "due Call_publish n = 0"

lemma called_run:
  assumes "clock_inv c0 E s" "E \<le> E'" "E' - E \<le> 4294951296" "periodic c" "called s c = due c (E div 16000)"
  shows "called (system_time_run trace_hooks (c0 + of_nat E') s) c = due c (E' div 16000)"
proof -
  obtain t where t: "t = c0 + of_nat E' - system_time_tick s" by blast
  obtain n m k where inc: "t div CHECK_INTERVAL = of_nat n" "CHECK_INTERVAL \<le> t \<longleftrightarrow> n \<noteq> 0" "n < 268436" "m \<le> n" "k \<le> m"
    "(system_time_ms s mod 100 + of_nat n) div 100 = of_nat m" "(system_time_100ms s mod 10 + of_nat m) div 10 = of_nat k"
    "E div 16000 + n = E' div 16000" "E div 16000 div 100 + m = E' div 16000 div 100" "E div 16000 div 1000 + k = E' div 16000 div 1000"
    by (rule clock_increments [OF assms(1-3) t])
  have u: "unat (of_nat n :: u32) = n" "unat (of_nat m :: u32) = m" "unat (of_nat k :: u32) = k"
    using inc(3-5) by (simp_all add: of_nat_32)
  have z: "(of_nat n = (0 :: u32)) = (n = 0)" "(of_nat m = (0 :: u32)) = (m = 0)" "(of_nat k = (0 :: u32)) = (k = 0)"
    using u by (simp_all add: word_unat_eq_iff)
  obtain w where w: "w = record_call Call_iv_start s" by blast
  have run: "system_time_run trace_hooks (c0 + of_nat E') s = (if n = 0 then w else
      run_procs trace_hooks ((run_ms trace_hooks (of_nat n) w)\<lparr>system_time_tick :=
        system_time_tick (run_ms trace_hooks (of_nat n) w) + of_nat n * CHECK_INTERVAL\<rparr>))"
    unfolding system_time_run_def Let_def by (simp add: w t [symmetric] inc(1,2))
  have "called w c = called s c" using assms(4) by (auto simp: w periodic_def)
  then have ms: "called (run_ms trace_hooks (of_nat n) w) c = called s c + due c 0 +
      (if c = Call_light then n else if c = Call_beacon \<or> c = Call_heartbeat then m else if c = Call_iv_s then k else 0)"
    using inc(4,5) assms(4) by (cases "n = 0"; cases "m = 0"; cases "k = 0")
      (auto simp: run_ms_def run_100ms_def run_s_def Let_def w inc(6,7) u z periodic_def)
  have "called (system_time_run trace_hooks (c0 + of_nat E') s) c = called s c +
      (if c = Call_light then n else if c = Call_beacon \<or> c = Call_heartbeat then m else if c = Call_iv_s then k else 0)"
    using ms inc(4,5) assms(4) \<open>called w c = called s c\<close> by (auto simp: run called_procs periodic_def)
  then show ?thesis using assms(4,5) inc(8-10) by (auto simp: periodic_def)
qed

lemma called_runs:
  "clock_inv c0 E s \<Longrightarrow> paced E xs \<Longrightarrow> periodic c \<Longrightarrow> called s c = due c (E div 16000) \<Longrightarrow>
    called (traced.runs_at c0 xs s) c = due c (last (E # xs) div 16000)"
proof (induction xs arbitrary: E s)
  case (Cons x xs)
  have "clock_inv c0 x (system_time_run trace_hooks (c0 + of_nat x) s)" using Cons.prems(1,2) by (intro traced.run_inv) auto
  moreover have "called (system_time_run trace_hooks (c0 + of_nat x) s) c = due c (x div 16000)"
    using Cons.prems by (intro called_run) auto
  ultimately show ?case using Cons.IH [of x "system_time_run trace_hooks (c0 + of_nat x) s"] Cons.prems(2,3)
    by (simp add: traced.runs_at_def)
qed (simp add: traced.runs_at_def)

text \<open>
C7: The clock neither loses nor gains time, however irregularly the main loop comes round: after any
sequence of runs, no two of which are 268 seconds apart, the three counters are the elapsed
ticks divided by the length of a millisecond, a tenth of a second and a second (for the 49 days the
millisecond counter lasts), and every periodic handler has been called exactly once per period.
\<close>

theorem system_time_exact:
  assumes "clock_fields s = (c0, 0, 0, 0)" "calls s = []" "paced 0 xs" "E = last (0 # xs)"
    and "t = fold (\<lambda>x. system_time_run trace_hooks (c0 + of_nat x)) xs s"
  shows "unat (system_time_ms t) = E div 16000 \<and> unat (system_time_100ms t) = E div 1600000 \<and> unat (system_time_s t) = E div 16000000 \<and>
    count_list (calls t) Call_light = E div 16000 \<and> count_list (calls t) Call_beacon = E div 1600000 \<and>
    count_list (calls t) Call_heartbeat = E div 1600000 \<and> count_list (calls t) Call_iv_s = E div 16000000"
proof -
  have inv: "clock_inv c0 0 s" using assms(1) by (simp add: clock_inv_def)
  have t: "t = traced.runs_at c0 xs s" using assms(5) by (simp add: traced.runs_at_def)
  have "clock_inv c0 E t" using traced.runs_inv [OF inv assms(3)] by (simp add: t assms(4))
  then have lt: "E div 16000 < 4294967296" and f: "system_time_ms t = of_nat (E div 16000)"
    "system_time_100ms t = of_nat (E div 16000 div 100)" "system_time_s t = of_nat (E div 16000 div 1000)"
    by (simp_all add: clock_inv_def clock_fields_def)
  have "called s c = due c (0 div 16000)" for c using assms(2) by (cases c) (simp_all add: called_def)
  then have c: "periodic c \<Longrightarrow> count_list (calls t) c = due c (E div 16000)" for c
    using called_runs [OF inv assms(3)] by (simp add: called_def t assms(4))
  have d: "E div 16000 div 100 = E div 1600000" "E div 16000 div 1000 = E div 16000000" by (simp_all add: div_mult2_eq [symmetric])
  have "unat (system_time_ms t) = E div 16000" unfolding f using lt by (rule of_nat_32)
  moreover have "unat (system_time_100ms t) = E div 1600000" "unat (system_time_s t) = E div 16000000"
    unfolding f d [symmetric] by (rule of_nat_32 [OF le_less_trans [OF div_le_dividend lt]])+
  ultimately show ?thesis using c by (simp add: periodic_def d)
qed

lemma system_time_exact_witness:
  "unat (system_time_ms (fold (\<lambda>x. system_time_run trace_hooks (0xFFFFFF00 + of_nat x)) [100, 17000, 4000000, 20000000]
     \<lparr>system_time_ms = 0, system_time_100ms = 0, system_time_s = 0, system_time_tick = 0xFFFFFF00, publish_powerup_random_ms = 0, calls = []\<rparr>)) = 1250"
  using system_time_exact [of "\<lparr>system_time_ms = 0, system_time_100ms = 0, system_time_s = 0, system_time_tick = 0xFFFFFF00,
      publish_powerup_random_ms = 0, calls = []\<rparr>" "0xFFFFFF00" "[100, 17000, 4000000, 20000000]", OF _ _ _ refl refl]
  by (simp add: clock_fields_def)

end
