(* ===== verification/Heartbeat.thy ===== *)
theory Heartbeat
  imports SystemTime
begin

text \<open>
  The heartbeat of the node (\<open>vendor/common/app_heartbeat.c\<close>, with the types of \<open>mesh_node.h\<close>): the configuration
  messages that set publication and subscription, the poll every tenth of a second that publishes, and what a
  received heartbeat does. The functions of the stack it asks are an environment \<open>hb_env\<close>; what it
  sends and stores is a log. \<open>FEATURE_LOWPOWER_EN\<close> and \<open>FEATURE_RELAY_EN\<close> are 0 in this build.
\<close>

section \<open>State\<close>

record hb_pub_t =
  dst_adr :: u16
  cnt_val :: u16
  cnt_log :: u8
  per_log :: u8
  ttl :: u8
  feature :: u16
  netkeyidx :: u16

record hb_sub_t =
  sub_adr :: u16
  sub_dst :: u16
  sub_per_log :: u8
  sub_cnt_log :: u8
  min_hops :: u8
  max_hops :: u8
  sub_per_val :: u16
  sub_cnt_val :: u16

text \<open>Messages to the configuration client, control messages of the transport layer, and stores of the configuration.\<close>

datatype hb_out =
    Rsp_cfg u16 "u8 list" u16
  | Upper_ctl u8 "u8 list" u16 u16 u8
  | Store_md_cfg

record hb_st = traced +
  hb_pub :: hb_pub_t
  hb_sub :: hb_sub_t
  heartbeat_en :: u8
  hb_sts_change :: u8
  hb_pub_100ms :: u32
  hb_sub_100ms :: u32
  cfg_relay :: u8
  cfg_gatt_proxy :: u8
  cfg_frid :: u8
  sys_tick :: u32
  sent :: "hb_out list"

text \<open>
  What the stack answers: the address of the node, the class of an address, whether a network key is known, the features of
  the composition data, whether the proxy is ready, and the result of sending.
\<close>

record hb_env =
  ele_adr_primary :: u16
  is_unicast_adr :: "u16 \<Rightarrow> bool"
  is_group_adr :: "u16 \<Rightarrow> bool"
  mesh_net_key_find :: "u16 \<Rightarrow> u32"
  page0_feature :: u16
  mesh_is_proxy_ready :: bool
  endianness_swap_u16 :: "u8 \<times> u8 \<Rightarrow> u8 \<times> u8"
  rsp_err :: int

definition NET_KEY_MAX :: u32 where "NET_KEY_MAX = 2"
definition ST_SUCCESS :: u8 where "ST_SUCCESS = 0"
definition ST_INVALID_NETKEY :: u8 where "ST_INVALID_NETKEY = 4"
definition HEARTBEAT_PUB_STATUS :: u16 where "HEARTBEAT_PUB_STATUS = 0x06"
definition HEARTBEAT_SUB_GET :: u16 where "HEARTBEAT_SUB_GET = 0x3A80"
definition HEARTBEAT_SUB_STATUS :: u16 where "HEARTBEAT_SUB_STATUS = 0x3C80"
definition CMD_CTL_HEARTBEAT :: u8 where "CMD_CTL_HEARTBEAT = 0x0a"
definition RELAY_SUPPORT_ENABLE :: u8 where "RELAY_SUPPORT_ENABLE = 1"
definition GATT_PROXY_SUPPORT_ENABLE :: u8 where "GATT_PROXY_SUPPORT_ENABLE = 1"
definition FRIEND_SUPPORT_ENABLE :: u8 where "FRIEND_SUPPORT_ENABLE = 1"
definition MESH_HB_RELAY_BIT :: nat where "MESH_HB_RELAY_BIT = 0"
definition MESH_HB_PROXY_BIT :: nat where "MESH_HB_PROXY_BIT = 1"
definition MESH_HB_FRI_BIT :: nat where "MESH_HB_FRI_BIT = 2"
definition MESH_HB_LOWPOWER_BIT :: nat where "MESH_HB_LOWPOWER_BIT = 3"

section \<open>Counts and their logarithms\<close>

definition get_cnt_log_to_val :: "u8 \<Rightarrow> u16" where
  "get_cnt_log_to_val v =
     (if v = 0 \<or> (0x11 < v \<and> v < 0xff) then 0
      else if v = 0x11 then 0xfffe
      else if v = 0xff then 0xffff
      else push_bit (unat (v - 1)) 1)"

function high_loop :: "u16 \<Rightarrow> nat \<Rightarrow> u8" where
  "high_loop v i = (if i < 16 then (if unat v < 2 ^ i then of_nat i - 1 else high_loop v (i + 1)) else 15)"
  by pat_completeness auto
termination by (relation "measure (\<lambda>(v, i). 16 - i)") auto

declare high_loop.simps [simp del]

definition get_high_bits :: "u16 \<Rightarrow> u8" where
  "get_high_bits v = high_loop v 0"

definition cal_heartbeat_count_log :: "u16 \<Rightarrow> u8" where
  "cal_heartbeat_count_log v = (if v = 0 then 0 else if v = 0xffff then 0xff else get_high_bits v + 1)"

definition disptch_heartbeat_count_log :: "u8 \<Rightarrow> u8" where
  "disptch_heartbeat_count_log v = (if 12 \<le> v \<and> v \<le> 0xfe then 0 else 1)"

definition dispatch_heartbeat_pub_ttl :: "u8 \<Rightarrow> u8" where
  "dispatch_heartbeat_pub_ttl v = (if 0x80 \<le> v then 0 else 1)"

section \<open>Publication\<close>

definition send_out :: "hb_out \<Rightarrow> 'a hb_st_scheme \<Rightarrow> 'a hb_st_scheme" where
  "send_out x s = s\<lparr>sent := sent s @ [x]\<rparr>"

definition mesh_cmd_sig_lowpower_heartbeat :: "'a hb_st_scheme \<Rightarrow> 'a hb_st_scheme" where
  "mesh_cmd_sig_lowpower_heartbeat s =
     (if bit (feature (hb_pub s)) MESH_HB_LOWPOWER_BIT
      then s\<lparr>hb_sts_change := 1, hb_pub_100ms := clock_time_100ms s\<rparr> else s)"

text \<open>The status handlers do nothing; the result is an error code.\<close>

definition mesh_cmd_sig_heart_pub_status :: "'a hb_st_scheme \<Rightarrow> int \<times> 'a hb_st_scheme" where
  "mesh_cmd_sig_heart_pub_status s = (-1, s)"

definition mesh_cmd_sig_heartbeat_pub_get :: "hb_env \<Rightarrow> u16 \<Rightarrow> 'a hb_st_scheme \<Rightarrow> int \<times> 'a hb_st_scheme" where
  "mesh_cmd_sig_heartbeat_pub_get env adr_src s =
     (let p = hb_pub s;
          status = (if mesh_net_key_find env (netkeyidx p) = NET_KEY_MAX then ST_INVALID_NETKEY else ST_SUCCESS)
      in (rsp_err env, send_out (Rsp_cfg HEARTBEAT_PUB_STATUS
           [status, lo8 (dst_adr p), hi8 (dst_adr p), cnt_log p, per_log p, ttl p, lo8 (feature p), hi8 (feature p),
            lo8 (netkeyidx p), hi8 (netkeyidx p)] adr_src) s))"

text \<open>The message is \<open>dst\<close>, \<open>count_log\<close>, \<open>period_log\<close>, \<open>ttl\<close>, \<open>features\<close> and \<open>netkeyindex\<close>.\<close>

definition mesh_cmd_sig_heartbeat_pub_set :: "hb_env \<Rightarrow> u8 list \<Rightarrow> u16 \<Rightarrow> 'a hb_st_scheme \<Rightarrow> int \<times> 'a hb_st_scheme" where
  "mesh_cmd_sig_heartbeat_pub_set env par adr_src s =
     (let s = s\<lparr>hb_pub := \<lparr>dst_adr = mk16 (par ! 1) (par ! 0), cnt_val = get_cnt_log_to_val (par ! 2), cnt_log = par ! 2, per_log = par ! 3,
            ttl = par ! 4, feature = mk16 (par ! 6) (par ! 5) AND 0x000f, netkeyidx = mk16 (par ! 8) (par ! 7)\<rparr>\<rparr>;
          s = snd (mesh_cmd_sig_heartbeat_pub_get env adr_src s);
          s = s\<lparr>hb_pub_100ms := clock_time_100ms s - push_bit 31 1\<rparr>
      in (-1, send_out Store_md_cfg s))"

definition mesh_heartbeat_cal_feature_part :: "u16 \<Rightarrow> 'a hb_st_scheme \<Rightarrow> u16" where
  "mesh_heartbeat_cal_feature_part fea s =
     (let f = feature (hb_pub s) in
      (if bit f MESH_HB_RELAY_BIT \<and> RELAY_SUPPORT_ENABLE = cfg_relay s then push_bit MESH_HB_RELAY_BIT 1 else 0) OR
      (if bit f MESH_HB_PROXY_BIT \<and> GATT_PROXY_SUPPORT_ENABLE = cfg_gatt_proxy s then push_bit MESH_HB_PROXY_BIT 1 else 0) OR
      (if bit f MESH_HB_FRI_BIT \<and> FRIEND_SUPPORT_ENABLE = cfg_frid s then push_bit MESH_HB_FRI_BIT 1 else 0))"

definition heartbeat_cmd_send_conf :: "hb_env \<Rightarrow> u8 \<Rightarrow> u16 \<Rightarrow> u16 \<Rightarrow> 'a hb_st_scheme \<Rightarrow> 'a hb_st_scheme" where
  "heartbeat_cmd_send_conf env t fea dst s =
     (let f = mesh_heartbeat_cal_feature_part fea s in
      send_out (Upper_ctl CMD_CTL_HEARTBEAT [t AND 0x7f, lo8 f, hi8 f] (ele_adr_primary env) dst 0) s)"

text \<open>\<open>friend_cmd_send_fn(0, CMD_CTL_HEARTBEAT)\<close>.\<close>

definition friend_cmd_send_heartbeat :: "hb_env \<Rightarrow> 'a hb_st_scheme \<Rightarrow> 'a hb_st_scheme" where
  "friend_cmd_send_heartbeat env s = heartbeat_cmd_send_conf env (ttl (hb_pub s)) (page0_feature env) (dst_adr (hb_pub s)) s"

definition set_heartbeat_feature :: "hb_env \<Rightarrow> 'a hb_st_scheme \<Rightarrow> 'a hb_st_scheme" where
  "set_heartbeat_feature env s =
     s\<lparr>hb_pub := (hb_pub s)\<lparr>feature := (feature (hb_pub s) AND NOT 0x000f) OR
       (if GATT_PROXY_SUPPORT_ENABLE = cfg_gatt_proxy s \<and> mesh_is_proxy_ready env then push_bit MESH_HB_PROXY_BIT 1 else 0) OR
       (if FRIEND_SUPPORT_ENABLE = cfg_frid s then push_bit MESH_HB_FRI_BIT 1 else 0)\<rparr>\<rparr>"

text \<open>The period of a logarithm, in seconds; \<open>None\<close> is a prohibited one.\<close>

definition period_of :: "u32 \<Rightarrow> u8 \<Rightarrow> u32 option" where
  "period_of zero l = (if l = 0 then Some zero else if l \<le> 0x11 then Some (push_bit (unat (l - 1)) 1) else None)"

definition pub_periodic :: "hb_env \<Rightarrow> u32 \<Rightarrow> 'a hb_st_scheme \<Rightarrow> 'a hb_st_scheme option" where
  "pub_periodic env heartbeat_pb_per s =
     (if cnt_val (hb_pub s) \<noteq> 0 \<and> hb_sts_change s = 0 \<and> clock_time_exceed_100ms (hb_pub_100ms s) (heartbeat_pb_per * 10) s then
        let s = s\<lparr>hb_pub_100ms := clock_time_100ms s\<rparr> in
        if cnt_log (hb_pub s) = 0xff then Some (friend_cmd_send_heartbeat env s)
        else if cnt_log (hb_pub s) \<le> 0x11 then
          let v = cnt_val (hb_pub s) - 1
          in Some (friend_cmd_send_heartbeat env (s\<lparr>hb_pub := (hb_pub s)\<lparr>cnt_val := v, cnt_log := cal_heartbeat_count_log v\<rparr>\<rparr>))
        else None
      else Some s)"

definition pub_change :: "hb_env \<Rightarrow> 'a hb_st_scheme \<Rightarrow> 'a hb_st_scheme" where
  "pub_change env s =
     (if hb_sts_change s \<noteq> 0 \<and> clock_exceeds (sys_tick s) (hb_pub_100ms s) 1 then
        friend_cmd_send_heartbeat env (s\<lparr>hb_pub_100ms := clock_time_100ms s, hb_sts_change := hb_sts_change s - 1\<rparr>)
      else s)"

text \<open>A prohibited count has set \<open>hb_pub_100ms\<close> when the function returns.\<close>

definition mesh_heartbeat_pub_poll :: "hb_env \<Rightarrow> 'a hb_st_scheme \<Rightarrow> 'a hb_st_scheme" where
  "mesh_heartbeat_pub_poll env s =
     (if dst_adr (hb_pub s) \<noteq> 0 \<and> mesh_net_key_find env (netkeyidx (hb_pub s)) \<noteq> NET_KEY_MAX then
        (case period_of 1 (per_log (hb_pub s)) of
           None \<Rightarrow> s
         | Some p \<Rightarrow> (case pub_periodic env p s of
               None \<Rightarrow> s\<lparr>hb_pub_100ms := clock_time_100ms s\<rparr>
             | Some s \<Rightarrow> pub_change env s))
      else s)"

section \<open>Subscription\<close>

definition mesh_cmd_sig_heartbeat_sub_get :: "hb_env \<Rightarrow> u16 \<Rightarrow> u16 \<Rightarrow> 'a hb_st_scheme \<Rightarrow> int \<times> 'a hb_st_scheme" where
  "mesh_cmd_sig_heartbeat_sub_get env op adr_src s =
     (let p = hb_sub s;
          body = [lo8 (sub_adr p), hi8 (sub_adr p), lo8 (sub_dst p), hi8 (sub_dst p), sub_per_log p, sub_cnt_log p, min_hops p, max_hops p];
          body = (if (sub_adr p = 0 \<or> sub_dst p = 0) \<and> op = HEARTBEAT_SUB_GET then replicate 8 0 else body)
      in (rsp_err env, send_out (Rsp_cfg HEARTBEAT_SUB_STATUS (ST_SUCCESS # body) adr_src) s))"

text \<open>The message is \<open>src\<close>, \<open>dst\<close> and \<open>period_log\<close>; the early returns keep what has been assigned.\<close>

definition mesh_cmd_sig_heartbeat_sub_set :: "hb_env \<Rightarrow> u8 list \<Rightarrow> u16 \<Rightarrow> u16 \<Rightarrow> 'a hb_st_scheme \<Rightarrow> int \<times> 'a hb_st_scheme" where
  "mesh_cmd_sig_heartbeat_sub_set env par op adr_src s =
     (let src = mk16 (par ! 1) (par ! 0); dst = mk16 (par ! 3) (par ! 2); period_log = par ! 4 in
      if is_unicast_adr env src \<or> src = 0 then
        let p = (hb_sub s)\<lparr>sub_adr := src\<rparr> in
        if dst = ele_adr_primary env \<or> is_group_adr env dst \<or> dst = 0 then
          let p = p\<lparr>sub_dst := dst, sub_per_log := period_log\<rparr>;
              p = (if src = 0 \<or> dst = 0 then p\<lparr>sub_adr := 0, sub_dst := 0, sub_per_log := 0, sub_cnt_log := 0, sub_cnt_val := 0\<rparr> else p);
              p = (if is_unicast_adr env src \<and> (is_group_adr env dst \<or> is_unicast_adr env dst) \<and> period_log \<noteq> 0
                   then p\<lparr>sub_cnt_log := 0, sub_cnt_val := 0, min_hops := 0x7f, max_hops := 0\<rparr> else p);
              p = p\<lparr>sub_per_val := get_cnt_log_to_val (sub_per_log p)\<rparr>;
              s = send_out Store_md_cfg (s\<lparr>hb_sub := p\<rparr>);
              s = snd (mesh_cmd_sig_heartbeat_sub_get env op adr_src s)
          in (-1, s\<lparr>hb_sub_100ms := clock_time_100ms s\<rparr>)
        else (-1, s\<lparr>hb_sub := p\<rparr>)
      else (-1, s))"

definition mesh_cmd_sig_heartbeat_sub_status :: "'a hb_st_scheme \<Rightarrow> int \<times> 'a hb_st_scheme" where
  "mesh_cmd_sig_heartbeat_sub_status s = (-1, s)"

text \<open>
  A received heartbeat: source and TTL of the network header and the three bytes of the message, which are returned with the
  feature bytes swapped.
\<close>

definition mesh_process_hb_sub :: "hb_env \<Rightarrow> u16 \<Rightarrow> u8 \<Rightarrow> u8 list \<Rightarrow> 'a hb_st_scheme \<Rightarrow> u8 list \<times> 'a hb_st_scheme" where
  "mesh_process_hb_sub env nw_src nw_ttl data s =
     (let p = hb_sub s in
      if sub_dst p = 0 \<or> sub_adr p = 0 \<or> sub_per_log p = 0 then (data, s)
      else if sub_adr p \<noteq> nw_src then (data, s)
      else let (b1, b2) = endianness_swap_u16 env (data ! 1, data ! 2);
               iniTTL = data ! 0 AND 0x7f;
               p = p\<lparr>min_hops := (if iniTTL \<noteq> 0 then 1 else 0), max_hops := iniTTL - nw_ttl + 1, sub_cnt_val := sub_cnt_val p + 1\<rparr>;
               p = p\<lparr>sub_cnt_log := cal_heartbeat_count_log (sub_cnt_val p)\<rparr>
           in (data[1 := b1, 2 := b2], s\<lparr>hb_sub := p\<rparr>))"

definition mesh_heartbeat_sub_poll :: "'a hb_st_scheme \<Rightarrow> 'a hb_st_scheme" where
  "mesh_heartbeat_sub_poll s =
     (if sub_per_val (hb_sub s) \<noteq> 0 then
        (case period_of 0 (sub_per_log (hb_sub s)) of
           None \<Rightarrow> s
         | Some p \<Rightarrow>
             if clock_time_exceed_100ms (hb_sub_100ms s) (p * 10) s then
               let v = sub_per_val (hb_sub s) - 1
               in s\<lparr>hb_sub_100ms := clock_time_100ms s, hb_sub := (hb_sub s)\<lparr>sub_per_val := v, sub_per_log := cal_heartbeat_count_log v\<rparr>\<rparr>
             else s)
      else s)"

definition mesh_heartbeat_poll_100ms :: "hb_env \<Rightarrow> 'a hb_st_scheme \<Rightarrow> 'a hb_st_scheme" where
  "mesh_heartbeat_poll_100ms env s =
     (if heartbeat_en s \<noteq> 0 then mesh_heartbeat_pub_poll env (mesh_heartbeat_sub_poll s) else s)"

definition init_heartbeat_str :: "'a hb_st_scheme \<Rightarrow> 'a hb_st_scheme" where
  "init_heartbeat_str s = s"

end
