(* ===== verification/HeartbeatFacts.thy ===== *)
theory HeartbeatFacts
  imports Heartbeat
begin

text \<open>
  The heartbeat against its configuration: the logarithm of a count is the right power of two, and a
  configured publication sends the configured number of heartbeats at the configured distance, as a run of the whole software
  clock. The interface between the clock and the heartbeat is the locale \<open>heartbeat_client\<close>.
\<close>

section \<open>Logarithms\<close>

lemma high_loop_bounds:
  "i \<le> 16 \<Longrightarrow> 1 \<le> i \<Longrightarrow> 2 ^ (i - 1) \<le> unat v \<Longrightarrow>
     unat (high_loop v i) < 16 \<and> 2 ^ unat (high_loop v i) \<le> unat v \<and> unat v < 2 ^ (unat (high_loop v i) + 1)"
proof (induction v i rule: high_loop.induct)
  case (1 v i)
  consider "i = 16" | "i < 16" "unat v < 2 ^ i" | "i < 16" "\<not> unat v < 2 ^ i" using 1(2) by linarith
  then show ?case
  proof cases
    case 1
    then show ?thesis using \<open>2 ^ (i - 1) \<le> unat v\<close> unat_less_65536 [of v] by (simp add: high_loop.simps [of v 16])
  next
    case 2
    have "of_nat i - 1 = (of_nat (i - 1) :: u8)" using \<open>1 \<le> i\<close> by (simp add: of_nat_diff)
    then have "unat (high_loop v i) = i - 1" using 2 by (simp add: high_loop.simps [of v i])
    then show ?thesis using 2 1(3,4) by simp
  next
    case 3
    then show ?thesis using 1(1) 1(3) by (simp add: high_loop.simps [of v i])
  qed
qed

lemma high_loop_from_0: "v \<noteq> 0 \<Longrightarrow> high_loop v 0 = high_loop v 1"
  by (simp add: high_loop.simps [of v 0] word_unat_eq_iff)

lemma count_log_bounds:
  assumes "v \<noteq> 0" "v \<noteq> 0xffff"
  shows "1 \<le> unat (cal_heartbeat_count_log v) \<and> unat (cal_heartbeat_count_log v) \<le> 16 \<and>
    2 ^ (unat (cal_heartbeat_count_log v) - 1) \<le> unat v \<and> unat v < 2 ^ unat (cal_heartbeat_count_log v)"
proof -
  obtain h where h: "h = high_loop v 1" by blast
  have "1 \<le> unat v" using assms(1) by (simp add: word_unat_eq_iff Suc_le_eq)
  then have b: "unat h < 16" "2 ^ unat h \<le> unat v" "unat v < 2 ^ (unat h + 1)" using high_loop_bounds [of 1 v] by (simp_all add: h)
  have c: "cal_heartbeat_count_log v = h + 1" using assms by (simp add: cal_heartbeat_count_log_def get_high_bits_def high_loop_from_0 h)
  have "unat (h + 1) = unat h + 1" using b(1) by (simp add: unat_add_u8)
  then show ?thesis using b by (simp add: c)
qed

lemma count_log_le: "v \<noteq> 0xffff \<Longrightarrow> cal_heartbeat_count_log v \<le> 0x11"
  using count_log_bounds [of v] by (cases "v = 0") (auto simp: cal_heartbeat_count_log_def word_le_nat_alt)

lemmas count_log_eval = cal_heartbeat_count_log_def get_cnt_log_to_val_def get_high_bits_def high_loop.simps

text \<open>
The logarithm that is reported for a count is the one the count was configured with, for every
count a configuration message may carry except 0x11, which stands for 65534 and is reported as 0x10; and for
every other count it is the number of binary digits.
\<close>

theorem count_log_roundtrip:
  "(L \<le> 0x10 \<or> L = 0xff \<longrightarrow> cal_heartbeat_count_log (get_cnt_log_to_val L) = L) \<and>
   cal_heartbeat_count_log (get_cnt_log_to_val 0x11) = 0x10 \<and>
   (v \<noteq> 0 \<and> v \<noteq> 0xffff \<longrightarrow> 2 ^ (unat (cal_heartbeat_count_log v) - 1) \<le> unat v \<and> unat v < 2 ^ unat (cal_heartbeat_count_log v))"
proof -
  have all: "\<forall>n \<in> set [0..<17]. cal_heartbeat_count_log (get_cnt_log_to_val (of_nat n)) = of_nat n"
    by (simp add: upt_rec count_log_eval)
  have small: "cal_heartbeat_count_log (get_cnt_log_to_val L) = L" if "L \<le> 0x10"
  proof -
    have "unat L \<in> set [0..<17]" using that by (simp add: word_le_nat_alt)
    then have "cal_heartbeat_count_log (get_cnt_log_to_val (of_nat (unat L))) = of_nat (unat L)" by (rule bspec [OF all])
    then show ?thesis by simp
  qed
  have "cal_heartbeat_count_log (get_cnt_log_to_val 0xff) = 0xff" "cal_heartbeat_count_log (get_cnt_log_to_val 0x11) = 0x10"
    by (simp_all add: count_log_eval)
  then show ?thesis using small count_log_bounds [of v] by auto
qed

lemma count_log_roundtrip_witness:
  "cal_heartbeat_count_log (get_cnt_log_to_val 5) = 5 \<and> 2 ^ (unat (cal_heartbeat_count_log 100) - 1) \<le> unat (100 :: u16)"
  using count_log_roundtrip [of 5 100] by simp

section \<open>Frames\<close>

text \<open>What the clock and the other pollers leave alone.\<close>

definition hb_view :: "'a hb_st_scheme \<Rightarrow> hb_pub_t \<times> hb_sub_t \<times> u8 \<times> u8 \<times> u32 \<times> u32 \<times> u8 \<times> u8 \<times> u8 \<times> hb_out list" where
  "hb_view s = (hb_pub s, hb_sub s, heartbeat_en s, hb_sts_change s, hb_pub_100ms s, hb_sub_100ms s, cfg_relay s, cfg_gatt_proxy s, cfg_frid s, sent s)"

lemma hb_view_time [simp]: "hb_view (s\<lparr>system_time_ms := x\<rparr>) = hb_view s" "hb_view (s\<lparr>system_time_100ms := x\<rparr>) = hb_view s"
  "hb_view (s\<lparr>system_time_s := x\<rparr>) = hb_view s" "hb_view (s\<lparr>system_time_tick := x\<rparr>) = hb_view s"
  "hb_view (s\<lparr>publish_powerup_random_ms := y\<rparr>) = hb_view s" "hb_view (record_call c s) = hb_view s"
  by (simp_all add: hb_view_def record_call_def)

lemma sub_poll_keeps: "clock_fields (mesh_heartbeat_sub_poll s) = clock_fields s" "hb_pub (mesh_heartbeat_sub_poll s) = hb_pub s"
  "heartbeat_en (mesh_heartbeat_sub_poll s) = heartbeat_en s" "hb_sts_change (mesh_heartbeat_sub_poll s) = hb_sts_change s"
  "hb_pub_100ms (mesh_heartbeat_sub_poll s) = hb_pub_100ms s" "cfg_relay (mesh_heartbeat_sub_poll s) = cfg_relay s"
  "cfg_gatt_proxy (mesh_heartbeat_sub_poll s) = cfg_gatt_proxy s" "cfg_frid (mesh_heartbeat_sub_poll s) = cfg_frid s"
  "sent (mesh_heartbeat_sub_poll s) = sent s" "system_time_100ms (mesh_heartbeat_sub_poll s) = system_time_100ms s"
  by (simp_all add: mesh_heartbeat_sub_poll_def Let_def clock_fields_def split: option.split)

lemma send_keeps: "clock_fields (friend_cmd_send_heartbeat env s) = clock_fields s"
  by (simp add: friend_cmd_send_heartbeat_def heartbeat_cmd_send_conf_def send_out_def Let_def clock_fields_def)

lemma pub_poll_times: "clock_fields (mesh_heartbeat_pub_poll env s) = clock_fields s"
  by (simp add: mesh_heartbeat_pub_poll_def pub_periodic_def pub_change_def Let_def send_keeps split: option.split)
    (simp add: clock_fields_def send_keeps [THEN clock_fields_eqs(1)] send_keeps [THEN clock_fields_eqs(2)] send_keeps [THEN clock_fields_eqs(3)] send_keeps [THEN clock_fields_eqs(4)])

lemma poll_times: "clock_fields (mesh_heartbeat_poll_100ms env s) = clock_fields s"
  by (simp add: mesh_heartbeat_poll_100ms_def pub_poll_times sub_poll_keeps)

section \<open>The schedule of a publication\<close>

text \<open>How many of \<open>N\<close> heartbeats have been sent at the end of \<open>j\<close> tenths, at a distance of \<open>P\<close> tenths.\<close>

definition hb_count :: "nat \<Rightarrow> nat \<Rightarrow> nat \<Rightarrow> nat" where
  "hb_count P N j = min N ((j + P - 1) div P)"

lemma hb_count_0 [simp]: "1 \<le> P \<Longrightarrow> hb_count P N 0 = 0"
  by (simp add: hb_count_def)

lemma hb_count_mono: "i \<le> j \<Longrightarrow> hb_count P N i \<le> hb_count P N j"
  unfolding hb_count_def by (rule min.mono [OF order_refl div_le_mono]) simp

lemma hb_count_step:
  assumes "1 \<le> P"
  obtains (ended) "hb_count P N j = N" "hb_count P N (j + 1) = N"
  | (first) "hb_count P N j = 0" "j = 0" "1 \<le> N" "hb_count P N (j + 1) = 1"
  | (later) c r where "hb_count P N j = c + 1" "c + 1 < N" "j = c * P + r" "1 \<le> r" "r \<le> P"
      "hb_count P N (j + 1) = (if r = P then c + 2 else c + 1)"
proof -
  obtain q where q: "q = (j + P - 1) div P" by blast
  show thesis
  proof (cases "N \<le> q")
    case True
    moreover have "q \<le> (j + 1 + P - 1) div P" unfolding q by (rule div_le_mono) simp
    ultimately have "N \<le> (j + 1 + P - 1) div P" by simp
    then have "hb_count P N (j + 1) = N" by (simp only: hb_count_def min_absorb1)
    moreover have "hb_count P N j = N" using True by (simp only: hb_count_def q [symmetric] min_absorb1)
    ultimately show thesis by (intro ended)
  next
    case False
    show thesis
    proof (cases q)
      case 0
      then have "j = 0" using q assms by (simp add: div_eq_0_iff)
      then show thesis using False 0 first assms by (simp add: hb_count_def)
    next
      case (Suc c)
      obtain x where x: "x = j + P - 1" by blast
      have "q = x div P" by (simp only: q x)
      then have "x = q * P + x mod P" "x mod P < P" using assms by simp_all
      then have "x mod P + 1 \<le> P" "x = c * P + P + x mod P" using Suc by simp_all
      then have j: "j = c * P + (x mod P + 1)" "x mod P + 1 \<le> P" using x assms by linarith+
      obtain r where r: "r = x mod P + 1" by blast
      have jr: "j = c * P + r" "1 \<le> r" "r \<le> P" using j by (simp_all add: r)
      have "(j + 1 + P - 1) div P = c + (r + P) div P" using assms by (simp add: jr(1) add.assoc)
      also have "(r + P) div P = (if r = P then 2 else 1)" using jr(2,3) assms by (simp add: div_add_self2)
      finally have "(j + 1 + P - 1) div P = (if r = P then c + 2 else c + 1)" by simp
      moreover have "c + 1 < N" using False Suc by simp
      moreover have "hb_count P N j = min N q" by (simp only: hb_count_def q)
      ultimately show thesis using jr Suc by (intro later [of c r]) (auto simp only: hb_count_def split: if_splits)
    qed
  qed
qed

text \<open>An active publication, and what is fixed while it runs.\<close>

definition hb_conf :: "'a hb_st_scheme \<Rightarrow> hb_pub_t \<times> u8 \<times> u8 \<times> u8 \<times> u8 \<times> u8" where
  "hb_conf s = ((hb_pub s)\<lparr>cnt_val := 0, cnt_log := 0\<rparr>, heartbeat_en s, hb_sts_change s, cfg_relay s, cfg_gatt_proxy s, cfg_frid s)"

definition hb_active :: "hb_env \<Rightarrow> u32 \<Rightarrow> 'a hb_st_scheme \<Rightarrow> bool" where
  "hb_active env p s \<longleftrightarrow> heartbeat_en s \<noteq> 0 \<and> hb_sts_change s = 0 \<and> dst_adr (hb_pub s) \<noteq> 0 \<and>
     mesh_net_key_find env (netkeyidx (hb_pub s)) \<noteq> NET_KEY_MAX \<and> period_of 1 (per_log (hb_pub s)) = Some p"

definition hb_message :: "hb_env \<Rightarrow> 'a hb_st_scheme \<Rightarrow> hb_out" where
  "hb_message env s = Upper_ctl CMD_CTL_HEARTBEAT [ttl (hb_pub s) AND 0x7f, lo8 (mesh_heartbeat_cal_feature_part 0 s),
     hi8 (mesh_heartbeat_cal_feature_part 0 s)] (ele_adr_primary env) (dst_adr (hb_pub s)) 0"

lemma hb_conf_fields: "hb_conf s = hb_conf t \<longleftrightarrow> dst_adr (hb_pub s) = dst_adr (hb_pub t) \<and> per_log (hb_pub s) = per_log (hb_pub t) \<and>
    ttl (hb_pub s) = ttl (hb_pub t) \<and> feature (hb_pub s) = feature (hb_pub t) \<and> netkeyidx (hb_pub s) = netkeyidx (hb_pub t) \<and>
    heartbeat_en s = heartbeat_en t \<and> hb_sts_change s = hb_sts_change t \<and> cfg_relay s = cfg_relay t \<and>
    cfg_gatt_proxy s = cfg_gatt_proxy t \<and> cfg_frid s = cfg_frid t"
  unfolding hb_conf_def by (cases "hb_pub s"; cases "hb_pub t") auto

lemma hb_conf_active: "hb_conf s = hb_conf t \<Longrightarrow> hb_active env p s = hb_active env p t"
  by (simp add: hb_conf_fields hb_active_def)

lemma hb_conf_message: "hb_conf s = hb_conf t \<Longrightarrow> hb_message env s = hb_message env t"
  by (simp add: hb_conf_fields hb_message_def mesh_heartbeat_cal_feature_part_def)

lemma hb_view_conf: "hb_view s = hb_view t \<Longrightarrow> hb_conf s = hb_conf t"
  by (simp add: hb_view_def hb_conf_def)

lemma send_heartbeat: "friend_cmd_send_heartbeat env s = send_out (hb_message env s) s"
  by (simp add: friend_cmd_send_heartbeat_def heartbeat_cmd_send_conf_def hb_message_def mesh_heartbeat_cal_feature_part_def Let_def)

text \<open>One poll of an active publication with a finite count.\<close>

lemma poll_active:
  assumes "hb_active env p s" "cnt_log (hb_pub s) \<le> 0x11"
  shows "let s' = mesh_heartbeat_poll_100ms env s;
             go = (cnt_val (hb_pub s) \<noteq> 0 \<and> p * 10 < clock_time_100ms s - hb_pub_100ms s);
             v = cnt_val (hb_pub s) - 1
         in hb_conf s' = hb_conf s \<and> system_time_100ms s' = system_time_100ms s \<and>
            (if go then cnt_val (hb_pub s') = v \<and> cnt_log (hb_pub s') = cal_heartbeat_count_log v \<and>
                hb_pub_100ms s' = clock_time_100ms s \<and> sent s' = sent s @ [hb_message env s]
             else cnt_val (hb_pub s') = cnt_val (hb_pub s) \<and> cnt_log (hb_pub s') = cnt_log (hb_pub s) \<and>
                hb_pub_100ms s' = hb_pub_100ms s \<and> sent s' = sent s)"
proof -
  obtain u where u: "u = mesh_heartbeat_sub_poll s" by blast
  have f: "hb_pub u = hb_pub s" "heartbeat_en u = heartbeat_en s" "hb_sts_change u = hb_sts_change s" "hb_pub_100ms u = hb_pub_100ms s"
    "cfg_relay u = cfg_relay s" "cfg_gatt_proxy u = cfg_gatt_proxy s" "cfg_frid u = cfg_frid s" "sent u = sent s"
    "system_time_100ms u = system_time_100ms s"
    by (simp_all add: u sub_poll_keeps)
  have "cnt_log (hb_pub s) \<noteq> 0xff" using assms(2) by auto
  moreover have "hb_message env (u\<lparr>hb_pub_100ms := x, hb_pub := (hb_pub s)\<lparr>cnt_val := y, cnt_log := z\<rparr>\<rparr>) = hb_message env s" for x y z
    by (rule hb_conf_message) (simp add: hb_conf_fields f)
  ultimately show ?thesis using assms
    by (simp add: mesh_heartbeat_poll_100ms_def u [symmetric] hb_active_def mesh_heartbeat_pub_poll_def pub_periodic_def pub_change_def
      f Let_def clock_time_exceed_100ms_def clock_time_100ms_def send_heartbeat send_out_def hb_conf_fields)
qed

text \<open>The state of a publication of \<open>N\<close> heartbeats that was set at \<open>t0\<close>, after \<open>j\<close> tenths.\<close>

definition pub_inv :: "u32 \<Rightarrow> nat \<Rightarrow> nat \<Rightarrow> nat \<Rightarrow> 'a hb_st_scheme \<Rightarrow> bool" where
  "pub_inv t0 P N j s \<longleftrightarrow> (let c = hb_count P N j in
     cnt_val (hb_pub s) = of_nat (N - c) \<and> cnt_log (hb_pub s) \<le> 0x11 \<and>
     hb_pub_100ms s = (if c = 0 then t0 - push_bit 31 1 else t0 + 1 + of_nat ((c - 1) * P)))"

lemma poll_step:
  assumes act: "hb_active env p s" and P: "P = 10 * unat p + 1" "unat p \<le> 65536" and N: "N < 65535"
    and inv: "pub_inv t0 P N j s" and t: "clock_time_100ms s = t0 + of_nat (j + 1)"
  shows "pub_inv t0 P N (j + 1) (mesh_heartbeat_poll_100ms env s) \<and> hb_conf (mesh_heartbeat_poll_100ms env s) = hb_conf s \<and>
    sent (mesh_heartbeat_poll_100ms env s) = sent s @ replicate (hb_count P N (j + 1) - hb_count P N j) (hb_message env s)"
proof -
  have log: "cnt_log (hb_pub s) \<le> 0x11" using inv by (simp add: pub_inv_def Let_def)
  note poll = poll_active [OF act log, unfolded Let_def]
  have p10: "unat (p * 10) = 10 * unat p" using P(2) by (simp add: unat_word_ariths)
  have P1: "1 \<le> P" by (simp add: P)
  have small: "(of_nat k :: u16) - 1 = of_nat (k - 1)" "of_nat (k - 1) \<noteq> (0xffff :: u16)" "(of_nat k :: u16) \<noteq> 0" if "1 \<le> k" "k \<le> N" for k
  proof -
    show "(of_nat k :: u16) - 1 = of_nat (k - 1)" using that(1) by (simp add: of_nat_diff)
    have "unat (of_nat (k - 1) :: u16) = k - 1" "unat (of_nat k :: u16) = k" using that(2) N by (simp_all only: unat_of_nat_u16) simp_all
    then show "of_nat (k - 1) \<noteq> (0xffff :: u16)" "(of_nat k :: u16) \<noteq> 0" using that N by (auto simp only: word_unat_eq_iff) simp_all
  qed
  show ?thesis using P1
  proof (cases rule: hb_count_step [where N = N and j = j])
    case ended
    then have "cnt_val (hb_pub s) = 0" using inv by (simp add: pub_inv_def)
    then show ?thesis using poll inv ended by (simp add: pub_inv_def)
  next
    case first
    have "clock_time_100ms s - hb_pub_100ms s = 0x80000001" using inv first t by (simp add: pub_inv_def)
    moreover have "p * 10 < 0x80000001" using P(2) p10 by (simp add: word_less_nat_alt)
    ultimately show ?thesis using poll inv first t small [of N] count_log_le [of "of_nat (N - 1)"]
      by (simp add: pub_inv_def)
  next
    case (later c r)
    have "clock_time_100ms s - hb_pub_100ms s = of_nat (c * P + r + 1) - (1 + of_nat (c * P))" using inv later t by (simp add: pub_inv_def)
    also have "\<dots> = of_nat r" by simp
    finally have el: "clock_time_100ms s - hb_pub_100ms s = of_nat r" .
    have "unat (of_nat r :: u32) = r" using later(5) P by (simp add: of_nat_32)
    then have "p * 10 < of_nat r \<longleftrightarrow> r = P" using later(5) P p10 by (auto simp: word_less_nat_alt)
    moreover obtain k where k: "k = N - (c + 1)" by blast
    then have kN: "1 \<le> k" "k \<le> N" "N - (c + 2) = k - 1" using later(2) by simp_all
    have "cnt_val (hb_pub s) = of_nat k" "hb_pub_100ms s = t0 + 1 + of_nat (c * P)" using inv by (simp_all add: pub_inv_def later(1) k)
    moreover have "t0 + of_nat (j + 1) = t0 + 1 + of_nat (c * P + r)" by (simp add: later(3))
    ultimately show ?thesis using poll log t el small [OF kN(1,2)] count_log_le [of "of_nat (k - 1)"]
      by (cases "r = P") (simp_all add: pub_inv_def Let_def later(1) later(6) [simplified] k [symmetric, simplified] kN(3) [simplified] clock_time_100ms_def)
  qed
qed

lemma hb_view_cong: "hb_view a = hb_view b \<Longrightarrow> pub_inv t0 P N j a = pub_inv t0 P N j b" "hb_view a = hb_view b \<Longrightarrow> sent a = sent b"
  "hb_view a = hb_view b \<Longrightarrow> hb_conf a = hb_conf b" "hb_view a = hb_view b \<Longrightarrow> hb_active env p a = hb_active env p b"
  "hb_view a = hb_view b \<Longrightarrow> hb_message env a = hb_message env b"
  by (simp_all add: pub_inv_def hb_view_def hb_conf_def hb_active_def hb_message_def mesh_heartbeat_cal_feature_part_def)

section \<open>Clock and heartbeat together\<close>

text \<open>The clock polls the heartbeat, and what else it calls leaves the heartbeat alone.\<close>

locale heartbeat_client = time_client H for H :: "'a hb_st_scheme time_hooks" +
  fixes env :: hb_env
  assumes polls: "heartbeat_poll H = mesh_heartbeat_poll_100ms env"
    and view_iv: "hb_view (mesh_iv_update_start_poll H s) = hb_view s"
    and view_light: "hb_view (light_transition_proc H s) = hb_view s"
    and view_beacon: "hb_view (mesh_beacon_poll_100ms H s) = hb_view s"
    and view_iv_s: "hb_view (mesh_iv_update_st_poll_s H s) = hb_view s"
    and view_save: "hb_view (light_par_save_proc H s) = hb_view s"
    and view_scene: "hb_view (scene_status_change_check_all H s) = hb_view s"
    and view_publish: "hb_view (publish_when_powerup H s) = hb_view s"
begin

lemma view_handlers [simp]: "hb_view ((system_timer_handle_ms H ^^ n) s) = hb_view s" "hb_view ((handle_s H ^^ n) s) = hb_view s"
  by (induction n; simp add: system_timer_handle_ms_def handle_s_def user_system_time_proc_def view_light view_iv_s)+

lemma view_run_s [simp]: "hb_view (run_s H n s) = hb_view s"
  by (simp add: run_s_def)

lemma view_run_procs [simp]: "hb_view (run_procs H s) = hb_view s"
  by (simp add: run_procs_def Let_def view_save view_scene view_publish)

text \<open>The heartbeat sees a run as the poll that is due in it, if any.\<close>

lemma run_polls:
  assumes inv: "clock_inv c0 E s" and E': "E \<le> E'" "E' - E \<le> 1600000" "E' div 16000 < 4294967296"
    and m: "m = E' div 16000 div 100 - E div 16000 div 100"
  shows "m = 0 \<and> hb_view (system_time_run H (c0 + of_nat E') s) = hb_view s \<or>
    m = 1 \<and> (\<exists>u :: 'a hb_st_scheme. hb_view u = hb_view s \<and> system_time_100ms u = system_time_100ms s + 1 \<and>
      hb_view (system_time_run H (c0 + of_nat E') s) = hb_view (mesh_heartbeat_poll_100ms env u))"
proof -
  obtain t where t: "t = c0 + of_nat E' - system_time_tick s" by blast
  have "E' - E \<le> 4294951296" using E'(2) by simp
  from clock_increments [OF inv E'(1) this t] obtain n m' where inc: "t div CHECK_INTERVAL = of_nat n" "CHECK_INTERVAL \<le> t \<longleftrightarrow> n \<noteq> 0"
    "n < 268436" "m' \<le> n" "(system_time_ms s mod 100 + of_nat n) div 100 = of_nat m'"
    "E div 16000 div 100 + m' = E' div 16000 div 100" by metis
  have mm: "m' = m" unfolding m inc(6) [symmetric] by (rule diff_add_inverse [symmetric])
  have "E' div 1600000 \<le> (E + 1600000) div 1600000" using E'(1,2) by (intro div_le_mono) simp
  then have m1: "m \<le> 1" using m by (simp add: div_mult2_eq [symmetric])
  obtain u where u: "u = mesh_iv_update_start_poll H s" by blast
  have f: "system_time_tick u = system_time_tick s" "system_time_ms u = system_time_ms s" "system_time_100ms u = system_time_100ms s"
    using keeps_iv [of s] by (simp_all add: u clock_fields_def)
  have uv: "hb_view u = hb_view s" by (simp add: u view_iv)
  have run: "system_time_run H (c0 + of_nat E') s = (if n = 0 then u else
      run_procs H ((run_ms H (of_nat n) u)\<lparr>system_time_tick := system_time_tick (run_ms H (of_nat n) u) + of_nat n * CHECK_INTERVAL\<rparr>))"
    unfolding system_time_run_def Let_def u [symmetric] f(1) t [symmetric] by (simp add: inc(1,2))
  show ?thesis
  proof (cases "n = 0")
    case True
    then show ?thesis using inc(4) mm uv by (simp add: run)
  next
    case False
    have n0: "of_nat n \<noteq> (0 :: u32)" using False inc(3) by (simp add: word_unat_eq_iff of_nat_32)
    obtain v where v: "v = (system_timer_handle_ms H ^^ unat (of_nat n :: u32)) (u\<lparr>system_time_ms := system_time_ms s + of_nat n\<rparr>)" by blast
    have vv: "hb_view v = hb_view s" "system_time_100ms v = system_time_100ms s" by (simp_all add: v uv f)
    have r: "run_ms H (of_nat n) u = run_100ms H (of_nat m) v"
      using n0 by (simp add: run_ms_def Let_def f(2) inc(5) mm v)
    consider "m = 0" | "m = 1" using m1 by linarith
    then show ?thesis
    proof cases
      case 1
      then show ?thesis using False vv by (simp add: run r run_100ms_def)
    next
      case 2
      obtain w where w: "w = mesh_beacon_poll_100ms H (v\<lparr>system_time_100ms := system_time_100ms v + 1\<rparr>)" by blast
      have "hb_view w = hb_view s" "system_time_100ms w = system_time_100ms s + 1"
        using keeps_beacon [of "v\<lparr>system_time_100ms := system_time_100ms v + 1\<rparr>"] by (simp_all add: w view_beacon vv clock_fields_def)
      moreover have "hb_view (system_time_run H (c0 + of_nat E') s) = hb_view (mesh_heartbeat_poll_100ms env w)"
        using False 2 by (simp add: run r run_100ms_def Let_def system_timer_handle_100ms_def polls w)
      ultimately show ?thesis using 2 by blast
    qed
  qed
qed

lemma run_publishes:
  assumes inv: "clock_inv c0 E s" and E': "E \<le> E'" "E' - E \<le> 1600000" "E' div 16000 < 4294967296"
    and act: "hb_active env p s" and P: "P = 10 * unat p + 1" "unat p \<le> 65536" and N: "N < 65535"
    and pub: "pub_inv t0 P N (E div 1600000 - d) s" and t0: "t0 = of_nat d" "d \<le> E div 1600000"
  shows "pub_inv t0 P N (E' div 1600000 - d) (system_time_run H (c0 + of_nat E') s) \<and>
    hb_conf (system_time_run H (c0 + of_nat E') s) = hb_conf s \<and>
    sent (system_time_run H (c0 + of_nat E') s) = sent s @
      replicate (hb_count P N (E' div 1600000 - d) - hb_count P N (E div 1600000 - d)) (hb_message env s)"
proof -
  have d: "x div 16000 div 100 = x div 1600000" for x :: nat by (simp add: div_mult2_eq [symmetric])
  have le: "E div 1600000 \<le> E' div 1600000" using E'(1) by (rule div_le_mono)
  from run_polls [OF inv E' refl] show ?thesis
  proof (elim disjE conjE exE)
    assume "E' div 16000 div 100 - E div 16000 div 100 = 0" and v: "hb_view (system_time_run H (c0 + of_nat E') s) = hb_view s"
    then have "E' div 1600000 = E div 1600000" using le by (simp add: d)
    then show ?thesis using pub hb_view_cong [OF v] by simp
  next
    fix u
    assume m: "E' div 16000 div 100 - E div 16000 div 100 = 1" and u: "hb_view u = hb_view s" "system_time_100ms u = system_time_100ms s + 1"
      and v: "hb_view (system_time_run H (c0 + of_nat E') s) = hb_view (mesh_heartbeat_poll_100ms env u)"
    have j: "E' div 1600000 - d = E div 1600000 - d + 1" using m t0(2) le unfolding d by linarith
    have "system_time_100ms s = of_nat (E div 1600000)" using inv by (simp add: clock_inv_def clock_fields_def d)
    then have t: "clock_time_100ms u = t0 + of_nat (E div 1600000 - d + 1)" using t0 u(2) by (simp add: clock_time_100ms_def of_nat_diff)
    have "hb_active env p u" "hb_message env u = hb_message env s" using act hb_view_cong(4,5) [OF u(1)] by simp_all
    then show ?thesis using poll_step [OF _ P N _ t] pub hb_view_cong [OF u(1)] hb_view_cong [OF v] unfolding j by simp
  qed
qed

end

context heartbeat_client
begin

text \<open>Readings of the clock at most a tenth of a second apart.\<close>

lemma runs_publish:
  assumes "clock_inv c0 E s" "hb_active env p s" and P: "P = 10 * unat p + 1" "unat p \<le> 65536" and N: "N < 65535"
    and "pub_inv (of_nat d) P N (E div 1600000 - d) s" "d \<le> E div 1600000"
    and "sorted (E # xs)" "successively (\<lambda>x y. y - x \<le> 1600000) (E # xs)" "last (E # xs) div 16000 < 4294967296"
  shows "sent (runs_at c0 xs s) = sent s @
    replicate (hb_count P N (last (E # xs) div 1600000 - d) - hb_count P N (E div 1600000 - d)) (hb_message env s)"
  using assms(1,2,6-10)
proof (induction xs arbitrary: E s)
  case (Cons x xs)
  obtain s' where s': "s' = system_time_run H (c0 + of_nat x) s" by blast
  have x: "E \<le> x" "x - E \<le> 1600000" using Cons.prems(5,6) by (simp_all add: successively_Cons)
  have xl: "x \<le> last (x # xs)" using Cons.prems(5) by (auto simp: last_conv_nth)
  then have "x div 16000 < 4294967296" using Cons.prems(7) div_le_mono [OF xl, of 16000] by simp
  then have inv: "clock_inv c0 x s'" using run_inv [OF Cons.prems(1) x(1)] x(2) by (simp add: s')
  have step: "pub_inv (of_nat d) P N (x div 1600000 - d) s'" "hb_conf s' = hb_conf s"
    "sent s' = sent s @ replicate (hb_count P N (x div 1600000 - d) - hb_count P N (E div 1600000 - d)) (hb_message env s)"
    using run_publishes [OF Cons.prems(1) x \<open>x div 16000 < 4294967296\<close> Cons.prems(2) P N Cons.prems(3) refl Cons.prems(4)] by (simp_all add: s')
  have dx: "E div 1600000 \<le> x div 1600000" "x div 1600000 \<le> last (x # xs) div 1600000" 
    by (rule div_le_mono [OF x(1)], rule div_le_mono [OF xl])
  have "hb_count P N (E div 1600000 - d) \<le> hb_count P N (x div 1600000 - d)"
    "hb_count P N (x div 1600000 - d) \<le> hb_count P N (last (x # xs) div 1600000 - d)"
    by (rule hb_count_mono [OF diff_le_mono [OF dx(1)]], rule hb_count_mono [OF diff_le_mono [OF dx(2)]])
  moreover have "sent (runs_at c0 xs s') = sent s' @
      replicate (hb_count P N (last (x # xs) div 1600000 - d) - hb_count P N (x div 1600000 - d)) (hb_message env s')"
    using Cons.prems dx(1) by (intro Cons.IH inv step(1)) (auto simp: hb_conf_active [OF step(2)] successively_Cons)
  ultimately show ?case
    by (simp add: runs_at_def s' [symmetric] step(3) hb_conf_message [OF step(2)] replicate_add [symmetric])
qed (simp add: runs_at_def)

end

text \<open>The clock with this poll; the other functions it calls are only recorded.\<close>

definition mesh_hooks :: "hb_env \<Rightarrow> 'a hb_st_scheme time_hooks" where
  "mesh_hooks env = trace_hooks\<lparr>heartbeat_poll := mesh_heartbeat_poll_100ms env\<rparr>"

interpretation node: heartbeat_client "mesh_hooks env :: 'a hb_st_scheme time_hooks" env
  by unfold_locales (simp_all add: mesh_hooks_def poll_times)

lemma mesh_hooks_run: "node.runs_at env c0 xs s = fold (\<lambda>x. system_time_run (mesh_hooks env) (c0 + of_nat x)) xs s"
  by (simp add: node.runs_at_def)

text \<open>What a publication message leaves behind.\<close>

lemma pub_set_state:
  assumes "s' = snd (mesh_cmd_sig_heartbeat_pub_set env par adr_src s)"
  shows "clock_fields s' = clock_fields s" "heartbeat_en s' = heartbeat_en s" "hb_sts_change s' = hb_sts_change s"
    "dst_adr (hb_pub s') = mk16 (par ! 1) (par ! 0)" "cnt_val (hb_pub s') = get_cnt_log_to_val (par ! 2)" "cnt_log (hb_pub s') = par ! 2"
    "per_log (hb_pub s') = par ! 3" "netkeyidx (hb_pub s') = mk16 (par ! 8) (par ! 7)" "hb_pub_100ms s' = clock_time_100ms s - push_bit 31 1"
  by (simp_all add: assms mesh_cmd_sig_heartbeat_pub_set_def mesh_cmd_sig_heartbeat_pub_get_def send_out_def clock_fields_def clock_time_100ms_def Let_def)

lemma count_of_log:
  assumes "1 \<le> L" "L \<le> 0x11"
  shows "\<exists>N. get_cnt_log_to_val L = of_nat N \<and> N < 65535 \<and> N = (if L = 0x11 then 65534 else 2 ^ (unat L - 1))"
proof (cases "L = 0x11")
  case False
  have L: "1 \<le> unat L" "unat L \<le> 17" "unat L \<noteq> 17"
    using assms False by (simp_all add: word_le_nat_alt) (use False in \<open>simp add: word_unat_eq_iff\<close>)
  then have l: "unat (L - 1) = unat L - 1" by (simp add: unat_sub_u8)
  have "(2 :: nat) ^ (unat L - 1) \<le> 2 ^ 15" using L by (intro power_increasing) auto
  moreover have "get_cnt_log_to_val L = of_nat (2 ^ (unat L - 1))"
    using assms False l by (auto simp: get_cnt_log_to_val_def push_bit_eq_mult)
  ultimately show ?thesis using False by auto
qed (simp add: get_cnt_log_to_val_def)

lemma period_of_log:
  assumes "l \<le> 0x11"
  shows "\<exists>p. period_of 1 l = Some p \<and> unat p = 2 ^ (unat l - 1) \<and> unat p \<le> 65536"
proof (cases "l = 0")
  case False
  have L: "1 \<le> unat l" "unat l \<le> 17" using assms False by (simp_all add: word_le_nat_alt word_unat_eq_iff)
  then have l: "unat (l - 1) = unat l - 1" by (simp add: unat_sub_u8)
  have le: "(2 :: nat) ^ (unat l - 1) \<le> 2 ^ 16" using L by (intro power_increasing) auto
  have "(push_bit (unat l - 1) 1 :: u32) = of_nat (2 ^ (unat l - 1))" by (simp add: push_bit_eq_mult)
  then have "unat (push_bit (unat l - 1) 1 :: u32) = 2 ^ (unat l - 1)" using le by (simp only: unat_of_nat_u32) simp
  then show ?thesis using False assms le l by (simp add: period_of_def)
qed (simp add: period_of_def)

text \<open>
C20: A publication that is configured for a finite number of heartbeats sends exactly that many, the first
within a tenth of a second of the message and the others at the configured period plus a tenth of a second
(the comparison is strict), whatever the distances between the runs of the clock, as long as none is longer than a
tenth of a second; and then it stops.
\<close>

theorem heartbeat_schedule:
  assumes "clock_inv c0 E s" "heartbeat_en s \<noteq> 0" "hb_sts_change s = 0"
    and "s1 = snd (mesh_cmd_sig_heartbeat_pub_set env par adr_src s)"
    and "mk16 (par ! 1) (par ! 0) \<noteq> 0" "mesh_net_key_find env (mk16 (par ! 8) (par ! 7)) \<noteq> NET_KEY_MAX"
    and "1 \<le> par ! 2" "par ! 2 \<le> 0x11" "par ! 3 \<le> 0x11"
    and "sorted (E # xs)" "successively (\<lambda>x y. y - x \<le> 1600000) (E # xs)" "last (E # xs) div 16000 < 4294967296"
    and "N = (if par ! 2 = 0x11 then 65534 else 2 ^ (unat (par ! 2) - 1))" "P = 10 * 2 ^ (unat (par ! 3) - 1) + 1"
    and "j = last (E # xs) div 1600000 - E div 1600000"
  shows "sent (fold (\<lambda>x. system_time_run (mesh_hooks env) (c0 + of_nat x)) xs s1) =
    sent s1 @ replicate (min N ((j + P - 1) div P)) (hb_message env s1)"
proof -
  obtain p where p: "period_of 1 (par ! 3) = Some p" "unat p = 2 ^ (unat (par ! 3) - 1)" "unat p \<le> 65536"
    using period_of_log [OF assms(9)] by blast
  have P: "P = 10 * unat p + 1" by (simp add: p(2) assms(14))
  have N: "get_cnt_log_to_val (par ! 2) = of_nat N" "N < 65535" using count_of_log [OF assms(7,8)] unfolding assms(13) [symmetric] by auto
  note st = pub_set_state [OF assms(4)]
  have inv: "clock_inv c0 E s1" using assms(1) st(1) by (simp add: clock_inv_def)
  have act: "hb_active env p s1" using assms(2,3,5,6) p(1) by (simp add: hb_active_def st)
  have "clock_time_100ms s = of_nat (E div 1600000)"
    using assms(1) by (simp add: clock_inv_def clock_fields_def clock_time_100ms_def div_mult2_eq [symmetric])
  then have pub: "pub_inv (of_nat (E div 1600000)) P N (E div 1600000 - E div 1600000) s1"
    using P assms(8) by (simp add: pub_inv_def st N(1))
  from node.runs_publish [OF inv act P p(3) N(2) pub order_refl assms(10-12)] show ?thesis
    using P by (simp add: mesh_hooks_run hb_count_def assms(15))
qed

text \<open>Four heartbeats a second apart, with a clock read every tenth of a second for five seconds.\<close>

definition hb_demo :: hb_st where
  "hb_demo = \<lparr>system_time_ms = 0, system_time_100ms = 0, system_time_s = 0, system_time_tick = 0, publish_powerup_random_ms = 0, calls = [],
     hb_pub = \<lparr>dst_adr = 0, cnt_val = 0, cnt_log = 0, per_log = 0, ttl = 0, feature = 0, netkeyidx = 0\<rparr>,
     hb_sub = \<lparr>sub_adr = 0, sub_dst = 0, sub_per_log = 0, sub_cnt_log = 0, min_hops = 0, max_hops = 0, sub_per_val = 0, sub_cnt_val = 0\<rparr>,
     heartbeat_en = 1, hb_sts_change = 0, hb_pub_100ms = 0, hb_sub_100ms = 0, cfg_relay = 0, cfg_gatt_proxy = 1, cfg_frid = 0, sys_tick = 0,
     sent = []\<rparr>"

definition hb_env_demo :: hb_env where
  "hb_env_demo = \<lparr>ele_adr_primary = 2, is_unicast_adr = (\<lambda>a. a < 0x8000 \<and> a \<noteq> 0), is_group_adr = (\<lambda>a. 0xC000 \<le> a),
     mesh_net_key_find = (\<lambda>i. if i = 0 then 0 else 2), page0_feature = 0, mesh_is_proxy_ready = True,
     endianness_swap_u16 = (\<lambda>(a, b). (b, a)), rsp_err = 0\<rparr>"

lemma heartbeat_schedule_witness:
  "length (sent (fold (\<lambda>x. system_time_run (mesh_hooks hb_env_demo) (0 + of_nat x)) [1600000, 3200000, 4000000]
     (snd (mesh_cmd_sig_heartbeat_pub_set hb_env_demo [1, 0xC0, 3, 1, 5, 2, 0, 0, 0] 7 hb_demo)))) = 3"
proof -
  have inv: "clock_inv 0 0 hb_demo" "heartbeat_en hb_demo \<noteq> 0" "hb_sts_change hb_demo = 0"
    by (simp_all add: clock_inv_def clock_fields_def hb_demo_def)
  obtain t where t: "t = snd (mesh_cmd_sig_heartbeat_pub_set hb_env_demo [1, 0xC0, 3, 1, 5, 2, 0, 0, 0] 7 hb_demo)" by blast
  have "length (sent t) = 2"
    by (simp add: t hb_demo_def mesh_cmd_sig_heartbeat_pub_set_def mesh_cmd_sig_heartbeat_pub_get_def send_out_def Let_def)
  have "mk16 ([1, 0xC0, 3, 1, 5, 2, 0, 0, 0] ! 1) ([1, 0xC0, 3, 1, 5, 2, 0, 0, 0] ! 0) \<noteq> 0"
    "mesh_net_key_find hb_env_demo (mk16 ([1, 0xC0, 3, 1, 5, 2, 0, 0, 0] ! 8) ([1, 0xC0, 3, 1, 5, 2, 0, 0, 0] ! 7)) \<noteq> NET_KEY_MAX"
    by code_simp+
  note rule = heartbeat_schedule [OF inv t this, where xs = "[1600000, 3200000, 4000000]" and N = 4 and P = 11 and j = 2]
  have "sent (fold (\<lambda>x. system_time_run (mesh_hooks hb_env_demo) (0 + of_nat x)) [1600000, 3200000, 4000000] t) =
      sent t @ replicate (min 4 ((2 + 11 - 1) div 11)) (hb_message hb_env_demo t)"
    by (rule rule) (simp_all add: word_le_nat_alt)
  then have "length (sent (fold (\<lambda>x. system_time_run (mesh_hooks hb_env_demo) (0 + of_nat x)) [1600000, 3200000, 4000000] t)) =
      length (sent t) + min 4 ((2 + 11 - 1) div 11)"
    by (simp only: length_append length_replicate)
  also have "\<dots> = 3" using \<open>length (sent t) = 2\<close> by simp
  finally show ?thesis unfolding t .
qed

section \<open>Received heartbeats\<close>

definition receive :: "hb_env \<Rightarrow> u16 \<times> u8 \<times> u8 list \<Rightarrow> 'a hb_st_scheme \<Rightarrow> 'a hb_st_scheme" where
  "receive env m s = (case m of (src, t, data) \<Rightarrow> snd (mesh_process_hb_sub env src t data s))"

definition subscribed :: "'a hb_st_scheme \<Rightarrow> bool" where
  "subscribed s \<longleftrightarrow> sub_dst (hb_sub s) \<noteq> 0 \<and> sub_adr (hb_sub s) \<noteq> 0 \<and> sub_per_log (hb_sub s) \<noteq> 0"

lemma receive_one:
  "subscribed s \<Longrightarrow> receive env (src, t, data) s = (if src = sub_adr (hb_sub s) then
     s\<lparr>hb_sub := (hb_sub s)\<lparr>min_hops := (if data ! 0 AND 0x7f \<noteq> 0 then 1 else 0), max_hops := (data ! 0 AND 0x7f) - t + 1,
       sub_cnt_val := sub_cnt_val (hb_sub s) + 1, sub_cnt_log := cal_heartbeat_count_log (sub_cnt_val (hb_sub s) + 1)\<rparr>\<rparr> else s)"
  by (auto simp: receive_def mesh_process_hb_sub_def subscribed_def Let_def split: prod.split)

text \<open>
A subscription counts the heartbeats of its source (modulo 65536) and no others. The hop counts it keeps are not
the least and the greatest of them: the maximum is that of the last heartbeat, and the minimum is one unless the last was
sent with a TTL of zero.
\<close>

theorem received_heartbeats_counted:
  assumes "subscribed s" "s' = fold (receive env) ms s" "own = filter (\<lambda>(src, _). src = sub_adr (hb_sub s)) ms"
  shows "sub_cnt_val (hb_sub s') = sub_cnt_val (hb_sub s) + of_nat (length own) \<and>
    (case rev own of [] \<Rightarrow> s' = s
     | (src, t, data) # _ \<Rightarrow> max_hops (hb_sub s') = (data ! 0 AND 0x7f) - t + 1 \<and>
         min_hops (hb_sub s') = (if data ! 0 AND 0x7f \<noteq> 0 then 1 else 0) \<and>
         sub_cnt_log (hb_sub s') = cal_heartbeat_count_log (sub_cnt_val (hb_sub s')))"
proof -
  have "subscribed (fold (receive env) ms s) \<and> sub_adr (hb_sub (fold (receive env) ms s)) = sub_adr (hb_sub s) \<and>
      sub_cnt_val (hb_sub (fold (receive env) ms s)) = sub_cnt_val (hb_sub s) + of_nat (length (filter (\<lambda>(src, _). src = sub_adr (hb_sub s)) ms)) \<and>
      (case rev (filter (\<lambda>(src, _). src = sub_adr (hb_sub s)) ms) of [] \<Rightarrow> fold (receive env) ms s = s
       | (src, t, data) # _ \<Rightarrow> max_hops (hb_sub (fold (receive env) ms s)) = (data ! 0 AND 0x7f) - t + 1 \<and>
           min_hops (hb_sub (fold (receive env) ms s)) = (if data ! 0 AND 0x7f \<noteq> 0 then 1 else 0) \<and>
           sub_cnt_log (hb_sub (fold (receive env) ms s)) = cal_heartbeat_count_log (sub_cnt_val (hb_sub (fold (receive env) ms s))))"
  proof (induction ms rule: rev_induct)
    case (snoc m ms)
    obtain u where u: "u = fold (receive env) ms s" by blast
    obtain src t data where m: "m = (src, t, data)" using prod_cases3 by blast
    note IH = snoc.IH [folded u]
    obtain w where w: "w = receive env (src, t, data) u" by blast
    have f: "fold (receive env) (ms @ [(src, t, data)]) s = w" by (simp add: u w)
    have sub: "subscribed u" "sub_adr (hb_sub u) = sub_adr (hb_sub s)" using IH by simp_all
    show ?case
    proof (cases "src = sub_adr (hb_sub s)")
      case True
      have "w = u\<lparr>hb_sub := (hb_sub u)\<lparr>min_hops := (if data ! 0 AND 0x7f \<noteq> 0 then 1 else 0), max_hops := (data ! 0 AND 0x7f) - t + 1,
          sub_cnt_val := sub_cnt_val (hb_sub u) + 1, sub_cnt_log := cal_heartbeat_count_log (sub_cnt_val (hb_sub u) + 1)\<rparr>\<rparr>"
        using receive_one [OF sub(1), of env src t data] True sub(2) by (simp add: w)
      then have wf: "sub_dst (hb_sub w) = sub_dst (hb_sub u)" "sub_adr (hb_sub w) = sub_adr (hb_sub u)" "sub_per_log (hb_sub w) = sub_per_log (hb_sub u)"
        "min_hops (hb_sub w) = (if data ! 0 AND 0x7f \<noteq> 0 then 1 else 0)" "max_hops (hb_sub w) = (data ! 0 AND 0x7f) - t + 1"
        "sub_cnt_val (hb_sub w) = sub_cnt_val (hb_sub u) + 1" "sub_cnt_log (hb_sub w) = cal_heartbeat_count_log (sub_cnt_val (hb_sub u) + 1)"
        by simp_all
      have cnt: "sub_cnt_val (hb_sub u) = sub_cnt_val (hb_sub s) + of_nat (length (filter (\<lambda>(src, _). src = sub_adr (hb_sub s)) ms))"
        using IH by blast
      have flt: "filter (\<lambda>(src, _). src = sub_adr (hb_sub s)) (ms @ [(src, t, data)]) = filter (\<lambda>(src, _). src = sub_adr (hb_sub s)) ms @ [(src, t, data)]"
        using True by simp
      have "subscribed w" using sub(1) wf by (simp add: subscribed_def)
      then show ?thesis unfolding m f flt rev_append by (simp add: wf sub(2)) (simp add: cnt add_ac)
    next
      case False
      then have wu: "w = u" using receive_one [OF sub(1), of env src t data] sub(2) by (simp add: w)
      have flt: "filter (\<lambda>(src, _). src = sub_adr (hb_sub s)) (ms @ [(src, t, data)]) = filter (\<lambda>(src, _). src = sub_adr (hb_sub s)) ms"
        using False by simp
      show ?thesis unfolding m f flt wu by (rule IH)
    qed
  qed (simp add: assms(1))
  then show ?thesis unfolding assms(2,3) by blast
qed

lemma received_heartbeats_counted_witness:
  "sub_cnt_val (hb_sub (fold (receive hb_env_demo) [(9, 3, [5, 0, 0]), (8, 1, [5, 0, 0]), (9, 2, [4, 0, 0])]
     (hb_demo\<lparr>hb_sub := (hb_sub hb_demo)\<lparr>sub_adr := 9, sub_dst := 2, sub_per_log := 4\<rparr>\<rparr>))) = 2"
proof -
  have "subscribed (hb_demo\<lparr>hb_sub := (hb_sub hb_demo)\<lparr>sub_adr := 9, sub_dst := 2, sub_per_log := 4\<rparr>\<rparr>)" by (simp add: subscribed_def)
  from received_heartbeats_counted [OF this refl refl, of hb_env_demo "[(9, 3, [5, 0, 0]), (8, 1, [5, 0, 0]), (9, 2, [4, 0, 0])]"]
  show ?thesis by (simp add: hb_demo_def)
qed

text \<open>
A subscription whose destination is refused has already changed the source, and keeps it.
\<close>

lemma refused_subscription_changes_source:
  assumes "is_unicast_adr env (mk16 (par ! 1) (par ! 0))"
    and "mk16 (par ! 3) (par ! 2) \<noteq> ele_adr_primary env" "\<not> is_group_adr env (mk16 (par ! 3) (par ! 2))" "mk16 (par ! 3) (par ! 2) \<noteq> 0"
  shows "mesh_cmd_sig_heartbeat_sub_set env par op adr_src s = (-1, s\<lparr>hb_sub := (hb_sub s)\<lparr>sub_adr := mk16 (par ! 1) (par ! 0)\<rparr>\<rparr>)"
  using assms by (simp add: mesh_cmd_sig_heartbeat_sub_set_def Let_def)

end
