(* ===== verification/SoftTimer.thy ===== *)
theory SoftTimer
  imports Prelude "HOL-Library.Multiset"
begin

text \<open>
  The software timers of the low-power applications (\<open>vendor/common/blt_soft_timer.c\<close>, \<open>blt_soft_timer.h\<close>): a table of at
  most four timers, sorted by their deadlines on a clock that wraps around, and the wake-up of the chip at the earliest of them. A
  callback is a number, 0 the null pointer, and its effect the parameter \<open>call\<close>: it may do anything to the
  state, also add and delete timers. The loops in which the code stops on an inconsistent table are \<open>None\<close>.
\<close>

section \<open>State\<close>

record blt_time_event =
  ev_cb :: nat
  ev_t :: u32
  ev_interval :: u32

text \<open>The table, the readings of the tick counter, and the calls of \<open>bls_pm_setAppWakeupLowPower\<close>.\<close>

record blt_soft_timer =
  timer :: "blt_time_event list"
  currentNum :: u8
  clk :: "nat \<Rightarrow> u32"
  n_clk :: nat
  wakeups :: "(u32 \<times> bool) list"

definition MAX_TIMER_NUM :: u8 where "MAX_TIMER_NUM = 4"
definition CLOCK_16M_SYS_TIMER_CLK_1US :: u32 where "CLOCK_16M_SYS_TIMER_CLK_1US = 16"
definition CLOCK_16M_SYS_TIMER_CLK_1MS :: u32 where "CLOCK_16M_SYS_TIMER_CLK_1MS = 16000"
definition CLOCK_16M_SYS_TIMER_CLK_1S :: u32 where "CLOCK_16M_SYS_TIMER_CLK_1S = 16000000"

definition TIME_COMPARE_SMALL :: "u32 \<Rightarrow> u32 \<Rightarrow> bool" where
  "TIME_COMPARE_SMALL a b = (b - a < push_bit 30 1)"

definition TIME_COMPARE_BIG :: "u32 \<Rightarrow> u32 \<Rightarrow> bool" where
  "TIME_COMPARE_BIG a b = (a - b < push_bit 30 1)"

definition BLT_TIMER_SAFE_MARGIN_PRE :: u32 where "BLT_TIMER_SAFE_MARGIN_PRE = push_bit 7 CLOCK_16M_SYS_TIMER_CLK_1US"
definition BLT_TIMER_SAFE_MARGIN_POST :: u32 where "BLT_TIMER_SAFE_MARGIN_POST = push_bit 2 CLOCK_16M_SYS_TIMER_CLK_1S"

definition blt_is_timer_expired :: "u32 \<Rightarrow> u32 \<Rightarrow> bool" where
  "blt_is_timer_expired tm now = (now + BLT_TIMER_SAFE_MARGIN_PRE - tm < BLT_TIMER_SAFE_MARGIN_POST)"

definition clock_time_st :: "'a blt_soft_timer_scheme \<Rightarrow> u32 \<times> 'a blt_soft_timer_scheme" where
  "clock_time_st s = (clk s (n_clk s), s\<lparr>n_clk := n_clk s + 1\<rparr>)"

definition set_wakeup :: "u32 \<Rightarrow> bool \<Rightarrow> 'a blt_soft_timer_scheme \<Rightarrow> 'a blt_soft_timer_scheme" where
  "set_wakeup tm en s = s\<lparr>wakeups := wakeups s @ [(tm, en)]\<rparr>"

text \<open>Wake up at the first deadline when it is less than three seconds away.\<close>

definition arm_first :: "u32 \<Rightarrow> 'a blt_soft_timer_scheme \<Rightarrow> 'a blt_soft_timer_scheme" where
  "arm_first now s =
     (if ev_t (timer s ! 0) - now < 3000 * CLOCK_16M_SYS_TIMER_CLK_1MS
      then set_wakeup (ev_t (timer s ! 0)) True s else set_wakeup 0 False s)"

section \<open>Sorting\<close>

definition swap_events :: "nat \<Rightarrow> blt_time_event list \<Rightarrow> blt_time_event list" where
  "swap_events j xs = xs[j := xs ! (j + 1), j + 1 := xs ! j]"

text \<open>The inner loop over \<open>j < m\<close> and the outer loop over \<open>i < n - 1\<close>, \<open>k\<close> being the iterations left.\<close>

definition compare_swap :: "nat \<Rightarrow> blt_time_event list \<Rightarrow> blt_time_event list" where
  "compare_swap j xs = (if TIME_COMPARE_BIG (ev_t (xs ! j)) (ev_t (xs ! (j + 1))) then swap_events j xs else xs)"

definition bubble_pass :: "nat \<Rightarrow> blt_time_event list \<Rightarrow> blt_time_event list" where
  "bubble_pass m xs = fold compare_swap [0..<m] xs"

definition bubble_sort :: "nat \<Rightarrow> blt_time_event list \<Rightarrow> blt_time_event list" where
  "bubble_sort n xs = fold (\<lambda>i. bubble_pass (n - i - 1)) [0..<n - 1] xs"

definition blt_soft_timer_sort :: "'a blt_soft_timer_scheme \<Rightarrow> (int \<times> 'a blt_soft_timer_scheme) option" where
  "blt_soft_timer_sort s =
     (if currentNum s < 1 \<or> MAX_TIMER_NUM < currentNum s then None
      else Some (1, s\<lparr>timer := bubble_sort (unat (currentNum s)) (timer s)\<rparr>))"

section \<open>Adding and deleting\<close>

definition blt_soft_timer_add :: "nat \<Rightarrow> u32 \<Rightarrow> 'a blt_soft_timer_scheme \<Rightarrow> (int \<times> 'a blt_soft_timer_scheme) option" where
  "blt_soft_timer_add func interval_us s =
     (let (now, s) = clock_time_st s in
      if MAX_TIMER_NUM \<le> currentNum s then Some (0, s)
      else let iv = interval_us * CLOCK_16M_SYS_TIMER_CLK_1US;
               s = s\<lparr>timer := (timer s)[unat (currentNum s) := \<lparr>ev_cb = func, ev_t = now + iv, ev_interval = iv\<rparr>],
                     currentNum := currentNum s + 1\<rparr>
           in map_option (\<lambda>(_, s). (1, set_wakeup (ev_t (timer s ! 0)) True s)) (blt_soft_timer_sort s))"

definition blt_soft_timer_delete_by_index :: "u8 \<Rightarrow> 'a blt_soft_timer_scheme \<Rightarrow> (int \<times> 'a blt_soft_timer_scheme) option" where
  "blt_soft_timer_delete_by_index index s =
     (if currentNum s \<le> index then None
      else Some (1, s\<lparr>timer := fold (\<lambda>i xs. xs[i := xs ! (i + 1)]) [unat index..<unat (currentNum s) - 1] (timer s),
                     currentNum := currentNum s - 1\<rparr>))"

function delete_loop :: "nat \<Rightarrow> nat \<Rightarrow> 'a blt_soft_timer_scheme \<Rightarrow> (int \<times> 'a blt_soft_timer_scheme) option" where
  "delete_loop func i s =
     (if i < unat (currentNum s) then
        if ev_cb (timer s ! i) = func then
          map_option (\<lambda>(_, s). (1, if i = 0 then let (now, s) = clock_time_st s in arm_first now s else s))
            (blt_soft_timer_delete_by_index (of_nat i) s)
        else delete_loop func (i + 1) s
      else Some (0, s))"
  by pat_completeness auto
termination by (relation "measure (\<lambda>(func, i, s). unat (currentNum s) - i)") auto

declare delete_loop.simps [simp del]

definition blt_soft_timer_delete :: "nat \<Rightarrow> 'a blt_soft_timer_scheme \<Rightarrow> (int \<times> 'a blt_soft_timer_scheme) option" where
  "blt_soft_timer_delete func s = delete_loop func 0 s"

section \<open>Expiry\<close>

text \<open>The new deadline of timer \<open>i\<close>.\<close>

definition restart :: "nat \<Rightarrow> u32 \<Rightarrow> u32 \<Rightarrow> 'a blt_soft_timer_scheme \<Rightarrow> 'a blt_soft_timer_scheme" where
  "restart i now iv s = s\<lparr>timer := (timer s)[i := (timer s ! i)\<lparr>ev_t := now + iv, ev_interval := iv\<rparr>]\<rparr>"

text \<open>What follows the callback of timer \<open>i\<close>, and whether it sets \<open>change_flg\<close>.\<close>

definition after_call :: "nat \<Rightarrow> u32 \<Rightarrow> int \<Rightarrow> 'a blt_soft_timer_scheme \<Rightarrow> (bool \<times> 'a blt_soft_timer_scheme) option" where
  "after_call i now result s =
     (if result < 0 then map_option (\<lambda>(_, s). (False, s)) (blt_soft_timer_delete_by_index (of_nat i) s)
      else if result = 0 then Some (True, restart i now (ev_interval (timer s ! i)) s)
      else Some (True, restart i now (of_int result * CLOCK_16M_SYS_TIMER_CLK_1US) s))"

text \<open>The loop ends because \<open>i\<close> grows and \<open>currentNum\<close> is a byte.\<close>

function process_loop :: "(nat \<Rightarrow> 'a blt_soft_timer_scheme \<Rightarrow> int \<times> 'a blt_soft_timer_scheme) \<Rightarrow> u32 \<Rightarrow> nat \<Rightarrow> bool \<Rightarrow>
    'a blt_soft_timer_scheme \<Rightarrow> (bool \<times> 'a blt_soft_timer_scheme) option" where
  "process_loop call now i change_flg s =
     (if i < unat (currentNum s) then
        if blt_is_timer_expired (ev_t (timer s ! i)) now then
          if ev_cb (timer s ! i) = 0 then None
          else let (result, s) = call (ev_cb (timer s ! i)) s in
               (case after_call i now result s of
                  None \<Rightarrow> None
                | Some (f, s) \<Rightarrow> process_loop call now (i + 1) (change_flg \<or> f) s)
        else process_loop call now (i + 1) change_flg s
      else Some (change_flg, s))"
  by pat_completeness auto
termination
proof (relation "measure (\<lambda>(call, now, i, f, s). 256 - i)", goal_cases)
  case (2 call now i f s)
  then have "i < 256" using unat_less_256 [of "currentNum s"] by linarith
  then show ?case by auto
next
  case (3 call now i f s)
  then have "i < 256" using unat_less_256 [of "currentNum s"] by linarith
  then show ?case by auto
qed simp

declare process_loop.simps [simp del]

definition blt_soft_timer_process :: "(nat \<Rightarrow> 'a blt_soft_timer_scheme \<Rightarrow> int \<times> 'a blt_soft_timer_scheme) \<Rightarrow>
    'a blt_soft_timer_scheme \<Rightarrow> 'a blt_soft_timer_scheme option" where
  "blt_soft_timer_process call s =
     (let (now, s) = clock_time_st s in
      if currentNum s = 0 then Some (set_wakeup 0 False s)
      else if \<not> blt_is_timer_expired (ev_t (timer s ! 0)) now then Some s
      else case process_loop call now 0 False s of
             None \<Rightarrow> None
           | Some (change_flg, s) \<Rightarrow>
               if currentNum s \<noteq> 0 then
                 map_option (\<lambda>(_, s). arm_first now s) (if change_flg then blt_soft_timer_sort s else Some (1, s))
               else Some (set_wakeup 0 False s))"

end
