(* ===== verification/SoftTimerFacts.thy ===== *)
theory SoftTimerFacts
  imports SoftTimer
begin

text \<open>
  The timer table: its type (at most four timers, none with a null callback) is kept by every operation, and a table of that type
  stops none of them; adding a timer sorts the table by the time that is left and arms the earliest deadline; and
  the expiry loop is a recursion over the list of timers, in which the timer behind a deleted one is passed over.
\<close>

section \<open>The sort permutes the active timers\<close>

definition permutes_prefix :: "nat \<Rightarrow> blt_time_event list \<Rightarrow> blt_time_event list \<Rightarrow> bool" where
  "permutes_prefix n xs ys \<longleftrightarrow> length ys = length xs \<and> mset (take n ys) = mset (take n xs) \<and> drop n ys = drop n xs"

lemma permutes_refl: "permutes_prefix n xs xs"
  by (simp add: permutes_prefix_def)

lemma permutes_trans: "permutes_prefix n xs ys \<Longrightarrow> permutes_prefix n ys zs \<Longrightarrow> permutes_prefix n xs zs"
  by (simp add: permutes_prefix_def)

lemma permutes_fold:
  "(\<And>i ys. i \<in> set is \<Longrightarrow> length ys = length xs \<Longrightarrow> permutes_prefix n ys (f i ys)) \<Longrightarrow> permutes_prefix n xs (fold f is xs)"
proof (induction "is" arbitrary: xs)
  case (Cons i "is")
  have "permutes_prefix n xs (f i xs)" using Cons.prems by simp
  moreover have "permutes_prefix n (f i xs) (fold f is (f i xs))"
    using calculation by (intro Cons.IH Cons.prems) (auto simp: permutes_prefix_def)
  ultimately show ?case by (auto intro: permutes_trans)
qed (simp add: permutes_refl)

lemma compare_swap_permutes: "j + 1 < n \<Longrightarrow> n \<le> length xs \<Longrightarrow> permutes_prefix n xs (compare_swap j xs)"
  using mset_swap [of "Suc j" "take n xs" j] by (auto simp: permutes_prefix_def compare_swap_def swap_events_def take_update_swap)

lemma bubble_pass_permutes: "m < n \<Longrightarrow> n \<le> length xs \<Longrightarrow> permutes_prefix n xs (bubble_pass m xs)"
  unfolding bubble_pass_def by (intro permutes_fold compare_swap_permutes) auto

lemma bubble_sort_permutes: "n \<le> length xs \<Longrightarrow> permutes_prefix n xs (bubble_sort n xs)"
  unfolding bubble_sort_def by (intro permutes_fold bubble_pass_permutes) auto

section \<open>The sort sorts, within half of the clock\<close>

text \<open>The time left until a deadline, and a list that is sorted from position \<open>k\<close> of its first \<open>n\<close> elements on.\<close>

definition left_until :: "u32 \<Rightarrow> blt_time_event \<Rightarrow> nat" where
  "left_until now e = unat (ev_t e - now)"

definition near :: "u32 \<Rightarrow> blt_time_event \<Rightarrow> bool" where
  "near now e \<longleftrightarrow> left_until now e < 1073741824"

definition sorted_from :: "u32 \<Rightarrow> nat \<Rightarrow> nat \<Rightarrow> blt_time_event list \<Rightarrow> bool" where
  "sorted_from now k n xs \<longleftrightarrow> (\<forall>i j. i < j \<and> j < n \<and> k \<le> j \<longrightarrow> left_until now (xs ! i) \<le> left_until now (xs ! j))"

lemma compare_near:
  assumes "near now a" "near now b"
  shows "TIME_COMPARE_BIG (ev_t a) (ev_t b) \<longleftrightarrow> left_until now b \<le> left_until now a"
proof -
  obtain x y where xy: "x = ev_t a - now" "y = ev_t b - now" by blast
  have d: "ev_t a - ev_t b = x - y" by (simp add: xy)
  have l: "unat x < 1073741824" "unat y < 1073741824" using assms by (simp_all add: near_def left_until_def xy)
  have p: "unat (push_bit 30 1 :: u32) = 1073741824" by (simp add: push_bit_eq_mult)
  have s: "unat (x - y) = (if unat y \<le> unat x then unat x - unat y else unat x + 4294967296 - unat y)"
    by (simp add: unat_sub_if_size word_size)
  have "unat (x - y) < 1073741824 \<longleftrightarrow> unat y \<le> unat x" 
  proof (cases "unat y \<le> unat x")
    case True
    then have "unat (x - y) = unat x - unat y" by (simp only: s if_True)
    then show ?thesis using True l by linarith
  next
    case False
    then have "unat (x - y) = unat x + 4294967296 - unat y" by (simp only: s if_False)
    then show ?thesis using False l by linarith
  qed
  then show ?thesis by (simp only: TIME_COMPARE_BIG_def d word_less_nat_alt p left_until_def xy)
qed

lemma near_permutes: "permutes_prefix n xs ys \<Longrightarrow> n \<le> length xs \<Longrightarrow> \<forall>e \<in> set (take n xs). near now e \<Longrightarrow> \<forall>e \<in> set (take n ys). near now e"
  by (metis permutes_prefix_def set_mset_mset)

lemma near_nth: "\<forall>e \<in> set (take n xs). near now e \<Longrightarrow> i < n \<Longrightarrow> n \<le> length xs \<Longrightarrow> near now (xs ! i)"
  by (metis in_set_conv_nth length_take min.absorb2 nth_take)

lemma compare_swap_nth:
  assumes "near now (xs ! j)" "near now (xs ! (j + 1))" "j + 1 < length xs"
  shows "left_until now (compare_swap j xs ! (j + 1)) = max (left_until now (xs ! j)) (left_until now (xs ! (j + 1)))"
    "left_until now (compare_swap j xs ! j) = min (left_until now (xs ! j)) (left_until now (xs ! (j + 1)))"
    "i \<noteq> j \<Longrightarrow> i \<noteq> j + 1 \<Longrightarrow> compare_swap j xs ! i = xs ! i"
  using assms compare_near [OF assms(1,2)] by (auto simp: compare_swap_def swap_events_def)

text \<open>One pass carries the latest of the first \<open>m + 1\<close> timers to position \<open>m\<close>.\<close>

lemma pass_steps:
  assumes "m < n" "n \<le> length xs" "\<forall>e \<in> set (take n xs). near now e" "sorted_from now (m + 1) n xs"
  shows "j \<le> m \<Longrightarrow> sorted_from now (m + 1) n (fold compare_swap [0..<j] xs) \<and>
    (\<forall>i < j. left_until now (fold compare_swap [0..<j] xs ! i) \<le> left_until now (fold compare_swap [0..<j] xs ! j))"
proof (induction j)
  case (Suc j)
  obtain ys where ys: "ys = fold compare_swap [0..<j] xs" by blast
  have per: "permutes_prefix n xs ys" unfolding ys using Suc.prems assms(1,2) by (intro permutes_fold compare_swap_permutes) auto
  then have len: "length ys = length xs" by (simp add: permutes_prefix_def)
  have "near now (ys ! i)" if "i < n" for i
    using near_nth [OF near_permutes [OF per assms(2,3)] that] assms(2) len by simp
  then have nr: "near now (ys ! j)" "near now (ys ! (j + 1))" using Suc.prems assms(1) by simp_all
  have j1: "j + 1 < length ys" using Suc.prems assms(1,2) len by simp
  note nth = compare_swap_nth [OF nr j1]
  have IH: "sorted_from now (m + 1) n ys" "\<forall>i < j. left_until now (ys ! i) \<le> left_until now (ys ! j)"
    using Suc by (simp_all add: ys)
  have "left_until now (compare_swap j ys ! i) \<le> left_until now (compare_swap j ys ! k)" if "i < k" "k < n" "m + 1 \<le> k" for i k
  proof -
    have s: "left_until now (ys ! x) \<le> left_until now (ys ! k)" if "x < k" for x
      using IH(1) that \<open>k < n\<close> \<open>m + 1 \<le> k\<close> by (simp add: sorted_from_def)
    have "k \<noteq> j" "k \<noteq> j + 1" "j < k" "j + 1 < k" using that Suc.prems by simp_all
    then show ?thesis using nth(3) [of k] nth(3) [of i] nth(1,2) s [of i] s [of j] s [of "j + 1"] \<open>i < k\<close>
      by (cases "i = j"; cases "i = j + 1") auto
  qed
  moreover have "left_until now (compare_swap j ys ! i) \<le> left_until now (compare_swap j ys ! (j + 1))" if "i < Suc j" for i
    using nth(1,2) nth(3) [of i] IH(2) that by (cases "i = j") (auto simp: less_Suc_eq)
  ultimately show ?case by (simp add: ys [symmetric] sorted_from_def)
qed (use assms(4) in simp)

lemma bubble_pass_sorts:
  assumes "m < n" "n \<le> length xs" "\<forall>e \<in> set (take n xs). near now e" "sorted_from now (m + 1) n xs"
  shows "sorted_from now m n (bubble_pass m xs)"
  using pass_steps [OF assms order_refl] unfolding bubble_pass_def sorted_from_def
  by (metis le_antisym not_less_eq_eq Suc_eq_plus1 le_neq_implies_less)

lemma bubble_sort_sorts:
  assumes "n \<le> length xs" "\<forall>e \<in> set (take n xs). near now e"
  shows "sorted_from now 0 n (bubble_sort n xs)"
proof -
  have "i \<le> n - 1 \<Longrightarrow> sorted_from now (n - i) n (fold (\<lambda>i. bubble_pass (n - i - 1)) [0..<i] xs)" for i
  proof (induction i)
    case (Suc i)
    obtain ys where ys: "ys = fold (\<lambda>i. bubble_pass (n - i - 1)) [0..<i] xs" by blast
    have per: "permutes_prefix n xs ys" unfolding ys using assms(1) Suc.prems by (intro permutes_fold bubble_pass_permutes) auto
    then have len: "length ys = length xs" by (simp add: permutes_prefix_def)
    have "n - i - 1 + 1 = n - i" using Suc.prems by linarith
    then have "sorted_from now (n - i - 1 + 1) n ys" using Suc unfolding ys by (metis Suc_leD)
    then have "sorted_from now (n - i - 1) n (bubble_pass (n - i - 1) ys)"
      using Suc.prems assms(1) len by (intro bubble_pass_sorts near_permutes [OF per assms]) auto
    then show ?case by (simp add: ys)
  qed (simp add: sorted_from_def)
  from this [of "n - 1"] show ?thesis unfolding bubble_sort_def sorted_from_def by (cases n) auto
qed

section \<open>The type of the table\<close>

text \<open>The timers that are active.\<close>

definition active :: "'a blt_soft_timer_scheme \<Rightarrow> blt_time_event list" where
  "active s = take (unat (currentNum s)) (timer s)"

definition timer_ok :: "'a blt_soft_timer_scheme \<Rightarrow> bool" where
  "timer_ok s \<longleftrightarrow> length (timer s) = 4 \<and> unat (currentNum s) \<le> 4 \<and> (\<forall>e \<in> set (active s). ev_cb e \<noteq> 0)"

lemma active_simps [simp]: "active (set_wakeup x b s) = active s" "active (s\<lparr>n_clk := n\<rparr>) = active s" "active (arm_first now s) = active s"
  by (simp_all add: active_def set_wakeup_def arm_first_def)

lemma timer_ok_simps [simp]: "timer_ok (set_wakeup x b s) = timer_ok s" "timer_ok (s\<lparr>n_clk := n\<rparr>) = timer_ok s"
  "timer_ok (arm_first now s) = timer_ok s" "currentNum (set_wakeup x b s) = currentNum s" "currentNum (arm_first now s) = currentNum s"
  by (simp_all add: timer_ok_def set_wakeup_def arm_first_def active_def)

lemma sort_spec:
  assumes "timer_ok s" "currentNum s \<noteq> 0"
  obtains s' where "blt_soft_timer_sort s = Some (1, s')" "s' = s\<lparr>timer := bubble_sort (unat (currentNum s)) (timer s)\<rparr>" "timer_ok s'"
    "mset (active s') = mset (active s)"
proof -
  have n: "\<not> (currentNum s < 1 \<or> MAX_TIMER_NUM < currentNum s)"
    using assms by (simp add: timer_ok_def MAX_TIMER_NUM_def word_less_nat_alt word_unat_eq_iff not_less)
  obtain s' where s': "s' = s\<lparr>timer := bubble_sort (unat (currentNum s)) (timer s)\<rparr>" by blast
  have per: "permutes_prefix (unat (currentNum s)) (timer s) (timer s')"
    using assms by (simp add: s' bubble_sort_permutes timer_ok_def)
  then have m: "mset (active s') = mset (active s)" by (simp add: permutes_prefix_def active_def s')
  then have "set (active s') = set (active s)" by (metis set_mset_mset)
  then have "timer_ok s'" using assms(1) per by (simp add: timer_ok_def permutes_prefix_def s')
  then show thesis using that n s' m by (simp add: blt_soft_timer_sort_def)
qed

lemma shift_loop:
  "i \<le> m \<Longrightarrow> m < length xs \<Longrightarrow> fold (\<lambda>i xs. xs[i := xs ! (i + 1)]) [i..<m] xs = take i xs @ drop (i + 1) (take (m + 1) xs) @ drop m xs"
proof (induction m)
  case (Suc m)
  show ?case
  proof (cases "i = Suc m")
    case True
    then show ?thesis using Suc.prems by simp
  next
    case False
    then have i: "i \<le> m" using Suc.prems by simp
    obtain ys where ys: "ys = take i xs @ drop (i + 1) (take (m + 1) xs)" by blast
    have l: "length ys = m" using i Suc.prems by (simp add: ys)
    have "fold (\<lambda>i xs. xs[i := xs ! (i + 1)]) [i..<Suc m] xs = (ys @ drop m xs)[m := (ys @ drop m xs) ! (m + 1)]"
      using Suc.IH i Suc.prems by (simp add: ys)
    also have "\<dots> = ys @ (drop m xs)[0 := xs ! (m + 1)]" using l Suc.prems by (simp add: list_update_append nth_append)
    also have "(drop m xs)[0 := xs ! (m + 1)] = xs ! (m + 1) # drop (m + 1) xs" using Suc.prems by (simp add: Cons_nth_drop_Suc [symmetric])
    also have "ys @ xs ! (m + 1) # drop (m + 1) xs = take i xs @ drop (i + 1) (take (Suc m + 1) xs) @ drop (Suc m) xs"
      using i Suc.prems by (simp add: ys take_Suc_conv_app_nth [of "Suc m"])
    finally show ?thesis .
  qed
qed simp

lemma timer_delete_spec:
  assumes "timer_ok s" "i < unat (currentNum s)"
  obtains s' where "blt_soft_timer_delete_by_index (of_nat i) s = Some (1, s')" "timer_ok s'" "currentNum s' = currentNum s - 1"
    "active s' = take i (active s) @ drop (i + 1) (active s)" "n_clk s' = n_clk s" "clk s' = clk s" "wakeups s' = wakeups s"
proof -
  have n: "unat (currentNum s) \<le> 4" "length (timer s) = 4" using assms(1) by (simp_all add: timer_ok_def)
  have ui: "unat (of_nat i :: u8) = i" using assms(2) n(1) by simp
  have un: "unat (currentNum s - 1) = unat (currentNum s) - 1" using assms(2) by (simp add: unat_sub_u8)
  obtain s' where s': "s' = s\<lparr>timer := fold (\<lambda>i xs. xs[i := xs ! (i + 1)]) [i..<unat (currentNum s) - 1] (timer s), currentNum := currentNum s - 1\<rparr>" by blast
  have t: "timer s' = take i (timer s) @ drop (i + 1) (take (unat (currentNum s)) (timer s)) @ drop (unat (currentNum s) - 1) (timer s)"
    using assms(2) n shift_loop [of i "unat (currentNum s) - 1" "timer s"] by (simp add: s')
  have a: "active s' = take i (active s) @ drop (i + 1) (active s)"
    using assms(2) n t by (cases "i = unat (currentNum s) - 1") (auto simp: active_def s' un min_def)
  have "set (active s') \<subseteq> set (active s)" unfolding a by (auto dest: in_set_takeD in_set_dropD)
  then have ok: "timer_ok s'" using assms n t by (auto simp: timer_ok_def un s')
  have "\<not> currentNum s \<le> of_nat i" using assms(2) ui by (simp add: word_le_nat_alt)
  then have "blt_soft_timer_delete_by_index (of_nat i) s = Some (1, s')" by (simp add: blt_soft_timer_delete_by_index_def s' ui del: unat_of_nat_u8)
  then show thesis using that ok a by (simp add: s')
qed

lemma timer_add_spec:
  assumes "timer_ok s" "func \<noteq> 0"
  obtains (full) s' where "unat (currentNum s) = 4" "blt_soft_timer_add func us s = Some (0, s')" "s' = s\<lparr>n_clk := n_clk s + 1\<rparr>"
  | (added) u s' where "unat (currentNum s) < 4" "blt_soft_timer_add func us s = Some (1, set_wakeup (ev_t (timer s' ! 0)) True s')" "timer_ok s'"
      "currentNum s' = currentNum s + 1" "s' = u\<lparr>timer := bubble_sort (unat (currentNum s) + 1) (timer u)\<rparr>" "length (timer u) = 4"
      "take (unat (currentNum s) + 1) (timer u) = active s @ [\<lparr>ev_cb = func, ev_t = clk s (n_clk s) + us * 16, ev_interval = us * 16\<rparr>]"
      "wakeups s' = wakeups s"
proof (cases "unat (currentNum s) = 4")
  case True
  then have "MAX_TIMER_NUM \<le> currentNum s" by (simp add: MAX_TIMER_NUM_def word_le_nat_alt)
  then show thesis using full True by (simp add: blt_soft_timer_add_def clock_time_st_def)
next
  case False
  then have n: "unat (currentNum s) < 4" "length (timer s) = 4" using assms(1) by (simp_all add: timer_ok_def)
  then have nf: "\<not> MAX_TIMER_NUM \<le> currentNum s" by (simp add: MAX_TIMER_NUM_def word_le_nat_alt)
  have un: "unat (currentNum s + 1) = unat (currentNum s) + 1" using n(1) by (simp add: unat_add_u8)
  obtain e where e: "e = \<lparr>ev_cb = func, ev_t = clk s (n_clk s) + us * 16, ev_interval = us * 16\<rparr>" by blast
  obtain u where u: "u = s\<lparr>n_clk := n_clk s + 1, timer := (timer s)[unat (currentNum s) := e], currentNum := currentNum s + 1\<rparr>" by blast
  have a: "active u = active s @ [e]" using n by (simp add: active_def u un take_Suc_conv_app_nth)
  then have ok: "timer_ok u" using assms n by (auto simp: timer_ok_def u un e)
  have "currentNum u \<noteq> 0" using un by (auto simp: u word_unat_eq_iff)
  then obtain s' where s': "blt_soft_timer_sort u = Some (1, s')" "s' = u\<lparr>timer := bubble_sort (unat (currentNum u)) (timer u)\<rparr>" "timer_ok s'"
    using sort_spec [OF ok] by blast
  have "blt_soft_timer_add func us s = Some (1, set_wakeup (ev_t (timer s' ! 0)) True s')"
    using nf s'(1) by (simp add: blt_soft_timer_add_def clock_time_st_def Let_def CLOCK_16M_SYS_TIMER_CLK_1US_def e u)
  then show thesis using added [of s' u] n s' a by (simp add: u un active_def e)
qed

text \<open>
  A callback may change the state as it likes, within the type of the table, but when it asks for its timer to be deleted
  it has not deleted timers itself.
\<close>

definition callbacks_ok :: "(nat \<Rightarrow> 'a blt_soft_timer_scheme \<Rightarrow> int \<times> 'a blt_soft_timer_scheme) \<Rightarrow> bool" where
  "callbacks_ok call \<longleftrightarrow> (\<forall>f s. timer_ok s \<longrightarrow> timer_ok (snd (call f s)) \<and>
     (fst (call f s) < 0 \<longrightarrow> unat (currentNum s) \<le> unat (currentNum (snd (call f s)))))"

lemma timer_ok_nth: "timer_ok s \<longleftrightarrow> length (timer s) = 4 \<and> unat (currentNum s) \<le> 4 \<and> (\<forall>i < unat (currentNum s). ev_cb (timer s ! i) \<noteq> 0)"
proof (cases "length (timer s) = 4 \<and> unat (currentNum s) \<le> 4")
  case True
  then have "set (active s) = nth (timer s) ` {0..<unat (currentNum s)}" by (simp add: active_def nth_image)
  then show ?thesis using True by (auto simp: timer_ok_def)
qed (auto simp: timer_ok_def)

lemma restart_ok: "timer_ok s \<Longrightarrow> i < 4 \<Longrightarrow> timer_ok (restart i now iv s)"
  by (auto simp: timer_ok_nth restart_def nth_list_update)

lemma after_call_ok:
  assumes "timer_ok s" "result < 0 \<Longrightarrow> i < unat (currentNum s)" "i < 4"
  shows "\<exists>f s'. after_call i now result s = Some (f, s') \<and> timer_ok s'"
proof (cases "result < 0")
  case True
  then show ?thesis using timer_delete_spec [OF assms(1) assms(2)] by (metis (no_types, lifting) after_call_def option.simps(9) case_prod_conv)
qed (use assms(1,3) restart_ok in \<open>auto simp: after_call_def\<close>)

lemma process_loop_ok:
  "callbacks_ok call \<Longrightarrow> timer_ok s \<Longrightarrow> \<exists>f s'. process_loop call now i c s = Some (f, s') \<and> timer_ok s'"
proof (induction call now i c s rule: process_loop.induct)
  case (1 call now i c s)
  show ?case
  proof (cases "i < unat (currentNum s) \<and> blt_is_timer_expired (ev_t (timer s ! i)) now")
    case False
    then show ?thesis using 1(2-4) by (cases "i < unat (currentNum s)") (auto simp: process_loop.simps [of call now i c s])
  next
    case True
    obtain r u where ru: "call (ev_cb (timer s ! i)) s = (r, u)" by fastforce
    have u: "timer_ok u" "r < 0 \<Longrightarrow> unat (currentNum s) \<le> unat (currentNum u)"
      using 1(3) [unfolded callbacks_ok_def, rule_format, OF 1(4), of "ev_cb (timer s ! i)"] ru by simp_all
    have i4: "i < 4" using True 1(4) by (simp add: timer_ok_def)
    have "timer s ! i \<in> set (active s)" using True 1(4) by (auto simp: active_def timer_ok_def in_set_conv_nth)
    then have nz: "ev_cb (timer s ! i) \<noteq> 0" using 1(4) by (simp add: timer_ok_def)
    obtain f v where v: "after_call i now r u = Some (f, v)" "timer_ok v"
      using after_call_ok [OF u(1) _ i4, of r] u(2) True by fastforce
    have "\<exists>f' s'. process_loop call now (i + 1) (c \<or> f) v = Some (f', s') \<and> timer_ok s'"
      using 1(1) [of "(r, u)" r u "(f, v)" f v] True nz ru v 1(3) by simp
    then show ?thesis using True nz ru v(1) by (simp add: process_loop.simps [of call now i c s])
  qed
qed

lemma process_ok:
  assumes "callbacks_ok call" "timer_ok s"
  shows "\<exists>s'. blt_soft_timer_process call s = Some s' \<and> timer_ok s'"
proof -
  obtain f u where u: "process_loop call (clk s (n_clk s)) 0 False (s\<lparr>n_clk := n_clk s + 1\<rparr>) = Some (f, u)" "timer_ok u"
    using process_loop_ok [OF assms(1), of "s\<lparr>n_clk := n_clk s + 1\<rparr>"] assms(2) by fastforce
  show ?thesis
  proof (cases "currentNum u = 0 \<or> \<not> f")
    case True
    then show ?thesis using u assms(2) by (auto simp: blt_soft_timer_process_def clock_time_st_def)
  next
    case False
    then obtain v where "blt_soft_timer_sort u = Some (1, v)" "timer_ok v" using sort_spec [OF u(2)] by blast
    then show ?thesis using u assms(2) False by (auto simp: blt_soft_timer_process_def clock_time_st_def)
  qed
qed

lemma delete_loop_ok: "timer_ok s \<Longrightarrow> \<exists>r s'. delete_loop func i s = Some (r, s') \<and> timer_ok s'"
proof (induction func i s rule: delete_loop.induct)
  case (1 func i s)
  show ?case
  proof (cases "i < unat (currentNum s) \<and> ev_cb (timer s ! i) = func")
    case True
    then obtain u where "blt_soft_timer_delete_by_index (of_nat i) s = Some (1, u)" "timer_ok u"
      using timer_delete_spec [OF 1(2)] by blast
    then show ?thesis using True by (simp add: delete_loop.simps [of func i s] clock_time_st_def)
  next
    case False
    then show ?thesis using 1 by (cases "i < unat (currentNum s)") (auto simp: delete_loop.simps [of func i s])
  qed
qed

text \<open>The operations of the interface, in any order.\<close>

datatype timer_op = Op_add nat u32 | Op_delete nat | Op_process

fun exec_op :: "(nat \<Rightarrow> 'a blt_soft_timer_scheme \<Rightarrow> int \<times> 'a blt_soft_timer_scheme) \<Rightarrow> timer_op \<Rightarrow> 'a blt_soft_timer_scheme \<Rightarrow>
    'a blt_soft_timer_scheme option" where
  "exec_op call (Op_add f us) s = map_option snd (blt_soft_timer_add f us s)"
| "exec_op call (Op_delete f) s = map_option snd (blt_soft_timer_delete f s)"
| "exec_op call Op_process s = blt_soft_timer_process call s"

definition typed_op :: "timer_op \<Rightarrow> bool" where
  "typed_op x \<longleftrightarrow> (case x of Op_add f _ \<Rightarrow> f \<noteq> 0 | _ \<Rightarrow> True)"

inductive timer_reach :: "(nat \<Rightarrow> 'a blt_soft_timer_scheme \<Rightarrow> int \<times> 'a blt_soft_timer_scheme) \<Rightarrow> 'a blt_soft_timer_scheme \<Rightarrow>
    'a blt_soft_timer_scheme \<Rightarrow> bool" for call where
  start: "timer_reach call s s"
| step: "timer_reach call s u \<Longrightarrow> typed_op x \<Longrightarrow> exec_op call x u = Some v \<Longrightarrow> timer_reach call s v"

lemma op_preserves:
  assumes "callbacks_ok call" "timer_ok s" "typed_op x"
  shows "\<exists>s'. exec_op call x s = Some s' \<and> timer_ok s'"
proof (cases x)
  case (Op_add f us)
  then have "f \<noteq> 0" using assms(3) by (simp add: typed_op_def)
  from timer_add_spec [OF assms(2) this, of us] show ?thesis using assms(2) by (cases; simp add: Op_add)
next
  case (Op_delete f)
  then show ?thesis using delete_loop_ok [OF assms(2), of f 0] by (auto simp: blt_soft_timer_delete_def)
next
  case Op_process
  then show ?thesis using process_ok [OF assms(1,2)] by simp
qed

lemma reach_ok: "timer_reach call s u \<Longrightarrow> callbacks_ok call \<Longrightarrow> timer_ok s \<Longrightarrow> timer_ok u"
proof (induction rule: timer_reach.induct)
  case (step s u x v)
  then show ?case using op_preserves [of call u x] by simp
qed

text \<open>
C21: Well-typed tables do not go wrong: in whatever order timers with callbacks are added, deleted and
processed, the table holds at most four timers and none without a callback, and no operation ends in one
of the endless loops that guard against an inconsistent table, provided that a callback which asks for its timer to be deleted
has not deleted timers itself.
\<close>

theorem timer_table_sound:
  assumes "callbacks_ok call" "timer_ok s0" "timer_reach call s0 s" "typed_op x"
  shows "unat (currentNum s) \<le> 4 \<and> (\<forall>i < unat (currentNum s). ev_cb (timer s ! i) \<noteq> 0) \<and>
    (\<exists>s'. exec_op call x s = Some s' \<and> timer_ok s')"
proof -
  have ok: "timer_ok s" by (rule reach_ok [OF assms(3,1,2)])
  have "timer s ! i \<in> set (active s)" if "i < unat (currentNum s)" for i
    using that ok by (auto simp: active_def timer_ok_def in_set_conv_nth)
  then show ?thesis using ok op_preserves [OF assms(1) ok assms(4)] by (auto simp: timer_ok_def)
qed

definition timer_demo :: blt_soft_timer where
  "timer_demo = \<lparr>timer = [\<lparr>ev_cb = 1, ev_t = 1000, ev_interval = 16000\<rparr>, \<lparr>ev_cb = 2, ev_t = 1500, ev_interval = 320000\<rparr>,
     \<lparr>ev_cb = 0, ev_t = 0, ev_interval = 0\<rparr>, \<lparr>ev_cb = 0, ev_t = 0, ev_interval = 0\<rparr>], currentNum = 2, clk = (\<lambda>n. 2000), n_clk = 0, wakeups = []\<rparr>"

lemma timer_demo_ok: "timer_ok timer_demo"
  by (simp add: timer_ok_def timer_demo_def active_def)

lemma timer_table_sound_witness:
  "\<exists>s'. blt_soft_timer_process (\<lambda>f s. (if f = 1 then -1 else 50, s)) timer_demo = Some s' \<and> timer_ok s'"
proof -
  have "callbacks_ok (\<lambda>f (s :: blt_soft_timer). (if f = 1 then -1 else 50, s))" by (simp add: callbacks_ok_def)
  from timer_table_sound [OF this timer_demo_ok timer_reach.start, of Op_process] show ?thesis by (simp add: typed_op_def)
qed

text \<open>
A callback that deletes its own timer and also asks for that by a negative result stops the program when no
other timer is left.
\<close>

lemma self_deleting_callback_hangs:
  assumes "timer_ok s" "currentNum s = 1" "blt_is_timer_expired (ev_t (timer s ! 0)) (clk s (n_clk s))"
    and "call = (\<lambda>f s. (-1, snd (the (blt_soft_timer_delete f s))))"
  shows "blt_soft_timer_process call s = None"
proof -
  obtain u where u: "u = s\<lparr>n_clk := n_clk s + 1\<rparr>" by blast
  have ok: "timer_ok u" "currentNum u = 1" using assms(1,2) by (simp_all add: u)
  obtain v where v: "blt_soft_timer_delete_by_index (of_nat 0) u = Some (1, v)" "currentNum v = currentNum u - 1"
    using timer_delete_spec [OF ok(1), of 0] ok(2) by auto
  have d: "snd (the (blt_soft_timer_delete (ev_cb (timer u ! 0)) u)) = (let (now, s) = clock_time_st v in arm_first now s)"
    using v(1) ok(2) by (simp add: blt_soft_timer_delete_def delete_loop.simps [of _ 0])
  have n0: "currentNum (let (now, s) = clock_time_st v in arm_first now s) = 0" using v(2) ok(2) by (simp add: clock_time_st_def)
  have nz: "ev_cb (timer u ! 0) \<noteq> 0" using ok by (simp add: timer_ok_nth)
  have "call (ev_cb (timer u ! 0)) u = (-1, (let (now, s) = clock_time_st v in arm_first now s))" by (simp add: assms(4) d)
  then have "process_loop call (clk s (n_clk s)) 0 False u = None"
    using nz assms(3) ok(2) n0
    by (simp add: process_loop.simps [of call _ 0] after_call_def blt_soft_timer_delete_by_index_def u del: Let_def split_paired_All)
  then show ?thesis using assms(2,3) by (simp add: blt_soft_timer_process_def clock_time_st_def u)
qed

section \<open>Adding\<close>

text \<open>
C22: Adding a timer puts it in its place: as long as the deadlines are less than 67 seconds away (a quarter of the
clock), the table holds the old timers and the new one in the order of the time that is left, and the chip is set to wake up at
the earliest of them, whatever the tick counter is and even if it wraps around in between.
\<close>

theorem added_timer_arms_earliest:
  assumes "timer_ok s" "func \<noteq> 0" "unat (currentNum s) < 4" "now = clk s (n_clk s)"
    and "\<forall>e \<in> set (active s). unat (ev_t e - now) < 2 ^ 30" "unat (us * 16) < 2 ^ 30"
  shows "\<exists>s'. blt_soft_timer_add func us s = Some (1, s') \<and>
    mset (active s') = add_mset \<lparr>ev_cb = func, ev_t = now + us * 16, ev_interval = us * 16\<rparr> (mset (active s)) \<and>
    sorted (map (\<lambda>e. unat (ev_t e - now)) (active s')) \<and>
    wakeups s' = wakeups s @ [(ev_t (hd (active s')), True)]"
  using assms(1,2)
proof (cases rule: timer_add_spec [where us = us])
  case full
  then show ?thesis using assms(3) by simp
next
  case (added u s')
  obtain n where n: "n = unat (currentNum s) + 1" by blast
  have un: "unat (currentNum s') = n" using added(1,4) by (simp add: unat_add_u8 n)
  have t: "timer s' = bubble_sort n (timer u)" using added(5) by (simp add: n)
  have le: "n \<le> length (timer u)" using added(1,6) by (simp add: n)
  have a: "active s' = take n (bubble_sort n (timer u))" by (simp add: active_def un t)
  have m: "mset (active s') = mset (take n (timer u))" using bubble_sort_permutes [OF le] by (simp add: a permutes_prefix_def)
  have nu: "take n (timer u) = active s @ [\<lparr>ev_cb = func, ev_t = now + us * 16, ev_interval = us * 16\<rparr>]"
    using added(7) assms(4) by (simp add: n)
  have "\<forall>e \<in> set (take n (timer u)). near now e"
    using assms(5,6) by (auto simp: nu near_def left_until_def)
  then have "sorted_from now 0 n (bubble_sort n (timer u))" by (rule bubble_sort_sorts [OF le])
  moreover have l: "length (bubble_sort n (timer u)) = 4" using bubble_sort_permutes [OF le] added(6) by (simp add: permutes_prefix_def)
  ultimately have "sorted (map (\<lambda>e. unat (ev_t e - now)) (active s'))"
    using le added(6) by (auto simp: a sorted_iff_nth_mono_less sorted_from_def left_until_def)
  moreover have "bubble_sort n (timer u) \<noteq> []" using l by auto
  then have "hd (active s') = timer s' ! 0" by (simp add: a t hd_conv_nth n)
  ultimately show ?thesis using added(2,8) m by (simp add: nu set_wakeup_def active_def)
qed

lemma added_timer_arms_earliest_witness:
  "\<exists>s'. blt_soft_timer_add 9 10 (timer_demo\<lparr>clk := (\<lambda>n. 500)\<rparr>) = Some (1, s') \<and>
    sorted (map (\<lambda>e. unat (ev_t e - 500)) (active s')) \<and> size (mset (active s')) = 3"
proof -
  have "timer_ok (timer_demo\<lparr>clk := (\<lambda>n. 500)\<rparr>)" "unat (currentNum (timer_demo\<lparr>clk := (\<lambda>n. 500)\<rparr>)) < 4"
    "\<forall>e \<in> set (active (timer_demo\<lparr>clk := (\<lambda>n. 500)\<rparr>)). unat (ev_t e - 500) < 2 ^ 30"
    "size (mset (active (timer_demo\<lparr>clk := (\<lambda>n. 500)\<rparr>))) = 2"
    by (simp_all add: timer_ok_def timer_demo_def active_def)
  with added_timer_arms_earliest [of "timer_demo\<lparr>clk := (\<lambda>n. 500)\<rparr>" 9 500 10] show ?thesis
    by (fastforce simp: timer_demo_def)
qed

section \<open>Expiry\<close>

text \<open>
  A reference for the loop of \<open>blt_soft_timer_process\<close>, over the list of timers: what the callbacks do to the rest of the
  state \<open>x\<close>, whether a deadline has changed, and the timers that remain. The timer behind a deleted one is kept unseen.
\<close>

fun expire :: "(nat \<Rightarrow> 'x \<Rightarrow> int \<times> 'x) \<Rightarrow> u32 \<Rightarrow> blt_time_event list \<Rightarrow> 'x \<Rightarrow> bool \<times> blt_time_event list \<times> 'x" where
  "expire g now [] x = (False, [], x)"
| "expire g now [e] x =
    (if blt_is_timer_expired (ev_t e) now then
       let (r, x) = g (ev_cb e) x in
       if r < 0 then (False, [], x)
       else let iv = (if r = 0 then ev_interval e else of_int r * 16) in (True, [e\<lparr>ev_t := now + iv, ev_interval := iv\<rparr>], x)
     else (False, [e], x))"
| "expire g now (e # e' # es) x =
    (if blt_is_timer_expired (ev_t e) now then
       let (r, x) = g (ev_cb e) x in
       if r < 0 then let (f, out, x) = expire g now es x in (f, e' # out, x)
       else let iv = (if r = 0 then ev_interval e else of_int r * 16); (f, out, x) = expire g now (e' # es) x
            in (True, e\<lparr>ev_t := now + iv, ev_interval := iv\<rparr> # out, x)
     else let (f, out, x) = expire g now (e' # es) x in (f, e # out, x))"

text \<open>Callbacks that work on the rest of the state.\<close>

definition plain_call :: "(nat \<Rightarrow> 'x \<Rightarrow> int \<times> 'x) \<Rightarrow> nat \<Rightarrow> 'x blt_soft_timer_scheme \<Rightarrow> int \<times> 'x blt_soft_timer_scheme" where
  "plain_call g f s = (let (r, x) = g f (blt_soft_timer.more s) in (r, blt_soft_timer.more_update (\<lambda>_. x) s))"

lemma more_update_keeps [simp]: "timer (blt_soft_timer.more_update (\<lambda>_. x) s) = timer s" "currentNum (blt_soft_timer.more_update (\<lambda>_. x) s) = currentNum s"
  "active (blt_soft_timer.more_update (\<lambda>_. x) s) = active s" "timer_ok (blt_soft_timer.more_update (\<lambda>_. x) s) = timer_ok s"
  by (simp_all add: active_def timer_ok_def)

lemma length_active: "timer_ok s \<Longrightarrow> length (active s) = unat (currentNum s)"
  by (simp add: timer_ok_def active_def)

lemma active_nth: "i < unat (currentNum s) \<Longrightarrow> timer s ! i = active s ! i"
  by (simp add: active_def)

lemma active_restart: "i < unat (currentNum s) \<Longrightarrow> active (restart i now iv s) = (active s)[i := (active s ! i)\<lparr>ev_t := now + iv, ev_interval := iv\<rparr>]"
  by (simp add: active_def restart_def take_update_swap)

lemma more_restart [simp]: "blt_soft_timer.more (restart i now iv s) = blt_soft_timer.more s" "currentNum (restart i now iv s) = currentNum s"
  by (simp_all add: restart_def)

lemma more_delete: "blt_soft_timer_delete_by_index i s = Some (r, s') \<Longrightarrow> blt_soft_timer.more s' = blt_soft_timer.more s"
  by (auto simp: blt_soft_timer_delete_by_index_def split: if_splits)

text \<open>One step of the loop at a timer \<open>e\<close> with \<open>pre\<close> before and \<open>es\<close> behind it.\<close>

lemma loop_step:
  assumes ok: "timer_ok s" and a: "active s = pre @ e # es"
  obtains (waiting) "\<not> blt_is_timer_expired (ev_t e) now"
      "process_loop (plain_call g) now (length pre) c s = process_loop (plain_call g) now (length pre + 1) c s"
  | (deleted) r x s' where "blt_is_timer_expired (ev_t e) now" "g (ev_cb e) (blt_soft_timer.more s) = (r, x)" "r < 0"
      "process_loop (plain_call g) now (length pre) c s = process_loop (plain_call g) now (length pre + 1) c s'"
      "active s' = pre @ es" "timer_ok s'" "blt_soft_timer.more s' = x"
  | (restarted) r x s' iv where "blt_is_timer_expired (ev_t e) now" "g (ev_cb e) (blt_soft_timer.more s) = (r, x)" "\<not> r < 0"
      "iv = (if r = 0 then ev_interval e else of_int r * 16)"
      "process_loop (plain_call g) now (length pre) c s = process_loop (plain_call g) now (length pre + 1) True s'"
      "active s' = pre @ e\<lparr>ev_t := now + iv, ev_interval := iv\<rparr> # es" "timer_ok s'" "blt_soft_timer.more s' = x"
proof -
  have i: "length pre < unat (currentNum s)" using length_active [OF ok] a by simp
  have e: "timer s ! length pre = e" using active_nth [OF i] a by simp
  have nz: "ev_cb e \<noteq> 0" using ok i e by (auto simp: timer_ok_nth)
  have i4: "length pre < 4" using i ok by (simp add: timer_ok_def)
  show thesis
  proof (cases "blt_is_timer_expired (ev_t e) now")
    case False
    then show thesis using waiting i e by (simp add: process_loop.simps [of _ _ "length pre"])
  next
    case True
    obtain r x where g: "g (ev_cb e) (blt_soft_timer.more s) = (r, x)" by fastforce
    obtain u where u: "u = blt_soft_timer.more_update (\<lambda>_. x) s" by blast
    have uf: "timer_ok u" "active u = active s" "currentNum u = currentNum s" "timer u = timer s" "blt_soft_timer.more u = x"
      using ok by (simp_all add: u)
    have call: "plain_call g (ev_cb e) s = (r, u)" by (simp add: plain_call_def g u)
    show thesis
    proof (cases "r < 0")
      case neg: True
      obtain s' where s': "blt_soft_timer_delete_by_index (of_nat (length pre)) u = Some (1, s')" "timer_ok s'"
        "active s' = take (length pre) (active u) @ drop (length pre + 1) (active u)"
        using timer_delete_spec [OF uf(1), of "length pre"] i uf(3) by metis
      have "process_loop (plain_call g) now (length pre) c s = process_loop (plain_call g) now (length pre + 1) c s'"
        using True i nz call neg s'(1) by (simp add: process_loop.simps [of _ _ "length pre" c s] e after_call_def)
      moreover have "active s' = pre @ es" using s'(3) uf(2) a by simp
      ultimately show thesis using deleted True g neg s'(2) more_delete [OF s'(1)] uf(5) by blast
    next
      case nonneg: False
      obtain iv where iv: "iv = (if r = 0 then ev_interval e else of_int r * 16)" by blast
      obtain s' where s': "s' = restart (length pre) now iv u" by blast
      have "after_call (length pre) now r u = Some (True, s')"
        using nonneg e uf(4) by (auto simp: after_call_def s' iv CLOCK_16M_SYS_TIMER_CLK_1US_def)
      then have "process_loop (plain_call g) now (length pre) c s = process_loop (plain_call g) now (length pre + 1) True s'"
        using True i nz call by (simp add: process_loop.simps [of _ _ "length pre" c s] e)
      moreover have "active s' = pre @ e\<lparr>ev_t := now + iv, ev_interval := iv\<rparr> # es"
        using i uf a by (simp add: s' active_restart)
      moreover have "timer_ok s'" using restart_ok [OF uf(1) i4] by (simp add: s')
      ultimately show thesis using restarted True g nonneg iv uf(5) by (simp add: s')
    qed
  qed
qed

lemma loop_end: "timer_ok s \<Longrightarrow> unat (currentNum s) \<le> i \<Longrightarrow> process_loop call now i c s = Some (c, s)"
  by (simp add: process_loop.simps [of call now i c s])

lemma process_loop_expire:
  "timer_ok s \<Longrightarrow> active s = pre @ rest \<Longrightarrow> blt_soft_timer.more s = x \<Longrightarrow> expire g now rest x = (f, out, y) \<Longrightarrow>
   \<exists>s'. process_loop (plain_call g) now (length pre) c s = Some (c \<or> f, s') \<and> active s' = pre @ out \<and>
     blt_soft_timer.more s' = y \<and> timer_ok s'"
proof (induction g now rest x arbitrary: pre s c f out y rule: expire.induct)
  case (1 g now x)
  then show ?case using loop_end [of s "length pre"] length_active [of s] by auto
next
  case (2 g now e x)
  show ?case using 2(1,2)
  proof (cases rule: loop_step [where now = now and g = g and c = c])
    case waiting
    then show ?thesis using 2 loop_end [OF 2(1), of "length pre + 1"] length_active [OF 2(1)] by auto
  next
    case (deleted r x' s')
    then show ?thesis using 2(3,4) loop_end [OF deleted(6), of "length pre + 1"] length_active [OF deleted(6)] by auto
  next
    case (restarted r x' s' iv)
    then show ?thesis using 2(3,4) loop_end [OF restarted(7), of "length pre + 1"] length_active [OF restarted(7)]
      by (auto simp: Let_def)
  qed
next
  case (3 g now e e' es x)
  show ?case using 3(4,5)
  proof (cases rule: loop_step [where now = now and g = g and c = c])
    case waiting
    obtain f2 out2 y2 where r: "expire g now (e' # es) x = (f2, out2, y2)" using prod_cases3 by blast
    have "\<exists>s'. process_loop (plain_call g) now (length (pre @ [e])) c s = Some (c \<or> f2, s') \<and> active s' = (pre @ [e]) @ out2 \<and>
        blt_soft_timer.more s' = y2 \<and> timer_ok s'"
      using 3(3) [OF waiting(1) 3(4) _ 3(6) r, of "pre @ [e]" c] 3(5) by simp
    then show ?thesis using waiting 3(7) r by auto
  next
    case (deleted r x' s')
    obtain f2 out2 y2 where q: "expire g now es x' = (f2, out2, y2)" using prod_cases3 by blast
    have "\<exists>s''. process_loop (plain_call g) now (length (pre @ [e'])) c s' = Some (c \<or> f2, s'') \<and> active s'' = (pre @ [e']) @ out2 \<and>
        blt_soft_timer.more s'' = y2 \<and> timer_ok s''"
      using 3(1) [OF deleted(1) deleted(2) [unfolded 3(6), symmetric] refl deleted(3,6) _ deleted(7) q, of "pre @ [e']" c] deleted(5) by simp
    then show ?thesis using deleted 3(6,7) q by auto
  next
    case (restarted r x' s' iv)
    obtain f2 out2 y2 where q: "expire g now (e' # es) x' = (f2, out2, y2)" using prod_cases3 by blast
    have "\<exists>s''. process_loop (plain_call g) now (length (pre @ [e\<lparr>ev_t := now + iv, ev_interval := iv\<rparr>])) True s' = Some (True \<or> f2, s'') \<and>
        active s'' = (pre @ [e\<lparr>ev_t := now + iv, ev_interval := iv\<rparr>]) @ out2 \<and> blt_soft_timer.more s'' = y2 \<and> timer_ok s''"
      using 3(2) [OF restarted(1) restarted(2) [unfolded 3(6), symmetric] refl restarted(3) restarted(4) restarted(7) _ restarted(8) q,
          of "pre @ [e\<lparr>ev_t := now + iv, ev_interval := iv\<rparr>]" True] restarted(6) by simp
    then show ?thesis using restarted 3(6,7) q by (auto simp: Let_def)
  qed
qed

text \<open>What \<open>blt_soft_timer_process\<close> does after the loop.\<close>

lemma process_run:
  assumes ok: "timer_ok s" and now: "now = clk s (n_clk s)" and a: "active s = e # es" and ex: "blt_is_timer_expired (ev_t e) now"
    and r: "expire g now (active s) (blt_soft_timer.more s) = (f, out, y)"
  shows "\<exists>u s'. blt_soft_timer_process (plain_call g) s = Some s' \<and> timer_ok u \<and> mset (active u) = mset out \<and> blt_soft_timer.more u = y \<and>
    (f \<or> active u = out) \<and> s' = (if out = [] then set_wakeup 0 False u else arm_first now u)"
proof -
  obtain s0 where s0: "s0 = s\<lparr>n_clk := n_clk s + 1\<rparr>" by blast
  have "timer_ok s0" "active s0 = [] @ active s" "blt_soft_timer.more s0 = blt_soft_timer.more s" using ok by (simp_all add: s0)
  from process_loop_expire [OF this r, of False] obtain v where
    v: "process_loop (plain_call g) now 0 False s0 = Some (f, v)" "active v = out" "blt_soft_timer.more v = y" "timer_ok v"
    by auto
  have num: "currentNum s \<noteq> 0" using length_active [OF ok] a by auto
  then have hd: "timer s ! 0 = e" using active_nth [of 0 s] a by (simp add: unat_gt_0)
  have zero: "currentNum v = 0 \<longleftrightarrow> out = []" using length_active [OF v(4)] v(2) by (auto simp: word_unat_eq_iff)
  have run: "blt_soft_timer_process (plain_call g) s = (if out = [] then Some (set_wakeup 0 False v)
      else map_option (\<lambda>(_, s). arm_first now s) (if f then blt_soft_timer_sort v else Some (1, v)))"
    using num ex zero v(1) by (simp add: blt_soft_timer_process_def clock_time_st_def Let_def now [symmetric] s0 hd)
  show ?thesis
  proof (cases "out \<noteq> [] \<and> f")
    case True
    then obtain u where u: "blt_soft_timer_sort v = Some (1, u)" "u = v\<lparr>timer := bubble_sort (unat (currentNum v)) (timer v)\<rparr>" "timer_ok u"
      "mset (active u) = mset (active v)" using sort_spec [OF v(4)] zero by metis
    then have "blt_soft_timer.more u = y" using v(3) by simp
    then show ?thesis using True run u(1,3,4) v(2) by auto
  next
    case False
    then have "blt_soft_timer_process (plain_call g) s = Some (if out = [] then set_wakeup 0 False v else arm_first now v)"
      using run by auto
    then show ?thesis using v by blast
  qed
qed

text \<open>
C32: Processing the timers calls the callbacks and leaves the timers that the recursion \<open>expire\<close> over the
list of timers says, in which the callbacks of the expired timers run in the order of the table, except that
the timer behind a deleted one is passed over; nothing is called when the first deadline has not come.
\<close>

theorem process_calls_expired:
  assumes "timer_ok s" "active s \<noteq> []" "now = clk s (n_clk s)"
    and "expire g now (active s) (blt_soft_timer.more s) = (f, out, y)"
  shows "\<exists>s'. blt_soft_timer_process (plain_call g) s = Some s' \<and> timer_ok s' \<and>
    (if blt_is_timer_expired (ev_t (hd (active s))) now
     then mset (active s') = mset out \<and> blt_soft_timer.more s' = y
     else active s' = active s \<and> blt_soft_timer.more s' = blt_soft_timer.more s)"
proof (cases "active s")
  case (Cons e es)
  show ?thesis
  proof (cases "blt_is_timer_expired (ev_t e) now")
    case True
    have more: "blt_soft_timer.more (arm_first now u) = blt_soft_timer.more u" "blt_soft_timer.more (set_wakeup 0 False u) = blt_soft_timer.more u"
      for u :: "'a blt_soft_timer_scheme" by (simp_all add: arm_first_def set_wakeup_def)
    obtain u s' where "blt_soft_timer_process (plain_call g) s = Some s'" "timer_ok u" "mset (active u) = mset out" "blt_soft_timer.more u = y"
      "s' = (if out = [] then set_wakeup 0 False u else arm_first now u)"
      using process_run [OF assms(1,3) Cons True assms(4)] by blast
    then show ?thesis using True more by (simp add: Cons)
  next
    case False
    have "currentNum s \<noteq> 0" using length_active [OF assms(1)] Cons by auto
    moreover have "timer s ! 0 = e" using calculation active_nth [of 0 s] Cons by (simp add: unat_gt_0)
    ultimately have "blt_soft_timer_process (plain_call g) s = Some (s\<lparr>n_clk := n_clk s + 1\<rparr>)"
      using False by (simp add: blt_soft_timer_process_def clock_time_st_def assms(3))
    then show ?thesis using False assms(1) by (simp add: Cons)
  qed
qed (use assms(2) in simp)

text \<open>Two timers that have both expired: the first one asks to be deleted, and the callback of the second one is not called.\<close>

definition ran_demo :: "nat list blt_soft_timer_scheme" where
  "ran_demo = \<lparr>timer = timer timer_demo, currentNum = 2, clk = (\<lambda>n. 2000), n_clk = 0, wakeups = [], \<dots> = []\<rparr>"

lemma process_calls_expired_witness:
  "\<exists>s'. blt_soft_timer_process (plain_call (\<lambda>f ran. (if f = 1 then -1 else 0, ran @ [f]))) ran_demo = Some s' \<and>
    map ev_cb (active s') = [2] \<and> blt_soft_timer.more s' = [1]"
proof -
  have ok: "timer_ok ran_demo" "active ran_demo = take 2 (timer timer_demo)"
    by (simp_all add: timer_ok_def timer_demo_def ran_demo_def active_def)
  have ex: "expire (\<lambda>f ran. (if f = 1 then -1 else 0, ran @ [f])) 2000 (active ran_demo) (blt_soft_timer.more ran_demo) =
      (False, [timer timer_demo ! 1], [1])" "blt_is_timer_expired (ev_t (hd (active ran_demo))) 2000" "active ran_demo \<noteq> []" "2000 = clk ran_demo (n_clk ran_demo)"
    unfolding ok(2) by (simp_all add: timer_demo_def ran_demo_def blt_is_timer_expired_def BLT_TIMER_SAFE_MARGIN_PRE_def
      BLT_TIMER_SAFE_MARGIN_POST_def CLOCK_16M_SYS_TIMER_CLK_1US_def CLOCK_16M_SYS_TIMER_CLK_1S_def)
  from process_calls_expired [OF ok(1) ex(3,4,1)] ex(2) show ?thesis
    by (auto simp: timer_demo_def)
qed

text \<open>
The wake-up of a timer that was passed over is switched off: its deadline lies in the past, so it is not within
the next three seconds, and a chip that sleeps now misses it.
\<close>

lemma passed_over_timer_loses_wakeup:
  assumes "timer_ok s" "now = clk s (n_clk s)" "active s = [e, e']" "blt_is_timer_expired (ev_t e) now"
    and "fst (g (ev_cb e) (blt_soft_timer.more s)) < 0" "ev_t e' = now - late" "late \<noteq> 0" "unat late < 4246967296"
  shows "\<exists>s'. blt_soft_timer_process (plain_call g) s = Some s' \<and> active s' = [e'] \<and> last (wakeups s') = (0, False)"
proof -
  obtain r x where g: "g (ev_cb e) (blt_soft_timer.more s) = (r, x)" by fastforce
  have "expire g now (active s) (blt_soft_timer.more s) = (False, [e'], x)" using assms(3-5) g by simp
  from process_run [OF assms(1,2,3,4) this] obtain u where
    u: "blt_soft_timer_process (plain_call g) s = Some (arm_first now u)" "active u = [e']" "timer_ok u" by auto
  have hd: "timer u ! 0 = e'" using length_active [OF u(3)] active_nth [of 0 u] u(2) by simp
  moreover have "(of_nat (4294967296 - unat late) :: u32) = of_nat 4294967296 - of_nat (unat late)"
    by (intro of_nat_diff less_imp_le unat_less_2p32)
  then have "- late = of_nat (4294967296 - unat late)" by simp
  moreover have "0 < unat late" using assms(7) by (simp add: unat_gt_0)
  ultimately have "unat (- late) = 4294967296 - unat late" by (simp only: unat_of_nat_u32) simp
  then have "\<not> ev_t e' - now < 3000 * CLOCK_16M_SYS_TIMER_CLK_1MS"
    using assms(6,8) by (simp add: word_less_nat_alt CLOCK_16M_SYS_TIMER_CLK_1MS_def)
  with hd have "arm_first now u = set_wakeup 0 False u" by (simp add: arm_first_def)
  then show ?thesis using u by (simp add: set_wakeup_def active_def)
qed

end
