(* ===== verification/Timer.thy ===== *)
theory Timer
  imports Gpio
begin

text \<open>
  The three hardware timers and the watchdog of the 8258 (\<open>drivers/8258/timer.c\<close>, \<open>watchdog.c\<close>, \<open>watchdog.h\<close>). Enable and mode
  bits of all timers, the interval of the watchdog and the pending interrupts share the 32-bit register \<open>reg_tmr_ctrl\<close>,
  whose top byte \<open>reg_tmr_sta\<close> forgets the bits that are written as one.
\<close>

section \<open>Registers\<close>

definition reg_tmr_ctrl :: nat where "reg_tmr_ctrl = 0x620"
definition reg_tmr_sta :: nat where "reg_tmr_sta = 0x623"
definition reg_tmr0_capt :: nat where "reg_tmr0_capt = 0x624"
definition reg_tmr1_capt :: nat where "reg_tmr1_capt = 0x628"
definition reg_tmr2_capt :: nat where "reg_tmr2_capt = 0x62c"
definition reg_tmr0_tick :: nat where "reg_tmr0_tick = 0x630"
definition reg_tmr1_tick :: nat where "reg_tmr1_tick = 0x634"
definition reg_tmr2_tick :: nat where "reg_tmr2_tick = 0x638"
definition reg_gpio_irq_risc2_en :: "u16 \<Rightarrow> nat" where "reg_gpio_irq_risc2_en i = 0x5c8 + group8 i"

lemmas tmr_regs = reg_tmr_ctrl_def reg_tmr_sta_def reg_tmr0_capt_def reg_tmr1_capt_def reg_tmr2_capt_def
  reg_tmr0_tick_def reg_tmr1_tick_def reg_tmr2_tick_def

definition BIT_RNG32 :: "nat \<Rightarrow> nat \<Rightarrow> u32" where
  "BIT_RNG32 s e = push_bit s (BIT (e - s + 1) - 1)"

definition FLD_TMR0_EN :: u32 where "FLD_TMR0_EN = BIT 0"
definition FLD_TMR0_MODE :: u32 where "FLD_TMR0_MODE = BIT_RNG32 1 2"
definition FLD_TMR1_EN :: u32 where "FLD_TMR1_EN = BIT 3"
definition FLD_TMR1_MODE :: u32 where "FLD_TMR1_MODE = BIT_RNG32 4 5"
definition FLD_TMR2_EN :: u32 where "FLD_TMR2_EN = BIT 6"
definition FLD_TMR2_MODE :: u32 where "FLD_TMR2_MODE = BIT_RNG32 7 8"
definition FLD_TMR_WD_CAPT :: u32 where "FLD_TMR_WD_CAPT = BIT_RNG32 9 22"
definition FLD_TMR_WD_EN :: u32 where "FLD_TMR_WD_EN = BIT 23"
definition FLD_TMR_STA_TMR0 :: u8 where "FLD_TMR_STA_TMR0 = BIT 0"
definition FLD_TMR_STA_TMR1 :: u8 where "FLD_TMR_STA_TMR1 = BIT 1"
definition FLD_TMR_STA_TMR2 :: u8 where "FLD_TMR_STA_TMR2 = BIT 2"
definition FLD_TMR_STA_WD :: u8 where "FLD_TMR_STA_WD = BIT 3"
definition FLD_IRQ_TMR0_EN :: u32 where "FLD_IRQ_TMR0_EN = BIT 0"
definition FLD_IRQ_TMR1_EN :: u32 where "FLD_IRQ_TMR1_EN = BIT 1"
definition FLD_IRQ_TMR2_EN :: u32 where "FLD_IRQ_TMR2_EN = BIT 2"

lemmas tmr_flds = FLD_TMR0_EN_def FLD_TMR0_MODE_def FLD_TMR1_EN_def FLD_TMR1_MODE_def FLD_TMR2_EN_def FLD_TMR2_MODE_def
  FLD_TMR_WD_CAPT_def FLD_TMR_WD_EN_def FLD_TMR_STA_TMR0_def FLD_TMR_STA_TMR1_def FLD_TMR_STA_TMR2_def FLD_TMR_STA_WD_def
  FLD_IRQ_TMR0_EN_def FLD_IRQ_TMR1_EN_def FLD_IRQ_TMR2_EN_def

datatype timer_type = TIMER0 | TIMER1 | TIMER2

datatype timer_mode = TIMER_MODE_SYSCLK | TIMER_MODE_GPIO_TRIGGER | TIMER_MODE_GPIO_WIDTH | TIMER_MODE_TICK

fun timer_mode_val :: "timer_mode \<Rightarrow> u32" where
  "timer_mode_val TIMER_MODE_SYSCLK = 0"
| "timer_mode_val TIMER_MODE_GPIO_TRIGGER = 1"
| "timer_mode_val TIMER_MODE_GPIO_WIDTH = 2"
| "timer_mode_val TIMER_MODE_TICK = 3"

text \<open>\<open>BM_SET\<close> and \<open>BM_CLR\<close> on a 32-bit register.\<close>

definition BM_SET32 :: "nat \<Rightarrow> u32 \<Rightarrow> 'a mcu_scheme \<Rightarrow> 'a mcu_scheme" where
  "BM_SET32 a m s = write_reg32 a (read_reg32 a s OR m) s"

definition BM_CLR32 :: "nat \<Rightarrow> u32 \<Rightarrow> 'a mcu_scheme \<Rightarrow> 'a mcu_scheme" where
  "BM_CLR32 a m s = write_reg32 a (read_reg32 a s AND NOT m) s"

section \<open>The driver\<close>

text \<open>The common start of the three pin set-ups; \<open>falling\<close> is \<open>pol == POL_FALLING\<close>.\<close>

definition timer_pin :: "u16 \<Rightarrow> bool \<Rightarrow> 'a mcu_scheme \<Rightarrow> 'a mcu_scheme" where
  "timer_pin pin falling s =
     (let s = gpio_set_func pin AS_GPIO s;
          s = gpio_set_output_en pin False s;
          s = gpio_set_input_en pin True s
      in gpio_setup_up_down_resistor pin (pull_val (if falling then PM_PIN_PULLUP_10K else PM_PIN_PULLDOWN_100K)) s)"

definition timer0_gpio_init :: "u16 \<Rightarrow> bool \<Rightarrow> 'a mcu_scheme \<Rightarrow> 'a mcu_scheme" where
  "timer0_gpio_init pin falling s = gpio_set_interrupt_risc0 pin falling (timer_pin pin falling s)"

definition timer1_gpio_init :: "u16 \<Rightarrow> bool \<Rightarrow> 'a mcu_scheme \<Rightarrow> 'a mcu_scheme" where
  "timer1_gpio_init pin falling s = gpio_set_interrupt_risc1 pin falling (timer_pin pin falling s)"

definition timer2_gpio_init :: "u16 \<Rightarrow> bool \<Rightarrow> 'a mcu_scheme \<Rightarrow> 'a mcu_scheme" where
  "timer2_gpio_init pin falling s =
     (let s = BM_SET (reg_gpio_irq_risc2_en pin) (pin_bit pin) (timer_pin pin falling s)
      in BM_SEL falling (reg_gpio_pol pin) (pin_bit pin) s)"

text \<open>The four cases of the switch differ in the mode they store and in whether the capture value is set.\<close>

definition timer_setup :: "u32 \<Rightarrow> nat \<Rightarrow> nat \<Rightarrow> u8 \<Rightarrow> u32 \<Rightarrow> nat \<Rightarrow> timer_mode \<Rightarrow> u32 \<Rightarrow> u32 \<Rightarrow> 'a mcu_scheme \<Rightarrow> 'a mcu_scheme" where
  "timer_setup irq tick capt sta fld sh m init_tick cap_tick s =
     (let s = BM_SET32 reg_irq_mask irq s;
          s = write_reg32 tick init_tick s;
          s = (if m = TIMER_MODE_SYSCLK \<or> m = TIMER_MODE_GPIO_TRIGGER then write_reg32 capt cap_tick s else s);
          s = write_reg8 reg_tmr_sta sta s;
          s = BM_CLR32 reg_tmr_ctrl fld s
      in BM_SET32 reg_tmr_ctrl (push_bit sh (timer_mode_val m)) s)"

definition timer0_set_mode :: "timer_mode \<Rightarrow> u32 \<Rightarrow> u32 \<Rightarrow> 'a mcu_scheme \<Rightarrow> 'a mcu_scheme" where
  "timer0_set_mode = timer_setup FLD_IRQ_TMR0_EN reg_tmr0_tick reg_tmr0_capt FLD_TMR_STA_TMR0 FLD_TMR0_MODE 1"

definition timer1_set_mode :: "timer_mode \<Rightarrow> u32 \<Rightarrow> u32 \<Rightarrow> 'a mcu_scheme \<Rightarrow> 'a mcu_scheme" where
  "timer1_set_mode = timer_setup FLD_IRQ_TMR1_EN reg_tmr1_tick reg_tmr1_capt FLD_TMR_STA_TMR1 FLD_TMR1_MODE 4"

definition timer2_set_mode :: "timer_mode \<Rightarrow> u32 \<Rightarrow> u32 \<Rightarrow> 'a mcu_scheme \<Rightarrow> 'a mcu_scheme" where
  "timer2_set_mode = timer_setup FLD_IRQ_TMR2_EN reg_tmr2_tick reg_tmr2_capt FLD_TMR_STA_TMR2 FLD_TMR2_MODE 7"

fun timer_start :: "timer_type \<Rightarrow> 'a mcu_scheme \<Rightarrow> 'a mcu_scheme" where
  "timer_start TIMER0 s = BM_SET32 reg_tmr_ctrl FLD_TMR0_EN s"
| "timer_start TIMER1 s = BM_SET32 reg_tmr_ctrl FLD_TMR1_EN s"
| "timer_start TIMER2 s = BM_SET32 reg_tmr_ctrl FLD_TMR2_EN s"

fun timer_stop :: "timer_type \<Rightarrow> 'a mcu_scheme \<Rightarrow> 'a mcu_scheme" where
  "timer_stop TIMER0 s = BM_CLR32 reg_tmr_ctrl FLD_TMR0_EN s"
| "timer_stop TIMER1 s = BM_CLR32 reg_tmr_ctrl FLD_TMR1_EN s"
| "timer_stop TIMER2 s = BM_CLR32 reg_tmr_ctrl FLD_TMR2_EN s"

text \<open>\<open>tmp_period_ms\<close> is 16 bits wide; the shift by 18 is the resolution of the watchdog.\<close>

definition wd_set_interval_ms :: "u32 \<Rightarrow> u32 \<Rightarrow> 'a mcu_scheme \<Rightarrow> 'a mcu_scheme" where
  "wd_set_interval_ms period_ms tick_per_ms s =
     (let tmp_period_ms = ucast (drop_bit 18 (period_ms * tick_per_ms)) :: u16;
          s = write_reg32 reg_tmr2_tick 0 s;
          s = BM_CLR32 reg_tmr_ctrl FLD_TMR_WD_CAPT s
      in BM_SET32 reg_tmr_ctrl (push_bit 9 (ucast tmp_period_ms)) s)"

definition wd_start :: "'a mcu_scheme \<Rightarrow> 'a mcu_scheme" where
  "wd_start s = BM_SET32 reg_tmr_ctrl FLD_TMR_WD_EN (BM_SET32 reg_tmr_ctrl FLD_TMR2_EN s)"

definition wd_stop :: "'a mcu_scheme \<Rightarrow> 'a mcu_scheme" where
  "wd_stop s = BM_CLR32 reg_tmr_ctrl FLD_TMR_WD_EN s"

definition wd_clear_d :: "'a mcu_scheme \<Rightarrow> 'a mcu_scheme" where
  "wd_clear_d s = write_reg8 reg_tmr_sta FLD_TMR_STA_WD s"

section \<open>The control register\<close>

text \<open>Its 24 bits of settings, and its byte of pending interrupts.\<close>

definition tmr_bits :: "'a mcu_scheme \<Rightarrow> u32" where
  "tmr_bits s = read_reg32 reg_tmr_ctrl s AND 0xffffff"

definition tmr_pending :: "'a mcu_scheme \<Rightarrow> u8" where
  "tmr_pending s = dig s reg_tmr_sta"

lemma mask24: "(0xffffff :: u32) = mask 24"
  by (simp add: mask_eq_exp_minus_1)

lemma read_write_reg32:
  assumes "\<forall>i < 4. \<not> w1c (a + i) \<and> \<not> ro (a + i) \<and> a + i \<noteq> 0xba"
  shows "read_reg32 a (write_reg32 a v s) = v"
proof -
  have i: "\<not> w1c a" "\<not> w1c (Suc a)" "\<not> w1c (a + 2)" "\<not> w1c (a + 3)" "\<not> ro a" "\<not> ro (Suc a)" "\<not> ro (a + 2)" "\<not> ro (a + 3)"
    "a \<noteq> 0xba" "Suc a \<noteq> 0xba" "a + 2 \<noteq> 0xba" "a + 3 \<noteq> 0xba"
    using assms [rule_format, of 0] assms [rule_format, of 1] assms [rule_format, of 2] assms [rule_format, of 3] by simp_all
  have "read_reg16 (a + 2) (write_reg32 a v s) = ucast (drop_bit 16 v)" "read_reg16 a (write_reg32 a v s) = ucast v"
    using i by (simp_all add: read_reg16_def read_reg8_def write_reg32_def write_reg16_def eval_nat_numeral)
  moreover have "push_bit 16 (ucast (ucast (drop_bit 16 v) :: u16)) OR ucast (ucast v :: u16) = v"
    by (rule bit_word_eqI) (auto simp: bit_simps)
  ultimately show ?thesis by (simp add: read_reg32_def)
qed

lemma tmr_ctrl_write:
  "tmr_bits (write_reg32 reg_tmr_ctrl v s) = v AND 0xffffff"
  "tmr_pending (write_reg32 reg_tmr_ctrl v s) = tmr_pending s AND NOT (ucast (drop_bit 24 v))"
proof -
  let ?s = "write_reg32 reg_tmr_ctrl v s"
  have d: "dig ?s 0x620 = lo8 (ucast v)" "dig ?s 0x621 = hi8 (ucast v)" "dig ?s 0x622 = lo8 (ucast (drop_bit 16 v))"
    "dig ?s 0x623 = dig s 0x623 AND NOT (hi8 (ucast (drop_bit 16 v)))"
    by (simp_all add: tmr_regs write_reg32_def write_reg16_def w1c_def ro_def)
  show "tmr_bits ?s = v AND 0xffffff"
    unfolding tmr_bits_def mask24 read_reg32_def read_reg16_def read_reg8_def mk16_def tmr_regs
    by (rule bit_word_eqI) (auto simp: d [unfolded tmr_regs] lo8_def hi8_def bit_simps le_diff_conv2 dest: bit_imp_le_length)
  have "hi8 (ucast (drop_bit 16 v)) = ucast (drop_bit 24 v)"
    unfolding hi8_def by (rule bit_word_eqI) (auto simp: bit_simps)
  then show "tmr_pending ?s = tmr_pending s AND NOT (ucast (drop_bit 24 v))" by (simp add: tmr_pending_def tmr_regs d [unfolded tmr_regs])
qed

lemma tmr_read:
  "read_reg32 reg_tmr_ctrl s AND 0xffffff = tmr_bits s" "ucast (drop_bit 24 (read_reg32 reg_tmr_ctrl s)) = tmr_pending s"
proof -
  show "ucast (drop_bit 24 (read_reg32 reg_tmr_ctrl s)) = tmr_pending s"
    unfolding tmr_pending_def read_reg32_def read_reg16_def read_reg8_def mk16_def tmr_regs
    by (rule bit_word_eqI) (auto simp: bit_simps dest: bit_imp_le_length)
qed (simp add: tmr_bits_def)

text \<open>Read, change, write back: the settings change, and every pending interrupt is read as one, written back and forgotten.\<close>

lemma tmr_update:
  "tmr_bits (BM_SET32 reg_tmr_ctrl m s) = (tmr_bits s OR m) AND 0xffffff" "tmr_pending (BM_SET32 reg_tmr_ctrl m s) = 0"
  "tmr_bits (BM_CLR32 reg_tmr_ctrl m s) = tmr_bits s AND NOT m"
  "drop_bit 24 m = 0 \<Longrightarrow> tmr_pending (BM_CLR32 reg_tmr_ctrl m s) = 0"
proof -
  have b: "bit (tmr_pending s) n = (n < 8 \<and> bit (read_reg32 reg_tmr_ctrl s) (24 + n))" for n
    using arg_cong [OF tmr_read(2) [of s], of "\<lambda>w. bit w n"] by (auto simp: bit_simps)
  show "tmr_bits (BM_SET32 reg_tmr_ctrl m s) = (tmr_bits s OR m) AND 0xffffff"
    unfolding BM_SET32_def tmr_ctrl_write unfolding tmr_bits_def by (rule bit_word_eqI) (auto simp: bit_simps)
  show "tmr_bits (BM_CLR32 reg_tmr_ctrl m s) = tmr_bits s AND NOT m"
    unfolding BM_CLR32_def tmr_ctrl_write unfolding tmr_bits_def by (rule bit_word_eqI) (auto simp: bit_simps)
  show "tmr_pending (BM_SET32 reg_tmr_ctrl m s) = 0"
    unfolding BM_SET32_def tmr_ctrl_write by (rule bit_word_eqI) (auto simp: b bit_simps)
  show "tmr_pending (BM_CLR32 reg_tmr_ctrl m s) = 0" if m: "drop_bit 24 m = 0"
  proof -
    have "\<not> bit m (24 + n)" for n using arg_cong [OF m, of "\<lambda>w. bit w n"] by (simp add: bit_simps)
    then show ?thesis unfolding BM_CLR32_def tmr_ctrl_write by (intro bit_word_eqI) (auto simp: b bit_simps)
  qed
qed

lemma read_reg32_other:
  assumes "a + 4 \<le> b \<or> b + 4 \<le> a" "0xba < b \<or> b + 3 < 0xba"
  shows "read_reg32 a (write_reg32 b v s) = read_reg32 a s"
  using assms by (auto simp: read_reg32_def read_reg16_def read_reg8_def write_reg32_def write_reg16_def)

lemma read_reg32_other8:
  assumes "b < a \<or> a + 4 \<le> b" "b \<noteq> 0xba"
  shows "read_reg32 a (write_reg8 b v s) = read_reg32 a s"
  using assms by (auto simp: read_reg32_def read_reg16_def read_reg8_def)

lemma tmr_other:
  assumes "a + 4 \<le> reg_tmr_ctrl \<or> reg_tmr_ctrl + 4 \<le> a" "0xba < a"
  shows "tmr_bits (write_reg32 a v s) = tmr_bits s" "tmr_pending (write_reg32 a v s) = tmr_pending s"
  using assms by (auto simp: tmr_bits_def read_reg32_other tmr_regs) (auto simp: tmr_pending_def tmr_regs write_reg32_def write_reg16_def)

lemma tmr_status_write: "tmr_bits (write_reg8 reg_tmr_sta v s) = tmr_bits s"
proof -
  have "dig (write_reg8 reg_tmr_sta v s) i = dig s i" if "i \<noteq> 0x623" for i using that by (simp add: tmr_regs)
  then have "tmr_bits (write_reg8 reg_tmr_sta v s) = push_bit 16 (ucast (mk16 (dig (write_reg8 reg_tmr_sta v s) 0x623) (dig s 0x622))) AND 0xffffff
      OR (ucast (mk16 (dig s 0x621) (dig s 0x620)) AND 0xffffff)"
    by (simp add: tmr_bits_def read_reg32_def read_reg16_def read_reg8_def tmr_regs bit.conj_disj_distrib2)
  also have "\<dots> = tmr_bits s"
    unfolding tmr_bits_def read_reg32_def read_reg16_def read_reg8_def tmr_regs mask24 mk16_def
    by (rule bit_word_eqI) (auto simp: bit_simps dest: bit_imp_le_length)
  finally show ?thesis .
qed

section \<open>Properties\<close>

fun tmr_tick :: "timer_type \<Rightarrow> nat" where
  "tmr_tick TIMER0 = reg_tmr0_tick" | "tmr_tick TIMER1 = reg_tmr1_tick" | "tmr_tick TIMER2 = reg_tmr2_tick"

fun tmr_capt :: "timer_type \<Rightarrow> nat" where
  "tmr_capt TIMER0 = reg_tmr0_capt" | "tmr_capt TIMER1 = reg_tmr1_capt" | "tmr_capt TIMER2 = reg_tmr2_capt"

fun tmr_field :: "timer_type \<Rightarrow> u32" where
  "tmr_field TIMER0 = FLD_TMR0_MODE" | "tmr_field TIMER1 = FLD_TMR1_MODE" | "tmr_field TIMER2 = FLD_TMR2_MODE"

fun tmr_shift :: "timer_type \<Rightarrow> nat" where
  "tmr_shift TIMER0 = 1" | "tmr_shift TIMER1 = 4" | "tmr_shift TIMER2 = 7"

fun tmr_irq :: "timer_type \<Rightarrow> u32" where
  "tmr_irq TIMER0 = FLD_IRQ_TMR0_EN" | "tmr_irq TIMER1 = FLD_IRQ_TMR1_EN" | "tmr_irq TIMER2 = FLD_IRQ_TMR2_EN"

fun tmr_sta :: "timer_type \<Rightarrow> u8" where
  "tmr_sta TIMER0 = FLD_TMR_STA_TMR0" | "tmr_sta TIMER1 = FLD_TMR_STA_TMR1" | "tmr_sta TIMER2 = FLD_TMR_STA_TMR2"

fun timer_set_mode :: "timer_type \<Rightarrow> timer_mode \<Rightarrow> u32 \<Rightarrow> u32 \<Rightarrow> 'a mcu_scheme \<Rightarrow> 'a mcu_scheme" where
  "timer_set_mode TIMER0 = timer0_set_mode" | "timer_set_mode TIMER1 = timer1_set_mode" | "timer_set_mode TIMER2 = timer2_set_mode"

lemma timer_set_mode_setup:
  "timer_set_mode t = timer_setup (tmr_irq t) (tmr_tick t) (tmr_capt t) (tmr_sta t) (tmr_field t) (tmr_shift t)"
  by (cases t) (simp_all add: timer0_set_mode_def timer1_set_mode_def timer2_set_mode_def)

lemma and_or_within:
  fixes x y p mm :: u32
  assumes "x AND mm = x" "p AND mm = p"
  shows "(x AND y OR p) AND mm = x AND y OR p"
proof (rule bit_word_eqI)
  fix n
  have "bit x n \<Longrightarrow> bit mm n" "bit p n \<Longrightarrow> bit mm n" using assms by (metis bit_and_iff)+
  then show "bit ((x AND y OR p) AND mm) n = bit (x AND y OR p) n" by (auto simp: bit_and_iff bit_or_iff)
qed

lemma tmr_field_facts:
  "drop_bit 24 (tmr_field t) = 0" "push_bit (tmr_shift t) (timer_mode_val m) AND NOT (tmr_field t) = 0"
  "tmr_field t AND 0xffffff = tmr_field t"
  by (cases t; cases m; simp add: tmr_flds BIT_RNG32_def BIT_def)+

text \<open>
Configuring a timer stores its first count, its capture value in the two modes that have one, and its mode, and enables
its interrupt, whatever was set before; the settings of the other timers and of the watchdog stay. But the status byte is part of the
register that is read and written back: the pending interrupts of all timers and the sign of the watchdog are
forgotten, not only those of the timer that is configured.
\<close>

theorem timer_configured:
  "let s' = timer_set_mode t m init_tick cap_tick s in
     read_reg32 (tmr_tick t) s' = init_tick \<and>
     read_reg32 (tmr_capt t) s' =
       (if m = TIMER_MODE_SYSCLK \<or> m = TIMER_MODE_GPIO_TRIGGER then cap_tick else read_reg32 (tmr_capt t) s) \<and>
     tmr_bits s' = (tmr_bits s AND NOT (tmr_field t)) OR push_bit (tmr_shift t) (timer_mode_val m) \<and>
     read_reg32 reg_irq_mask s' = read_reg32 reg_irq_mask s OR tmr_irq t \<and> tmr_pending s' = 0"
proof -
  obtain s1 where s1: "s1 = BM_SET32 reg_irq_mask (tmr_irq t) s" by blast
  obtain s2 where s2: "s2 = write_reg32 (tmr_tick t) init_tick s1" by blast
  obtain s3 where s3: "s3 = (if m = TIMER_MODE_SYSCLK \<or> m = TIMER_MODE_GPIO_TRIGGER then write_reg32 (tmr_capt t) cap_tick s2 else s2)" by blast
  obtain s4 where s4: "s4 = BM_CLR32 reg_tmr_ctrl (tmr_field t) (write_reg8 reg_tmr_sta (tmr_sta t) s3)" by blast
  have s5: "timer_set_mode t m init_tick cap_tick s = BM_SET32 reg_tmr_ctrl (push_bit (tmr_shift t) (timer_mode_val m)) s4"
    by (simp add: timer_set_mode_setup timer_setup_def Let_def s1 s2 s3 s4)
  have addr: "tmr_tick t \<in> {0x630, 0x634, 0x638}" "tmr_capt t \<in> {0x624, 0x628, 0x62c}" by (cases t; simp add: tmr_regs)+
  have last: "read_reg32 a (BM_SET32 reg_tmr_ctrl v s4) = read_reg32 a s3" if "0x624 \<le> a" for a v
    using that by (simp add: BM_SET32_def s4 BM_CLR32_def read_reg32_other read_reg32_other8 tmr_regs)
  have "read_reg32 (tmr_tick t) s3 = init_tick"
    using addr by (auto simp: s3 s2 read_reg32_other read_write_reg32 w1c_def ro_def)
  moreover have "read_reg32 (tmr_capt t) s3 = (if m = TIMER_MODE_SYSCLK \<or> m = TIMER_MODE_GPIO_TRIGGER then cap_tick else read_reg32 (tmr_capt t) s)"
    using addr by (auto simp: s3 s2 s1 BM_SET32_def irq_regs read_reg32_other read_write_reg32 w1c_def ro_def)
  moreover have "read_reg32 reg_irq_mask s3 = read_reg32 reg_irq_mask s OR tmr_irq t"
  proof -
    have "read_reg32 reg_irq_mask s3 = read_reg32 reg_irq_mask s1"
      using addr by (auto simp: s3 s2 read_reg32_other irq_regs)
    then show ?thesis by (simp add: s1 BM_SET32_def irq_regs read_write_reg32 w1c_def ro_def)
  qed
  moreover have "tmr_bits s4 = tmr_bits s AND NOT (tmr_field t)"
  proof -
    have "tmr_bits s3 = tmr_bits s" using addr by (auto simp: s3 s2 s1 BM_SET32_def tmr_other tmr_regs irq_regs)
    then show ?thesis by (simp add: s4 tmr_update tmr_status_write)
  qed
  moreover have "(tmr_bits s AND NOT (tmr_field t) OR push_bit (tmr_shift t) (timer_mode_val m)) AND 0xffffff =
      tmr_bits s AND NOT (tmr_field t) OR push_bit (tmr_shift t) (timer_mode_val m)"
  proof -
    have "tmr_bits s AND 0xffffff = tmr_bits s" by (simp add: tmr_bits_def and.assoc)
    moreover have "push_bit (tmr_shift t) (timer_mode_val m) AND 0xffffff = push_bit (tmr_shift t) (timer_mode_val m)"
      by (cases t; cases m; simp)
    ultimately show ?thesis by (rule and_or_within)
  qed
  ultimately show ?thesis using addr
    by (simp add: s5 Let_def tmr_update) (auto simp: last irq_regs)
qed

lemma bit_wd_capt: "bit FLD_TMR_WD_CAPT n \<longleftrightarrow> 9 \<le> n \<and> n \<le> 22"
proof -
  have "FLD_TMR_WD_CAPT = push_bit 9 (mask 14)" by (simp add: tmr_flds BIT_RNG32_def BIT_def mask_eq_exp_minus_1)
  then have "bit FLD_TMR_WD_CAPT n = bit (push_bit 9 (mask 14) :: u32) n" by (rule arg_cong)
  also have "\<dots> = (9 \<le> n \<and> n \<le> 22)" by (auto simp: bit_simps)
  finally show ?thesis .
qed

text \<open>
The interval of the watchdog, in steps of \<open>2^18\<close> ticks, is the largest that is not longer than the period asked for, and the
other settings stay. The product of period and tick rate is taken modulo \<open>2^32\<close>: from 268 seconds on at 16 MHz
the watchdog comes too early.
\<close>

theorem watchdog_interval:
  "let s' = wd_set_interval_ms period_ms tick_per_ms s; c = unat (drop_bit 9 (tmr_bits s' AND FLD_TMR_WD_CAPT));
       ticks = unat period_ms * unat tick_per_ms mod 2 ^ 32
   in c * 2 ^ 18 \<le> ticks \<and> ticks < (c + 1) * 2 ^ 18 \<and>
     tmr_bits s' AND NOT FLD_TMR_WD_CAPT = tmr_bits s AND NOT FLD_TMR_WD_CAPT \<and> tmr_pending s' = 0"
proof -
  obtain w where w: "w = period_ms * tick_per_ms" by blast
  let ?s = "wd_set_interval_ms period_ms tick_per_ms s"
  have tick: "tmr_bits (write_reg32 reg_tmr2_tick v s) = tmr_bits s" for v by (rule tmr_other) (simp_all add: tmr_regs)
  have m: "(0xffffff :: u32) = mask 24" by (simp add: mask_eq_exp_minus_1)
  have "tmr_bits ?s = (tmr_bits s AND NOT FLD_TMR_WD_CAPT OR push_bit 9 (ucast (ucast (drop_bit 18 w) :: u16))) AND 0xffffff"
    by (simp add: wd_set_interval_ms_def Let_def tmr_update tick w [symmetric])
  then have bits: "tmr_bits ?s = (tmr_bits s AND NOT FLD_TMR_WD_CAPT OR push_bit 9 (drop_bit 18 w)) AND 0xffffff"
  proof -
    assume a: "tmr_bits ?s = (tmr_bits s AND NOT FLD_TMR_WD_CAPT OR push_bit 9 (ucast (ucast (drop_bit 18 w) :: u16))) AND 0xffffff"
    have "ucast (ucast (drop_bit 18 w) :: u16) = drop_bit 18 w"
      by (rule bit_word_eqI) (auto simp: bit_simps dest: bit_imp_le_length)
    with a show ?thesis by simp
  qed
  have b: "bit (tmr_bits s) n \<Longrightarrow> n < 24" for n by (simp add: tmr_bits_def m bit_simps)
  have c: "drop_bit 9 (tmr_bits ?s AND FLD_TMR_WD_CAPT) = drop_bit 18 w"
    unfolding bits m by (rule bit_word_eqI) (auto simp: bit_simps bit_wd_capt dest: bit_imp_le_length)
  have others: "tmr_bits ?s AND NOT FLD_TMR_WD_CAPT = tmr_bits s AND NOT FLD_TMR_WD_CAPT"
    unfolding bits m by (rule bit_word_eqI) (auto simp: bit_simps bit_wd_capt dest: b bit_imp_le_length)
  have t: "unat w = unat period_ms * unat tick_per_ms mod 2 ^ 32" by (simp add: w unat_word_ariths)
  have d: "unat (drop_bit 18 w) = unat w div 2 ^ 18" unfolding unat_drop_bit_eq by (rule drop_bit_eq_div)
  have "tmr_pending ?s = 0" by (simp add: wd_set_interval_ms_def Let_def tmr_update)
  moreover have "unat w div 2 ^ 18 * 2 ^ 18 \<le> unat w" "unat w < (unat w div 2 ^ 18 + 1) * 2 ^ 18"
    using div_mult_mod_eq [of "unat w" "2 ^ 18"] mod_less_divisor [of "2 ^ 18" "unat w"] by simp_all
  ultimately show ?thesis using others by (simp only: Let_def c d t [symmetric])
qed

end
