(* ===== verification/Spec2Isabelle.thy ===== *)
theory Spec2Isabelle
  imports Prelude Fifo Hw Pir Lux Led FactoryReset SoftUart
    Join MainLoop Control ProxyFilter ProxySar MeshFlash CString PtrList
    Mem FlashDrv FlashExt FlashMaint Regs Gpio GpioInit GpioFacts
    SelSort Qsort QsortFacts Printf PrintfFacts Adc AdcFacts Uart
    UartFacts HciUart HciRx I2c I2cFacts SystemTime Heartbeat HeartbeatFacts
    SoftTimer SoftTimerFacts Timer
begin

text \<open>
Verification library of the firmware of a battery-driven motion and light sensor: a Bluetooth mesh
node on a Telink TLSR8258 (the 8258_mesh build: \<open>__PROJECT_MESH__\<close> 1, \<open>MCU_CORE_8258\<close>, 512 KB of
flash, packed structs and short enums). All paths below are relative to \<open>src/firmware\<close>. The
statements are about the C code as it is compiled for that build; branches that its configuration
compiles out are left out, and the notes of the manifest name them.

The program. \<open>vendor/mesh/main.c\<close> starts the chip, reads the two outputs of the motion sensor, and
before it starts the radio it decides in \<open>sleepBeforSend\<close> whether there is anything to report. If
there is nothing, the chip goes back to deep sleep, where only a few analog registers and the flash
keep their contents. Otherwise the mesh stack is started, \<open>sensorSendData\<close> runs \<open>main_loop\<close>
(\<open>vendor/mesh/app.c\<close>: the stack, the button scan, the indicator and \<open>factory_reset_cnt_check\<close>) around
each report, and \<open>sleepAfterSend\<close> puts the chip to sleep. The application is in \<open>vendor/Rang_Dong\<close>; the storage of
the network parameters, the proxy filter, the reassembly of GATT segments and the power-cycle
gesture are in \<open>vendor/common\<close>; everything stands on the drivers of \<open>drivers/8258\<close> and the
utilities of \<open>proj/common\<close>.
\<close>

section \<open>Theories and code\<close>

text \<open>
Machine. \<open>Prelude\<close> names the machine integers (\<open>u8\<close>, \<open>u16\<close>, \<open>u32\<close> are words of that width, so that
\<open>+\<close> and \<open>-\<close> wrap as in C) and the byte-buffer operations. \<open>Hw\<close> is the machine the application sees:
analog registers that survive deep sleep, flash, and streams of inputs (pin levels, clock ticks,
conversion results), with a log of the commands given to the peripherals; an operation of the
application is a state monad over it. \<open>Regs\<close> is the machine the drivers see: digital and analog
registers, write-one-to-clear status bits, read-only registers, and the start bit that performs an
analog access. \<open>FlashDrv\<close> has a third, smaller machine: a serial NOR chip behind a chip-select line.

Application. \<open>Pir\<close> is \<open>RD_pir_DC_Control.c\<close> (sampling, motion timer, saved flags, battery), \<open>Lux\<close> is
\<open>RD_Light_Sensor.c\<close>, \<open>Led\<close> the blinking of \<open>vendor/common/light.c\<close>, \<open>FactoryReset\<close> is
\<open>vendor/common/factory_reset.c\<close>, \<open>SoftUart\<close> is \<open>SoftUart.c\<close>, \<open>Join\<close> is \<open>RD_type_device.c\<close> with
\<open>RD_flash.c\<close>, \<open>MainLoop\<close> is \<open>main_loop\<close> of \<open>vendor/mesh/app.c\<close> with the indicator of \<open>light.c\<close>, over the
entry points of the SDK library as arguments (\<open>mesh_stack\<close>), and \<open>Control\<close> is \<open>RD_control.c\<close> with the
start-up and the endless loop of \<open>vendor/mesh/main.c\<close>; \<open>Control\<close> imports the others and composes them
the way \<open>main\<close> does. The records of these theories extend each other (\<open>hw\<close>, \<open>frst_st\<close>, \<open>pir_st\<close>,
\<open>lux_st\<close>, \<open>join_st\<close>, \<open>main_st\<close>, \<open>ctrl_st\<close>), so that the main program has the variables of all its parts.

Network. \<open>ProxyFilter\<close> is the filter of \<open>vendor/common/app_proxy.c\<close> (records with 16 slots and a
16-bit occupancy word, as in the code); \<open>ProxySar\<close> is segmentation and reassembly in
\<open>vendor/common/app_provison.c\<close> and the write handlers of \<open>vendor/mesh/app_att.c\<close>; it hands complete
configuration messages to \<open>ProxyFilter\<close>. \<open>MeshFlash\<close> is the record storage of
\<open>vendor/common/mesh_node.c\<close>.

Drivers and utilities. \<open>FlashDrv\<close>, \<open>FlashExt\<close> and \<open>FlashMaint\<close> are \<open>drivers/8258/flash.c\<close> (driver,
capacity and value logs, maintenance operations); \<open>Regs\<close>, \<open>Gpio\<close>, \<open>GpioInit\<close> and \<open>GpioFacts\<close> are
\<open>analog.c\<close>, \<open>irq.h\<close>, \<open>gpio_8258.c\<close>, \<open>gpio_8258.h\<close> and \<open>gpio_default_8258.h\<close>. \<open>Fifo\<close> is the packet
ring of \<open>proj/common/tutility.c\<close>, \<open>CString\<close> is \<open>tstring.c\<close> and the byte-order helpers, \<open>PtrList\<close> is
\<open>list.c\<close>, and \<open>Mem\<close> is \<open>mmem.c\<close> and \<open>mempool.c\<close>. \<open>Qsort\<close> and \<open>QsortFacts\<close> are \<open>qsort.c\<close> at the level of
bytes, with the comparison as a parameter, and \<open>SelSort\<close> is \<open>selection_sort.c\<close>. \<open>Printf\<close> and
\<open>PrintfFacts\<close> are \<open>printf.c\<close>, whose characters go out through \<open>SoftUart\<close>.
\<open>Adc\<close> and \<open>AdcFacts\<close> are \<open>adc.c\<close> and \<open>adc.h\<close> with the sample buffer of \<open>dfifo.h\<close>. \<open>Uart\<close> and \<open>UartFacts\<close> are
\<open>uart.c\<close>, \<open>uart.h\<close> and \<open>dma.h\<close>, and \<open>HciUart\<close> is the reporting side of the host interface in
\<open>vendor/common/mesh_common.c\<close>: the ring of \<open>Fifo\<close>, the poll that empties it and the DMA that sends, as a
step relation (\<open>hci_step\<close>) with reachable states (\<open>hci_reach\<close>). \<open>HciRx\<close> is its receiving side: the interrupt handlers
\<open>irq_handler\<close> and \<open>irq_uart_handle\<close> of \<open>vendor/mesh/main.c\<close>, the poll and the dispatch of the commands (\<open>rx_step\<close>, \<open>rx_reach\<close>). \<open>I2c\<close> and \<open>I2cFacts\<close> are \<open>i2c.c\<close> and \<open>i2c.h\<close> down to
the conditions and bytes on the bus, with the light sensor of \<open>RD_Light_Sensor.c\<close> on top.
\<open>SystemTime\<close> is the software clock of \<open>vendor/common/system_time.c\<close>, with the pollers it calls as hooks, and \<open>Heartbeat\<close> and
\<open>HeartbeatFacts\<close> are \<open>vendor/common/app_heartbeat.c\<close>, which it polls. \<open>SoftTimer\<close> and \<open>SoftTimerFacts\<close> are
\<open>vendor/common/blt_soft_timer.c\<close>, the timers of the low-power applications. \<open>Timer\<close> is \<open>timer.c\<close>, \<open>watchdog.c\<close> and
\<open>watchdog.h\<close>, the hardware timers and the watchdog.
\<close>

section \<open>Interfaces between components\<close>

text \<open>
\<open>Fifo\<close> states the contract of a bounded queue as the locale \<open>bounded_queue\<close> (push, front and pop over
the list of items, with a capacity and an admission test), proves what a producer and a consumer
rely on once inside it, and interprets it on the byte-level ring. \<open>ProxyFilter\<close> does the same for
\<open>bounded_set\<close>, the contract of the two address lists.
\<open>QsortFacts\<close> states what the callback of a sort must satisfy as \<open>sort_order\<close> and interprets it on the
comparison of elements by \<open>memcmp\<close>. \<open>HciUart\<close> is a client of the ring: its invariant (\<open>hci_ledger\<close>) balances
the reports accepted by the ring against those on the line, in flight and waiting. \<open>HciRx\<close> states what it asks of the command
handlers of the mesh library as \<open>command_handlers\<close> and interprets it on handlers that report their call through the sending ring.
\<open>I2cFacts\<close> states what a device that stores what is written to an address promises on the bus as \<open>i2c_memory\<close>, proves
that the driver reads back what it wrote once inside it, and interprets it on the slave mode of the chip.
\<open>SystemTime\<close> states what the clock asks of the pollers it calls as \<open>time_client\<close>, and \<open>HeartbeatFacts\<close> extends it to
\<open>heartbeat_client\<close>, where the heartbeat is one of them; both are interpreted on hooks that record the other calls.

The parameter storage and the driver meet in the theorem \<open>flash_driver_refines\<close>: \<open>MeshFlash\<close> is
written over elementary operations (program one page, erase one sector, read), and the driver is
shown to perform exactly these on the chip, whatever the chip was doing before, as long as it
becomes ready within the driver's polling bound.
\<close>

section \<open>What the lemmas show\<close>

text \<open>
Motion and light: what one wake-up reports, and which flags it leaves and saves, as a function of the
pin levels and of the saved flags; which edges survive a deep sleep and which do not; when the motion
flag is dropped, in both branches of the comparison; that the conversion of the light sensor is exact,
bounded and monotone; when a reading is reported; and which messages the sensor sends on top of a main
loop that may receive others. That theorem assumes of the stack only \<open>no_reports\<close>: it sends no message
with the sensor's opcode and leaves the light level alone, which the handlers of \<open>Join\<close> do (\<open>obs_handlers\<close>).

Power cycles: the counter in flash is refined, for the counts that complete cycles leave, to an automaton
on the plain count (\<open>rst_sim\<close> in \<open>FactoryReset\<close> is the simulation relation), five cycles of the right length reset the node, and a
reset erases the counter last. Joining: the outcome of each handler, when the node is kicked out,
and the division by zero in the confirm arithmetic.

Storage: a stored record is retrieved after a restart; power loss at any byte leaves the old or the
new record, or none if the full sector had to be erased first; and the case in which a repeated store is lost. Value logs of the driver likewise.

Network: reassembly inverts segmentation whatever was received before, and which accesses leave its
buffer; filter messages act on sets of addresses.

Drivers: pin functions, pull-ups and shut-down concern the pin they name or they do not, and where
they do not this is a theorem too. The converter: the registers after its initialisation, and that a
reading is the mean of the middle four samples, which two outliers on either side do not move. The I2C driver: the
events of each transfer on the bus, and that a memory on it is read as it was written. The software clock: its counters
are the elapsed time, every periodic handler is called once per period, and a configured heartbeat keeps its schedule. The software timers: the table keeps its type under all operations
(\<open>timer_reach\<close>), an added timer is armed in time, and the expiry loop is a recursion over the list of timers. The
serial port: every reasonable rate is configured to within nine clock cycles per bit; reports are sent
in order in every interleaving, and the ring drains; commands from the host are handled in order as long as it leaves a slot free,
and what the command handler is called with when it does not is a theorem as well (\<open>hands_over\<close>). Utilities: functional correctness against sequences; the
sorts return, sort and stay inside their stack; numbers that are printed are read back by a receiver.
\<close>

section \<open>Bounds, fuel and number formats\<close>

text \<open>
Loops that count are structural recursion or have a termination proof. Loops that wait for hardware
have the bound the code has, or fuel: the button loop of \<open>Control\<close> ends after at most 52 readings
(\<open>hold_loop\<close>), the search for the counter in \<open>FactoryReset\<close> after the 4096 bytes of a sector, the
sampling of a motion pin after 100 readings, and the driver waits for at most 10,000,000 polls of the
status register, which is the bound in the code. Where fuel is used the theorem that the code
returns says how much is enough. The waits that the code does not bound (\<open>wait_exceed\<close> in \<open>Adc\<close>, \<open>wait_tx_room\<close> and the
candidate loop of \<open>IsPrime\<close> in \<open>Uart\<close>, the loops of \<open>Qsort\<close>) are partial functions into an option, where \<open>None\<close> is a
loop that does not end, and the theorems about them show that they return; for the converter this
assumes a clock that keeps running (\<open>runs\<close>).

Floating point: the code computes three conversions in \<open>float\<close> or \<open>double\<close>. They are written here
as integer expressions that were compared with the C expressions on their whole input range: the
millivolt line \<open>1.7339*v - 39.868\<close> truncates to \<open>(17339*v - 398680) div 10000\<close> for \<open>v\<close> from 61 to
1341849; \<open>0.01 * 2^k * l\<close> truncates to \<open>2^k*l div 100\<close> for every exponent below 16 and every mantissa
below 4096; and the battery percentage is \<open>(2*p - 2200) div 10\<close> for \<open>p\<close> of at least 1100. Below that
the C conversion of a negative value to an unsigned type is undefined, and the model says so.
\<close>

section \<open>Not modelled\<close>

text \<open>
The radio, the BLE controller and host and the mesh network, transport and foundation layers are
libraries without source (\<open>proj_lib\<close>, \<open>stack\<close>); what the application uses of them are parameters of
the definitions, and what it sends to them is logged. Interrupt handlers and their interleaving with
the main loop are not modelled: each operation is one atomic step, as it is with interrupts
disabled; only in \<open>HciRx\<close> the interrupt of the serial port, and in \<open>HciUart\<close> the completion of a transfer may come between any two operations. The C pointer arithmetic of the drivers on the register file is modelled by addresses.
The models of the stack in \<open>vendor/common\<close> beyond the parts above (lighting, scenes, time, firmware
update, vendor messages), the voice, USB, keyboard and mouse parts of the software development kit,
the drivers of the other chips (8263, 8266, 8267, 8278), the HomeKit and cryptographic sources of
third parties, the simulator, and the iOS and Android applications are not part of this library; the
manifest lists them with the reason.
\<close>

end
